(* ===== verification/Prelude.thy ===== *)
theory Prelude
  imports Main "HOL-Library.Word"
begin

text \<open>
  Shared material of the development: the names of the machine-level types, the bit
  length of a number, the big-endian value of a byte string, Horner evaluation of an
  exponent bit by bit, and a few list facts. The collections \<open>gmp_law\<close> (what GMP
  documents of its functions), \<open>impl_law\<close> (what a field operation means through the
  abstraction function) and \<open>model_def\<close> (definitions unfolded by the component proofs)
  are filled by the other theories.
\<close>

named_theorems gmp_law \<open>documented behaviour of the GMP functions\<close>
named_theorems impl_law \<open>field operations through their abstraction function\<close>
named_theorems model_def \<open>definitions of the straight-line operations\<close>

type_synonym byte = "8 word"

section \<open>Bit length\<close>

text \<open>The number of binary digits, one for zero, as \<open>mpz_sizeinbase\<close> counts them.\<close>

fun nbits :: "nat \<Rightarrow> nat" where
  "nbits n = (if n \<le> 1 then 1 else Suc (nbits (n div 2)))"

declare nbits.simps [simp del]

lemma nbits_pos [simp]: "0 < nbits n"
  by (subst nbits.simps) simp

lemma nbits_0 [simp]: "nbits 0 = 1"
  by (subst nbits.simps) simp

lemma nbits_1 [simp]: "nbits (Suc 0) = 1"
  by (subst nbits.simps) simp

lemma nbits_step: "1 < n \<Longrightarrow> nbits n = Suc (nbits (n div 2))"
  by (subst nbits.simps) simp

lemma nbits_upper: "n < 2 ^ nbits n"
proof (induction n rule: nbits.induct)
  case (1 n)
  show ?case
  proof (cases "n \<le> 1")
    case True
    then show ?thesis by (cases "n = 0") (auto simp: nbits.simps [of n])
  next
    case False
    with 1 have "n div 2 < 2 ^ nbits (n div 2)" by simp
    then show ?thesis using False by (simp add: nbits_step)
  qed
qed

lemma nbits_lower: "0 < n \<Longrightarrow> 2 ^ (nbits n - 1) \<le> n"
proof (induction n rule: nbits.induct)
  case (1 n)
  show ?case
  proof (cases "n \<le> 1")
    case True
    with 1 show ?thesis by (simp add: nbits.simps [of n])
  next
    case False
    with 1 have "2 ^ (nbits (n div 2) - 1) \<le> n div 2" by simp
    moreover have "(2::nat) ^ nbits (n div 2) = 2 * 2 ^ (nbits (n div 2) - 1)"
      using nbits_pos [of "n div 2"] by (metis Suc_diff_1 power_Suc)
    ultimately show ?thesis using False by (simp add: nbits_step)
  qed
qed

lemma nbits_le: "n < 2 ^ k \<Longrightarrow> 0 < k \<Longrightarrow> nbits n \<le> k"
proof (rule ccontr)
  assume n: "n < 2 ^ k" and k: "0 < k" and "\<not> nbits n \<le> k"
  then have "k \<le> nbits n - 1" by simp
  then have "(2::nat) ^ k \<le> 2 ^ (nbits n - 1)" by simp
  moreover have "0 < n" using k \<open>\<not> nbits n \<le> k\<close> by (cases "n = 0") auto
  ultimately have "2 ^ k \<le> n" using nbits_lower [of n] by linarith
  with n show False by simp
qed

lemma nbits_mono: "m \<le> n \<Longrightarrow> nbits m \<le> nbits n"
  by (rule nbits_le) (auto intro: le_less_trans [OF _ nbits_upper])

lemma bit_above_nbits: "nbits n \<le> s \<Longrightarrow> n div 2 ^ s = 0"
proof -
  assume "nbits n \<le> s"
  then have "(2::nat) ^ nbits n \<le> 2 ^ s" by simp
  then have "n < 2 ^ s" by (rule less_le_trans [OF nbits_upper])
  then show "n div 2 ^ s = 0" by simp
qed

text \<open>Reading one more bit of \<open>n\<close> from the top.\<close>

lemma div_pow2_step: "(n::nat) div 2 ^ s = 2 * (n div 2 ^ Suc s) + (n div 2 ^ s) mod 2"
proof -
  have "n div 2 ^ Suc s = n div 2 ^ s div 2"
    by (metis div_mult2_eq mult.commute power_Suc)
  then show ?thesis by simp
qed

section \<open>Bytes\<close>

text \<open>The value of a big-endian byte string.\<close>

definition bytes_val :: "byte list \<Rightarrow> nat" where
  "bytes_val bs = foldl (\<lambda>v b. 256 * v + unat b) 0 bs"

text \<open>The \<open>k\<close> low bytes of a number, most significant first.\<close>

fun low_bytes :: "nat \<Rightarrow> nat \<Rightarrow> byte list" where
  "low_bytes 0 n = []"
| "low_bytes (Suc k) n = low_bytes k (n div 256) @ [word_of_nat (n mod 256)]"

lemma length_low_bytes [simp]: "length (low_bytes k n) = k"
  by (induction k arbitrary: n) auto

lemma bytes_val_Nil [simp]: "bytes_val [] = 0"
  by (simp add: bytes_val_def)

lemma bytes_val_snoc [simp]: "bytes_val (bs @ [b]) = 256 * bytes_val bs + unat b"
  by (simp add: bytes_val_def)

lemma unat_byte_mod: "unat (word_of_nat (n mod 256) :: byte) = n mod 256"
  by (simp add: unat_of_nat)

lemma bytes_val_low_bytes: "bytes_val (low_bytes k n) = n mod 256 ^ k"
proof (induction k arbitrary: n)
  case 0
  then show ?case by simp
next
  case (Suc k)
  have "n mod (256 * 256 ^ k) = 256 * (n div 256 mod 256 ^ k) + n mod 256"
    by (rule mod_mult2_eq)
  with Suc show ?case by (simp add: unat_of_nat)
qed

lemma bytes_val_lt: "bytes_val bs < 256 ^ length bs"
proof (induction bs rule: rev_induct)
  case Nil
  then show ?case by simp
next
  case (snoc b bs)
  have "unat b < 256" using unsigned_less [of b] by simp
  with snoc show ?case by simp
qed

lemma bytes_val_replicate_0: "bytes_val (replicate k 0 @ bs) = bytes_val bs"
proof (induction bs rule: rev_induct)
  case Nil
  show ?case by (induction k) (simp_all add: bytes_val_def)
next
  case (snoc b bs)
  have "bytes_val ((replicate k 0 @ bs) @ [b]) = 256 * bytes_val (replicate k 0 @ bs) + unat b"
    by (rule bytes_val_snoc)
  with snoc show ?case by simp
qed

lemma bytes_val_append: "bytes_val (xs @ ys) = bytes_val xs * 256 ^ length ys + bytes_val ys"
proof (induction ys rule: rev_induct)
  case Nil
  then show ?case by simp
next
  case (snoc y ys)
  have "bytes_val ((xs @ ys) @ [y]) = 256 * bytes_val (xs @ ys) + unat y"
    by (rule bytes_val_snoc)
  with snoc show ?case by (simp add: algebra_simps)
qed

text \<open>
  \<open>snprintf\<close> of a text into a buffer of \<open>n\<close> bytes: the characters written before the
  final zero, and the length the text has.
\<close>

definition c_snprintf :: "nat \<Rightarrow> string \<Rightarrow> string \<times> int" where
  "c_snprintf n s = (take (n - 1) s, int (length s))"

end
