(* ===== verification/Gmp.thy ===== *)
theory Gmp
  imports Prelude
begin

text \<open>
  GMP is not part of the repository: its integer functions are a parameter of the model,
  a record \<open>gmp\<close> of functions that every definition calling GMP takes as its argument.
  A value of type \<open>mpz_t\<close> is an \<open>int\<close>; \<open>mpz_init\<close>, \<open>mpz_clear\<close> and the
  assignments \<open>mpz_set\<close>, \<open>mpz_set_ui\<close>, \<open>mpz_set_si\<close> only move values and have no
  counterpart. A function that writes its result through its first argument returns it
  here. The locale \<open>gmp_laws\<close> states what the GMP manual documents of the functions,
  for the arguments the code passes, and \<open>gmp_ref\<close> is an executable instance of it.
\<close>

section \<open>The functions the code calls\<close>

record gmp =
  mpz_add :: "int \<Rightarrow> int \<Rightarrow> int"
  mpz_sub :: "int \<Rightarrow> int \<Rightarrow> int"
  mpz_mul :: "int \<Rightarrow> int \<Rightarrow> int"
  mpz_neg :: "int \<Rightarrow> int"
  mpz_mod :: "int \<Rightarrow> int \<Rightarrow> int"
  mpz_cmp :: "int \<Rightarrow> int \<Rightarrow> int"
  mpz_sgn :: "int \<Rightarrow> int"
  mpz_odd_p :: "int \<Rightarrow> bool"
  mpz_mul_2exp :: "int \<Rightarrow> nat \<Rightarrow> int"
  mpz_tdiv_q_2exp :: "int \<Rightarrow> nat \<Rightarrow> int"
  mpz_tdiv_q :: "int \<Rightarrow> int \<Rightarrow> int"
  mpz_divexact :: "int \<Rightarrow> int \<Rightarrow> int"
  mpz_divisible_p :: "int \<Rightarrow> int \<Rightarrow> bool"
  mpz_powm :: "int \<Rightarrow> int \<Rightarrow> int \<Rightarrow> int"
  mpz_pow_ui :: "int \<Rightarrow> nat \<Rightarrow> int"
  mpz_invert :: "int \<Rightarrow> int \<Rightarrow> int"
  mpz_legendre :: "int \<Rightarrow> int \<Rightarrow> int"
  mpz_sizeinbase :: "int \<Rightarrow> nat \<Rightarrow> nat"
  mpz_tstbit :: "int \<Rightarrow> nat \<Rightarrow> nat"
  mpz_setbit :: "int \<Rightarrow> nat \<Rightarrow> int"
  mpz_scan1 :: "int \<Rightarrow> nat \<Rightarrow> nat"
  mpz_export :: "int \<Rightarrow> byte list"
  mpz_import :: "byte list \<Rightarrow> int"
  mpz_get_ui :: "int \<Rightarrow> nat"
  mpz_get_str :: "nat \<Rightarrow> int \<Rightarrow> string"
  mpz_sqrt :: "int \<Rightarrow> int"
  mpz_perfect_power_p :: "int \<Rightarrow> bool"
  mpz_fdiv_q_2exp :: "int \<Rightarrow> nat \<Rightarrow> int"
  mpz_fdiv_r_ui :: "int \<Rightarrow> nat \<Rightarrow> int"
  mpz_fits_ulong_p :: "int \<Rightarrow> bool"
  mpz_import_le :: "byte list \<Rightarrow> int"
  mpz_cmpabs :: "int \<Rightarrow> int \<Rightarrow> int"

text \<open>
  \<open>mpz_export\<close> and \<open>mpz_import\<close> are the calls with order 1, size 1, endian 1 and no
  nails: most significant byte first; \<open>mpz_import_le\<close> is the call with order \<open>- 1\<close>, least
  significant byte first. An \<open>unsigned long\<close> has 32 bits on the platform of this port. \<open>mpz_is0\<close> is a function of
  \<^verbatim>\<open>include/pbc_field.h\<close>.
\<close>

definition mpz_is0 :: "gmp \<Rightarrow> int \<Rightarrow> bool" where
  "mpz_is0 G z = (mpz_sgn G z = 0)"

section \<open>What GMP documents\<close>

text \<open>Truncating division, as the \<open>tdiv\<close> functions of GMP round.\<close>

definition tdiv :: "int \<Rightarrow> int \<Rightarrow> int" where
  "tdiv a b = sgn a * sgn b * (\<bar>a\<bar> div \<bar>b\<bar>)"

lemma tdiv_nonneg: "0 \<le> a \<Longrightarrow> 0 < b \<Longrightarrow> tdiv a b = a div b"
  by (cases "a = 0") (auto simp: tdiv_def)

text \<open>Digits of a number in a base, least significant first, and their characters.\<close>

fun digits_in :: "nat \<Rightarrow> nat \<Rightarrow> nat list" where
  "digits_in b n = (if b \<le> 1 \<or> n < b then [n] else n mod b # digits_in b (n div b))"

declare digits_in.simps [simp del]

definition digit_char :: "nat \<Rightarrow> char" where
  "digit_char d = (if d < 10 then char_of (48 + d) else char_of (87 + d))"

definition nat_str :: "nat \<Rightarrow> nat \<Rightarrow> string" where
  "nat_str b n = map digit_char (rev (digits_in b n))"

definition int_str :: "nat \<Rightarrow> int \<Rightarrow> string" where
  "int_str b z = (if z < 0 then ''-'' else []) @ nat_str b (nat \<bar>z\<bar>)"

locale gmp_laws =
  fixes G :: gmp
  assumes add [gmp_law]: "mpz_add G a b = a + b"
    and sub [gmp_law]: "mpz_sub G a b = a - b"
    and mul [gmp_law]: "mpz_mul G a b = a * b"
    and neg [gmp_law]: "mpz_neg G a = - a"
    and mod [gmp_law]: "b \<noteq> 0 \<Longrightarrow> mpz_mod G a b = a mod \<bar>b\<bar>"
    and cmp_lt: "mpz_cmp G a b < 0 \<longleftrightarrow> a < b"
    and cmp_gt: "0 < mpz_cmp G a b \<longleftrightarrow> b < a"
    and sgn [gmp_law]: "mpz_sgn G a = sgn a"
    and odd_p [gmp_law]: "mpz_odd_p G a = odd a"
    and mul_2exp [gmp_law]: "mpz_mul_2exp G a n = a * 2 ^ n"
    and tdiv_q_2exp: "mpz_tdiv_q_2exp G a n = tdiv a (2 ^ n)"
    and tdiv_q: "b \<noteq> 0 \<Longrightarrow> mpz_tdiv_q G a b = tdiv a b"
    and divexact [gmp_law]: "b \<noteq> 0 \<Longrightarrow> b dvd a \<Longrightarrow> mpz_divexact G a b = a div b"
    and divisible_p [gmp_law]: "mpz_divisible_p G a b = (b dvd a)"
    and powm [gmp_law]: "0 < m \<Longrightarrow> 0 \<le> e \<Longrightarrow> mpz_powm G a e m = a ^ nat e mod m"
    and pow_ui [gmp_law]: "mpz_pow_ui G a n = a ^ n"
    and invert: "1 < m \<Longrightarrow> coprime a m \<Longrightarrow>
      0 \<le> mpz_invert G a m \<and> mpz_invert G a m < m \<and> (mpz_invert G a m * a) mod m = 1"
    and legendre: "\<lbrakk>2 < p; \<forall>d. d dvd p \<longrightarrow> \<bar>d\<bar> = 1 \<or> \<bar>d\<bar> = p\<rbrakk> \<Longrightarrow>
      mpz_legendre G a p = 1 \<longleftrightarrow> \<not> p dvd a \<and> (\<exists>x. (x * x) mod p = a mod p)"
    and sizeinbase [gmp_law]: "mpz_sizeinbase G a 2 = nbits (nat \<bar>a\<bar>)"
    and tstbit [gmp_law]: "mpz_tstbit G a n = nat (a div 2 ^ n mod 2)"
    and setbit: "mpz_setbit G a n = (if odd (a div 2 ^ n) then a else a + 2 ^ n)"
    and scan1: "0 < a \<Longrightarrow> 2 ^ mpz_scan1 G a 0 dvd a \<and> odd (a div 2 ^ mpz_scan1 G a 0)"
    and export [gmp_law]: "a \<noteq> 0 \<Longrightarrow>
      mpz_export G a = low_bytes ((nbits (nat \<bar>a\<bar>) + 7) div 8) (nat \<bar>a\<bar>)"
    and import [gmp_law]: "mpz_import G bs = int (bytes_val bs)"
    and get_ui [gmp_law]: "mpz_get_ui G a = nat (\<bar>a\<bar> mod 2 ^ 32)"
    and get_str [gmp_law]: "2 \<le> base \<Longrightarrow> base \<le> 36 \<Longrightarrow> mpz_get_str G base a = int_str base a"
    and sqrt: "0 \<le> a \<Longrightarrow> 0 \<le> mpz_sqrt G a \<and> (mpz_sqrt G a)\<^sup>2 \<le> a \<and> a < (mpz_sqrt G a + 1)\<^sup>2"
    and perfect_power_p: "1 < a \<Longrightarrow>
      mpz_perfect_power_p G a \<longleftrightarrow> (\<exists>c n. 1 < n \<and> a = c ^ n)"
    and fdiv_q_2exp [gmp_law]: "mpz_fdiv_q_2exp G a n = a div 2 ^ n"
    and fdiv_r_ui [gmp_law]: "0 < d \<Longrightarrow> mpz_fdiv_r_ui G a d = a mod int d"
    and fits_ulong_p [gmp_law]: "mpz_fits_ulong_p G a \<longleftrightarrow> 0 \<le> a \<and> a < 2 ^ 32"
    and import_le [gmp_law]: "mpz_import_le G bs = int (bytes_val (rev bs))"
    and cmpabs [gmp_law]: "mpz_cmpabs G a b = 0 \<longleftrightarrow> \<bar>a\<bar> = \<bar>b\<bar>"
begin

lemma cmp_eq [gmp_law]: "mpz_cmp G a b = 0 \<longleftrightarrow> a = b"
  using cmp_lt [of a b] cmp_gt [of a b] by linarith

lemmas cmp_signs [gmp_law] = cmp_lt cmp_gt

lemma cmp_ge [gmp_law]: "0 \<le> mpz_cmp G a b \<longleftrightarrow> b \<le> a"
  using cmp_lt [of a b] by linarith

lemma cmp_le [gmp_law]: "mpz_cmp G a b \<le> 0 \<longleftrightarrow> a \<le> b"
  using cmp_gt [of a b] by linarith

lemma is0 [gmp_law]: "mpz_is0 G a \<longleftrightarrow> a = 0"
  by (simp add: mpz_is0_def sgn sgn_0_0)

lemma tdiv_q_2exp_nonneg [gmp_law]: "0 \<le> a \<Longrightarrow> mpz_tdiv_q_2exp G a n = a div 2 ^ n"
  by (simp add: tdiv_q_2exp tdiv_nonneg)

lemma tstbit_nat: "0 \<le> a \<Longrightarrow> mpz_tstbit G a n = nat a div 2 ^ n mod 2"
proof -
  assume "0 \<le> a"
  then obtain k where a: "a = int k" using nonneg_int_cases by blast
  have "a div 2 ^ n mod 2 = int (k div 2 ^ n mod 2)"
    by (simp add: a zdiv_int zmod_int)
  then show ?thesis by (simp add: tstbit a)
qed

lemma export_bytes_val: "a \<noteq> 0 \<Longrightarrow> bytes_val (mpz_export G a) = nat \<bar>a\<bar>"
proof -
  assume a: "a \<noteq> 0"
  define k where "k = (nbits (nat \<bar>a\<bar>) + 7) div 8"
  have "nat \<bar>a\<bar> < 2 ^ nbits (nat \<bar>a\<bar>)" by (rule nbits_upper)
  also have "\<dots> \<le> 2 ^ (8 * k)" by (rule power_increasing) (auto simp: k_def)
  also have "\<dots> = 256 ^ k" by (simp add: power_mult)
  finally show ?thesis
    using a by (simp add: export bytes_val_low_bytes k_def [symmetric])
qed

end


section \<open>An executable instance\<close>

text \<open>
  The reference functions compute by search or by recursion, so that the witnesses of the
  components evaluate; nothing else depends on how they are written.
\<close>

definition invert_ref :: "int \<Rightarrow> int \<Rightarrow> int" where
  "invert_ref a m = (case find (\<lambda>x. (x * a) mod m = 1) (map int [0..<nat m]) of
     Some x \<Rightarrow> x | None \<Rightarrow> 0)"

definition legendre_ref :: "int \<Rightarrow> int \<Rightarrow> int" where
  "legendre_ref a p = (if p dvd a then 0
     else if list_ex (\<lambda>x. (x * x) mod p = a mod p) (map int [0..<nat p]) then 1 else - 1)"

fun isqrt :: "nat \<Rightarrow> nat" where
  "isqrt 0 = 0"
| "isqrt (Suc n) = (let r = isqrt n in if (r + 1) * (r + 1) \<le> Suc n then r + 1 else r)"

fun ctz :: "nat \<Rightarrow> nat" where
  "ctz n = (if n = 0 \<or> odd n then 0 else Suc (ctz (n div 2)))"

declare ctz.simps [simp del]

definition perfect_power_ref :: "int \<Rightarrow> bool" where
  "perfect_power_ref a = list_ex (\<lambda>c. list_ex (\<lambda>n. a = int c ^ n) [2..<Suc (nat a)]) [1..<Suc (nat a)]"

definition gmp_ref :: gmp where
  "gmp_ref = \<lparr>
     mpz_add = (+), mpz_sub = (-), mpz_mul = (*), mpz_neg = uminus,
     mpz_mod = (\<lambda>a b. a mod \<bar>b\<bar>), mpz_cmp = (-), mpz_sgn = sgn, mpz_odd_p = odd,
     mpz_mul_2exp = (\<lambda>a n. a * 2 ^ n), mpz_tdiv_q_2exp = (\<lambda>a n. tdiv a (2 ^ n)),
     mpz_tdiv_q = tdiv, mpz_divexact = (div), mpz_divisible_p = (\<lambda>a b. b dvd a),
     mpz_powm = (\<lambda>a e m. a ^ nat e mod m), mpz_pow_ui = (^),
     mpz_invert = invert_ref, mpz_legendre = legendre_ref,
     mpz_sizeinbase = (\<lambda>a b. nbits (nat \<bar>a\<bar>)),
     mpz_tstbit = (\<lambda>a n. nat (a div 2 ^ n mod 2)),
     mpz_setbit = (\<lambda>a n. if odd (a div 2 ^ n) then a else a + 2 ^ n),
     mpz_scan1 = (\<lambda>a n. ctz (nat \<bar>a\<bar>)),
     mpz_export = (\<lambda>a. low_bytes ((nbits (nat \<bar>a\<bar>) + 7) div 8) (nat \<bar>a\<bar>)),
     mpz_import = (\<lambda>bs. int (bytes_val bs)),
     mpz_get_ui = (\<lambda>a. nat (\<bar>a\<bar> mod 2 ^ 32)),
     mpz_get_str = int_str, mpz_sqrt = (\<lambda>a. int (isqrt (nat a))),
     mpz_perfect_power_p = perfect_power_ref,
     mpz_fdiv_q_2exp = (\<lambda>a n. a div 2 ^ n), mpz_fdiv_r_ui = (\<lambda>a d. a mod int d),
     mpz_fits_ulong_p = (\<lambda>a. 0 \<le> a \<and> a < 2 ^ 32),
     mpz_import_le = (\<lambda>bs. int (bytes_val (rev bs))),
     mpz_cmpabs = (\<lambda>a b. \<bar>a\<bar> - \<bar>b\<bar>) \<rparr>"

lemma find_nat_bound:
  assumes "find P (map int [0..<n]) = Some x"
  shows "P x \<and> 0 \<le> x \<and> x < int n"
  using assms by (auto simp: find_Some_iff)

lemma invert_ref_ok:
  assumes "1 < m" "coprime a m"
  shows "0 \<le> invert_ref a m \<and> invert_ref a m < m \<and> (invert_ref a m * a) mod m = 1"
proof -
  obtain u v where uv: "u * a + v * m = gcd a m" using bezout_int by blast
  with assms have "(u * a + v * m) mod m = 1" by simp
  then have u: "(u * a) mod m = 1" by simp
  then have "((u mod m) * a) mod m = 1" by (simp add: mod_mult_left_eq)
  moreover have "u mod m \<in> set (map int [0..<nat m])"
    using assms by (auto simp: image_iff intro!: bexI [where x = "nat (u mod m)"])
  ultimately obtain x where "find (\<lambda>x. (x * a) mod m = 1) (map int [0..<nat m]) = Some x"
    by (cases "find (\<lambda>x. (x * a) mod m = 1) (map int [0..<nat m])")
       (auto simp: find_None_iff simp del: set_map set_upt)
  with find_nat_bound [OF this] assms show ?thesis
    by (auto simp: invert_ref_def)
qed

lemma legendre_ref_ok:
  assumes "2 < p"
  shows "legendre_ref a p = 1 \<longleftrightarrow> \<not> p dvd a \<and> (\<exists>x. (x * x) mod p = a mod p)"
proof -
  have "\<exists>y\<in>{0..<nat p}. (int y * int y) mod p = a mod p" if "(x * x) mod p = a mod p" for x
    using that assms
    by (intro bexI [where x = "nat (x mod p)"]) (auto simp: mod_mult_eq nat_less_iff)
  then show ?thesis by (auto simp: legendre_ref_def list_ex_iff)
qed

lemma isqrt_ok: "isqrt n * isqrt n \<le> n \<and> n < (isqrt n + 1) * (isqrt n + 1)"
  by (induction n) (auto simp: Let_def)

lemma ctz_ok: "0 < n \<Longrightarrow> 2 ^ ctz n dvd n \<and> odd (n div 2 ^ ctz n)"
proof (induction n rule: ctz.induct)
  case (1 n)
  show ?case
  proof (cases "odd n")
    case True
    then show ?thesis by (simp add: ctz.simps [of n])
  next
    case False
    with 1 have *: "2 ^ ctz (n div 2) dvd n div 2" "odd (n div 2 div 2 ^ ctz (n div 2))"
      by auto
    have "ctz n = Suc (ctz (n div 2))"
      using False 1 by (subst ctz.simps) simp
    with * False show ?thesis
      by (simp add: div_mult2_eq dvd_div_iff_mult mult.commute)
  qed
qed

lemma int_ctz_ok: "0 < n \<Longrightarrow> 2 ^ ctz n dvd int n \<and> odd (int n div 2 ^ ctz n)"
proof -
  assume "0 < n"
  from ctz_ok [OF this] have d: "2 ^ ctz n dvd n" and o: "odd (n div 2 ^ ctz n)" by auto
  have "int n div 2 ^ ctz n = int (n div 2 ^ ctz n)" by (simp add: zdiv_int)
  with o have "odd (int n div 2 ^ ctz n)" by simp
  moreover have "int (2 ^ ctz n) dvd int n" using d by (simp only: of_nat_dvd_iff)
  ultimately show ?thesis by simp
qed

lemma perfect_power_ref_ok:
  assumes "1 < (a::int)"
  shows "perfect_power_ref a \<longleftrightarrow> (\<exists>c n. 1 < n \<and> a = c ^ n)"
proof
  assume "perfect_power_ref a"
  then obtain c n where cn: "n \<in> set [2..<Suc (nat a)]" "a = int c ^ n"
    unfolding perfect_power_ref_def list_ex_iff by blast
  then have "1 < n" by (simp del: upt_Suc)
  with cn show "\<exists>c n. 1 < n \<and> a = c ^ n" by blast
next
  assume "\<exists>c n. 1 < n \<and> a = c ^ n"
  then obtain c n where n: "1 < n" and a: "a = c ^ n" by blast
  define d where "d = nat \<bar>c\<bar>"
  have ad: "a = int d ^ n"
    using a assms by (metis abs_of_pos d_def less_trans nat_0_le power_abs abs_ge_zero zero_less_one)
  have d: "2 \<le> d"
    using ad assms n by (cases "d = 0"; cases "d = 1") (auto simp: power_0_left)
  have na: "nat a = d ^ n" by (simp add: ad nat_power_eq)
  have "d \<le> nat a" using na n d by (simp add: self_le_power)
  moreover have "n \<le> nat a"
    using na d by (metis le_trans less_exp less_imp_le_nat power_mono zero_le)
  ultimately have "d \<in> set [1..<Suc (nat a)]" "n \<in> set [2..<Suc (nat a)]"
    using d n by auto
  with ad show "perfect_power_ref a"
    unfolding perfect_power_ref_def list_ex_iff by blast
qed

interpretation gmp_ref: gmp_laws gmp_ref
proof unfold_locales
  show "2 ^ mpz_scan1 gmp_ref a 0 dvd a \<and> odd (a div 2 ^ mpz_scan1 gmp_ref a 0)"
    if "0 < a" for a
    using that int_ctz_ok [of "nat a"] by (simp add: gmp_ref_def)
  show "0 \<le> mpz_sqrt gmp_ref a \<and> (mpz_sqrt gmp_ref a)\<^sup>2 \<le> a \<and> a < (mpz_sqrt gmp_ref a + 1)\<^sup>2"
    if "0 \<le> a" for a
  proof -
    have "int (isqrt (nat a) * isqrt (nat a)) \<le> a \<and> a < int ((isqrt (nat a) + 1) * (isqrt (nat a) + 1))"
      using isqrt_ok [of "nat a"] that by linarith
    then show ?thesis by (simp add: gmp_ref_def power2_eq_square algebra_simps)
  qed
qed (auto simp: gmp_ref_def invert_ref_ok legendre_ref_ok perfect_power_ref_ok)

end
