(* ===== verification/Field.thy ===== *)
theory Field
  imports Gmp
begin

text \<open>
  The algebraic structure of \<^verbatim>\<open>include/pbc_field.h\<close> and the generic operations of
  \<^verbatim>\<open>arith/field.c\<close>. A C \<open>struct field_s\<close> is a table of function pointers; here it is a
  record of functions over the type \<open>'a\<close> of element data. A function that writes its
  result through its first argument takes the old destination value as that argument and
  returns the new one, so that an operation that leaves part of the destination unwritten
  (the coordinates of a curve point set to infinity) is visible.

  A pointer that \<open>field_init\<close> sets to a generic routine is an \<open>option\<close>: \<open>None\<close> is the
  pointer as \<open>field_init\<close> leaves it and the dispatchers \<open>element_sub\<close>, \<open>element_div\<close>,
  \<open>\<dots>\<close> then run the routine of \<^verbatim>\<open>field.c\<close>, \<open>Some f\<close> a pointer that a
  \<open>field_init_*\<close> function has overwritten. A pointer that no initialisation sets is the
  unspecified value \<open>undefined\<close>. The square root takes the quadratic nonresidue stored in
  the field, which \<open>field_set_nqr\<close> may change after initialisation. Random numbers come
  from a source \<open>R\<close>: its \<open>i\<close>-th draw below a limit is \<open>R i limit\<close>, and the functions
  pass the number of draws made.
\<close>

section \<open>The structure\<close>

type_synonym entropy = "nat \<Rightarrow> int \<Rightarrow> int"

record 'a field_s =
  f_init :: 'a
  f_set_si :: "('a \<Rightarrow> int \<Rightarrow> 'a) option"
  f_set_mpz :: "('a \<Rightarrow> int \<Rightarrow> 'a) option"
  f_set :: "'a \<Rightarrow> 'a \<Rightarrow> 'a"
  f_set0 :: "'a \<Rightarrow> 'a"
  f_set1 :: "'a \<Rightarrow> 'a"
  f_add :: "'a \<Rightarrow> 'a \<Rightarrow> 'a \<Rightarrow> 'a"
  f_sub :: "('a \<Rightarrow> 'a \<Rightarrow> 'a \<Rightarrow> 'a) option"
  f_mul :: "'a \<Rightarrow> 'a \<Rightarrow> 'a \<Rightarrow> 'a"
  f_mul_mpz :: "('a \<Rightarrow> 'a \<Rightarrow> int \<Rightarrow> 'a) option"
  f_mul_si :: "('a \<Rightarrow> 'a \<Rightarrow> int \<Rightarrow> 'a) option"
  f_div :: "('a \<Rightarrow> 'a \<Rightarrow> 'a \<Rightarrow> 'a) option"
  f_square :: "('a \<Rightarrow> 'a \<Rightarrow> 'a) option"
  f_is_sqr :: "'a \<Rightarrow> int"
  f_sqrt :: "'a option \<Rightarrow> 'a \<Rightarrow> 'a \<Rightarrow> 'a"
  f_doub :: "('a \<Rightarrow> 'a \<Rightarrow> 'a) option"
  f_halve :: "('a \<Rightarrow> 'a \<Rightarrow> 'a) option"
  f_pow_mpz :: "('a \<Rightarrow> 'a \<Rightarrow> int \<Rightarrow> 'a) option"
  f_invert :: "'a \<Rightarrow> 'a \<Rightarrow> 'a"
  f_neg :: "'a \<Rightarrow> 'a \<Rightarrow> 'a"
  f_random :: "(entropy \<Rightarrow> nat \<Rightarrow> 'a \<Rightarrow> 'a \<times> nat) option"
  f_from_hash :: "'a \<Rightarrow> byte list \<Rightarrow> 'a option"
  f_is1 :: "('a \<Rightarrow> int) option"
  f_is0 :: "('a \<Rightarrow> int) option"
  f_sign :: "'a \<Rightarrow> int"
  f_cmp :: "('a \<Rightarrow> 'a \<Rightarrow> int) option"
  f_to_bytes :: "'a \<Rightarrow> byte list"
  f_from_bytes :: "'a \<Rightarrow> byte list \<Rightarrow> 'a \<times> nat"
  f_length_in_bytes :: "'a \<Rightarrow> int"
  f_fixed_length :: int
  f_order :: int
  f_nqr :: "'a option"
  f_to_mpz :: "('a \<Rightarrow> int) option"

text \<open>
  The dispatchers of \<^verbatim>\<open>pbc_field.h\<close> whose pointer no generic routine stands behind.
\<close>

definition element_init :: "'a field_s \<Rightarrow> 'a" where
  "element_init F = f_init F"

definition element_set :: "'a field_s \<Rightarrow> 'a \<Rightarrow> 'a \<Rightarrow> 'a" where
  "element_set F e a = f_set F e a"

definition element_set0 :: "'a field_s \<Rightarrow> 'a \<Rightarrow> 'a" where
  "element_set0 F e = f_set0 F e"

definition element_set1 :: "'a field_s \<Rightarrow> 'a \<Rightarrow> 'a" where
  "element_set1 F e = f_set1 F e"

definition element_add :: "'a field_s \<Rightarrow> 'a \<Rightarrow> 'a \<Rightarrow> 'a \<Rightarrow> 'a" where
  "element_add F n a b = f_add F n a b"

definition element_mul :: "'a field_s \<Rightarrow> 'a \<Rightarrow> 'a \<Rightarrow> 'a \<Rightarrow> 'a" where
  "element_mul F n a b = f_mul F n a b"

definition element_neg :: "'a field_s \<Rightarrow> 'a \<Rightarrow> 'a \<Rightarrow> 'a" where
  "element_neg F n a = f_neg F n a"

definition element_invert :: "'a field_s \<Rightarrow> 'a \<Rightarrow> 'a \<Rightarrow> 'a" where
  "element_invert F n a = f_invert F n a"

definition element_is_sqr :: "'a field_s \<Rightarrow> 'a \<Rightarrow> int" where
  "element_is_sqr F a = f_is_sqr F a"

definition element_sign :: "'a field_s \<Rightarrow> 'a \<Rightarrow> int" where
  "element_sign F a = f_sign F a"

definition element_sgn :: "'a field_s \<Rightarrow> 'a \<Rightarrow> int" where
  "element_sgn F a = f_sign F a"

definition element_sqrt :: "'a field_s \<Rightarrow> 'a \<Rightarrow> 'a \<Rightarrow> 'a" where
  "element_sqrt F a b = f_sqrt F (f_nqr F) a b"

definition element_from_hash :: "'a field_s \<Rightarrow> 'a \<Rightarrow> byte list \<Rightarrow> 'a option" where
  "element_from_hash F e data = f_from_hash F e data"

definition element_length_in_bytes :: "'a field_s \<Rightarrow> 'a \<Rightarrow> int" where
  "element_length_in_bytes F e =
     (if f_fixed_length F < 0 then f_length_in_bytes F e else f_fixed_length F)"

definition element_to_bytes :: "'a field_s \<Rightarrow> 'a \<Rightarrow> byte list" where
  "element_to_bytes F e = f_to_bytes F e"

definition element_from_bytes :: "'a field_s \<Rightarrow> 'a \<Rightarrow> byte list \<Rightarrow> 'a \<times> nat" where
  "element_from_bytes F e data = f_from_bytes F e data"

section \<open>Generic operations and the dispatchers that fall back on them\<close>

text \<open>
  In the order in which they use each other. A test \<open>c != a\<close> on pointers is the argument
  \<open>same\<close>, which says whether the two arguments are the same object; the dispatchers
  call with distinct objects.
\<close>

definition generic_square :: "'a field_s \<Rightarrow> 'a \<Rightarrow> 'a \<Rightarrow> 'a" where
  "generic_square F r a = element_mul F r a a"

definition element_square :: "'a field_s \<Rightarrow> 'a \<Rightarrow> 'a \<Rightarrow> 'a" where
  "element_square F n a = (case f_square F of Some f \<Rightarrow> f n a | None \<Rightarrow> generic_square F n a)"

definition generic_double :: "'a field_s \<Rightarrow> 'a \<Rightarrow> 'a \<Rightarrow> 'a" where
  "generic_double F r a = element_add F r a a"

definition element_double :: "'a field_s \<Rightarrow> 'a \<Rightarrow> 'a \<Rightarrow> 'a" where
  "element_double F n a = (case f_doub F of Some f \<Rightarrow> f n a | None \<Rightarrow> generic_double F n a)"

definition zero_to_mpz :: "'a \<Rightarrow> int" where
  "zero_to_mpz a = 0"

definition element_to_mpz :: "'a field_s \<Rightarrow> 'a \<Rightarrow> int" where
  "element_to_mpz F e = (case f_to_mpz F of Some f \<Rightarrow> f e | None \<Rightarrow> zero_to_mpz e)"

definition zero_set_mpz :: "'a field_s \<Rightarrow> 'a \<Rightarrow> int \<Rightarrow> 'a" where
  "zero_set_mpz F a z = element_set0 F a"

definition element_set_mpz :: "'a field_s \<Rightarrow> 'a \<Rightarrow> int \<Rightarrow> 'a" where
  "element_set_mpz F e z = (case f_set_mpz F of Some f \<Rightarrow> f e z | None \<Rightarrow> zero_set_mpz F e z)"

definition generic_set_si :: "'a field_s \<Rightarrow> 'a \<Rightarrow> int \<Rightarrow> 'a" where
  "generic_set_si F a si = (let z = si in element_set_mpz F a z)"

definition element_set_si :: "'a field_s \<Rightarrow> 'a \<Rightarrow> int \<Rightarrow> 'a" where
  "element_set_si F e i = (case f_set_si F of Some f \<Rightarrow> f e i | None \<Rightarrow> generic_set_si F e i)"

definition zero_random :: "'a field_s \<Rightarrow> entropy \<Rightarrow> nat \<Rightarrow> 'a \<Rightarrow> 'a \<times> nat" where
  "zero_random F R i a = (element_set0 F a, i)"

definition element_random :: "'a field_s \<Rightarrow> entropy \<Rightarrow> nat \<Rightarrow> 'a \<Rightarrow> 'a \<times> nat" where
  "element_random F R i e = (case f_random F of Some f \<Rightarrow> f R i e | None \<Rightarrow> zero_random F R i e)"

definition generic_mul_mpz :: "'a field_s \<Rightarrow> 'a \<Rightarrow> 'a \<Rightarrow> int \<Rightarrow> 'a" where
  "generic_mul_mpz F r a z = (
     let e0 = element_init F;
         e0 = element_set_mpz F e0 z
     in element_mul F r a e0)"

definition element_mul_mpz :: "'a field_s \<Rightarrow> 'a \<Rightarrow> 'a \<Rightarrow> int \<Rightarrow> 'a" where
  "element_mul_mpz F n a z =
     (case f_mul_mpz F of Some f \<Rightarrow> f n a z | None \<Rightarrow> generic_mul_mpz F n a z)"

definition generic_mul_si :: "'a field_s \<Rightarrow> 'a \<Rightarrow> 'a \<Rightarrow> int \<Rightarrow> 'a" where
  "generic_mul_si F r a n = (
     let e0 = element_init F;
         e0 = element_set_si F e0 n
     in element_mul F r a e0)"

definition element_mul_si :: "'a field_s \<Rightarrow> 'a \<Rightarrow> 'a \<Rightarrow> int \<Rightarrow> 'a" where
  "element_mul_si F n a z =
     (case f_mul_si F of Some f \<Rightarrow> f n a z | None \<Rightarrow> generic_mul_si F n a z)"

definition generic_halve :: "'a field_s \<Rightarrow> 'a \<Rightarrow> 'a \<Rightarrow> 'a" where
  "generic_halve F r a = (
     let e0 = element_init F;
         e0 = element_set_si F e0 2;
         e0 = element_invert F e0 e0
     in element_mul F r a e0)"

definition element_halve :: "'a field_s \<Rightarrow> 'a \<Rightarrow> 'a \<Rightarrow> 'a" where
  "element_halve F n a = (case f_halve F of Some f \<Rightarrow> f n a | None \<Rightarrow> generic_halve F n a)"

definition generic_sub :: "'a field_s \<Rightarrow> bool \<Rightarrow> 'a \<Rightarrow> 'a \<Rightarrow> 'a \<Rightarrow> 'a" where
  "generic_sub F same c a b = (
     if \<not> same then
       let c = element_neg F c b
       in element_add F c c a
     else
       let tmp = element_init F;
           tmp = element_neg F tmp b
       in element_add F c tmp a)"

definition element_sub :: "'a field_s \<Rightarrow> 'a \<Rightarrow> 'a \<Rightarrow> 'a \<Rightarrow> 'a" where
  "element_sub F n a b = (case f_sub F of Some f \<Rightarrow> f n a b | None \<Rightarrow> generic_sub F False n a b)"

definition generic_div :: "'a field_s \<Rightarrow> bool \<Rightarrow> 'a \<Rightarrow> 'a \<Rightarrow> 'a \<Rightarrow> 'a" where
  "generic_div F same c a b = (
     if \<not> same then
       let c = element_invert F c b
       in element_mul F c c a
     else
       let tmp = element_init F;
           tmp = element_invert F tmp b
       in element_mul F c tmp a)"

definition element_div :: "'a field_s \<Rightarrow> 'a \<Rightarrow> 'a \<Rightarrow> 'a \<Rightarrow> 'a" where
  "element_div F n a b = (case f_div F of Some f \<Rightarrow> f n a b | None \<Rightarrow> generic_div F False n a b)"

definition generic_add_ui :: "'a field_s \<Rightarrow> 'a \<Rightarrow> 'a \<Rightarrow> nat \<Rightarrow> 'a" where
  "generic_add_ui F c a b = (
     let e = element_init F;
         z = int b;
         e = element_set_mpz F e z
     in element_add F c a e)"

definition element_add_ui :: "'a field_s \<Rightarrow> 'a \<Rightarrow> 'a \<Rightarrow> nat \<Rightarrow> 'a" where
  "element_add_ui F n a b = generic_add_ui F n a b"

text \<open>\<open>memcmp\<close>: the sign of the first difference between two strings of equal length.\<close>

fun memcmp :: "byte list \<Rightarrow> byte list \<Rightarrow> int" where
  "memcmp (x # xs) (y # ys) = (if x = y then memcmp xs ys else if x < y then - 1 else 1)"
| "memcmp xs ys = 0"

definition generic_cmp :: "'a field_s \<Rightarrow> bool \<Rightarrow> 'a \<Rightarrow> 'a \<Rightarrow> int" where
  "generic_cmp F same a b = (
     if same then 0
     else
       let len = element_length_in_bytes F a
       in if len \<noteq> element_length_in_bytes F b then 1
          else
            let buf1 = element_to_bytes F a;
                buf2 = element_to_bytes F b
            in memcmp (take (nat len) buf1) (take (nat len) buf2))"

definition element_cmp :: "'a field_s \<Rightarrow> 'a \<Rightarrow> 'a \<Rightarrow> int" where
  "element_cmp F a b = (case f_cmp F of Some f \<Rightarrow> f a b | None \<Rightarrow> generic_cmp F False a b)"

definition generic_is0 :: "'a field_s \<Rightarrow> 'a \<Rightarrow> int" where
  "generic_is0 F a = (
     let b = element_init F
     in element_cmp F a b)"

definition element_is0 :: "'a field_s \<Rightarrow> 'a \<Rightarrow> int" where
  "element_is0 F n = (case f_is0 F of Some f \<Rightarrow> f n | None \<Rightarrow> generic_is0 F n)"

definition generic_is1 :: "'a field_s \<Rightarrow> 'a \<Rightarrow> int" where
  "generic_is1 F a = (
     let b = element_init F;
         b = element_set1 F b
     in element_cmp F a b)"

definition element_is1 :: "'a field_s \<Rightarrow> 'a \<Rightarrow> int" where
  "element_is1 F n = (case f_is1 F of Some f \<Rightarrow> f n | None \<Rightarrow> generic_is1 F n)"

definition element_mul_zn :: "'a field_s \<Rightarrow> 'b field_s \<Rightarrow> 'a \<Rightarrow> 'a \<Rightarrow> 'b \<Rightarrow> 'a" where
  "element_mul_zn F Zn c a z = (let z0 = element_to_mpz Zn z in element_mul_mpz F c a z0)"

text \<open>
  \<open>field_init\<close>: no nonresidue, order zero, every pointer it knows a default for at its
  default, the others unset.
\<close>

definition field_init :: "'a field_s" where
  "field_init = \<lparr>
     f_init = undefined, f_set_si = None, f_set_mpz = None, f_set = undefined,
     f_set0 = undefined, f_set1 = undefined, f_add = undefined, f_sub = None,
     f_mul = undefined, f_mul_mpz = None, f_mul_si = None, f_div = None, f_square = None,
     f_is_sqr = undefined, f_sqrt = undefined, f_doub = None, f_halve = None,
     f_pow_mpz = None, f_invert = undefined, f_neg = undefined, f_random = None,
     f_from_hash = undefined, f_is1 = None, f_is0 = None, f_sign = undefined,
     f_cmp = None, f_to_bytes = undefined, f_from_bytes = undefined,
     f_length_in_bytes = undefined, f_fixed_length = undefined, f_order = 0,
     f_nqr = None, f_to_mpz = None \<rparr>"

text \<open>The dispatchers reduce to the table; \<open>dispatch\<close> collects their definitions.\<close>

lemmas dispatch =
  element_init_def element_set_def element_set0_def element_set1_def element_add_def
  element_mul_def element_neg_def element_invert_def element_is_sqr_def element_sign_def
  element_sgn_def element_sqrt_def element_from_hash_def element_length_in_bytes_def
  element_to_bytes_def element_from_bytes_def element_square_def element_double_def
  element_to_mpz_def element_set_mpz_def element_set_si_def element_random_def
  element_mul_mpz_def element_mul_si_def element_halve_def element_sub_def element_div_def
  element_add_ui_def element_cmp_def element_is0_def element_is1_def

lemma memcmp_eq_0: "length xs = length ys \<Longrightarrow> memcmp xs ys = 0 \<longleftrightarrow> xs = ys"
  by (induction xs ys rule: memcmp.induct) auto

end
