(* ===== verification/Contracts.thy ===== *)
theory Contracts
  imports Field
begin

text \<open>
  The contracts between a structure and the code that uses it, as locales over the
  function table \<open>F\<close>, the set \<open>V\<close> of well-formed element data and an abstraction
  function \<open>\<alpha>\<close> into an ambient algebraic structure:
  \<^item> \<open>magma_impl\<close>: the multiplicative operations keep \<open>V\<close>;
  \<^item> \<open>monoid_impl\<close>: \<open>\<alpha>\<close> turns \<open>element_mul\<close>, \<open>element_square\<close> and \<open>element_set1\<close>
    into the operations of a monoid;
  \<^item> \<open>ring_impl\<close>: \<open>\<alpha>\<close> maps into a commutative ring, the additive operations are those
    of the ring, and the comparisons decide equality of the abstract values;
  \<^item> \<open>field_impl\<close>: in addition \<open>element_invert\<close> inverts what is not zero.
  The destination argument of an operation is any well-formed value. The ambient ring may
  be larger than the image of \<open>\<alpha>\<close>: a quadratic extension of \<open>F\<close> is again described by
  a map into the same kind of ring.
\<close>

locale magma_impl =
  fixes F :: "'a field_s" and V :: "'a set"
  assumes init_in [intro, simp]: "element_init F \<in> V"
    and set_in [intro, simp]: "n \<in> V \<Longrightarrow> a \<in> V \<Longrightarrow> element_set F n a \<in> V"
    and set1_in [intro, simp]: "n \<in> V \<Longrightarrow> element_set1 F n \<in> V"
    and mul_in [intro, simp]: "n \<in> V \<Longrightarrow> a \<in> V \<Longrightarrow> b \<in> V \<Longrightarrow> element_mul F n a b \<in> V"
    and square_in [intro, simp]: "n \<in> V \<Longrightarrow> a \<in> V \<Longrightarrow> element_square F n a \<in> V"

locale monoid_impl = magma_impl F V
  for F :: "'a field_s" and V :: "'a set" +
  fixes \<alpha> :: "'a \<Rightarrow> 'm::monoid_mult"
  assumes set [impl_law]: "n \<in> V \<Longrightarrow> a \<in> V \<Longrightarrow> \<alpha> (element_set F n a) = \<alpha> a"
    and set1 [impl_law]: "n \<in> V \<Longrightarrow> \<alpha> (element_set1 F n) = 1"
    and mul [impl_law]: "n \<in> V \<Longrightarrow> a \<in> V \<Longrightarrow> b \<in> V \<Longrightarrow> \<alpha> (element_mul F n a b) = \<alpha> a * \<alpha> b"
    and square [impl_law]: "n \<in> V \<Longrightarrow> a \<in> V \<Longrightarrow> \<alpha> (element_square F n a) = \<alpha> a * \<alpha> a"

locale ring_impl = monoid_impl F V \<alpha>
  for F :: "'a field_s" and V :: "'a set" and \<alpha> :: "'a \<Rightarrow> 'k::comm_ring_1" +
  assumes init [impl_law]: "\<alpha> (element_init F) = 0"
    and set0_in [intro, simp]: "n \<in> V \<Longrightarrow> element_set0 F n \<in> V"
    and set0 [impl_law]: "n \<in> V \<Longrightarrow> \<alpha> (element_set0 F n) = 0"
    and set_si_in [intro, simp]: "n \<in> V \<Longrightarrow> element_set_si F n i \<in> V"
    and set_si [impl_law]: "n \<in> V \<Longrightarrow> \<alpha> (element_set_si F n i) = of_int i"
    and set_mpz_in [intro, simp]: "n \<in> V \<Longrightarrow> element_set_mpz F n z \<in> V"
    and set_mpz [impl_law]: "n \<in> V \<Longrightarrow> \<alpha> (element_set_mpz F n z) = of_int z"
    and add_in [intro, simp]: "n \<in> V \<Longrightarrow> a \<in> V \<Longrightarrow> b \<in> V \<Longrightarrow> element_add F n a b \<in> V"
    and add [impl_law]: "n \<in> V \<Longrightarrow> a \<in> V \<Longrightarrow> b \<in> V \<Longrightarrow> \<alpha> (element_add F n a b) = \<alpha> a + \<alpha> b"
    and sub_in [intro, simp]: "n \<in> V \<Longrightarrow> a \<in> V \<Longrightarrow> b \<in> V \<Longrightarrow> element_sub F n a b \<in> V"
    and sub [impl_law]: "n \<in> V \<Longrightarrow> a \<in> V \<Longrightarrow> b \<in> V \<Longrightarrow> \<alpha> (element_sub F n a b) = \<alpha> a - \<alpha> b"
    and neg_in [intro, simp]: "n \<in> V \<Longrightarrow> a \<in> V \<Longrightarrow> element_neg F n a \<in> V"
    and neg [impl_law]: "n \<in> V \<Longrightarrow> a \<in> V \<Longrightarrow> \<alpha> (element_neg F n a) = - \<alpha> a"
    and double_in [intro, simp]: "n \<in> V \<Longrightarrow> a \<in> V \<Longrightarrow> element_double F n a \<in> V"
    and double [impl_law]: "n \<in> V \<Longrightarrow> a \<in> V \<Longrightarrow> \<alpha> (element_double F n a) = \<alpha> a + \<alpha> a"
    and mul_si_in [intro, simp]: "n \<in> V \<Longrightarrow> a \<in> V \<Longrightarrow> element_mul_si F n a i \<in> V"
    and mul_si [impl_law]: "n \<in> V \<Longrightarrow> a \<in> V \<Longrightarrow> \<alpha> (element_mul_si F n a i) = \<alpha> a * of_int i"
    and mul_mpz_in [intro, simp]: "n \<in> V \<Longrightarrow> a \<in> V \<Longrightarrow> element_mul_mpz F n a z \<in> V"
    and mul_mpz [impl_law]: "n \<in> V \<Longrightarrow> a \<in> V \<Longrightarrow> \<alpha> (element_mul_mpz F n a z) = \<alpha> a * of_int z"
    and cmp [impl_law]: "a \<in> V \<Longrightarrow> b \<in> V \<Longrightarrow> element_cmp F a b = 0 \<longleftrightarrow> \<alpha> a = \<alpha> b"
    and is0 [impl_law]: "a \<in> V \<Longrightarrow> element_is0 F a = 0 \<longleftrightarrow> \<alpha> a \<noteq> 0"
    and is1 [impl_law]: "a \<in> V \<Longrightarrow> element_is1 F a = 0 \<longleftrightarrow> \<alpha> a \<noteq> 1"

locale field_impl = ring_impl F V \<alpha>
  for F :: "'a field_s" and V :: "'a set" and \<alpha> :: "'a \<Rightarrow> 'k::comm_ring_1" +
  assumes invert_in [intro, simp]:
      "n \<in> V \<Longrightarrow> a \<in> V \<Longrightarrow> \<alpha> a \<noteq> 0 \<Longrightarrow> element_invert F n a \<in> V"
    and invert [impl_law]:
      "n \<in> V \<Longrightarrow> a \<in> V \<Longrightarrow> \<alpha> a \<noteq> 0 \<Longrightarrow> \<alpha> a * \<alpha> (element_invert F n a) = 1"

section \<open>The generic routines, through the contracts\<close>

context ring_impl
begin

lemma generic_sub_ok:
  assumes "c \<in> V" "a \<in> V" "b \<in> V"
  shows "generic_sub F same c a b \<in> V" and "\<alpha> (generic_sub F same c a b) = \<alpha> a - \<alpha> b"
  using assms by (simp_all add: generic_sub_def Let_def impl_law)

lemma generic_square_ok:
  assumes "r \<in> V" "a \<in> V"
  shows "generic_square F r a \<in> V" and "\<alpha> (generic_square F r a) = \<alpha> a * \<alpha> a"
  using assms by (simp_all add: generic_square_def impl_law)

lemma generic_double_ok:
  assumes "r \<in> V" "a \<in> V"
  shows "generic_double F r a \<in> V" and "\<alpha> (generic_double F r a) = \<alpha> a + \<alpha> a"
  using assms by (simp_all add: generic_double_def impl_law)

lemma generic_mul_mpz_ok:
  assumes "r \<in> V" "a \<in> V"
  shows "generic_mul_mpz F r a z \<in> V" and "\<alpha> (generic_mul_mpz F r a z) = \<alpha> a * of_int z"
  using assms by (simp_all add: generic_mul_mpz_def Let_def impl_law)

lemma generic_mul_si_ok:
  assumes "r \<in> V" "a \<in> V"
  shows "generic_mul_si F r a i \<in> V" and "\<alpha> (generic_mul_si F r a i) = \<alpha> a * of_int i"
  using assms by (simp_all add: generic_mul_si_def Let_def impl_law)

lemma generic_add_ui_ok:
  assumes "c \<in> V" "a \<in> V"
  shows "generic_add_ui F c a b \<in> V" and "\<alpha> (generic_add_ui F c a b) = \<alpha> a + of_nat b"
  using assms by (simp_all add: generic_add_ui_def Let_def impl_law)

text \<open>What the fallback tests return: they are nonzero exactly when the test fails.\<close>

lemma generic_is0_inverted: "a \<in> V \<Longrightarrow> generic_is0 F a = 0 \<longleftrightarrow> \<alpha> a = 0"
  by (simp add: generic_is0_def impl_law)

lemma generic_is1_inverted: "a \<in> V \<Longrightarrow> generic_is1 F a = 0 \<longleftrightarrow> \<alpha> a = 1"
  by (simp add: generic_is1_def Let_def impl_law)

end

context field_impl
begin

lemma no_zero_divisors:
  assumes "a \<in> V" "b \<in> V" "\<alpha> a * \<alpha> b = 0"
  shows "\<alpha> a = 0 \<or> \<alpha> b = 0"
proof (rule disjCI)
  assume "\<alpha> b \<noteq> 0"
  then have "\<alpha> b * \<alpha> (element_invert F b b) = 1" using assms by (simp add: impl_law)
  then have "\<alpha> a = \<alpha> a * \<alpha> b * \<alpha> (element_invert F b b)" by (simp add: mult.assoc)
  with assms show "\<alpha> a = 0" by simp
qed

lemma inverse_unique:
  assumes "n \<in> V" "a \<in> V" "\<alpha> a * y = 1"
  shows "\<alpha> (element_invert F n a) = y"
proof -
  have "\<alpha> a \<noteq> 0" using assms by (metis mult_zero_left zero_neq_one)
  then have "\<alpha> a * \<alpha> (element_invert F n a) = 1" using assms by (simp add: impl_law)
  then show ?thesis using assms(3)
    by (metis mult.assoc mult.commute mult.right_neutral)
qed

lemma generic_div_ok:
  assumes "c \<in> V" "a \<in> V" "b \<in> V" "\<alpha> b \<noteq> 0"
  shows "generic_div F same c a b \<in> V" and "\<alpha> (generic_div F same c a b) * \<alpha> b = \<alpha> a"
proof -
  show "generic_div F same c a b \<in> V"
    using assms by (simp add: generic_div_def Let_def)
  have *: "\<alpha> (element_invert F n b) * \<alpha> a * \<alpha> b = \<alpha> a" if "n \<in> V" for n
    using invert [OF that assms(3,4)] by (metis mult.assoc mult.commute mult.left_neutral)
  show "\<alpha> (generic_div F same c a b) * \<alpha> b = \<alpha> a"
    using assms by (simp add: generic_div_def Let_def impl_law *)
qed

lemma generic_halve_ok:
  assumes "r \<in> V" "a \<in> V" "(2::'k) \<noteq> 0"
  shows "generic_halve F r a \<in> V"
    and "\<alpha> (generic_halve F r a) + \<alpha> (generic_halve F r a) = \<alpha> a"
proof -
  let ?two = "element_set_si F (element_init F) 2"
  have two: "?two \<in> V" "\<alpha> ?two = 2" by (simp_all add: impl_law)
  then have inv: "\<alpha> (element_invert F ?two ?two) * 2 = 1"
    using assms invert [of ?two ?two] by (simp add: mult.commute)
  show "generic_halve F r a \<in> V"
    using assms two by (simp add: generic_halve_def Let_def)
  have eq: "\<alpha> (generic_halve F r a) = \<alpha> a * \<alpha> (element_invert F ?two ?two)"
    using assms two by (simp add: generic_halve_def Let_def impl_law)
  have half: "x * i + x * i = x" if "i * 2 = 1" for x i :: 'k
    using that by (metis distrib_left mult.right_neutral mult_2_right)
  show "\<alpha> (generic_halve F r a) + \<alpha> (generic_halve F r a) = \<alpha> a"
    unfolding eq by (rule half [OF inv])
qed

end

end
