(* ===== verification/Pow.thy ===== *)
theory Pow
  imports Contracts
begin

text \<open>
  Exponentiation in \<^verbatim>\<open>arith/field.c\<close>: sliding windows (\<open>generic_pow_mpz\<close>), plain
  square and multiply, simultaneous two- and three-base exponentiation, and the fixed-base
  tables behind \<open>element_pp_pow\<close>. A loop that counts a bit index \<open>s\<close> down to zero is a
  recursion on the number of bits left. Table reads that the code does not check return
  \<open>None\<close> when they are out of range.
\<close>

section \<open>Sliding window\<close>

definition optimal_pow_window_size :: "gmp \<Rightarrow> int \<Rightarrow> nat" where
  "optimal_pow_window_size G n = (
     let exp_bits = mpz_sizeinbase G n 2 in
     if exp_bits > 9065 then 8
     else if exp_bits > 3529 then 7
     else if exp_bits > 1324 then 6
     else if exp_bits > 474 then 5
     else if exp_bits > 157 then 4
     else if exp_bits > 47 then 3
     else 2)"

text \<open>The table \<open>lookup[s] = a^s\<close> for \<open>s < 2^k\<close>; no table when \<open>k < 1\<close>.\<close>

fun fill_pow_window :: "'a field_s \<Rightarrow> 'a \<Rightarrow> nat \<Rightarrow> 'a list \<Rightarrow> 'a list" where
  "fill_pow_window F a 0 lookup = lookup"
| "fill_pow_window F a (Suc todo) lookup =
     fill_pow_window F a todo (lookup @ [element_mul F (element_init F) (last lookup) a])"

definition build_pow_window :: "'a field_s \<Rightarrow> 'a \<Rightarrow> nat \<Rightarrow> 'a list option" where
  "build_pow_window F a k = (
     if k < 1 then None
     else
       let lookup_size = 2 ^ k
       in Some (fill_pow_window F a (lookup_size - 1) [element_set1 F (element_init F)]))"

text \<open>
  The scan from the top bit down. \<open>inword\<close> says whether a window is being read, \<open>word\<close>
  and \<open>wbits\<close> are its value and length so far.
\<close>

fun pow_wind_loop :: "gmp \<Rightarrow> 'a field_s \<Rightarrow> int \<Rightarrow> nat \<Rightarrow> 'a list \<Rightarrow> nat \<Rightarrow> bool \<Rightarrow> nat \<Rightarrow> nat \<Rightarrow> 'a \<Rightarrow> 'a" where
  "pow_wind_loop G F n k lookup 0 inword word wbits result = result"
| "pow_wind_loop G F n k lookup (Suc s) inword word wbits result = (
     let result = element_square F result result;
         bit = mpz_tstbit G n s
     in if \<not> inword \<and> bit = 0 then pow_wind_loop G F n k lookup s inword word wbits result
        else
          let word' = (if \<not> inword then 1 else 2 * word + bit);
              wbits' = (if \<not> inword then 1 else wbits + 1)
          in if wbits' = k \<or> s = 0
             then pow_wind_loop G F n k lookup s False word' wbits'
                    (element_mul F result result (lookup ! word'))
             else pow_wind_loop G F n k lookup s True word' wbits' result)"

definition element_pow_wind :: "gmp \<Rightarrow> 'a field_s \<Rightarrow> 'a \<Rightarrow> int \<Rightarrow> nat \<Rightarrow> 'a list \<Rightarrow> 'a" where
  "element_pow_wind G F x n k a_lookup = (
     if mpz_sgn G n = 0 then element_set1 F x
     else
       let result = element_set1 F (element_init F);
           result = pow_wind_loop G F n k a_lookup (mpz_sizeinbase G n 2) False 0 0 result
       in element_set F x result)"

definition generic_pow_mpz :: "gmp \<Rightarrow> 'a field_s \<Rightarrow> 'a \<Rightarrow> 'a \<Rightarrow> int \<Rightarrow> 'a" where
  "generic_pow_mpz G F x a n = (
     if mpz_is0 G n then element_set1 F x
     else
       let k = optimal_pow_window_size G n
       in case build_pow_window F a k of
            Some a_lookup \<Rightarrow> element_pow_wind G F x n k a_lookup
          | None \<Rightarrow> undefined)"

definition element_pow_mpz :: "gmp \<Rightarrow> 'a field_s \<Rightarrow> 'a \<Rightarrow> 'a \<Rightarrow> int \<Rightarrow> 'a" where
  "element_pow_mpz G F x a n =
     (case f_pow_mpz F of Some f \<Rightarrow> f x a n | None \<Rightarrow> generic_pow_mpz G F x a n)"

definition element_pow_zn :: "gmp \<Rightarrow> 'a field_s \<Rightarrow> 'b field_s \<Rightarrow> 'a \<Rightarrow> 'a \<Rightarrow> 'b \<Rightarrow> 'a" where
  "element_pow_zn G F Zn x a n = (let z = element_to_mpz Zn n in element_pow_mpz G F x a z)"

section \<open>Square and multiply\<close>

fun naive_pow_loop :: "gmp \<Rightarrow> 'a field_s \<Rightarrow> 'a \<Rightarrow> int \<Rightarrow> nat \<Rightarrow> 'a \<Rightarrow> 'a" where
  "naive_pow_loop G F a n 0 result = result"
| "naive_pow_loop G F a n (Suc s) result = (
     let result = element_square F result result;
         result = (if mpz_tstbit G n s \<noteq> 0 then element_mul F result result a else result)
     in naive_pow_loop G F a n s result)"

definition naive_generic_pow_mpz :: "gmp \<Rightarrow> 'a field_s \<Rightarrow> 'a \<Rightarrow> 'a \<Rightarrow> int \<Rightarrow> 'a" where
  "naive_generic_pow_mpz G F x a n = (
     if mpz_is0 G n then element_set1 F x
     else
       let result = element_set1 F (element_init F);
           result = naive_pow_loop G F a n (mpz_sizeinbase G n 2) result
       in element_set F x result)"

section \<open>Two and three bases at once\<close>

fun pow2_loop :: "gmp \<Rightarrow> 'a field_s \<Rightarrow> 'a \<Rightarrow> int \<Rightarrow> 'a \<Rightarrow> int \<Rightarrow> 'a \<Rightarrow> nat \<Rightarrow> 'a \<Rightarrow> 'a" where
  "pow2_loop G F a1 n1 a2 n2 a1a2 0 result = result"
| "pow2_loop G F a1 n1 a2 n2 a1a2 (Suc s) result = (
     let result = element_mul F result result result;
         b1 = mpz_tstbit G n1 s; b2 = mpz_tstbit G n2 s;
         result = (if b1 \<noteq> 0 \<and> b2 \<noteq> 0 then element_mul F result result a1a2
                   else if b1 \<noteq> 0 then element_mul F result result a1
                   else if b2 \<noteq> 0 then element_mul F result result a2
                   else result)
     in pow2_loop G F a1 n1 a2 n2 a1a2 s result)"

definition element_pow2_mpz ::
  "gmp \<Rightarrow> 'a field_s \<Rightarrow> 'a \<Rightarrow> 'a \<Rightarrow> int \<Rightarrow> 'a \<Rightarrow> int \<Rightarrow> 'a" where
  "element_pow2_mpz G F x a1 n1 a2 n2 = (
     if mpz_is0 G n1 \<and> mpz_is0 G n2 then element_set1 F x
     else
       let result = element_set1 F (element_init F);
           a1a2 = element_mul F (element_init F) a1 a2;
           s1 = mpz_sizeinbase G n1 2;
           s2 = mpz_sizeinbase G n2 2;
           s = (if s1 > s2 then s1 else s2);
           result = pow2_loop G F a1 n1 a2 n2 a1a2 s result
       in element_set F x result)"

fun pow3_loop :: "gmp \<Rightarrow> 'a field_s \<Rightarrow> int \<Rightarrow> int \<Rightarrow> int \<Rightarrow> 'a list \<Rightarrow> nat \<Rightarrow> 'a \<Rightarrow> 'a" where
  "pow3_loop G F n1 n2 n3 lookup 0 result = result"
| "pow3_loop G F n1 n2 n3 lookup (Suc s) result = (
     let result = element_mul F result result result;
         b = mpz_tstbit G n1 s + push_bit 1 (mpz_tstbit G n2 s) + push_bit 2 (mpz_tstbit G n3 s);
         result = element_mul F result result (lookup ! b)
     in pow3_loop G F n1 n2 n3 lookup s result)"

definition pow3_lookup :: "'a field_s \<Rightarrow> 'a \<Rightarrow> 'a \<Rightarrow> 'a \<Rightarrow> 'a list" where
  "pow3_lookup F a1 a2 a3 = (
     let i = element_init F;
         l0 = element_set1 F i;
         l1 = element_set F i a1;
         l2 = element_set F i a2;
         l4 = element_set F i a3;
         l3 = element_mul F i a1 a2;
         l5 = element_mul F i a1 a3;
         l6 = element_mul F i a2 a3;
         l7 = element_mul F i l6 a1
     in [l0, l1, l2, l3, l4, l5, l6, l7])"

definition element_pow3_mpz ::
  "gmp \<Rightarrow> 'a field_s \<Rightarrow> 'a \<Rightarrow> 'a \<Rightarrow> int \<Rightarrow> 'a \<Rightarrow> int \<Rightarrow> 'a \<Rightarrow> int \<Rightarrow> 'a" where
  "element_pow3_mpz G F x a1 n1 a2 n2 a3 n3 = (
     if mpz_is0 G n1 \<and> mpz_is0 G n2 \<and> mpz_is0 G n3 then element_set1 F x
     else
       let result = element_set1 F (element_init F);
           lookup = pow3_lookup F a1 a2 a3;
           s1 = mpz_sizeinbase G n1 2;
           s2 = mpz_sizeinbase G n2 2;
           s3 = mpz_sizeinbase G n3 2;
           s = (if s1 > s2 then (if s1 > s3 then s1 else s3) else (if s2 > s3 then s2 else s3));
           result = pow3_loop G F n1 n2 n3 lookup s result
       in element_set F x result)"

definition element_pow2_zn ::
  "gmp \<Rightarrow> 'a field_s \<Rightarrow> 'b field_s \<Rightarrow> 'a \<Rightarrow> 'a \<Rightarrow> 'b \<Rightarrow> 'a \<Rightarrow> 'b \<Rightarrow> 'a" where
  "element_pow2_zn G F Zn x a1 n1 a2 n2 = (
     let z1 = element_to_mpz Zn n1;
         z2 = element_to_mpz Zn n2
     in element_pow2_mpz G F x a1 z1 a2 z2)"

definition element_pow3_zn ::
  "gmp \<Rightarrow> 'a field_s \<Rightarrow> 'b field_s \<Rightarrow> 'a \<Rightarrow> 'a \<Rightarrow> 'b \<Rightarrow> 'a \<Rightarrow> 'b \<Rightarrow> 'a \<Rightarrow> 'b \<Rightarrow> 'a" where
  "element_pow3_zn G F Zn x a1 n1 a2 n2 a3 n3 = (
     let z1 = element_to_mpz Zn n1;
         z2 = element_to_mpz Zn n2;
         z3 = element_to_mpz Zn n3
     in element_pow3_mpz G F x a1 z1 a2 z2 a3 z3)"

section \<open>Fixed-base tables\<close>

record 'a element_base_table =
  bt_k :: nat
  bt_bits :: nat
  bt_num_lookups :: nat
  bt_table :: "'a list list"

fun fill_base_row :: "'a field_s \<Rightarrow> 'a \<Rightarrow> nat \<Rightarrow> 'a list \<Rightarrow> 'a list" where
  "fill_base_row F multiplier 0 lookup = lookup"
| "fill_base_row F multiplier (Suc todo) lookup =
     fill_base_row F multiplier todo
       (lookup @ [element_mul F (element_init F) multiplier (last lookup)])"

fun fill_base_table :: "'a field_s \<Rightarrow> nat \<Rightarrow> nat \<Rightarrow> 'a \<Rightarrow> 'a list list \<Rightarrow> 'a list list" where
  "fill_base_table F lookup_size 0 multiplier table = table"
| "fill_base_table F lookup_size (Suc todo) multiplier table = (
     let lookup = fill_base_row F multiplier (lookup_size - 1) [element_set1 F (element_init F)];
         multiplier = element_mul F multiplier multiplier (lookup ! (lookup_size - 1))
     in fill_base_table F lookup_size todo multiplier (table @ [lookup]))"

definition element_build_base_table :: "'a field_s \<Rightarrow> 'a \<Rightarrow> nat \<Rightarrow> nat \<Rightarrow> 'a element_base_table" where
  "element_build_base_table F a bits k = (
     let lookup_size = 2 ^ k;
         num_lookups = bits div k + 1;
         multiplier = element_set F (element_init F) a
     in \<lparr> bt_k = k, bt_bits = bits, bt_num_lookups = num_lookups,
          bt_table = fill_base_table F lookup_size num_lookups multiplier [] \<rparr>)"

definition nth_opt :: "'a list \<Rightarrow> nat \<Rightarrow> 'a option" where
  "nth_opt xs i = (if i < length xs then Some (xs ! i) else None)"

text \<open>The word of row \<open>row\<close>: bits \<open>k * row\<close> up to \<open>k * row + k - 1\<close>.\<close>

fun base_word :: "gmp \<Rightarrow> int \<Rightarrow> nat \<Rightarrow> nat \<Rightarrow> nat \<Rightarrow> nat" where
  "base_word G n k row 0 = 0"
| "base_word G n k row (Suc s) =
     Bit_Operations.or (base_word G n k row s) (push_bit s (mpz_tstbit G n (k * row + s)))"

fun base_table_loop ::
  "gmp \<Rightarrow> 'a field_s \<Rightarrow> int \<Rightarrow> 'a element_base_table \<Rightarrow> nat list \<Rightarrow> 'a \<Rightarrow> 'a option" where
  "base_table_loop G F n bt [] result = Some result"
| "base_table_loop G F n bt (row # rows) result = (
     let word = base_word G n (bt_k bt) row (bt_k bt)
     in if word > 0
        then (case nth_opt (bt_table bt) row of
                None \<Rightarrow> None
              | Some lookup \<Rightarrow>
                  (case nth_opt lookup word of
                     None \<Rightarrow> None
                   | Some e \<Rightarrow> base_table_loop G F n bt rows (element_mul F result result e)))
        else base_table_loop G F n bt rows result)"

definition element_pow_base_table ::
  "gmp \<Rightarrow> 'a field_s \<Rightarrow> 'a \<Rightarrow> int \<Rightarrow> 'a element_base_table \<Rightarrow> 'a option" where
  "element_pow_base_table G F x n bt = (
     if mpz_sgn G n = 0 then Some (element_set1 F x)
     else
       let result = element_set1 F (element_init F);
           num_lookups = mpz_sizeinbase G n 2 div bt_k bt + 1
       in map_option (element_set F x) (base_table_loop G F n bt [0..<num_lookups] result))"

definition default_element_pp_init :: "gmp \<Rightarrow> 'a field_s \<Rightarrow> 'a \<Rightarrow> 'a element_base_table" where
  "default_element_pp_init G F a =
     element_build_base_table F a (mpz_sizeinbase G (f_order F) 2) 5"

definition default_element_pp_pow ::
  "gmp \<Rightarrow> 'a field_s \<Rightarrow> 'a \<Rightarrow> int \<Rightarrow> 'a element_base_table \<Rightarrow> 'a option" where
  "default_element_pp_pow G F out pw p = element_pow_base_table G F out pw p"

section \<open>Discrete logarithm by search\<close>

partial_function (option) brute_force_loop ::
  "gmp \<Rightarrow> 'a field_s \<Rightarrow> 'a \<Rightarrow> 'a \<Rightarrow> 'a \<Rightarrow> int \<Rightarrow> int option" where
  "brute_force_loop G F g h g0 count = (
     if element_cmp F g0 h \<noteq> 0
     then brute_force_loop G F g h (element_mul F g0 g0 g) (mpz_add G count 1)
     else Some count)"

definition brute_force_dlog ::
  "gmp \<Rightarrow> 'a field_s \<Rightarrow> 'b field_s \<Rightarrow> 'b \<Rightarrow> 'a \<Rightarrow> 'a \<Rightarrow> 'b option" where
  "brute_force_dlog G F Zn x g h = (
     let g0 = element_set F (element_init F) g
     in map_option (element_set_mpz Zn x) (brute_force_loop G F g h g0 1))"

end
