(* ===== verification/PowCorrect.thy ===== *)
theory PowCorrect
  imports Pow
begin

text \<open>
  The exponentiation routines compute powers. Every loop keeps an invariant on the part
  \<open>n div 2^s\<close> of the exponent it has read; the closure facts need only \<open>magma_impl\<close>, so
  that they also hold for the points of a curve.
\<close>

locale magma_gmp = magma_impl F V + gmp: gmp_laws G
  for F :: "'a field_s" and V :: "'a set" and G :: gmp

locale monoid_gmp = monoid_impl F V \<alpha> + gmp: gmp_laws G
  for F :: "'a field_s" and V :: "'a set" and \<alpha> :: "'a \<Rightarrow> 'm::monoid_mult" and G :: gmp

sublocale monoid_gmp \<subseteq> magma: magma_gmp F V G
  by unfold_locales

locale ring_gmp = ring_impl F V \<alpha> + gmp: gmp_laws G
  for F :: "'a field_s" and V :: "'a set" and \<alpha> :: "'a \<Rightarrow> 'k::comm_ring_1" and G :: gmp

sublocale ring_gmp \<subseteq> monoid: monoid_gmp F V \<alpha> G
  by unfold_locales

text \<open>
  A field together with its exponentiation, which an implementation may override.
\<close>

locale field_gmp = field_impl F V \<alpha> + gmp: gmp_laws G
  for F :: "'a field_s" and V :: "'a set" and \<alpha> :: "'a \<Rightarrow> 'k::comm_ring_1" and G :: gmp +
  assumes pow_in [intro, simp]:
      "x \<in> V \<Longrightarrow> a \<in> V \<Longrightarrow> 0 \<le> n \<Longrightarrow> element_pow_mpz G F x a n \<in> V"
    and pow [impl_law]:
      "x \<in> V \<Longrightarrow> a \<in> V \<Longrightarrow> 0 \<le> n \<Longrightarrow> \<alpha> (element_pow_mpz G F x a n) = \<alpha> a ^ nat n"

sublocale field_gmp \<subseteq> ring: ring_gmp F V \<alpha> G
  by unfold_locales

lemma optimal_window_pos: "1 \<le> optimal_pow_window_size G n"
  by (simp add: optimal_pow_window_size_def Let_def)

lemma tst_le_1: "gmp_laws G \<Longrightarrow> 0 \<le> n \<Longrightarrow> mpz_tstbit G n s \<le> 1"
  using gmp_laws.tstbit_nat [of G n s] by simp

lemma nat_div_step:
  assumes "gmp_laws G" "0 \<le> n"
  shows "nat n div 2 ^ s = 2 * (nat n div 2 ^ Suc s) + mpz_tstbit G n s"
  using gmp_laws.tstbit_nat [OF assms(1,2)] div_pow2_step by simp

lemma top_bits_zero:
  assumes "gmp_laws G" "0 \<le> n" "mpz_sizeinbase G n 2 \<le> s"
  shows "nat n div 2 ^ s = 0"
  using assms by (auto simp: gmp_laws.sizeinbase intro: bit_above_nbits)

text \<open>The window table.\<close>

lemma length_fill_pow_window: "length (fill_pow_window F a t l) = length l + t"
  by (induction F a t l rule: fill_pow_window.induct) auto

text \<open>One step of the window scan keeps the window in range.\<close>

lemma window_range:
  fixes word b k :: nat
  assumes "inword \<longrightarrow> wbits < k \<and> word < 2 ^ wbits" "b \<le> 1" "1 \<le> k"
  defines "word' \<equiv> if \<not> inword then 1 else 2 * word + b"
    and "wbits' \<equiv> if \<not> inword then 1 else wbits + (1::nat)"
  shows "wbits' \<le> k" and "word' < 2 ^ wbits'" and "word' < 2 ^ k"
proof -
  show a: "wbits' \<le> k" using assms by (auto split: if_splits)
  show b: "word' < 2 ^ wbits'" using assms by auto
  have "(2::nat) ^ wbits' \<le> 2 ^ k" using a by simp
  with b show "word' < 2 ^ k" by (rule less_le_trans)
qed

context magma_gmp
begin

lemma fill_pow_window_in:
  assumes "a \<in> V" "set l \<subseteq> V" "l \<noteq> []"
  shows "set (fill_pow_window F a t l) \<subseteq> V"
  using assms
proof (induction t arbitrary: l)
  case 0
  then show ?case by simp
next
  case (Suc t)
  have "last l \<in> V" using Suc.prems last_in_set by blast
  with Suc show ?case by auto
qed

lemma build_pow_window_in:
  assumes "a \<in> V" "1 \<le> k" "build_pow_window F a k = Some l"
  shows "set l \<subseteq> V" and "length l = 2 ^ k"
  using assms fill_pow_window_in [of a "[element_set1 F (element_init F)]"]
  by (auto simp: build_pow_window_def Let_def length_fill_pow_window split: if_splits)

lemma pow_wind_loop_in:
  assumes "0 \<le> n" "1 \<le> k" "set l \<subseteq> V" "length l = 2 ^ k" "r \<in> V"
    and "inword \<longrightarrow> wbits < k \<and> word < 2 ^ wbits"
  shows "pow_wind_loop G F n k l s inword word wbits r \<in> V"
  using assms(5,6)
proof (induction s arbitrary: inword word wbits r)
  case 0
  then show ?case by simp
next
  case (Suc s)
  have b: "mpz_tstbit G n s \<le> 1" using assms(1) tst_le_1 gmp.gmp_laws_axioms by blast
  note range = window_range [OF Suc.prems(2) b assms(2)]
  have look: "l ! (if \<not> inword then 1 else 2 * word + mpz_tstbit G n s) \<in> V"
    using range(3) assms(3,4) nth_mem by (metis subsetD)
  show ?case
    using range Suc look by (auto simp: Let_def)
qed

lemma generic_pow_mpz_in:
  assumes "x \<in> V" "a \<in> V" "0 \<le> n"
  shows "generic_pow_mpz G F x a n \<in> V"
proof (cases "n = 0")
  case True
  then show ?thesis using assms by (simp add: generic_pow_mpz_def gmp_law)
next
  case False
  define k where "k = optimal_pow_window_size G n"
  have k: "1 \<le> k" unfolding k_def by (rule optimal_window_pos)
  then obtain l where l: "build_pow_window F a k = Some l"
    by (simp add: build_pow_window_def Let_def)
  have "pow_wind_loop G F n k l (mpz_sizeinbase G n 2) False 0 0 (element_set1 F (element_init F)) \<in> V"
    by (rule pow_wind_loop_in [OF assms(3) k build_pow_window_in [OF assms(2) k l]]) simp_all
  then show ?thesis
    using False assms l
    by (simp add: generic_pow_mpz_def element_pow_wind_def Let_def gmp_law k_def sgn_0_0)
qed

end

context monoid_gmp
begin

lemma fill_pow_window_value:
  assumes "a \<in> V" "set l \<subseteq> V" "l \<noteq> []" "\<And>i. i < length l \<Longrightarrow> \<alpha> (l ! i) = \<alpha> a ^ i"
    and "i < length l + t"
  shows "\<alpha> (fill_pow_window F a t l ! i) = \<alpha> a ^ i"
  using assms(2-)
proof (induction t arbitrary: l)
  case 0
  then show ?case by simp
next
  case (Suc t)
  let ?e = "element_mul F (element_init F) (last l) a"
  have last: "last l \<in> V" "last l = l ! (length l - 1)"
    using Suc.prems by (auto simp: last_conv_nth)
  then have "\<alpha> ?e = \<alpha> a ^ (length l - 1) * \<alpha> a"
    using assms(1) Suc.prems by (simp add: impl_law)
  also have "\<dots> = \<alpha> a ^ length l"
    using Suc.prems(2) by (cases "length l") (auto simp: power_commutes)
  finally have e: "\<alpha> ?e = \<alpha> a ^ length l" .
  show ?case
    unfolding fill_pow_window.simps
    using Suc.prems last e assms(1)
    by (intro Suc.IH) (auto simp: nth_append less_Suc_eq)
qed

lemma build_pow_window_value:
  assumes "a \<in> V" "1 \<le> k" "build_pow_window F a k = Some l" "i < 2 ^ k"
  shows "\<alpha> (l ! i) = \<alpha> a ^ i"
  using assms fill_pow_window_value [of a "[element_set1 F (element_init F)]" i "2 ^ k - 1"]
  by (auto simp: build_pow_window_def Let_def impl_law split: if_splits)

text \<open>
  The invariant of the scan: the accumulated power and the open window together spell the
  bits read so far.
\<close>

lemma pow_wind_loop_value:
  assumes n: "0 \<le> n" and k: "1 \<le> k" and l: "set l \<subseteq> V" "length l = 2 ^ k"
    and lv: "\<And>i. i < 2 ^ k \<Longrightarrow> \<alpha> (l ! i) = c ^ i"
    and "r \<in> V" "inword \<longrightarrow> wbits < k \<and> word < 2 ^ wbits" "s = 0 \<longrightarrow> \<not> inword"
    and "\<alpha> r = c ^ e" "e + (if inword then word else 0) = nat n div 2 ^ s"
  shows "\<alpha> (pow_wind_loop G F n k l s inword word wbits r) = c ^ nat n"
  using assms(6-)
proof (induction s arbitrary: inword word wbits r e)
  case 0
  then show ?case by simp
next
  case (Suc s)
  define b where "b = mpz_tstbit G n s"
  have b: "b \<le> 1" using n tst_le_1 gmp.gmp_laws_axioms by (simp add: b_def)
  note range = window_range [OF Suc.prems(2) b k]
  define word' where "word' = (if \<not> inword then 1 else 2 * word + b)"
  define wbits' where "wbits' = (if \<not> inword then 1 else wbits + 1)"
  have word': "wbits' \<le> k" "word' < 2 ^ wbits'" "word' < 2 ^ k"
    using range by (auto simp: word'_def wbits'_def)
  have look: "l ! word' \<in> V" using word'(3) l nth_mem by (metis subsetD)
  let ?q = "element_square F r r"
  have q: "?q \<in> V" "\<alpha> ?q = c ^ (2 * e)"
    using Suc.prems by (simp_all add: impl_law mult_2 power_add)
  have step: "nat n div 2 ^ s = 2 * (e + (if inword then word else 0)) + b"
    using nat_div_step [OF gmp.gmp_laws_axioms n, of s] Suc.prems(5) by (simp add: b_def)
  show ?case
  proof (cases "\<not> inword \<and> b = 0")
    case True
    then show ?thesis
      using Suc.IH [OF q(1) _ _ q(2), of inword wbits word] step by (simp add: Let_def b_def)
  next
    case False
    have sum: "2 * e + word' = nat n div 2 ^ s"
      using step False b by (auto simp: word'_def)
    show ?thesis
    proof (cases "wbits' = k \<or> s = 0")
      case True
      have "\<alpha> (element_mul F ?q ?q (l ! word')) = c ^ (2 * e + word')"
        using q look lv [OF word'(3)] by (simp add: impl_law power_add)
      then have "\<alpha> (pow_wind_loop G F n k l s False word' wbits'
          (element_mul F ?q ?q (l ! word'))) = c ^ nat n"
        by (intro Suc.IH) (use q look sum in auto)
      moreover have "pow_wind_loop G F n k l (Suc s) inword word wbits r =
          pow_wind_loop G F n k l s False word' wbits' (element_mul F ?q ?q (l ! word'))"
        using True False by (cases inword) (simp_all add: Let_def b_def word'_def wbits'_def)
      ultimately show ?thesis by simp
    next
      case flush: False
      have "\<alpha> (pow_wind_loop G F n k l s True word' wbits' ?q) = c ^ nat n"
        by (rule Suc.IH [OF q(1) _ _ q(2)]) (use flush word' sum in auto)
      then show ?thesis
        using flush False by (cases inword) (simp_all add: Let_def b_def word'_def wbits'_def)
    qed
  qed
qed

lemma generic_pow_mpz_value:
  assumes "x \<in> V" "a \<in> V" "0 \<le> n"
  shows "\<alpha> (generic_pow_mpz G F x a n) = \<alpha> a ^ nat n"
proof (cases "n = 0")
  case True
  then show ?thesis using assms by (simp add: generic_pow_mpz_def gmp_law impl_law)
next
  case False
  define k where "k = optimal_pow_window_size G n"
  have k: "1 \<le> k" unfolding k_def by (rule optimal_window_pos)
  then obtain l where l: "build_pow_window F a k = Some l"
    by (simp add: build_pow_window_def Let_def)
  note lin = magma.build_pow_window_in [OF assms(2) k l]
  define s where "s = mpz_sizeinbase G n 2"
  have s: "0 < s" "nat n div 2 ^ s = 0"
    using top_bits_zero [OF gmp.gmp_laws_axioms assms(3)] by (simp_all add: s_def gmp.sizeinbase)
  let ?r = "element_set1 F (element_init F)"
  let ?p = "pow_wind_loop G F n k l s False 0 0 ?r"
  have "?p \<in> V" by (rule magma.pow_wind_loop_in [OF assms(3) k lin]) simp_all
  moreover have "\<alpha> ?p = \<alpha> a ^ nat n"
    by (rule pow_wind_loop_value [OF assms(3) k lin, where e = 0])
       (use s build_pow_window_value [OF assms(2) k l] in \<open>simp_all add: impl_law\<close>)
  ultimately show ?thesis
    using False assms l
    by (simp add: generic_pow_mpz_def element_pow_wind_def Let_def gmp_law impl_law k_def s_def sgn_0_0)
qed

lemma naive_pow_loop_ok:
  assumes "0 \<le> n" "a \<in> V" "r \<in> V" "\<alpha> r = \<alpha> a ^ (nat n div 2 ^ s)"
  shows "naive_pow_loop G F a n s r \<in> V \<and> \<alpha> (naive_pow_loop G F a n s r) = \<alpha> a ^ nat n"
  using assms(3,4)
proof (induction s arbitrary: r)
  case 0
  then show ?case by simp
next
  case (Suc s)
  let ?q = "element_square F r r"
  have q: "?q \<in> V" "\<alpha> ?q = \<alpha> a ^ (2 * (nat n div 2 ^ Suc s))"
    using Suc.prems by (simp_all add: impl_law mult_2 power_add)
  have b: "mpz_tstbit G n s \<le> 1"
    using tst_le_1 [OF gmp.gmp_laws_axioms assms(1)] .
  have step: "nat n div 2 ^ s = 2 * (nat n div 2 ^ Suc s) + mpz_tstbit G n s"
    by (rule nat_div_step [OF gmp.gmp_laws_axioms assms(1)])
  let ?r = "if mpz_tstbit G n s \<noteq> 0 then element_mul F ?q ?q a else ?q"
  have "?r \<in> V" "\<alpha> ?r = \<alpha> a ^ (nat n div 2 ^ s)"
    using q b step assms(2) by (auto simp: impl_law power_add le_Suc_eq power_commutes simp del: power_Suc)
  from Suc.IH [OF this] show ?case by (simp add: Let_def)
qed

lemma naive_generic_pow_mpz_value:
  assumes "x \<in> V" "a \<in> V" "0 \<le> n"
  shows "\<alpha> (naive_generic_pow_mpz G F x a n) = \<alpha> a ^ nat n"
proof (cases "n = 0")
  case True
  then show ?thesis using assms by (simp add: naive_generic_pow_mpz_def gmp_law impl_law)
next
  case False
  let ?s = "mpz_sizeinbase G n 2"
  have "nat n div 2 ^ ?s = 0" by (rule top_bits_zero [OF gmp.gmp_laws_axioms assms(3)]) simp
  then show ?thesis
    using False assms naive_pow_loop_ok [of n a "element_set1 F (element_init F)" ?s]
    by (simp add: naive_generic_pow_mpz_def gmp_law impl_law Let_def del: gmp.sizeinbase)
qed

end


section \<open>Several bases, and fixed-base tables\<close>

locale comm_monoid_gmp = monoid_gmp F V \<alpha> G
  for F :: "'a field_s" and V :: "'a set" and \<alpha> :: "'a \<Rightarrow> 'm::comm_monoid_mult" and G :: gmp

sublocale ring_gmp \<subseteq> comm: comm_monoid_gmp F V \<alpha> G
  by unfold_locales

lemma le_1_cases: "(b::nat) \<le> 1 \<Longrightarrow> b = 0 \<or> b = 1"
  by linarith

context comm_monoid_gmp
begin

lemma bit_step:
  fixes c :: 'm
  assumes "0 \<le> n"
  obtains "mpz_tstbit G n s = 0" "c ^ (nat n div 2 ^ s) = c ^ (nat n div 2 ^ Suc s) * c ^ (nat n div 2 ^ Suc s)"
  | "mpz_tstbit G n s = 1" "c ^ (nat n div 2 ^ s) = c ^ (nat n div 2 ^ Suc s) * c ^ (nat n div 2 ^ Suc s) * c"
proof -
  define m where "m = nat n div 2 ^ Suc s"
  have "nat n div 2 ^ s = 2 * m + mpz_tstbit G n s"
    using nat_div_step [OF gmp.gmp_laws_axioms assms] by (simp add: m_def)
  moreover have "mpz_tstbit G n s = 0 \<or> mpz_tstbit G n s = 1"
    by (rule le_1_cases [OF tst_le_1 [OF gmp.gmp_laws_axioms assms]])
  moreover have "c ^ (2 * m) = c ^ m * c ^ m" "c ^ (2 * m + 1) = c ^ m * c ^ m * c"
    by (simp_all only: mult_2 power_add power_one_right)
  ultimately show ?thesis
    using that by (metis add.right_neutral m_def)
qed

lemma pow2_loop_ok:
  assumes n: "0 \<le> n1" "0 \<le> n2" and a: "a1 \<in> V" "a2 \<in> V"
    and p: "p \<in> V" "\<alpha> p = \<alpha> a1 * \<alpha> a2"
    and "r \<in> V" "\<alpha> r = \<alpha> a1 ^ (nat n1 div 2 ^ s) * \<alpha> a2 ^ (nat n2 div 2 ^ s)"
  shows "pow2_loop G F a1 n1 a2 n2 p s r \<in> V \<and>
    \<alpha> (pow2_loop G F a1 n1 a2 n2 p s r) = \<alpha> a1 ^ nat n1 * \<alpha> a2 ^ nat n2"
  using assms(7,8)
proof (induction s arbitrary: r)
  case 0
  then show ?case by simp
next
  case (Suc s)
  let ?q = "element_mul F r r r"
  let ?b1 = "mpz_tstbit G n1 s" and ?b2 = "mpz_tstbit G n2 s"
  let ?r = "if ?b1 \<noteq> 0 \<and> ?b2 \<noteq> 0 then element_mul F ?q ?q p
            else if ?b1 \<noteq> 0 then element_mul F ?q ?q a1
            else if ?b2 \<noteq> 0 then element_mul F ?q ?q a2 else ?q"
  have q: "?q \<in> V" "\<alpha> ?q = \<alpha> r * \<alpha> r" using Suc.prems by (simp_all add: impl_law)
  have r: "?r \<in> V" using q a p by simp
  have rv: "\<alpha> ?r = \<alpha> a1 ^ (nat n1 div 2 ^ s) * \<alpha> a2 ^ (nat n2 div 2 ^ s)"
    by (rule bit_step [OF n(1), of s "\<alpha> a1"]; rule bit_step [OF n(2), of s "\<alpha> a2"])
       (use q a p Suc.prems(2) in \<open>simp_all add: impl_law ac_simps del: power_Suc\<close>)
  show ?case using Suc.IH [OF r rv] by (simp add: Let_def)
qed

lemma element_pow2_mpz_ok:
  assumes "x \<in> V" "a1 \<in> V" "a2 \<in> V" "0 \<le> n1" "0 \<le> n2"
  shows "element_pow2_mpz G F x a1 n1 a2 n2 \<in> V"
    and "\<alpha> (element_pow2_mpz G F x a1 n1 a2 n2) = \<alpha> a1 ^ nat n1 * \<alpha> a2 ^ nat n2"
proof -
  let ?s1 = "mpz_sizeinbase G n1 2" and ?s2 = "mpz_sizeinbase G n2 2"
  let ?s = "if ?s1 > ?s2 then ?s1 else ?s2"
  let ?p = "element_mul F (element_init F) a1 a2" and ?r = "element_set1 F (element_init F)"
  have "nat n1 div 2 ^ ?s = 0" "nat n2 div 2 ^ ?s = 0"
    using top_bits_zero [OF gmp.gmp_laws_axioms] assms by auto
  then have "pow2_loop G F a1 n1 a2 n2 ?p ?s ?r \<in> V \<and>
    \<alpha> (pow2_loop G F a1 n1 a2 n2 ?p ?s ?r) = \<alpha> a1 ^ nat n1 * \<alpha> a2 ^ nat n2"
    using assms by (intro pow2_loop_ok) (simp_all add: impl_law)
  then show "element_pow2_mpz G F x a1 n1 a2 n2 \<in> V"
    and "\<alpha> (element_pow2_mpz G F x a1 n1 a2 n2) = \<alpha> a1 ^ nat n1 * \<alpha> a2 ^ nat n2"
    using assms by (simp_all add: element_pow2_mpz_def Let_def impl_law gmp.is0)
qed

lemma pow3_lookup_ok:
  assumes "a1 \<in> V" "a2 \<in> V" "a3 \<in> V"
  shows "set (pow3_lookup F a1 a2 a3) \<subseteq> V" and "length (pow3_lookup F a1 a2 a3) = 8"
    and "b1 \<le> 1 \<Longrightarrow> b2 \<le> 1 \<Longrightarrow> b3 \<le> 1 \<Longrightarrow>
      \<alpha> (pow3_lookup F a1 a2 a3 ! (b1 + 2 * b2 + 4 * b3)) = \<alpha> a1 ^ b1 * \<alpha> a2 ^ b2 * \<alpha> a3 ^ b3"
proof -
  show "set (pow3_lookup F a1 a2 a3) \<subseteq> V" "length (pow3_lookup F a1 a2 a3) = 8"
    using assms by (simp_all add: pow3_lookup_def Let_def)
  assume "b1 \<le> 1" "b2 \<le> 1" "b3 \<le> 1"
  then have "b1 = 0 \<or> b1 = 1" "b2 = 0 \<or> b2 = 1" "b3 = 0 \<or> b3 = 1" by auto
  then show "\<alpha> (pow3_lookup F a1 a2 a3 ! (b1 + 2 * b2 + 4 * b3)) = \<alpha> a1 ^ b1 * \<alpha> a2 ^ b2 * \<alpha> a3 ^ b3"
    using assms by (elim disjE) (simp_all add: pow3_lookup_def Let_def impl_law ac_simps)
qed

lemma pow3_loop_ok:
  assumes n: "0 \<le> n1" "0 \<le> n2" "0 \<le> n3" and a: "a1 \<in> V" "a2 \<in> V" "a3 \<in> V"
    and "r \<in> V" "\<alpha> r = \<alpha> a1 ^ (nat n1 div 2 ^ s) * \<alpha> a2 ^ (nat n2 div 2 ^ s) * \<alpha> a3 ^ (nat n3 div 2 ^ s)"
  shows "pow3_loop G F n1 n2 n3 (pow3_lookup F a1 a2 a3) s r \<in> V \<and>
    \<alpha> (pow3_loop G F n1 n2 n3 (pow3_lookup F a1 a2 a3) s r) =
      \<alpha> a1 ^ nat n1 * \<alpha> a2 ^ nat n2 * \<alpha> a3 ^ nat n3"
  using assms(7,8)
proof (induction s arbitrary: r)
  case 0
  then show ?case by simp
next
  case (Suc s)
  let ?q = "element_mul F r r r"
  let ?b1 = "mpz_tstbit G n1 s" and ?b2 = "mpz_tstbit G n2 s" and ?b3 = "mpz_tstbit G n3 s"
  let ?l = "pow3_lookup F a1 a2 a3 ! (?b1 + 2 * ?b2 + 4 * ?b3)"
  let ?r = "element_mul F ?q ?q ?l"
  have b: "?b1 \<le> 1" "?b2 \<le> 1" "?b3 \<le> 1"
    by (rule tst_le_1 [OF gmp.gmp_laws_axioms]; fact n)+
  have "?b1 + 2 * ?b2 + 4 * ?b3 < length (pow3_lookup F a1 a2 a3)"
    using b pow3_lookup_ok(2) [OF a] by linarith
  then have l: "?l \<in> V" using pow3_lookup_ok(1) [OF a] nth_mem by blast
  have q: "?q \<in> V" "\<alpha> ?q = \<alpha> r * \<alpha> r" using Suc.prems by (simp_all add: impl_law)
  have r: "?r \<in> V" using q l by simp
  have rv: "\<alpha> ?r = \<alpha> a1 ^ (nat n1 div 2 ^ s) * \<alpha> a2 ^ (nat n2 div 2 ^ s) * \<alpha> a3 ^ (nat n3 div 2 ^ s)"
    unfolding mul [OF q(1) q(1) l] q(2) pow3_lookup_ok(3) [OF a b] Suc.prems(2)
    by (rule bit_step [OF n(1), of s "\<alpha> a1"]; rule bit_step [OF n(2), of s "\<alpha> a2"];
        rule bit_step [OF n(3), of s "\<alpha> a3"])
       (simp_all only: power_0 power_one_right mult_1_right mult_1_left ac_simps)
  show ?case using Suc.IH [OF r rv] by (simp add: Let_def push_bit_eq_mult mult.commute)
qed

lemma element_pow3_mpz_ok:
  assumes "x \<in> V" "a1 \<in> V" "a2 \<in> V" "a3 \<in> V" "0 \<le> n1" "0 \<le> n2" "0 \<le> n3"
  shows "\<alpha> (element_pow3_mpz G F x a1 n1 a2 n2 a3 n3) = \<alpha> a1 ^ nat n1 * \<alpha> a2 ^ nat n2 * \<alpha> a3 ^ nat n3"
proof -
  let ?s1 = "mpz_sizeinbase G n1 2" and ?s2 = "mpz_sizeinbase G n2 2" and ?s3 = "mpz_sizeinbase G n3 2"
  let ?s = "if ?s1 > ?s2 then (if ?s1 > ?s3 then ?s1 else ?s3) else (if ?s2 > ?s3 then ?s2 else ?s3)"
  let ?l = "pow3_lookup F a1 a2 a3" and ?r = "element_set1 F (element_init F)"
  have "nat n1 div 2 ^ ?s = 0" "nat n2 div 2 ^ ?s = 0" "nat n3 div 2 ^ ?s = 0"
    using assms by (intro top_bits_zero [OF gmp.gmp_laws_axioms]; auto)+
  then have "pow3_loop G F n1 n2 n3 ?l ?s ?r \<in> V \<and>
    \<alpha> (pow3_loop G F n1 n2 n3 ?l ?s ?r) = \<alpha> a1 ^ nat n1 * \<alpha> a2 ^ nat n2 * \<alpha> a3 ^ nat n3"
    using assms by (intro pow3_loop_ok) (simp_all add: impl_law)
  then show ?thesis
    using assms by (simp add: element_pow3_mpz_def Let_def impl_law gmp.is0)
qed

end


text \<open>The word read from one row of a fixed-base table.\<close>

lemma or_push_bit:
  assumes "w < 2 ^ s"
  shows "Bit_Operations.or (w::nat) (push_bit s b) = w + 2 ^ s * b"
proof -
  have "Bit_Operations.and w (push_bit s b) = 0"
  proof (rule bit_eqI)
    fix i
    show "bit (Bit_Operations.and w (push_bit s b)) i = bit (0::nat) i"
    proof (cases "i < s")
      case True
      then show ?thesis by (simp add: bit_and_iff bit_push_bit_iff)
    next
      case False
      then have "(2::nat) ^ s \<le> 2 ^ i" by simp
      then have "w < 2 ^ i" using assms by linarith
      then have "\<not> bit w i" by (simp add: bit_iff_odd)
      then show ?thesis by (simp add: bit_and_iff)
    qed
  qed
  then show ?thesis
    by (simp add: disjunctive_add_eq_or [symmetric] push_bit_eq_mult mult.commute)
qed

lemma base_word_eq:
  assumes "gmp_laws G" "0 \<le> n"
  shows "base_word G n k row s = nat n div 2 ^ (k * row) mod 2 ^ s"
proof (induction s)
  case 0
  then show ?case by simp
next
  case (Suc s)
  let ?x = "nat n div 2 ^ (k * row)"
  have t: "mpz_tstbit G n (k * row + s) = ?x div 2 ^ s mod 2"
    using gmp_laws.tstbit_nat [OF assms] by (simp add: power_add div_mult2_eq)
  have "?x mod 2 ^ s < 2 ^ s" by simp
  then have "base_word G n k row (Suc s) = ?x mod 2 ^ s + 2 ^ s * (?x div 2 ^ s mod 2)"
    by (simp add: Suc t or_push_bit)
  also have "\<dots> = ?x mod (2 ^ s * 2)" by (simp add: mod_mult2_eq)
  finally show ?case by (simp add: mult.commute)
qed

lemma length_fill_base_row: "length (fill_base_row F m t l) = length l + t"
  by (induction F m t l rule: fill_base_row.induct) auto

context magma_gmp
begin

lemma fill_base_row_in:
  assumes "m \<in> V" "set l \<subseteq> V" "l \<noteq> []"
  shows "set (fill_base_row F m t l) \<subseteq> V"
  using assms
proof (induction t arbitrary: l)
  case 0
  then show ?case by simp
next
  case (Suc t)
  have "last l \<in> V" using Suc.prems last_in_set by blast
  with Suc show ?case by auto
qed

end

context monoid_gmp
begin

lemma fill_base_row_value:
  assumes "m \<in> V" "set l \<subseteq> V" "l \<noteq> []" "\<And>i. i < length l \<Longrightarrow> \<alpha> (l ! i) = \<alpha> m ^ i"
    and "i < length l + t"
  shows "\<alpha> (fill_base_row F m t l ! i) = \<alpha> m ^ i"
  using assms(2-)
proof (induction t arbitrary: l)
  case 0
  then show ?case by simp
next
  case (Suc t)
  let ?e = "element_mul F (element_init F) m (last l)"
  have last: "last l \<in> V" "last l = l ! (length l - 1)"
    using Suc.prems by (auto simp: last_conv_nth)
  then have "\<alpha> ?e = \<alpha> m * \<alpha> m ^ (length l - 1)"
    using assms(1) Suc.prems by (simp add: impl_law)
  also have "\<dots> = \<alpha> m ^ length l"
    using Suc.prems(2) by (cases "length l") auto
  finally have e: "\<alpha> ?e = \<alpha> m ^ length l" .
  show ?case
    unfolding fill_base_row.simps
    using Suc.prems last e assms(1)
    by (intro Suc.IH) (auto simp: nth_append less_Suc_eq)
qed

text \<open>A table is good for base \<open>c\<close> up to row \<open>t\<close>.\<close>

definition good_table :: "'m \<Rightarrow> nat \<Rightarrow> nat \<Rightarrow> 'a list list \<Rightarrow> bool" where
  "good_table c k t table \<longleftrightarrow> length table = t \<and>
     (\<forall>i<t. length (table ! i) = 2 ^ k \<and> set (table ! i) \<subseteq> V \<and>
        (\<forall>j<2 ^ k. \<alpha> (table ! i ! j) = c ^ (2 ^ (k * i) * j)))"

lemma good_table_snoc:
  assumes "good_table c k t table" "length row = 2 ^ k" "set row \<subseteq> V"
    "\<And>j. j < 2 ^ k \<Longrightarrow> \<alpha> (row ! j) = c ^ (2 ^ (k * t) * j)"
  shows "good_table c k (Suc t) (table @ [row])"
  using assms by (auto simp: good_table_def nth_append less_Suc_eq)

lemma fill_base_table_good:
  assumes "good_table c k t table" "m \<in> V" "\<alpha> m = c ^ (2 ^ (k * t))"
  shows "good_table c k (t + todo) (fill_base_table F (2 ^ k) todo m table)"
  using assms
proof (induction todo arbitrary: t m table)
  case 0
  then show ?case by simp
next
  case (Suc todo)
  let ?one = "element_set1 F (element_init F)"
  let ?row = "fill_base_row F m (2 ^ k - 1) [?one]"
  let ?m = "element_mul F m m (?row ! (2 ^ k - 1))"
  have row_in: "set ?row \<subseteq> V" by (rule magma.fill_base_row_in) (use Suc.prems in auto)
  have row_len: "length ?row = 2 ^ k" by (simp add: length_fill_base_row)
  have row: "\<alpha> (?row ! j) = \<alpha> m ^ j" if "j < 2 ^ k" for j
    by (rule fill_base_row_value) (use Suc.prems that in \<open>auto simp: impl_law\<close>)
  have good: "good_table c k (Suc t) (table @ [?row])"
    by (rule good_table_snoc [OF Suc.prems(1) row_len row_in])
       (simp only: row Suc.prems(3) power_mult)
  have "?row ! (2 ^ k - 1) \<in> set ?row" using row_len by (intro nth_mem) simp
  with row_in have in_row: "?row ! (2 ^ k - 1) \<in> V" by blast
  have suc: "Suc (2 ^ k - 1) = (2::nat) ^ k" by simp
  have "\<alpha> ?m = \<alpha> m * \<alpha> m ^ (2 ^ k - 1)"
    using Suc.prems(2) in_row row [of "2 ^ k - 1"] by (simp add: impl_law)
  also have "\<dots> = \<alpha> m ^ Suc (2 ^ k - 1)" by (simp only: power_Suc)
  also have "\<dots> = \<alpha> m ^ (2 ^ k)" by (simp only: suc)
  also have "\<dots> = c ^ (2 ^ (k * Suc t))"
    by (simp add: Suc.prems(3) power_mult [symmetric] power_add [symmetric] add.commute)
  finally have "\<alpha> ?m = c ^ (2 ^ (k * Suc t))" .
  from Suc.IH [OF good _ this] show ?case
    using Suc.prems(2) in_row by (simp add: Let_def)
qed

lemma build_base_table_good:
  assumes "a \<in> V"
  shows "good_table (\<alpha> a) k (bits div k + 1) (bt_table (element_build_base_table F a bits k))"
proof -
  let ?m = "element_set F (element_init F) a"
  have "good_table (\<alpha> a) k (0 + (bits div k + 1)) (fill_base_table F (2 ^ k) (bits div k + 1) ?m [])"
    by (rule fill_base_table_good) (use assms in \<open>simp_all add: good_table_def impl_law\<close>)
  then show ?thesis by (simp add: element_build_base_table_def Let_def)
qed

lemma base_table_loop_ok:
  assumes n: "0 \<le> n" and good: "good_table c (bt_k bt) t (bt_table bt)"
    and "row + m \<le> t" "r \<in> V" "\<alpha> r = c ^ (nat n mod 2 ^ (bt_k bt * row))"
  shows "\<exists>x. base_table_loop G F n bt [row..<row + m] r = Some x \<and> x \<in> V \<and>
    \<alpha> x = c ^ (nat n mod 2 ^ (bt_k bt * (row + m)))"
  using assms(3-)
proof (induction m arbitrary: row r)
  case 0
  then show ?case by simp
next
  case (Suc m)
  define k where "k = bt_k bt"
  define w where "w = base_word G n k row k"
  have w: "w = nat n div 2 ^ (k * row) mod 2 ^ k"
    unfolding w_def by (rule base_word_eq [OF gmp.gmp_laws_axioms n])
  then have wk: "w < 2 ^ k" by simp
  have split: "nat n mod 2 ^ (k * Suc row) = nat n mod 2 ^ (k * row) + 2 ^ (k * row) * w"
    using mod_mult2_eq [of "nat n" "2 ^ (k * row)" "2 ^ k"]
    by (simp add: w power_add [symmetric] add.commute)
  have row: "row < t" using Suc.prems(1) by simp
  then have rowt: "length (bt_table bt ! row) = 2 ^ k" "set (bt_table bt ! row) \<subseteq> V"
    "\<alpha> (bt_table bt ! row ! w) = c ^ (2 ^ (k * row) * w)" "length (bt_table bt) = t"
    using good wk by (auto simp: good_table_def k_def)
  then have e: "bt_table bt ! row ! w \<in> V" using wk by (metis nth_mem subsetD)
  have upt: "[row..<row + Suc m] = row # [Suc row..<Suc row + m]" by (simp add: upt_conv_Cons)
  let ?r = "if w > 0 then element_mul F r r (bt_table bt ! row ! w) else r"
  have r: "?r \<in> V" using Suc.prems e by simp
  have rv: "\<alpha> ?r = c ^ (nat n mod 2 ^ (bt_k bt * Suc row))"
    using Suc.prems e rowt split by (simp add: impl_law power_add k_def [symmetric])
  have "base_table_loop G F n bt (row # rows) r = base_table_loop G F n bt rows ?r" for rows
    using row rowt wk by (simp add: Let_def nth_opt_def k_def [symmetric] w_def [symmetric])
  then show ?case
    using Suc.IH [OF _ r rv] Suc.prems(1) unfolding upt by simp
qed

lemma element_pow_base_table_ok:
  assumes "0 \<le> n" "x \<in> V" "a \<in> V" "1 \<le> k" "nbits (nat n) \<le> bits"
  shows "\<exists>y. element_pow_base_table G F x n (element_build_base_table F a bits k) = Some y \<and>
    y \<in> V \<and> \<alpha> y = \<alpha> a ^ nat n"
proof (cases "n = 0")
  case True
  then show ?thesis
    using assms by (simp add: element_pow_base_table_def gmp.sgn impl_law)
next
  case False
  let ?bt = "element_build_base_table F a bits k"
  have k: "bt_k ?bt = k" by (simp add: element_build_base_table_def Let_def)
  define m where "m = nbits (nat n) div k + 1"
  have "nbits (nat n) div k \<le> bits div k" using assms(5) by (rule div_le_mono)
  then have "0 + m \<le> bits div k + 1" by (simp add: m_def)
  then obtain y where y: "base_table_loop G F n ?bt [0..<0 + m] (element_set1 F (element_init F)) = Some y"
    "y \<in> V" "\<alpha> y = \<alpha> a ^ (nat n mod 2 ^ (k * m))"
    using base_table_loop_ok [OF assms(1), of "\<alpha> a" ?bt "bits div k + 1" 0 m "element_set1 F (element_init F)"]
      build_base_table_good [OF assms(3), of k bits] k by (auto simp: impl_law)
  have "nbits (nat n) \<le> k * m"
    using assms(4) mult_div_mod_eq [of k "nbits (nat n)"] mod_less_divisor [of k "nbits (nat n)"]
    unfolding m_def distrib_left mult_1_right by linarith
  then have "nat n div 2 ^ (k * m) = 0" by (rule bit_above_nbits)
  then have "nat n mod 2 ^ (k * m) = nat n"
    using mult_div_mod_eq [of "2 ^ (k * m)" "nat n"] by simp
  moreover have "mpz_sizeinbase G n 2 div bt_k ?bt + 1 = m"
    using assms(1) k by (simp add: gmp.sizeinbase m_def)
  ultimately show ?thesis
    using y False assms(2)
    by (auto simp: element_pow_base_table_def Let_def gmp.sgn sgn_0_0 impl_law simp del: upt_Suc)
qed

end

text \<open>The exponentiations with the well-formedness of their results.\<close>

context monoid_gmp
begin

lemma generic_pow_mpz_ok:
  assumes "x \<in> V" "a \<in> V" "0 \<le> n"
  shows "generic_pow_mpz G F x a n \<in> V \<and> \<alpha> (generic_pow_mpz G F x a n) = \<alpha> a ^ nat n"
  using assms magma.generic_pow_mpz_in generic_pow_mpz_value by blast

end


text \<open>The generic routine satisfies the exponentiation law of \<open>field_gmp\<close>.\<close>

lemma field_gmp_generic_pow:
  assumes "field_impl F V \<alpha>" "gmp_laws G" "f_pow_mpz F = None"
  shows "field_gmp F V \<alpha> G"
proof -
  have ring: "ring_impl F V \<alpha>" using assms(1) by (rule field_impl.axioms)
  then have monoid: "monoid_gmp F V \<alpha> G"
    using assms(2) by (intro monoid_gmp.intro ring_impl.axioms)
  then have magma: "magma_gmp F V G"
    using assms(2) by (intro magma_gmp.intro monoid_impl.axioms monoid_gmp.axioms(1))
  show ?thesis
    using assms monoid_gmp.generic_pow_mpz_value [OF monoid] magma_gmp.generic_pow_mpz_in [OF magma]
    by (intro field_gmp.intro field_gmp_axioms.intro) (auto simp: element_pow_mpz_def)
qed

end
