(* ===== verification/Tonelli.thy ===== *)
theory Tonelli
  imports PowCorrect
begin

text \<open>
  \<open>fp_tonelli\<close> of \<^verbatim>\<open>arith/fp.c\<close>, the square root of every implementation of
  \<open>F_p\<close>, over any structure, and its correctness in a finite field. The nonresidue that
  \<open>field_get_nqr\<close> returns is an argument; \<open>field_gen_nqr\<close> and \<open>field_get_nqr\<close> of
  \<^verbatim>\<open>arith/field.c\<close>, which choose it at random, are modelled at the end.
\<close>

section \<open>The algorithm\<close>

text \<open>The loop for \<open>i = 2, \<dots>, s\<close> over the candidate exponent \<open>e\<close>.\<close>

fun tonelli_loop :: "gmp \<Rightarrow> 'a field_s \<Rightarrow> 'a \<Rightarrow> 'a \<Rightarrow> nat list \<Rightarrow> 'a \<Rightarrow> int \<Rightarrow> 'a \<times> int" where
  "tonelli_loop G F ginv a [] e0 e = (e0, e)"
| "tonelli_loop G F ginv a (i # is) e0 e = (
     let t0 = mpz_sub G (f_order F) 1;
         t0 = mpz_tdiv_q_2exp G t0 i;
         e0 = element_pow_mpz G F e0 ginv e;
         e0 = element_mul F e0 e0 a;
         e0 = element_pow_mpz G F e0 e0 t0;
         e = (if element_is1 F e0 = 0 then mpz_setbit G e (i - 1) else e)
     in tonelli_loop G F ginv a is e0 e)"

definition fp_tonelli :: "gmp \<Rightarrow> 'a field_s \<Rightarrow> 'a \<Rightarrow> 'a \<Rightarrow> 'a \<Rightarrow> 'a" where
  "fp_tonelli G F nqr x a = (
     let ginv = element_invert F (element_init F) nqr;
         t = mpz_sub G (f_order F) 1;
         s = mpz_scan1 G t 0;
         t = mpz_tdiv_q_2exp G t s;
         (e0, e) = tonelli_loop G F ginv a [2..<s + 1] (element_init F) 0;
         e0 = element_pow_mpz G F e0 ginv e;
         e0 = element_mul F e0 e0 a;
         t = mpz_add G t 1;
         t = mpz_tdiv_q_2exp G t 1;
         e = mpz_tdiv_q_2exp G e 1;
         e0 = element_pow_mpz G F e0 e0 t;
         x = element_pow_mpz G F x nqr e
     in element_mul F x x e0)"

section \<open>Finite fields\<close>

context field_gmp
begin

text \<open>The nonzero values are closed under multiplication by one of them.\<close>

lemma mult_image_nonzero:
  assumes "finite (\<alpha> ` V)" "x \<in> V" "\<alpha> x \<noteq> 0"
  shows "(\<lambda>y. \<alpha> x * y) ` (\<alpha> ` V - {0}) = \<alpha> ` V - {0}"
    and "inj_on (\<lambda>y. \<alpha> x * y) (\<alpha> ` V - {0})"
proof -
  let ?S = "\<alpha> ` V - {0}"
  have inv: "\<alpha> x * \<alpha> (element_invert F x x) = 1" using assms by (simp add: impl_law)
  show inj: "inj_on (\<lambda>y. \<alpha> x * y) ?S"
  proof (rule inj_onI)
    fix y z
    assume "\<alpha> x * y = \<alpha> x * z"
    then have "\<alpha> (element_invert F x x) * (\<alpha> x * y) = \<alpha> (element_invert F x x) * (\<alpha> x * z)"
      by simp
    then show "y = z" using inv by (metis mult.assoc mult.commute mult.left_neutral)
  qed
  have "(\<lambda>y. \<alpha> x * y) ` ?S \<subseteq> ?S"
  proof (rule image_subsetI)
    fix y
    assume "y \<in> ?S"
    then obtain b where b: "b \<in> V" "\<alpha> b \<noteq> 0" and y: "y = \<alpha> b" by auto
    then have "\<alpha> x * \<alpha> b = \<alpha> (element_mul F x x b)" using assms by (simp add: impl_law)
    moreover have "element_mul F x x b \<in> V" using assms b by simp
    moreover have "\<alpha> x * \<alpha> b \<noteq> 0"
      using no_zero_divisors assms b by blast
    ultimately show "\<alpha> x * y \<in> ?S" using y by auto
  qed
  with inj show "(\<lambda>y. \<alpha> x * y) ` ?S = ?S"
    using assms(1) by (intro endo_inj_surj) auto
qed

lemma prod_units:
  assumes "finite S" "S \<subseteq> \<alpha> ` V - {0}"
  shows "\<exists>y. \<Prod>S * y = 1"
  using assms
proof (induction S rule: finite_induct)
  case empty
  then show ?case by simp
next
  case (insert u S)
  then obtain y where "\<Prod>S * y = 1" by auto
  moreover from insert.prems obtain b where "b \<in> V" "u = \<alpha> b" "\<alpha> b \<noteq> 0" by auto
  then have "u * \<alpha> (element_invert F b b) = 1" by (simp add: impl_law)
  ultimately have "(u * \<Prod>S) * (\<alpha> (element_invert F b b) * y) = 1"
    by (metis mult.assoc mult.commute mult.left_neutral)
  then show ?case using insert.hyps by auto
qed

text \<open>Fermat's theorem: the order of the multiplicative group kills every element.\<close>

lemma fermat:
  assumes "finite (\<alpha> ` V)" "x \<in> V" "\<alpha> x \<noteq> 0"
  shows "\<alpha> x ^ (card (\<alpha> ` V) - 1) = 1"
proof -
  let ?S = "\<alpha> ` V - {0}"
  note im = mult_image_nonzero [OF assms]
  have zero: "0 \<in> \<alpha> ` V" using init by (metis imageI init_in)
  have fin: "finite ?S" using assms(1) by simp
  have "\<Prod>?S = (\<Prod>y\<in>?S. \<alpha> x * y)"
    using prod.reindex [OF im(2), of id] im(1) by simp
  also have "\<dots> = \<alpha> x ^ card ?S * \<Prod>?S" by (simp add: prod.distrib)
  finally have "\<alpha> x ^ card ?S * \<Prod>?S = \<Prod>?S" by simp
  moreover obtain y where "\<Prod>?S * y = 1" using prod_units [OF fin] by blast
  ultimately have "\<alpha> x ^ card ?S = 1"
    by (metis mult.assoc mult.right_neutral)
  then show ?thesis using zero assms(1) by (simp add: card_Diff_singleton)
qed

lemma square_one:
  assumes "x \<in> V" "\<alpha> x * \<alpha> x = 1"
  shows "\<alpha> x = 1 \<or> \<alpha> x = - 1"
proof -
  let ?one = "element_set1 F (element_init F)"
  let ?m = "element_sub F x x ?one" and ?p = "element_add F x x ?one"
  have mp: "?m \<in> V" "?p \<in> V" "\<alpha> ?m = \<alpha> x - 1" "\<alpha> ?p = \<alpha> x + 1"
    using assms by (simp_all add: impl_law)
  have "\<alpha> ?m * \<alpha> ?p = 0" unfolding mp using assms(2) by (simp add: algebra_simps)
  from no_zero_divisors [OF mp(1,2) this] show ?thesis
    unfolding mp by (auto simp: eq_neg_iff_add_eq_0)
qed

end

section \<open>Correctness\<close>

text \<open>
  Numbers around \<open>q - 1 = 2^s * t\<close>.
\<close>

lemma halving:
  fixes m :: nat
  assumes "2 ^ s dvd m" "Suc i \<le> s"
  shows "m div 2 ^ i = 2 * (m div 2 ^ Suc i)" and "2 ^ i * (m div 2 ^ Suc i) = m div 2"
proof -
  from assms obtain c where c: "m = 2 ^ Suc i * c"
    by (metis dvd_def dvd_trans le_imp_power_dvd)
  then show "m div 2 ^ i = 2 * (m div 2 ^ Suc i)" "2 ^ i * (m div 2 ^ Suc i) = m div 2"
    by simp_all
qed

context field_gmp
begin

lemma tonelli_loop_ok:
  fixes m :: nat
  assumes a: "a \<in> V" and gi: "gi \<in> V" "\<alpha> gi ^ (m div 2) = - 1"
    and m: "f_order F = int m + 1" "2 ^ s dvd m"
    and "i + length is = s + 1" "is = [i..<s + 1]" "1 < i" "e0 \<in> V"
    and e: "0 \<le> e" "e < 2 ^ (i - 1)" "even e" "(\<alpha> gi ^ nat e * \<alpha> a) ^ (m div 2 ^ (i - 1)) = 1"
  shows "\<exists>e0' e'. tonelli_loop G F gi a is e0 e = (e0', e') \<and> e0' \<in> V \<and> 0 \<le> e' \<and> even e' \<and>
    (\<alpha> gi ^ nat e' * \<alpha> a) ^ (m div 2 ^ s) = 1"
  using assms(6-)
proof (induction "is" arbitrary: i e0 e)
  case Nil
  then show ?case by simp
next
  case (Cons j js)
  have ij: "j = i" "js = [Suc i..<s + 1]" "i \<le> s" "i + length js = s"
    using Cons.prems(1) Cons.prems(2) [symmetric]
    by (auto simp: upt_eq_Cons_conv simp del: upt_Suc)
  define d where "d = m div 2 ^ i"
  have half: "m div 2 ^ (i - 1) = 2 * d" "2 ^ (i - 1) * d = m div 2"
    using halving [OF m(2), of "i - 1"] ij(3) Cons.prems(3) by (simp_all add: d_def)
  let ?w = "element_mul F (element_pow_mpz G F e0 gi e) (element_pow_mpz G F e0 gi e) a"
  let ?y = "element_pow_mpz G F ?w ?w (int d)"
  have y0: "?w \<in> V" "\<alpha> ?w = \<alpha> gi ^ nat e * \<alpha> a"
    using Cons.prems a gi by (simp_all add: impl_law)
  have y: "?y \<in> V" "\<alpha> ?y = (\<alpha> gi ^ nat e * \<alpha> a) ^ d"
    using y0 by (simp_all add: impl_law)
  have t0: "mpz_tdiv_q_2exp G (mpz_sub G (f_order F) 1) i = int d"
    by (simp add: m(1) gmp.sub gmp.tdiv_q_2exp_nonneg d_def zdiv_int)
  have "\<alpha> ?y * \<alpha> ?y = 1"
    using Cons.prems(8) unfolding half y(2) by (simp add: mult_2 power_add)
  then have one: "\<alpha> ?y = 1 \<or> \<alpha> ?y = - 1" by (rule square_one [OF y(1)])
  define e' where "e' = (if element_is1 F ?y = 0 then mpz_setbit G e (i - 1) else e)"
  have set: "mpz_setbit G e (i - 1) = e + 2 ^ (i - 1)"
    using Cons.prems(5,6) by (simp add: gmp.setbit)
  have pow2: "(2::int) ^ (Suc i - 1) = 2 ^ (i - 1) + 2 ^ (i - 1)"
    using Cons.prems(3) by (cases i) auto
  have e': "0 \<le> e'" "e' < 2 ^ (Suc i - 1)" "even e'"
    using Cons.prems(3,5,6,7) unfolding e'_def set pow2 by (auto intro: less_le_trans)
  have "(\<alpha> gi ^ nat e' * \<alpha> a) ^ d = 1"
  proof (cases "element_is1 F ?y = 0")
    case True
    then have ym: "\<alpha> ?y = - 1" using one is1 [OF y(1)] by blast
    have "nat e' = nat e + 2 ^ (i - 1)"
      using True Cons.prems(5) unfolding e'_def set by (simp add: nat_add_distrib nat_power_eq)
    then have "(\<alpha> gi ^ nat e' * \<alpha> a) ^ d = \<alpha> ?y * (\<alpha> gi ^ 2 ^ (i - 1)) ^ d"
      unfolding y(2) by (simp add: power_add power_mult_distrib ac_simps)
    also have "(\<alpha> gi ^ 2 ^ (i - 1)) ^ d = - 1"
      by (simp only: power_mult [symmetric] half(2) gi(2))
    finally show ?thesis using ym by simp
  next
    case False
    then show ?thesis using is1 [OF y(1)] y(2) by (simp add: e'_def)
  qed
  then have "(\<alpha> gi ^ nat e' * \<alpha> a) ^ (m div 2 ^ (Suc i - 1)) = 1" by (simp add: d_def)
  from Cons.IH [OF _ ij(2) _ y(1) e' this]
  show ?case using ij Cons.prems(3) by (simp add: Let_def t0 e'_def)
qed

text \<open>
  The result of \<open>fp_tonelli\<close> squares to \<open>a\<close> when \<open>a\<close> has Euler symbol 1 and the
  stored nonresidue has Euler symbol -1.
\<close>

lemma fp_tonelli_ok:
  assumes q: "f_order F = int m + 1" "even m" "0 < m"
    and V: "x \<in> V" "a \<in> V" "g \<in> V"
    and euler: "\<alpha> g ^ (m div 2) = - 1" "\<alpha> a ^ (m div 2) = 1"
  shows "fp_tonelli G F g x a \<in> V" and "\<alpha> (fp_tonelli G F g x a) * \<alpha> (fp_tonelli G F g x a) = \<alpha> a"
proof -
  define s where "s = mpz_scan1 G (int m) 0"
  define gi where "gi = element_invert F (element_init F) g"
  have s: "2 ^ s dvd m" "odd (m div 2 ^ s)"
  proof -
    have dvd: "2 ^ s dvd int m \<and> odd (int m div 2 ^ s)"
      unfolding s_def using q(3) by (intro gmp.scan1) simp
    then have "int (2 ^ s) dvd int m" by simp
    then show "2 ^ s dvd m" by (simp only: of_nat_dvd_iff)
    have "int m div 2 ^ s = int (m div 2 ^ s)" by (simp add: zdiv_int)
    with dvd show "odd (m div 2 ^ s)" by simp
  qed
  have s1: "1 \<le> s" using s(2) q(2) by (cases s) auto
  have g0: "\<alpha> g \<noteq> 0"
  proof
    assume "\<alpha> g = 0"
    then have "\<alpha> g ^ (m div 2) = 0" using q by (auto elim: evenE simp: power_0_left)
    with euler(1) have "(1::'k) = 0" by (metis add.inverse_inverse minus_zero)
    then show False by simp
  qed
  have gi: "gi \<in> V" "\<alpha> g * \<alpha> gi = 1" using g0 V by (simp_all add: gi_def impl_law)
  have gim: "\<alpha> gi ^ (m div 2) = - 1"
  proof -
    have "\<alpha> g ^ (m div 2) * \<alpha> gi ^ (m div 2) = 1"
      by (simp add: power_mult_distrib [symmetric] gi(2))
    then have "- (\<alpha> gi ^ (m div 2)) = 1" unfolding euler(1) by simp
    then show ?thesis by (metis minus_minus)
  qed
  have len: "2 + length [2..<s + 1] = s + 1" using s1 by (simp del: upt_Suc)
  have start: "(\<alpha> gi ^ nat 0 * \<alpha> a) ^ (m div 2 ^ (2 - 1)) = 1" using euler(2) by simp
  have "\<exists>e0' e'. tonelli_loop G F gi a [2..<s + 1] (element_init F) 0 = (e0', e') \<and> e0' \<in> V \<and>
    0 \<le> e' \<and> even e' \<and> (\<alpha> gi ^ nat e' * \<alpha> a) ^ (m div 2 ^ s) = 1"
    by (rule tonelli_loop_ok [OF V(2) gi(1) gim q(1) s(1) len refl _ init_in _ _ _ start]) simp_all
  then obtain e0 e where loop: "tonelli_loop G F gi a [2..<s + 1] (element_init F) 0 = (e0, e)"
    and e: "e0 \<in> V" "0 \<le> e" "even e" "(\<alpha> gi ^ nat e * \<alpha> a) ^ (m div 2 ^ s) = 1"
    by blast
  define t where "t = m div 2 ^ s"
  define r where "r = nat e div 2"
  have "even (t + 1)" using s(2) by (simp add: t_def)
  then obtain u where u: "t + 1 = u + u" by (metis dvdE mult_2)
  have t: "mpz_tdiv_q_2exp G (int m) s = int t"
    by (simp add: gmp.tdiv_q_2exp_nonneg t_def zdiv_int)
  have uu: "mpz_tdiv_q_2exp G (mpz_add G (int t) 1) 1 = int u"
  proof -
    have "int t + 1 = 2 * int u" using u by linarith
    then show ?thesis by (simp add: gmp.add gmp.tdiv_q_2exp_nonneg)
  qed
  have "even (nat e)" using e(2,3) by (simp add: even_nat_iff)
  then have "2 * (nat e div 2) = nat e" by (rule even_two_times_div_two)
  then have r2: "nat e = r + r" unfolding r_def by linarith
  then have "e = 2 * int r" using e(2) by linarith
  then have rr: "mpz_tdiv_q_2exp G e 1 = int r" "nat e = r + r"
    using r2 by (simp_all add: gmp.tdiv_q_2exp_nonneg)
  define z where "z = element_mul F (element_pow_mpz G F e0 gi e) (element_pow_mpz G F e0 gi e) a"
  have z: "z \<in> V" "\<alpha> z = \<alpha> gi ^ nat e * \<alpha> a"
    using e gi V by (simp_all add: z_def impl_law)
  define w where "w = element_pow_mpz G F z z (int u)"
  define v where "v = element_pow_mpz G F x g (int r)"
  have wv: "w \<in> V" "v \<in> V" "\<alpha> w = \<alpha> z ^ u" "\<alpha> v = \<alpha> g ^ r"
    using z V by (simp_all add: w_def v_def impl_law)
  have res: "fp_tonelli G F g x a = element_mul F v v w"
    using loop by (simp add: fp_tonelli_def Let_def q(1) gmp.sub s_def [symmetric]
        gi_def [symmetric] t uu rr(1) z_def w_def v_def del: upt_Suc One_nat_def)
  show "fp_tonelli G F g x a \<in> V" unfolding res using wv by simp
  have "\<alpha> w * \<alpha> w = \<alpha> z ^ (t + 1)" unfolding u wv(3) by (simp add: power_add)
  also have "\<dots> = \<alpha> z" using e(4) by (simp add: z(2) t_def)
  finally have ww: "\<alpha> w * \<alpha> w = \<alpha> z" .
  have "\<alpha> (element_mul F v v w) * \<alpha> (element_mul F v v w) = \<alpha> v * \<alpha> v * (\<alpha> w * \<alpha> w)"
    using wv by (simp add: impl_law ac_simps)
  also have "\<alpha> v * \<alpha> v = \<alpha> g ^ nat e" by (simp add: wv(4) rr(2) power_add)
  also have "\<alpha> g ^ nat e * (\<alpha> w * \<alpha> w) = (\<alpha> g * \<alpha> gi) ^ nat e * \<alpha> a"
    by (simp add: ww z(2) power_mult_distrib ac_simps)
  finally show "\<alpha> (fp_tonelli G F g x a) * \<alpha> (fp_tonelli G F g x a) = \<alpha> a"
    unfolding res by (simp add: gi(2))
qed

end

section \<open>Euler's criterion\<close>

text \<open>A product over a set that an involution without fixed points splits into pairs.\<close>

lemma prod_pairs:
  fixes c :: "'k::comm_monoid_mult"
  assumes "finite S" "\<And>y. y \<in> S \<Longrightarrow> f y \<in> S \<and> f y \<noteq> y \<and> f (f y) = y \<and> y * f y = c"
  shows "even (card S) \<and> \<Prod>S = c ^ (card S div 2)"
  using assms
proof (induction "card S" arbitrary: S rule: less_induct)
  case less
  show ?case
  proof (cases "S = {}")
    case True
    then show ?thesis by simp
  next
    case False
    then obtain y where y: "y \<in> S" by blast
    note f = less.prems(2)
    define T where "T = S - {y} - {f y}"
    have fy: "f y \<in> S - {y}" using f y by auto
    have card: "card S = Suc (Suc (card T))"
      unfolding T_def using less.prems(1) y fy
      by (metis card.remove finite_Diff)
    have "f z \<in> T \<and> f z \<noteq> z \<and> f (f z) = z \<and> z * f z = c" if "z \<in> T" for z
    proof -
      have "z \<in> S" "z \<noteq> y" "z \<noteq> f y" using that by (auto simp: T_def)
      with f [of z] f [OF y] have "f z \<noteq> y" "f z \<noteq> f y" by metis+
      with f [of z] \<open>z \<in> S\<close> show ?thesis by (auto simp: T_def)
    qed
    then have IH: "even (card T) \<and> \<Prod>T = c ^ (card T div 2)"
      using less.prems(1) card by (intro less.hyps) (auto simp: T_def)
    have "\<Prod>S = y * (f y * \<Prod>T)"
      unfolding T_def using less.prems(1) y fy by (metis prod.remove finite_Diff)
    also have "\<dots> = c * \<Prod>T" using f [OF y] by (simp add: mult.assoc [symmetric])
    finally show ?thesis using IH card by simp
  qed
qed

context field_gmp
begin

abbreviation nonzero :: "'k set" where
  "nonzero \<equiv> \<alpha> ` V - {0}"

lemma quotient_in:
  assumes "c \<in> V" "\<alpha> c \<noteq> 0" "y \<in> V" "\<alpha> y \<noteq> 0"
  obtains z where "z \<in> V" "\<alpha> z \<noteq> 0" "\<alpha> y * \<alpha> z = \<alpha> c"
proof
  let ?z = "element_mul F y c (element_invert F y y)"
  show "?z \<in> V" using assms by simp
  show eq: "\<alpha> y * \<alpha> ?z = \<alpha> c"
  proof -
    have "\<alpha> ?z = \<alpha> c * \<alpha> (element_invert F y y)" using assms by (simp add: impl_law)
    then have "\<alpha> y * \<alpha> ?z = (\<alpha> y * \<alpha> (element_invert F y y)) * \<alpha> c" by (simp add: ac_simps)
    also have "\<alpha> y * \<alpha> (element_invert F y y) = 1" using assms by (simp add: impl_law)
    finally show ?thesis by simp
  qed
  show "\<alpha> ?z \<noteq> 0" using eq assms(2) by auto
qed

lemma cancel_left:
  assumes "y \<in> V" "\<alpha> y \<noteq> 0" "\<alpha> y * u = \<alpha> y * v"
  shows "u = v"
proof -
  have "\<alpha> y * \<alpha> (element_invert F y y) = 1" using assms by (simp add: impl_law)
  then show ?thesis using assms(3) by (metis mult.assoc mult.commute mult.left_neutral)
qed

text \<open>Pairing \<open>y\<close> with \<open>c / y\<close> on a set of nonzero values.\<close>

lemma prod_quotients:
  assumes "finite (\<alpha> ` V)" "c \<in> V" "\<alpha> c \<noteq> 0" "S \<subseteq> nonzero"
    and S: "\<And>y z. y \<in> S \<Longrightarrow> z \<in> nonzero \<Longrightarrow> y * z = \<alpha> c \<Longrightarrow> z \<in> S \<and> z \<noteq> y"
  shows "even (card S) \<and> \<Prod>S = \<alpha> c ^ (card S div 2)"
proof -
  define f where "f y = (SOME z. z \<in> nonzero \<and> y * z = \<alpha> c)" for y
  have f: "f y \<in> nonzero \<and> y * f y = \<alpha> c" if y: "y \<in> nonzero" for y
  proof -
    from y obtain b where b: "b \<in> V" "y = \<alpha> b" "\<alpha> b \<noteq> 0" by auto
    obtain z where "z \<in> V" "\<alpha> z \<noteq> 0" "\<alpha> b * \<alpha> z = \<alpha> c"
      using quotient_in [OF assms(2,3) b(1,3)] .
    then have "\<exists>z. z \<in> nonzero \<and> y * z = \<alpha> c" using b by auto
    then show ?thesis unfolding f_def by (rule someI_ex)
  qed
  have inv: "f (f y) = y" if y: "y \<in> nonzero" for y
  proof -
    have fy: "f y \<in> nonzero" "y * f y = \<alpha> c" and ffy: "f y * f (f y) = \<alpha> c"
      using f [OF y] f [of "f y"] by auto
    then obtain b where b: "b \<in> V" "f y = \<alpha> b" "\<alpha> b \<noteq> 0" by auto
    then show ?thesis using fy(2) ffy cancel_left [of b "f (f y)" y] by (simp add: mult.commute)
  qed
  have "finite S" using assms(1,4) by (auto intro: finite_subset)
  then show ?thesis
  proof (rule prod_pairs)
    fix y
    assume "y \<in> S"
    then show "f y \<in> S \<and> f y \<noteq> y \<and> f (f y) = y \<and> y * f y = \<alpha> c"
      using f [of y] inv [of y] S [of y "f y"] assms(4) by blast
  qed
qed

lemma wilson:
  assumes fin: "finite (\<alpha> ` V)" and two: "(2::'k) \<noteq> 0"
  shows "\<Prod>nonzero = - 1"
proof -
  let ?one = "element_set1 F (element_init F)"
  let ?mone = "element_neg F ?one ?one"
  have one: "?one \<in> V" "\<alpha> ?one = 1" and mone: "?mone \<in> V" "\<alpha> ?mone = - 1"
    by (simp_all add: impl_law)
  have neq: "(1::'k) \<noteq> - 1"
  proof
    assume "(1::'k) = - 1"
    then have "(1::'k) + 1 = 0" by (metis add.right_inverse)
    with two show False by simp
  qed
  have in1: "1 \<in> nonzero" using one by (metis Diff_iff imageI singletonD zero_neq_one)
  have in2: "- 1 \<in> nonzero - {1}"
    using mone neq by (metis Diff_iff imageI neg_equal_0_iff_equal singletonD zero_neq_one)
  let ?S = "nonzero - {1} - {- 1}"
  have "even (card ?S) \<and> \<Prod>?S = \<alpha> ?one ^ (card ?S div 2)"
  proof (rule prod_quotients [OF fin one(1)])
    fix y z
    assume y: "y \<in> ?S" and z: "z \<in> nonzero" and eq: "y * z = \<alpha> ?one"
    then have eq: "y * z = 1" by (simp add: one)
    have "z \<noteq> 1" "z \<noteq> - 1" using y eq by auto (metis minus_minus)
    moreover have "z \<noteq> y"
    proof
      assume "z = y"
      obtain b where b: "b \<in> V" "y = \<alpha> b" using y by auto
      then have "\<alpha> b = 1 \<or> \<alpha> b = - 1" using square_one [of b] eq \<open>z = y\<close> by simp
      with b y show False by auto
    qed
    ultimately show "z \<in> ?S \<and> z \<noteq> y" using z by auto
  qed (use one in auto)
  then have "\<Prod>?S = 1" by (simp add: one)
  moreover have "\<Prod>nonzero = 1 * (- 1 * \<Prod>?S)"
    using in1 in2 fin by (metis prod.remove finite_Diff)
  ultimately show ?thesis by simp
qed

text \<open>The Euler symbol of an element that is not a square is \<open>- 1\<close>, that of a square is 1.\<close>

lemma euler_nonsquare:
  assumes fin: "finite (\<alpha> ` V)" and two: "(2::'k) \<noteq> 0"
    and g: "g \<in> V" "\<alpha> g \<noteq> 0" "\<And>y. y \<in> V \<Longrightarrow> \<alpha> y * \<alpha> y \<noteq> \<alpha> g"
  shows "\<alpha> g ^ ((card (\<alpha> ` V) - 1) div 2) = - 1"
proof -
  have zero: "0 \<in> \<alpha> ` V" using init by (metis imageI init_in)
  have "even (card nonzero) \<and> \<Prod>nonzero = \<alpha> g ^ (card nonzero div 2)"
    by (rule prod_quotients [OF fin g(1,2)]) (use g(3) in auto)
  then show ?thesis using wilson [OF fin two] zero fin by simp
qed

lemma euler_square:
  assumes fin: "finite (\<alpha> ` V)" and "odd (card (\<alpha> ` V))" "y \<in> V" "\<alpha> y \<noteq> 0" "\<alpha> y * \<alpha> y = u"
  shows "u ^ ((card (\<alpha> ` V) - 1) div 2) = 1"
proof -
  have "u ^ ((card (\<alpha> ` V) - 1) div 2) = \<alpha> y ^ (2 * ((card (\<alpha> ` V) - 1) div 2))"
    by (simp add: assms(5) [symmetric] power_mult power2_eq_square)
  also have "2 * ((card (\<alpha> ` V) - 1) div 2) = card (\<alpha> ` V) - 1"
    using assms(2) by (intro even_two_times_div_two) simp
  finally show ?thesis using fermat [OF fin assms(3,4)] by simp
qed

lemma tonelli_loop_in:
  assumes "a \<in> V" "gi \<in> V" "1 < f_order F" "e0 \<in> V" "0 \<le> e"
  shows "\<exists>e0' e'. tonelli_loop G F gi a is e0 e = (e0', e') \<and> e0' \<in> V \<and> 0 \<le> e'"
  using assms(4,5)
proof (induction "is" arbitrary: e0 e)
  case Nil
  then show ?case by simp
next
  case (Cons i js)
  define t0 where "t0 = mpz_tdiv_q_2exp G (mpz_sub G (f_order F) 1) i"
  define y where "y = element_pow_mpz G F (element_mul F (element_pow_mpz G F e0 gi e)
    (element_pow_mpz G F e0 gi e) a) (element_mul F (element_pow_mpz G F e0 gi e)
    (element_pow_mpz G F e0 gi e) a) t0"
  have "0 \<le> t0" using assms(3) by (simp add: t0_def gmp.sub gmp.tdiv_q_2exp_nonneg pos_imp_zdiv_nonneg_iff)
  then have y: "y \<in> V" using Cons.prems assms by (simp add: y_def)
  have "0 \<le> (if element_is1 F y = 0 then mpz_setbit G e (i - 1) else e)"
    using Cons.prems by (simp add: gmp.setbit)
  from Cons.IH [OF y this] show ?case
    by (simp add: Let_def y_def t0_def)
qed

text \<open>The square root of zero is zero.\<close>

lemma fp_tonelli_zero:
  assumes q: "1 < f_order F" and V: "x \<in> V" "a \<in> V" "g \<in> V" "\<alpha> g \<noteq> 0" and a0: "\<alpha> a = 0"
  shows "fp_tonelli G F g x a \<in> V" and "\<alpha> (fp_tonelli G F g x a) = 0"
proof -
  define gi where "gi = element_invert F (element_init F) g"
  have gi: "gi \<in> V" using V by (simp add: gi_def)
  define s where "s = mpz_scan1 G (mpz_sub G (f_order F) 1) 0"
  obtain e0 e where loop: "tonelli_loop G F gi a [2..<s + 1] (element_init F) 0 = (e0, e)"
    and e: "e0 \<in> V" "0 \<le> e"
    using tonelli_loop_in [OF V(2) gi q init_in order_refl, of "[2..<s + 1]"] by blast
  define t where "t = mpz_tdiv_q_2exp G (mpz_sub G (f_order F) 1) s"
  define u where "u = mpz_tdiv_q_2exp G (mpz_add G t 1) 1"
  define z where "z = element_mul F (element_pow_mpz G F e0 gi e) (element_pow_mpz G F e0 gi e) a"
  define w where "w = element_pow_mpz G F z z u"
  define v where "v = element_pow_mpz G F x g (mpz_tdiv_q_2exp G e 1)"
  have "0 < f_order F - 1" using q by simp
  from gmp.scan1 [OF this] have d: "2 ^ s dvd f_order F - 1" by (simp add: s_def gmp.sub)
  have t: "t = (f_order F - 1) div 2 ^ s"
    using q by (simp add: t_def gmp.sub gmp.tdiv_q_2exp_nonneg)
  then have "t * 2 ^ s = f_order F - 1" using d by simp
  then have "0 < t" using q by (metis diff_gt_0_iff_gt mult_pos_pos not_less_iff_gr_or_eq
        zero_less_mult_pos2 zero_less_numeral zero_less_power)
  then have u: "0 < u" by (simp add: u_def gmp.add gmp.tdiv_q_2exp_nonneg)
  have z: "z \<in> V" "\<alpha> z = 0" using e gi V a0 by (simp_all add: z_def impl_law)
  have w: "w \<in> V" "\<alpha> w = 0" using z u by (simp_all add: w_def impl_law power_0_left)
  have v: "v \<in> V" using V e by (simp add: v_def gmp.tdiv_q_2exp_nonneg)
  have res: "fp_tonelli G F g x a = element_mul F v v w"
    using loop by (simp add: fp_tonelli_def Let_def s_def gi_def t_def u_def w_def v_def z_def
        del: upt_Suc One_nat_def)
  show "fp_tonelli G F g x a \<in> V" "\<alpha> (fp_tonelli G F g x a) = 0"
    unfolding res using v w by (simp_all add: impl_law)
qed

text \<open>
  In a finite field of odd order with a nonresidue, the result squares to the argument
  whenever the argument is a square.
\<close>

lemma fp_tonelli_sqrt:
  assumes q: "f_order F = int (card (\<alpha> ` V))" "odd (card (\<alpha> ` V))" "finite (\<alpha> ` V)"
    and two: "(2::'k) \<noteq> 0"
    and V: "x \<in> V" "a \<in> V" "g \<in> V"
    and g: "\<And>y. y \<in> V \<Longrightarrow> \<alpha> y * \<alpha> y \<noteq> \<alpha> g"
    and a: "\<exists>y\<in>V. \<alpha> y * \<alpha> y = \<alpha> a"
  shows "fp_tonelli G F g x a \<in> V" and "\<alpha> (fp_tonelli G F g x a) * \<alpha> (fp_tonelli G F g x a) = \<alpha> a"
proof -
  define m where "m = card (\<alpha> ` V) - 1"
  have g0: "\<alpha> g \<noteq> 0" using g [of "element_init F"] by (auto simp: init)
  have "0 \<in> \<alpha> ` V" using init by (metis imageI init_in)
  moreover have "\<alpha> g \<in> \<alpha> ` V" using V by simp
  ultimately have "{0, \<alpha> g} \<subseteq> \<alpha> ` V" by simp
  with card_mono [OF q(3) this] g0 have "2 \<le> card (\<alpha> ` V)" by (simp add: card_insert_if)
  then have m: "f_order F = int m + 1" "even m" "0 < m" "1 < f_order F"
    using q(1,2) by (auto simp: m_def)
  have ok: "fp_tonelli G F g x a \<in> V \<and>
    \<alpha> (fp_tonelli G F g x a) * \<alpha> (fp_tonelli G F g x a) = \<alpha> a"
  proof (cases "\<alpha> a = 0")
    case True
    then show ?thesis using fp_tonelli_zero [OF m(4) V g0] by simp
  next
    case False
    obtain y where y: "y \<in> V" "\<alpha> y * \<alpha> y = \<alpha> a" using a by blast
    with False have "\<alpha> y \<noteq> 0" by auto
    then have "\<alpha> a ^ (m div 2) = 1"
      using euler_square [OF q(3,2) y(1) _ y(2)] by (simp add: m_def)
    moreover have "\<alpha> g ^ (m div 2) = - 1"
      using euler_nonsquare [OF q(3) two V(3) g0 g] by (simp add: m_def)
    ultimately show ?thesis using fp_tonelli_ok [OF m(1,2,3) V] by blast
  qed
  then show "fp_tonelli G F g x a \<in> V" "\<alpha> (fp_tonelli G F g x a) * \<alpha> (fp_tonelli G F g x a) = \<alpha> a"
    by blast+
qed

end

section \<open>Choosing the nonresidue\<close>

definition field_set_nqr :: "'a field_s \<Rightarrow> 'a \<Rightarrow> 'a field_s" where
  "field_set_nqr F nqr = (
     let old = (case f_nqr F of None \<Rightarrow> element_init F | Some e \<Rightarrow> e)
     in F\<lparr>f_nqr := Some (element_set F old nqr)\<rparr>)"

partial_function (option) gen_nqr_loop ::
  "'a field_s \<Rightarrow> entropy \<Rightarrow> nat \<Rightarrow> 'a \<Rightarrow> ('a \<times> nat) option" where
  "gen_nqr_loop F R i e = (
     case element_random F R i e of (e', i') \<Rightarrow>
       if element_is_sqr F e' \<noteq> 0 then gen_nqr_loop F R i' e' else Some (e', i'))"

definition field_gen_nqr :: "'a field_s \<Rightarrow> entropy \<Rightarrow> nat \<Rightarrow> ('a field_s \<times> nat) option" where
  "field_gen_nqr F R i = (
     case gen_nqr_loop F R i (element_init F) of
       None \<Rightarrow> None
     | Some (e, i') \<Rightarrow> Some (F\<lparr>f_nqr := Some e\<rparr>, i'))"

definition field_get_nqr :: "'a field_s \<Rightarrow> entropy \<Rightarrow> nat \<Rightarrow> ('a \<times> 'a field_s \<times> nat) option" where
  "field_get_nqr F R i = (
     case f_nqr F of
       Some e \<Rightarrow> Some (e, F, i)
     | None \<Rightarrow>
         (case field_gen_nqr F R i of
            None \<Rightarrow> None
          | Some (F', i') \<Rightarrow> map_option (\<lambda>e. (e, F', i')) (f_nqr F')))"

text \<open>If the search returns, it returns an element that is not a square.\<close>

lemma gen_nqr_loop_sound:
  assumes "gen_nqr_loop F R i e = Some (e', i')"
  shows "element_is_sqr F e' = 0"
proof -
  have "element_is_sqr F (fst (e', i')) = 0"
  proof (rule gen_nqr_loop.raw_induct [where P = "\<lambda>F R i e r. element_is_sqr F (fst r) = 0",
        OF _ assms])
    fix f :: "'a field_s \<Rightarrow> entropy \<Rightarrow> nat \<Rightarrow> 'a \<Rightarrow> ('a \<times> nat) option" and F R i e r
    assume IH: "\<And>F R i e r. f F R i e = Some r \<Longrightarrow> element_is_sqr F (fst r) = 0"
      and eq: "(case element_random F R i e of (e', i') \<Rightarrow>
         if element_is_sqr F e' \<noteq> 0 then f F R i' e' else Some (e', i')) = Some r"
    obtain e' i' where ei: "element_random F R i e = (e', i')"
      by (cases "element_random F R i e") blast
    show "element_is_sqr F (fst r) = 0"
    proof (cases "element_is_sqr F e' = 0")
      case True
      with eq ei show ?thesis by auto
    next
      case False
      with eq ei show ?thesis by (simp add: IH)
    qed
  qed
  then show ?thesis by simp
qed

end
