(* ===== verification/MpzBytes.thy ===== *)
theory MpzBytes
  imports Contracts
begin

text \<open>
  Reading and writing integers: \<open>pbc_mpz_out_raw_n\<close> and \<open>pbc_mpz_from_hash\<close> of
  \<^verbatim>\<open>arith/field.c\<close> and \<open>pbc_mpz_set_str\<close> of \<^verbatim>\<open>arith/fp.c\<close>. A write outside the
  caller's buffer, and one outside the fixed buffer of \<open>2 * MAX_LIMBS\<close> bytes in
  \<open>pbc_mpz_from_hash\<close>, is \<open>None\<close>.
\<close>

definition max_limbs :: nat where
  "max_limbs = 1024"

text \<open>The \<open>n\<close> bytes written to \<open>data\<close>.\<close>

definition pbc_mpz_out_raw_n :: "gmp \<Rightarrow> nat \<Rightarrow> int \<Rightarrow> byte list option" where
  "pbc_mpz_out_raw_n G n z = (
     if mpz_sgn G z \<noteq> 0 then
       let count = (mpz_sizeinbase G z 2 + 7) div 8 in
       if count \<le> n then Some (replicate (n - count) 0 @ mpz_export G z) else None
     else Some (replicate n 0))"

text \<open>The bytes \<open>H 0 H 1 H \<dots>\<close>, cut to \<open>count\<close> bytes; the counter is one byte.\<close>

function hash_fill :: "nat \<Rightarrow> byte list \<Rightarrow> nat \<Rightarrow> byte \<Rightarrow> byte list \<Rightarrow> byte list" where
  "hash_fill count data i counter buf = (
     if length data \<ge> count - i then buf @ take (count - i) data
     else
       let buf = buf @ data @ [counter];
           i = i + length data + 1
       in if i = count then buf else hash_fill count data i (counter + 1) buf)"
  by pat_completeness auto
termination
  by (relation "measure (\<lambda>(count, data, i, counter, buf). count - i)") auto

declare hash_fill.simps [simp del]

partial_function (option) hash_shrink :: "gmp \<Rightarrow> int \<Rightarrow> int \<Rightarrow> int option" where
  "hash_shrink G limit z = (
     if mpz_cmp G z limit > 0 then hash_shrink G limit (mpz_tdiv_q_2exp G z 1) else Some z)"

definition pbc_mpz_from_hash :: "gmp \<Rightarrow> int \<Rightarrow> byte list \<Rightarrow> int option" where
  "pbc_mpz_from_hash G limit data = (
     let count = (mpz_sizeinbase G limit 2 + 7) div 8 in
     if count > 2 * max_limbs then None
     else
       let buf = hash_fill count data 0 0 [];
           z = mpz_import G buf
       in hash_shrink G limit z)"

text \<open>Character classes of the C locale.\<close>

definition c_isspace :: "char \<Rightarrow> bool" where
  "c_isspace c = (let k = (of_char c :: nat) in k = 32 \<or> 9 \<le> k \<and> k \<le> 13)"

definition c_isdigit :: "char \<Rightarrow> bool" where
  "c_isdigit c = (let k = (of_char c :: nat) in 48 \<le> k \<and> k \<le> 57)"

definition skip_space :: "string \<Rightarrow> string" where
  "skip_space s = dropWhile c_isspace s"

definition str_digit :: "char \<Rightarrow> nat option" where
  "str_digit c = (let k = (of_char c :: nat) in
     if c_isdigit c then Some (k - 48)
     else if 65 \<le> k \<and> k \<le> 90 then Some (k - 65)
     else if 97 \<le> k \<and> k \<le> 122 then Some (k - 97)
     else None)"

fun set_str_loop :: "gmp \<Rightarrow> nat \<Rightarrow> string \<Rightarrow> nat \<Rightarrow> int \<Rightarrow> int \<times> nat" where
  "set_str_loop G b [] i z = (z, i)"
| "set_str_loop G b (c # s) i z = (
     if c_isspace c then set_str_loop G b s (i + 1) z
     else case str_digit c of
       None \<Rightarrow> (z, i)
     | Some j \<Rightarrow>
         if j \<ge> b then (z, i)
         else set_str_loop G b s (i + 1) (mpz_add G (mpz_mul G z (int b)) (int j)))"

text \<open>The number read and the count of characters consumed.\<close>

definition pbc_mpz_set_str :: "gmp \<Rightarrow> string \<Rightarrow> int \<Rightarrow> int \<times> nat" where
  "pbc_mpz_set_str G s base = (
     if base = 0 then set_str_loop G 10 s 0 0
     else if base < 2 then (0, 0)
     else if base > 36 then (0, 0)
     else set_str_loop G (nat base) s 0 0)"

section \<open>Writing\<close>

lemma out_raw_n_ok:
  assumes "gmp_laws G" "0 \<le> z" "nbits (nat z) \<le> 8 * n" "0 < n"
  shows "\<exists>bs. pbc_mpz_out_raw_n G n z = Some bs \<and> length bs = n \<and> bytes_val bs = nat z"
proof (cases "z = 0")
  case True
  then show ?thesis
    using assms(1) bytes_val_replicate_0 [of n "[]"]
    by (simp add: pbc_mpz_out_raw_n_def gmp_laws.sgn)
next
  case False
  define count where "count = (nbits (nat z) + 7) div 8"
  have "count \<le> n" using assms(3) by (simp add: count_def)
  moreover have "length (mpz_export G z) = count" "bytes_val (mpz_export G z) = nat z"
    using False assms gmp_laws.export_bytes_val [OF assms(1), of z]
    by (simp_all add: gmp_laws.export count_def)
  ultimately show ?thesis
    using False assms
    by (simp add: pbc_mpz_out_raw_n_def Let_def gmp_laws.sgn gmp_laws.sizeinbase sgn_0_0
        count_def [symmetric] bytes_val_replicate_0)
qed

text \<open>A number too long for the buffer makes the code write in front of it.\<close>

lemma out_raw_n_overflow:
  assumes "gmp_laws G" "0 < z" "8 * n < nbits (nat z)"
  shows "pbc_mpz_out_raw_n G n z = None"
  using assms by (auto simp: pbc_mpz_out_raw_n_def Let_def gmp_laws.sgn gmp_laws.sizeinbase)

section \<open>Hashing to a number\<close>

lemma length_hash_fill:
  assumes "length buf = i" "i \<le> count"
  shows "length (hash_fill count data i counter buf) = count"
  using assms
proof (induction count data i counter buf rule: hash_fill.induct)
  case (1 count data i counter buf)
  show ?case
  proof (cases "length data \<ge> count - i \<or> i + length data + 1 = count")
    case True
    with 1 show ?thesis by (auto simp: hash_fill.simps [of count data i] Let_def)
  next
    case False
    then have "Suc (i + length data) \<le> count" by linarith
    with False 1 show ?thesis by (simp add: hash_fill.simps [of count data i] Let_def)
  qed
qed

text \<open>A hash of full length or more is used as it is.\<close>

lemma hash_fill_long: "count \<le> length data \<Longrightarrow> hash_fill count data 0 c [] = take count data"
  by (simp add: hash_fill.simps)

lemma hash_shrink_ok:
  assumes "gmp_laws G" "0 \<le> limit" "0 \<le> z"
  shows "\<exists>k. hash_shrink G limit z = Some (z div 2 ^ k) \<and> z div 2 ^ k \<le> limit"
  using assms(3)
proof (induction "nat z" arbitrary: z rule: less_induct)
  case less
  show ?case
  proof (cases "z \<le> limit")
    case True
    then have "hash_shrink G limit z = Some z"
      using gmp_laws.cmp_gt [OF assms(1)] by (subst hash_shrink.simps) (simp add: not_less)
    then show ?thesis using True by (intro exI [of _ 0]) simp
  next
    case False
    then have pos: "0 < z" using assms(2) by simp
    have rec: "hash_shrink G limit z = hash_shrink G limit (z div 2)"
      using False less.prems gmp_laws.cmp_gt [OF assms(1)]
      by (subst hash_shrink.simps) (simp add: gmp_laws.tdiv_q_2exp_nonneg [OF assms(1)])
    have "nat (z div 2) < nat z" "0 \<le> z div 2" using pos by auto
    from less.hyps [OF this] obtain k where
      "hash_shrink G limit (z div 2) = Some (z div 2 div 2 ^ k)" "z div 2 div 2 ^ k \<le> limit"
      by blast
    then show ?thesis
      using rec by (intro exI [of _ "Suc k"]) (simp add: zdiv_zmult2_eq)
  qed
qed

lemma from_hash_ok:
  assumes "gmp_laws G" "0 \<le> limit" "nbits (nat limit) \<le> 16384"
  shows "\<exists>z. pbc_mpz_from_hash G limit data = Some z \<and> 0 \<le> z \<and> z \<le> limit"
proof -
  have "(nbits (nat limit) + 7) div 8 \<le> 2 * max_limbs"
    using assms(3) by (simp add: max_limbs_def)
  moreover obtain k where
    "hash_shrink G limit (mpz_import G (hash_fill ((nbits (nat limit) + 7) div 8) data 0 0 [])) =
       Some (mpz_import G (hash_fill ((nbits (nat limit) + 7) div 8) data 0 0 []) div 2 ^ k)"
    "mpz_import G (hash_fill ((nbits (nat limit) + 7) div 8) data 0 0 []) div 2 ^ k \<le> limit"
    using hash_shrink_ok [OF assms(1,2)] by (metis gmp_laws.import [OF assms(1)] of_nat_0_le_iff)
  ultimately show ?thesis
    using assms
    by (auto simp: pbc_mpz_from_hash_def Let_def gmp_laws.sizeinbase gmp_laws.import
        pos_imp_zdiv_nonneg_iff)
qed

section \<open>Parsing\<close>

text \<open>The characters that end a number: neither white space nor a digit.\<close>

definition ends_number :: "nat \<Rightarrow> string \<Rightarrow> bool" where
  "ends_number b s \<longleftrightarrow> (case s of [] \<Rightarrow> True
     | c # _ \<Rightarrow> \<not> c_isspace c \<and> (case str_digit c of None \<Rightarrow> True | Some j \<Rightarrow> b \<le> j))"

lemma set_str_loop_end: "ends_number b s \<Longrightarrow> set_str_loop G b s i z = (z, i)"
  by (cases s) (auto simp: ends_number_def split: option.splits)

lemma set_str_loop_digits:
  assumes "gmp_laws G" "\<forall>c\<in>set s. \<not> c_isspace c \<and> (\<exists>j<b. str_digit c = Some j)"
    and "ends_number b rest"
  shows "set_str_loop G b (s @ rest) i z =
    (foldl (\<lambda>v c. v * int b + int (the (str_digit c))) z s, i + length s)"
  using assms(2)
proof (induction s arbitrary: i z)
  case Nil
  then show ?case using assms(3) by (simp add: set_str_loop_end)
next
  case (Cons c s)
  then obtain j where "j < b" "str_digit c = Some j" by auto
  with Cons show ?case
    by (simp add: gmp_laws.add [OF assms(1)] gmp_laws.mul [OF assms(1)])
qed

text \<open>The digits \<open>0..9\<close> are read back as written.\<close>

lemma digit_char_decimal:
  assumes "d < 10"
  shows "\<not> c_isspace (digit_char d)" and "str_digit (digit_char d) = Some d"
proof -
  have "of_char (digit_char d) = 48 + d"
    using assms by (simp add: digit_char_def of_char_of)
  then show "\<not> c_isspace (digit_char d)" "str_digit (digit_char d) = Some d"
    using assms by (simp_all add: c_isspace_def str_digit_def c_isdigit_def Let_def)
qed

lemma digits_in_lt: "2 \<le> b \<Longrightarrow> d \<in> set (digits_in b n) \<Longrightarrow> d < b"
proof (induction b n rule: digits_in.induct)
  case (1 b n)
  then show ?case
    by (cases "n < b") (auto simp: digits_in.simps [of b n])
qed

lemma foldl_digits_in:
  assumes "2 \<le> b"
  shows "foldl (\<lambda>v d. v * int b + int d) z (rev (digits_in b n)) =
    z * int b ^ length (digits_in b n) + int n"
  using assms
proof (induction b n arbitrary: z rule: digits_in.induct)
  case (1 b n)
  show ?case
  proof (cases "n < b")
    case True
    then show ?thesis by (simp add: digits_in.simps [of b n])
  next
    case False
    have "int n = int (n div b) * int b + int (n mod b)"
      by (metis div_mult_mod_eq of_nat_add of_nat_mult)
    with False 1 show ?thesis
      by (simp add: digits_in.simps [of b n] algebra_simps)
  qed
qed

lemma set_str_nat_str_10:
  assumes "gmp_laws G" "ends_number 10 rest"
  shows "set_str_loop G 10 (nat_str 10 n @ rest) i 0 = (int n, i + length (nat_str 10 n))"
proof -
  have d: "d < 10" if "d \<in> set (digits_in 10 n)" for d
    using digits_in_lt [of 10 d n] that by simp
  have "set_str_loop G 10 (nat_str 10 n @ rest) i 0 =
      (foldl (\<lambda>v c. v * int 10 + int (the (str_digit c))) 0 (nat_str 10 n), i + length (nat_str 10 n))"
    by (rule set_str_loop_digits [OF assms(1) _ assms(2)])
       (auto simp: nat_str_def digit_char_decimal d)
  also have "foldl (\<lambda>v c. v * int 10 + int (the (str_digit c))) 0 (nat_str 10 n) =
      foldl (\<lambda>v d. v * int 10 + int d) 0 (rev (digits_in 10 n))"
    unfolding nat_str_def foldl_map
    by (rule foldl_cong) (auto simp: digit_char_decimal d)
  also have "\<dots> = int n" by (subst foldl_digits_in) simp_all
  finally show ?thesis by simp
qed

end
