(* ===== verification/NaiveFp.thy ===== *)
theory NaiveFp
  imports Tonelli MpzBytes "HOL-Library.Numeral_Type"
begin

text \<open>
  The implementation of \<open>Z / p\<close> by GMP integers, \<^verbatim>\<open>arith/naivefp.c\<close>, the default of
  \<open>field_init_fp\<close>. An element is the integer its \<open>data\<close> points to; \<open>p\<close> is the order of
  the field, which \<open>field_init_naive_fp\<close> sets. The operations that write the whole
  destination do not take its old value; the table built by \<open>field_init_naive_fp\<close> drops it.
\<close>

section \<open>The operations\<close>

definition zp_init :: int where
  "zp_init = 0"

definition zp_set_si :: "gmp \<Rightarrow> int \<Rightarrow> int \<Rightarrow> int" where
  "zp_set_si G p op = (let d = op in mpz_mod G d p)"

definition zp_set_mpz :: "gmp \<Rightarrow> int \<Rightarrow> int \<Rightarrow> int" where
  "zp_set_mpz G p z = (let d = z in mpz_mod G d p)"

definition zp_set0 :: int where
  "zp_set0 = 0"

definition zp_set1 :: int where
  "zp_set1 = 1"

definition zp_out_str :: "gmp \<Rightarrow> nat \<Rightarrow> int \<Rightarrow> string" where
  "zp_out_str G base e = mpz_get_str G base e"

definition zp_snprint :: "gmp \<Rightarrow> nat \<Rightarrow> int \<Rightarrow> string \<times> int" where
  "zp_snprint G n e = c_snprintf n (mpz_get_str G 10 e)"

definition zp_set_str :: "gmp \<Rightarrow> int \<Rightarrow> string \<Rightarrow> int \<Rightarrow> int \<times> nat" where
  "zp_set_str G p s base = (
     let (z, result) = pbc_mpz_set_str G s base
     in (mpz_mod G z p, result))"

definition zp_sgn_odd :: "gmp \<Rightarrow> int \<Rightarrow> int" where
  "zp_sgn_odd G z = (if mpz_is0 G z then 0 else if mpz_odd_p G z then 1 else - 1)"

definition zp_sgn_even :: "gmp \<Rightarrow> int \<Rightarrow> int \<Rightarrow> int" where
  "zp_sgn_even G p a = (
     if mpz_is0 G a then 0
     else
       let z = mpz_add G a a
       in mpz_cmp G z p)"

definition zp_add :: "gmp \<Rightarrow> int \<Rightarrow> int \<Rightarrow> int \<Rightarrow> int" where
  "zp_add G p a b = (
     let n = mpz_add G a b
     in if mpz_cmp G n p \<ge> 0 then mpz_sub G n p else n)"

definition zp_sub :: "gmp \<Rightarrow> int \<Rightarrow> int \<Rightarrow> int \<Rightarrow> int" where
  "zp_sub G p a b = (
     let n = mpz_sub G a b
     in if mpz_sgn G n < 0 then mpz_add G n p else n)"

definition zp_square :: "gmp \<Rightarrow> int \<Rightarrow> int \<Rightarrow> int" where
  "zp_square G p a = mpz_powm G a 2 p"

definition zp_double :: "gmp \<Rightarrow> int \<Rightarrow> int \<Rightarrow> int" where
  "zp_double G p a = (
     let n = mpz_mul_2exp G a 1
     in if mpz_cmp G n p \<ge> 0 then mpz_sub G n p else n)"

definition zp_halve :: "gmp \<Rightarrow> int \<Rightarrow> int \<Rightarrow> int" where
  "zp_halve G p a = (
     if mpz_odd_p G a then
       let n = mpz_add G a p
       in mpz_tdiv_q_2exp G n 1
     else mpz_tdiv_q_2exp G a 1)"

definition zp_mul :: "gmp \<Rightarrow> int \<Rightarrow> int \<Rightarrow> int \<Rightarrow> int" where
  "zp_mul G p a b = (let n = mpz_mul G a b in mpz_mod G n p)"

definition zp_mul_mpz :: "gmp \<Rightarrow> int \<Rightarrow> int \<Rightarrow> int \<Rightarrow> int" where
  "zp_mul_mpz G p a z = (let n = mpz_mul G a z in mpz_mod G n p)"

definition zp_mul_si :: "gmp \<Rightarrow> int \<Rightarrow> int \<Rightarrow> int \<Rightarrow> int" where
  "zp_mul_si G p a z = (let n = mpz_mul G a z in mpz_mod G n p)"

definition zp_pow_mpz :: "gmp \<Rightarrow> int \<Rightarrow> int \<Rightarrow> int \<Rightarrow> int" where
  "zp_pow_mpz G p a z = mpz_powm G a z p"

definition zp_set :: "int \<Rightarrow> int" where
  "zp_set a = a"

definition zp_neg :: "gmp \<Rightarrow> int \<Rightarrow> int \<Rightarrow> int" where
  "zp_neg G p a = (if mpz_is0 G a then 0 else mpz_sub G p a)"

definition zp_invert :: "gmp \<Rightarrow> int \<Rightarrow> int \<Rightarrow> int" where
  "zp_invert G p a = mpz_invert G a p"

text \<open>\<open>pbc_mpz_random\<close> is the next draw of the source.\<close>

definition zp_random :: "int \<Rightarrow> entropy \<Rightarrow> nat \<Rightarrow> int \<times> nat" where
  "zp_random p R i = (R i p, i + 1)"

definition zp_from_hash :: "gmp \<Rightarrow> int \<Rightarrow> byte list \<Rightarrow> int option" where
  "zp_from_hash G p data = pbc_mpz_from_hash G p data"

definition zp_is1 :: "gmp \<Rightarrow> int \<Rightarrow> int" where
  "zp_is1 G n = (if mpz_cmp G n 1 = 0 then 1 else 0)"

definition zp_is0 :: "gmp \<Rightarrow> int \<Rightarrow> int" where
  "zp_is0 G n = (if mpz_is0 G n then 1 else 0)"

definition zp_cmp :: "gmp \<Rightarrow> int \<Rightarrow> int \<Rightarrow> int" where
  "zp_cmp G a b = mpz_cmp G a b"

definition zp_is_sqr :: "gmp \<Rightarrow> int \<Rightarrow> int \<Rightarrow> int" where
  "zp_is_sqr G p a = (
     if mpz_is0 G a then 1
     else if mpz_legendre G a p = 1 then 1 else 0)"

definition zp_to_bytes :: "gmp \<Rightarrow> nat \<Rightarrow> int \<Rightarrow> byte list" where
  "zp_to_bytes G n e = (case pbc_mpz_out_raw_n G n e of Some bs \<Rightarrow> bs | None \<Rightarrow> undefined)"

definition zp_from_bytes :: "gmp \<Rightarrow> nat \<Rightarrow> byte list \<Rightarrow> int \<times> nat" where
  "zp_from_bytes G n data = (mpz_import G (take n data), n)"

definition zp_to_mpz :: "int \<Rightarrow> int" where
  "zp_to_mpz a = a"

definition zp_length :: "gmp \<Rightarrow> int \<Rightarrow> nat" where
  "zp_length G p = (mpz_sizeinbase G p 2 + 7) div 8"

text \<open>The table before its square root, which needs the table itself.\<close>

definition naive_fp_base :: "gmp \<Rightarrow> int \<Rightarrow> int field_s" where
  "naive_fp_base G p = field_init\<lparr>
     f_init := zp_init,
     f_set_si := Some (\<lambda>e. zp_set_si G p),
     f_set_mpz := Some (\<lambda>e. zp_set_mpz G p),
     f_sign := (if mpz_odd_p G p then zp_sgn_odd G else zp_sgn_even G p),
     f_add := (\<lambda>n. zp_add G p),
     f_sub := Some (\<lambda>n. zp_sub G p),
     f_set := (\<lambda>n. zp_set),
     f_square := Some (\<lambda>n. zp_square G p),
     f_doub := Some (\<lambda>n. zp_double G p),
     f_halve := Some (\<lambda>n. zp_halve G p),
     f_mul := (\<lambda>n. zp_mul G p),
     f_mul_mpz := Some (\<lambda>n. zp_mul_mpz G p),
     f_mul_si := Some (\<lambda>n. zp_mul_si G p),
     f_pow_mpz := Some (\<lambda>n. zp_pow_mpz G p),
     f_neg := (\<lambda>n. zp_neg G p),
     f_cmp := Some (zp_cmp G),
     f_invert := (\<lambda>n. zp_invert G p),
     f_random := Some (\<lambda>R i e. zp_random p R i),
     f_from_hash := (\<lambda>n. zp_from_hash G p),
     f_is1 := Some (zp_is1 G),
     f_is0 := Some (zp_is0 G),
     f_set0 := (\<lambda>n. zp_set0),
     f_set1 := (\<lambda>n. zp_set1),
     f_is_sqr := zp_is_sqr G p,
     f_to_bytes := zp_to_bytes G (zp_length G p),
     f_from_bytes := (\<lambda>e. zp_from_bytes G (zp_length G p)),
     f_to_mpz := Some zp_to_mpz,
     f_order := p,
     f_fixed_length := int (zp_length G p) \<rparr>"

definition field_init_naive_fp :: "gmp \<Rightarrow> int \<Rightarrow> int field_s" where
  "field_init_naive_fp G p = (naive_fp_base G p)\<lparr>
     f_sqrt := (\<lambda>nqr x a. case nqr of
        Some g \<Rightarrow> fp_tonelli G (naive_fp_base G p) g x a | None \<Rightarrow> undefined) \<rparr>"

lemmas zp_move = zp_init_def zp_set_si_def zp_set_mpz_def zp_set0_def zp_set1_def
  zp_square_def zp_mul_def zp_mul_mpz_def zp_mul_si_def
  zp_pow_mpz_def zp_set_def zp_is1_def zp_is0_def zp_cmp_def zp_to_mpz_def

section \<open>The operations are those of the integers modulo \<open>p\<close>\<close>

lemma zp_add_mod:
  assumes "gmp_laws G" "0 \<le> a" "a < p" "0 \<le> b" "b < p"
  shows "zp_add G p a b = (a + b) mod p"
  using assms mod_pos_pos_trivial [of "a + b - p" p] mod_diff_right_eq [of "a + b" p p]
  by (simp add: zp_add_def gmp_laws.add gmp_laws.sub gmp_laws.cmp_ge Let_def)

lemma zp_sub_mod:
  assumes "gmp_laws G" "0 \<le> a" "a < p" "0 \<le> b" "b < p"
  shows "zp_sub G p a b = (a - b) mod p"
proof (cases "a < b")
  case True
  then have "(a - b) mod p = (a - b + p) mod p" by simp
  also have "\<dots> = a - b + p" using True assms by (intro mod_pos_pos_trivial) auto
  finally show ?thesis
    using True assms(1) by (simp add: zp_sub_def gmp_laws.add gmp_laws.sub gmp_laws.sgn Let_def sgn_if)
next
  case False
  then show ?thesis
    using assms by (simp add: zp_sub_def gmp_laws.add gmp_laws.sub gmp_laws.sgn Let_def sgn_if)
qed

lemma zp_double_mod:
  assumes "gmp_laws G" "0 \<le> a" "a < p"
  shows "zp_double G p a = (a + a) mod p"
proof -
  have "zp_double G p a = zp_add G p a a"
    using assms(1) by (simp add: zp_double_def zp_add_def gmp_laws.mul_2exp gmp_laws.add mult_2_right)
  then show ?thesis using zp_add_mod [OF assms(1,2,3,2,3)] by simp
qed

lemma zp_neg_mod:
  assumes "gmp_laws G" "0 \<le> a" "a < p"
  shows "zp_neg G p a = (- a) mod p"
proof (cases "a = 0")
  case True
  then show ?thesis using assms(1) by (simp add: zp_neg_def gmp_laws.is0)
next
  case False
  have "(- a) mod p = (- a + p) mod p" by simp
  also have "\<dots> = - a + p" using False assms by (intro mod_pos_pos_trivial) auto
  finally show ?thesis using False assms(1) by (simp add: zp_neg_def gmp_laws.is0 gmp_laws.sub)
qed

lemma zp_halve_ok:
  assumes "gmp_laws G" "0 \<le> a" "a < p" "odd p"
  shows "0 \<le> zp_halve G p a" and "zp_halve G p a < p" and "(zp_halve G p a + zp_halve G p a) mod p = a"
proof -
  have eq: "zp_halve G p a = (if odd a then (a + p) div 2 else a div 2)"
    using assms(1-3)
    by (simp add: zp_halve_def Let_def gmp_laws.odd_p gmp_laws.add gmp_laws.tdiv_q_2exp_nonneg)
  show "0 \<le> zp_halve G p a" "zp_halve G p a < p" unfolding eq using assms by auto
  show "(zp_halve G p a + zp_halve G p a) mod p = a"
  proof (cases "odd a")
    case True
    then have "even (a + p)" using assms(4) by simp
    then have "(a + p) div 2 + (a + p) div 2 = a + p" by (metis dvd_mult_div_cancel mult_2)
    then show ?thesis using True assms eq by simp
  next
    case False
    then have "a div 2 + a div 2 = a" by (metis dvd_mult_div_cancel mult_2)
    then show ?thesis using False assms eq by simp
  qed
qed

text \<open>A number with no divisors but the trivial ones.\<close>

definition is_prime :: "int \<Rightarrow> bool" where
  "is_prime p \<longleftrightarrow> 1 < p \<and> (\<forall>d. d dvd p \<longrightarrow> \<bar>d\<bar> = 1 \<or> \<bar>d\<bar> = p)"

lemma is_prime_coprime: "is_prime p \<Longrightarrow> \<not> p dvd a \<Longrightarrow> coprime a p"
proof -
  assume p: "is_prime p" and a: "\<not> p dvd a"
  have "\<bar>gcd a p\<bar> = 1 \<or> \<bar>gcd a p\<bar> = p" using p gcd_dvd2 unfolding is_prime_def by blast
  then have "gcd a p = 1 \<or> gcd a p = p" by simp
  moreover have "gcd a p \<noteq> p" using a by (metis gcd_dvd1)
  ultimately show "coprime a p" by (simp add: coprime_iff_gcd_eq_1)
qed

text \<open>
  A decision procedure for small primes, so that concrete instances evaluate.
\<close>

lemma is_prime_code:
  "1 < p \<Longrightarrow> list_all (\<lambda>d. \<not> int d dvd p) [2..<nat p] \<Longrightarrow> is_prime p"
proof -
  assume p: "1 < p" and all: "list_all (\<lambda>d. \<not> int d dvd p) [2..<nat p]"
  have "\<bar>d\<bar> = 1 \<or> \<bar>d\<bar> = p" if d: "d dvd p" for d
  proof (rule ccontr)
    assume "\<not> ?thesis"
    moreover have "\<bar>d\<bar> \<le> p" using p d by (simp add: zdvd_imp_le)
    moreover have "d \<noteq> 0" using p d by auto
    ultimately have "nat \<bar>d\<bar> \<in> set [2..<nat p]" by auto
    then have "\<not> int (nat \<bar>d\<bar>) dvd p" using all unfolding list_all_iff by blast
    with d show False by simp
  qed
  with p show ?thesis by (simp add: is_prime_def)
qed

section \<open>The contract\<close>

text \<open>
  \<open>Z / p\<close> in any ring of characteristic \<open>p\<close>: the abstraction function is the canonical
  map of the integers.
\<close>

locale fp_env = gmp_laws G
  for G :: gmp +
  fixes p :: int and emb :: "int \<Rightarrow> 'k::comm_ring_1"
  assumes p1: "1 < p"
    and emb: "emb = of_int"
    and char_p: "of_int i = (0::'k) \<longleftrightarrow> p dvd i"
begin

lemma of_int_mod [simp]: "of_int (i mod p) = (of_int i :: 'k)"
proof -
  have "of_int (i - i mod p) = (0::'k)" by (simp only: char_p) (simp add: minus_mod_eq_mult_div)
  then show ?thesis by simp
qed

lemma emb_inj: "0 \<le> a \<Longrightarrow> a < p \<Longrightarrow> 0 \<le> b \<Longrightarrow> b < p \<Longrightarrow> emb a = emb b \<longleftrightarrow> a = b"
proof
  assume a: "0 \<le> a" "a < p" "0 \<le> b" "b < p" and "emb a = emb b"
  then have "of_int (a - b) = (0::'k)" by (simp add: emb)
  then have "a mod p = b mod p" by (simp only: char_p mod_eq_dvd_iff)
  with a show "a = b" by simp
qed simp

lemma emb_0: "0 \<le> a \<Longrightarrow> a < p \<Longrightarrow> emb a = 0 \<longleftrightarrow> a = 0"
  using emb_inj [of a 0] p1 by (simp add: emb)

lemma emb_1: "0 \<le> a \<Longrightarrow> a < p \<Longrightarrow> emb a = 1 \<longleftrightarrow> a = 1"
  using emb_inj [of a 1] p1 by (simp add: emb)

lemma emb_add: "emb (a + b) = emb a + emb b" and emb_mult: "emb (a * b) = emb a * emb b"
  and emb_diff: "emb (a - b) = emb a - emb b" and emb_minus: "emb (- a) = - emb a"
  by (simp_all add: emb)

lemmas zp_mod = zp_add_mod [OF gmp_laws_axioms] zp_sub_mod [OF gmp_laws_axioms]
  zp_double_mod [OF gmp_laws_axioms] zp_neg_mod [OF gmp_laws_axioms]

lemmas fp_dispatch = field_init_naive_fp_def naive_fp_base_def field_init_def dispatch

end

sublocale fp_env \<subseteq> fp: ring_impl "field_init_naive_fp G p" "{0..<p}" emb
proof unfold_locales
qed (use p1 emb_0 emb_1 emb_inj in \<open>auto simp: fp_dispatch zp_mod zp_move gmp_law emb power2_eq_square Let_def\<close>)

text \<open>Storing the square root in the table changes nothing that \<open>fp_tonelli\<close> reads.\<close>

lemma tonelli_loop_base:
  "tonelli_loop G (field_init_naive_fp G p) gi a is e0 e = tonelli_loop G (naive_fp_base G p) gi a is e0 e"
  by (induction G "naive_fp_base G p" gi a "is" e0 e rule: tonelli_loop.induct)
    (simp_all add: Let_def field_init_naive_fp_def element_pow_mpz_def dispatch naive_fp_base_def field_init_def)

lemma fp_tonelli_base:
  "fp_tonelli G (field_init_naive_fp G p) = fp_tonelli G (naive_fp_base G p)"
  by (intro ext)
    (simp add: fp_tonelli_def Let_def tonelli_loop_base split: prod.split,
     simp add: field_init_naive_fp_def element_pow_mpz_def dispatch naive_fp_base_def field_init_def)

text \<open>For a prime \<open>p\<close> the table is a field of \<open>p\<close> elements.\<close>

locale fp_prime_env = fp_env G p emb
  for G :: gmp and p :: int and emb :: "int \<Rightarrow> 'k::comm_ring_1" +
  assumes prime: "is_prime p"

sublocale fp_prime_env \<subseteq> fpx: field_gmp "field_init_naive_fp G p" "{0..<p}" emb G
proof unfold_locales
  fix n a
  assume a: "a \<in> {0..<p}" and "emb a \<noteq> 0"
  then have "\<not> p dvd a" using char_p by (simp add: emb)
  with prime have "coprime a p" by (rule is_prime_coprime)
  from invert [OF p1 this]
  have inv: "0 \<le> mpz_invert G a p" "mpz_invert G a p < p" "mpz_invert G a p * a mod p = 1"
    by simp_all
  then show "element_invert (field_init_naive_fp G p) n a \<in> {0..<p}"
    by (simp add: fp_dispatch zp_invert_def)
  have "of_int (mpz_invert G a p * a mod p) = (1::'k)" by (simp only: inv(3) of_int_1)
  then show "emb a * emb (element_invert (field_init_naive_fp G p) n a) = 1"
    by (simp add: fp_dispatch zp_invert_def emb mult.commute)
next
  fix x a n :: int
  assume "a \<in> {0..<p}" "0 \<le> n"
  then show "element_pow_mpz G (field_init_naive_fp G p) x a n \<in> {0..<p}"
    and "emb (element_pow_mpz G (field_init_naive_fp G p) x a n) = emb a ^ nat n"
    using p1 by (simp_all add: fp_dispatch element_pow_mpz_def zp_pow_mpz_def powm emb)
qed

context fp_prime_env
begin

lemma card_image: "card (emb ` {0..<p}) = nat p" and finite_image: "finite (emb ` {0..<p})"
proof -
  have "inj_on emb {0..<p}" using emb_inj by (auto intro: inj_onI)
  then show "card (emb ` {0..<p}) = nat p" by (simp add: card_image)
qed simp

lemma emb_square: "emb y * emb y = emb a \<longleftrightarrow> (y * y) mod p = a mod p"
proof -
  have "emb y * emb y = emb a \<longleftrightarrow> of_int (y * y - a) = (0::'k)" by (simp add: emb)
  also have "\<dots> \<longleftrightarrow> p dvd (y * y - a)" by (rule char_p)
  also have "\<dots> \<longleftrightarrow> (y * y) mod p = a mod p" by (simp add: mod_eq_dvd_iff)
  finally show ?thesis .
qed

text \<open>\<open>zp_is_sqr\<close> decides whether an element is a square.\<close>

lemma is_sqr_iff:
  assumes "2 < p" "a \<in> {0..<p}"
  shows "zp_is_sqr G p a \<noteq> 0 \<longleftrightarrow> (\<exists>y\<in>{0..<p}. emb y * emb y = emb a)"
proof (cases "a = 0")
  case True
  then show ?thesis using assms p1 by (auto simp: zp_is_sqr_def is0 emb intro!: bexI [of _ 0])
next
  case False
  then have nd: "\<not> p dvd a" using assms(2) zdvd_not_zless [of a p] by auto
  have leg: "mpz_legendre G a p = 1 \<longleftrightarrow> (\<exists>x. (x * x) mod p = a mod p)"
    using legendre [OF assms(1)] prime nd by (simp add: is_prime_def)
  have "(\<exists>x. (x * x) mod p = a mod p) \<longleftrightarrow> (\<exists>y\<in>{0..<p}. (y * y) mod p = a mod p)"
  proof
    assume "\<exists>x. (x * x) mod p = a mod p"
    then obtain x where "(x * x) mod p = a mod p" ..
    then have "((x mod p) * (x mod p)) mod p = a mod p" by (simp add: mod_mult_eq)
    moreover have "x mod p \<in> {0..<p}" using p1 by simp
    ultimately show "\<exists>y\<in>{0..<p}. (y * y) mod p = a mod p" by blast
  qed blast
  with leg False show ?thesis by (simp add: zp_is_sqr_def is0 emb_square)
qed

text \<open>
  \<open>fp_tonelli\<close> over the table as the code calls it, with any nonresidue that
  \<open>zp_is_sqr\<close> rejects.
\<close>

lemma sqrt_ok:
  assumes p: "odd p" and V: "x \<in> {0..<p}" "a \<in> {0..<p}" "g \<in> {0..<p}"
    and g: "zp_is_sqr G p g = 0" and a: "zp_is_sqr G p a \<noteq> 0"
  defines "r \<equiv> fp_tonelli G (field_init_naive_fp G p) g x a"
  shows "r \<in> {0..<p}" and "(r * r) mod p = a"
proof -
  have p2: "2 < p" using p p1 by (cases "p = 2") auto
  have order: "f_order (field_init_naive_fp G p) = int (card (emb ` {0..<p}))"
    using p1 by (simp add: fp_dispatch card_image)
  have odd: "odd (card (emb ` {0..<p}))" using p p1 by (simp add: card_image even_nat_iff)
  have two: "(2::'k) \<noteq> 0" using char_p [of 2] p2 zdvd_not_zless [of 2 p] by auto
  have ns: "\<And>y. y \<in> {0..<p} \<Longrightarrow> emb y * emb y \<noteq> emb g" using g is_sqr_iff [OF p2 V(3)] by auto
  note res = fpx.fp_tonelli_sqrt [OF order odd finite_image two V ns a [unfolded is_sqr_iff [OF p2 V(2)]]]
  show "r \<in> {0..<p}" unfolding r_def by (rule res(1))
  have "(r * r) mod p = a mod p" using res(2) by (simp only: r_def emb_square)
  then show "(r * r) mod p = a" using V(2) by simp
qed

end

section \<open>The integers modulo 7\<close>

lemma of_int_7: "of_int i = (0::7) \<longleftrightarrow> 7 dvd i"
proof -
  have "of_int i = (0::7) \<longleftrightarrow> of_int i = (of_int 0 :: 7)" by simp
  also have "\<dots> \<longleftrightarrow> i mod 7 = 0 mod 7"
    unfolding bit1.of_int_eq
    by (simp only: bit1.Rep_inject_sym bit1.Rep_Abs_mod) simp
  finally show ?thesis by (simp add: dvd_eq_mod_eq_0)
qed

lemma is_prime_7: "is_prime 7"
  by (rule is_prime_code) (simp_all add: upt_rec)

interpretation fp7: fp_prime_env gmp_ref 7 "of_int :: int \<Rightarrow> 7"
  by unfold_locales (simp_all add: of_int_7 is_prime_7)

section \<open>Signs and serialisation\<close>

lemma zp_sgn_odd_neg:
  assumes "gmp_laws G" "odd p" "0 \<le> a" "a < p"
  shows "zp_sgn_odd G (zp_neg G p a) = - zp_sgn_odd G a" and "zp_sgn_odd G a = 0 \<longleftrightarrow> a = 0"
  using assms
  by (auto simp: zp_sgn_odd_def zp_neg_def gmp_laws.is0 gmp_laws.odd_p gmp_laws.sub)

lemma zp_length_ok:
  assumes "gmp_laws G" "0 < p"
  shows "p \<le> 256 ^ zp_length G p" and "nbits (nat p) \<le> 8 * zp_length G p" and "0 < zp_length G p"
proof -
  show bits: "nbits (nat p) \<le> 8 * zp_length G p"
    using assms by (simp add: zp_length_def gmp_laws.sizeinbase)
  then show "0 < zp_length G p" using nbits_pos [of "nat p"] by (metis le_0_eq mult_0_right neq0_conv)
  have "nat p < 2 ^ nbits (nat p)" by (rule nbits_upper)
  also have "(2::nat) ^ nbits (nat p) \<le> 2 ^ (8 * zp_length G p)" using bits by (intro power_increasing) simp_all
  also have "\<dots> = 256 ^ zp_length G p" by (simp add: power_mult)
  finally have "int (nat p) < int (256 ^ zp_length G p)" by (simp only: of_nat_less_iff)
  then show "p \<le> 256 ^ zp_length G p" using assms(2) by simp
qed

lemma zp_to_bytes_ok:
  assumes "gmp_laws G" "0 \<le> a" "a < p"
  shows "length (zp_to_bytes G (zp_length G p) a) = zp_length G p"
    and "zp_from_bytes G (zp_length G p) (zp_to_bytes G (zp_length G p) a @ rest) = (a, zp_length G p)"
proof -
  have p: "0 < p" using assms by simp
  have "nbits (nat a) \<le> nbits (nat p)" using assms by (intro nbits_mono) simp
  also have "\<dots> \<le> 8 * zp_length G p" by (rule zp_length_ok [OF assms(1) p])
  finally have "nbits (nat a) \<le> 8 * zp_length G p" .
  from out_raw_n_ok [OF assms(1,2) this zp_length_ok(3) [OF assms(1) p]]
  obtain bs where "pbc_mpz_out_raw_n G (zp_length G p) a = Some bs" "length bs = zp_length G p"
    "bytes_val bs = nat a" by blast
  then show "length (zp_to_bytes G (zp_length G p) a) = zp_length G p"
    "zp_from_bytes G (zp_length G p) (zp_to_bytes G (zp_length G p) a @ rest) = (a, zp_length G p)"
    using assms by (simp_all add: zp_to_bytes_def zp_from_bytes_def gmp_laws.import)
qed

lemma zp_snprint_set_str:
  assumes "gmp_laws G" "0 \<le> a" "a < p" "base = 0 \<or> base = 10"
    and "zp_snprint G n a = (s, len)" "len < int n" "ends_number 10 rest"
  shows "zp_set_str G p (s @ rest) base = (a, nat len)"
    and "zp_set_str G p (CHR '' '' # s @ rest) base = (a, nat len + 1)"
proof -
  have str: "mpz_get_str G 10 a = nat_str 10 (nat a)"
    using assms(1,2) by (simp add: gmp_laws.get_str int_str_def)
  then have s: "s = nat_str 10 (nat a)" "len = int (length s)"
    using assms(5,6) by (auto simp: zp_snprint_def c_snprintf_def)
  have "c_isspace (CHR '' '')" by (simp add: c_isspace_def)
  then show "zp_set_str G p (s @ rest) base = (a, nat len)"
    "zp_set_str G p (CHR '' '' # s @ rest) base = (a, nat len + 1)"
    using assms set_str_nat_str_10 [OF assms(1,7), of "nat a"]
    by (auto simp: zp_set_str_def s pbc_mpz_set_str_def gmp_laws.mod)
qed

text \<open>
  A hash maps into \<open>0, \<dots>, p\<close>: the loop that shortens the number stops at \<open>z = p\<close>,
  so the value need not be reduced.
\<close>

lemma zp_from_hash_ok:
  assumes "gmp_laws G" "0 < p" "nbits (nat p) \<le> 16384"
  shows "\<exists>z. zp_from_hash G p data = Some z \<and> 0 \<le> z \<and> z \<le> p"
  unfolding zp_from_hash_def using assms by (intro from_hash_ok) simp_all

end
