(* ===== verification/FieldProps.thy ===== *)
theory FieldProps
  imports NaiveFp
begin

text \<open>
  What the generic exponentiations of \<^verbatim>\<open>arith/field.c\<close>, the square root of
  \<^verbatim>\<open>arith/fp.c\<close> and the table of \<^verbatim>\<open>arith/naivefp.c\<close> compute. The statements over an
  arbitrary structure name the contract they need; their witnesses apply them to the
  integers modulo 7.
\<close>

section \<open>Exponentiation\<close>

text \<open>
  C12: The sliding-window exponentiation that \<open>field_init\<close> installs computes the power, for
  every exponent and whatever window size it chooses, in any structure whose multiplication
  is that of a monoid.
\<close>

theorem pow_window_correct:
  assumes "monoid_gmp F V \<alpha> G" "x \<in> V" "a \<in> V" "0 \<le> n"
  shows "generic_pow_mpz G F x a n \<in> V \<and> \<alpha> (generic_pow_mpz G F x a n) = \<alpha> a ^ nat n"
  using monoid_gmp.generic_pow_mpz_ok [OF assms] .

lemma pow_window_witness:
  "(of_int (generic_pow_mpz gmp_ref (field_init_naive_fp gmp_ref 7) 0 3 13) :: 7) = of_int 3 ^ nat 13"
proof -
  have "monoid_gmp (field_init_naive_fp gmp_ref 7) {0..<7} (of_int :: int \<Rightarrow> 7) gmp_ref"
    by unfold_locales
  from pow_window_correct [OF this, of 0 3 13] show ?thesis by simp
qed

text \<open>
  C13: Shamir's simultaneous exponentiation with two or three bases computes the product of
  the powers when the multiplication commutes.
\<close>

theorem pow2_pow3_correct:
  assumes "comm_monoid_gmp F V \<alpha> G" "x \<in> V" "a1 \<in> V" "a2 \<in> V" "a3 \<in> V"
    and "0 \<le> n1" "0 \<le> n2" "0 \<le> n3"
  shows "\<alpha> (element_pow2_mpz G F x a1 n1 a2 n2) = \<alpha> a1 ^ nat n1 * \<alpha> a2 ^ nat n2 \<and>
    \<alpha> (element_pow3_mpz G F x a1 n1 a2 n2 a3 n3) =
      \<alpha> a1 ^ nat n1 * \<alpha> a2 ^ nat n2 * \<alpha> a3 ^ nat n3"
  using comm_monoid_gmp.element_pow2_mpz_ok(2) [OF assms(1-4,6,7)]
    comm_monoid_gmp.element_pow3_mpz_ok [OF assms] by simp

lemma pow2_pow3_witness:
  "(of_int (element_pow2_mpz gmp_ref (field_init_naive_fp gmp_ref 7) 0 3 10 5 21) :: 7) =
     of_int 3 ^ nat 10 * of_int 5 ^ nat 21 \<and>
   (of_int (element_pow3_mpz gmp_ref (field_init_naive_fp gmp_ref 7) 0 3 10 5 21 2 4) :: 7) =
     of_int 3 ^ nat 10 * of_int 5 ^ nat 21 * of_int 2 ^ nat 4"
proof -
  have "comm_monoid_gmp (field_init_naive_fp gmp_ref 7) {0..<7} (of_int :: int \<Rightarrow> 7) gmp_ref"
    by unfold_locales
  from pow2_pow3_correct [OF this, of 0 3 5 2 10 21 4] show ?thesis by simp
qed

text \<open>
  C14: Exponentiation with a precomputed table of the powers of the base: it reads only
  inside the table built for numbers of \<open>bits\<close> bits and returns the power, for every
  exponent of at most that many bits.
\<close>

theorem pow_base_table_correct:
  assumes "monoid_gmp F V \<alpha> G" "0 \<le> n" "x \<in> V" "a \<in> V" "1 \<le> k" "nbits (nat n) \<le> bits"
  shows "\<exists>y. element_pow_base_table G F x n (element_build_base_table F a bits k) = Some y \<and>
    y \<in> V \<and> \<alpha> y = \<alpha> a ^ nat n"
  using monoid_gmp.element_pow_base_table_ok [OF assms] .

lemma pow_base_table_witness:
  "\<exists>y. element_pow_base_table gmp_ref (field_init_naive_fp gmp_ref 7) 0 100
     (element_build_base_table (field_init_naive_fp gmp_ref 7) 3 8 2) = Some y \<and>
   y \<in> {0..<7} \<and> (of_int y :: 7) = of_int 3 ^ nat 100"
proof -
  have "monoid_gmp (field_init_naive_fp gmp_ref 7) {0..<7} (of_int :: int \<Rightarrow> 7) gmp_ref"
    by unfold_locales
  moreover have "nbits (nat 100) \<le> 8" by (rule nbits_le) simp_all
  ultimately show ?thesis by (intro pow_base_table_correct) simp_all
qed

section \<open>Prime fields\<close>

text \<open>
  C15: In the table of \<^verbatim>\<open>naivefp.c\<close> every arithmetic operation on residues returns the
  residue of the integer result; the inverse of a nonzero residue modulo a prime is its
  inverse; the half of a residue doubles to it.
\<close>

theorem naive_fp_arith:
  assumes "gmp_laws G" "is_prime p" "odd p" "0 \<le> a" "a < p" "0 \<le> b" "b < p"
  defines "F \<equiv> field_init_naive_fp G p"
  shows "element_add F c a b = (a + b) mod p \<and> element_sub F c a b = (a - b) mod p \<and>
    element_mul F c a b = (a * b) mod p \<and> element_square F c a = (a * a) mod p \<and>
    element_double F c a = (a + a) mod p \<and> element_neg F c a = (- a) mod p \<and>
    element_mul_si F c a z = (a * z) mod p \<and>
    (a \<noteq> 0 \<longrightarrow> (element_invert F c a * a) mod p = 1) \<and>
    (element_halve F c a + element_halve F c a) mod p = a"
proof -
  note dis = F_def field_init_naive_fp_def naive_fp_base_def field_init_def dispatch
  have p: "1 < p" using assms(2) by (simp add: is_prime_def)
  have inv: "(element_invert F c a * a) mod p = 1" if "a \<noteq> 0"
  proof -
    have "\<not> p dvd a" using that assms zdvd_not_zless [of a p] by simp
    then show ?thesis
      using gmp_laws.invert [OF assms(1) p] is_prime_coprime [OF assms(2)]
      by (simp add: dis zp_invert_def)
  qed
  show ?thesis
    using assms(1) p inv zp_add_mod [OF assms(1,4-7)] zp_sub_mod [OF assms(1,4-7)]
      zp_double_mod [OF assms(1,4,5)] zp_neg_mod [OF assms(1,4,5)]
      zp_halve_ok(3) [OF assms(1,4,5,3)]
    by (simp add: dis zp_mul_def zp_square_def zp_mul_si_def Let_def gmp_laws.mul gmp_laws.mod
        gmp_laws.powm power2_eq_square)
qed

lemma naive_fp_arith_witness:
  "element_mul (field_init_naive_fp gmp_ref 7) 0 5 6 = (5 * 6) mod 7 \<and>
   (element_halve (field_init_naive_fp gmp_ref 7) 0 5 + element_halve (field_init_naive_fp gmp_ref 7) 0 5) mod 7 = 5"
  using naive_fp_arith [OF gmp_ref.gmp_laws_axioms is_prime_7, of 5 6 0] by simp

text \<open>
  C11: The square root of \<^verbatim>\<open>fp.c\<close>: with any nonresidue set in the field, the result for an
  element that \<open>element_is_sqr\<close> accepts squares to it, zero included.
\<close>

theorem fp_sqrt_correct:
  assumes "fp_prime_env G p emb" "odd p" "x \<in> {0..<p}" "a \<in> {0..<p}" "g \<in> {0..<p}"
  defines "F \<equiv> field_set_nqr (field_init_naive_fp G p) g"
  assumes "element_is_sqr F g = 0" "element_is_sqr F a \<noteq> 0"
  shows "element_sqrt F x a \<in> {0..<p} \<and> element_mul F c (element_sqrt F x a) (element_sqrt F x a) = a"
proof -
  have laws: "gmp_laws G" "1 < p"
    using assms(1) by (auto simp: fp_prime_env_def fp_env_def fp_env_axioms_def)
  note dis = F_def field_set_nqr_def field_init_naive_fp_def naive_fp_base_def field_init_def dispatch
  have sq: "zp_is_sqr G p g = 0" "zp_is_sqr G p a \<noteq> 0" using assms(7,8) by (simp_all add: dis)
  have eq: "element_sqrt F x a = fp_tonelli G (field_init_naive_fp G p) g x a"
    unfolding fp_tonelli_base
    by (simp add: F_def field_set_nqr_def element_sqrt_def element_set_def element_init_def
        field_init_naive_fp_def zp_set_def, simp add: naive_fp_base_def zp_set_def)
  show ?thesis
    using fp_prime_env.sqrt_ok [OF assms(1-5) sq] laws
    by (simp add: eq) (simp add: dis zp_mul_def Let_def gmp_laws.mul gmp_laws.mod)
qed

lemma fp_sqrt_witness:
  "element_mul (field_set_nqr (field_init_naive_fp gmp_ref 7) 3) 0
     (element_sqrt (field_set_nqr (field_init_naive_fp gmp_ref 7) 3) 0 2)
     (element_sqrt (field_set_nqr (field_init_naive_fp gmp_ref 7) 3) 0 2) = 2"
proof -
  have "element_is_sqr (field_set_nqr (field_init_naive_fp gmp_ref 7) 3) 3 = 0"
    "element_is_sqr (field_set_nqr (field_init_naive_fp gmp_ref 7) 3) 2 \<noteq> 0"
    by code_simp+
  with fp_sqrt_correct [OF fp7.fp_prime_env_axioms, of 0 2 3 0] show ?thesis by simp
qed

text \<open>
  C16: The search for a nonresidue ends at the first draw that is not a square, and stores it
  in the field.
\<close>

theorem get_nqr_first:
  assumes "zp_is_sqr G p (R (i + k) p) = 0" "\<forall>j<k. zp_is_sqr G p (R (i + j) p) \<noteq> 0"
  shows "field_get_nqr (field_init_naive_fp G p) R i =
    Some (R (i + k) p, (field_init_naive_fp G p)\<lparr>f_nqr := Some (R (i + k) p)\<rparr>, i + k + 1)"
proof -
  have "gen_nqr_loop (field_init_naive_fp G p) R i e = Some (R (i + k) p, i + k + 1)" for e
    using assms
  proof (induction k arbitrary: i e)
    case 0
    then show ?case
      by (subst gen_nqr_loop.simps)
         (simp add: field_init_naive_fp_def naive_fp_base_def dispatch zp_random_def)
  next
    case (Suc k)
    have "gen_nqr_loop (field_init_naive_fp G p) R (i + 1) (R i p) =
        Some (R (i + 1 + k) p, i + 1 + k + 1)"
      using Suc.prems by (intro Suc.IH) (auto dest: spec [of _ "Suc _"])
    moreover have "zp_is_sqr G p (R i p) \<noteq> 0" using Suc.prems(2) by (metis add.right_neutral zero_less_Suc)
    ultimately show ?case
      by (subst gen_nqr_loop.simps)
         (simp add: field_init_naive_fp_def naive_fp_base_def dispatch zp_random_def)
  qed
  moreover have "f_nqr (field_init_naive_fp G p) = None"
    by (simp add: field_init_naive_fp_def naive_fp_base_def field_init_def)
  ultimately show ?thesis by (simp add: field_get_nqr_def field_gen_nqr_def)
qed

lemma get_nqr_first_witness:
  "\<exists>F'. field_get_nqr (field_init_naive_fp gmp_ref 7) (\<lambda>i l. int i + 1) 0 = Some (3, F', 3) \<and>
     f_nqr F' = Some 3"
proof -
  have "zp_is_sqr gmp_ref 7 3 = 0" "\<forall>j<2. zp_is_sqr gmp_ref 7 (int j + 1) \<noteq> 0"
    by (code_simp, auto simp: less_2_cases_iff, code_simp+)
  with get_nqr_first [of gmp_ref 7 "\<lambda>i l. int i + 1" 0 2] show ?thesis by simp
qed

text \<open>
  C17: Serialisation of residues: \<open>element_to_bytes\<close> writes exactly the fixed length of the
  field, and \<open>element_from_bytes\<close> on these bytes, whatever follows them, returns the element
  and the count read.
\<close>

theorem naive_fp_bytes:
  assumes "gmp_laws G" "0 \<le> a" "a < p"
  defines "F \<equiv> field_init_naive_fp G p"
  shows "int (length (element_to_bytes F a)) = element_length_in_bytes F a \<and>
    element_from_bytes F e (element_to_bytes F a @ rest) = (a, length (element_to_bytes F a))"
  using zp_to_bytes_ok [OF assms(1-3)]
  by (simp add: F_def field_init_naive_fp_def naive_fp_base_def dispatch)

lemma naive_fp_bytes_witness:
  "element_from_bytes (field_init_naive_fp gmp_ref 7) 0
     (element_to_bytes (field_init_naive_fp gmp_ref 7) 5 @ [9]) =
   (5, length (element_to_bytes (field_init_naive_fp gmp_ref 7) 5))"
  using naive_fp_bytes [OF gmp_ref.gmp_laws_axioms, of 5 7 0 "[9]"] by simp

text \<open>
  Hashing into \<open>Z / p\<close> always returns for a modulus of at most 16384 bits, with a number
  between 0 and \<open>p\<close>; the bound is inclusive, so the result need not be reduced.
\<close>

theorem naive_fp_from_hash:
  assumes "gmp_laws G" "0 < p" "nbits (nat p) \<le> 16384"
  shows "\<exists>z. element_from_hash (field_init_naive_fp G p) e data = Some z \<and> 0 \<le> z \<and> z \<le> p"
  using zp_from_hash_ok [OF assms]
  by (simp add: field_init_naive_fp_def naive_fp_base_def dispatch)

lemma naive_fp_from_hash_witness:
  "\<exists>z. element_from_hash (field_init_naive_fp gmp_ref 7) 0 [200, 3] = Some z \<and> 0 \<le> z \<and> z \<le> 7"
proof -
  have "nbits (nat 7) \<le> 16384"
    by (rule order_trans [OF nbits_le [of _ 3]]) simp_all
  then show ?thesis by (intro naive_fp_from_hash) (simp_all add: gmp_ref.gmp_laws_axioms)
qed

text \<open>
  Printing a residue in decimal into a buffer that holds it and reading it back, with
  base 0 or 10 and any text after it that does not continue a number, returns the residue and
  the number of characters.
\<close>

theorem naive_fp_string:
  assumes "gmp_laws G" "0 \<le> a" "a < p" "base = 0 \<or> base = 10"
    and "zp_snprint G n a = (s, len)" "len < int n" "ends_number 10 rest"
  shows "zp_set_str G p (s @ rest) base = (a, nat len)"
  using assms by (rule zp_snprint_set_str(1))

lemma naive_fp_string_witness: "zp_set_str gmp_ref 1000 (''123'' @ '']'') 10 = (123, 3)"
proof -
  have "zp_snprint gmp_ref 10 123 = (''123'', 3)" "ends_number 10 '']''" by code_simp+
  then show ?thesis
    using naive_fp_string [OF gmp_ref.gmp_laws_axioms, of 123 1000 10 10 "''123''" 3 "'']''"] by simp
qed

text \<open>
  For odd \<open>p\<close> the sign of a residue is zero for zero only, and changes with negation.
\<close>

lemma naive_fp_sign:
  assumes "gmp_laws G" "odd p" "0 \<le> a" "a < p"
  defines "F \<equiv> field_init_naive_fp G p"
  shows "element_sign F (element_neg F c a) = - element_sign F a \<and> (element_sign F a = 0 \<longleftrightarrow> a = 0)"
  using zp_sgn_odd_neg [OF assms(1-4)] assms(1,2)
  by (simp add: F_def field_init_naive_fp_def naive_fp_base_def dispatch gmp_laws.odd_p)

end
