(* ===== verification/SqrtField.thy ===== *)
theory SqrtField
  imports NaiveFp
begin

text \<open>
  The contract of a field whose table can test for squares and take square roots, which the
  quadratic extensions and the curves rely on, and its proof for the prime fields of
  \<^verbatim>\<open>naivefp.c\<close> with a nonresidue stored by \<open>field_set_nqr\<close>.
\<close>

section \<open>The stored nonresidue is read by the square root alone\<close>

named_theorems nqr_irrelevant

lemma nqr_element [nqr_irrelevant]:
  "element_init (F\<lparr>f_nqr := q\<rparr>) = element_init F"
  "element_set (F\<lparr>f_nqr := q\<rparr>) = element_set F"
  "element_set0 (F\<lparr>f_nqr := q\<rparr>) = element_set0 F"
  "element_set1 (F\<lparr>f_nqr := q\<rparr>) = element_set1 F"
  "element_add (F\<lparr>f_nqr := q\<rparr>) = element_add F"
  "element_mul (F\<lparr>f_nqr := q\<rparr>) = element_mul F"
  "element_neg (F\<lparr>f_nqr := q\<rparr>) = element_neg F"
  "element_invert (F\<lparr>f_nqr := q\<rparr>) = element_invert F"
  "element_is_sqr (F\<lparr>f_nqr := q\<rparr>) = element_is_sqr F"
  "element_to_bytes (F\<lparr>f_nqr := q\<rparr>) = element_to_bytes F"
  "element_length_in_bytes (F\<lparr>f_nqr := q\<rparr>) = element_length_in_bytes F"
  by (simp_all add: fun_eq_iff dispatch)

lemma nqr_square [nqr_irrelevant]: "element_square (F\<lparr>f_nqr := q\<rparr>) = element_square F"
  and nqr_double [nqr_irrelevant]: "element_double (F\<lparr>f_nqr := q\<rparr>) = element_double F"
  and nqr_set_mpz [nqr_irrelevant]: "element_set_mpz (F\<lparr>f_nqr := q\<rparr>) = element_set_mpz F"
  by (simp_all add: fun_eq_iff element_square_def generic_square_def element_double_def
      generic_double_def element_set_mpz_def zero_set_mpz_def nqr_element cong: option.case_cong)

lemma nqr_set_si [nqr_irrelevant]: "element_set_si (F\<lparr>f_nqr := q\<rparr>) = element_set_si F"
  and nqr_mul_mpz [nqr_irrelevant]: "element_mul_mpz (F\<lparr>f_nqr := q\<rparr>) = element_mul_mpz F"
  and nqr_sub [nqr_irrelevant]: "element_sub (F\<lparr>f_nqr := q\<rparr>) = element_sub F"
  and nqr_cmp [nqr_irrelevant]: "element_cmp (F\<lparr>f_nqr := q\<rparr>) = element_cmp F"
  by (simp_all add: fun_eq_iff element_set_si_def generic_set_si_def element_mul_mpz_def
      generic_mul_mpz_def element_sub_def generic_sub_def element_cmp_def generic_cmp_def
      nqr_element nqr_set_mpz Let_def cong: option.case_cong)

lemma nqr_mul_si [nqr_irrelevant]: "element_mul_si (F\<lparr>f_nqr := q\<rparr>) = element_mul_si F"
  and nqr_is0 [nqr_irrelevant]: "element_is0 (F\<lparr>f_nqr := q\<rparr>) = element_is0 F"
  and nqr_is1 [nqr_irrelevant]: "element_is1 (F\<lparr>f_nqr := q\<rparr>) = element_is1 F"
  by (simp_all add: fun_eq_iff element_mul_si_def generic_mul_si_def element_is0_def
      generic_is0_def element_is1_def generic_is1_def nqr_element nqr_set_si nqr_cmp
      cong: option.case_cong)

lemma nqr_window: "fill_pow_window (F\<lparr>f_nqr := q\<rparr>) a t l = fill_pow_window F a t l"
  by (induction F a t l rule: fill_pow_window.induct) (simp_all add: nqr_element)

lemma nqr_wind_loop:
  "pow_wind_loop G (F\<lparr>f_nqr := q\<rparr>) n k l s inword w b r = pow_wind_loop G F n k l s inword w b r"
  by (induction s arbitrary: inword w b r)
     (simp_all add: nqr_element nqr_square Let_def)

lemma nqr_pow [nqr_irrelevant]: "element_pow_mpz G (F\<lparr>f_nqr := q\<rparr>) = element_pow_mpz G F"
  by (simp add: fun_eq_iff element_pow_mpz_def generic_pow_mpz_def build_pow_window_def
      element_pow_wind_def nqr_element nqr_window nqr_wind_loop Let_def cong: option.case_cong if_cong)

lemma field_gmp_nqr:
  "field_gmp F V \<alpha> G \<Longrightarrow> field_gmp (F\<lparr>f_nqr := q\<rparr>) V \<alpha> G"
  unfolding field_gmp_def field_gmp_axioms_def field_impl_def field_impl_axioms_def
      ring_impl_def ring_impl_axioms_def monoid_impl_def monoid_impl_axioms_def magma_impl_def
      nqr_irrelevant .

section \<open>The contract\<close>

locale sqrt_field = field_gmp F V \<alpha> G
  for F :: "'a field_s" and V :: "'a set" and \<alpha> :: "'a \<Rightarrow> 'k::comm_ring_1" and G :: gmp +
  assumes two: "(2::'k) \<noteq> 0"
    and is_sqr: "a \<in> V \<Longrightarrow> element_is_sqr F a \<noteq> 0 \<longleftrightarrow> (\<exists>y\<in>V. \<alpha> y * \<alpha> y = \<alpha> a)"
    and sqrt_in [intro]: "n \<in> V \<Longrightarrow> a \<in> V \<Longrightarrow> element_is_sqr F a \<noteq> 0 \<Longrightarrow> element_sqrt F n a \<in> V"
    and sqrt: "n \<in> V \<Longrightarrow> a \<in> V \<Longrightarrow> element_is_sqr F a \<noteq> 0 \<Longrightarrow>
      \<alpha> (element_sqrt F n a) * \<alpha> (element_sqrt F n a) = \<alpha> a"
    and nonsquares: "a \<in> V \<Longrightarrow> b \<in> V \<Longrightarrow> element_is_sqr F a = 0 \<Longrightarrow> element_is_sqr F b = 0 \<Longrightarrow>
      \<exists>y\<in>V. \<alpha> y * \<alpha> y = \<alpha> a * \<alpha> b"

text \<open>In a finite field of odd order the product of two nonsquares is a square.\<close>

context field_gmp
begin

lemma nonsquares_mult:
  assumes q: "f_order F = int (card (\<alpha> ` V))" "odd (card (\<alpha> ` V))" "finite (\<alpha> ` V)"
    and two: "(2::'k) \<noteq> 0"
    and V: "a \<in> V" "b \<in> V"
    and a: "\<And>y. y \<in> V \<Longrightarrow> \<alpha> y * \<alpha> y \<noteq> \<alpha> a" and b: "\<And>y. y \<in> V \<Longrightarrow> \<alpha> y * \<alpha> y \<noteq> \<alpha> b"
  shows "\<exists>y\<in>V. \<alpha> y * \<alpha> y = \<alpha> a * \<alpha> b"
proof -
  define m where "m = card (\<alpha> ` V) - 1"
  have a0: "\<alpha> a \<noteq> 0" using a [of "element_init F"] by (auto simp: init)
  have b0: "\<alpha> b \<noteq> 0" using b [of "element_init F"] by (auto simp: init)
  have "0 \<in> \<alpha> ` V" using init by (metis imageI init_in)
  then have "{0, \<alpha> a} \<subseteq> \<alpha> ` V" using V by simp
  with card_mono [OF q(3) this] a0 have "2 \<le> card (\<alpha> ` V)" by (simp add: card_insert_if)
  then have m: "f_order F = int m + 1" "even m" "0 < m" using q(1,2) by (auto simp: m_def)
  have ea: "\<alpha> a ^ (m div 2) = - 1"
    using euler_nonsquare [OF q(3) two V(1) a0 a] by (simp add: m_def)
  have eb: "\<alpha> b ^ (m div 2) = - 1"
    using euler_nonsquare [OF q(3) two V(2) b0 b] by (simp add: m_def)
  let ?c = "element_mul F a a b"
  have c: "?c \<in> V" "\<alpha> ?c = \<alpha> a * \<alpha> b" using V by (simp_all add: impl_law)
  have "\<alpha> ?c ^ (m div 2) = 1" unfolding c(2) by (simp add: power_mult_distrib ea eb)
  from fp_tonelli_ok [OF m c(1) c(1) V(1) ea this] show ?thesis unfolding c(2) by blast
qed

end

section \<open>Prime fields\<close>

locale fp_sqrt_env = fp_prime_env G p emb
  for G :: gmp and p :: int and emb :: "int \<Rightarrow> 'k::comm_ring_1" +
  fixes g :: int
  assumes odd_p: "odd p" and g_in: "0 \<le> g" "g < p" and g_nonsquare: "zp_is_sqr G p g = 0"

context fp_sqrt_env
begin

abbreviation Fp :: "int field_s" where
  "Fp \<equiv> field_set_nqr (field_init_naive_fp G p) g"

lemma Fp_eq: "Fp = (field_init_naive_fp G p)\<lparr>f_nqr := Some g\<rparr>"
  by (simp add: field_set_nqr_def element_set_def field_init_naive_fp_def naive_fp_base_def zp_set_def)

lemma Fp_is_sqr: "element_is_sqr Fp a = zp_is_sqr G p a"
  by (simp add: Fp_eq nqr_irrelevant) (simp add: fp_dispatch)

lemma Fp_sqrt: "element_sqrt Fp x a = fp_tonelli G (field_init_naive_fp G p) g x a"
  unfolding fp_tonelli_base Fp_eq by (simp add: element_sqrt_def field_init_naive_fp_def)

lemma p_gt_2: "2 < p"
  using odd_p p1 by (cases "p = 2") auto

lemma two_neq_0: "(2::'k) \<noteq> 0"
  using char_p [of 2] p_gt_2 zdvd_not_zless [of 2 p] by auto

end

sublocale fp_sqrt_env \<subseteq> fps: sqrt_field "field_set_nqr (field_init_naive_fp G p) g" "{0..<p}" emb G
proof -
  have fgmp: "field_gmp Fp {0..<p} emb G"
    unfolding Fp_eq by (rule field_gmp_nqr) unfold_locales
  have sqr: "element_is_sqr Fp a \<noteq> 0 \<longleftrightarrow> (\<exists>y\<in>{0..<p}. emb y * emb y = emb a)" if "a \<in> {0..<p}" for a
    using is_sqr_iff [OF p_gt_2 that] by (simp add: Fp_is_sqr)
  have sqrt: "element_sqrt Fp n a \<in> {0..<p} \<and> emb (element_sqrt Fp n a) * emb (element_sqrt Fp n a) = emb a"
    if "n \<in> {0..<p}" "a \<in> {0..<p}" "element_is_sqr Fp a \<noteq> 0" for n a
    using sqrt_ok [OF odd_p that(1,2), of g] that g_in g_nonsquare
    by (simp add: Fp_sqrt Fp_is_sqr emb_square)
  have order: "f_order Fp = int (card (emb ` {0..<p}))" using p1
    unfolding Fp_eq by (simp add: fp_dispatch card_image)
  have odd: "odd (card (emb ` {0..<p}))" using odd_p p1 by (simp add: card_image even_nat_iff)
  show "sqrt_field Fp {0..<p} emb G"
  proof (intro sqrt_field.intro fgmp sqrt_field_axioms.intro two_neq_0)
    fix a b
    assume ab: "a \<in> {0..<p}" "b \<in> {0..<p}" "element_is_sqr Fp a = 0" "element_is_sqr Fp b = 0"
    then have "\<And>y. y \<in> {0..<p} \<Longrightarrow> emb y * emb y \<noteq> emb a" "\<And>y. y \<in> {0..<p} \<Longrightarrow> emb y * emb y \<noteq> emb b"
      using sqr [OF ab(1)] sqr [OF ab(2)] ab(3,4) by blast+
    then show "\<exists>y\<in>{0..<p}. emb y * emb y = emb a * emb b"
      by (rule field_gmp.nonsquares_mult [OF fgmp order odd finite_image two_neq_0 ab(1,2)])
  qed (use sqr sqrt in blast)+
qed

lemma nonresidue_7: "zp_is_sqr gmp_ref 7 6 = 0" "zp_is_sqr gmp_ref 7 3 = 0"
  by code_simp+

interpretation fp7s: fp_sqrt_env gmp_ref 7 "of_int :: int \<Rightarrow> 7" 3
  by unfold_locales (simp_all add: nonresidue_7)

end
