(* ===== verification/Gauss.thy ===== *)
theory Gauss
  imports Prelude
begin

text \<open>
  The ring obtained from a commutative ring by adjoining a square root of \<open>- 1\<close>: the
  abstract values of the extension that \<open>field_init_fi\<close> builds, and a ring in which
  residues have square roots that the base field lacks.
\<close>

datatype 'k gauss = Gauss (re_part: 'k) (im_part: 'k)

instantiation gauss :: (comm_ring_1) comm_ring_1
begin

definition zero_gauss :: "'a gauss" where "0 = Gauss 0 0"
definition one_gauss :: "'a gauss" where "1 = Gauss 1 0"
definition plus_gauss :: "'a gauss \<Rightarrow> 'a gauss \<Rightarrow> 'a gauss" where
  "x + y = Gauss (re_part x + re_part y) (im_part x + im_part y)"
definition minus_gauss :: "'a gauss \<Rightarrow> 'a gauss \<Rightarrow> 'a gauss" where
  "x - y = Gauss (re_part x - re_part y) (im_part x - im_part y)"
definition uminus_gauss :: "'a gauss \<Rightarrow> 'a gauss" where
  "- x = Gauss (- re_part x) (- im_part x)"
definition times_gauss :: "'a gauss \<Rightarrow> 'a gauss \<Rightarrow> 'a gauss" where
  "x * y = Gauss (re_part x * re_part y - im_part x * im_part y)
     (re_part x * im_part y + im_part x * re_part y)"

instance
  by standard
     (simp_all add: zero_gauss_def one_gauss_def plus_gauss_def minus_gauss_def uminus_gauss_def
        times_gauss_def algebra_simps gauss.expand)

end

lemma gauss_parts [simp]:
  "re_part 0 = 0" "im_part 0 = 0" "re_part 1 = 1" "im_part 1 = 0"
  "re_part (x + y) = re_part x + re_part y" "im_part (x + y) = im_part x + im_part y"
  "re_part (x - y) = re_part x - re_part y" "im_part (x - y) = im_part x - im_part y"
  "re_part (- x) = - re_part x" "im_part (- x) = - im_part x"
  "re_part (x * y) = re_part x * re_part y - im_part x * im_part y"
  "im_part (x * y) = re_part x * im_part y + im_part x * re_part y"
  by (simp_all add: zero_gauss_def one_gauss_def plus_gauss_def minus_gauss_def uminus_gauss_def
      times_gauss_def)

lemma gauss_of_nat [simp]: "re_part (of_nat n) = of_nat n" "im_part (of_nat n) = 0"
  by (induction n) simp_all

lemma gauss_of_int [simp]: "re_part (of_int i) = of_int i" "im_part (of_int i) = 0"
  by (cases i rule: int_diff_cases; simp)+

lemma gauss_numeral [simp]: "re_part (numeral n) = numeral n" "im_part (numeral n) = 0"
  using gauss_of_nat [of "numeral n"] by simp_all

lemma gauss_eq_iff: "x = y \<longleftrightarrow> re_part x = re_part y \<and> im_part x = im_part y"
  by (auto intro: gauss.expand)

lemma gauss_i: "Gauss 0 1 * Gauss 0 1 = - 1"
  by (simp add: gauss_eq_iff)

lemma gauss_of_int_eq_0: "of_int i = (0::'k::comm_ring_1 gauss) \<longleftrightarrow> of_int i = (0::'k)"
  by (simp add: gauss_eq_iff)

end
