(* ===== verification/Quadratic.thy ===== *)
theory Quadratic
  imports SqrtField Gauss
begin

text \<open>
  The quadratic extensions of \<^verbatim>\<open>arith/fieldquadratic.c\<close>: \<open>field_init_quadratic\<close>
  adjoins a square root of the nonresidue stored in the base field, \<open>field_init_fi\<close> a
  square root of \<open>- 1\<close>. The base field is the argument \<open>B\<close>; an element is a pair. No
  operation reads an argument after it has written the same component of its result, so that
  the destination may be one of the arguments.
\<close>

section \<open>The operations\<close>

record 'a fq_data =
  fq_x :: 'a
  fq_y :: 'a

definition fq_nqr :: "'a field_s \<Rightarrow> 'a" where
  "fq_nqr B = (case f_nqr B of Some g \<Rightarrow> g | None \<Rightarrow> undefined)"

definition fi_re :: "'a fq_data \<Rightarrow> 'a" where
  "fi_re a = fq_x a"

definition fi_im :: "'a fq_data \<Rightarrow> 'a" where
  "fi_im a = fq_y a"

definition fq_init :: "'a field_s \<Rightarrow> 'a fq_data" where
  "fq_init B = \<lparr> fq_x = element_init B, fq_y = element_init B \<rparr>"

definition fq_set_si :: "'a field_s \<Rightarrow> 'a fq_data \<Rightarrow> int \<Rightarrow> 'a fq_data" where
  "fq_set_si B e i = \<lparr> fq_x = element_set_si B (fq_x e) i, fq_y = element_set0 B (fq_y e) \<rparr>"

definition fq_set_mpz :: "'a field_s \<Rightarrow> 'a fq_data \<Rightarrow> int \<Rightarrow> 'a fq_data" where
  "fq_set_mpz B e z = \<lparr> fq_x = element_set_mpz B (fq_x e) z, fq_y = element_set0 B (fq_y e) \<rparr>"

definition fq_to_mpz :: "'a field_s \<Rightarrow> 'a fq_data \<Rightarrow> int" where
  "fq_to_mpz B e = element_to_mpz B (fq_x e)"

definition fq_set0 :: "'a field_s \<Rightarrow> 'a fq_data \<Rightarrow> 'a fq_data" where
  "fq_set0 B e = \<lparr> fq_x = element_set0 B (fq_x e), fq_y = element_set0 B (fq_y e) \<rparr>"

definition fq_set1 :: "'a field_s \<Rightarrow> 'a fq_data \<Rightarrow> 'a fq_data" where
  "fq_set1 B e = \<lparr> fq_x = element_set1 B (fq_x e), fq_y = element_set0 B (fq_y e) \<rparr>"

definition fq_is0 :: "'a field_s \<Rightarrow> 'a fq_data \<Rightarrow> int" where
  "fq_is0 B e = (if element_is0 B (fq_x e) \<noteq> 0 \<and> element_is0 B (fq_y e) \<noteq> 0 then 1 else 0)"

definition fq_is1 :: "'a field_s \<Rightarrow> 'a fq_data \<Rightarrow> int" where
  "fq_is1 B e = (if element_is1 B (fq_x e) \<noteq> 0 \<and> element_is0 B (fq_y e) \<noteq> 0 then 1 else 0)"

definition fq_sign :: "'a field_s \<Rightarrow> 'a fq_data \<Rightarrow> int" where
  "fq_sign B n = (
     let res = element_sign B (fq_x n)
     in if res = 0 then element_sign B (fq_y n) else res)"

definition fq_add :: "'a field_s \<Rightarrow> 'a fq_data \<Rightarrow> 'a fq_data \<Rightarrow> 'a fq_data \<Rightarrow> 'a fq_data" where
  "fq_add B n a b = \<lparr> fq_x = element_add B (fq_x n) (fq_x a) (fq_x b),
     fq_y = element_add B (fq_y n) (fq_y a) (fq_y b) \<rparr>"

definition fq_double :: "'a field_s \<Rightarrow> 'a fq_data \<Rightarrow> 'a fq_data \<Rightarrow> 'a fq_data" where
  "fq_double B n a = \<lparr> fq_x = element_double B (fq_x n) (fq_x a),
     fq_y = element_double B (fq_y n) (fq_y a) \<rparr>"

definition fq_sub :: "'a field_s \<Rightarrow> 'a fq_data \<Rightarrow> 'a fq_data \<Rightarrow> 'a fq_data \<Rightarrow> 'a fq_data" where
  "fq_sub B n a b = \<lparr> fq_x = element_sub B (fq_x n) (fq_x a) (fq_x b),
     fq_y = element_sub B (fq_y n) (fq_y a) (fq_y b) \<rparr>"

definition fq_set :: "'a field_s \<Rightarrow> 'a fq_data \<Rightarrow> 'a fq_data \<Rightarrow> 'a fq_data" where
  "fq_set B n a = \<lparr> fq_x = element_set B (fq_x n) (fq_x a), fq_y = element_set B (fq_y n) (fq_y a) \<rparr>"

text \<open>Karatsuba multiplication.\<close>

definition fq_mul :: "'a field_s \<Rightarrow> 'a fq_data \<Rightarrow> 'a fq_data \<Rightarrow> 'a fq_data \<Rightarrow> 'a fq_data" where
  "fq_mul B n a b = (
     let nqr = fq_nqr B;
         e0 = element_init B;
         e1 = element_init B;
         e2 = element_init B;
         e0 = element_add B e0 (fq_x a) (fq_y a);
         e1 = element_add B e1 (fq_x b) (fq_y b);
         e2 = element_mul B e2 e0 e1;
         e0 = element_mul B e0 (fq_x a) (fq_x b);
         e1 = element_mul B e1 (fq_y a) (fq_y b);
         rx = element_mul B (fq_x n) e1 nqr;
         rx = element_add B rx rx e0;
         e2 = element_sub B e2 e2 e0;
         ry = element_sub B (fq_y n) e2 e1
     in \<lparr> fq_x = rx, fq_y = ry \<rparr>)"

definition fq_mul_mpz :: "'a field_s \<Rightarrow> 'a fq_data \<Rightarrow> 'a fq_data \<Rightarrow> int \<Rightarrow> 'a fq_data" where
  "fq_mul_mpz B n a z = \<lparr> fq_x = element_mul_mpz B (fq_x n) (fq_x a) z,
     fq_y = element_mul_mpz B (fq_y n) (fq_y a) z \<rparr>"

definition fq_mul_si :: "'a field_s \<Rightarrow> 'a fq_data \<Rightarrow> 'a fq_data \<Rightarrow> int \<Rightarrow> 'a fq_data" where
  "fq_mul_si B n a z = \<lparr> fq_x = element_mul_si B (fq_x n) (fq_x a) z,
     fq_y = element_mul_si B (fq_y n) (fq_y a) z \<rparr>"

definition fq_square :: "'a field_s \<Rightarrow> 'a fq_data \<Rightarrow> 'a fq_data \<Rightarrow> 'a fq_data" where
  "fq_square B n a = (
     let nqr = fq_nqr B;
         e0 = element_init B;
         e1 = element_init B;
         e0 = element_square B e0 (fq_x a);
         e1 = element_square B e1 (fq_y a);
         e1 = element_mul B e1 e1 nqr;
         e0 = element_add B e0 e0 e1;
         e1 = element_mul B e1 (fq_x a) (fq_y a);
         e1 = element_double B e1 e1
     in \<lparr> fq_x = element_set B (fq_x n) e0, fq_y = element_set B (fq_y n) e1 \<rparr>)"

definition fq_neg :: "'a field_s \<Rightarrow> 'a fq_data \<Rightarrow> 'a fq_data \<Rightarrow> 'a fq_data" where
  "fq_neg B n a = \<lparr> fq_x = element_neg B (fq_x n) (fq_x a), fq_y = element_neg B (fq_y n) (fq_y a) \<rparr>"

definition fq_random :: "'a field_s \<Rightarrow> entropy \<Rightarrow> nat \<Rightarrow> 'a fq_data \<Rightarrow> 'a fq_data \<times> nat" where
  "fq_random B R i e = (
     let (x, i) = element_random B R i (fq_x e);
         (y, i) = element_random B R i (fq_y e)
     in (\<lparr> fq_x = x, fq_y = y \<rparr>, i))"

definition fq_cmp :: "'a field_s \<Rightarrow> 'a fq_data \<Rightarrow> 'a fq_data \<Rightarrow> int" where
  "fq_cmp B a b = (
     if element_cmp B (fq_x a) (fq_x b) \<noteq> 0 \<or> element_cmp B (fq_y a) (fq_y b) \<noteq> 0 then 1 else 0)"

definition fq_invert :: "'a field_s \<Rightarrow> 'a fq_data \<Rightarrow> 'a fq_data \<Rightarrow> 'a fq_data" where
  "fq_invert B n a = (
     let nqr = fq_nqr B;
         e0 = element_init B;
         e1 = element_init B;
         e0 = element_square B e0 (fq_x a);
         e1 = element_square B e1 (fq_y a);
         e1 = element_mul B e1 e1 nqr;
         e0 = element_sub B e0 e0 e1;
         e0 = element_invert B e0 e0;
         rx = element_mul B (fq_x n) (fq_x a) e0;
         e0 = element_neg B e0 e0;
         ry = element_mul B (fq_y n) (fq_y a) e0
     in \<lparr> fq_x = rx, fq_y = ry \<rparr>)"

definition fq_from_hash :: "'a field_s \<Rightarrow> 'a fq_data \<Rightarrow> byte list \<Rightarrow> 'a fq_data option" where
  "fq_from_hash B n data = (
     let k = length data div 2 in
     case element_from_hash B (fq_x n) (take k data) of
       None \<Rightarrow> None
     | Some x \<Rightarrow>
         map_option (\<lambda>y. \<lparr> fq_x = x, fq_y = y \<rparr>) (element_from_hash B (fq_y n) (drop k data)))"

definition fq_length_in_bytes :: "'a field_s \<Rightarrow> 'a fq_data \<Rightarrow> int" where
  "fq_length_in_bytes B e = element_length_in_bytes B (fq_x e) + element_length_in_bytes B (fq_y e)"

definition fq_to_bytes :: "'a field_s \<Rightarrow> 'a fq_data \<Rightarrow> byte list" where
  "fq_to_bytes B e = element_to_bytes B (fq_x e) @ element_to_bytes B (fq_y e)"

definition fq_from_bytes :: "'a field_s \<Rightarrow> 'a fq_data \<Rightarrow> byte list \<Rightarrow> 'a fq_data \<times> nat" where
  "fq_from_bytes B e data = (
     let (x, len) = element_from_bytes B (fq_x e) data;
         (y, len2) = element_from_bytes B (fq_y e) (drop len data)
     in (\<lparr> fq_x = x, fq_y = y \<rparr>, len + len2))"

definition fq_is_sqr :: "'a field_s \<Rightarrow> 'a fq_data \<Rightarrow> int" where
  "fq_is_sqr B e = (
     let nqr = fq_nqr B;
         e0 = element_init B;
         e1 = element_init B;
         e0 = element_square B e0 (fq_x e);
         e1 = element_square B e1 (fq_y e);
         e1 = element_mul B e1 e1 nqr;
         e0 = element_sub B e0 e0 e1
     in element_is_sqr B e0)"

text \<open>
  The part \<open>fq_sqrt\<close> and \<open>fi_sqrt\<close> have in common, once \<open>e0\<close> is the norm: its
  root \<open>A\<close>, then \<open>(x + A) / 2\<close> or \<open>(x - A) / 2\<close>, whichever is a square.
\<close>

definition fq_sqrt_of_norm ::
  "'a field_s \<Rightarrow> 'a fq_data \<Rightarrow> 'a fq_data \<Rightarrow> 'a \<Rightarrow> 'a \<Rightarrow> 'a \<Rightarrow> 'a fq_data" where
  "fq_sqrt_of_norm B n e e0 e1 e2 = (
     let e0 = element_sqrt B e0 e0;
         e1 = element_add B e1 (fq_x e) e0;
         e2 = element_set_si B e2 2;
         e2 = element_invert B e2 e2;
         e1 = element_mul B e1 e1 e2;
         e1 = (if element_is_sqr B e1 = 0 then element_sub B e1 e1 e0 else e1);
         e0 = element_sqrt B e0 e1;
         e1 = element_add B e1 e0 e0;
         e1 = element_invert B e1 e1;
         ry = element_mul B (fq_y n) (fq_y e) e1;
         rx = element_set B (fq_x n) e0
     in \<lparr> fq_x = rx, fq_y = ry \<rparr>)"

definition fq_sqrt :: "'a field_s \<Rightarrow> 'a fq_data \<Rightarrow> 'a fq_data \<Rightarrow> 'a fq_data" where
  "fq_sqrt B n e = (
     let nqr = fq_nqr B;
         e0 = element_init B;
         e1 = element_init B;
         e2 = element_init B;
         e0 = element_square B e0 (fq_x e);
         e1 = element_square B e1 (fq_y e);
         e1 = element_mul B e1 e1 nqr;
         e0 = element_sub B e0 e0 e1
     in fq_sqrt_of_norm B n e e0 e1 e2)"

text \<open>The table; \<open>div\<close>, \<open>halve\<close>, \<open>pow_mpz\<close> stay generic.\<close>

definition field_init_quadratic :: "gmp \<Rightarrow> 'a field_s \<Rightarrow> 'a fq_data field_s" where
  "field_init_quadratic G B = field_init\<lparr>
     f_init := fq_init B,
     f_set_si := Some (fq_set_si B),
     f_set_mpz := Some (fq_set_mpz B),
     f_to_mpz := Some (fq_to_mpz B),
     f_sign := fq_sign B,
     f_add := fq_add B,
     f_sub := Some (fq_sub B),
     f_set := fq_set B,
     f_mul := fq_mul B,
     f_mul_mpz := Some (fq_mul_mpz B),
     f_mul_si := Some (fq_mul_si B),
     f_square := Some (fq_square B),
     f_doub := Some (fq_double B),
     f_neg := fq_neg B,
     f_cmp := Some (fq_cmp B),
     f_invert := fq_invert B,
     f_random := Some (fq_random B),
     f_from_hash := fq_from_hash B,
     f_is1 := Some (fq_is1 B),
     f_is0 := Some (fq_is0 B),
     f_set0 := fq_set0 B,
     f_set1 := fq_set1 B,
     f_is_sqr := fq_is_sqr B,
     f_sqrt := (\<lambda>nqr. fq_sqrt B),
     f_to_bytes := fq_to_bytes B,
     f_from_bytes := fq_from_bytes B,
     f_order := mpz_mul G (f_order B) (f_order B),
     f_length_in_bytes := (if f_fixed_length B < 0 then fq_length_in_bytes B else undefined),
     f_fixed_length := (if f_fixed_length B < 0 then - 1 else 2 * f_fixed_length B) \<rparr>"

definition element_field_to_quadratic :: "'a field_s \<Rightarrow> 'a fq_data \<Rightarrow> 'a \<Rightarrow> 'a fq_data" where
  "element_field_to_quadratic B r a =
     \<lparr> fq_x = element_set B (fq_x r) a, fq_y = element_set0 B (fq_y r) \<rparr>"

section \<open>Adjoining a square root of minus one\<close>

definition fi_mul :: "'a field_s \<Rightarrow> 'a fq_data \<Rightarrow> 'a fq_data \<Rightarrow> 'a fq_data \<Rightarrow> 'a fq_data" where
  "fi_mul B n a b = (
     let e0 = element_init B;
         e1 = element_init B;
         e2 = element_init B;
         e0 = element_add B e0 (fq_x a) (fq_y a);
         e1 = element_add B e1 (fq_x b) (fq_y b);
         e2 = element_mul B e2 e0 e1;
         e0 = element_mul B e0 (fq_x a) (fq_x b);
         e2 = element_sub B e2 e2 e0;
         e1 = element_mul B e1 (fq_y a) (fq_y b);
         rx = element_sub B (fq_x n) e0 e1;
         ry = element_sub B (fq_y n) e2 e1
     in \<lparr> fq_x = rx, fq_y = ry \<rparr>)"

definition fi_square :: "'a field_s \<Rightarrow> 'a fq_data \<Rightarrow> 'a fq_data \<Rightarrow> 'a fq_data" where
  "fi_square B n a = (
     let e0 = element_init B;
         e1 = element_init B;
         e0 = element_add B e0 (fq_x a) (fq_y a);
         e1 = element_sub B e1 (fq_x a) (fq_y a);
         e0 = element_mul B e0 e0 e1;
         e1 = element_mul B e1 (fq_x a) (fq_y a);
         e1 = element_add B e1 e1 e1
     in \<lparr> fq_x = element_set B (fq_x n) e0, fq_y = element_set B (fq_y n) e1 \<rparr>)"

definition fi_invert :: "'a field_s \<Rightarrow> 'a fq_data \<Rightarrow> 'a fq_data \<Rightarrow> 'a fq_data" where
  "fi_invert B n a = (
     let e0 = element_init B;
         e1 = element_init B;
         e0 = element_square B e0 (fq_x a);
         e1 = element_square B e1 (fq_y a);
         e0 = element_add B e0 e0 e1;
         e0 = element_invert B e0 e0;
         rx = element_mul B (fq_x n) (fq_x a) e0;
         e0 = element_neg B e0 e0;
         ry = element_mul B (fq_y n) (fq_y a) e0
     in \<lparr> fq_x = rx, fq_y = ry \<rparr>)"

definition fi_is_sqr :: "'a field_s \<Rightarrow> 'a fq_data \<Rightarrow> int" where
  "fi_is_sqr B e = (
     let e0 = element_init B;
         e1 = element_init B;
         e0 = element_square B e0 (fq_x e);
         e1 = element_square B e1 (fq_y e);
         e0 = element_add B e0 e0 e1
     in element_is_sqr B e0)"

definition fi_sqrt :: "'a field_s \<Rightarrow> 'a fq_data \<Rightarrow> 'a fq_data \<Rightarrow> 'a fq_data" where
  "fi_sqrt B n e = (
     let e0 = element_init B;
         e1 = element_init B;
         e2 = element_init B;
         e0 = element_square B e0 (fq_x e);
         e1 = element_square B e1 (fq_y e);
         e0 = element_add B e0 e0 e1
     in fq_sqrt_of_norm B n e e0 e1 e2)"

definition field_init_fi :: "gmp \<Rightarrow> 'a field_s \<Rightarrow> 'a fq_data field_s" where
  "field_init_fi G B = field_init\<lparr>
     f_init := fq_init B,
     f_set_si := Some (fq_set_si B),
     f_set_mpz := Some (fq_set_mpz B),
     f_to_mpz := Some (fq_to_mpz B),
     f_sign := fq_sign B,
     f_add := fq_add B,
     f_sub := Some (fq_sub B),
     f_set := fq_set B,
     f_mul := fi_mul B,
     f_mul_mpz := Some (fq_mul_mpz B),
     f_mul_si := Some (fq_mul_si B),
     f_square := Some (fi_square B),
     f_doub := Some (fq_double B),
     f_neg := fq_neg B,
     f_cmp := Some (fq_cmp B),
     f_invert := fi_invert B,
     f_random := Some (fq_random B),
     f_from_hash := fq_from_hash B,
     f_is1 := Some (fq_is1 B),
     f_is0 := Some (fq_is0 B),
     f_set0 := fq_set0 B,
     f_set1 := fq_set1 B,
     f_is_sqr := fi_is_sqr B,
     f_sqrt := (\<lambda>nqr. fi_sqrt B),
     f_to_bytes := fq_to_bytes B,
     f_from_bytes := fq_from_bytes B,
     f_order := mpz_mul G (f_order B) (f_order B),
     f_length_in_bytes := (if f_fixed_length B < 0 then fq_length_in_bytes B else undefined),
     f_fixed_length := (if f_fixed_length B < 0 then - 1 else 2 * f_fixed_length B) \<rparr>"

definition element_field_to_fi :: "'a field_s \<Rightarrow> 'a fq_data \<Rightarrow> 'a \<Rightarrow> 'a fq_data" where
  "element_field_to_fi B a b =
     \<lparr> fq_x = element_set B (fq_x a) b, fq_y = element_set0 B (fq_y a) \<rparr>"

section \<open>Printing and parsing\<close>

text \<open>
  \<open>fq_snprint\<close> over the printer \<open>snp\<close> of the base field, which returns the text written
  and a status; a negative status is returned at once. \<open>clip_sub\<close> adds the status to the
  count and recomputes what is left of the buffer.
\<close>

definition clip_sub :: "nat \<Rightarrow> nat \<Rightarrow> int \<Rightarrow> nat \<times> nat" where
  "clip_sub n result status = (
     let result = result + nat status
     in (result, if result \<ge> n then 0 else n - result))"

definition fq_snprint :: "(nat \<Rightarrow> 'a \<Rightarrow> string \<times> int) \<Rightarrow> nat \<Rightarrow> 'a fq_data \<Rightarrow> string \<times> int" where
  "fq_snprint snp n e = (
     let (s1, status) = c_snprintf n ''['' in
     if status < 0 then (s1, status) else
     let (result, left) = clip_sub n 0 status;
         (s2, status) = snp left (fq_x e) in
     if status < 0 then (s1 @ s2, status) else
     let (result, left) = clip_sub n result status;
         (s3, status) = c_snprintf left '', '' in
     if status < 0 then (s1 @ s2 @ s3, status) else
     let (result, left) = clip_sub n result status;
         (s4, status) = snp left (fq_y e) in
     if status < 0 then (s1 @ s2 @ s3 @ s4, status) else
     let (result, left) = clip_sub n result status;
         (s5, status) = c_snprintf left '']'' in
     if status < 0 then (s1 @ s2 @ s3 @ s4 @ s5, status)
     else (s1 @ s2 @ s3 @ s4 @ s5, int result + status))"

text \<open>
  \<open>fq_set_str\<close> over the parser \<open>sst\<close> of the base field; the result is the element and
  the count of characters read, 0 when the text is not well formed.
\<close>

definition fq_set_str ::
  "'a field_s \<Rightarrow> ('a \<Rightarrow> string \<Rightarrow> 'a \<times> nat) \<Rightarrow> 'a fq_data \<Rightarrow> string \<Rightarrow> 'a fq_data \<times> nat" where
  "fq_set_str B sst e s = (
     let e = fq_set0 B e;
         cp = skip_space s
     in case cp of [] \<Rightarrow> (e, 0) | c # cp \<Rightarrow>
       if c \<noteq> CHR ''['' then (e, 0) else
       let (x, k) = sst (fq_x e) cp;
           e = e\<lparr> fq_x := x \<rparr>;
           cp = skip_space (drop k cp)
       in case cp of [] \<Rightarrow> (e, 0) | c # cp \<Rightarrow>
         if c \<noteq> CHR '','' then (e, 0) else
         let (y, k) = sst (fq_y e) cp;
             e = e\<lparr> fq_y := y \<rparr>;
             cp = drop k cp
         in case cp of [] \<Rightarrow> (e, 0) | c # cp \<Rightarrow>
           if c \<noteq> CHR '']'' then (e, 0) else (e, length s - length cp))"

end
