(* ===== verification/QuadraticCorrect.thy ===== *)
theory QuadraticCorrect
  imports Quadratic
begin

text \<open>
  Correctness of the quadratic extensions. The extension by the stored nonresidue \<open>g\<close> is
  described in a ring that contains a square root \<open>\<theta>\<close> of \<open>g\<close>: the pair \<open>(x, y)\<close> stands
  for \<open>x + y \<theta>\<close>. The extension of \<open>field_init_fi\<close> is described in the ring \<open>gauss\<close>.
\<close>

section \<open>The extension as a ring\<close>

definition fq_pairs :: "'a set \<Rightarrow> 'a fq_data set" where
  "fq_pairs V = {e. fq_x e \<in> V \<and> fq_y e \<in> V}"

lemma fq_pairs_iff [simp]: "e \<in> fq_pairs V \<longleftrightarrow> fq_x e \<in> V \<and> fq_y e \<in> V"
  by (simp add: fq_pairs_def)

lemmas fq_linear = fq_init_def fq_set_si_def fq_set_mpz_def fq_set0_def fq_set1_def
  fq_add_def fq_double_def fq_sub_def fq_set_def fq_mul_mpz_def fq_mul_si_def fq_neg_def

text \<open>What the dispatchers run for an element of an extension.\<close>

lemma quadratic_table [simp]:
  "element_init (field_init_quadratic G B) = fq_init B"
  "element_set (field_init_quadratic G B) = fq_set B"
  "element_set0 (field_init_quadratic G B) = fq_set0 B"
  "element_set1 (field_init_quadratic G B) = fq_set1 B"
  "element_set_si (field_init_quadratic G B) = fq_set_si B"
  "element_set_mpz (field_init_quadratic G B) = fq_set_mpz B"
  "element_add (field_init_quadratic G B) = fq_add B"
  "element_sub (field_init_quadratic G B) = fq_sub B"
  "element_mul (field_init_quadratic G B) = fq_mul B"
  "element_mul_si (field_init_quadratic G B) = fq_mul_si B"
  "element_mul_mpz (field_init_quadratic G B) = fq_mul_mpz B"
  "element_square (field_init_quadratic G B) = fq_square B"
  "element_double (field_init_quadratic G B) = fq_double B"
  "element_neg (field_init_quadratic G B) = fq_neg B"
  "element_invert (field_init_quadratic G B) = fq_invert B"
  "element_cmp (field_init_quadratic G B) = fq_cmp B"
  "element_is0 (field_init_quadratic G B) = fq_is0 B"
  "element_is1 (field_init_quadratic G B) = fq_is1 B"
  "element_is_sqr (field_init_quadratic G B) = fq_is_sqr B"
  "element_sqrt (field_init_quadratic G B) = fq_sqrt B"
  "element_to_bytes (field_init_quadratic G B) = fq_to_bytes B"
  "element_from_bytes (field_init_quadratic G B) = fq_from_bytes B"
  "f_pow_mpz (field_init_quadratic G B) = None"
  "f_order (field_init_quadratic G B) = mpz_mul G (f_order B) (f_order B)"
  by (simp_all add: fun_eq_iff field_init_quadratic_def field_init_def dispatch)

lemma fi_table [simp]:
  "element_init (field_init_fi G B) = fq_init B"
  "element_set (field_init_fi G B) = fq_set B"
  "element_set0 (field_init_fi G B) = fq_set0 B"
  "element_set1 (field_init_fi G B) = fq_set1 B"
  "element_set_si (field_init_fi G B) = fq_set_si B"
  "element_set_mpz (field_init_fi G B) = fq_set_mpz B"
  "element_add (field_init_fi G B) = fq_add B"
  "element_sub (field_init_fi G B) = fq_sub B"
  "element_mul (field_init_fi G B) = fi_mul B"
  "element_mul_si (field_init_fi G B) = fq_mul_si B"
  "element_mul_mpz (field_init_fi G B) = fq_mul_mpz B"
  "element_square (field_init_fi G B) = fi_square B"
  "element_double (field_init_fi G B) = fq_double B"
  "element_neg (field_init_fi G B) = fq_neg B"
  "element_invert (field_init_fi G B) = fi_invert B"
  "element_cmp (field_init_fi G B) = fq_cmp B"
  "element_is0 (field_init_fi G B) = fq_is0 B"
  "element_is1 (field_init_fi G B) = fq_is1 B"
  "element_is_sqr (field_init_fi G B) = fi_is_sqr B"
  "element_sqrt (field_init_fi G B) = fi_sqrt B"
  "f_pow_mpz (field_init_fi G B) = None"
  by (simp_all add: fun_eq_iff field_init_fi_def field_init_def dispatch)

text \<open>The value \<open>x + y \<theta>\<close> of a pair.\<close>

definition quad_val :: "('a \<Rightarrow> 'k::comm_ring_1) \<Rightarrow> 'k \<Rightarrow> 'a fq_data \<Rightarrow> 'k" where
  "quad_val \<alpha> \<theta> e = \<alpha> (fq_x e) + \<alpha> (fq_y e) * \<theta>"

locale quadratic_ring = ring_impl B V \<alpha>
  for B :: "'a field_s" and V :: "'a set" and \<alpha> :: "'a \<Rightarrow> 'k::comm_ring_1" +
  fixes G :: gmp and g :: 'a and \<theta> :: 'k
  assumes nqr: "f_nqr B = Some g" and g_in: "g \<in> V"
    and \<theta>: "\<theta> * \<theta> = \<alpha> g"
    and indep: "x \<in> V \<Longrightarrow> y \<in> V \<Longrightarrow> \<alpha> x + \<alpha> y * \<theta> = 0 \<Longrightarrow> \<alpha> x = 0 \<and> \<alpha> y = 0"
begin

abbreviation fq_val :: "'a fq_data \<Rightarrow> 'k" where
  "fq_val \<equiv> quad_val \<alpha> \<theta>"

lemma nqr_eq: "fq_nqr B = g"
  by (simp add: fq_nqr_def nqr)

lemma fq_mul_ok:
  assumes "n \<in> fq_pairs V" "a \<in> fq_pairs V" "b \<in> fq_pairs V"
  shows "fq_mul B n a b \<in> fq_pairs V" and "fq_val (fq_mul B n a b) = fq_val a * fq_val b"
  using assms g_in
  by (simp_all add: fq_mul_def nqr_eq Let_def quad_val_def impl_law \<theta> [symmetric] algebra_simps)

lemma fq_square_ok:
  assumes "n \<in> fq_pairs V" "a \<in> fq_pairs V"
  shows "fq_square B n a \<in> fq_pairs V" and "fq_val (fq_square B n a) = fq_val a * fq_val a"
  using assms g_in
  by (simp_all add: fq_square_def nqr_eq Let_def quad_val_def impl_law \<theta> [symmetric] algebra_simps)

lemma fq_val_eq_iff:
  assumes "a \<in> fq_pairs V" "b \<in> fq_pairs V"
  shows "fq_val a = fq_val b \<longleftrightarrow> \<alpha> (fq_x a) = \<alpha> (fq_x b) \<and> \<alpha> (fq_y a) = \<alpha> (fq_y b)"
proof
  let ?x = "element_sub B (fq_x a) (fq_x a) (fq_x b)" and ?y = "element_sub B (fq_x a) (fq_y a) (fq_y b)"
  assume "fq_val a = fq_val b"
  then have "\<alpha> ?x + \<alpha> ?y * \<theta> = 0"
    using assms by (simp add: impl_law quad_val_def algebra_simps)
  from indep [OF _ _ this] show "\<alpha> (fq_x a) = \<alpha> (fq_x b) \<and> \<alpha> (fq_y a) = \<alpha> (fq_y b)"
    using assms by (simp add: impl_law)
qed (simp add: quad_val_def)

end

sublocale quadratic_ring \<subseteq> fq: ring_impl "field_init_quadratic G B" "fq_pairs V" fq_val
proof -
  have is0: "fq_is0 B a = 0 \<longleftrightarrow> fq_val a \<noteq> 0" if "a \<in> fq_pairs V" for a
    using fq_val_eq_iff [OF that, of "fq_init B"] that
    by (auto simp: fq_is0_def fq_init_def impl_law quad_val_def)
  have is1: "fq_is1 B a = 0 \<longleftrightarrow> fq_val a \<noteq> 1" if "a \<in> fq_pairs V" for a
    using fq_val_eq_iff [OF that, of "fq_set1 B (fq_init B)"] that
    by (auto simp: fq_is1_def fq_set1_def fq_init_def impl_law quad_val_def)
  have cmp: "fq_cmp B a b = 0 \<longleftrightarrow> fq_val a = fq_val b" if "a \<in> fq_pairs V" "b \<in> fq_pairs V" for a b
    using fq_val_eq_iff [OF that] that by (auto simp: fq_cmp_def impl_law)
  show "ring_impl (field_init_quadratic G B) (fq_pairs V) fq_val"
    by unfold_locales
      (simp_all add: fq_mul_ok fq_square_ok is0 is1 cmp del: fq_pairs_iff,
       simp_all add: fq_linear quad_val_def impl_law algebra_simps)
qed

section \<open>The extension as a field\<close>

text \<open>
  When \<open>\<gamma>\<close> is no square in the base field, a pair whose norm \<open>x^2 - \<gamma> y^2\<close> vanishes is zero.
\<close>

context field_impl
begin

lemma cancel_nonzero:
  assumes "y \<in> V" "\<alpha> y \<noteq> 0" "\<alpha> y * u = \<alpha> y * v"
  shows "u = v"
proof -
  have "\<alpha> y * \<alpha> (element_invert F y y) = 1" using assms by (simp add: impl_law)
  then show ?thesis using assms(3) by (metis mult.assoc mult.commute mult.left_neutral)
qed

lemma norm_nonzero:
  assumes "x \<in> V" "y \<in> V" "\<And>z. z \<in> V \<Longrightarrow> \<alpha> z * \<alpha> z \<noteq> \<gamma>"
    and "\<alpha> x * \<alpha> x = \<alpha> y * \<alpha> y * \<gamma>"
  shows "\<alpha> x = 0 \<and> \<alpha> y = 0"
proof (cases "\<alpha> y = 0")
  case True
  then have "\<alpha> x * \<alpha> x = 0" using assms(4) by simp
  then show ?thesis using no_zero_divisors assms(1) True by blast
next
  case False
  let ?i = "element_invert F y y"
  have i: "?i \<in> V" "\<alpha> y * \<alpha> ?i = 1" using assms False by (simp_all add: impl_law)
  let ?z = "element_mul F x x ?i"
  have z: "?z \<in> V" "\<alpha> ?z = \<alpha> x * \<alpha> ?i" using assms i by (simp_all add: impl_law)
  have "\<alpha> ?z * \<alpha> ?z = (\<alpha> x * \<alpha> x) * (\<alpha> ?i * \<alpha> ?i)" by (simp add: z ac_simps)
  also have "\<dots> = (\<alpha> y * \<alpha> ?i) * (\<alpha> y * \<alpha> ?i) * \<gamma>" by (simp add: assms(4) ac_simps)
  also have "\<dots> = \<gamma>" by (simp add: i)
  finally show ?thesis using assms(3) [OF z(1)] by simp
qed

end

locale quadratic_field = field_gmp B V \<alpha> G
  for B :: "'a field_s" and V :: "'a set" and \<alpha> :: "'a \<Rightarrow> 'k::comm_ring_1" and G :: gmp +
  fixes g :: 'a and \<theta> :: 'k
  assumes nqr_f: "f_nqr B = Some g" and g_in_f: "g \<in> V"
    and theta_f: "\<theta> * \<theta> = \<alpha> g"
    and nonsquare: "z \<in> V \<Longrightarrow> \<alpha> z * \<alpha> z \<noteq> \<alpha> g"

sublocale quadratic_field \<subseteq> quadratic_ring B V \<alpha> G g \<theta>
proof unfold_locales
  fix x y
  assume xy: "x \<in> V" "y \<in> V" "\<alpha> x + \<alpha> y * \<theta> = 0"
  have "\<alpha> x * \<alpha> x - \<alpha> y * \<alpha> y * \<alpha> g = (\<alpha> x + \<alpha> y * \<theta>) * (\<alpha> x - \<alpha> y * \<theta>)"
    by (simp add: theta_f [symmetric] algebra_simps)
  then have "\<alpha> x * \<alpha> x = \<alpha> y * \<alpha> y * \<alpha> g" using xy(3) by simp
  with norm_nonzero [OF xy(1,2)] nonsquare show "\<alpha> x = 0 \<and> \<alpha> y = 0" by blast
qed (use nqr_f g_in_f theta_f in simp_all)

context quadratic_field
begin

lemma fq_invert_ok:
  assumes "n \<in> fq_pairs V" "a \<in> fq_pairs V" "fq_val a \<noteq> 0"
  shows "fq_invert B n a \<in> fq_pairs V" and "fq_val a * fq_val (fq_invert B n a) = 1"
proof -
  define N where "N = element_sub B (element_square B (element_init B) (fq_x a))
    (element_square B (element_init B) (fq_x a))
    (element_mul B (element_square B (element_init B) (fq_y a))
      (element_square B (element_init B) (fq_y a)) g)"
  have N: "N \<in> V" "\<alpha> N = \<alpha> (fq_x a) * \<alpha> (fq_x a) - \<alpha> (fq_y a) * \<alpha> (fq_y a) * \<alpha> g"
    using assms g_in by (simp_all add: N_def impl_law)
  have "\<alpha> N \<noteq> 0"
  proof
    assume "\<alpha> N = 0"
    then have "\<alpha> (fq_x a) * \<alpha> (fq_x a) = \<alpha> (fq_y a) * \<alpha> (fq_y a) * \<alpha> g" using N(2) by simp
    with norm_nonzero [of "fq_x a" "fq_y a" "\<alpha> g"] nonsquare assms(2) have "\<alpha> (fq_x a) = 0 \<and> \<alpha> (fq_y a) = 0"
      by simp
    with assms(3) show False by (simp add: quad_val_def)
  qed
  then have i: "element_invert B N N \<in> V" "\<alpha> N * \<alpha> (element_invert B N N) = 1"
    using N(1) by (simp_all add: impl_law)
  have eq: "fq_invert B n a = \<lparr> fq_x = element_mul B (fq_x n) (fq_x a) (element_invert B N N),
      fq_y = element_mul B (fq_y n) (fq_y a) (element_neg B (element_invert B N N) (element_invert B N N)) \<rparr>"
    by (simp add: fq_invert_def Let_def nqr_eq N_def)
  show "fq_invert B n a \<in> fq_pairs V" unfolding eq using assms i by simp
  have "fq_val a * fq_val (fq_invert B n a) =
      (\<alpha> (fq_x a) * \<alpha> (fq_x a) - \<alpha> (fq_y a) * \<alpha> (fq_y a) * (\<theta> * \<theta>)) * \<alpha> (element_invert B N N)"
    unfolding eq using assms i by (simp add: quad_val_def impl_law algebra_simps)
  also have "\<dots> = \<alpha> N * \<alpha> (element_invert B N N)" by (simp add: N(2) \<theta>)
  finally show "fq_val a * fq_val (fq_invert B n a) = 1" using i(2) by simp
qed

end

sublocale quadratic_field \<subseteq> fqx: field_gmp "field_init_quadratic G B" "fq_pairs V" fq_val G
proof -
  have "field_impl (field_init_quadratic G B) (fq_pairs V) fq_val"
    by unfold_locales (simp_all add: fq_invert_ok del: fq_pairs_iff)
  then show "field_gmp (field_init_quadratic G B) (fq_pairs V) fq_val G"
    by (rule field_gmp_generic_pow) (simp_all add: gmp.gmp_laws_axioms)
qed

context quadratic_field
begin

lemma arith:
  assumes "n \<in> fq_pairs V" "a \<in> fq_pairs V" "b \<in> fq_pairs V" "0 \<le> k"
  defines "F \<equiv> field_init_quadratic G B"
  shows "fq_val (element_mul F n a b) = fq_val a * fq_val b \<and>
    fq_val (element_square F n a) = fq_val a * fq_val a \<and>
    (fq_val a \<noteq> 0 \<longrightarrow> fq_val a * fq_val (element_invert F n a) = 1) \<and>
    fq_val (element_pow_mpz G F n a k) = fq_val a ^ nat k \<and>
    (element_cmp F a b = 0 \<longleftrightarrow> fq_val a = fq_val b)"
  unfolding F_def
  by (insert assms(1-4), intro conjI impI; (rule fq.mul fq.square fqx.invert fqx.pow fq.cmp; assumption))

end

section \<open>Square roots\<close>

context sqrt_field
begin

text \<open>
  The computation both square roots share, for a nonresidue \<open>\<gamma> = \<alpha> g\<close> and a norm that is
  a square: it returns \<open>(a, b)\<close> with \<open>a^2 + \<gamma> b^2 = x\<close> and \<open>2 a b = y\<close>, provided
  \<open>y\<close> is not zero.
\<close>

lemma sqrt_of_norm_ok:
  assumes n: "n \<in> fq_pairs V" and e: "e \<in> fq_pairs V" and t: "N \<in> V" "t1 \<in> V" "t2 \<in> V" and g: "g \<in> V"
    and ns: "\<And>z. z \<in> V \<Longrightarrow> \<alpha> z * \<alpha> z \<noteq> \<alpha> g"
    and norm: "\<alpha> N = \<alpha> (fq_x e) * \<alpha> (fq_x e) - \<alpha> (fq_y e) * \<alpha> (fq_y e) * \<alpha> g"
    and sq: "element_is_sqr F N \<noteq> 0" and y0: "\<alpha> (fq_y e) \<noteq> 0"
  defines "r \<equiv> fq_sqrt_of_norm F n e N t1 t2"
  shows "r \<in> fq_pairs V"
    and "\<alpha> (fq_x r) * \<alpha> (fq_x r) + \<alpha> (fq_y r) * \<alpha> (fq_y r) * \<alpha> g = \<alpha> (fq_x e)"
    and "2 * \<alpha> (fq_x r) * \<alpha> (fq_y r) = \<alpha> (fq_y e)"
proof -
  define x y \<gamma> where "x = \<alpha> (fq_x e)" and "y = \<alpha> (fq_y e)" and "\<gamma> = \<alpha> g"
  have xy: "fq_x e \<in> V" "fq_y e \<in> V" and n': "fq_x n \<in> V" "fq_y n \<in> V" using e n by simp_all
  define A where "A = element_sqrt F N N"
  have A: "A \<in> V" "\<alpha> A * \<alpha> A = \<alpha> N" using t(1) sq sqrt_in sqrt by (simp_all add: A_def)
  define T where "T = element_invert F (element_set_si F t2 2) (element_set_si F t2 2)"
  have two': "element_set_si F t2 2 \<in> V" "\<alpha> (element_set_si F t2 2) = 2" using t by (simp_all add: impl_law)
  then have T: "T \<in> V" "2 * \<alpha> T = 1"
    using invert_in [OF two'(1) two'(1)] invert [OF two'(1) two'(1)] two by (simp_all add: T_def)
  define U where "U = element_mul F (element_add F t1 (fq_x e) A) (element_add F t1 (fq_x e) A) T"
  have U: "U \<in> V" "\<alpha> U = (x + \<alpha> A) * \<alpha> T" using t xy A T by (simp_all add: U_def impl_law x_def)
  define W where "W = element_sub F U U A"
  have half: "u = 2 * \<alpha> T * u" for u by (simp add: T(2))
  have W: "W \<in> V" "\<alpha> W = (x - \<alpha> A) * \<alpha> T"
  proof -
    show "W \<in> V" using U A by (simp add: W_def)
    have "\<alpha> W = (x + \<alpha> A) * \<alpha> T - \<alpha> A" using U A by (simp add: W_def impl_law)
    also have "\<dots> = (x + \<alpha> A) * \<alpha> T - 2 * \<alpha> T * \<alpha> A" by (simp add: T(2))
    also have "\<dots> = (x - \<alpha> A) * \<alpha> T" by (simp add: algebra_simps)
    finally show "\<alpha> W = (x - \<alpha> A) * \<alpha> T" .
  qed
  have sum: "\<alpha> U + \<alpha> W = x"
  proof -
    have "\<alpha> U + \<alpha> W = 2 * \<alpha> T * x" unfolding U(2) W(2) by (simp add: algebra_simps)
    then show ?thesis by (simp add: T(2))
  qed
  have prod: "\<alpha> U * \<alpha> W = (y * \<alpha> T) * (y * \<alpha> T) * \<gamma>"
  proof -
    have "\<alpha> U * \<alpha> W = (x * x - \<alpha> A * \<alpha> A) * (\<alpha> T * \<alpha> T)" unfolding U(2) W(2) by (simp add: algebra_simps)
    also have "x * x - \<alpha> A * \<alpha> A = y * y * \<gamma>" by (simp add: A(2) norm x_def y_def \<gamma>_def)
    finally show ?thesis by (simp add: ac_simps)
  qed
  define H where "H = element_mul F t1 (fq_y e) T"
  have H: "H \<in> V" "\<alpha> H = y * \<alpha> T" using t xy T by (simp_all add: H_def impl_law y_def)
  have H0: "\<alpha> H \<noteq> 0"
  proof
    assume "\<alpha> H = 0"
    then have "2 * (y * \<alpha> T) = 0" using H(2) by simp
    then have "2 * \<alpha> T * y = 0" by (simp add: ac_simps)
    then show False using y0 T(2) by (simp add: y_def)
  qed
  have prodnz: "\<alpha> U * \<alpha> W \<noteq> 0"
  proof
    assume "\<alpha> U * \<alpha> W = 0"
    then have "\<alpha> (set0F) * \<alpha> (set0F) = \<alpha> H * \<alpha> H * \<gamma>" if "\<alpha> (set0F) = 0" for set0F
      using prod H(2) that by simp
    then have "\<alpha> (element_init F) * \<alpha> (element_init F) = \<alpha> H * \<alpha> H * \<gamma>" using init by blast
    with norm_nonzero [of "element_init F" H \<gamma>] H ns have "\<alpha> H = 0" by (simp add: \<gamma>_def)
    with H0 show False ..
  qed
  define D where "D = (if element_is_sqr F U = 0 then W else U)"
  define D' where "D' = (if element_is_sqr F U = 0 then U else W)"
  have DD: "\<alpha> D + \<alpha> D' = x" "\<alpha> D * \<alpha> D' = \<alpha> H * \<alpha> H * \<gamma>"
    using sum prod H(2) by (auto simp: D_def D'_def ac_simps)
  have D: "D \<in> V" "D' \<in> V" using U(1) W(1) by (simp_all add: D_def D'_def)
  have D0: "\<alpha> D \<noteq> 0" using prodnz by (auto simp: D_def)
  have Dsq: "element_is_sqr F D \<noteq> 0"
  proof (rule ccontr)
    assume "\<not> ?thesis"
    then have "element_is_sqr F U = 0" "element_is_sqr F W = 0" by (auto simp: D_def split: if_splits)
    then obtain z where z: "z \<in> V" "\<alpha> z * \<alpha> z = \<alpha> U * \<alpha> W" using nonsquares U(1) W(1) by blast
    then have "\<alpha> z * \<alpha> z = \<alpha> H * \<alpha> H * \<gamma>" using prod H(2) by simp
    with norm_nonzero [of z H \<gamma>] z(1) H ns have "\<alpha> H = 0" by (simp add: \<gamma>_def)
    with H0 show False ..
  qed
  define a where "a = element_sqrt F A D"
  have a: "a \<in> V" "\<alpha> a * \<alpha> a = \<alpha> D" using A D Dsq sqrt_in sqrt by (simp_all add: a_def)
  have a0: "\<alpha> a \<noteq> 0" using a(2) D0 by auto
  define S where "S = element_add F D a a"
  have S: "S \<in> V" "\<alpha> S = 2 * \<alpha> a" using a(1) D(1) by (simp_all add: S_def impl_law)
  have S0: "\<alpha> S \<noteq> 0"
  proof
    assume "\<alpha> S = 0"
    then have "\<alpha> (element_set_si F t2 2) * \<alpha> a = 0" using S(2) two'(2) by simp
    with no_zero_divisors [OF two'(1) a(1)] a0 two two'(2) show False by simp
  qed
  define I where "I = element_invert F S S"
  have I: "I \<in> V" "\<alpha> S * \<alpha> I = 1"
    using invert_in [OF S(1) S(1) S0] invert [OF S(1) S(1) S0] by (simp_all add: I_def)
  have r: "r = \<lparr> fq_x = element_set F (fq_x n) a, fq_y = element_mul F (fq_y n) (fq_y e) I \<rparr>"
    by (simp add: r_def fq_sqrt_of_norm_def Let_def A_def U_def W_def D_def a_def S_def I_def T_def)
  show "r \<in> fq_pairs V" unfolding r using n' a xy I by simp
  have rx: "\<alpha> (fq_x r) = \<alpha> a" and ry: "\<alpha> (fq_y r) = y * \<alpha> I"
    unfolding r using n' a xy I by (simp_all add: impl_law y_def)
  have "2 * \<alpha> a * (y * \<alpha> I) = (\<alpha> S * \<alpha> I) * y" by (simp add: S(2) ac_simps)
  then have yy: "2 * \<alpha> a * (y * \<alpha> I) = y" by (simp add: I(2))
  then show "2 * \<alpha> (fq_x r) * \<alpha> (fq_y r) = \<alpha> (fq_y e)" unfolding rx ry y_def .
  have "\<alpha> a * (y * \<alpha> I) = 2 * \<alpha> T * (\<alpha> a * (y * \<alpha> I))" by (simp add: T(2))
  also have "\<dots> = \<alpha> T * (2 * \<alpha> a * (y * \<alpha> I))" by (simp only: ac_simps)
  also have "\<dots> = \<alpha> H" unfolding yy by (simp add: H(2) ac_simps)
  finally have ab: "\<alpha> a * (y * \<alpha> I) = \<alpha> H" .
  have "\<alpha> D * (y * \<alpha> I * (y * \<alpha> I) * \<gamma>) = (\<alpha> a * (y * \<alpha> I)) * (\<alpha> a * (y * \<alpha> I)) * \<gamma>"
    by (simp add: a(2) [symmetric] ac_simps)
  then have "\<alpha> D * (y * \<alpha> I * (y * \<alpha> I) * \<gamma>) = \<alpha> D * \<alpha> D'" unfolding ab DD(2) .
  then have "y * \<alpha> I * (y * \<alpha> I) * \<gamma> = \<alpha> D'" by (rule cancel_nonzero [OF D(1) D0])
  then have "\<alpha> a * \<alpha> a + y * \<alpha> I * (y * \<alpha> I) * \<gamma> = x" unfolding a(2) using DD(1) by (simp only:)
  then show "\<alpha> (fq_x r) * \<alpha> (fq_x r) + \<alpha> (fq_y r) * \<alpha> (fq_y r) * \<alpha> g = \<alpha> (fq_x e)"
    unfolding rx ry \<gamma>_def x_def .
qed

end

text \<open>The norm of a nonzero square is a square, and conversely.\<close>

locale quadratic_sqrt = sqrt_field B V \<alpha> G
  for B :: "'a field_s" and V :: "'a set" and \<alpha> :: "'a \<Rightarrow> 'k::comm_ring_1" and G :: gmp +
  fixes g :: 'a and \<theta> :: 'k
  assumes nqr_s: "f_nqr B = Some g" and g_in_s: "g \<in> V"
    and theta_s: "\<theta> * \<theta> = \<alpha> g"
    and nonsquare_s: "element_is_sqr B g = 0"

sublocale quadratic_sqrt \<subseteq> quadratic_field B V \<alpha> G g \<theta>
  by unfold_locales (use nqr_s g_in_s theta_s nonsquare_s is_sqr [OF g_in_s] in auto)

context quadratic_sqrt
begin

definition fq_norm :: "'a fq_data \<Rightarrow> 'a" where
  "fq_norm e = element_sub B (element_square B (element_init B) (fq_x e))
     (element_square B (element_init B) (fq_x e))
     (element_mul B (element_square B (element_init B) (fq_y e))
       (element_square B (element_init B) (fq_y e)) g)"

lemma fq_norm_ok:
  assumes "e \<in> fq_pairs V"
  shows "fq_norm e \<in> V"
    and "\<alpha> (fq_norm e) = \<alpha> (fq_x e) * \<alpha> (fq_x e) - \<alpha> (fq_y e) * \<alpha> (fq_y e) * \<alpha> g"
  using assms g_in by (simp_all add: fq_norm_def impl_law)

lemma is_sqr_norm: "fq_is_sqr B e = element_is_sqr B (fq_norm e)"
  by (simp add: fq_is_sqr_def nqr_eq Let_def fq_norm_def)

text \<open>The root of a square whose second component is not zero.\<close>

lemma fq_sqrt_ok:
  assumes "n \<in> fq_pairs V" "e \<in> fq_pairs V" "fq_is_sqr B e \<noteq> 0" "\<alpha> (fq_y e) \<noteq> 0"
  shows "fq_sqrt B n e \<in> fq_pairs V" and "fq_val (fq_sqrt B n e) * fq_val (fq_sqrt B n e) = fq_val e"
proof -
  define t1 where "t1 = element_mul B (element_square B (element_init B) (fq_y e))
    (element_square B (element_init B) (fq_y e)) g"
  have t1: "t1 \<in> V" using assms g_in by (simp add: t1_def)
  have eq: "fq_sqrt B n e = fq_sqrt_of_norm B n e (fq_norm e) t1 (element_init B)"
    by (simp add: fq_sqrt_def nqr_eq Let_def fq_norm_def t1_def)
  have ns: "\<And>z. z \<in> V \<Longrightarrow> \<alpha> z * \<alpha> z \<noteq> \<alpha> g" using nonsquare_s is_sqr [OF g_in] by auto
  note root = sqrt_of_norm_ok [OF assms(1,2) fq_norm_ok(1) [OF assms(2)] t1 init_in g_in ns
      fq_norm_ok(2) [OF assms(2)] assms(3) [unfolded is_sqr_norm] assms(4), folded eq]
  show "fq_sqrt B n e \<in> fq_pairs V" by (rule root(1))
  define a b where "a = \<alpha> (fq_x (fq_sqrt B n e))" and "b = \<alpha> (fq_y (fq_sqrt B n e))"
  have "(a + b * \<theta>) * (a + b * \<theta>) = (a * a + b * b * (\<theta> * \<theta>)) + (2 * a * b) * \<theta>"
    by (simp add: algebra_simps mult_2)
  also have "\<dots> = fq_val e" using root(2,3) by (simp add: quad_val_def a_def b_def \<theta>)
  finally show "fq_val (fq_sqrt B n e) * fq_val (fq_sqrt B n e) = fq_val e"
    by (simp add: quad_val_def a_def b_def)
qed

text \<open>\<open>fq_is_sqr\<close> decides whether an element of the extension is a square.\<close>

lemma fq_is_sqr_iff:
  assumes e: "e \<in> fq_pairs V"
  shows "fq_is_sqr B e \<noteq> 0 \<longleftrightarrow> (\<exists>r\<in>fq_pairs V. fq_val r * fq_val r = fq_val e)"
proof
  assume "\<exists>r\<in>fq_pairs V. fq_val r * fq_val r = fq_val e"
  then obtain r where r: "r \<in> fq_pairs V" "fq_val r * fq_val r = fq_val e" by blast
  have "fq_val (fq_square B e r) = fq_val e" using r fq_square_ok [OF e r(1)] by simp
  then have eq: "\<alpha> (fq_x (fq_square B e r)) = \<alpha> (fq_x e)" "\<alpha> (fq_y (fq_square B e r)) = \<alpha> (fq_y e)"
    using fq_val_eq_iff [OF fq_square_ok(1) [OF e r(1)] e] by simp_all
  define u v where "u = \<alpha> (fq_x r)" and "v = \<alpha> (fq_y r)"
  have uv: "\<alpha> (fq_x e) = u * u + v * v * \<alpha> g" "\<alpha> (fq_y e) = u * v + u * v"
    using eq e r g_in by (simp_all add: fq_square_def Let_def nqr_eq impl_law u_def v_def)
  have "\<alpha> (fq_norm e) = (u * u - v * v * \<alpha> g) * (u * u - v * v * \<alpha> g)"
    unfolding fq_norm_ok(2) [OF e] uv by (simp add: algebra_simps)
  also have "\<dots> = \<alpha> (fq_norm r) * \<alpha> (fq_norm r)" by (simp add: fq_norm_ok(2) [OF r(1)] u_def v_def)
  finally show "fq_is_sqr B e \<noteq> 0"
    unfolding is_sqr_norm using is_sqr [OF fq_norm_ok(1) [OF e]] fq_norm_ok(1) [OF r(1)] by auto
next
  assume sq: "fq_is_sqr B e \<noteq> 0"
  show "\<exists>r\<in>fq_pairs V. fq_val r * fq_val r = fq_val e"
  proof (cases "\<alpha> (fq_y e) = 0")
    case False
    then show ?thesis using fq_sqrt_ok [OF e e sq] by blast
  next
    case True
    show ?thesis
    proof (cases "element_is_sqr B (fq_x e) = 0")
      case False
      then obtain y where y: "y \<in> V" "\<alpha> y * \<alpha> y = \<alpha> (fq_x e)" using is_sqr e by auto
      then have "fq_val \<lparr> fq_x = y, fq_y = element_init B \<rparr> * fq_val \<lparr> fq_x = y, fq_y = element_init B \<rparr> = fq_val e"
        using True by (simp add: quad_val_def impl_law)
      then show ?thesis using y(1) by (intro bexI [of _ "\<lparr> fq_x = y, fq_y = element_init B \<rparr>"]) simp_all
    next
      case ns: True
      obtain z where z: "z \<in> V" "\<alpha> z * \<alpha> z = \<alpha> (fq_x e) * \<alpha> g"
        using nonsquares [of "fq_x e" g] ns nonsquare_s e g_in by auto
      have "\<alpha> g \<noteq> 0" using is_sqr [OF g_in] nonsquare_s init init_in by (metis mult_zero_left)
      then have i: "element_invert B g g \<in> V" "\<alpha> g * \<alpha> (element_invert B g g) = 1"
        using g_in by (simp_all add: impl_law)
      define y where "y = element_mul B z z (element_invert B g g)"
      have y: "y \<in> V" "\<alpha> y = \<alpha> z * \<alpha> (element_invert B g g)" using z i by (simp_all add: y_def impl_law)
      have "\<alpha> y * \<alpha> y * \<alpha> g = (\<alpha> z * \<alpha> z) * \<alpha> (element_invert B g g) * (\<alpha> g * \<alpha> (element_invert B g g))"
        unfolding y(2) by (simp only: ac_simps)
      also have "\<dots> = \<alpha> (fq_x e) * (\<alpha> g * \<alpha> (element_invert B g g)) * (\<alpha> g * \<alpha> (element_invert B g g))"
        unfolding z(2) by (simp only: ac_simps)
      finally have "\<alpha> y * \<alpha> y * \<alpha> g = \<alpha> (fq_x e)" by (simp add: i(2))
      then have "\<alpha> y * \<theta> * (\<alpha> y * \<theta>) = \<alpha> (fq_x e)" by (simp add: \<theta> [symmetric] ac_simps)
      then have "fq_val \<lparr> fq_x = element_init B, fq_y = y \<rparr> * fq_val \<lparr> fq_x = element_init B, fq_y = y \<rparr> = fq_val e"
        using True by (simp add: quad_val_def impl_law)
      then show ?thesis using y(1) by (intro bexI [of _ "\<lparr> fq_x = element_init B, fq_y = y \<rparr>"]) simp_all
    qed
  qed
qed

end

end
