(* ===== verification/Fi.thy ===== *)
theory Fi
  imports QuadraticCorrect
begin

text \<open>
  Correctness of \<open>field_init_fi\<close>: the extension by a square root of \<open>- 1\<close>, in the ring
  \<open>gauss\<close> over the ring that describes the base field.
\<close>

definition gauss_val :: "('a \<Rightarrow> 'k) \<Rightarrow> 'a fq_data \<Rightarrow> 'k gauss" where
  "gauss_val \<alpha> e = Gauss (\<alpha> (fq_x e)) (\<alpha> (fq_y e))"

lemma gauss_val_parts [simp]:
  "re_part (gauss_val \<alpha> e) = \<alpha> (fq_x e)" "im_part (gauss_val \<alpha> e) = \<alpha> (fq_y e)"
  by (simp_all add: gauss_val_def)

locale fi_ring = ring_impl B V \<alpha>
  for B :: "'a field_s" and V :: "'a set" and \<alpha> :: "'a \<Rightarrow> 'k::comm_ring_1" +
  fixes G :: gmp

context fi_ring
begin

abbreviation fi_val :: "'a fq_data \<Rightarrow> 'k gauss" where
  "fi_val \<equiv> gauss_val \<alpha>"


lemma fi_mul_ok:
  assumes "n \<in> fq_pairs V" "a \<in> fq_pairs V" "b \<in> fq_pairs V"
  shows "fi_mul B n a b \<in> fq_pairs V" and "fi_val (fi_mul B n a b) = fi_val a * fi_val b"
  using assms by (simp_all add: fi_mul_def Let_def gauss_eq_iff impl_law algebra_simps)

lemma fi_square_ok:
  assumes "n \<in> fq_pairs V" "a \<in> fq_pairs V"
  shows "fi_square B n a \<in> fq_pairs V" and "fi_val (fi_square B n a) = fi_val a * fi_val a"
  using assms by (simp_all add: fi_square_def Let_def gauss_eq_iff impl_law algebra_simps)

end

sublocale fi_ring \<subseteq> fi: ring_impl "field_init_fi G B" "fq_pairs V" fi_val
proof -
  have is0: "fq_is0 B a = 0 \<longleftrightarrow> fi_val a \<noteq> 0" if "a \<in> fq_pairs V" for a
    using that by (auto simp: fq_is0_def gauss_eq_iff impl_law)
  have is1: "fq_is1 B a = 0 \<longleftrightarrow> fi_val a \<noteq> 1" if "a \<in> fq_pairs V" for a
    using that by (auto simp: fq_is1_def gauss_eq_iff impl_law)
  have cmp: "fq_cmp B a b = 0 \<longleftrightarrow> fi_val a = fi_val b" if "a \<in> fq_pairs V" "b \<in> fq_pairs V" for a b
    using that by (auto simp: fq_cmp_def gauss_eq_iff impl_law)
  show "ring_impl (field_init_fi G B) (fq_pairs V) fi_val"
    by unfold_locales
      (simp_all add: fi_mul_ok fi_square_ok is0 is1 cmp del: fq_pairs_iff,
       simp_all add: fq_linear gauss_eq_iff impl_law algebra_simps)
qed

locale fi_field = field_gmp B V \<alpha> G
  for B :: "'a field_s" and V :: "'a set" and \<alpha> :: "'a \<Rightarrow> 'k::comm_ring_1" and G :: gmp +
  assumes minus_one: "z \<in> V \<Longrightarrow> \<alpha> z * \<alpha> z \<noteq> - 1"

sublocale fi_field \<subseteq> fi_ring B V \<alpha> G
  by unfold_locales

context fi_field
begin

lemma fi_invert_ok:
  assumes "n \<in> fq_pairs V" "a \<in> fq_pairs V" "fi_val a \<noteq> 0"
  shows "fi_invert B n a \<in> fq_pairs V" and "fi_val a * fi_val (fi_invert B n a) = 1"
proof -
  define N where "N = element_add B (element_square B (element_init B) (fq_x a))
    (element_square B (element_init B) (fq_x a)) (element_square B (element_init B) (fq_y a))"
  have N: "N \<in> V" "\<alpha> N = \<alpha> (fq_x a) * \<alpha> (fq_x a) + \<alpha> (fq_y a) * \<alpha> (fq_y a)"
    using assms by (simp_all add: N_def impl_law)
  have "\<alpha> N \<noteq> 0"
  proof
    assume "\<alpha> N = 0"
    then have "\<alpha> (fq_x a) * \<alpha> (fq_x a) = \<alpha> (fq_y a) * \<alpha> (fq_y a) * (- 1)"
      using N(2) by (simp add: eq_neg_iff_add_eq_0)
    with norm_nonzero [of "fq_x a" "fq_y a" "- 1"] minus_one assms(2)
    have "\<alpha> (fq_x a) = 0 \<and> \<alpha> (fq_y a) = 0" by simp
    with assms(3) show False by (simp add: gauss_eq_iff)
  qed
  then have i: "element_invert B N N \<in> V" "\<alpha> N * \<alpha> (element_invert B N N) = 1"
    using invert_in [OF N(1) N(1)] invert [OF N(1) N(1)] by simp_all
  have eq: "fi_invert B n a = \<lparr> fq_x = element_mul B (fq_x n) (fq_x a) (element_invert B N N),
      fq_y = element_mul B (fq_y n) (fq_y a) (element_neg B (element_invert B N N) (element_invert B N N)) \<rparr>"
    by (simp add: fi_invert_def Let_def N_def)
  show "fi_invert B n a \<in> fq_pairs V" unfolding eq using assms i by simp
  have "re_part (fi_val a * fi_val (fi_invert B n a)) = \<alpha> N * \<alpha> (element_invert B N N)"
    unfolding eq using assms i(1) by (simp add: impl_law N(2) algebra_simps)
  moreover have "im_part (fi_val a * fi_val (fi_invert B n a)) = 0"
    unfolding eq using assms i(1) by (simp add: impl_law algebra_simps)
  ultimately show "fi_val a * fi_val (fi_invert B n a) = 1" using i(2) by (simp add: gauss_eq_iff)
qed

end

sublocale fi_field \<subseteq> fif: field_gmp "field_init_fi G B" "fq_pairs V" fi_val G
proof -
  have "field_impl (field_init_fi G B) (fq_pairs V) fi_val"
    by unfold_locales (simp_all add: fi_invert_ok del: fq_pairs_iff)
  then show "field_gmp (field_init_fi G B) (fq_pairs V) fi_val G"
    by (rule field_gmp_generic_pow) (simp_all add: gmp.gmp_laws_axioms)
qed

context fi_field
begin

lemma arith:
  assumes "n \<in> fq_pairs V" "a \<in> fq_pairs V" "b \<in> fq_pairs V" "0 \<le> k"
  defines "F \<equiv> field_init_fi G B"
  shows "fi_val (element_mul F n a b) = fi_val a * fi_val b \<and>
    fi_val (element_square F n a) = fi_val a * fi_val a \<and>
    (fi_val a \<noteq> 0 \<longrightarrow> fi_val a * fi_val (element_invert F n a) = 1) \<and>
    fi_val (element_pow_mpz G F n a k) = fi_val a ^ nat k \<and>
    (element_cmp F a b = 0 \<longleftrightarrow> fi_val a = fi_val b)"
  unfolding F_def
  by (insert assms(1-4), intro conjI impI; (rule fi.mul fi.square fif.invert fif.pow fi.cmp; assumption))

end

locale fi_sqrt_field = sqrt_field B V \<alpha> G
  for B :: "'a field_s" and V :: "'a set" and \<alpha> :: "'a \<Rightarrow> 'k::comm_ring_1" and G :: gmp +
  assumes minus_one_s: "z \<in> V \<Longrightarrow> \<alpha> z * \<alpha> z \<noteq> - 1"

sublocale fi_sqrt_field \<subseteq> fi_field B V \<alpha> G
  by unfold_locales (rule minus_one_s)

context fi_sqrt_field
begin

text \<open>The root of a square whose imaginary part is not zero.\<close>

lemma fi_sqrt_ok:
  assumes "n \<in> fq_pairs V" "e \<in> fq_pairs V" "fi_is_sqr B e \<noteq> 0" "\<alpha> (fq_y e) \<noteq> 0"
  shows "fi_sqrt B n e \<in> fq_pairs V" and "fi_val (fi_sqrt B n e) * fi_val (fi_sqrt B n e) = fi_val e"
proof -
  define t1 where "t1 = element_square B (element_init B) (fq_y e)"
  define N where "N = element_add B (element_square B (element_init B) (fq_x e))
    (element_square B (element_init B) (fq_x e)) t1"
  define g where "g = element_neg B (element_init B) (element_set1 B (element_init B))"
  have t1: "t1 \<in> V" and g: "g \<in> V" "\<alpha> g = - 1" using assms by (simp_all add: t1_def g_def impl_law)
  have N: "N \<in> V" "\<alpha> N = \<alpha> (fq_x e) * \<alpha> (fq_x e) - \<alpha> (fq_y e) * \<alpha> (fq_y e) * \<alpha> g"
    using assms t1 by (simp_all add: N_def t1_def impl_law g)
  have sq: "element_is_sqr B N \<noteq> 0" using assms(3) by (simp add: fi_is_sqr_def Let_def N_def t1_def)
  have eq: "fi_sqrt B n e = fq_sqrt_of_norm B n e N t1 (element_init B)"
    by (simp add: fi_sqrt_def Let_def N_def t1_def)
  have ns: "\<And>z. z \<in> V \<Longrightarrow> \<alpha> z * \<alpha> z \<noteq> \<alpha> g" using minus_one by (simp add: g)
  note root = sqrt_of_norm_ok [OF assms(1,2) N(1) t1 init_in g(1) ns N(2) sq assms(4), folded eq]
  show "fi_sqrt B n e \<in> fq_pairs V" by (rule root(1))
  show "fi_val (fi_sqrt B n e) * fi_val (fi_sqrt B n e) = fi_val e"
    unfolding gauss_eq_iff
  proof
    show "re_part (fi_val (fi_sqrt B n e) * fi_val (fi_sqrt B n e)) = re_part (fi_val e)"
      using root(2) by (simp add: g)
    have "\<alpha> (fq_x (fi_sqrt B n e)) * \<alpha> (fq_y (fi_sqrt B n e)) + \<alpha> (fq_x (fi_sqrt B n e)) * \<alpha> (fq_y (fi_sqrt B n e)) =
        \<alpha> (fq_y e)"
      using root(3) by (simp only: mult_2 distrib_right)
    then show "im_part (fi_val (fi_sqrt B n e) * fi_val (fi_sqrt B n e)) = im_part (fi_val e)"
      by (simp add: mult.commute)
  qed
qed

end

end
