(* ===== verification/QuadraticProps.thy ===== *)
theory QuadraticProps
  imports Fi
begin

text \<open>
  The properties of the quadratic extensions, and the extensions of the integers modulo 7 by
  a square root of \<open>6 = - 1\<close> as instances.
\<close>

section \<open>The field of 49 elements\<close>

interpretation fp7g: fp_sqrt_env gmp_ref 7 "of_int :: int \<Rightarrow> 7 gauss" 6
  by unfold_locales (simp_all add: gauss_of_int_eq_0 of_int_7 is_prime_7 nonresidue_7)

interpretation fp7i: fp_sqrt_env gmp_ref 7 "of_int :: int \<Rightarrow> 7" 6
  by unfold_locales (simp_all add: nonresidue_7)

lemma six_nonsquare: "element_is_sqr (field_set_nqr (field_init_naive_fp gmp_ref 7) 6) 6 = 0"
  by (simp add: fp7i.Fp_is_sqr nonresidue_7)

lemma six_minus_one: "(of_int 6 :: 7) = - 1"
proof -
  have "of_int (6 - (- 1)) = (0::7)" unfolding of_int_7 by simp
  then show ?thesis by (simp only: of_int_diff right_minus_eq of_int_minus of_int_1)
qed

interpretation fq49: quadratic_sqrt "field_set_nqr (field_init_naive_fp gmp_ref 7) 6" "{0..<7}"
  "of_int :: int \<Rightarrow> 7 gauss" gmp_ref 6 "Gauss 0 1"
proof unfold_locales
  show "f_nqr (field_set_nqr (field_init_naive_fp gmp_ref 7) 6) = Some 6"
    unfolding fp7i.Fp_eq by simp
  show "Gauss 0 1 * Gauss 0 1 = (of_int 6 :: 7 gauss)"
    using six_minus_one by (simp add: gauss_i) (simp add: gauss_eq_iff)
qed (simp_all add: six_nonsquare)

interpretation fi49: fi_sqrt_field "field_set_nqr (field_init_naive_fp gmp_ref 7) 6" "{0..<7}"
  "of_int :: int \<Rightarrow> 7" gmp_ref
proof unfold_locales
  fix z :: int
  assume z: "z \<in> {0..<7}"
  have "\<not> (\<exists>y\<in>{0..<7}. (of_int y :: 7) * of_int y = of_int 6)"
    using fp7i.fps.is_sqr [of 6] six_nonsquare by simp
  with z show "(of_int z :: 7) * of_int z \<noteq> - 1" by (simp only: six_minus_one) blast
qed

section \<open>Arithmetic\<close>

text \<open>
  C18: The extension by the stored nonresidue: with \<open>(x, y)\<close> standing for \<open>x + y \<theta>\<close>,
  \<open>\<theta>\<close> a root of the nonresidue, products (by Karatsuba), squares, inverses and powers are
  those of the ring, and \<open>element_cmp\<close> decides equality.
\<close>

theorem quadratic_arith:
  assumes "quadratic_field B V \<alpha> G g \<theta>"
    and "n \<in> fq_pairs V" "a \<in> fq_pairs V" "b \<in> fq_pairs V" "0 \<le> k"
  defines "F \<equiv> field_init_quadratic G B" and "val \<equiv> quad_val \<alpha> \<theta>"
  shows "val (element_mul F n a b) = val a * val b \<and> val (element_square F n a) = val a * val a \<and>
    (val a \<noteq> 0 \<longrightarrow> val a * val (element_invert F n a) = 1) \<and>
    val (element_pow_mpz G F n a k) = val a ^ nat k \<and>
    (element_cmp F a b = 0 \<longleftrightarrow> val a = val b)"
  unfolding F_def val_def by (rule quadratic_field.arith [OF assms(1-5)])

lemma quadratic_arith_witness:
  "let F = field_init_quadratic gmp_ref (field_set_nqr (field_init_naive_fp gmp_ref 7) 6);
       val = quad_val (of_int :: int \<Rightarrow> 7 gauss) (Gauss 0 1)
   in val (element_mul F \<lparr> fq_x = 0, fq_y = 0 \<rparr> \<lparr> fq_x = 2, fq_y = 3 \<rparr> \<lparr> fq_x = 4, fq_y = 5 \<rparr>) =
        val \<lparr> fq_x = 2, fq_y = 3 \<rparr> * val \<lparr> fq_x = 4, fq_y = 5 \<rparr>"
  using quadratic_arith [OF fq49.quadratic_field_axioms,
      of "\<lparr> fq_x = 0, fq_y = 0 \<rparr>" "\<lparr> fq_x = 2, fq_y = 3 \<rparr>" "\<lparr> fq_x = 4, fq_y = 5 \<rparr>" 0]
  unfolding Let_def by simp

text \<open>
  C19: Squares of the extension: \<open>element_is_sqr\<close> accepts exactly the squares, and
  \<open>element_sqrt\<close> returns a root of an accepted element outside the base field.
\<close>

theorem quadratic_sqrt_correct:
  assumes "quadratic_sqrt B V \<alpha> G g \<theta>" "n \<in> fq_pairs V" "e \<in> fq_pairs V"
  defines "F \<equiv> field_init_quadratic G B" and "val \<equiv> quad_val \<alpha> \<theta>"
  shows "(element_is_sqr F e \<noteq> 0 \<longleftrightarrow> (\<exists>r\<in>fq_pairs V. val r * val r = val e)) \<and>
    (element_is_sqr F e \<noteq> 0 \<and> \<alpha> (fq_y e) \<noteq> 0 \<longrightarrow>
      val (element_sqrt F n e) * val (element_sqrt F n e) = val e)"
  using quadratic_sqrt.fq_is_sqr_iff [OF assms(1,3)] quadratic_sqrt.fq_sqrt_ok(2) [OF assms(1-3)]
  unfolding F_def val_def by simp

lemma quadratic_sqrt_witness:
  "let F = field_init_quadratic gmp_ref (field_set_nqr (field_init_naive_fp gmp_ref 7) 6);
       val = quad_val (of_int :: int \<Rightarrow> 7 gauss) (Gauss 0 1);
       r = element_sqrt F \<lparr> fq_x = 0, fq_y = 0 \<rparr> \<lparr> fq_x = 0, fq_y = 1 \<rparr>
   in val r * val r = val \<lparr> fq_x = 0, fq_y = 1 \<rparr>"
proof -
  have "fq_is_sqr (field_set_nqr (field_init_naive_fp gmp_ref 7) 6) \<lparr> fq_x = 0, fq_y = 1 \<rparr> \<noteq> 0"
    by code_simp
  then show ?thesis
    using quadratic_sqrt_correct [OF fq49.quadratic_sqrt_axioms,
      of "\<lparr> fq_x = 0, fq_y = 0 \<rparr>" "\<lparr> fq_x = 0, fq_y = 1 \<rparr>"]
    unfolding Let_def by simp
qed

text \<open>
  Inside the base field the square root fails: 3 is no square modulo 7 but \<open>(3, 0)\<close>
  is the square of \<open>(0, 2)\<close> in the field of 49 elements; \<open>element_is_sqr\<close> accepts it and
  \<open>element_sqrt\<close> returns zero.
\<close>

theorem quadratic_sqrt_in_base:
  "let F = field_init_quadratic gmp_ref (field_set_nqr (field_init_naive_fp gmp_ref 7) 6);
       e = \<lparr> fq_x = 3, fq_y = 0 \<rparr>
   in element_square F e \<lparr> fq_x = 0, fq_y = 2 \<rparr> = e \<and> element_is_sqr F e = 1 \<and>
      element_sqrt F e e = \<lparr> fq_x = 0, fq_y = 0 \<rparr>"
  by code_simp

text \<open>
  The extension by a root of \<open>- 1\<close>: the operations are those of complex numbers over
  the base field.
\<close>

theorem fi_arith:
  assumes "fi_field B V \<alpha> G"
    and "n \<in> fq_pairs V" "a \<in> fq_pairs V" "b \<in> fq_pairs V" "0 \<le> k"
  defines "F \<equiv> field_init_fi G B" and "val \<equiv> gauss_val \<alpha>"
  shows "val (element_mul F n a b) = val a * val b \<and> val (element_square F n a) = val a * val a \<and>
    (val a \<noteq> 0 \<longrightarrow> val a * val (element_invert F n a) = 1) \<and>
    val (element_pow_mpz G F n a k) = val a ^ nat k \<and>
    (element_cmp F a b = 0 \<longleftrightarrow> val a = val b)"
  unfolding F_def val_def by (rule fi_field.arith [OF assms(1-5)])

lemma fi_arith_witness:
  "let F = field_init_fi gmp_ref (field_set_nqr (field_init_naive_fp gmp_ref 7) 6);
       val = gauss_val (of_int :: int \<Rightarrow> 7)
   in val (element_pow_mpz gmp_ref F \<lparr> fq_x = 0, fq_y = 0 \<rparr> \<lparr> fq_x = 2, fq_y = 3 \<rparr> 5) =
        val \<lparr> fq_x = 2, fq_y = 3 \<rparr> ^ nat 5"
  using fi_arith [OF fi49.fi_field_axioms,
      of "\<lparr> fq_x = 0, fq_y = 0 \<rparr>" "\<lparr> fq_x = 2, fq_y = 3 \<rparr>" "\<lparr> fq_x = 4, fq_y = 5 \<rparr>" 5]
  unfolding Let_def by (simp del: power_numeral)



section \<open>Bytes and text\<close>

text \<open>
  Serialisation lifts to pairs: when \<open>element_from_bytes\<close> of the base field reads back
  what \<open>element_to_bytes\<close> wrote, so do those of the extension.
\<close>

theorem quadratic_bytes:
  assumes "\<And>d x rest. x \<in> V \<Longrightarrow>
      element_from_bytes B d (element_to_bytes B x @ rest) = (x, length (element_to_bytes B x))"
    and "e \<in> fq_pairs V"
  shows "element_from_bytes (field_init_quadratic G B) d
      (element_to_bytes (field_init_quadratic G B) e @ rest) =
    (e, length (element_to_bytes (field_init_quadratic G B) e))"
  using assms(1) [where x = "fq_x e" and rest = "element_to_bytes B (fq_y e) @ rest"]
    assms(1) [where x = "fq_y e" and rest = rest] assms(2)
  by (simp add: fq_to_bytes_def fq_from_bytes_def)

lemma quadratic_bytes_witness:
  "let F = field_init_quadratic gmp_ref (field_init_naive_fp gmp_ref 7);
       e = \<lparr> fq_x = 3, fq_y = 5 \<rparr>
   in element_from_bytes F e (element_to_bytes F e @ [1, 2]) = (e, length (element_to_bytes F e))"
proof -
  have "element_from_bytes (field_init_naive_fp gmp_ref 7) d
      (element_to_bytes (field_init_naive_fp gmp_ref 7) x @ rest) =
      (x, length (element_to_bytes (field_init_naive_fp gmp_ref 7) x))" if "x \<in> {0..<7}" for d x rest
    using zp_to_bytes_ok(1) [OF gmp_ref.gmp_laws_axioms, of x 7]
      zp_to_bytes_ok(2) [OF gmp_ref.gmp_laws_axioms, of x 7 rest] that
    by (simp add: field_init_naive_fp_def naive_fp_base_def dispatch)
  from quadratic_bytes [where V = "{0..<7}" and e = "\<lparr> fq_x = 3, fq_y = 5 \<rparr>", OF this]
  show ?thesis by (simp add: Let_def)
qed

end
