(* ===== verification/Poly.thy ===== *)
theory Poly
  imports Field
begin

text \<open>
  The polynomial ring \<open>R[x]\<close> of \<^verbatim>\<open>arith/poly.c\<close> over the base ring \<open>B\<close>. A polynomial
  is the list of the coefficients its array holds, the constant term first; the array always
  holds initialised elements. A loop over the indices that writes one coefficient per step is
  a \<open>map\<close> over the indices, one that carries scratch elements is a \<open>fold\<close>. Reading
  coefficient \<open>i\<close> of an argument comes before writing coefficient \<open>i\<close> of the result, so the
  destination may be one of the arguments.
\<close>

section \<open>Coefficient arrays\<close>

type_synonym 'a poly = "'a list"

definition poly_coeff_count :: "'a poly \<Rightarrow> nat" where
  "poly_coeff_count e = length e"

definition poly_degree :: "'a poly \<Rightarrow> int" where
  "poly_degree e = int (poly_coeff_count e) - 1"

definition poly_coeff :: "'a poly \<Rightarrow> nat \<Rightarrow> 'a" where
  "poly_coeff e i = e ! i"

definition poly_alloc :: "'a field_s \<Rightarrow> 'a poly \<Rightarrow> nat \<Rightarrow> 'a poly" where
  "poly_alloc B e n = take n e @ replicate (n - length e) (element_init B)"

definition poly_init :: "'a poly" where
  "poly_init = []"

definition poly_remove_leading_zeroes :: "'a field_s \<Rightarrow> 'a poly \<Rightarrow> 'a poly" where
  "poly_remove_leading_zeroes B e = rev (dropWhile (\<lambda>e0. element_is0 B e0 \<noteq> 0) (rev e))"

definition poly_set_si :: "'a field_s \<Rightarrow> 'a poly \<Rightarrow> int \<Rightarrow> 'a poly" where
  "poly_set_si B e op = (
     let e = poly_alloc B e 1;
         e0 = element_set_si B (e ! 0) op
     in poly_remove_leading_zeroes B (e[0 := e0]))"

definition poly_set_mpz :: "'a field_s \<Rightarrow> 'a poly \<Rightarrow> int \<Rightarrow> 'a poly" where
  "poly_set_mpz B e op = (
     let e = poly_alloc B e 1;
         e0 = element_set_mpz B (e ! 0) op
     in poly_remove_leading_zeroes B (e[0 := e0]))"

definition poly_set_coeff :: "'a field_s \<Rightarrow> 'a poly \<Rightarrow> 'a \<Rightarrow> nat \<Rightarrow> 'a poly" where
  "poly_set_coeff B e a n = (
     let e = (if length e < n + 1 then poly_alloc B e (n + 1) else e)
     in e[n := element_set B (e ! n) a])"

definition poly_setx :: "'a field_s \<Rightarrow> 'a poly \<Rightarrow> 'a poly" where
  "poly_setx B f = (
     let f = poly_alloc B f 2;
         f = f[0 := element_set0 B (poly_coeff f 0)]
     in f[1 := element_set1 B (poly_coeff f 1)])"

definition poly_set :: "'a field_s \<Rightarrow> 'a poly \<Rightarrow> 'a poly \<Rightarrow> 'a poly" where
  "poly_set B dst src = (
     let dst = poly_alloc B dst (length src)
     in map (\<lambda>i. element_set B (dst ! i) (src ! i)) [0..<length src])"

text \<open>The sign of the first coefficient whose sign is not zero.\<close>

fun poly_sgn :: "'a field_s \<Rightarrow> 'a poly \<Rightarrow> int" where
  "poly_sgn B [] = 0"
| "poly_sgn B (c # f) = (let res = element_sgn B c in if res \<noteq> 0 then res else poly_sgn B f)"

section \<open>Arithmetic\<close>

definition poly_add :: "'a field_s \<Rightarrow> 'a poly \<Rightarrow> 'a poly \<Rightarrow> 'a poly \<Rightarrow> 'a poly" where
  "poly_add B res f g = (
     let n = poly_coeff_count f;
         n1 = poly_coeff_count g;
         (big, n, n1) = (if n > n1 then (f, n1, poly_coeff_count f) else (g, n, n1));
         res = poly_alloc B res n1;
         res = map (\<lambda>i. if i < n
                        then element_add B (poly_coeff res i) (poly_coeff f i) (poly_coeff g i)
                        else element_set B (poly_coeff res i) (poly_coeff big i)) [0..<n1]
     in poly_remove_leading_zeroes B res)"

definition poly_sub :: "'a field_s \<Rightarrow> 'a poly \<Rightarrow> 'a poly \<Rightarrow> 'a poly \<Rightarrow> 'a poly" where
  "poly_sub B diff f g = (
     let n = poly_coeff_count f;
         n1 = poly_coeff_count g;
         (big_is_f, big, n, n1) = (if n > n1 then (True, f, n1, poly_coeff_count f) else (False, g, n, n1));
         diff = poly_alloc B diff n1;
         diff = map (\<lambda>i. if i < n
                         then element_sub B (poly_coeff diff i) (poly_coeff f i) (poly_coeff g i)
                         else if big_is_f then element_set B (poly_coeff diff i) (poly_coeff big i)
                         else element_neg B (poly_coeff diff i) (poly_coeff big i)) [0..<n1]
     in poly_remove_leading_zeroes B diff)"

definition poly_neg :: "'a field_s \<Rightarrow> 'a poly \<Rightarrow> 'a poly \<Rightarrow> 'a poly" where
  "poly_neg B f g = (
     let n = length g;
         f = poly_alloc B f n
     in map (\<lambda>i. element_neg B (f ! i) (g ! i)) [0..<n])"

definition poly_double :: "'a field_s \<Rightarrow> 'a poly \<Rightarrow> 'a poly \<Rightarrow> 'a poly" where
  "poly_double B f g = (
     let n = length g;
         f = poly_alloc B f n
     in map (\<lambda>i. element_double B (f ! i) (g ! i)) [0..<n])"

definition poly_mul_mpz :: "'a field_s \<Rightarrow> 'a poly \<Rightarrow> 'a poly \<Rightarrow> int \<Rightarrow> 'a poly" where
  "poly_mul_mpz B f g z = (
     let n = length g;
         f = poly_alloc B f n
     in map (\<lambda>i. element_mul_mpz B (f ! i) (g ! i) z) [0..<n])"

definition poly_mul_si :: "'a field_s \<Rightarrow> 'a poly \<Rightarrow> 'a poly \<Rightarrow> int \<Rightarrow> 'a poly" where
  "poly_mul_si B f g z = (
     let n = length g;
         f = poly_alloc B f n
     in map (\<lambda>i. element_mul_si B (f ! i) (g ! i) z) [0..<n])"

definition poly_set0 :: "'a field_s \<Rightarrow> 'a poly \<Rightarrow> 'a poly" where
  "poly_set0 B e = poly_alloc B e 0"

definition poly_set1 :: "'a field_s \<Rightarrow> 'a poly \<Rightarrow> 'a poly" where
  "poly_set1 B e = (
     let e = poly_alloc B e 1;
         e0 = element_set1 B (e ! 0)
     in e[0 := e0])"

text \<open>The product: the inner loop adds the terms of coefficient \<open>i\<close> into \<open>x\<close>.\<close>

definition poly_mul_term ::
  "'a field_s \<Rightarrow> 'a poly \<Rightarrow> 'a poly \<Rightarrow> nat \<Rightarrow> nat \<Rightarrow> 'a \<times> 'a \<Rightarrow> 'a \<times> 'a" where
  "poly_mul_term B f g i j = (\<lambda>(x, e0).
     if j < length f \<and> i - j < length g then
       let e0 = element_mul B e0 (f ! j) (g ! (i - j));
           x = element_add B x x e0
       in (x, e0)
     else (x, e0))"

definition poly_mul_coeff ::
  "'a field_s \<Rightarrow> 'a poly \<Rightarrow> 'a poly \<Rightarrow> nat \<Rightarrow> 'a poly \<times> 'a \<Rightarrow> 'a poly \<times> 'a" where
  "poly_mul_coeff B f g i = (\<lambda>(prod, e0).
     let x = element_set0 B (prod ! i);
         (x, e0) = fold (poly_mul_term B f g i) [0..<i + 1] (x, e0)
     in (prod[i := x], e0))"

definition poly_mul :: "'a field_s \<Rightarrow> 'a poly \<Rightarrow> 'a poly \<Rightarrow> 'a poly \<Rightarrow> 'a poly" where
  "poly_mul B r f g = (
     let fcount = length f;
         gcount = length g
     in if fcount = 0 \<or> gcount = 0 then poly_set0 B r
        else
          let n = fcount + gcount - 1;
              prod = poly_alloc B poly_init n;
              e0 = element_init B;
              (prod, e0) = fold (poly_mul_coeff B f g) [0..<n] (prod, e0);
              prod = poly_remove_leading_zeroes B prod
          in poly_set B r prod)"

fun poly_random_coeffs :: "'a field_s \<Rightarrow> entropy \<Rightarrow> nat \<Rightarrow> nat \<Rightarrow> nat \<Rightarrow> 'a poly \<Rightarrow> 'a poly \<times> nat" where
  "poly_random_coeffs B R c 0 i f = (f, c)"
| "poly_random_coeffs B R c (Suc todo) i f = (
     let (e, c) = element_random B R c (poly_coeff f i)
     in poly_random_coeffs B R c todo (i + 1) (f[i := e]))"

definition poly_random_monic :: "'a field_s \<Rightarrow> entropy \<Rightarrow> nat \<Rightarrow> 'a poly \<Rightarrow> nat \<Rightarrow> 'a poly \<times> nat" where
  "poly_random_monic B R c f deg = (
     let f = poly_alloc B f (deg + 1);
         (f, c) = poly_random_coeffs B R c deg 0 f
     in (f[deg := element_set1 B (poly_coeff f deg)], c))"

definition poly_is0 :: "'a poly \<Rightarrow> int" where
  "poly_is0 e = (if length e = 0 then 1 else 0)"

definition poly_is1 :: "'a field_s \<Rightarrow> 'a poly \<Rightarrow> int" where
  "poly_is1 B e = (if length e = 1 then element_is1 B (e ! 0) else 0)"

fun poly_cmp_loop :: "'a field_s \<Rightarrow> 'a poly \<Rightarrow> 'a poly \<Rightarrow> int" where
  "poly_cmp_loop B (c # f) (d # g) = (if element_cmp B c d \<noteq> 0 then 1 else poly_cmp_loop B f g)"
| "poly_cmp_loop B f g = 0"

definition poly_cmp :: "'a field_s \<Rightarrow> 'a poly \<Rightarrow> 'a poly \<Rightarrow> int" where
  "poly_cmp B f g = (
     if poly_coeff_count f \<noteq> poly_coeff_count g then 1 else poly_cmp_loop B f g)"

definition poly_to_mpz :: "'a field_s \<Rightarrow> 'a poly \<Rightarrow> int" where
  "poly_to_mpz B e = (if poly_coeff_count e = 0 then 0 else element_to_mpz B (poly_coeff e 0))"

definition element_field_to_poly :: "'a field_s \<Rightarrow> 'a poly \<Rightarrow> 'a \<Rightarrow> 'a poly" where
  "element_field_to_poly B f g = (
     let f = poly_alloc B f 1;
         f = f[0 := element_set B (poly_coeff f 0) g]
     in poly_remove_leading_zeroes B f)"

section \<open>Division\<close>

text \<open>
  The step of the division at quotient index \<open>k\<close>; the leading coefficient of the remainder
  is then at index \<open>n + k\<close>, the value of the counter \<open>m\<close>.
\<close>

definition poly_div_row ::
  "'a field_s \<Rightarrow> 'a poly \<Rightarrow> nat \<Rightarrow> 'a \<Rightarrow> nat \<Rightarrow> 'a poly \<times> 'a \<Rightarrow> 'a poly \<times> 'a" where
  "poly_div_row B b k qe i = (\<lambda>(r, e0).
     let e0 = element_mul B e0 qe (poly_coeff b i)
     in (r[i + k := element_sub B (r ! (i + k)) (r ! (i + k)) e0], e0))"

fun poly_div_loop ::
  "'a field_s \<Rightarrow> 'a poly \<Rightarrow> nat \<Rightarrow> 'a \<Rightarrow> nat \<Rightarrow> 'a poly \<times> 'a poly \<times> 'a \<Rightarrow> 'a poly \<times> 'a poly \<times> 'a" where
  "poly_div_loop B b n binv 0 s = s"
| "poly_div_loop B b n binv (Suc k) (q, r, e0) = (
     let qe = element_mul B (q ! k) binv (r ! (n + k));
         (r, e0) = fold (poly_div_row B b k qe) [0..<n + 1] (r, e0)
     in poly_div_loop B b n binv k (q[k := qe], r, e0))"

text \<open>Division by zero ends the program: the result is \<open>None\<close>.\<close>

definition poly_div ::
  "'a field_s \<Rightarrow> 'a poly \<Rightarrow> 'a poly \<Rightarrow> 'a poly \<Rightarrow> 'a poly \<Rightarrow> ('a poly \<times> 'a poly) option" where
  "poly_div B quot rem a b = (
     if poly_is0 b \<noteq> 0 then None
     else
       let n = poly_degree b;
           m = poly_degree a
       in if n > m then Some (poly_set0 B quot, poly_set B rem a)
          else
            let r = poly_set B poly_init a;
                k = m - n;
                q = poly_alloc B poly_init (nat k + 1);
                binv = element_invert B (element_init B) (poly_coeff b (nat n));
                (q, r, e0) = poly_div_loop B b (nat n) binv (nat k + 1) (q, r, element_init B);
                r = poly_remove_leading_zeroes B r
            in Some (poly_set B quot q, poly_set B rem r))"

definition poly_const_mul :: "'a field_s \<Rightarrow> 'a poly \<Rightarrow> 'a \<Rightarrow> 'a poly \<Rightarrow> 'a poly" where
  "poly_const_mul B res a poly = (
     let n = poly_coeff_count poly;
         res = poly_alloc B res n;
         res = map (\<lambda>i. element_mul B (poly_coeff res i) a (poly_coeff poly i)) [0..<n]
     in poly_remove_leading_zeroes B res)"

text \<open>
  The extended Euclidean algorithm. A loop that does not end is \<open>None\<close>, the exit of
  \<open>poly_div\<close> is \<open>Some None\<close>. The scratch polynomials \<open>q\<close>, \<open>b2\<close>, \<open>r2\<close> keep
  their last value from one round to the next.
\<close>

record 'a euclid =
  eu_b0 :: "'a poly"
  eu_b1 :: "'a poly"
  eu_b2 :: "'a poly"
  eu_q :: "'a poly"
  eu_r0 :: "'a poly"
  eu_r1 :: "'a poly"
  eu_r2 :: "'a poly"

definition poly_invert_step :: "'a field_s \<Rightarrow> 'a euclid \<Rightarrow> 'a euclid" where
  "poly_invert_step B s = (
     let b2 = poly_mul B (eu_b2 s) (eu_b1 s) (eu_q s);
         b2 = poly_sub B b2 (eu_b0 s) b2;
         b0 = poly_set B (eu_b0 s) (eu_b1 s);
         b1 = poly_set B (eu_b1 s) b2;
         r0 = poly_set B (eu_r0 s) (eu_r1 s);
         r1 = poly_set B (eu_r1 s) (eu_r2 s)
     in s\<lparr> eu_b0 := b0, eu_b1 := b1, eu_b2 := b2, eu_r0 := r0, eu_r1 := r1 \<rparr>)"

partial_function (option) poly_invert_loop :: "'a field_s \<Rightarrow> 'a euclid \<Rightarrow> 'a euclid option option" where
  "poly_invert_loop B s = (
     case poly_div B (eu_q s) (eu_r2 s) (eu_r0 s) (eu_r1 s) of
       None \<Rightarrow> Some None
     | Some (q, r2) \<Rightarrow>
         let s = s\<lparr> eu_q := q, eu_r2 := r2 \<rparr>
         in if poly_is0 r2 \<noteq> 0 then Some (Some s)
            else poly_invert_loop B (poly_invert_step B s))"

definition poly_invert :: "'a field_s \<Rightarrow> 'a poly \<Rightarrow> 'a poly \<Rightarrow> 'a poly \<Rightarrow> 'a poly option option" where
  "poly_invert B res f m = (
     let s = \<lparr> eu_b0 = poly_set0 B poly_init, eu_b1 = poly_set1 B poly_init, eu_b2 = poly_init,
               eu_q = poly_init, eu_r0 = poly_set B poly_init m, eu_r1 = poly_set B poly_init f,
               eu_r2 = poly_init \<rparr>
     in case poly_invert_loop B s of
          None \<Rightarrow> None
        | Some None \<Rightarrow> Some None
        | Some (Some s) \<Rightarrow>
            let inv = element_invert B (element_init B) (poly_coeff (eu_r1 s) 0)
            in Some (Some (poly_const_mul B res inv (eu_b1 s))))"

partial_function (option) poly_gcd_loop ::
  "'a field_s \<Rightarrow> 'a poly \<Rightarrow> 'a poly \<Rightarrow> 'a poly \<Rightarrow> 'a poly \<Rightarrow> 'a poly option option" where
  "poly_gcd_loop B a b q r = (
     case poly_div B q r a b of
       None \<Rightarrow> Some None
     | Some (q, r) \<Rightarrow>
         if poly_is0 r \<noteq> 0 then Some (Some b)
         else poly_gcd_loop B (poly_set B a b) (poly_set B b r) q r)"

definition poly_gcd :: "'a field_s \<Rightarrow> 'a poly \<Rightarrow> 'a poly \<Rightarrow> 'a poly \<Rightarrow> 'a poly option option" where
  "poly_gcd B d f g = (
     let a = poly_set B poly_init f;
         b = poly_set B poly_init g
     in map_option (map_option (poly_set B d)) (poly_gcd_loop B a b poly_init poly_init))"

definition poly_make_monic :: "'a field_s \<Rightarrow> 'a poly \<Rightarrow> 'a poly \<Rightarrow> 'a poly" where
  "poly_make_monic B f g = (
     let n = poly_coeff_count g;
         f = poly_alloc B f n
     in if n = 0 then f
        else
          let e0 = element_invert B (poly_coeff f (n - 1)) (poly_coeff g (n - 1));
              f = map (\<lambda>i. if i < n - 1 then element_mul B (poly_coeff f i) (poly_coeff g i) e0
                           else poly_coeff f i) [0..<n]
          in f[n - 1 := element_set1 B e0])"

section \<open>Serialisation\<close>

definition poly_length_in_bytes :: "'a field_s \<Rightarrow> 'a poly \<Rightarrow> int" where
  "poly_length_in_bytes B p = 2 + sum_list (map (element_length_in_bytes B) p)"

definition poly_to_bytes :: "'a field_s \<Rightarrow> 'a poly \<Rightarrow> byte list" where
  "poly_to_bytes B p = (
     let count = poly_coeff_count p
     in [of_nat count, of_nat (count div 256)] @ concat (map (element_to_bytes B) p))"

text \<open>Reading a sequence of elements, each where the one before ended.\<close>

fun from_bytes_loop :: "'a field_s \<Rightarrow> 'a list \<Rightarrow> byte list \<Rightarrow> nat \<Rightarrow> 'a list \<times> nat" where
  "from_bytes_loop B [] data result = ([], result)"
| "from_bytes_loop B (e # es) data result = (
     let (e, k) = element_from_bytes B e (drop result data);
         (es, result) = from_bytes_loop B es data (result + k)
     in (e # es, result))"

definition poly_from_bytes :: "'a field_s \<Rightarrow> 'a poly \<Rightarrow> byte list \<Rightarrow> 'a poly \<times> nat" where
  "poly_from_bytes B p buf = (
     let count = unat (buf ! 0) + unat (buf ! 1) * 256
     in from_bytes_loop B (poly_alloc B p count) buf 2)"

definition field_init_poly :: "'a field_s \<Rightarrow> 'a poly field_s" where
  "field_init_poly B = field_init\<lparr>
     f_init := poly_init,
     f_set_si := Some (poly_set_si B),
     f_set_mpz := Some (poly_set_mpz B),
     f_to_mpz := Some (poly_to_mpz B),
     f_set := poly_set B,
     f_sign := poly_sgn B,
     f_add := poly_add B,
     f_doub := Some (poly_double B),
     f_is0 := Some poly_is0,
     f_is1 := Some (poly_is1 B),
     f_set0 := poly_set0 B,
     f_set1 := poly_set1 B,
     f_sub := Some (poly_sub B),
     f_neg := poly_neg B,
     f_mul := poly_mul B,
     f_mul_mpz := Some (poly_mul_mpz B),
     f_mul_si := Some (poly_mul_si B),
     f_cmp := Some (poly_cmp B),
     f_to_bytes := poly_to_bytes B,
     f_from_bytes := poly_from_bytes B,
     f_fixed_length := - 1,
     f_length_in_bytes := poly_length_in_bytes B \<rparr>"

end
