(* ===== verification/Series.thy ===== *)
theory Series
  imports Prelude
begin

text \<open>
  Sequences of coefficients with the convolution product, a commutative ring: the abstract
  values of polynomials. A polynomial is a sequence that vanishes from some index on.
\<close>

datatype 'k series = Series (coeff: "nat \<Rightarrow> 'k")

lemma series_eqI: "(\<And>n. coeff f n = coeff g n) \<Longrightarrow> f = g"
  by (cases f; cases g) auto

lemma series_eq_iff: "f = g \<longleftrightarrow> (\<forall>n. coeff f n = coeff g n)"
  by (auto intro: series_eqI)

lemma sum_flip: "(\<Sum>i\<le>n. h i (n - i)) = (\<Sum>i\<le>n. h (n - i) (i::nat))"
  by (rule sum.reindex_bij_witness [of _ "\<lambda>i. n - i" "\<lambda>i. n - i"]) auto

text \<open>Summing over \<open>i + j + l = n\<close> in two orders.\<close>

lemma sum_triples:
  fixes h :: "nat \<Rightarrow> nat \<Rightarrow> nat \<Rightarrow> 'k::comm_monoid_add"
  shows "(\<Sum>m\<le>n. \<Sum>i\<le>m. h i (m - i) (n - m)) = (\<Sum>i\<le>n. \<Sum>j\<le>n - i. h i j (n - i - j))"
proof -
  have "(\<Sum>m\<le>n. \<Sum>i\<le>m. h i (m - i) (n - m)) = (\<Sum>(m, i)\<in>(SIGMA m:{..n}. {..m}). h i (m - i) (n - m))"
    by (simp add: sum.Sigma)
  also have "\<dots> = (\<Sum>(i, j)\<in>(SIGMA i:{..n}. {..n - i}). h i j (n - i - j))"
    by (rule sum.reindex_bij_witness [of _ "\<lambda>(i, j). (i + j, i)" "\<lambda>(m, i). (i, m - i)"]) auto
  also have "\<dots> = (\<Sum>i\<le>n. \<Sum>j\<le>n - i. h i j (n - i - j))" by (simp add: sum.Sigma)
  finally show ?thesis .
qed

instantiation series :: (comm_ring_1) comm_ring_1
begin

definition zero_series :: "'a series" where "0 = Series (\<lambda>n. 0)"
definition one_series :: "'a series" where "1 = Series (\<lambda>n. if n = 0 then 1 else 0)"
definition plus_series :: "'a series \<Rightarrow> 'a series \<Rightarrow> 'a series" where
  "f + g = Series (\<lambda>n. coeff f n + coeff g n)"
definition minus_series :: "'a series \<Rightarrow> 'a series \<Rightarrow> 'a series" where
  "f - g = Series (\<lambda>n. coeff f n - coeff g n)"
definition uminus_series :: "'a series \<Rightarrow> 'a series" where
  "- f = Series (\<lambda>n. - coeff f n)"
definition times_series :: "'a series \<Rightarrow> 'a series \<Rightarrow> 'a series" where
  "f * g = Series (\<lambda>n. \<Sum>i\<le>n. coeff f i * coeff g (n - i))"

instance
proof
  fix f g h :: "'a series"
  show "f * g = g * f"
    using sum_flip [of "\<lambda>i j. coeff f i * coeff g j"]
    by (intro series_eqI) (simp add: times_series_def mult.commute)
  show "f * g * h = f * (g * h)"
  proof (rule series_eqI)
    fix n
    have "coeff (f * g * h) n = (\<Sum>m\<le>n. \<Sum>i\<le>m. coeff f i * coeff g (m - i) * coeff h (n - m))"
      by (simp add: times_series_def sum_distrib_right)
    also have "\<dots> = (\<Sum>i\<le>n. \<Sum>j\<le>n - i. coeff f i * coeff g j * coeff h (n - i - j))"
      by (rule sum_triples)
    also have "\<dots> = coeff (f * (g * h)) n"
      by (simp add: times_series_def sum_distrib_left mult.assoc)
    finally show "coeff (f * g * h) n = coeff (f * (g * h)) n" .
  qed
  show "1 * f = f"
    by (rule series_eqI)
       (simp add: times_series_def one_series_def if_distrib [of "\<lambda>x. x * _"] sum.delta' cong: if_cong)
  show "(f + g) * h = f * h + g * h"
    by (intro series_eqI) (simp add: times_series_def plus_series_def algebra_simps sum.distrib)
  have "coeff (0::'a series) 0 \<noteq> coeff 1 0" by (simp add: zero_series_def one_series_def)
  then show "(0::'a series) \<noteq> 1" by auto
qed (simp_all add: zero_series_def plus_series_def minus_series_def uminus_series_def algebra_simps
    series_eq_iff)

end

lemma coeff_simps [simp]:
  "coeff 0 n = 0" "coeff 1 n = (if n = 0 then 1 else 0)"
  "coeff (f + g) n = coeff f n + coeff g n" "coeff (f - g) n = coeff f n - coeff g n"
  "coeff (- f) n = - coeff f n"
  by (simp_all add: zero_series_def one_series_def plus_series_def minus_series_def uminus_series_def)

lemma coeff_mult: "coeff (f * g) n = (\<Sum>i\<le>n. coeff f i * coeff g (n - i))"
  by (simp add: times_series_def)

text \<open>Constants and the indeterminate.\<close>

definition const :: "'k::comm_ring_1 \<Rightarrow> 'k series" where
  "const c = Series (\<lambda>n. if n = 0 then c else 0)"

definition monom :: "'k::comm_ring_1 \<Rightarrow> nat \<Rightarrow> 'k series" where
  "monom c k = Series (\<lambda>n. if n = k then c else 0)"

lemma coeff_monom [simp]: "coeff (monom c k) n = (if n = k then c else 0)"
  by (simp add: monom_def)

lemma coeff_const [simp]: "coeff (const c) n = (if n = 0 then c else 0)"
  by (simp add: const_def)

lemma const_monom: "const c = monom c 0"
  by (simp add: const_def monom_def)

lemma coeff_monom_mult:
  "coeff (monom c k * f) n = (if k \<le> n then c * coeff f (n - k) else 0)"
proof -
  have "coeff (monom c k * f) n = (\<Sum>i\<le>n. if i = k then c * coeff f (n - i) else 0)"
    unfolding coeff_mult by (rule sum.cong) auto
  also have "\<dots> = (if k \<le> n then c * coeff f (n - k) else 0)" by (simp add: sum.delta)
  finally show ?thesis .
qed

lemma const_simps: "const 0 = 0" "const 1 = 1" "const (a + b) = const a + const b"
  "const (a * b) = const a * const b"
  by (simp_all add: series_eq_iff const_monom coeff_monom_mult)

lemma const_of_int: "const (of_int i) = of_int i"
proof -
  have n: "const (of_nat n) = (of_nat n :: 'a series)" for n
    by (induction n) (simp_all add: const_simps)
  show ?thesis
  proof (cases i rule: int_diff_cases)
    case (diff m n)
    have "const (a - b) = const a - const b" for a b :: 'a by (simp add: series_eq_iff)
    then show ?thesis by (simp add: diff n)
  qed
qed

end
