(* ===== verification/PolyCorrect.thy ===== *)
theory PolyCorrect
  imports Poly Series Contracts
begin

text \<open>
  The operations of \<open>R[x]\<close> compute with coefficient sequences: \<open>poly_val \<alpha> f\<close> is the
  sequence that the array \<open>f\<close> stands for when \<open>\<alpha>\<close> describes the base ring. An array is in
  normal form when its last coefficient is not zero; the code decides equality and zero on
  normal forms.
\<close>

section \<open>Values of coefficient arrays\<close>

definition poly_val :: "('a \<Rightarrow> 'k::comm_ring_1) \<Rightarrow> 'a poly \<Rightarrow> 'k series" where
  "poly_val \<alpha> f = Series (\<lambda>n. if n < length f then \<alpha> (f ! n) else 0)"

definition normal_poly :: "('a \<Rightarrow> 'k::comm_ring_1) \<Rightarrow> 'a poly \<Rightarrow> bool" where
  "normal_poly \<alpha> f \<longleftrightarrow> f = [] \<or> \<alpha> (last f) \<noteq> 0"

lemma coeff_poly_val: "coeff (poly_val \<alpha> f) n = (if n < length f then \<alpha> (f ! n) else 0)"
  by (simp add: poly_val_def)

lemma poly_val_Nil [simp]: "poly_val \<alpha> [] = 0"
  by (simp add: series_eq_iff coeff_poly_val)

lemma poly_val_single: "poly_val \<alpha> [c] = const (\<alpha> c)"
  by (simp add: series_eq_iff coeff_poly_val)

text \<open>Arrays built by a loop over the indices.\<close>

lemma map_loop:
  assumes "\<And>i. i < n \<Longrightarrow> g i \<in> V" "\<And>i. i < n \<Longrightarrow> \<alpha> (g i) = c i"
  shows "map g [0..<n] \<in> lists V"
    and "coeff (poly_val \<alpha> (map g [0..<n])) i = (if i < n then c i else 0)"
  using assms by (auto simp: coeff_poly_val)

lemma lists_nth [intro]: "f \<in> lists V \<Longrightarrow> i < length f \<Longrightarrow> f ! i \<in> V"
  using nth_mem by fastforce

lemma lists_update: "f \<in> lists V \<Longrightarrow> x \<in> V \<Longrightarrow> f[i := x] \<in> lists V"
  using set_update_subset_insert [of f i x] by auto

lemma normal_coeff:
  assumes "normal_poly \<alpha> f" "f \<noteq> []"
  shows "coeff (poly_val \<alpha> f) (length f - 1) \<noteq> 0"
  using assms by (simp add: normal_poly_def coeff_poly_val last_conv_nth)

text \<open>Normal forms with the same value have the same length.\<close>

lemma normal_length:
  assumes "normal_poly \<alpha> f" "normal_poly \<alpha> g" "poly_val \<alpha> f = poly_val \<alpha> g"
  shows "length f = length g"
proof -
  have le: "length f \<le> length g" if "normal_poly \<alpha> f" "poly_val \<alpha> f = poly_val \<alpha> g" for f g
  proof (rule ccontr)
    assume "\<not> length f \<le> length g"
    then have "f \<noteq> []" "coeff (poly_val \<alpha> g) (length f - 1) = 0" by (auto simp: coeff_poly_val)
    with normal_coeff [OF that(1)] that(2) show False by simp
  qed
  show ?thesis using le [OF assms(1,3)] le [OF assms(2) assms(3) [symmetric]] by simp
qed

lemma normal_zero: "normal_poly \<alpha> f \<Longrightarrow> poly_val \<alpha> f = 0 \<longleftrightarrow> f = []"
  using normal_coeff [of \<alpha> f] by (cases "f = []") auto

section \<open>The operations\<close>

context ring_impl
begin

lemma length_poly_alloc [simp]: "length (poly_alloc F e n) = n"
  by (simp add: poly_alloc_def)

lemma poly_alloc_in [intro, simp]: "e \<in> lists V \<Longrightarrow> poly_alloc F e n \<in> lists V"
  by (auto simp: poly_alloc_def dest: in_set_takeD)

lemma poly_alloc_nth [intro, simp]: "e \<in> lists V \<Longrightarrow> i < n \<Longrightarrow> poly_alloc F e n ! i \<in> V"
  using lists_nth [OF poly_alloc_in, of e i n] by simp

lemma nth_in [intro, simp]: "f \<in> lists V \<Longrightarrow> i < length f \<Longrightarrow> f ! i \<in> V"
  by (rule lists_nth)

lemma zeroes_snoc:
  "poly_remove_leading_zeroes F (f @ [c]) =
     (if element_is0 F c \<noteq> 0 then poly_remove_leading_zeroes F f else f @ [c])"
  by (simp add: poly_remove_leading_zeroes_def)

lemma poly_val_snoc: "poly_val \<alpha> (f @ [c]) = poly_val \<alpha> f + monom (\<alpha> c) (length f)"
  by (auto simp: series_eq_iff coeff_poly_val nth_append)

lemma remove_leading_zeroes_ok:
  assumes "f \<in> lists V"
  shows "poly_remove_leading_zeroes F f \<in> lists V \<and>
    poly_val \<alpha> (poly_remove_leading_zeroes F f) = poly_val \<alpha> f \<and>
    normal_poly \<alpha> (poly_remove_leading_zeroes F f)"
  using assms
proof (induction f rule: rev_induct)
  case Nil
  then show ?case by (simp add: poly_remove_leading_zeroes_def normal_poly_def)
next
  case (snoc c f)
  then have c: "c \<in> V" "f \<in> lists V" by simp_all
  show ?case
  proof (cases "element_is0 F c = 0")
    case True
    then have "\<alpha> c \<noteq> 0" using is0 [OF c(1)] by simp
    then show ?thesis using snoc.prems True by (simp add: zeroes_snoc normal_poly_def)
  next
    case False
    then have "\<alpha> c = 0" using is0 [OF c(1)] by simp
    then have "monom (\<alpha> c) (length f) = 0" by (simp add: series_eq_iff)
    then show ?thesis using snoc.IH [OF c(2)] False by (simp add: zeroes_snoc poly_val_snoc)
  qed
qed

text \<open>What it means for an operation to return an array in normal form with a given value.\<close>

definition computes :: "'a poly \<Rightarrow> 'k series \<Rightarrow> bool" where
  "computes f s \<longleftrightarrow> f \<in> lists V \<and> poly_val \<alpha> f = s"

definition computes_normal :: "'a poly \<Rightarrow> 'k series \<Rightarrow> bool" where
  "computes_normal f s \<longleftrightarrow> computes f s \<and> normal_poly \<alpha> f"

lemma computes_zeroes: "computes f s \<Longrightarrow> computes_normal (poly_remove_leading_zeroes F f) s"
  using remove_leading_zeroes_ok [of f] by (simp add: computes_def computes_normal_def)

lemma computes_map:
  assumes "\<And>i. i < n \<Longrightarrow> g i \<in> V" "\<And>i. i < n \<Longrightarrow> \<alpha> (g i) = coeff s i" "\<And>i. n \<le> i \<Longrightarrow> coeff s i = 0"
  shows "computes (map g [0..<n]) s"
  unfolding computes_def series_eq_iff
  using map_loop [where g = g and V = V and \<alpha> = \<alpha> and c = "coeff s" and n = n] assms by auto

lemma poly_set_ok:
  assumes "e \<in> lists V" "f \<in> lists V"
  shows "computes (poly_set F e f) (poly_val \<alpha> f)" and "length (poly_set F e f) = length f"
    and "i < length f \<Longrightarrow> \<alpha> (poly_set F e f ! i) = \<alpha> (f ! i)"
proof -
  show "computes (poly_set F e f) (poly_val \<alpha> f)"
    unfolding poly_set_def Let_def
    by (rule computes_map) (use assms in \<open>auto simp: coeff_poly_val impl_law\<close>)
qed (use assms in \<open>auto simp: poly_set_def Let_def impl_law\<close>)

lemma poly_set_normal:
  assumes "e \<in> lists V" "f \<in> lists V" "normal_poly \<alpha> f"
  shows "computes_normal (poly_set F e f) (poly_val \<alpha> f)"
  using poly_set_ok [OF assms(1,2)] assms(3)
  by (cases "f = []") (auto simp: computes_normal_def normal_poly_def last_conv_nth poly_set_def Let_def)

lemma poly_set0_ok: "e \<in> lists V \<Longrightarrow> computes_normal (poly_set0 F e) 0"
  by (simp add: poly_set0_def poly_alloc_def computes_normal_def computes_def normal_poly_def)

lemma alloc_1: "(poly_alloc F e (Suc 0))[0 := c] = [c]"
  by (cases e) (simp_all add: poly_alloc_def)

lemma poly_set1_ok:
  assumes "e \<in> lists V"
  shows "computes_normal (poly_set1 F e) 1"
  using assms
  by (simp add: poly_set1_def Let_def alloc_1 computes_normal_def computes_def
      normal_poly_def poly_val_single impl_law const_simps)

lemma single_ok: "c \<in> V \<Longrightarrow> computes_normal (poly_remove_leading_zeroes F [c]) (const (\<alpha> c))"
  by (rule computes_zeroes) (simp add: computes_def poly_val_single)

lemma poly_set_si_ok: "e \<in> lists V \<Longrightarrow> computes_normal (poly_set_si F e i) (of_int i)"
  and poly_set_mpz_ok: "e \<in> lists V \<Longrightarrow> computes_normal (poly_set_mpz F e i) (of_int i)"
  using single_ok [of "element_set_si F (poly_alloc F e 1 ! 0) i"]
    single_ok [of "element_set_mpz F (poly_alloc F e 1 ! 0) i"]
  by (simp_all add: poly_set_si_def poly_set_mpz_def Let_def alloc_1 impl_law const_of_int)

lemma element_field_to_poly_ok:
  "f \<in> lists V \<Longrightarrow> c \<in> V \<Longrightarrow> computes_normal (element_field_to_poly F f c) (const (\<alpha> c))"
  using single_ok [of "element_set F (poly_alloc F f 1 ! 0) c"]
  by (simp add: element_field_to_poly_def Let_def poly_coeff_def alloc_1 impl_law)

lemma poly_add_ok:
  assumes "e \<in> lists V" "f \<in> lists V" "g \<in> lists V"
  shows "computes_normal (poly_add F e f g) (poly_val \<alpha> f + poly_val \<alpha> g)"
  unfolding poly_add_def Let_def poly_coeff_count_def poly_coeff_def
  by (cases "length f > length g"; simp only: if_True if_False prod.case; rule computes_zeroes; rule computes_map)
     (use assms in \<open>auto simp: coeff_poly_val impl_law\<close>)

lemma poly_sub_ok:
  assumes "e \<in> lists V" "f \<in> lists V" "g \<in> lists V"
  shows "computes_normal (poly_sub F e f g) (poly_val \<alpha> f - poly_val \<alpha> g)"
  unfolding poly_sub_def Let_def poly_coeff_count_def poly_coeff_def
  by (cases "length f > length g"; simp only: if_True if_False prod.case; rule computes_zeroes; rule computes_map)
     (use assms in \<open>auto simp: coeff_poly_val impl_law\<close>)

lemma poly_neg_ok:
  assumes "e \<in> lists V" "f \<in> lists V"
  shows "computes (poly_neg F e f) (- poly_val \<alpha> f)"
  unfolding poly_neg_def Let_def
  by (rule computes_map) (use assms in \<open>auto simp: coeff_poly_val impl_law\<close>)

lemma coeff_times_of_int: "coeff (s * of_int z) n = coeff s n * (of_int z :: 'k)"
proof -
  have "s * of_int z = monom (of_int z) 0 * s"
    by (simp only: const_of_int [symmetric] const_monom mult.commute)
  then have "coeff (s * of_int z) n = of_int z * coeff s n" by (simp only: coeff_monom_mult) simp
  then show ?thesis by (simp only: mult.commute)
qed

lemma coeff_times_2: "coeff (2 * s) n = (2 * coeff s n :: 'k)"
  using coeff_times_of_int [of s 2 n] by (simp add: mult.commute)

lemma poly_double_ok:
  assumes "e \<in> lists V" "f \<in> lists V"
  shows "computes (poly_double F e f) (poly_val \<alpha> f + poly_val \<alpha> f)"
  unfolding poly_double_def Let_def
  by (rule computes_map) (use assms in \<open>auto simp: coeff_poly_val impl_law coeff_times_2\<close>)

lemma poly_mul_mpz_ok:
  assumes "e \<in> lists V" "f \<in> lists V"
  shows "computes (poly_mul_mpz F e f z) (poly_val \<alpha> f * of_int z)"
    and "computes (poly_mul_si F e f z) (poly_val \<alpha> f * of_int z)"
  unfolding poly_mul_mpz_def poly_mul_si_def Let_def
  by (rule computes_map; use assms in \<open>auto simp: coeff_poly_val impl_law coeff_times_of_int\<close>)+

lemma poly_const_mul_ok:
  assumes "e \<in> lists V" "c \<in> V" "f \<in> lists V"
  shows "computes_normal (poly_const_mul F e c f) (const (\<alpha> c) * poly_val \<alpha> f)"
  unfolding poly_const_mul_def Let_def poly_coeff_count_def poly_coeff_def
  by (rule computes_zeroes, rule computes_map)
     (use assms in \<open>auto simp: coeff_poly_val impl_law const_monom coeff_monom_mult\<close>)

section \<open>The product\<close>

lemma poly_mul_term_fold:
  assumes f: "f \<in> lists V" "g \<in> lists V" and "x \<in> V" "e0 \<in> V" "\<alpha> x = 0" "k \<le> i + 1"
  shows "\<exists>x' e0'. fold (poly_mul_term F f g i) [0..<k] (x, e0) = (x', e0') \<and> x' \<in> V \<and> e0' \<in> V \<and>
    \<alpha> x' = (\<Sum>j<k. coeff (poly_val \<alpha> f) j * coeff (poly_val \<alpha> g) (i - j))"
  using assms(6)
proof (induction k)
  case 0
  then show ?case using assms by simp
next
  case (Suc k)
  then obtain x1 e1 where IH: "fold (poly_mul_term F f g i) [0..<k] (x, e0) = (x1, e1)"
    "x1 \<in> V" "e1 \<in> V" "\<alpha> x1 = (\<Sum>j<k. coeff (poly_val \<alpha> f) j * coeff (poly_val \<alpha> g) (i - j))"
    by auto
  show ?case
  proof (cases "k < length f \<and> i - k < length g")
    case True
    then have V: "f ! k \<in> V" "g ! (i - k) \<in> V" using f by auto
    define e2 where "e2 = element_mul F e1 (f ! k) (g ! (i - k))"
    have e2: "e2 \<in> V" "\<alpha> e2 = \<alpha> (f ! k) * \<alpha> (g ! (i - k))"
      using V IH(3) by (simp_all add: e2_def impl_law)
    have "fold (poly_mul_term F f g i) [0..<Suc k] (x, e0) = (element_add F x1 x1 e2, e2)"
      using IH(1) True by simp (simp add: poly_mul_term_def Let_def e2_def)
    then show ?thesis using IH True e2 by (simp add: coeff_poly_val impl_law)
  next
    case False
    have "fold (poly_mul_term F f g i) [0..<Suc k] (x, e0) = (x1, e1)"
      using IH(1) False by simp (auto simp add: poly_mul_term_def)
    then show ?thesis using IH False by (auto simp: coeff_poly_val)
  qed
qed

lemma poly_mul_coeff_fold:
  assumes f: "f \<in> lists V" "g \<in> lists V" and p: "pr \<in> lists V" "length pr = n" "e0 \<in> V" and "k \<le> n"
  shows "\<exists>pr' e0'. fold (poly_mul_coeff F f g) [0..<k] (pr, e0) = (pr', e0') \<and>
    pr' \<in> lists V \<and> length pr' = n \<and> e0' \<in> V \<and>
    (\<forall>i<k. \<alpha> (pr' ! i) = coeff (poly_val \<alpha> f * poly_val \<alpha> g) i)"
  using assms(6)
proof (induction k)
  case 0
  then show ?case using p by simp
next
  case (Suc k)
  then obtain pr1 e1 where IH: "fold (poly_mul_coeff F f g) [0..<k] (pr, e0) = (pr1, e1)"
    "pr1 \<in> lists V" "length pr1 = n" "e1 \<in> V"
    "\<forall>i<k. \<alpha> (pr1 ! i) = coeff (poly_val \<alpha> f * poly_val \<alpha> g) i"
    by auto
  have k: "pr1 ! k \<in> V" using IH(2,3) Suc.prems by auto
  then obtain x e2 where x: "fold (poly_mul_term F f g k) [0..<k + 1] (element_set0 F (pr1 ! k), e1) = (x, e2)"
    "x \<in> V" "e2 \<in> V" "\<alpha> x = (\<Sum>j<k + 1. coeff (poly_val \<alpha> f) j * coeff (poly_val \<alpha> g) (k - j))"
    using poly_mul_term_fold [OF f _ IH(4), of "element_set0 F (pr1 ! k)" "k + 1" k]
    by (auto simp: impl_law)
  have "\<alpha> x = coeff (poly_val \<alpha> f * poly_val \<alpha> g) k"
    unfolding x(4) coeff_mult by (rule sum.cong) auto
  moreover have "fold (poly_mul_coeff F f g) [0..<Suc k] (pr, e0) = (pr1[k := x], e2)"
    using IH(1) x(1) by (simp add: poly_mul_coeff_def del: upt_Suc) (simp add: poly_mul_coeff_def)
  ultimately show ?case
    using IH(2-5) x Suc.prems by (auto simp: lists_update nth_list_update less_Suc_eq)
qed

lemma coeff_mult_high:
  assumes "length f + length g \<le> i + 1" "0 < length f" "0 < length g"
  shows "coeff (poly_val \<alpha> f * poly_val \<alpha> g) i = 0"
  unfolding coeff_mult by (rule sum.neutral) (use assms in \<open>auto simp: coeff_poly_val\<close>)

lemma poly_mul_ok:
  assumes "r \<in> lists V" "f \<in> lists V" "g \<in> lists V"
  shows "computes_normal (poly_mul F r f g) (poly_val \<alpha> f * poly_val \<alpha> g)"
proof (cases "length f = 0 \<or> length g = 0")
  case True
  then show ?thesis using poly_set0_ok [OF assms(1)] by (auto simp: poly_mul_def Let_def)
next
  case False
  define n where "n = length f + length g - 1"
  obtain pr e0 where p: "fold (poly_mul_coeff F f g) [0..<n] (poly_alloc F poly_init n, element_init F) = (pr, e0)"
    "pr \<in> lists V" "length pr = n"
    "\<forall>i<n. \<alpha> (pr ! i) = coeff (poly_val \<alpha> f * poly_val \<alpha> g) i"
    using poly_mul_coeff_fold [OF assms(2,3), of "poly_alloc F poly_init n" n "element_init F" n]
    by (auto simp: poly_init_def)
  have "poly_val \<alpha> pr = poly_val \<alpha> f * poly_val \<alpha> g"
  proof (rule series_eqI)
    fix i
    show "coeff (poly_val \<alpha> pr) i = coeff (poly_val \<alpha> f * poly_val \<alpha> g) i"
      using p(3,4) coeff_mult_high [of f g i] False by (cases "i < n") (auto simp: coeff_poly_val n_def)
  qed
  then have "computes_normal (poly_remove_leading_zeroes F pr) (poly_val \<alpha> f * poly_val \<alpha> g)"
    using p(2) by (intro computes_zeroes) (simp add: computes_def)
  then have "computes_normal (poly_set F r (poly_remove_leading_zeroes F pr)) (poly_val \<alpha> f * poly_val \<alpha> g)"
    using poly_set_normal [OF assms(1)] by (auto simp: computes_normal_def computes_def)
  moreover have "poly_mul F r f g = poly_set F r (poly_remove_leading_zeroes F pr)"
    using False p(1) unfolding poly_mul_def Let_def n_def [symmetric] by simp
  ultimately show ?thesis by simp
qed

section \<open>Comparisons\<close>

lemma poly_cmp_loop_ok:
  assumes "f \<in> lists V" "g \<in> lists V" "length f = length g"
  shows "poly_cmp_loop F f g = 0 \<longleftrightarrow> map \<alpha> f = map \<alpha> g"
  using assms(3,1,2) by (induction f g rule: list_induct2) (auto simp: impl_law)

lemma map_eq_iff_val: "length f = length g \<Longrightarrow> map \<alpha> f = map \<alpha> g \<longleftrightarrow> poly_val \<alpha> f = poly_val \<alpha> g"
  by (auto simp: list_eq_iff_nth_eq series_eq_iff coeff_poly_val)

lemma poly_cmp_ok:
  assumes "f \<in> lists V" "g \<in> lists V" "normal_poly \<alpha> f" "normal_poly \<alpha> g"
  shows "poly_cmp F f g = 0 \<longleftrightarrow> poly_val \<alpha> f = poly_val \<alpha> g"
  using normal_length [OF assms(3,4)] map_eq_iff_val [of f g] poly_cmp_loop_ok [OF assms(1,2)]
  by (auto simp: poly_cmp_def poly_coeff_count_def)

lemma poly_is0_ok: "normal_poly \<alpha> f \<Longrightarrow> poly_is0 f \<noteq> 0 \<longleftrightarrow> poly_val \<alpha> f = 0"
  by (simp add: poly_is0_def normal_zero)

end

end
