(* ===== verification/PolyDiv.thy ===== *)
theory PolyDiv
  imports PolyCorrect
begin

text \<open>
  Division with remainder, the Euclidean algorithm and inverses modulo a polynomial, over a
  field: what \<open>poly_div\<close>, \<open>poly_gcd\<close> and \<open>poly_invert\<close> return, and that the loops end.
\<close>

section \<open>Polynomials among the sequences\<close>

context ring_impl
begin

definition polys :: "'k series set" where
  "polys = poly_val \<alpha> ` lists V"

lemma computes_polys: "computes f s \<Longrightarrow> s \<in> polys"
  by (auto simp: computes_def polys_def)

lemma polys_closed [intro]:
  assumes "s \<in> polys" "t \<in> polys"
  shows "s + t \<in> polys" and "s - t \<in> polys" and "s * t \<in> polys"
proof -
  from assms obtain f g where f: "f \<in> lists V" "s = poly_val \<alpha> f" and g: "g \<in> lists V" "t = poly_val \<alpha> g"
    by (auto simp: polys_def)
  show "s + t \<in> polys" "s - t \<in> polys" "s * t \<in> polys"
    using poly_add_ok [OF f(1) f(1) g(1)] poly_sub_ok [OF f(1) f(1) g(1)] poly_mul_ok [OF f(1) f(1) g(1)]
    by (auto simp: computes_normal_def f(2) g(2) intro: computes_polys)
qed

lemma polys_0 [intro, simp]: "0 \<in> polys" and polys_1 [intro, simp]: "1 \<in> polys"
  using poly_set0_ok [of "[]"] poly_set1_ok [of "[]"]
  by (auto simp: computes_normal_def intro: computes_polys)

lemma polys_val [intro, simp]: "f \<in> lists V \<Longrightarrow> poly_val \<alpha> f \<in> polys"
  by (simp add: polys_def)

section \<open>The loop of the division\<close>

lemma poly_div_row_fold:
  assumes "r \<in> lists V" "b \<in> lists V" "qe \<in> V" "e0 \<in> V" "t \<le> length b" "length b + k \<le> length r"
  shows "\<exists>r' e0'. fold (poly_div_row F b k qe) [0..<t] (r, e0) = (r', e0') \<and> r' \<in> lists V \<and> e0' \<in> V \<and>
    length r' = length r \<and>
    (\<forall>i<length r. \<alpha> (r' ! i) = \<alpha> (r ! i) - (if k \<le> i \<and> i < k + t then \<alpha> qe * \<alpha> (b ! (i - k)) else 0))"
  using assms(5)
proof (induction t)
  case 0
  then show ?case using assms by auto
next
  case (Suc t)
  then obtain r1 e1 where IH: "fold (poly_div_row F b k qe) [0..<t] (r, e0) = (r1, e1)"
    "r1 \<in> lists V" "e1 \<in> V" "length r1 = length r"
    "\<forall>i<length r. \<alpha> (r1 ! i) = \<alpha> (r ! i) - (if k \<le> i \<and> i < k + t then \<alpha> qe * \<alpha> (b ! (i - k)) else 0)"
    by auto
  define e2 where "e2 = element_mul F e1 qe (b ! t)"
  define x where "x = element_sub F (r1 ! (t + k)) (r1 ! (t + k)) e2"
  have tk: "t + k < length r" "t < length b" using Suc.prems assms(6) by simp_all
  then have V: "b ! t \<in> V" "r1 ! (t + k) \<in> V" using assms(2) IH(2,4) by auto
  then have e2: "e2 \<in> V" "\<alpha> e2 = \<alpha> qe * \<alpha> (b ! t)" using assms IH by (simp_all add: e2_def impl_law)
  then have x: "x \<in> V" "\<alpha> x = \<alpha> (r ! (t + k)) - \<alpha> qe * \<alpha> (b ! t)"
    using V IH(5) tk by (simp_all add: x_def impl_law)
  have "fold (poly_div_row F b k qe) [0..<Suc t] (r, e0) = (r1[t + k := x], e2)"
    using IH(1) by simp (simp add: poly_div_row_def Let_def poly_coeff_def e2_def x_def)
  moreover have "\<alpha> (r1[t + k := x] ! i) =
      \<alpha> (r ! i) - (if k \<le> i \<and> i < k + Suc t then \<alpha> qe * \<alpha> (b ! (i - k)) else 0)" if "i < length r" for i
  proof (cases "i = t + k")
    case True
    then show ?thesis using x(2) that IH(4) by simp
  next
    case False
    then show ?thesis using IH(5) that by auto
  qed
  ultimately show ?case using IH(2,4) x(1) e2(1) by (simp add: lists_update)
qed

text \<open>The coefficients of the quotient from index \<open>k\<close> on.\<close>

definition high :: "nat \<Rightarrow> 'a poly \<Rightarrow> 'k series" where
  "high k q = Series (\<lambda>i. if i < k then 0 else coeff (poly_val \<alpha> q) i)"

lemma high_0: "high 0 q = poly_val \<alpha> q"
  by (simp add: high_def)

lemma high_update:
  "k < length q \<Longrightarrow> high k (q[k := c]) = high (Suc k) q + monom (\<alpha> c) k"
  by (auto simp: series_eq_iff high_def coeff_poly_val)

lemma poly_div_loop_ok:
  assumes b: "b \<in> lists V" "length b = n + 1" and binv: "binv \<in> V" "\<alpha> (b ! n) * \<alpha> binv = 1"
    and "r \<in> lists V" "q \<in> lists V" "e0 \<in> V" "n + k \<le> length r" "k \<le> length q"
    and "s = high k q * poly_val \<alpha> b + poly_val \<alpha> r" "\<forall>i\<ge>n + k. coeff (poly_val \<alpha> r) i = 0"
  shows "\<exists>q' r' e0'. poly_div_loop F b n binv k (q, r, e0) = (q', r', e0') \<and> q' \<in> lists V \<and> r' \<in> lists V \<and>
    length q' = length q \<and> s = poly_val \<alpha> q' * poly_val \<alpha> b + poly_val \<alpha> r' \<and>
    (\<forall>i\<ge>n. coeff (poly_val \<alpha> r') i = 0)"
  using assms(5-)
proof (induction k arbitrary: q r e0)
  case 0
  then show ?case by (simp add: high_0)
next
  case (Suc k)
  have V: "q ! k \<in> V" "r ! (n + k) \<in> V" using Suc.prems by auto
  define qe where "qe = element_mul F (q ! k) binv (r ! (n + k))"
  have qe: "qe \<in> V" "\<alpha> qe = \<alpha> binv * \<alpha> (r ! (n + k))" using V binv by (simp_all add: qe_def impl_law)
  have len: "length b + k \<le> length r" using Suc.prems b by simp
  obtain r1 e1 where r1: "fold (poly_div_row F b k qe) [0..<n + 1] (r, e0) = (r1, e1)"
    "r1 \<in> lists V" "e1 \<in> V" "length r1 = length r"
    "\<forall>i<length r. \<alpha> (r1 ! i) = \<alpha> (r ! i) - (if k \<le> i \<and> i < k + (n + 1) then \<alpha> qe * \<alpha> (b ! (i - k)) else 0)"
    using poly_div_row_fold [OF Suc.prems(1) b(1) qe(1) Suc.prems(3) _ len, of "n + 1"] b(2) by auto
  have val: "poly_val \<alpha> r1 = poly_val \<alpha> r - monom (\<alpha> qe) k * poly_val \<alpha> b"
    unfolding series_eq_iff
    using r1(4,5) len b(2) by (auto simp: coeff_poly_val coeff_monom_mult)
  have top: "coeff (poly_val \<alpha> r1) (n + k) = 0"
  proof -
    have "coeff (poly_val \<alpha> r1) (n + k) = \<alpha> (r ! (n + k)) - \<alpha> qe * \<alpha> (b ! n)"
      using Suc.prems b(2) by (simp add: val coeff_monom_mult) (simp add: coeff_poly_val)
    also have "\<alpha> qe * \<alpha> (b ! n) = (\<alpha> (b ! n) * \<alpha> binv) * \<alpha> (r ! (n + k))" by (simp add: qe(2) ac_simps)
    finally show ?thesis by (simp add: binv(2))
  qed
  have zero: "\<forall>i\<ge>n + k. coeff (poly_val \<alpha> r1) i = 0"
  proof (intro allI impI)
    fix i
    assume "n + k \<le> i"
    show "coeff (poly_val \<alpha> r1) i = 0"
    proof (cases "i = n + k")
      case True
      with top show ?thesis by simp
    next
      case False
      with \<open>n + k \<le> i\<close> have "n + Suc k \<le> i" "length b \<le> i - k" using b(2) by simp_all
      moreover have "coeff (poly_val \<alpha> r) i = 0" using Suc.prems(7) \<open>n + Suc k \<le> i\<close> by blast
      ultimately show ?thesis by (simp add: val coeff_monom_mult) (simp add: coeff_poly_val)
    qed
  qed
  have "s = high k (q[k := qe]) * poly_val \<alpha> b + poly_val \<alpha> r1"
    using Suc.prems(5,6) by (simp add: high_update val algebra_simps)
  from Suc.IH [OF r1(2) _ r1(3) _ _ this zero] obtain q' r' e0' where
    "poly_div_loop F b n binv k (q[k := qe], r1, e1) = (q', r', e0')" "q' \<in> lists V" "r' \<in> lists V"
    "length q' = length q" "s = poly_val \<alpha> q' * poly_val \<alpha> b + poly_val \<alpha> r'"
    "\<forall>i\<ge>n. coeff (poly_val \<alpha> r') i = 0"
    using Suc.prems(2,4,5) r1(4) qe(1) by (auto simp: lists_update)
  moreover have "poly_div_loop F b n binv (Suc k) (q, r, e0) = poly_div_loop F b n binv k (q[k := qe], r1, e1)"
    using r1(1) by (simp add: Let_def qe_def del: upt_Suc)
  ultimately show ?case by simp
qed

end

section \<open>Division\<close>

lemma normal_length_le:
  assumes "normal_poly \<alpha> f" "\<forall>i\<ge>n. coeff (poly_val \<alpha> f) i = 0"
  shows "length f \<le> n"
proof (rule ccontr)
  assume "\<not> length f \<le> n"
  then have "f \<noteq> []" "coeff (poly_val \<alpha> f) (length f - 1) = 0" using assms(2) by auto
  with normal_coeff [OF assms(1)] show False by simp
qed

context field_impl
begin

text \<open>
  \<open>poly_div\<close> returns the quotient and the remainder, for a divisor in normal form that is not
  zero.
\<close>

lemma poly_div_ok:
  assumes e: "e1 \<in> lists V" "e2 \<in> lists V" and a: "a \<in> lists V" "normal_poly \<alpha> a"
    and b: "b \<in> lists V" "normal_poly \<alpha> b" "b \<noteq> []"
  shows "\<exists>q r. poly_div F e1 e2 a b = Some (q, r) \<and> q \<in> lists V \<and> r \<in> lists V \<and> normal_poly \<alpha> r \<and>
    poly_val \<alpha> a = poly_val \<alpha> q * poly_val \<alpha> b + poly_val \<alpha> r \<and> length r < length b"
proof (cases "length a < length b")
  case True
  have "poly_div F e1 e2 a b = Some (poly_set0 F e1, poly_set F e2 a)"
    using True b(3) by (simp add: poly_div_def poly_is0_def Let_def poly_degree_def poly_coeff_count_def)
  moreover have "computes_normal (poly_set0 F e1) 0" using e(1) by (rule poly_set0_ok)
  moreover have "computes_normal (poly_set F e2 a) (poly_val \<alpha> a)" using e(2) a by (rule poly_set_normal)
  ultimately show ?thesis
    using True poly_set_ok(2) [OF e(2) a(1)] by (auto simp: computes_normal_def computes_def)
next
  case False
  define n where "n = length b - 1"
  define k where "k = length a - length b"
  have n: "length b = n + 1" using b(3) by (simp add: n_def Suc_leI)
  have nk: "nat (poly_degree b) = n" "nat (poly_degree a - poly_degree b) + 1 = k + 1"
    "poly_is0 b = 0" "\<not> poly_degree b > poly_degree a"
    using False b(3) n by (auto simp: poly_degree_def poly_coeff_count_def poly_is0_def k_def)
  define r0 where "r0 = poly_set F poly_init a"
  define q0 where "q0 = poly_alloc F poly_init (k + 1)"
  define binv where "binv = element_invert F (element_init F) (b ! n)"
  have "\<alpha> (b ! n) \<noteq> 0" "b ! n \<in> V" using b n by (auto simp: normal_poly_def last_conv_nth)
  then have binv: "binv \<in> V" "\<alpha> (b ! n) * \<alpha> binv = 1"
    using invert_in [OF init_in, of "b ! n"] invert [OF init_in, of "b ! n"] by (simp_all add: binv_def)
  have r0: "r0 \<in> lists V" "poly_val \<alpha> r0 = poly_val \<alpha> a" "length r0 = length a"
    using poly_set_ok(1,2) [of poly_init a] a(1) by (simp_all add: r0_def poly_init_def computes_def)
  have q0: "q0 \<in> lists V" "length q0 = k + 1" by (simp_all add: q0_def poly_init_def)
  have "high (k + 1) q0 = 0" using q0(2) by (simp add: series_eq_iff high_def coeff_poly_val)
  then have start: "poly_val \<alpha> a = high (k + 1) q0 * poly_val \<alpha> b + poly_val \<alpha> r0" by (simp add: r0(2))
  have top: "\<forall>i\<ge>n + (k + 1). coeff (poly_val \<alpha> r0) i = 0"
    using r0(3) n False by (auto simp: coeff_poly_val k_def)
  obtain q r x where loop: "poly_div_loop F b n binv (k + 1) (q0, r0, element_init F) = (q, r, x)"
    and qr: "q \<in> lists V" "r \<in> lists V" "poly_val \<alpha> a = poly_val \<alpha> q * poly_val \<alpha> b + poly_val \<alpha> r"
    "\<forall>i\<ge>n. coeff (poly_val \<alpha> r) i = 0"
  proof -
    have "n + (k + 1) \<le> length r0" "k + 1 \<le> length q0" using r0(3) q0(2) n False by (simp_all add: k_def)
    from poly_div_loop_ok [OF b(1) n binv r0(1) q0(1) init_in this start top] that
    show thesis by blast
  qed
  let ?r = "poly_remove_leading_zeroes F r"
  have r': "?r \<in> lists V" "poly_val \<alpha> ?r = poly_val \<alpha> r" "normal_poly \<alpha> ?r"
    using remove_leading_zeroes_ok [OF qr(2)] by simp_all
  have res: "poly_div F e1 e2 a b = Some (poly_set F e1 q, poly_set F e2 ?r)"
    using loop unfolding poly_div_def Let_def nk
    by (simp add: nk poly_coeff_def r0_def [symmetric] q0_def [symmetric, unfolded Suc_eq_plus1 [symmetric]]
        binv_def [symmetric] del: poly_div_loop.simps)
  have q': "computes (poly_set F e1 q) (poly_val \<alpha> q)" using e(1) qr(1) by (rule poly_set_ok)
  have rr: "computes_normal (poly_set F e2 ?r) (poly_val \<alpha> r)"
    using poly_set_normal [OF e(2) r'(1,3)] r'(2) by simp
  have "length ?r \<le> n" using normal_length_le [OF r'(3)] qr(4) r'(2) by simp
  then have "length (poly_set F e2 ?r) < length b" using poly_set_ok(2) [OF e(2) r'(1)] n by simp
  with res q' rr qr(3) show ?thesis by (auto simp: computes_normal_def computes_def)
qed

lemma poly_div_by_zero: "poly_div F e1 e2 a [] = None"
  by (simp add: poly_div_def poly_is0_def)

section \<open>Greatest common divisors\<close>

text \<open>\<open>d\<close> divides \<open>a\<close> with a polynomial quotient.\<close>

definition pdvd :: "'k series \<Rightarrow> 'k series \<Rightarrow> bool" where
  "pdvd d a \<longleftrightarrow> (\<exists>u\<in>polys. a = u * d)"

definition combination :: "'k series \<Rightarrow> 'k series \<Rightarrow> 'k series \<Rightarrow> bool" where
  "combination d a b \<longleftrightarrow> (\<exists>u\<in>polys. \<exists>v\<in>polys. d = u * a + v * b)"

lemma pdvd_refl: "pdvd d d"
  unfolding pdvd_def by (rule bexI [of _ 1]) simp_all

lemma pdvd_combine: "u \<in> polys \<Longrightarrow> pdvd d a \<Longrightarrow> pdvd d b \<Longrightarrow> pdvd d (u * a + b)"
proof -
  assume u: "u \<in> polys" and "pdvd d a" "pdvd d b"
  then obtain x y where x: "x \<in> polys" "a = x * d" and y: "y \<in> polys" "b = y * d"
    by (auto simp: pdvd_def)
  then have "u * a + b = (u * x + y) * d" by (simp add: algebra_simps)
  moreover have "u * x + y \<in> polys" using u x(1) y(1) by blast
  ultimately show "pdvd d (u * a + b)" by (auto simp: pdvd_def)
qed

lemma poly_gcd_loop_ok:
  assumes "a \<in> lists V" "normal_poly \<alpha> a" "b \<in> lists V" "normal_poly \<alpha> b" "b \<noteq> []" "q \<in> lists V" "r \<in> lists V"
  shows "\<exists>d. poly_gcd_loop F a b q r = Some (Some d) \<and> d \<in> lists V \<and> normal_poly \<alpha> d \<and>
    pdvd (poly_val \<alpha> d) (poly_val \<alpha> a) \<and> pdvd (poly_val \<alpha> d) (poly_val \<alpha> b) \<and>
    combination (poly_val \<alpha> d) (poly_val \<alpha> a) (poly_val \<alpha> b)"
  using assms
proof (induction "length b" arbitrary: a b q r rule: less_induct)
  case less
  note a = less.prems(1,2) and b = less.prems(3-5)
  obtain q' r' where div: "poly_div F q r a b = Some (q', r')" "q' \<in> lists V" "r' \<in> lists V" "normal_poly \<alpha> r'"
    "poly_val \<alpha> a = poly_val \<alpha> q' * poly_val \<alpha> b + poly_val \<alpha> r'" "length r' < length b"
    using poly_div_ok [OF less.prems(6,7) a b] by blast
  show ?case
  proof (cases "r' = []")
    case True
    then have "poly_gcd_loop F a b q r = Some (Some b)"
      using div(1) by (subst poly_gcd_loop.simps) (simp add: poly_is0_def)
    moreover have "pdvd (poly_val \<alpha> b) (poly_val \<alpha> a)"
      using div(2,5) True by (auto simp: pdvd_def)
    moreover have "combination (poly_val \<alpha> b) (poly_val \<alpha> a) (poly_val \<alpha> b)"
      unfolding combination_def by (rule bexI [of _ 0], rule bexI [of _ 1]) simp_all
    ultimately show ?thesis using b pdvd_refl by blast
  next
    case False
    define a1 b1 where "a1 = poly_set F a b" and "b1 = poly_set F b r'"
    have a1: "a1 \<in> lists V" "normal_poly \<alpha> a1" "poly_val \<alpha> a1 = poly_val \<alpha> b"
      using poly_set_normal [OF a(1) b(1,2)] by (simp_all add: a1_def computes_normal_def computes_def)
    have b1: "b1 \<in> lists V" "normal_poly \<alpha> b1" "poly_val \<alpha> b1 = poly_val \<alpha> r'" "length b1 = length r'"
      using poly_set_normal [OF b(1) div(3,4)] poly_set_ok(2) [OF b(1) div(3)]
      by (simp_all add: b1_def computes_normal_def computes_def)
    have "b1 \<noteq> []" "length b1 < length b" using b1(4) False div(6) by auto
    from less.hyps [OF this(2) a1(1,2) b1(1,2) this(1) div(2,3)] obtain d where
      d: "poly_gcd_loop F a1 b1 q' r' = Some (Some d)" "d \<in> lists V" "normal_poly \<alpha> d"
      "pdvd (poly_val \<alpha> d) (poly_val \<alpha> b)" "pdvd (poly_val \<alpha> d) (poly_val \<alpha> r')"
      "combination (poly_val \<alpha> d) (poly_val \<alpha> b) (poly_val \<alpha> r')"
      unfolding a1(3) b1(3) by blast
    have "poly_gcd_loop F a b q r = Some (Some d)"
      using div(1) False d(1) by (subst poly_gcd_loop.simps) (simp add: poly_is0_def a1_def b1_def)
    moreover have "pdvd (poly_val \<alpha> d) (poly_val \<alpha> a)"
      unfolding div(5) using div(2) d(4,5) by (intro pdvd_combine) simp_all
    moreover have "combination (poly_val \<alpha> d) (poly_val \<alpha> a) (poly_val \<alpha> b)"
    proof -
      obtain u v where uv: "u \<in> polys" "v \<in> polys" "poly_val \<alpha> d = u * poly_val \<alpha> b + v * poly_val \<alpha> r'"
        using d(6) by (auto simp: combination_def)
      have "poly_val \<alpha> d = v * poly_val \<alpha> a + (u - v * poly_val \<alpha> q') * poly_val \<alpha> b"
        unfolding uv(3) div(5) by (simp add: algebra_simps)
      moreover have "u - v * poly_val \<alpha> q' \<in> polys" using uv(1,2) div(2) by (intro polys_closed) simp_all
      ultimately show ?thesis using uv(2) by (auto simp: combination_def)
    qed
    ultimately show ?thesis using d by blast
  qed
qed

lemma poly_gcd_ok:
  assumes "d0 \<in> lists V" "f \<in> lists V" "normal_poly \<alpha> f" "g \<in> lists V" "normal_poly \<alpha> g" "g \<noteq> []"
  shows "\<exists>d. poly_gcd F d0 f g = Some (Some d) \<and> d \<in> lists V \<and> normal_poly \<alpha> d \<and>
    pdvd (poly_val \<alpha> d) (poly_val \<alpha> f) \<and> pdvd (poly_val \<alpha> d) (poly_val \<alpha> g) \<and>
    combination (poly_val \<alpha> d) (poly_val \<alpha> f) (poly_val \<alpha> g)"
proof -
  have nil: "poly_init \<in> lists V" by (simp add: poly_init_def)
  have f: "poly_set F poly_init f \<in> lists V" "normal_poly \<alpha> (poly_set F poly_init f)"
    "poly_val \<alpha> (poly_set F poly_init f) = poly_val \<alpha> f"
    using poly_set_normal [OF nil assms(2,3)] by (simp_all add: computes_normal_def computes_def)
  have g: "poly_set F poly_init g \<in> lists V" "normal_poly \<alpha> (poly_set F poly_init g)"
    "poly_val \<alpha> (poly_set F poly_init g) = poly_val \<alpha> g" "poly_set F poly_init g \<noteq> []"
    using poly_set_normal [OF nil assms(4,5)] poly_set_ok(2) [OF nil assms(4)] assms(6)
    by (auto simp: computes_normal_def computes_def)
  obtain d where d: "poly_gcd_loop F (poly_set F poly_init f) (poly_set F poly_init g) poly_init poly_init = Some (Some d)"
    "d \<in> lists V" "normal_poly \<alpha> d" "pdvd (poly_val \<alpha> d) (poly_val \<alpha> f)" "pdvd (poly_val \<alpha> d) (poly_val \<alpha> g)"
    "combination (poly_val \<alpha> d) (poly_val \<alpha> f) (poly_val \<alpha> g)"
    using poly_gcd_loop_ok [OF f(1,2) g(1,2,4) nil nil] unfolding f(3) g(3) by blast
  have "computes_normal (poly_set F d0 d) (poly_val \<alpha> d)" using assms(1) d(2,3) by (rule poly_set_normal)
  with d show ?thesis by (auto simp: poly_gcd_def Let_def computes_normal_def computes_def)
qed

end

end
