(* ===== verification/PolyInvert.thy ===== *)
theory PolyInvert
  imports PolyDiv
begin

text \<open>
  \<open>poly_invert\<close>: the inverse modulo a polynomial, and evaluation of polynomials at a point of
  the ring that describes the base field, which carries the identities over to extensions.
\<close>

section \<open>The extended Euclidean algorithm\<close>

context field_impl
begin

text \<open>
  The state of the loop: the arrays are well formed, and \<open>b0\<close>, \<open>b1\<close> are the factors of \<open>f\<close>
  in the combinations \<open>r0\<close> and \<open>r1\<close> of \<open>f\<close> and \<open>m\<close>.
\<close>

definition euclid_inv :: "'k series \<Rightarrow> 'k series \<Rightarrow> 'a euclid \<Rightarrow> bool" where
  "euclid_inv f m s \<longleftrightarrow>
     {eu_b0 s, eu_b1 s, eu_b2 s, eu_q s, eu_r0 s, eu_r1 s, eu_r2 s} \<subseteq> lists V \<and>
     normal_poly \<alpha> (eu_r0 s) \<and> normal_poly \<alpha> (eu_r1 s) \<and> eu_r1 s \<noteq> [] \<and>
     (\<exists>c0\<in>polys. poly_val \<alpha> (eu_r0 s) = poly_val \<alpha> (eu_b0 s) * f + c0 * m) \<and>
     (\<exists>c1\<in>polys. poly_val \<alpha> (eu_r1 s) = poly_val \<alpha> (eu_b1 s) * f + c1 * m) \<and>
     (\<forall>d. pdvd d (poly_val \<alpha> (eu_r0 s)) \<and> pdvd d (poly_val \<alpha> (eu_r1 s)) \<longrightarrow> pdvd d f \<and> pdvd d m)"

lemma poly_invert_step_inv:
  assumes inv: "euclid_inv f m s" and q: "q \<in> lists V" and r: "r2 \<in> lists V" "normal_poly \<alpha> r2" "r2 \<noteq> []"
    and div: "poly_val \<alpha> (eu_r0 s) = poly_val \<alpha> q * poly_val \<alpha> (eu_r1 s) + poly_val \<alpha> r2"
  shows "euclid_inv f m (poly_invert_step F (s\<lparr> eu_q := q, eu_r2 := r2 \<rparr>))"
    and "length (eu_r1 (poly_invert_step F (s\<lparr> eu_q := q, eu_r2 := r2 \<rparr>))) = length r2"
proof -
  define t where "t = poly_invert_step F (s\<lparr> eu_q := q, eu_r2 := r2 \<rparr>)"
  define b2 where "b2 = poly_sub F (poly_mul F (eu_b2 s) (eu_b1 s) q) (eu_b0 s) (poly_mul F (eu_b2 s) (eu_b1 s) q)"
  have V: "eu_b0 s \<in> lists V" "eu_b1 s \<in> lists V" "eu_b2 s \<in> lists V" "eu_q s \<in> lists V"
    "eu_r0 s \<in> lists V" "eu_r1 s \<in> lists V" "eu_r2 s \<in> lists V"
    using inv by (simp_all add: euclid_inv_def)
  have prod: "poly_mul F (eu_b2 s) (eu_b1 s) q \<in> lists V"
    "poly_val \<alpha> (poly_mul F (eu_b2 s) (eu_b1 s) q) = poly_val \<alpha> (eu_b1 s) * poly_val \<alpha> q"
    using poly_mul_ok [OF V(3,2) q] by (simp_all add: computes_normal_def computes_def)
  then have b2: "b2 \<in> lists V" "poly_val \<alpha> b2 = poly_val \<alpha> (eu_b0 s) - poly_val \<alpha> (eu_b1 s) * poly_val \<alpha> q"
    using poly_sub_ok [OF prod(1) V(1) prod(1)] by (simp_all add: b2_def computes_normal_def computes_def)
  have set: "poly_set F e x \<in> lists V" "poly_val \<alpha> (poly_set F e x) = poly_val \<alpha> x"
    "normal_poly \<alpha> x \<Longrightarrow> normal_poly \<alpha> (poly_set F e x)" "length (poly_set F e x) = length x"
    if "e \<in> lists V" "x \<in> lists V" for e x
    using poly_set_ok [OF that] poly_set_normal [OF that] by (simp_all add: computes_normal_def computes_def)
  have t: "t = s\<lparr> eu_q := q, eu_r2 := r2, eu_b0 := poly_set F (eu_b0 s) (eu_b1 s),
      eu_b1 := poly_set F (eu_b1 s) b2, eu_b2 := b2, eu_r0 := poly_set F (eu_r0 s) (eu_r1 s),
      eu_r1 := poly_set F (eu_r1 s) r2 \<rparr>"
    by (simp add: t_def poly_invert_step_def Let_def b2_def)
  have norm: "normal_poly \<alpha> (eu_r1 s)" using inv by (simp add: euclid_inv_def)
  obtain c0 c1 where c: "c0 \<in> polys" "c1 \<in> polys"
    "poly_val \<alpha> (eu_r0 s) = poly_val \<alpha> (eu_b0 s) * f + c0 * m"
    "poly_val \<alpha> (eu_r1 s) = poly_val \<alpha> (eu_b1 s) * f + c1 * m"
    using inv unfolding euclid_inv_def by blast
  have r2: "poly_val \<alpha> r2 = poly_val \<alpha> (eu_r0 s) - poly_val \<alpha> q * poly_val \<alpha> (eu_r1 s)" using div by simp
  have "poly_val \<alpha> r2 = poly_val \<alpha> b2 * f + (c0 - poly_val \<alpha> q * c1) * m"
    unfolding r2 c(3,4) b2(2) by (simp add: algebra_simps)
  moreover have "c0 - poly_val \<alpha> q * c1 \<in> polys" using c(1,2) q by (intro polys_closed) simp_all
  moreover have "pdvd d f \<and> pdvd d m" if "pdvd d (poly_val \<alpha> (eu_r1 s))" "pdvd d (poly_val \<alpha> r2)" for d
  proof -
    have "pdvd d (poly_val \<alpha> (eu_r0 s))" unfolding div using that q by (intro pdvd_combine) simp_all
    with that inv show ?thesis unfolding euclid_inv_def by blast
  qed
  moreover have "poly_set F (eu_r1 s) r2 \<noteq> []" using set(4) [OF V(6) r(1)] r(3) by auto
  ultimately show "euclid_inv f m (poly_invert_step F (s\<lparr> eu_q := q, eu_r2 := r2 \<rparr>))"
    unfolding t_def [symmetric] t euclid_inv_def
    using V q r norm b2(1) c by (auto simp: set)
  show "length (eu_r1 (poly_invert_step F (s\<lparr> eu_q := q, eu_r2 := r2 \<rparr>))) = length r2"
    unfolding t_def [symmetric] t using set(4) [OF V(6) r(1)] by simp
qed

text \<open>The loop ends, at a common divisor of \<open>f\<close> and \<open>m\<close> that is a combination of them.\<close>

lemma poly_invert_loop_ok:
  assumes "euclid_inv f m s"
  shows "\<exists>t. poly_invert_loop F s = Some (Some t) \<and> eu_b1 t \<in> lists V \<and> eu_r1 t \<in> lists V \<and>
    normal_poly \<alpha> (eu_r1 t) \<and> eu_r1 t \<noteq> [] \<and>
    (\<exists>c\<in>polys. poly_val \<alpha> (eu_r1 t) = poly_val \<alpha> (eu_b1 t) * f + c * m) \<and>
    pdvd (poly_val \<alpha> (eu_r1 t)) f \<and> pdvd (poly_val \<alpha> (eu_r1 t)) m"
  using assms
proof (induction "length (eu_r1 s)" arbitrary: s rule: less_induct)
  case less
  have V: "eu_q s \<in> lists V" "eu_r2 s \<in> lists V" "eu_r0 s \<in> lists V" "eu_r1 s \<in> lists V" "eu_b1 s \<in> lists V"
    and n: "normal_poly \<alpha> (eu_r0 s)" "normal_poly \<alpha> (eu_r1 s)" "eu_r1 s \<noteq> []"
    using less.prems by (simp_all add: euclid_inv_def)
  obtain q r2 where div: "poly_div F (eu_q s) (eu_r2 s) (eu_r0 s) (eu_r1 s) = Some (q, r2)"
    "q \<in> lists V" "r2 \<in> lists V" "normal_poly \<alpha> r2"
    "poly_val \<alpha> (eu_r0 s) = poly_val \<alpha> q * poly_val \<alpha> (eu_r1 s) + poly_val \<alpha> r2"
    "length r2 < length (eu_r1 s)"
    using poly_div_ok [OF V(1,2,3) n(1) V(4) n(2,3)] by blast
  show ?case
  proof (cases "r2 = []")
    case True
    then have "poly_invert_loop F s = Some (Some (s\<lparr> eu_q := q, eu_r2 := r2 \<rparr>))"
      using div(1) by (subst poly_invert_loop.simps) (simp add: poly_is0_def Let_def)
    moreover have "pdvd (poly_val \<alpha> (eu_r1 s)) (poly_val \<alpha> (eu_r0 s))"
      using div(2,5) True by (auto simp: pdvd_def)
    then have "pdvd (poly_val \<alpha> (eu_r1 s)) f \<and> pdvd (poly_val \<alpha> (eu_r1 s)) m"
      using less.prems pdvd_refl unfolding euclid_inv_def by blast
    moreover have "\<exists>c\<in>polys. poly_val \<alpha> (eu_r1 s) = poly_val \<alpha> (eu_b1 s) * f + c * m"
      using less.prems unfolding euclid_inv_def by blast
    ultimately show ?thesis using V n by simp
  next
    case False
    note step = poly_invert_step_inv [OF less.prems div(2,3,4) False div(5)]
    have "length (eu_r1 (poly_invert_step F (s\<lparr> eu_q := q, eu_r2 := r2 \<rparr>))) < length (eu_r1 s)"
      using step(2) div(6) by simp
    moreover have "poly_invert_loop F s = poly_invert_loop F (poly_invert_step F (s\<lparr> eu_q := q, eu_r2 := r2 \<rparr>))"
      using div(1) False by (subst poly_invert_loop.simps) (simp add: poly_is0_def Let_def)
    ultimately show ?thesis using less.hyps [OF _ step(1)] by simp
  qed
qed

text \<open>A divisor of 1 in normal form is a constant.\<close>

lemma unit_length:
  assumes "f \<in> lists V" "normal_poly \<alpha> f" "f \<noteq> []" "u \<in> polys" "u * poly_val \<alpha> f = 1"
  shows "length f = 1"
proof -
  obtain g0 where g0: "g0 \<in> lists V" "u = poly_val \<alpha> g0" using assms(4) by (auto simp: polys_def)
  define g where "g = poly_remove_leading_zeroes F g0"
  have g: "g \<in> lists V" "u = poly_val \<alpha> g" "normal_poly \<alpha> g"
    using remove_leading_zeroes_ok [OF g0(1)] g0(2) by (simp_all add: g_def)
  have gne: "g \<noteq> []" using assms(5) g(2) by auto
  define i j where "i = length f - 1" and "j = length g - 1"
  have ij: "length f = i + 1" "length g = j + 1" using assms(3) gne by (simp_all add: i_def j_def Suc_leI)
  have "coeff (u * poly_val \<alpha> f) (i + j) = (\<Sum>k\<le>i + j. if k = j then \<alpha> (g ! j) * \<alpha> (f ! i) else 0)"
    unfolding coeff_mult g(2) by (rule sum.cong) (use ij in \<open>auto simp: coeff_poly_val\<close>)
  also have "\<dots> = \<alpha> (g ! j) * \<alpha> (f ! i)" by simp
  finally have top: "coeff (u * poly_val \<alpha> f) (i + j) = \<alpha> (g ! j) * \<alpha> (f ! i)" .
  have "\<alpha> (g ! j) \<noteq> 0" "\<alpha> (f ! i) \<noteq> 0"
    using g(3) gne assms(2,3) ij by (simp_all add: normal_poly_def last_conv_nth)
  then have "\<alpha> (g ! j) * \<alpha> (f ! i) \<noteq> 0"
    using no_zero_divisors [of "g ! j" "f ! i"] g(1) assms(1) ij by auto
  then have "i + j = 0" using top assms(5) by (simp split: if_splits)
  then show ?thesis using ij by simp
qed

lemma euclid_start:
  assumes f: "f \<in> lists V" "normal_poly \<alpha> f" "f \<noteq> []" and m: "m \<in> lists V" "normal_poly \<alpha> m"
  shows "euclid_inv (poly_val \<alpha> f) (poly_val \<alpha> m)
    \<lparr> eu_b0 = poly_set0 F poly_init, eu_b1 = poly_set1 F poly_init, eu_b2 = poly_init,
      eu_q = poly_init, eu_r0 = poly_set F poly_init m, eu_r1 = poly_set F poly_init f, eu_r2 = poly_init \<rparr>"
proof -
  have nil: "poly_init \<in> lists V" by (simp add: poly_init_def)
  show ?thesis
    unfolding euclid_inv_def
    using poly_set_normal [OF nil f(1,2)] poly_set_normal [OF nil m] poly_set_ok(2) [OF nil f(1)]
      poly_set0_ok [OF nil] poly_set1_ok [OF nil] f(3) nil
    by (auto simp: computes_normal_def computes_def intro: bexI [of _ 0] bexI [of _ 1])
qed

text \<open>
  When \<open>f\<close> and \<open>m\<close> have no common factor the result is an inverse of \<open>f\<close> modulo \<open>m\<close>.
\<close>

lemma poly_invert_ok:
  assumes "res \<in> lists V" and f: "f \<in> lists V" "normal_poly \<alpha> f" "f \<noteq> []"
    and m: "m \<in> lists V" "normal_poly \<alpha> m"
    and coprime: "combination 1 (poly_val \<alpha> f) (poly_val \<alpha> m)"
  shows "\<exists>r. poly_invert F res f m = Some (Some r) \<and> r \<in> lists V \<and> normal_poly \<alpha> r \<and>
    (\<exists>c\<in>polys. poly_val \<alpha> r * poly_val \<alpha> f + c * poly_val \<alpha> m = 1)"
proof -
  define s where "s = \<lparr> eu_b0 = poly_set0 F poly_init, eu_b1 = poly_set1 F poly_init, eu_b2 = poly_init,
    eu_q = poly_init, eu_r0 = poly_set F poly_init m, eu_r1 = poly_set F poly_init f, eu_r2 = poly_init \<rparr>"
  have nil: "poly_init \<in> lists V" by (simp add: poly_init_def)
  have "euclid_inv (poly_val \<alpha> f) (poly_val \<alpha> m) s" unfolding s_def by (rule euclid_start [OF f m])
  then obtain t where t: "poly_invert_loop F s = Some (Some t)" "eu_b1 t \<in> lists V" "eu_r1 t \<in> lists V"
    "normal_poly \<alpha> (eu_r1 t)" "eu_r1 t \<noteq> []" "pdvd (poly_val \<alpha> (eu_r1 t)) (poly_val \<alpha> f)"
    "pdvd (poly_val \<alpha> (eu_r1 t)) (poly_val \<alpha> m)"
    "\<exists>c\<in>polys. poly_val \<alpha> (eu_r1 t) = poly_val \<alpha> (eu_b1 t) * poly_val \<alpha> f + c * poly_val \<alpha> m"
    using poly_invert_loop_ok by blast
  have "pdvd (poly_val \<alpha> (eu_r1 t)) 1"
  proof -
    obtain u v where "u \<in> polys" "v \<in> polys" "1 = u * poly_val \<alpha> f + v * poly_val \<alpha> m"
      using coprime by (auto simp: combination_def)
    moreover have "pdvd (poly_val \<alpha> (eu_r1 t)) (v * poly_val \<alpha> m + 0)"
      using t(7) \<open>v \<in> polys\<close> by (intro pdvd_combine) (auto simp: pdvd_def intro: bexI [of _ 0])
    ultimately show ?thesis using pdvd_combine [of u _ "poly_val \<alpha> f" "v * poly_val \<alpha> m"] t(6) by simp
  qed
  then have "length (eu_r1 t) = 1" using unit_length t(3-5) by (auto simp: pdvd_def)
  then obtain g where g: "eu_r1 t = [g]" by (cases "eu_r1 t") auto
  have gV: "g \<in> V" "\<alpha> g \<noteq> 0" using t(3,4) g by (simp_all add: normal_poly_def)
  define inv where "inv = element_invert F (element_init F) g"
  have inv: "inv \<in> V" "\<alpha> g * \<alpha> inv = 1"
    using invert_in [OF init_in gV] invert [OF init_in gV] by (simp_all add: inv_def)
  define r where "r = poly_const_mul F res inv (eu_b1 t)"
  have r: "r \<in> lists V" "normal_poly \<alpha> r" "poly_val \<alpha> r = const (\<alpha> inv) * poly_val \<alpha> (eu_b1 t)"
    using poly_const_mul_ok [OF assms(1) inv(1) t(2)] by (simp_all add: r_def computes_normal_def computes_def)
  obtain c where c: "c \<in> polys" "const (\<alpha> g) = poly_val \<alpha> (eu_b1 t) * poly_val \<alpha> f + c * poly_val \<alpha> m"
    using t(8) unfolding g poly_val_single by blast
  have "poly_val \<alpha> r * poly_val \<alpha> f + const (\<alpha> inv) * c * poly_val \<alpha> m = const (\<alpha> inv) * const (\<alpha> g)"
    unfolding r(3) c(2) by (simp add: algebra_simps)
  also have "\<dots> = 1" by (simp only: const_simps(4) [symmetric] inv(2) mult.commute) (simp add: const_simps inv(2) mult.commute)
  finally have eq: "poly_val \<alpha> r * poly_val \<alpha> f + const (\<alpha> inv) * c * poly_val \<alpha> m = 1" .
  have "const (\<alpha> inv) \<in> polys" using polys_val [of "[inv]"] inv(1) by (simp add: poly_val_single)
  then have "const (\<alpha> inv) * c \<in> polys" using c(1) by (rule polys_closed)
  moreover have "poly_invert F res f m = Some (Some r)"
    using t(1) g by (simp add: poly_invert_def s_def Let_def poly_coeff_def r_def inv_def)
  ultimately show ?thesis using r(1,2) eq by blast
qed

end

section \<open>Evaluation\<close>

definition poly_eval :: "('a \<Rightarrow> 'k::comm_ring_1) \<Rightarrow> 'k \<Rightarrow> 'a poly \<Rightarrow> 'k" where
  "poly_eval \<alpha> \<theta> f = (\<Sum>i<length f. \<alpha> (f ! i) * \<theta> ^ i)"

lemma poly_eval_bound:
  "length f \<le> N \<Longrightarrow> poly_eval \<alpha> \<theta> f = (\<Sum>i<N. coeff (poly_val \<alpha> f) i * \<theta> ^ i)"
  unfolding poly_eval_def
  by (rule sum.mono_neutral_cong_left) (auto simp: coeff_poly_val)

text \<open>The product of two sums is the sum over the diagonals.\<close>

lemma sum_product_diagonal:
  fixes a b :: "nat \<Rightarrow> 'k::comm_ring_1"
  assumes "\<And>i. N \<le> i \<Longrightarrow> a i = 0" "\<And>i. N \<le> i \<Longrightarrow> b i = 0"
  shows "(\<Sum>i<N. a i * \<theta> ^ i) * (\<Sum>i<N. b i * \<theta> ^ i) = (\<Sum>n<2 * N. (\<Sum>i\<le>n. a i * b (n - i)) * \<theta> ^ n)"
proof -
  have "(\<Sum>i<N. a i * \<theta> ^ i) * (\<Sum>i<N. b i * \<theta> ^ i) =
      (\<Sum>(i, j)\<in>{..<N} \<times> {..<N}. a i * b j * \<theta> ^ (i + j))"
    by (simp add: sum_product sum.cartesian_product power_add algebra_simps)
  also have "\<dots> = (\<Sum>(i, j)\<in>{(i, j). i + j < 2 * N}. a i * b j * \<theta> ^ (i + j))"
  proof (rule sum.mono_neutral_left)
    have "{(i, j). i + j < 2 * N} \<subseteq> {..<2 * N} \<times> {..<2 * N}" by auto
    then show "finite {(i, j). i + j < 2 * N}" by (rule finite_subset) simp
    show "\<forall>x\<in>{(i, j). i + j < 2 * N} - {..<N} \<times> {..<N}. (case x of (i, j) \<Rightarrow> a i * b j * \<theta> ^ (i + j)) = 0"
    proof
      fix x
      assume x: "x \<in> {(i, j). i + j < 2 * N} - {..<N} \<times> {..<N}"
      obtain i j where "x = (i, j)" by (cases x)
      moreover from this x have "N \<le> i \<or> N \<le> j" by auto
      ultimately show "(case x of (i, j) \<Rightarrow> a i * b j * \<theta> ^ (i + j)) = 0" using assms by auto
    qed
  qed auto
  also have "\<dots> = (\<Sum>(n, i)\<in>(SIGMA n:{..<2 * N}. {..n}). a i * b (n - i) * \<theta> ^ n)"
    by (rule sum.reindex_bij_witness [of _ "\<lambda>(n, i). (i, n - i)" "\<lambda>(i, j). (i + j, i)"]) auto
  also have "\<dots> = (\<Sum>n<2 * N. (\<Sum>i\<le>n. a i * b (n - i)) * \<theta> ^ n)"
    by (simp add: sum.Sigma sum_distrib_right)
  finally show ?thesis .
qed

lemma poly_eval_mult_add:
  assumes "poly_val \<alpha> f = poly_val \<alpha> g * poly_val \<alpha> h + poly_val \<alpha> k"
  shows "poly_eval \<alpha> \<theta> f = poly_eval \<alpha> \<theta> g * poly_eval \<alpha> \<theta> h + poly_eval \<alpha> \<theta> k"
proof -
  define N where "N = length f + length g + length h + length k"
  have high: "coeff (poly_val \<alpha> x) i = 0" if "length x \<le> N" "N \<le> i" for x i
    using that by (simp add: coeff_poly_val)
  have "poly_eval \<alpha> \<theta> g * poly_eval \<alpha> \<theta> h =
      (\<Sum>n<2 * N. coeff (poly_val \<alpha> g * poly_val \<alpha> h) n * \<theta> ^ n)"
    using sum_product_diagonal [of N "coeff (poly_val \<alpha> g)" "coeff (poly_val \<alpha> h)" \<theta>] high
    by (simp add: poly_eval_bound [of _ N] N_def coeff_mult)
  moreover have "poly_eval \<alpha> \<theta> k = (\<Sum>n<2 * N. coeff (poly_val \<alpha> k) n * \<theta> ^ n)"
    by (rule poly_eval_bound) (simp add: N_def)
  moreover have "poly_eval \<alpha> \<theta> f = (\<Sum>n<2 * N. coeff (poly_val \<alpha> f) n * \<theta> ^ n)"
    by (rule poly_eval_bound) (simp add: N_def)
  ultimately show ?thesis unfolding assms by (simp add: sum.distrib [symmetric] distrib_right)
qed

end
