(* ===== verification/PolyProps.thy ===== *)
theory PolyProps
  imports PolyInvert NaiveFp
begin

text \<open>
  The properties of the polynomial ring of \<^verbatim>\<open>arith/poly.c\<close> over any base ring that keeps its
  contract, and over the integers modulo 7 in the witnesses. A polynomial is given by its
  array, \<open>poly_val\<close> is its coefficient sequence, \<open>normal_poly\<close> says that the leading
  coefficient is not zero.
\<close>

lemma ring7: "ring_impl (field_init_naive_fp gmp_ref 7) {0..<7} (of_int :: int \<Rightarrow> 7)"
  and field7: "field_impl (field_init_naive_fp gmp_ref 7) {0..<7} (of_int :: int \<Rightarrow> 7)"
  by unfold_locales

lemma normal7: "normal_poly (of_int :: int \<Rightarrow> 7) [4, 5, 1]" "normal_poly (of_int :: int \<Rightarrow> 7) [1, 1]"
  "normal_poly (of_int :: int \<Rightarrow> 7) [0, 3, 2]"
  by (simp_all add: normal_poly_def)

text \<open>
  Sums, differences and products of polynomials are those of the coefficient sequences,
  whatever array held the result before, and their arrays are in normal form; on normal forms
  \<open>poly_cmp\<close> decides equality and \<open>poly_is0\<close> decides zero.
\<close>

theorem poly_arith:
  assumes "ring_impl B V \<alpha>" "e \<in> lists V" "f \<in> lists V" "g \<in> lists V"
    and "normal_poly \<alpha> f" "normal_poly \<alpha> g"
  shows "poly_val \<alpha> (poly_add B e f g) = poly_val \<alpha> f + poly_val \<alpha> g \<and> normal_poly \<alpha> (poly_add B e f g) \<and>
    poly_val \<alpha> (poly_sub B e f g) = poly_val \<alpha> f - poly_val \<alpha> g \<and> normal_poly \<alpha> (poly_sub B e f g) \<and>
    poly_val \<alpha> (poly_mul B e f g) = poly_val \<alpha> f * poly_val \<alpha> g \<and> normal_poly \<alpha> (poly_mul B e f g) \<and>
    (poly_cmp B f g = 0 \<longleftrightarrow> poly_val \<alpha> f = poly_val \<alpha> g) \<and>
    (poly_is0 f \<noteq> 0 \<longleftrightarrow> poly_val \<alpha> f = 0)"
  using ring_impl.poly_add_ok [OF assms(1-4)] ring_impl.poly_sub_ok [OF assms(1-4)]
    ring_impl.poly_mul_ok [OF assms(1-4)] ring_impl.poly_cmp_ok [OF assms(1,3-6)]
    ring_impl.poly_is0_ok [OF assms(1,5)]
  by (simp add: ring_impl.computes_normal_def [OF assms(1)] ring_impl.computes_def [OF assms(1)])

lemma poly_arith_witness:
  "poly_val (of_int :: int \<Rightarrow> 7) (poly_mul (field_init_naive_fp gmp_ref 7) [] [4, 5, 1] [1, 1]) =
     poly_val of_int [4, 5, 1] * poly_val of_int [1, 1] \<and>
   poly_mul (field_init_naive_fp gmp_ref 7) [] [4, 5, 1] [1, 1] = [4, 2, 6, 1]"
proof -
  have "poly_val (of_int :: int \<Rightarrow> 7) (poly_mul (field_init_naive_fp gmp_ref 7) [] [4, 5, 1] [1, 1]) =
     poly_val of_int [4, 5, 1] * poly_val of_int [1, 1]"
    using poly_arith [OF ring7, of "[]" "[4, 5, 1]" "[1, 1]"] normal7 by simp
  moreover have "poly_mul (field_init_naive_fp gmp_ref 7) [] [4, 5, 1] [1, 1] = [4, 2, 6, 1]"
    by code_simp
  ultimately show ?thesis by simp
qed

text \<open>
  C25: Division with remainder: for a divisor that is not zero \<open>poly_div\<close> returns a quotient
  and a remainder of smaller degree with \<open>a = q b + r\<close>; a zero divisor ends the program.
\<close>

theorem poly_div_correct:
  assumes "field_impl B V \<alpha>" "e1 \<in> lists V" "e2 \<in> lists V" "a \<in> lists V" "normal_poly \<alpha> a"
    and "b \<in> lists V" "normal_poly \<alpha> b"
  shows "if b = [] then poly_div B e1 e2 a b = None
    else \<exists>q r. poly_div B e1 e2 a b = Some (q, r) \<and>
      poly_val \<alpha> a = poly_val \<alpha> q * poly_val \<alpha> b + poly_val \<alpha> r \<and>
      poly_degree r < poly_degree b \<and> normal_poly \<alpha> r"
proof (cases "b = []")
  case True
  then show ?thesis using field_impl.poly_div_by_zero [OF assms(1)] by simp
next
  case False
  with field_impl.poly_div_ok [OF assms] show ?thesis
    by (auto simp: poly_degree_def poly_coeff_count_def)
qed

lemma poly_div_witness:
  "\<exists>q r. poly_div (field_init_naive_fp gmp_ref 7) [] [] [4, 5, 1] [1, 1] = Some (q, r) \<and>
     poly_val (of_int :: int \<Rightarrow> 7) [4, 5, 1] = poly_val of_int q * poly_val of_int [1, 1] + poly_val of_int r \<and>
     poly_degree r < poly_degree [1 :: int, 1] \<and> normal_poly (of_int :: int \<Rightarrow> 7) r"
  using poly_div_correct [OF field7, of "[]" "[]" "[4, 5, 1]" "[1, 1]"] normal7 by simp

text \<open>
  C26: Euclid's algorithm returns, and its result is a common divisor of the two polynomials
  that is a combination of them, hence a greatest common divisor.
\<close>

theorem poly_gcd_correct:
  assumes "field_impl B V \<alpha>" "d0 \<in> lists V" "f \<in> lists V" "normal_poly \<alpha> f"
    and "g \<in> lists V" "normal_poly \<alpha> g" "g \<noteq> []"
  shows "\<exists>d u v s t. poly_gcd B d0 f g = Some (Some d) \<and>
    {d, u, v, s, t} \<subseteq> lists V \<and> normal_poly \<alpha> d \<and>
    poly_val \<alpha> f = poly_val \<alpha> u * poly_val \<alpha> d \<and> poly_val \<alpha> g = poly_val \<alpha> v * poly_val \<alpha> d \<and>
    poly_val \<alpha> d = poly_val \<alpha> s * poly_val \<alpha> f + poly_val \<alpha> t * poly_val \<alpha> g"
proof -
  have ring: "ring_impl B V \<alpha>" using assms(1) by (simp add: field_impl_def)
  note polys = ring_impl.polys_def [OF ring] field_impl.pdvd_def [OF assms(1)]
    field_impl.combination_def [OF assms(1)]
  obtain d where d: "poly_gcd B d0 f g = Some (Some d)" "d \<in> lists V" "normal_poly \<alpha> d"
    "\<exists>u\<in>poly_val \<alpha> ` lists V. poly_val \<alpha> f = u * poly_val \<alpha> d"
    "\<exists>v\<in>poly_val \<alpha> ` lists V. poly_val \<alpha> g = v * poly_val \<alpha> d"
    "\<exists>s\<in>poly_val \<alpha> ` lists V. \<exists>t\<in>poly_val \<alpha> ` lists V.
       poly_val \<alpha> d = s * poly_val \<alpha> f + t * poly_val \<alpha> g"
    using field_impl.poly_gcd_ok [OF assms] unfolding polys by blast
  from d(4) obtain u where u: "u \<in> lists V" "poly_val \<alpha> f = poly_val \<alpha> u * poly_val \<alpha> d" by blast
  from d(5) obtain v where v: "v \<in> lists V" "poly_val \<alpha> g = poly_val \<alpha> v * poly_val \<alpha> d" by blast
  from d(6) obtain s t where st: "s \<in> lists V" "t \<in> lists V"
    "poly_val \<alpha> d = poly_val \<alpha> s * poly_val \<alpha> f + poly_val \<alpha> t * poly_val \<alpha> g" by blast
  have "{d, u, v, s, t} \<subseteq> lists V" using d(2) u(1) v(1) st(1,2) by (simp only: insert_subset empty_subsetI simp_thms)
  with d(1,3) u(2) v(2) st(3) show ?thesis
    by - (rule exI [of _ d], rule exI [of _ u], rule exI [of _ v], rule exI [of _ s], rule exI [of _ t],
      intro conjI)
qed

lemma poly_gcd_witness:
  "poly_gcd (field_init_naive_fp gmp_ref 7) [] [4, 5, 1] [1, 1] = Some (Some [1, 1]) \<and>
   (\<exists>u. poly_val (of_int :: int \<Rightarrow> 7) [4, 5, 1] = poly_val of_int u * poly_val of_int [1, 1])"
proof -
  obtain d u where "poly_gcd (field_init_naive_fp gmp_ref 7) [] [4, 5, 1] [1, 1] = Some (Some d)"
    "poly_val (of_int :: int \<Rightarrow> 7) [4, 5, 1] = poly_val of_int u * poly_val of_int d"
    using poly_gcd_correct [OF field7, of "[]" "[4, 5, 1]" "[1, 1]"] normal7 by auto
  moreover have "poly_gcd (field_init_naive_fp gmp_ref 7) [] [4, 5, 1] [1, 1] = Some (Some [1, 1])"
  proof -
    have "poly_div (field_init_naive_fp gmp_ref 7) poly_init poly_init [4, 5, 1] [1, 1] = Some ([4, 1], [])"
      "poly_set (field_init_naive_fp gmp_ref 7) poly_init [4, 5, 1] = [4, 5, 1]"
      "poly_set (field_init_naive_fp gmp_ref 7) poly_init [1, 1] = [1, 1]"
      "poly_set (field_init_naive_fp gmp_ref 7) [] [1, 1] = [1, 1]"
      by code_simp+
    then show ?thesis unfolding poly_gcd_def Let_def
      by (subst poly_gcd_loop.simps) (simp add: poly_is0_def)
  qed
  ultimately show ?thesis by auto
qed

text \<open>
  C27: The extended algorithm returns, and when some combination of \<open>f\<close> and \<open>m\<close> is 1 its
  result is an inverse of \<open>f\<close> modulo \<open>m\<close>.
\<close>

theorem poly_invert_correct:
  assumes "field_impl B V \<alpha>" "res \<in> lists V" "f \<in> lists V" "normal_poly \<alpha> f" "f \<noteq> []"
    and "m \<in> lists V" "normal_poly \<alpha> m" "s \<in> lists V" "t \<in> lists V"
    and "poly_val \<alpha> s * poly_val \<alpha> f + poly_val \<alpha> t * poly_val \<alpha> m = 1"
  shows "\<exists>r c. poly_invert B res f m = Some (Some r) \<and> r \<in> lists V \<and> c \<in> lists V \<and>
    poly_val \<alpha> r * poly_val \<alpha> f + poly_val \<alpha> c * poly_val \<alpha> m = 1"
proof -
  have ring: "ring_impl B V \<alpha>" using assms(1) by (simp add: field_impl_def)
  note polys = ring_impl.polys_def [OF ring] field_impl.combination_def [OF assms(1)]
  have "field_impl.combination V \<alpha> 1 (poly_val \<alpha> f) (poly_val \<alpha> m)"
    unfolding polys using assms(8-10)
    by (intro bexI [of _ "poly_val \<alpha> s"] bexI [of _ "poly_val \<alpha> t"]) simp_all
  from field_impl.poly_invert_ok [OF assms(1-7) this] show ?thesis
    unfolding polys by blast
qed

text \<open>In the witness \<open>x + 1\<close> is inverted modulo \<open>2 x^2 + 3 x\<close>: \<open>2 x^2 + 3 x - (2 x + 1) (x + 1) = - 1\<close>.\<close>

lemma poly_invert_witness:
  "\<exists>r c. poly_invert (field_init_naive_fp gmp_ref 7) [] [1, 1] [0, 3, 2] = Some (Some r) \<and>
     r \<in> lists {0..<7} \<and> c \<in> lists {0..<7} \<and>
     poly_val (of_int :: int \<Rightarrow> 7) r * poly_val of_int [1, 1] + poly_val of_int c * poly_val of_int [0, 3, 2] = 1"
proof -
  let ?v = "poly_val (of_int :: int \<Rightarrow> 7)"
  let ?F = "field_init_naive_fp gmp_ref 7"
  have "?v [1, 2] * ?v [1, 1] = ?v (poly_mul ?F [] [1, 2] [1, 1])"
    "?v [6] * ?v [0, 3, 2] = ?v (poly_mul ?F [] [6] [0, 3, 2])"
    using ring_impl.poly_mul_ok [OF ring7]
    by (simp_all add: ring_impl.computes_normal_def [OF ring7] ring_impl.computes_def [OF ring7])
  moreover have "poly_mul ?F [] [1, 2] [1, 1] = [1, 3, 2]" "poly_mul ?F [] [6] [0, 3, 2] = [0, 4, 5]"
    "poly_add ?F [] [1, 3, 2] [0, 4, 5] = [1]"
    by code_simp+
  moreover have "?v [1, 3, 2] + ?v [0, 4, 5] = ?v (poly_add ?F [] [1, 3, 2] [0, 4, 5])"
    using ring_impl.poly_add_ok [OF ring7, of "[]" "[1, 3, 2]" "[0, 4, 5]"]
    by (simp add: ring_impl.computes_normal_def [OF ring7] ring_impl.computes_def [OF ring7])
  ultimately have "?v [1, 2] * ?v [1, 1] + ?v [6] * ?v [0, 3, 2] = 1"
    by (simp add: poly_val_single const_simps)
  from poly_invert_correct [OF field7 _ _ _ _ _ _ _ _ this, of "[]"] normal7 show ?thesis by simp
qed

end
