(* ===== verification/Darray.thy ===== *)
theory Darray
  imports Prelude
begin

text \<open>
  The dynamic array of \<^verbatim>\<open>misc/darray.c\<close> and \<^verbatim>\<open>include/pbc_darray.h\<close>. The block that
  \<open>item\<close> points to is a list of slots, \<open>None\<close> a slot that was allocated and never
  written. An operation that reads or writes outside its block, or whose \<open>assert\<close> fails,
  returns \<open>None\<close>. The allocator is taken to succeed, and the counts to stay below the
  range of \<open>int\<close>.
\<close>

section \<open>The operations\<close>

record 'p darray =
  item :: "'p option list"
  count :: nat
  max_slots :: nat

definition max_init :: nat where
  "max_init = 8"

definition darray_new :: "'p darray" where
  "darray_new = \<lparr> item = replicate max_init None, count = 0, max_slots = max_init \<rparr>"

definition darray_init :: "'p darray \<Rightarrow> 'p darray" where
  "darray_init a = a\<lparr> max_slots := max_init, count := 0, item := replicate max_init None \<rparr>"

definition darray_remove_all :: "'p darray \<Rightarrow> 'p darray" where
  "darray_remove_all a = a\<lparr> max_slots := max_init, count := 0, item := replicate max_init None \<rparr>"

definition darray_remove_last :: "'p darray \<Rightarrow> 'p darray option" where
  "darray_remove_last a = (if count a > 0 then Some (a\<lparr> count := count a - 1 \<rparr>) else None)"

text \<open>\<open>pbc_realloc\<close> keeps the common part of the block.\<close>

definition realloc :: "'p option list \<Rightarrow> nat \<Rightarrow> 'p option list" where
  "realloc b n = take n b @ replicate (n - length b) None"

definition darray_realloc :: "'p darray \<Rightarrow> nat \<Rightarrow> 'p darray" where
  "darray_realloc a n = a\<lparr> max_slots := n, item := realloc (item a) n \<rparr>"

definition darray_append :: "'p darray \<Rightarrow> 'p \<Rightarrow> 'p darray option" where
  "darray_append a p = (
     let a = (if count a = max_slots a then
                let m = (if max_slots a = 0 then max_init else max_slots a * 2)
                in a\<lparr> max_slots := m, item := realloc (item a) m \<rparr>
              else a)
     in if count a < length (item a)
        then Some (a\<lparr> item := (item a)[count a := Some p], count := count a + 1 \<rparr>)
        else None)"

text \<open>A loop \<open>for (i = 0; i < count; i++)\<close> that looks for an item: the index or -1.\<close>

function index_loop :: "'p option list \<Rightarrow> nat \<Rightarrow> 'p \<Rightarrow> nat \<Rightarrow> int" where
  "index_loop b n p i = (
     if i < n then if b ! i = Some p then int i else index_loop b n p (i + 1)
     else - 1)"
  by pat_completeness auto
termination by (relation "measure (\<lambda>(b, n, p, i). n - i)") auto

declare index_loop.simps [simp del]

definition darray_index_of :: "'p darray \<Rightarrow> 'p \<Rightarrow> int" where
  "darray_index_of a p = index_loop (item a) (count a) p 0"

definition darray_clear :: "'p darray \<Rightarrow> 'p darray" where
  "darray_clear a = a\<lparr> item := [], max_slots := 0, count := 0 \<rparr>"

text \<open>\<open>memmove (&b[i], &b[i+1], n slots)\<close>: undefined outside the block.\<close>

definition shift_down :: "'p option list \<Rightarrow> nat \<Rightarrow> int \<Rightarrow> 'p option list option" where
  "shift_down b i n = (
     if n < 0 \<or> (0 < n \<and> length b < i + 1 + nat n) then None
     else Some (take i b @ take (nat n) (drop (i + 1) b) @ drop (i + nat n) b))"

definition darray_remove_index :: "'p darray \<Rightarrow> nat \<Rightarrow> 'p darray option" where
  "darray_remove_index a n = (
     if int (count a) \<ge> int n - 1 then
       let c = int (count a) - 1
       in map_option (\<lambda>b. a\<lparr> item := b, count := nat c \<rparr>) (shift_down (item a) n (c - int n))
     else None)"

definition darray_remove :: "'p darray \<Rightarrow> 'p \<Rightarrow> 'p darray option" where
  "darray_remove a p = (
     let i = index_loop (item a) (count a) p 0 in
     if i \<noteq> - 1 then
       let c = count a - 1
       in map_option (\<lambda>b. a\<lparr> item := b, count := c \<rparr>) (shift_down (item a) (nat i) (int c - i))
     else None)"

text \<open>
  \<open>darray_remove_with_test\<close>: the inner loop moves the items down and reads one slot past
  the last item; it leaves \<open>i\<close> at the old count, which ends the outer loop.
\<close>

function move_loop :: "'p option list \<Rightarrow> nat \<Rightarrow> nat \<Rightarrow> 'p option list option" where
  "move_loop b n i = (
     if i < n then
       if i + 1 < length b then move_loop (b[i := b ! (i + 1)]) n (i + 1) else None
     else Some b)"
  by pat_completeness auto
termination by (relation "measure (\<lambda>(b, n, i). n - i)") auto

declare move_loop.simps [simp del]

function test_loop :: "('p \<Rightarrow> bool) \<Rightarrow> 'p darray \<Rightarrow> nat \<Rightarrow> 'p darray option" where
  "test_loop test a i = (
     if i < count a then
       case item a ! i of
         None \<Rightarrow> None
       | Some p \<Rightarrow>
           if test p then
             case move_loop (item a) (count a) i of
               None \<Rightarrow> None
             | Some b \<Rightarrow> test_loop test (a\<lparr> item := b, count := count a - 1 \<rparr>) (count a + 1)
           else test_loop test a (i + 1)
     else Some a)"
  by pat_completeness auto
termination by (relation "measure (\<lambda>(test, a, i). count a - i)") auto

declare test_loop.simps [simp del]

definition darray_remove_with_test :: "'p darray \<Rightarrow> ('p \<Rightarrow> bool) \<Rightarrow> 'p darray option" where
  "darray_remove_with_test a test = test_loop test a 0"

definition darray_copy :: "'p darray \<Rightarrow> 'p darray \<Rightarrow> 'p darray" where
  "darray_copy dst src = (
     let dst = darray_realloc dst (count src);
         dst = dst\<lparr> item := take (count src) (item src) @ drop (count src) (item dst) \<rparr>
     in dst\<lparr> count := count src \<rparr>)"

text \<open>The callback of \<open>darray_forall\<close> is a function on the state it changes.\<close>

function forall_loop :: "'p option list \<Rightarrow> nat \<Rightarrow> ('p \<Rightarrow> 's \<Rightarrow> 's) \<Rightarrow> nat \<Rightarrow> 's \<Rightarrow> 's option" where
  "forall_loop b n func i s = (
     if i < n then
       case b ! i of None \<Rightarrow> None | Some p \<Rightarrow> forall_loop b n func (i + 1) (func p s)
     else Some s)"
  by pat_completeness auto
termination by (relation "measure (\<lambda>(b, n, func, i, s). n - i)") auto

declare forall_loop.simps [simp del]

definition darray_forall :: "'p darray \<Rightarrow> ('p \<Rightarrow> 's \<Rightarrow> 's) \<Rightarrow> 's \<Rightarrow> 's option" where
  "darray_forall a func s = forall_loop (item a) (count a) func 0 s"

definition darray_at :: "'p darray \<Rightarrow> nat \<Rightarrow> 'p option" where
  "darray_at a i = (if i < length (item a) then item a ! i else None)"

definition darray_count :: "'p darray \<Rightarrow> nat" where
  "darray_count a = count a"

definition darray_is_empty :: "'p darray \<Rightarrow> bool" where
  "darray_is_empty a = (count a = 0)"

definition darray_last :: "'p darray \<Rightarrow> 'p option" where
  "darray_last a = (if count a = 0 then None else darray_at a (count a - 1))"

section \<open>The list an array represents\<close>

definition darray_inv :: "'p darray \<Rightarrow> bool" where
  "darray_inv a \<longleftrightarrow> length (item a) = max_slots a \<and> count a \<le> max_slots a \<and>
     None \<notin> set (take (count a) (item a))"

definition contents :: "'p darray \<Rightarrow> 'p list" where
  "contents a = map the (take (count a) (item a))"

text \<open>The array represents the list \<open>xs\<close>.\<close>

definition represents :: "'p darray \<Rightarrow> 'p list \<Rightarrow> bool" where
  "represents a xs \<longleftrightarrow> length (item a) = max_slots a \<and> count a = length xs \<and>
     count a \<le> max_slots a \<and> take (count a) (item a) = map Some xs"

lemma represents_iff: "represents a xs \<longleftrightarrow> darray_inv a \<and> contents a = xs"
proof
  assume "represents a xs"
  then show "darray_inv a \<and> contents a = xs"
    by (auto simp: represents_def darray_inv_def contents_def comp_def)
next
  assume *: "darray_inv a \<and> contents a = xs"
  then have "map Some xs = take (count a) (item a)"
    by (auto simp: contents_def darray_inv_def comp_def intro!: map_idI)
       (metis option.collapse)
  moreover have "length xs = count a" using * by (auto simp: contents_def darray_inv_def)
  ultimately show "represents a xs" using * by (simp add: represents_def darray_inv_def)
qed

lemma represents_nth: "represents a xs \<Longrightarrow> i < length xs \<Longrightarrow> item a ! i = Some (xs ! i)"
  unfolding represents_def by (metis nth_map nth_take)

lemma represents_split:
  "represents a xs \<Longrightarrow> item a = map Some xs @ drop (length xs) (item a)"
  unfolding represents_def by (metis append_take_drop_id)

lemma represents_empty [simp]:
  "represents darray_new []" "represents (darray_init a) []" "represents (darray_remove_all a) []"
  "represents (darray_clear a) []"
  by (simp_all add: represents_def darray_new_def darray_init_def darray_remove_all_def darray_clear_def)

lemma append_represents:
  assumes "represents a xs"
  shows "\<exists>a'. darray_append a p = Some a' \<and> represents a' (xs @ [p])"
proof (cases "count a = max_slots a")
  case True
  then have it: "item a = map Some xs" "max_slots a = length xs" "count a = length xs"
    using assms by (auto simp: represents_def)
  then show ?thesis
    by (auto simp: darray_append_def represents_def realloc_def max_init_def
        list_update_append take_Suc_conv_app_nth nth_append Suc_le_eq)
next
  case False
  with assms have "count a < length (item a)" by (simp add: represents_def)
  with assms show ?thesis
    by (auto simp: darray_append_def represents_def Let_def take_Suc_conv_app_nth)
qed

lemma index_loop_ok:
  assumes "represents a xs" "i \<le> length xs"
  shows "index_loop (item a) (count a) p i =
    (if p \<in> set (drop i xs) then int (i + length (takeWhile (\<lambda>x. x \<noteq> p) (drop i xs))) else - 1)"
  using assms(2)
proof (induction "length xs - i" arbitrary: i)
  case 0
  then show ?case using assms(1) by (subst index_loop.simps) (simp add: represents_def)
next
  case (Suc k)
  then have i: "i < length xs" by simp
  have d: "drop i xs = xs ! i # drop (Suc i) xs" using i by (rule Cons_nth_drop_Suc [symmetric])
  have "i < count a" using assms(1) i by (simp add: represents_def)
  then show ?case using Suc.hyps(1) [of "Suc i"] Suc.hyps(2) i represents_nth [OF assms(1) i]
    by (subst index_loop.simps) (auto simp: d)
qed

lemma remove_last_represents:
  "represents a (xs @ [x]) \<Longrightarrow> \<exists>a'. darray_remove_last a = Some a' \<and> represents a' xs"
  by (auto simp: darray_remove_last_def represents_def take_Suc_conv_app_nth
      simp flip: take_map)

lemma shift_down_represents:
  assumes "represents a xs" "i < length xs"
  shows "\<exists>b. shift_down (item a) i (int (count a - 1) - int i) = Some b \<and>
    represents (a\<lparr> item := b, count := count a - 1 \<rparr>) (take i xs @ drop (Suc i) xs)"
proof -
  define ys where "ys = drop (length xs) (item a)"
  have split: "item a = map Some xs @ ys" using represents_split [OF assms(1)] by (simp add: ys_def)
  have c: "count a = length xs" "length (item a) = max_slots a"
    using assms(1) by (simp_all add: represents_def)
  have n: "nat (int (count a - 1) - int i) = length xs - Suc i" using assms(2) c by simp
  have nonneg: "\<not> int (count a - 1) - int i < 0" using assms(2) c by simp
  have len: "length (item a) \<ge> i + 1 + (length xs - Suc i)" using split assms(2) by simp
  let ?b = "take i (item a) @ take (length xs - Suc i) (drop (i + 1) (item a)) @
    drop (i + (length xs - Suc i)) (item a)"
  have "shift_down (item a) i (int (count a - 1) - int i) = Some ?b"
    using nonneg len unfolding shift_down_def n by simp
  moreover have "represents (a\<lparr> item := ?b, count := count a - 1 \<rparr>) (take i xs @ drop (Suc i) xs)"
    using assms(2) c split
    by (auto simp: represents_def take_map drop_map min_def intro: arg_cong2 [of _ _ _ _ take])
  ultimately show ?thesis by blast
qed

lemma take_drop_remove1:
  "p \<in> set xs \<Longrightarrow> let i = length (takeWhile (\<lambda>x. x \<noteq> p) xs) in
     i < length xs \<and> take i xs @ drop (Suc i) xs = remove1 p xs"
  by (induction xs) (auto simp: Let_def)

lemma remove_represents:
  assumes "represents a xs" "p \<in> set xs"
  shows "\<exists>a'. darray_remove a p = Some a' \<and> represents a' (remove1 p xs)"
proof -
  let ?i = "length (takeWhile (\<lambda>x. x \<noteq> p) xs)"
  have i: "?i < length xs" "take ?i xs @ drop (Suc ?i) xs = remove1 p xs"
    using take_drop_remove1 [OF assms(2)] by (simp_all add: Let_def)
  have "index_loop (item a) (count a) p 0 = int ?i"
    using index_loop_ok [OF assms(1), of 0 p] assms(2) by simp
  then show ?thesis
    using shift_down_represents [OF assms(1) i(1)] i(2) by (auto simp: darray_remove_def Let_def)
qed

text \<open>Removing what is not there runs into \<open>assert(0)\<close>.\<close>

lemma remove_missing: "represents a xs \<Longrightarrow> p \<notin> set xs \<Longrightarrow> darray_remove a p = None"
  using index_loop_ok [of a xs 0 p] by (simp add: darray_remove_def Let_def)

lemma remove_index_represents:
  assumes "represents a xs" "n < length xs"
  shows "\<exists>a'. darray_remove_index a n = Some a' \<and> represents a' (take n xs @ drop (Suc n) xs)"
proof -
  have c: "count a = length xs" using assms(1) by (simp add: represents_def)
  then have i: "int (count a) - 1 = int (count a - 1)" "int n - 1 \<le> int (count a)"
    using assms(2) by simp_all
  from shift_down_represents [OF assms] obtain b where
    "shift_down (item a) n (int (count a - 1) - int n) = Some b"
    "represents (a\<lparr> item := b, count := count a - 1 \<rparr>) (take n xs @ drop (Suc n) xs)" by blast
  then show ?thesis
    unfolding darray_remove_index_def Let_def i(1) nat_int using i(2) by simp
qed

text \<open>
  The assertion of \<open>darray_remove_index\<close> lets the index one past the last item through:
  the count is decremented and the last item lost.
\<close>

lemma remove_index_past_end:
  assumes "represents a (xs @ [x])"
  shows "darray_remove_index a (length xs + 1) = None"
    and "\<exists>a'. darray_remove_index a (length xs) = Some a' \<and> represents a' xs"
  using assms remove_index_represents [OF assms, of "length xs"]
  by (auto simp: darray_remove_index_def represents_def shift_down_def)

section \<open>Removing by a test\<close>

lemma move_loop_ok:
  assumes "i \<le> n" "i < n \<longrightarrow> n < length b"
  shows "move_loop b n i = Some (take i b @ take (n - i) (drop (i + 1) b) @ drop n b)"
  using assms
proof (induction "n - i" arbitrary: i b)
  case 0
  then have "n = i" by simp
  then show ?case by (subst move_loop.simps) simp
next
  case (Suc k)
  then have i: "i < n" "n < length b" by simp_all
  let ?b = "b[i := b ! (i + 1)]"
  have "move_loop b n i = move_loop ?b n (i + 1)" using i by (subst move_loop.simps) simp
  also have "\<dots> = Some (take (i + 1) ?b @ take (n - (i + 1)) (drop (i + 1 + 1) ?b) @ drop n ?b)"
    using Suc.hyps(2) i by (intro Suc.hyps(1)) auto
  also have "take (i + 1) ?b = take i b @ [b ! (i + 1)]"
    using i by (simp add: take_Suc_conv_app_nth)
  also have "drop n ?b = drop n b" using i by simp
  also have "drop (i + 1 + 1) ?b = drop (i + 1 + 1) b" by simp
  also have "(take i b @ [b ! (i + 1)]) @ take (n - (i + 1)) (drop (i + 1 + 1) b) @ drop n b =
      take i b @ take (n - i) (drop (i + 1) b) @ drop n b"
  proof -
    have "drop (i + 1) b = b ! (i + 1) # drop (i + 1 + 1) b"
      using i Cons_nth_drop_Suc [of "i + 1" b] by simp
    moreover have "n - i = Suc (n - (i + 1))" using i by simp
    ultimately show ?thesis by simp
  qed
  finally show ?case .
qed

lemma move_loop_full: "i < n \<Longrightarrow> length b = n \<Longrightarrow> move_loop b n i = None"
proof (induction "n - i" arbitrary: i b)
  case (Suc k)
  then show ?case
    by (subst move_loop.simps) (cases "i + 1 < n"; simp)
qed simp

definition remove_first :: "('p \<Rightarrow> bool) \<Rightarrow> 'p list \<Rightarrow> 'p list" where
  "remove_first test xs = takeWhile (\<lambda>x. \<not> test x) xs @ tl (dropWhile (\<lambda>x. \<not> test x) xs)"

lemma test_loop_ok:
  assumes a: "represents a xs" and "i \<le> length xs" "\<forall>x \<in> set (take i xs). \<not> test x"
  shows "if \<exists>x \<in> set xs. test x
    then if count a < max_slots a
      then \<exists>a'. test_loop test a i = Some a' \<and> represents a' (remove_first test xs)
      else test_loop test a i = None
    else test_loop test a i = Some a"
  using assms(2,3)
proof (induction "length xs - i" arbitrary: i)
  case 0
  then have "i = length xs" by simp
  with 0 a show ?case by (subst test_loop.simps) (simp add: represents_def)
next
  case (Suc k)
  then have i: "i < length xs" by simp
  have c: "count a = length xs" "length (item a) = max_slots a" "count a \<le> max_slots a"
    using a by (simp_all add: represents_def)
  have d: "drop i xs = xs ! i # drop (Suc i) xs" using i by (rule Cons_nth_drop_Suc [symmetric])
  have it: "item a ! i = Some (xs ! i)" using a i by (rule represents_nth)
  show ?case
  proof (cases "test (xs ! i)")
    case False
    then have "\<forall>x \<in> set (take (Suc i) xs). \<not> test x"
      using Suc.prems(2) i by (simp add: take_Suc_conv_app_nth)
    moreover have "test_loop test a i = test_loop test a (Suc i)"
      using False i it c by (subst test_loop.simps) simp
    ultimately show ?thesis using Suc.hyps(1) [of "Suc i"] Suc.hyps(2) i by simp
  next
    case True
    have ex: "\<exists>x \<in> set xs. test x" using True i by (metis nth_mem)
    have tw: "takeWhile (\<lambda>x. \<not> test x) xs = take i xs"
      "dropWhile (\<lambda>x. \<not> test x) xs = drop i xs"
    proof -
      have "takeWhile (\<lambda>x. \<not> test x) (take i xs @ xs ! i # drop (Suc i) xs) = take i xs"
        "dropWhile (\<lambda>x. \<not> test x) (take i xs @ xs ! i # drop (Suc i) xs) = xs ! i # drop (Suc i) xs"
        using Suc.prems(2) True by simp_all
      then show "takeWhile (\<lambda>x. \<not> test x) xs = take i xs"
        "dropWhile (\<lambda>x. \<not> test x) xs = drop i xs"
        unfolding d [symmetric] append_take_drop_id .
    qed
    then have rf: "remove_first test xs = take i xs @ drop (Suc i) xs"
      by (simp add: remove_first_def d)
    show ?thesis
    proof (cases "count a < max_slots a")
      case False
      then have "move_loop (item a) (count a) i = None"
        using c i by (intro move_loop_full) simp_all
      then show ?thesis using True False ex it c i by (subst test_loop.simps) simp
    next
      case less: True
      define b where "b = take i (item a) @ take (length xs - i) (drop (i + 1) (item a)) @ drop (length xs) (item a)"
      have move: "move_loop (item a) (count a) i = Some b"
        unfolding b_def using c i less move_loop_ok [of i "length xs" "item a"] by simp
      let ?a = "a\<lparr> item := b, count := count a - 1 \<rparr>"
      have "test_loop test ?a (count a + 1) = Some ?a"
        by (subst test_loop.simps, rule if_not_P) simp
      then have res: "test_loop test a i = Some ?a"
        using True it c i move by (subst test_loop.simps) simp
      obtain ys where split: "item a = map Some xs @ ys" using represents_split [OF a] by blast
      have "length b = max_slots a" using c i less by (simp add: b_def)
      moreover have "take (length xs - 1) b = map Some (take i xs @ drop (Suc i) xs)"
        using i by (auto simp: b_def split take_map drop_map min_def intro: arg_cong2 [of _ _ _ _ take])
      ultimately have "represents ?a (remove_first test xs)"
        using c i by (simp add: represents_def rf)
      with res ex less show ?thesis by simp
    qed
  qed
qed

lemmas remove_with_test_ok = test_loop_ok [where i = 0, simplified, folded darray_remove_with_test_def]

section \<open>Copying and iterating\<close>

lemma copy_represents:
  assumes "represents src xs"
  shows "represents (darray_copy dst src) xs"
  using assms represents_split [OF assms]
  by (auto simp: darray_copy_def darray_realloc_def represents_def Let_def realloc_def)

lemma forall_loop_ok:
  assumes "represents a xs" "i \<le> length xs"
  shows "forall_loop (item a) (count a) func i s = Some (fold func (drop i xs) s)"
  using assms(2)
proof (induction "length xs - i" arbitrary: i s)
  case 0
  then show ?case using assms(1) by (subst forall_loop.simps) (simp add: represents_def)
next
  case (Suc k)
  then have i: "i < length xs" by simp
  have d: "drop i xs = xs ! i # drop (Suc i) xs" using i by (rule Cons_nth_drop_Suc [symmetric])
  have "i < count a" using assms(1) i by (simp add: represents_def)
  then show ?case using Suc.hyps(1) [of "Suc i"] Suc.hyps(2) i represents_nth [OF assms(1) i]
    by (subst forall_loop.simps) (simp add: d)
qed

lemma forall_represents: "represents a xs \<Longrightarrow> darray_forall a func s = Some (fold func xs s)"
  using forall_loop_ok [of a xs 0 func s] by (simp add: darray_forall_def)

lemma access_represents:
  assumes "represents a xs"
  shows "i < length xs \<Longrightarrow> darray_at a i = Some (xs ! i)"
    and "darray_count a = length xs" and "darray_is_empty a \<longleftrightarrow> xs = []"
    and "xs \<noteq> [] \<Longrightarrow> darray_last a = Some (last xs)"
  using assms represents_nth [OF assms]
  by (auto simp: darray_at_def darray_count_def darray_is_empty_def darray_last_def
      represents_def last_conv_nth intro: less_le_trans)

end
