(* ===== verification/Symtab.thy ===== *)
theory Symtab
  imports Darray
begin

text \<open>
  The symbol table of \<^verbatim>\<open>misc/symtab.c\<close>: a dynamic array of entries, searched from the
  start. Every entry is allocated by \<open>symtab_put\<close> and reached through this table alone, so
  the write \<open>e->data = data\<close> is a write of the slot that holds the entry. The contract
  the clients rely on is the locale \<open>dictionary\<close>, interpreted on these operations.
\<close>

section \<open>The operations\<close>

record 'd entry_s =
  key :: string
  data :: 'd

type_synonym 'd symtab = "'d entry_s darray"

definition symtab_init :: "'d symtab" where
  "symtab_init = darray_new"

definition symtab_clear :: "'d symtab \<Rightarrow> 'd symtab" where
  "symtab_clear t = darray_clear t"

text \<open>
  The search every function makes: the first index whose entry has the key, \<open>n\<close> when
  there is none.
\<close>

function key_loop :: "'d entry_s option list \<Rightarrow> nat \<Rightarrow> string \<Rightarrow> nat \<Rightarrow> nat option" where
  "key_loop b n k i = (
     if i < n then
       case b ! i of
         None \<Rightarrow> None
       | Some e \<Rightarrow> if key e = k then Some i else key_loop b n k (i + 1)
     else Some n)"
  by pat_completeness auto
termination by (relation "measure (\<lambda>(b, n, k, i). n - i)") auto

declare key_loop.simps [simp del]

definition symtab_put :: "'d symtab \<Rightarrow> 'd \<Rightarrow> string \<Rightarrow> 'd symtab option" where
  "symtab_put t d k = (
     case key_loop (item t) (count t) k 0 of
       None \<Rightarrow> None
     | Some i \<Rightarrow>
         if i < count t then
           Some (t\<lparr> item := (item t)[i := map_option (\<lambda>e. e\<lparr> data := d \<rparr>) (item t ! i)] \<rparr>)
         else darray_append t \<lparr> key = k, data = d \<rparr>)"

definition symtab_has :: "'d symtab \<Rightarrow> string \<Rightarrow> bool option" where
  "symtab_has t k = map_option (\<lambda>i. i < count t) (key_loop (item t) (count t) k 0)"

text \<open>The result \<open>None\<close> inside is the pointer \<open>NULL\<close>.\<close>

definition symtab_at :: "'d symtab \<Rightarrow> string \<Rightarrow> 'd option option" where
  "symtab_at t k = map_option
     (\<lambda>i. if i < count t then map_option data (item t ! i) else None)
     (key_loop (item t) (count t) k 0)"

definition symtab_forall_data :: "'d symtab \<Rightarrow> ('d \<Rightarrow> 's \<Rightarrow> 's) \<Rightarrow> 's \<Rightarrow> 's option" where
  "symtab_forall_data t func s = darray_forall t (\<lambda>e. func (data e)) s"

section \<open>The contract of a dictionary\<close>

text \<open>
  \<open>ok t m\<close> says that the structure \<open>t\<close> represents the map \<open>m\<close>.
\<close>

locale dictionary =
  fixes ok :: "'t \<Rightarrow> ('k \<rightharpoonup> 'd) \<Rightarrow> bool"
    and empty :: 't
    and put :: "'t \<Rightarrow> 'd \<Rightarrow> 'k \<Rightarrow> 't option"
    and has :: "'t \<Rightarrow> 'k \<Rightarrow> bool option"
    and at :: "'t \<Rightarrow> 'k \<Rightarrow> 'd option option"
  assumes empty_ok: "ok empty Map.empty"
    and put_ok: "ok t m \<Longrightarrow> \<exists>t'. put t d k = Some t' \<and> ok t' (m(k \<mapsto> d))"
    and has_ok: "ok t m \<Longrightarrow> has t k = Some (m k \<noteq> None)"
    and at_ok: "ok t m \<Longrightarrow> at t k = Some (m k)"
begin

fun put_all :: "'t \<Rightarrow> ('k \<times> 'd) list \<Rightarrow> 't option" where
  "put_all t [] = Some t"
| "put_all t ((k, d) # ps) = (case put t d k of None \<Rightarrow> None | Some t' \<Rightarrow> put_all t' ps)"

lemma put_all_ok: "ok t m \<Longrightarrow> \<exists>t'. put_all t ps = Some t' \<and> ok t' (m ++ map_of (rev ps))"
proof (induction ps arbitrary: t m)
  case Nil
  then show ?case by simp
next
  case (Cons p ps)
  obtain k d where p: "p = (k, d)" by (cases p)
  obtain t1 where t1: "put t d k = Some t1" "ok t1 (m(k \<mapsto> d))" using put_ok [OF Cons.prems] by blast
  obtain t' where "put_all t1 ps = Some t'" "ok t' (m(k \<mapsto> d) ++ map_of (rev ps))"
    using Cons.IH [OF t1(2)] by blast
  then show ?case using t1(1) p by (auto simp: map_of_append)
qed

text \<open>After any sequence of insertions a lookup returns the last data put under the key.\<close>

lemma put_all_at: "\<exists>t'. put_all empty ps = Some t' \<and> at t' k = Some (map_of (rev ps) k)"
  using put_all_ok [OF empty_ok, of ps] at_ok by fastforce

lemma put_all_has: "\<exists>t'. put_all empty ps = Some t' \<and> has t' k = Some (k \<in> fst ` set ps)"
proof -
  obtain t' where "put_all empty ps = Some t'" "ok t' (map_of (rev ps))"
    using put_all_ok [OF empty_ok, of ps] by auto
  then show ?thesis using has_ok [of t' "map_of (rev ps)" k] by (auto simp: map_of_eq_None_iff)
qed

end

section \<open>The table as a dictionary\<close>

definition entries_map :: "'d entry_s list \<Rightarrow> string \<rightharpoonup> 'd" where
  "entries_map es = map_of (map (\<lambda>e. (key e, data e)) es)"

definition symtab_ok :: "'d symtab \<Rightarrow> (string \<rightharpoonup> 'd) \<Rightarrow> bool" where
  "symtab_ok t m \<longleftrightarrow> (\<exists>es. represents t es \<and> distinct (map key es) \<and> m = entries_map es)"

lemma key_loop_ok:
  assumes "represents t es" "i \<le> length es"
  shows "key_loop (item t) (count t) k i = Some (i + length (takeWhile (\<lambda>e. key e \<noteq> k) (drop i es)))"
  using assms(2)
proof (induction "length es - i" arbitrary: i)
  case 0
  then show ?case using assms(1) by (subst key_loop.simps) (simp add: represents_def)
next
  case (Suc n)
  then have i: "i < length es" by simp
  have d: "drop i es = es ! i # drop (Suc i) es" using i by (rule Cons_nth_drop_Suc [symmetric])
  have "i < count t" using assms(1) i by (simp add: represents_def)
  then show ?case using Suc.hyps(1) [of "Suc i"] Suc.hyps(2) i represents_nth [OF assms(1) i]
    by (subst key_loop.simps) (simp add: d)
qed

text \<open>The search splits the entries at the first one with the key.\<close>

lemma key_search:
  assumes "represents t es"
  obtains (found) es1 e es2 where "es = es1 @ e # es2" "key e = k" "k \<notin> key ` set es1"
      "key_loop (item t) (count t) k 0 = Some (length es1)" "length es1 < count t"
      "item t ! length es1 = Some e"
  | (missing) "k \<notin> key ` set es" "key_loop (item t) (count t) k 0 = Some (count t)"
proof (cases "k \<in> key ` set es")
  case True
  then obtain es1 e es2 where es: "es = es1 @ e # es2" "key e = k" "\<forall>x\<in>set es1. key x \<noteq> k"
    using split_list_first_prop [of es "\<lambda>e. key e = k"] by auto
  moreover have "takeWhile (\<lambda>e. key e \<noteq> k) es = es1" using es by (simp add: takeWhile_tail)
  moreover have "length es1 < length es" using es by simp
  ultimately show ?thesis
    using key_loop_ok [OF assms, of 0 k] represents_nth [OF assms, of "length es1"] assms
    by (intro found [OF es(1,2)]) (auto simp: represents_def)
next
  case False
  then have "takeWhile (\<lambda>e. key e \<noteq> k) es = es" unfolding takeWhile_eq_all_conv by blast
  then have "length (takeWhile (\<lambda>e. key e \<noteq> k) es) = count t"
    using assms by (simp only:) (simp add: represents_def)
  then show ?thesis using key_loop_ok [OF assms, of 0 k] by (intro missing [OF False]) simp
qed

lemma entries_map_None: "entries_map es k = None \<longleftrightarrow> k \<notin> key ` set es"
  by (simp add: entries_map_def map_of_eq_None_iff image_image)

lemma entries_map_append: "entries_map (es1 @ es2) = entries_map es2 ++ entries_map es1"
  and entries_map_Cons: "entries_map (e # es2) = (entries_map es2)(key e \<mapsto> data e)"
  by (simp_all add: entries_map_def)

lemma entries_map_split:
  assumes "k \<notin> key ` set es1" "key e = k"
  shows "entries_map (es1 @ e # es2) = (entries_map es2 ++ entries_map es1)(k \<mapsto> data e)"
  using assms entries_map_None [of es1 k]
  by (auto simp: entries_map_append entries_map_Cons map_add_def fun_eq_iff split: option.splits)

lemma symtab_put_ok:
  assumes "symtab_ok t m"
  shows "\<exists>t'. symtab_put t d k = Some t' \<and> symtab_ok t' (m(k \<mapsto> d))"
proof -
  from assms obtain es where es: "represents t es" "distinct (map key es)" "m = entries_map es"
    by (auto simp: symtab_ok_def)
  from es(1) show ?thesis
  proof (cases rule: key_search [where k = k])
    case (found es1 e es2)
    let ?e = "e\<lparr> data := d \<rparr>"
    let ?t = "t\<lparr> item := (item t)[length es1 := Some ?e] \<rparr>"
    have "symtab_put t d k = Some ?t" using found by (simp add: symtab_put_def)
    moreover have "represents ?t (es1 @ ?e # es2)"
      using es(1) found by (auto simp: represents_def list_update_append take_update_swap)
    moreover have "entries_map (es1 @ ?e # es2) = m(k \<mapsto> d)"
      using found by (simp add: es(3) entries_map_split)
    ultimately show ?thesis using es(2) found by (auto simp: symtab_ok_def)
  next
    case missing
    obtain t' where "darray_append t \<lparr> key = k, data = d \<rparr> = Some t'"
      "represents t' (es @ [\<lparr> key = k, data = d \<rparr>])"
      using append_represents [OF es(1)] by blast
    moreover have "entries_map (es @ [\<lparr> key = k, data = d \<rparr>]) = m(k \<mapsto> d)"
      using missing entries_map_split [of k es "\<lparr> key = k, data = d \<rparr>" "[]"]
      by (simp add: es(3) entries_map_def)
    ultimately show ?thesis using es(2) missing
      by (auto simp: symtab_ok_def symtab_put_def intro!: exI [of _ "es @ [\<lparr> key = k, data = d \<rparr>]"])
  qed
qed

lemma symtab_has_ok: "symtab_ok t m \<Longrightarrow> symtab_has t k = Some (m k \<noteq> None)"
  unfolding symtab_ok_def
proof (elim exE conjE)
  fix es
  assume es: "represents t es" "m = entries_map es"
  from es(1) show ?thesis
    by (cases rule: key_search [where k = k])
       (auto simp: symtab_has_def es(2) entries_map_None)
qed

lemma symtab_at_ok: "symtab_ok t m \<Longrightarrow> symtab_at t k = Some (m k)"
  unfolding symtab_ok_def
proof (elim exE conjE)
  fix es
  assume es: "represents t es" "m = entries_map es"
  from es(1) show ?thesis
  proof (cases rule: key_search [where k = k])
    case (found es1 e es2)
    then show ?thesis by (simp add: symtab_at_def es(2) entries_map_split)
  next
    case missing
    then have "entries_map es k = None" by (simp add: entries_map_None)
    with missing show ?thesis by (simp add: symtab_at_def es(2))
  qed
qed

interpretation symtab: dictionary symtab_ok symtab_init symtab_put symtab_has symtab_at
proof unfold_locales
  show "symtab_ok symtab_init Map.empty"
    by (auto simp: symtab_ok_def symtab_init_def entries_map_def intro!: exI [of _ "[]"])
qed (fact symtab_put_ok symtab_has_ok symtab_at_ok)+

lemma symtab_forall_ok:
  "represents t es \<Longrightarrow> symtab_forall_data t func s = Some (fold func (map data es) s)"
  by (simp add: symtab_forall_data_def forall_represents fold_map comp_def)

end
