(* ===== verification/Parse.thy ===== *)
theory Parse
  imports Prelude
begin

text \<open>
  The tokenizer of \<^verbatim>\<open>misc/parse.c\<close> over the character sources of \<^verbatim>\<open>misc/fops.c\<close>
  and \<^verbatim>\<open>misc/tracker.c\<close>. A source is a pair of functions; \<open>fops_buf\<close> reads a buffer in
  memory. A read is a byte of a \<open>char\<close> buffer, and \<open>char\<close> is signed on the platforms the
  library builds on. The contract between the tokenizer and a source is the locale
  \<open>fetch_source\<close>.
\<close>

section \<open>Sources\<close>

record 'c fetch_ops =
  fops_getc :: "'c \<Rightarrow> int \<times> 'c"
  fops_ungetc :: "int \<Rightarrow> 'c \<Rightarrow> 'c"

definition c_EOF :: int where
  "c_EOF = - 1"

text \<open>A tracker: the buffer, and the three pointers as offsets into it.\<close>

record tracker =
  buffer :: string
  base :: nat
  pos :: nat
  limit :: nat

definition tracker_init :: "string \<Rightarrow> nat \<Rightarrow> tracker" where
  "tracker_init buf len = \<lparr> buffer = buf, base = 0, pos = 0, limit = 0 + len \<rparr>"

definition signed_char :: "char \<Rightarrow> int" where
  "signed_char c = (let k = (of_char c :: int) in if k < 128 then k else k - 256)"

definition getc_from_buf :: "tracker \<Rightarrow> int \<times> tracker" where
  "getc_from_buf t = (
     if pos t = limit t then (c_EOF, t)
     else (signed_char (buffer t ! pos t), t\<lparr> pos := pos t + 1 \<rparr>))"

definition ungetc_into_buf :: "int \<Rightarrow> tracker \<Rightarrow> tracker" where
  "ungetc_into_buf c t = (
     if c = c_EOF then t
     else if base t = pos t then t
     else t\<lparr> pos := pos t - 1 \<rparr>)"

definition fops_buf :: "tracker fetch_ops" where
  "fops_buf = \<lparr> fops_getc = getc_from_buf, fops_ungetc = ungetc_into_buf \<rparr>"

section \<open>The tokenizer\<close>

datatype token_type =
  token_none | token_langle | token_langleslash | token_rangle | token_word | token_eof

record token =
  tok_type :: token_type
  tok_s :: "string option"

definition token_init :: token where
  "token_init = \<lparr> tok_type = token_none, tok_s = None \<rparr>"

definition to_char :: "int \<Rightarrow> char" where
  "to_char c = char_of c"

text \<open>\<open>strchr\<close> also finds the terminating zero of the string it searches.\<close>

definition strchr :: "string \<Rightarrow> int \<Rightarrow> bool" where
  "strchr s c = (to_char c \<in> set s \<or> to_char c = CHR 0x00)"

definition white :: string where
  "white = [CHR '' '', CHR 0x09, CHR 0x0D, CHR 0x0A]"

definition delims :: string where
  "delims = white @ ''</>''"

text \<open>
  White space and comments: the next character that starts a token, or \<open>None\<close> at the end
  of the input. The flag says whether the scan is inside a comment.
\<close>

partial_function (option) skip_loop ::
  "'c fetch_ops \<Rightarrow> bool \<Rightarrow> 'c \<Rightarrow> (int option \<times> 'c) option" where
  "skip_loop fops comment ctx = (
     case fops_getc fops ctx of (c, ctx) \<Rightarrow>
       if c = c_EOF then Some (None, ctx)
       else if comment then
         if c = 10 then skip_loop fops False ctx else skip_loop fops True ctx
       else if strchr white c then skip_loop fops False ctx
       else if c = 35 then skip_loop fops True ctx
       else Some (Some c, ctx))"

text \<open>
  The characters of a word; \<open>n\<close> is the size of the block that holds them. A write past
  the block returns \<open>Some None\<close>.
\<close>

partial_function (option) word_loop ::
  "'c fetch_ops \<Rightarrow> int \<Rightarrow> string \<Rightarrow> nat \<Rightarrow> 'c \<Rightarrow> ((string \<times> nat \<times> int \<times> 'c) option) option" where
  "word_loop fops c buf n ctx = (
     if length buf \<ge> n then Some None
     else
       let buf = buf @ [to_char c];
           n = (if length buf = n then n + 32 else n)
       in case fops_getc fops ctx of (c, ctx) \<Rightarrow>
         if c = c_EOF \<or> strchr delims c then Some (Some (buf, n, c, ctx))
         else word_loop fops c buf n ctx)"

text \<open>The final zero is a write at index \<open>length buf\<close> of the block.\<close>

definition token_get_generic ::
  "'c fetch_ops \<Rightarrow> token \<Rightarrow> 'c \<Rightarrow> ((token \<times> 'c) option) option" where
  "token_get_generic fops tok ctx = (
     case skip_loop fops False ctx of
       None \<Rightarrow> None
     | Some (None, ctx) \<Rightarrow> Some (Some (tok\<lparr> tok_type := token_eof \<rparr>, ctx))
     | Some (Some c, ctx) \<Rightarrow>
         if c = 60 then
           case fops_getc fops ctx of (c, ctx) \<Rightarrow>
             if c = 47 then Some (Some (tok\<lparr> tok_type := token_langleslash \<rparr>, ctx))
             else Some (Some (tok\<lparr> tok_type := token_langle \<rparr>, fops_ungetc fops c ctx))
         else if c = 62 then Some (Some (tok\<lparr> tok_type := token_rangle \<rparr>, ctx))
         else
           case word_loop fops c [] 32 ctx of
             None \<Rightarrow> None
           | Some None \<Rightarrow> Some None
           | Some (Some (buf, n, c, ctx)) \<Rightarrow>
               if length buf \<ge> n then Some None
               else Some (Some (\<lparr> tok_type = token_word, tok_s = Some buf \<rparr>, fops_ungetc fops c ctx)))"

section \<open>The language\<close>

text \<open>The tokens of a text, as a function on what is left of it.\<close>

definition is_white :: "char \<Rightarrow> bool" where
  "is_white x \<longleftrightarrow> x \<in> set white \<or> x = CHR 0x00"

definition is_delim :: "char \<Rightarrow> bool" where
  "is_delim x \<longleftrightarrow> x \<in> set delims \<or> x = CHR 0x00"

fun skip_spec :: "bool \<Rightarrow> string \<Rightarrow> string" where
  "skip_spec comment [] = []"
| "skip_spec True (x # xs) = skip_spec (x \<noteq> CHR 0x0A) xs"
| "skip_spec False (x # xs) =
     (if is_white x then skip_spec False xs
      else if x = CHR ''#'' then skip_spec True xs
      else x # xs)"

datatype lexeme = LAngle | LAngleSlash | RAngle | Word string | Eof

definition lex :: "string \<Rightarrow> lexeme \<times> string" where
  "lex s = (case skip_spec False s of
     [] \<Rightarrow> (Eof, [])
   | x # xs \<Rightarrow>
       if x = CHR ''<'' then
         (case xs of
            y # ys \<Rightarrow> if y = CHR ''/'' then (LAngleSlash, ys) else (LAngle, xs)
          | [] \<Rightarrow> (LAngle, []))
       else if x = CHR ''>'' then (RAngle, xs)
       else (Word (x # takeWhile (\<lambda>y. \<not> is_delim y) xs), dropWhile (\<lambda>y. \<not> is_delim y) xs))"

text \<open>The token structure that holds a lexeme: only a word replaces the string.\<close>

definition store :: "lexeme \<Rightarrow> token \<Rightarrow> token" where
  "store l tok = (case l of
     LAngle \<Rightarrow> tok\<lparr> tok_type := token_langle \<rparr>
   | LAngleSlash \<Rightarrow> tok\<lparr> tok_type := token_langleslash \<rparr>
   | RAngle \<Rightarrow> tok\<lparr> tok_type := token_rangle \<rparr>
   | Word w \<Rightarrow> \<lparr> tok_type = token_word, tok_s = Some w \<rparr>
   | Eof \<Rightarrow> tok\<lparr> tok_type := token_eof \<rparr>)"

definition ascii :: "string \<Rightarrow> bool" where
  "ascii s \<longleftrightarrow> (\<forall>x\<in>set s. (of_char x :: int) < 128)"

lemma ascii_simps [simp]:
  "ascii []" "ascii (x # xs) \<longleftrightarrow> (of_char x :: int) < 128 \<and> ascii xs"
  by (auto simp: ascii_def)

lemma to_char_of_char [simp]: "to_char (of_char x) = x"
  by (simp add: to_char_def)

lemma of_char_eq_iff: "(of_char x :: int) = of_char y \<longleftrightarrow> x = y"
  by (metis char_of_char)

lemma code_points [simp]:
  "(of_char x :: int) = 10 \<longleftrightarrow> x = CHR 0x0A" "(of_char x :: int) = 35 \<longleftrightarrow> x = CHR ''#''"
  "(of_char x :: int) = 60 \<longleftrightarrow> x = CHR ''<''" "(of_char x :: int) = 62 \<longleftrightarrow> x = CHR ''>''"
  "(of_char x :: int) = 47 \<longleftrightarrow> x = CHR ''/''"
  using of_char_eq_iff [of x "CHR 0x0A"] of_char_eq_iff [of x "CHR ''#''"]
    of_char_eq_iff [of x "CHR ''<''"] of_char_eq_iff [of x "CHR ''>''"] of_char_eq_iff [of x "CHR ''/''"]
  by simp_all

lemma of_char_not_EOF [simp]: "(of_char x :: int) \<noteq> c_EOF"
proof -
  have "(0::int) \<le> of_char x" by (metis of_char_of of_int_0_le_iff of_nat_0_le_iff of_char_def
      horner_sum_nonnegative zero_le_numeral)
  then show ?thesis by (simp add: c_EOF_def)
qed

lemma strchr_white [simp]: "strchr white (of_char x) = is_white x"
  and strchr_delims [simp]: "strchr delims (of_char x) = is_delim x"
  by (simp_all add: strchr_def is_white_def is_delim_def)

section \<open>The contract of a source\<close>

text \<open>\<open>reads ctx s\<close>: what is left to read from \<open>ctx\<close> is \<open>s\<close>.\<close>

locale fetch_source =
  fixes fops :: "'c fetch_ops" and reads :: "'c \<Rightarrow> string \<Rightarrow> bool"
  assumes getc_end: "reads ctx [] \<Longrightarrow> \<exists>ctx'. fops_getc fops ctx = (c_EOF, ctx') \<and> reads ctx' []"
    and getc_char: "reads ctx (x # xs) \<Longrightarrow> (of_char x :: int) < 128 \<Longrightarrow>
      \<exists>ctx'. fops_getc fops ctx = (of_char x, ctx') \<and> reads ctx' xs \<and>
        reads (fops_ungetc fops (of_char x) ctx') (x # xs)"
    and ungetc_end: "reads ctx s \<Longrightarrow> reads (fops_ungetc fops c_EOF ctx) s"
begin

lemma skip_loop_ok:
  assumes "reads ctx s" "ascii s"
  shows "\<exists>ctx'. case skip_spec comment s of
      [] \<Rightarrow> skip_loop fops comment ctx = Some (None, ctx') \<and> reads ctx' []
    | x # xs \<Rightarrow> skip_loop fops comment ctx = Some (Some (of_char x), ctx') \<and> reads ctx' xs"
  using assms
proof (induction comment s arbitrary: ctx rule: skip_spec.induct)
  case (1 comment)
  then show ?case using getc_end [of ctx] by (subst skip_loop.simps) auto
next
  case (2 x xs)
  obtain ctx1 where c: "fops_getc fops ctx = (of_char x, ctx1)" "reads ctx1 xs"
    using getc_char [of ctx x xs] 2 by auto
  then have eq: "skip_loop fops True ctx = skip_loop fops (x \<noteq> CHR 0x0A) ctx1"
    by (subst skip_loop.simps) simp
  then show ?case unfolding eq skip_spec.simps using "2.IH" [OF c(2)] "2.prems" by simp
next
  case (3 x xs)
  obtain ctx1 where c: "fops_getc fops ctx = (of_char x, ctx1)" "reads ctx1 xs"
    using getc_char [of ctx x xs] 3 by auto
  then have eq: "skip_loop fops False ctx = (
      if is_white x then skip_loop fops False ctx1
      else if x = CHR ''#'' then skip_loop fops True ctx1
      else Some (Some (of_char x), ctx1))"
    by (subst skip_loop.simps) simp
  consider "is_white x" | "\<not> is_white x" "x = CHR ''#''" | "\<not> is_white x" "x \<noteq> CHR ''#''" by blast
  then show ?case
  proof cases
    case 1
    then show ?thesis unfolding eq using "3.IH"(1) [OF 1 c(2)] "3.prems" by simp
  next
    case 2
    then show ?thesis unfolding eq using "3.IH"(2) [OF 2 c(2)] "3.prems" by simp
  next
    case n: 3
    then show ?thesis unfolding eq using c(2) by simp
  qed
qed

lemma word_loop_ok:
  assumes "reads ctx s" "ascii s" "length buf < n"
  shows "\<exists>n' c ctx'. word_loop fops (of_char x) buf n ctx =
      Some (Some (buf @ x # takeWhile (\<lambda>y. \<not> is_delim y) s, n', c, ctx')) \<and>
    length (buf @ x # takeWhile (\<lambda>y. \<not> is_delim y) s) < n' \<and>
    reads (fops_ungetc fops c ctx') (dropWhile (\<lambda>y. \<not> is_delim y) s)"
  using assms
proof (induction s arbitrary: ctx buf n x)
  case Nil
  obtain ctx1 where c: "fops_getc fops ctx = (c_EOF, ctx1)" "reads ctx1 []"
    using getc_end Nil by auto
  then show ?case using Nil ungetc_end [OF c(2)] by (subst word_loop.simps) (auto simp: Let_def)
next
  case (Cons y ys)
  define n' where "n' = (if length (buf @ [x]) = n then n + 32 else n)"
  have n': "length (buf @ [x]) < n'" using Cons.prems by (auto simp: n'_def)
  obtain ctx1 where c: "fops_getc fops ctx = (of_char y, ctx1)" "reads ctx1 ys"
    "reads (fops_ungetc fops (of_char y) ctx1) (y # ys)"
    using getc_char [of ctx y ys] Cons.prems by auto
  have step: "word_loop fops (of_char x) buf n ctx = (
      if is_delim y then Some (Some (buf @ [x], n', of_char y, ctx1))
      else word_loop fops (of_char y) (buf @ [x]) n' ctx1)"
    using Cons.prems(3) c(1) by (subst word_loop.simps) (simp add: Let_def n'_def)
  show ?case
  proof (cases "is_delim y")
    case True
    with step n' c(3) show ?thesis by simp
  next
    case False
    with Cons.IH [OF c(2) _ n', of y] Cons.prems(2) step show ?thesis by simp
  qed
qed

lemma token_get_ok:
  assumes "reads ctx s" "ascii s"
  shows "\<exists>ctx'. token_get_generic fops tok ctx = Some (Some (store (fst (lex s)) tok, ctx')) \<and>
    reads ctx' (snd (lex s))"
proof -
  obtain ctx1 where skip: "case skip_spec False s of
      [] \<Rightarrow> skip_loop fops False ctx = Some (None, ctx1) \<and> reads ctx1 []
    | x # xs \<Rightarrow> skip_loop fops False ctx = Some (Some (of_char x), ctx1) \<and> reads ctx1 xs"
    using skip_loop_ok [OF assms] by blast
  have sub: "set (skip_spec b s) \<subseteq> set s" for b by (induction b s rule: skip_spec.induct) auto
  show ?thesis
  proof (cases "skip_spec False s")
    case Nil
    with skip show ?thesis by (simp add: token_get_generic_def lex_def store_def)
  next
    case (Cons x xs)
    with skip have sk: "skip_loop fops False ctx = Some (Some (of_char x), ctx1)" "reads ctx1 xs"
      by simp_all
    have xs: "ascii xs" using assms(2) sub [of False] Cons by (auto simp: ascii_def)
    consider "x = CHR ''<''" | "x = CHR ''>''" | "x \<noteq> CHR ''<''" "x \<noteq> CHR ''>''" by blast
    then show ?thesis
    proof cases
      case 1
      show ?thesis
      proof (cases xs)
        case Nil
        obtain ctx2 where "fops_getc fops ctx1 = (c_EOF, ctx2)" "reads ctx2 []"
          using getc_end sk(2) Nil by auto
        with ungetc_end [OF this(2)] show ?thesis using sk(1) 1 Cons Nil
          by (simp add: token_get_generic_def lex_def store_def c_EOF_def)
      next
        fix y ys
        assume ys: "xs = y # ys"
        obtain ctx2 where "fops_getc fops ctx1 = (of_char y, ctx2)" "reads ctx2 ys"
          "reads (fops_ungetc fops (of_char y) ctx2) (y # ys)"
          using getc_char [of ctx1 y ys] sk(2) xs ys by auto
        then show ?thesis using sk(1) 1 Cons ys
          by (simp add: token_get_generic_def lex_def store_def)
      qed
    next
      case 2
      then show ?thesis using sk Cons by (simp add: token_get_generic_def lex_def store_def)
    next
      case 3
      then show ?thesis using sk Cons word_loop_ok [OF sk(2) xs, of "[]" 32 x]
        by (auto simp: token_get_generic_def lex_def store_def)
    qed
  qed
qed

end

section \<open>Buffers\<close>

definition tracker_reads :: "tracker \<Rightarrow> string \<Rightarrow> bool" where
  "tracker_reads t s \<longleftrightarrow> base t \<le> pos t \<and> pos t \<le> limit t \<and> limit t \<le> length (buffer t) \<and>
     s = drop (pos t) (take (limit t) (buffer t))"

lemma tracker_reads_Cons:
  "tracker_reads t (x # xs) \<longleftrightarrow> base t \<le> pos t \<and> pos t < limit t \<and> limit t \<le> length (buffer t) \<and>
     x = buffer t ! pos t \<and> xs = drop (Suc (pos t)) (take (limit t) (buffer t))"
proof (cases "pos t < limit t \<and> limit t \<le> length (buffer t)")
  case True
  then have "drop (pos t) (take (limit t) (buffer t)) =
      buffer t ! pos t # drop (Suc (pos t)) (take (limit t) (buffer t))"
    using Cons_nth_drop_Suc [of "pos t" "take (limit t) (buffer t)"] by simp
  then show ?thesis using True by (simp add: tracker_reads_def)
next
  case False
  then show ?thesis by (auto simp: tracker_reads_def)
qed

interpretation buf: fetch_source fops_buf tracker_reads
proof unfold_locales
  fix t
  assume "tracker_reads t []"
  then show "\<exists>t'. fops_getc fops_buf t = (c_EOF, t') \<and> tracker_reads t' []"
    by (auto simp: tracker_reads_def fops_buf_def getc_from_buf_def)
next
  fix t x xs
  assume t: "tracker_reads t (x # xs)" and "(of_char x :: int) < 128"
  then have "fops_getc fops_buf t = (of_char x, t\<lparr> pos := pos t + 1 \<rparr>)"
    by (auto simp: tracker_reads_Cons fops_buf_def getc_from_buf_def signed_char_def)
  moreover have "tracker_reads (t\<lparr> pos := pos t + 1 \<rparr>) xs"
    using t unfolding tracker_reads_Cons by (simp add: tracker_reads_def)
  moreover have "fops_ungetc fops_buf (of_char x) (t\<lparr> pos := pos t + 1 \<rparr>) = t"
    using t by (simp add: tracker_reads_Cons fops_buf_def ungetc_into_buf_def)
  ultimately show "\<exists>t'. fops_getc fops_buf t = (of_char x, t') \<and> tracker_reads t' xs \<and>
      tracker_reads (fops_ungetc fops_buf (of_char x) t') (x # xs)" using t by metis
next
  fix t s
  assume "tracker_reads t s"
  then show "tracker_reads (fops_ungetc fops_buf c_EOF t) s"
    by (simp add: fops_buf_def ungetc_into_buf_def)
qed

lemma tracker_init_reads: "len \<le> length s \<Longrightarrow> tracker_reads (tracker_init s len) (take len s)"
  by (simp add: tracker_reads_def tracker_init_def)

section \<open>Printing and reading tokens\<close>

fun print_lexeme :: "lexeme \<Rightarrow> string" where
  "print_lexeme LAngle = ''<''"
| "print_lexeme LAngleSlash = ''</''"
| "print_lexeme RAngle = ''>''"
| "print_lexeme (Word w) = w"
| "print_lexeme Eof = []"

fun good_word :: "lexeme \<Rightarrow> bool" where
  "good_word (Word (x # w)) \<longleftrightarrow> x \<notin> set ''<>#'' \<and> \<not> is_white x \<and> (\<forall>y\<in>set w. \<not> is_delim y)"
| "good_word (Word []) \<longleftrightarrow> False"
| "good_word Eof \<longleftrightarrow> False"
| "good_word _ \<longleftrightarrow> True"

lemma lex_print:
  assumes "good_word l"
  shows "lex (print_lexeme l @ CHR '' '' # s) = (l, CHR '' '' # s)"
proof (cases "\<exists>x w. l = Word (x # w)")
  case True
  then obtain x w where l: "l = Word (x # w)" by blast
  have sp: "is_delim (CHR '' '')" by (simp add: is_delim_def delims_def white_def)
  have "takeWhile (\<lambda>y. \<not> is_delim y) (w @ CHR '' '' # s) = w"
    "dropWhile (\<lambda>y. \<not> is_delim y) (w @ CHR '' '' # s) = CHR '' '' # s"
    using assms l sp by simp_all
  then show ?thesis using assms l by (auto simp: lex_def)
next
  case False
  then show ?thesis using assms
    by (cases l rule: good_word.cases) (auto simp: lex_def is_white_def white_def)
qed

end
