(* ===== verification/MiscProps.thy ===== *)
theory MiscProps
  imports Symtab Parse
begin

text \<open>
  The properties of the support library: sequences of operations on a dynamic array, the
  symbol table as a finite map, and the tokenizer.
\<close>

section \<open>Sequences of array operations\<close>

datatype 'p da_op =
    Append 'p
  | RemoveIndex nat
  | Remove 'p
  | RemoveLast
  | RemoveAll
  | CopyFrom "'p list"

text \<open>The array a program builds from a list, by appending one pointer at a time.\<close>

fun append_all :: "'p darray \<Rightarrow> 'p list \<Rightarrow> 'p darray option" where
  "append_all a [] = Some a"
| "append_all a (p # ps) = (case darray_append a p of None \<Rightarrow> None | Some a \<Rightarrow> append_all a ps)"

fun da_step :: "'p da_op \<Rightarrow> 'p darray \<Rightarrow> 'p darray option" where
  "da_step (Append p) a = darray_append a p"
| "da_step (RemoveIndex n) a = darray_remove_index a n"
| "da_step (Remove p) a = darray_remove a p"
| "da_step RemoveLast a = darray_remove_last a"
| "da_step RemoveAll a = Some (darray_remove_all a)"
| "da_step (CopyFrom ps) a = map_option (darray_copy a) (append_all darray_new ps)"

fun list_step :: "'p da_op \<Rightarrow> 'p list \<Rightarrow> 'p list option" where
  "list_step (Append p) xs = Some (xs @ [p])"
| "list_step (RemoveIndex n) xs = (if n < length xs then Some (take n xs @ drop (Suc n) xs) else None)"
| "list_step (Remove p) xs = (if p \<in> set xs then Some (remove1 p xs) else None)"
| "list_step RemoveLast xs = (if xs = [] then None else Some (butlast xs))"
| "list_step RemoveAll xs = Some []"
| "list_step (CopyFrom ps) xs = Some ps"

fun run_ops :: "('o \<Rightarrow> 't \<Rightarrow> 't option) \<Rightarrow> 'o list \<Rightarrow> 't \<Rightarrow> 't option" where
  "run_ops f [] t = Some t"
| "run_ops f (x # xs) t = (case f x t of None \<Rightarrow> None | Some t \<Rightarrow> run_ops f xs t)"

lemma append_all_represents:
  "represents a xs \<Longrightarrow> \<exists>a'. append_all a ps = Some a' \<and> represents a' (xs @ ps)"
proof (induction ps arbitrary: a xs)
  case (Cons p ps)
  obtain a1 where a1: "darray_append a p = Some a1" "represents a1 (xs @ [p])"
    using append_represents [OF Cons.prems] by blast
  from Cons.IH [OF a1(2)] a1(1) show ?case by simp
qed simp

lemma da_step_represents:
  assumes "represents a xs" "list_step x xs = Some ys"
  shows "\<exists>a'. da_step x a = Some a' \<and> represents a' ys"
proof (cases x)
  case RemoveLast
  with assms have "xs = butlast xs @ [last xs]" "ys = butlast xs" by (auto split: if_splits)
  with remove_last_represents [of a ys "last xs"] assms(1) RemoveLast show ?thesis by simp
next
  case (CopyFrom ps)
  obtain b where "append_all darray_new ps = Some b" "represents b ps"
    using append_all_represents [of "darray_new :: 'a darray" "[]" ps] by auto
  with assms(2) CopyFrom copy_represents [of b ps a] show ?thesis by simp
qed (use assms in \<open>auto split: if_splits
      intro: append_represents remove_index_represents remove_represents\<close>)

lemma run_ops_represents:
  "represents a xs \<Longrightarrow> run_ops list_step ops xs = Some ys \<Longrightarrow>
    \<exists>a'. run_ops da_step ops a = Some a' \<and> represents a' ys"
proof (induction ops arbitrary: a xs)
  case (Cons x ops)
  then obtain xs1 where xs1: "list_step x xs = Some xs1" "run_ops list_step ops xs1 = Some ys"
    by (auto split: option.splits)
  obtain a1 where a1: "da_step x a = Some a1" "represents a1 xs1"
    using da_step_represents [OF Cons.prems(1) xs1(1)] by blast
  from Cons.IH [OF a1(2) xs1(2)] a1(1) show ?case by simp
qed simp



text \<open>
  \<open>darray_remove_with_test\<close> removes the first element that passes the test and no other,
  although its loop is written over all of them; when an element passes and the block is full,
  the loop reads one slot past the end of the block.
\<close>

theorem darray_remove_with_test_first:
  assumes "represents a xs"
  shows "case darray_remove_with_test a test of
      None \<Rightarrow> (\<exists>x\<in>set xs. test x) \<and> count a = max_slots a
    | Some a' \<Rightarrow> if \<exists>x\<in>set xs. test x
        then count a < max_slots a \<and> represents a' (remove_first test xs)
        else a' = a"
  using remove_with_test_ok [OF assms, of test] assms
  by (cases "\<exists>x\<in>set xs. test x"; cases "count a < max_slots a")
     (auto simp: represents_def split: option.splits)

theorem darray_remove_with_test_witness:
  "\<exists>a b. run_ops da_step (map Append [1, 2, 3, 2 :: nat]) darray_new = Some a \<and>
    (\<exists>a'. darray_remove_with_test a (\<lambda>x. x = 2) = Some a' \<and> represents a' [1, 3, 2]) \<and>
    run_ops da_step (map Append [1, 2, 3, 4, 5, 6, 7, 8 :: nat]) darray_new = Some b \<and>
    darray_remove_with_test b (\<lambda>x. x = 2) = None"
proof -
  obtain a where a: "run_ops da_step (map Append [1, 2, 3, 2 :: nat]) darray_new = Some a"
    "represents a [1, 2, 3, 2]"
    using run_ops_represents [OF represents_empty(1), of "map Append [1, 2, 3, 2 :: nat]"] by auto
  have a1: "a = the (run_ops da_step (map Append [1, 2, 3, 2]) darray_new)" using a by simp
  have "darray_remove_with_test a (\<lambda>x. x = 2) \<noteq> None" unfolding a1 by code_simp
  with darray_remove_with_test_first [OF a(2), of "\<lambda>x. x = 2"]
  have "\<exists>a'. darray_remove_with_test a (\<lambda>x. x = 2) = Some a' \<and> represents a' [1, 3, 2]"
    by (auto simp: remove_first_def)
  moreover obtain b where b: "run_ops da_step (map Append [1, 2, 3, 4, 5, 6, 7, 8 :: nat]) darray_new = Some b"
    "represents b [1, 2, 3, 4, 5, 6, 7, 8]"
    using run_ops_represents [OF represents_empty(1), of "map Append [1, 2, 3, 4, 5, 6, 7, 8 :: nat]"] by auto
  have "b = the (run_ops da_step (map Append [1, 2, 3, 4, 5, 6, 7, 8]) darray_new)" using b by simp
  moreover have "count (the (run_ops da_step (map Append [1, 2, 3, 4, 5, 6, 7, 8 :: nat]) darray_new)) =
    max_slots (the (run_ops da_step (map Append [1, 2, 3, 4, 5, 6, 7, 8 :: nat]) darray_new))" by code_simp
  ultimately have "darray_remove_with_test b (\<lambda>x. x = 2) = None"
    using darray_remove_with_test_first [OF b(2), of "\<lambda>x. x = 2"] by (auto split: option.splits)
  with a(1) b(1) \<open>\<exists>a'. _\<close> show ?thesis by blast
qed

section \<open>The symbol table\<close>

definition put_seq :: "'d symtab \<Rightarrow> (string \<times> 'd) list \<Rightarrow> 'd symtab option" where
  "put_seq t ps = fold (\<lambda>(k, d) r. Option.bind r (\<lambda>t. symtab_put t d k)) ps (Some t)"

lemma put_seq_None: "fold (\<lambda>(k, d) r. Option.bind r (\<lambda>t. symtab_put t d k)) ps None = None"
  by (induction ps) auto

lemma put_seq_put_all: "put_seq t ps = symtab.put_all t ps"
  by (induction ps arbitrary: t) (auto simp: put_seq_def put_seq_None split: option.splits)

text \<open>
  C37: After any sequence of insertions into the table of \<^verbatim>\<open>symtab.c\<close>, a lookup returns the
  data last put under the key, \<open>NULL\<close> for a key never put, \<open>symtab_has\<close> tells the two
  apart, and the callback of \<open>symtab_forall_data\<close> runs once for every key.
\<close>

theorem symtab_last_put:
  "\<exists>t. put_seq symtab_init ps = Some t \<and> symtab_at t k = Some (map_of (rev ps) k) \<and>
    symtab_has t k = Some (k \<in> fst ` set ps) \<and>
    symtab_forall_data t (\<lambda>d n. n + 1) 0 = Some (card (fst ` set ps))"
proof -
  obtain t where t: "put_seq symtab_init ps = Some t" "symtab_ok t (map_of (rev ps))"
    using symtab.put_all_ok [OF symtab.empty_ok, of ps] by (auto simp: put_seq_put_all)
  then obtain es where es: "represents t es" "distinct (map key es)" "map_of (rev ps) = entries_map es"
    by (auto simp: symtab_ok_def)
  have "fst ` set ps = dom (map_of (rev ps))" by (simp add: dom_map_of_conv_image_fst)
  also have "\<dots> = set (map key es)"
    unfolding es(3) by (simp add: entries_map_def dom_map_of_conv_image_fst image_image)
  finally have "card (fst ` set ps) = length es" using distinct_card [OF es(2)] by simp
  moreover have "fold (\<lambda>d n. n + 1) xs m = m + length xs" for xs :: "'a list" and m :: nat
    by (induction xs arbitrary: m) auto
  ultimately have "symtab_forall_data t (\<lambda>d n. n + 1) 0 = Some (card (fst ` set ps))"
    by (simp add: symtab_forall_ok [OF es(1)])
  moreover have "k \<in> fst ` set ps \<longleftrightarrow> map_of (rev ps) k \<noteq> None"
    by (simp add: map_of_eq_None_iff)
  ultimately show ?thesis using t symtab.at_ok [OF t(2)] symtab.has_ok [OF t(2)] by auto
qed

section \<open>The tokenizer\<close>

text \<open>
  C38: On a buffer of seven-bit characters \<open>token_get_generic\<close> returns, whatever the token
  structure held; its result is the first token of the text that is left, and what is left
  afterwards is the text after that token.
\<close>

theorem token_get_first:
  assumes "tracker_reads t s" "ascii s"
  shows "\<exists>t'. token_get_generic fops_buf tok t = Some (Some (store (fst (lex s)) tok, t')) \<and>
    tracker_reads t' (snd (lex s))"
  using assms by (rule buf.token_get_ok)

text \<open>A run of \<open>n\<close> calls, each into the token structure the last one left.\<close>

fun get_tokens :: "nat \<Rightarrow> token \<Rightarrow> tracker \<Rightarrow> token list option" where
  "get_tokens 0 tok t = Some []"
| "get_tokens (Suc n) tok t = (
     case token_get_generic fops_buf tok t of
       Some (Some (tok, t)) \<Rightarrow> map_option (\<lambda>ts. tok # ts) (get_tokens n tok t)
     | _ \<Rightarrow> None)"

definition lexeme_of :: "token \<Rightarrow> lexeme option" where
  "lexeme_of tok = (case tok_type tok of
     token_none \<Rightarrow> None | token_langle \<Rightarrow> Some LAngle | token_langleslash \<Rightarrow> Some LAngleSlash
   | token_rangle \<Rightarrow> Some RAngle | token_word \<Rightarrow> map_option Word (tok_s tok)
   | token_eof \<Rightarrow> Some Eof)"

lemma lexeme_of_store [simp]: "lexeme_of (store l tok) = Some l"
  by (cases l) (simp_all add: lexeme_of_def store_def)

definition print_all :: "lexeme list \<Rightarrow> string" where
  "print_all ls = concat (map (\<lambda>l. print_lexeme l @ '' '') ls)"

lemma lex_space: "lex (CHR '' '' # s) = lex s"
  by (simp add: lex_def is_white_def white_def)

lemma get_tokens_print:
  assumes "tracker_reads t s" "lex s = lex (print_all ls)" "ascii s" "ascii (print_all ls)"
    "\<forall>l\<in>set ls. good_word l"
  shows "\<exists>ts. get_tokens (length ls + 1) tok t = Some ts \<and> map lexeme_of ts = map Some (ls @ [Eof])"
  using assms
proof (induction ls arbitrary: t s tok)
  case Nil
  then have "fst (lex s) = Eof" by (simp add: print_all_def lex_def)
  then show ?case using buf.token_get_ok [OF Nil(1,3), of tok] by auto
next
  case (Cons l ls)
  have lx: "lex s = (l, CHR '' '' # print_all ls)"
    using Cons.prems(2,5) lex_print [of l "print_all ls"] by (simp add: print_all_def)
  obtain t' where t': "token_get_generic fops_buf tok t = Some (Some (store l tok, t'))"
    "tracker_reads t' (CHR '' '' # print_all ls)"
    using buf.token_get_ok [OF Cons.prems(1,3), of tok] lx by auto
  have asc: "ascii (CHR '' '' # print_all ls)" "ascii (print_all ls)"
    using Cons.prems(4) by (auto simp: print_all_def ascii_def)
  from Cons.IH [OF t'(2) lex_space asc, of "store l tok"] Cons.prems(5)
  obtain ts where "get_tokens (length ls + 1) (store l tok) t' = Some ts"
    "map lexeme_of ts = map Some (ls @ [Eof])" by auto
  with t'(1) show ?case by simp
qed

text \<open>
  A text of tokens separated by spaces is read back: the calls return the tokens in their
  order and then the end of the input.
\<close>

theorem token_print_roundtrip:
  assumes "\<forall>l\<in>set ls. good_word l" "ascii (print_all ls)"
  shows "\<exists>ts. get_tokens (length ls + 1) token_init
      (tracker_init (print_all ls) (length (print_all ls))) = Some ts \<and>
    map lexeme_of ts = map Some (ls @ [Eof])"
  using get_tokens_print [OF _ refl assms(2,2,1)] tracker_init_reads [of "length (print_all ls)" "print_all ls"]
  by simp

theorem token_get_first_witness:
  "\<exists>t'. token_get_generic fops_buf token_init (tracker_init ''#c'' 2) =
      Some (Some (\<lparr> tok_type = token_eof, tok_s = None \<rparr>, t')) \<and> tracker_reads t' []"
proof -
  have "tracker_reads (tracker_init ''#c'' 2) ''#c''"
    using tracker_init_reads [of 2 "''#c''"] by simp
  moreover have "ascii ''#c''" by simp
  ultimately show ?thesis
    using token_get_first [of "tracker_init ''#c'' 2" "''#c''" token_init]
    by (simp add: lex_def store_def token_init_def is_white_def white_def)
qed

theorem token_print_roundtrip_witness:
  "\<exists>ts. get_tokens 4 token_init (tracker_init ''< ab </ '' 8) = Some ts \<and>
    map lexeme_of ts = [Some LAngle, Some (Word ''ab''), Some LAngleSlash, Some Eof]"
proof -
  let ?ls = "[LAngle, Word ''ab'', LAngleSlash]"
  have p: "print_all ?ls = ''< ab </ ''" by (simp add: print_all_def)
  have "\<forall>l\<in>set ?ls. good_word l" "ascii (print_all ?ls)"
    unfolding p by (simp_all add: is_white_def white_def is_delim_def delims_def)
  from token_print_roundtrip [OF this]
  have "\<exists>ts. get_tokens (length ?ls + 1) token_init (tracker_init ''< ab </ '' (length ''< ab </ '')) = Some ts \<and>
      map lexeme_of ts = map Some (?ls @ [Eof])" unfolding p .
  moreover have "length ?ls + 1 = 4" "length ''< ab </ '' = 8"
    "map Some (?ls @ [Eof]) = [Some LAngle, Some (Word ''ab''), Some LAngleSlash, Some Eof]" by simp_all
  ultimately show ?thesis by metis
qed

end
