(* ===== verification/Polymod.thy ===== *)
theory Polymod
  imports Poly Pow MpzBytes
begin

text \<open>
  The extension \<open>R[x]\<close> modulo a monic polynomial, the second half of \<^verbatim>\<open>arith/poly.c\<close>:
  an element is the list of its \<open>n\<close> coefficients. \<open>B\<close> is the base ring, \<open>P\<close> the data of the
  field: the degree, the polynomial and the reductions of \<open>x^n, \<dots>, x^(2n-1)\<close>.
\<close>

section \<open>Linear operations\<close>

record 'a polymod_field_data =
  pm_n :: nat
  pm_poly :: "'a poly"
  pm_xpwr :: "'a list list"

definition polymod_coeff :: "'a list \<Rightarrow> nat \<Rightarrow> 'a" where
  "polymod_coeff e i = e ! i"

definition polymod_field_degree :: "'a polymod_field_data \<Rightarrow> nat" where
  "polymod_field_degree P = pm_n P"

definition polymod_init :: "'a field_s \<Rightarrow> nat \<Rightarrow> 'a list" where
  "polymod_init B n = replicate n (element_init B)"

fun polymod_random :: "'a field_s \<Rightarrow> entropy \<Rightarrow> nat \<Rightarrow> 'a list \<Rightarrow> 'a list \<times> nat" where
  "polymod_random B R c [] = ([], c)"
| "polymod_random B R c (e # es) = (
     let (e, c) = element_random B R c e;
         (es, c) = polymod_random B R c es
     in (e # es, c))"

fun polymod_from_hash :: "'a field_s \<Rightarrow> 'a list \<Rightarrow> byte list \<Rightarrow> 'a list option" where
  "polymod_from_hash B [] data = Some []"
| "polymod_from_hash B (e # es) data = (
     case element_from_hash B e data of
       None \<Rightarrow> None
     | Some e \<Rightarrow> map_option (\<lambda>es. e # es) (polymod_from_hash B es data))"

definition polymod_const_mul :: "'a field_s \<Rightarrow> nat \<Rightarrow> 'a list \<Rightarrow> 'a \<Rightarrow> 'a list \<Rightarrow> 'a list" where
  "polymod_const_mul B n res a e = map (\<lambda>i. element_mul B (res ! i) (e ! i) a) [0..<n]"

text \<open>\<open>element_set0\<close> on every coefficient after the first.\<close>

definition zero_tail :: "'a field_s \<Rightarrow> nat \<Rightarrow> 'a \<Rightarrow> 'a list \<Rightarrow> 'a list" where
  "zero_tail B n c e = map (\<lambda>i. if i = 0 then c else element_set0 B (e ! i)) [0..<n]"

definition polymod_set_si :: "'a field_s \<Rightarrow> nat \<Rightarrow> 'a list \<Rightarrow> int \<Rightarrow> 'a list" where
  "polymod_set_si B n e x = zero_tail B n (element_set_si B (e ! 0) x) e"

definition polymod_set_mpz :: "'a field_s \<Rightarrow> nat \<Rightarrow> 'a list \<Rightarrow> int \<Rightarrow> 'a list" where
  "polymod_set_mpz B n e z = zero_tail B n (element_set_mpz B (e ! 0) z) e"

definition element_field_to_polymod :: "'a field_s \<Rightarrow> nat \<Rightarrow> 'a list \<Rightarrow> 'a \<Rightarrow> 'a list" where
  "element_field_to_polymod B n f g = zero_tail B n (element_set B (f ! 0) g) f"

definition polymod_set0 :: "'a field_s \<Rightarrow> nat \<Rightarrow> 'a list \<Rightarrow> 'a list" where
  "polymod_set0 B n e = map (\<lambda>i. element_set0 B (e ! i)) [0..<n]"

definition polymod_set1 :: "'a field_s \<Rightarrow> nat \<Rightarrow> 'a list \<Rightarrow> 'a list" where
  "polymod_set1 B n e = zero_tail B n (element_set1 B (e ! 0)) e"

definition polymod_set :: "'a field_s \<Rightarrow> nat \<Rightarrow> 'a list \<Rightarrow> 'a list \<Rightarrow> 'a list" where
  "polymod_set B n e f = map (\<lambda>i. element_set B (e ! i) (f ! i)) [0..<n]"

definition polymod_neg :: "'a field_s \<Rightarrow> nat \<Rightarrow> 'a list \<Rightarrow> 'a list \<Rightarrow> 'a list" where
  "polymod_neg B n e f = map (\<lambda>i. element_neg B (e ! i) (f ! i)) [0..<n]"

fun polymod_cmp :: "'a field_s \<Rightarrow> 'a list \<Rightarrow> 'a list \<Rightarrow> int" where
  "polymod_cmp B (c # f) (d # g) = (if element_cmp B c d \<noteq> 0 then 1 else polymod_cmp B f g)"
| "polymod_cmp B f g = 0"

definition polymod_add :: "'a field_s \<Rightarrow> nat \<Rightarrow> 'a list \<Rightarrow> 'a list \<Rightarrow> 'a list \<Rightarrow> 'a list" where
  "polymod_add B n r e f = map (\<lambda>i. element_add B (r ! i) (e ! i) (f ! i)) [0..<n]"

definition polymod_double :: "'a field_s \<Rightarrow> nat \<Rightarrow> 'a list \<Rightarrow> 'a list \<Rightarrow> 'a list" where
  "polymod_double B n r f = map (\<lambda>i. element_double B (r ! i) (f ! i)) [0..<n]"

definition polymod_sub :: "'a field_s \<Rightarrow> nat \<Rightarrow> 'a list \<Rightarrow> 'a list \<Rightarrow> 'a list \<Rightarrow> 'a list" where
  "polymod_sub B n r e f = map (\<lambda>i. element_sub B (r ! i) (e ! i) (f ! i)) [0..<n]"

definition polymod_mul_mpz :: "'a field_s \<Rightarrow> nat \<Rightarrow> 'a list \<Rightarrow> 'a list \<Rightarrow> int \<Rightarrow> 'a list" where
  "polymod_mul_mpz B n e f z = map (\<lambda>i. element_mul_mpz B (e ! i) (f ! i) z) [0..<n]"

definition polymod_mul_si :: "'a field_s \<Rightarrow> nat \<Rightarrow> 'a list \<Rightarrow> 'a list \<Rightarrow> int \<Rightarrow> 'a list" where
  "polymod_mul_si B n e f z = map (\<lambda>i. element_mul_si B (e ! i) (f ! i) z) [0..<n]"

fun polymod_is0 :: "'a field_s \<Rightarrow> 'a list \<Rightarrow> int" where
  "polymod_is0 B [] = 1"
| "polymod_is0 B (c # e) = (if element_is0 B c = 0 then 0 else polymod_is0 B e)"

definition polymod_is1 :: "'a field_s \<Rightarrow> 'a list \<Rightarrow> int" where
  "polymod_is1 B e = (if element_is1 B (e ! 0) = 0 then 0 else polymod_is0 B (drop 1 e))"

fun polymod_sgn :: "'a field_s \<Rightarrow> 'a list \<Rightarrow> int" where
  "polymod_sgn B [] = 0"
| "polymod_sgn B (c # e) = (let res = element_sgn B c in if res \<noteq> 0 then res else polymod_sgn B e)"

definition polymod_to_mpz :: "'a field_s \<Rightarrow> 'a list \<Rightarrow> int" where
  "polymod_to_mpz B e = element_to_mpz B (polymod_coeff e 0)"

section \<open>Multiplication\<close>

text \<open>
  Karatsuba for polynomials of degree 2: coefficients 0 to 2 of the product go to \<open>dst\<close>,
  those of \<open>x^3\<close> and \<open>x^4\<close> to \<open>c3\<close> and \<open>c4\<close>.
\<close>

definition kar_poly_2 ::
  "'a field_s \<Rightarrow> 'a list \<Rightarrow> 'a \<Rightarrow> 'a \<Rightarrow> 'a list \<Rightarrow> 'a list \<Rightarrow> 'a list \<Rightarrow> 'a list \<times> 'a \<times> 'a \<times> 'a list" where
  "kar_poly_2 B dst c3 c4 s1 s2 scratch = (
     let c12 = scratch ! 0;
         c02 = scratch ! 1;
         c01 = scratch ! 2;
         c3 = element_add B c3 (s1 ! 0) (s1 ! 1);
         c4 = element_add B c4 (s2 ! 0) (s2 ! 1);
         c01 = element_mul B c01 c3 c4;
         c3 = element_add B c3 (s1 ! 0) (s1 ! 2);
         c4 = element_add B c4 (s2 ! 0) (s2 ! 2);
         c02 = element_mul B c02 c3 c4;
         c3 = element_add B c3 (s1 ! 1) (s1 ! 2);
         c4 = element_add B c4 (s2 ! 1) (s2 ! 2);
         c12 = element_mul B c12 c3 c4;
         d1 = element_mul B (dst ! 1) (s1 ! 1) (s2 ! 1);
         d0 = element_mul B (dst ! 0) (s1 ! 0) (s2 ! 0);
         c4 = element_mul B c4 (s1 ! 2) (s2 ! 2);
         c3 = element_add B c3 d1 c4;
         c3 = element_sub B c3 c12 c3;
         d2 = element_add B (dst ! 2) c4 d0;
         c02 = element_sub B c02 c02 d2;
         d2 = element_add B d2 d1 c02;
         c01 = element_sub B c01 c01 d0;
         d1 = element_sub B d1 c01 d1
     in (dst[0 := d0, 1 := d1, 2 := d2], c3, c4, scratch[0 := c12, 1 := c02, 2 := c01]))"

text \<open>\<open>res + c x^(n+i)\<close>, with \<open>p0\<close> as scratch.\<close>

definition add_xpwr ::
  "'a field_s \<Rightarrow> 'a polymod_field_data \<Rightarrow> 'a list \<times> 'a list \<Rightarrow> 'a \<Rightarrow> nat \<Rightarrow> 'a list \<times> 'a list" where
  "add_xpwr B P = (\<lambda>(res, p0) c i.
     let p0 = polymod_const_mul B (pm_n P) p0 c (pm_xpwr P ! i);
         res = polymod_add B (pm_n P) res res p0
     in (res, p0))"

definition polymod_mul_degree3 ::
  "'a field_s \<Rightarrow> 'a polymod_field_data \<Rightarrow> 'a list \<Rightarrow> 'a list \<Rightarrow> 'a list \<Rightarrow> 'a list" where
  "polymod_mul_degree3 B P res e f = (
     let p0 = polymod_init B (pm_n P);
         c3 = element_init B;
         c4 = element_init B;
         (res, c3, c4, p0) = kar_poly_2 B res c3 c4 e f p0;
         (res, p0) = add_xpwr B P (res, p0) c3 0;
         (res, p0) = add_xpwr B P (res, p0) c4 1
     in res)"

text \<open>
  Degree 6, on halves of three coefficients: the products \<open>s0\<close> of the low halves, \<open>s1\<close> of
  the high halves and \<open>s2\<close> of their sums, then their combination.
\<close>

definition degree6_products ::
  "'a field_s \<Rightarrow> nat \<Rightarrow> 'a list \<Rightarrow> 'a list \<Rightarrow> 'a list \<times> 'a list \<times> 'a list \<times> 'a list" where
  "degree6_products B n e f = (
     let a0 = take 3 e;
         a1 = drop 3 e;
         b0 = take 3 f;
         b1 = drop 3 f;
         s0 = polymod_init B n;
         s1 = polymod_init B n;
         s2 = polymod_init B n;
         p3 = polymod_init B n;
         s0 = s0[0 := element_add B (s0 ! 0) (a0 ! 0) (a1 ! 0), 1 := element_add B (s0 ! 1) (a0 ! 1) (a1 ! 1),
                 2 := element_add B (s0 ! 2) (a0 ! 2) (a1 ! 2)];
         s1 = s1[0 := element_add B (s1 ! 0) (b0 ! 0) (b1 ! 0), 1 := element_add B (s1 ! 1) (b0 ! 1) (b1 ! 1),
                 2 := element_add B (s1 ! 2) (b0 ! 2) (b1 ! 2)];
         (s2, c3, c4, p3) = kar_poly_2 B s2 (s2 ! 3) (s2 ! 4) s0 s1 p3;
         s2 = s2[3 := c3, 4 := c4];
         (s0, c3, c4, p3) = kar_poly_2 B s0 (s0 ! 3) (s0 ! 4) a0 b0 p3;
         s0 = s0[3 := c3, 4 := c4];
         (s1, c3, c4, p3) = kar_poly_2 B s1 (s1 ! 3) (s1 ! 4) a1 b1 p3;
         s1 = s1[3 := c3, 4 := c4]
     in (s0, s1, s2, p3))"

definition degree6_combine ::
  "'a field_s \<Rightarrow> 'a list \<Rightarrow> 'a list \<Rightarrow> 'a list \<Rightarrow> 'a list \<Rightarrow> 'a list \<times> 'a \<times> 'a" where
  "degree6_combine B res s0 s1 s2 = (
     let d0 = element_set B (res ! 0) (s0 ! 0);
         d1 = element_set B (res ! 1) (s0 ! 1);
         d2 = element_set B (res ! 2) (s0 ! 2);
         d3 = element_sub B (res ! 3) (s0 ! 3) (s0 ! 0);
         d3 = element_sub B d3 d3 (s1 ! 0);
         d3 = element_add B d3 d3 (s2 ! 0);
         d4 = element_sub B (res ! 4) (s0 ! 4) (s0 ! 1);
         d4 = element_sub B d4 d4 (s1 ! 1);
         d4 = element_add B d4 d4 (s2 ! 1);
         d5 = element_sub B (res ! 5) (s2 ! 2) (s0 ! 2);
         d5 = element_sub B d5 d5 (s1 ! 2);
         x0 = element_sub B (s0 ! 0) (s2 ! 3) (s0 ! 3);
         x0 = element_sub B x0 x0 (s1 ! 3);
         x0 = element_add B x0 x0 (s1 ! 0);
         x1 = element_sub B (s0 ! 1) (s2 ! 4) (s0 ! 4);
         x1 = element_sub B x1 x1 (s1 ! 4);
         x1 = element_add B x1 x1 (s1 ! 1)
     in ([d0, d1, d2, d3, d4, d5], x0, x1))"

definition polymod_mul_degree6 ::
  "'a field_s \<Rightarrow> 'a polymod_field_data \<Rightarrow> 'a list \<Rightarrow> 'a list \<Rightarrow> 'a list \<Rightarrow> 'a list" where
  "polymod_mul_degree6 B P res e f = (
     let (s0, s1, s2, p3) = degree6_products B (pm_n P) e f;
         (res, x0, x1) = degree6_combine B res s0 s1 s2;
         (res, p3) = add_xpwr B P (res, p3) x0 0;
         (res, p3) = add_xpwr B P (res, p3) x1 1;
         (res, p3) = add_xpwr B P (res, p3) (s1 ! 2) 2;
         (res, p3) = add_xpwr B P (res, p3) (s1 ! 3) 3;
         (res, p3) = add_xpwr B P (res, p3) (s1 ! 4) 4
     in res)"

text \<open>
  The general case: the state of the loops is the low half \<open>dst\<close>, the high half and the
  scratch element.
\<close>

definition mul_low ::
  "'a field_s \<Rightarrow> 'a list \<Rightarrow> 'a list \<Rightarrow> nat \<Rightarrow> nat \<Rightarrow> 'a list \<times> 'a list \<times> 'a \<Rightarrow> 'a list \<times> 'a list \<times> 'a" where
  "mul_low B s1 s2 i j = (\<lambda>(dst, high, c0).
     let c0 = element_mul B c0 (s1 ! i) (s2 ! j)
     in (dst[i + j := element_add B (dst ! (i + j)) (dst ! (i + j)) c0], high, c0))"

definition mul_high ::
  "'a field_s \<Rightarrow> nat \<Rightarrow> 'a list \<Rightarrow> 'a list \<Rightarrow> nat \<Rightarrow> nat \<Rightarrow> 'a list \<times> 'a list \<times> 'a \<Rightarrow> 'a list \<times> 'a list \<times> 'a" where
  "mul_high B n s1 s2 i j = (\<lambda>(dst, high, c0).
     let c0 = element_mul B c0 (s1 ! i) (s2 ! j);
         h = j - (n - i)
     in (dst, high[h := element_add B (high ! h) (high ! h) c0], c0))"

definition reduce_high :: "'a field_s \<Rightarrow> 'a polymod_field_data \<Rightarrow> 'a list \<Rightarrow> 'a list \<Rightarrow> 'a list" where
  "reduce_high B P pr high = fst (
     fold (\<lambda>i s. add_xpwr B P s (high ! i) i) [0..<pm_n P - 1] (pr, polymod_init B (pm_n P)))"

definition polymod_mul ::
  "'a field_s \<Rightarrow> 'a polymod_field_data \<Rightarrow> 'a list \<Rightarrow> 'a list \<Rightarrow> 'a list \<Rightarrow> 'a list" where
  "polymod_mul B P res e f = (
     let n = pm_n P;
         high = replicate (n - 1) (element_set0 B (element_init B));
         prod = polymod_init B n;
         (prod, high, c0) =
           fold (\<lambda>i s. fold (mul_high B n e f i) [n - i..<n] (fold (mul_low B e f i) [0..<n - i] s))
             [0..<n] (prod, high, element_init B)
     in polymod_set B n res (reduce_high B P prod high))"

definition polymod_square_degree3 ::
  "'a field_s \<Rightarrow> 'a polymod_field_data \<Rightarrow> 'a list \<Rightarrow> 'a list \<Rightarrow> 'a list" where
  "polymod_square_degree3 B P res src = (
     let p0 = polymod_init B (pm_n P);
         c0 = element_init B;
         c2 = element_init B;
         c3 = element_mul B (p0 ! 0) (src ! 0) (src ! 1);
         c1 = element_mul B (p0 ! 1) (src ! 0) (src ! 2);
         d0 = element_square B (res ! 0) (src ! 0);
         c2 = element_mul B c2 (src ! 1) (src ! 2);
         c0 = element_square B c0 (src ! 2);
         d2 = element_square B (res ! 2) (src ! 1);
         d1 = element_add B (res ! 1) c3 c3;
         c1 = element_add B c1 c1 c1;
         d2 = element_add B d2 d2 c1;
         p0 = p0[0 := c3, 1 := c1];
         (res, p0) = add_xpwr B P (res[0 := d0, 1 := d1, 2 := d2], p0) c0 1;
         c2 = element_add B c2 c2 c2;
         (res, p0) = add_xpwr B P (res, p0) c2 0
     in res)"

text \<open>The square: the diagonal term, then twice the terms above it.\<close>

definition square_diag ::
  "'a field_s \<Rightarrow> nat \<Rightarrow> 'a list \<Rightarrow> nat \<Rightarrow> 'a list \<times> 'a list \<times> 'a \<Rightarrow> 'a list \<times> 'a list \<times> 'a" where
  "square_diag B n src i = (\<lambda>(dst, high, c0).
     let twicei = 2 * i;
         c0 = element_square B c0 (src ! i)
     in if twicei < n
        then (dst[twicei := element_add B (dst ! twicei) (dst ! twicei) c0], high, c0)
        else (dst, high[twicei - n := element_add B (high ! (twicei - n)) (high ! (twicei - n)) c0], c0))"

definition square_low ::
  "'a field_s \<Rightarrow> 'a list \<Rightarrow> nat \<Rightarrow> nat \<Rightarrow> 'a list \<times> 'a list \<times> 'a \<Rightarrow> 'a list \<times> 'a list \<times> 'a" where
  "square_low B src i j = (\<lambda>(dst, high, c0).
     let c0 = element_mul B c0 (src ! i) (src ! j);
         c0 = element_add B c0 c0 c0
     in (dst[i + j := element_add B (dst ! (i + j)) (dst ! (i + j)) c0], high, c0))"

definition square_high ::
  "'a field_s \<Rightarrow> nat \<Rightarrow> 'a list \<Rightarrow> nat \<Rightarrow> nat \<Rightarrow> 'a list \<times> 'a list \<times> 'a \<Rightarrow> 'a list \<times> 'a list \<times> 'a" where
  "square_high B n src i j = (\<lambda>(dst, high, c0).
     let c0 = element_mul B c0 (src ! i) (src ! j);
         c0 = element_add B c0 c0 c0;
         h = i + j - n
     in (dst, high[h := element_add B (high ! h) (high ! h) c0], c0))"

definition polymod_square ::
  "'a field_s \<Rightarrow> 'a polymod_field_data \<Rightarrow> 'a list \<Rightarrow> 'a list \<Rightarrow> 'a list" where
  "polymod_square B P res src = (
     let n = pm_n P;
         high = replicate (n - 1) (element_set0 B (element_init B));
         prod = polymod_init B n;
         (prod, high, c0) =
           fold (\<lambda>i s. fold (square_high B n src i) [max (i + 1) (n - i)..<n]
                          (fold (square_low B src i) [i + 1..<n - i] (square_diag B n src i s)))
             [0..<n] (prod, high, element_init B)
     in polymod_set B n res (reduce_high B P prod high))"

section \<open>Conversions and inverse\<close>

definition element_polymod_to_poly :: "'a field_s \<Rightarrow> nat \<Rightarrow> 'a poly \<Rightarrow> 'a list \<Rightarrow> 'a poly" where
  "element_polymod_to_poly B n f e = (
     let f = poly_alloc B f n;
         f = map (\<lambda>i. element_set B (poly_coeff f i) (e ! i)) [0..<n]
     in poly_remove_leading_zeroes B f)"

definition element_poly_to_polymod_truncate :: "'a field_s \<Rightarrow> nat \<Rightarrow> 'a list \<Rightarrow> 'a poly \<Rightarrow> 'a list" where
  "element_poly_to_polymod_truncate B pn e f = (
     let n = poly_coeff_count f;
         n = (if n > pn then pn else n)
     in map (\<lambda>i. if i < n then element_set B (e ! i) (poly_coeff f i) else element_set0 B (e ! i)) [0..<pn])"

text \<open>The inverse; \<open>None\<close> when \<open>poly_invert\<close> does not return or exits.\<close>

definition polymod_invert :: "'a field_s \<Rightarrow> 'a polymod_field_data \<Rightarrow> 'a list \<Rightarrow> 'a list \<Rightarrow> 'a list option" where
  "polymod_invert B P r e = (
     let f = element_polymod_to_poly B (pm_n P) poly_init e
     in case poly_invert B poly_init f (pm_poly P) of
          Some (Some r1) \<Rightarrow> Some (element_poly_to_polymod_truncate B (pm_n P) r r1)
        | _ \<Rightarrow> None)"

text \<open>The reductions of \<open>x^n, \<dots>, x^(2n-1)\<close>: each is the one before it times \<open>x\<close>.\<close>

fun x_powers_loop :: "'a field_s \<Rightarrow> nat \<Rightarrow> 'a list \<Rightarrow> nat \<Rightarrow> 'a list \<Rightarrow> 'a list \<Rightarrow> 'a list list" where
  "x_powers_loop B n pwrn 0 p0 coeff = []"
| "x_powers_loop B n pwrn (Suc todo) p0 coeff = (
     let coeff1 = polymod_init B n;
         coeff1 = map (\<lambda>j. if j = 0 then element_set0 B (coeff1 ! 0)
                           else element_set B (coeff1 ! j) (coeff ! (j - 1))) [0..<n];
         p0 = polymod_const_mul B n p0 (coeff ! (n - 1)) pwrn;
         coeff1 = polymod_add B n coeff1 coeff1 p0
     in coeff1 # x_powers_loop B n pwrn todo p0 coeff1)"

definition compute_x_powers :: "'a field_s \<Rightarrow> nat \<Rightarrow> 'a poly \<Rightarrow> 'a list list" where
  "compute_x_powers B n poly = (
     let pwrn = polymod_init B n;
         pwrn = element_poly_to_polymod_truncate B n pwrn poly;
         pwrn = polymod_neg B n pwrn pwrn
     in pwrn # x_powers_loop B n pwrn (n - 1) (polymod_init B n) pwrn)"

definition polymod_init_data :: "'a field_s \<Rightarrow> 'a poly \<Rightarrow> 'a polymod_field_data" where
  "polymod_init_data B poly = (
     let p = poly_set B poly_init poly;
         n = nat (poly_degree p)
     in \<lparr> pm_n = n, pm_poly = p, pm_xpwr = compute_x_powers B n poly \<rparr>)"

section \<open>Serialisation\<close>

definition polymod_to_bytes :: "'a field_s \<Rightarrow> 'a list \<Rightarrow> byte list" where
  "polymod_to_bytes B f = concat (map (element_to_bytes B) f)"

definition polymod_length_in_bytes :: "'a field_s \<Rightarrow> 'a list \<Rightarrow> int" where
  "polymod_length_in_bytes B f = sum_list (map (element_length_in_bytes B) f)"

definition polymod_from_bytes :: "'a field_s \<Rightarrow> 'a list \<Rightarrow> byte list \<Rightarrow> 'a list \<times> nat" where
  "polymod_from_bytes B f data = from_bytes_loop B f data 0"

text \<open>Parsing: \<open>sst\<close> is \<open>element_set_str\<close> of the base field.\<close>

fun polymod_set_str_loop ::
  "('a \<Rightarrow> string \<Rightarrow> 'a \<times> nat) \<Rightarrow> 'a list \<Rightarrow> string \<Rightarrow> 'a list \<times> string option" where
  "polymod_set_str_loop sst [] cp = ([], Some cp)"
| "polymod_set_str_loop sst (c # cs) cp = (
     let (c, k) = sst c cp;
         cp = skip_space (drop k cp)
     in if cs = [] then ([c], Some cp)
        else case cp of
               x # cp' \<Rightarrow>
                 if x = CHR '','' then
                   let (cs, r) = polymod_set_str_loop sst cs cp' in (c # cs, r)
                 else (c # cs, None)
             | [] \<Rightarrow> (c # cs, None))"

definition polymod_set_str ::
  "'a field_s \<Rightarrow> nat \<Rightarrow> ('a \<Rightarrow> string \<Rightarrow> 'a \<times> nat) \<Rightarrow> 'a list \<Rightarrow> string \<Rightarrow> 'a list \<times> nat" where
  "polymod_set_str B n sst e s = (
     let e = polymod_set0 B n e;
         cp = skip_space s
     in case cp of [] \<Rightarrow> (e, 0) | c # cp \<Rightarrow>
       if c \<noteq> CHR ''['' then (e, 0) else
       let (e, r) = polymod_set_str_loop sst e cp
       in case r of
            Some (c # cp) \<Rightarrow> if c = CHR '']'' then (e, length s - length cp) else (e, 0)
          | _ \<Rightarrow> (e, 0))"

section \<open>The table\<close>

text \<open>
  The table but for the square tests, which call the exponentiation of the table itself. The
  degree of the polynomial chooses the multiplication.
\<close>

definition polymod_base :: "gmp \<Rightarrow> 'a field_s \<Rightarrow> 'a poly \<Rightarrow> 'a list field_s" where
  "polymod_base G B poly = (
     let P = polymod_init_data B poly;
         n = pm_n P
     in field_init\<lparr>
       f_init := polymod_init B n,
       f_set_si := Some (polymod_set_si B n),
       f_set_mpz := Some (polymod_set_mpz B n),
       f_set := polymod_set B n,
       f_sign := polymod_sgn B,
       f_add := polymod_add B n,
       f_doub := Some (polymod_double B n),
       f_sub := Some (polymod_sub B n),
       f_neg := polymod_neg B n,
       f_is0 := Some (polymod_is0 B),
       f_is1 := Some (polymod_is1 B),
       f_set0 := polymod_set0 B n,
       f_set1 := polymod_set1 B n,
       f_cmp := Some (polymod_cmp B),
       f_to_mpz := Some (polymod_to_mpz B),
       f_mul := (if n = 3 then polymod_mul_degree3 B P
                 else if n = 6 then polymod_mul_degree6 B P
                 else polymod_mul B P),
       f_square := Some (if n = 3 then polymod_square_degree3 B P else polymod_square B P),
       f_mul_mpz := Some (polymod_mul_mpz B n),
       f_mul_si := Some (polymod_mul_si B n),
       f_random := Some (\<lambda>R c e. polymod_random B R c e),
       f_from_hash := polymod_from_hash B,
       f_invert := (\<lambda>r e. case polymod_invert B P r e of Some x \<Rightarrow> x | None \<Rightarrow> undefined),
       f_to_bytes := polymod_to_bytes B,
       f_from_bytes := polymod_from_bytes B,
       f_length_in_bytes := (if f_fixed_length B < 0 then polymod_length_in_bytes B else undefined),
       f_fixed_length := (if f_fixed_length B < 0 then - 1 else f_fixed_length B * poly_degree poly),
       f_order := mpz_pow_ui G (f_order B) n \<rparr>)"

definition polymod_is_sqr :: "gmp \<Rightarrow> 'a list field_s \<Rightarrow> 'a list \<Rightarrow> int" where
  "polymod_is_sqr G K e = (
     let e0 = element_init K;
         z = mpz_sub G (f_order K) 1;
         z = mpz_divexact G z 2;
         e0 = element_pow_mpz G K e0 e z
     in element_is1 K e0)"

text \<open>
  The square root by Cantor and Zassenhaus, in the polynomials over the extension \<open>K\<close>: a
  random \<open>r = x + c\<close> is raised to the power \<open>z\<close> modulo \<open>x^2 - a\<close>.
\<close>

definition sqrt_reduce :: "'e field_s \<Rightarrow> 'e \<Rightarrow> 'e poly \<times> 'e \<Rightarrow> 'e poly \<times> 'e" where
  "sqrt_reduce K a = (\<lambda>(s, e0).
     if poly_degree s = 2 then
       let e1 = poly_coeff s 0;
           e2 = poly_coeff s 2;
           e0 = element_mul K e0 e2 a;
           e1 = element_add K e1 e1 e0;
           s = poly_alloc K (s[0 := e1]) 2
       in (poly_remove_leading_zeroes K s, e0)
     else (s, e0))"

fun sqrt_pow_loop :: "gmp \<Rightarrow> 'e field_s \<Rightarrow> 'e \<Rightarrow> 'e poly \<Rightarrow> int \<Rightarrow> nat \<Rightarrow> 'e poly \<times> 'e \<Rightarrow> 'e poly \<times> 'e" where
  "sqrt_pow_loop G K a r z 0 st = st"
| "sqrt_pow_loop G K a r z (Suc i) (s, e0) = (
     let s = poly_mul K s s s;
         (s, e0) = sqrt_reduce K a (s, e0);
         (s, e0) = (if mpz_tstbit G z i \<noteq> 0 then sqrt_reduce K a (poly_mul K s s r, e0) else (s, e0))
     in sqrt_pow_loop G K a r z i (s, e0))"

partial_function (option) polymod_sqrt_loop ::
  "gmp \<Rightarrow> 'e field_s \<Rightarrow> entropy \<Rightarrow> nat \<Rightarrow> 'e \<Rightarrow> 'e \<Rightarrow> int \<Rightarrow> 'e poly \<Rightarrow> 'e poly \<Rightarrow> 'e \<Rightarrow> ('e \<times> nat) option" where
  "polymod_sqrt_loop G K R c res a z r s e0 = (
     let r = poly_alloc K r 2;
         r = r[1 := element_set1 K (poly_coeff r 1)];
         (x, c) = element_random K R c (poly_coeff r 0);
         r = r[0 := x];
         e0 = element_mul K e0 x x
     in if element_cmp K e0 a = 0 then Some (element_set K res x, c)
        else
          let s = poly_set1 K s;
              (s, e0) = sqrt_pow_loop G K a r z (mpz_sizeinbase G z 2) (s, e0)
          in if poly_degree s < 1 then polymod_sqrt_loop G K R c res a z r s e0
             else
               let e0 = element_set1 K e0;
                   e1 = poly_coeff s 0;
                   e2 = poly_coeff s 1;
                   e1 = element_add K e1 e1 e0;
                   e0 = element_invert K e0 e2;
                   e0 = element_mul K e0 e0 e1;
                   e2 = element_mul K e2 e0 e0
               in if element_cmp K e2 a = 0 then Some (element_set K res e0, c)
                  else polymod_sqrt_loop G K R c res a z r (s[0 := e1, 1 := e2]) e0)"

definition polymod_sqrt ::
  "gmp \<Rightarrow> 'e field_s \<Rightarrow> entropy \<Rightarrow> nat \<Rightarrow> 'e \<Rightarrow> 'e \<Rightarrow> ('e \<times> nat) option" where
  "polymod_sqrt G K R c res a = (
     let z = mpz_sub G (f_order K) 1;
         z = mpz_divexact G z 2
     in polymod_sqrt_loop G K R c res a z poly_init poly_init (element_init K))"

text \<open>
  \<open>field_init_polymod\<close>. The square root draws random elements; in the table it draws from
  the source \<open>R\<close>.
\<close>

definition field_init_polymod :: "gmp \<Rightarrow> entropy \<Rightarrow> 'a field_s \<Rightarrow> 'a poly \<Rightarrow> 'a list field_s" where
  "field_init_polymod G R B poly = (polymod_base G B poly)\<lparr>
     f_is_sqr := polymod_is_sqr G (polymod_base G B poly),
     f_sqrt := (\<lambda>nqr res a. case polymod_sqrt G (polymod_base G B poly) R 0 res a of
        Some (x, c) \<Rightarrow> x | None \<Rightarrow> undefined) \<rparr>"

end
