(* ===== verification/PolymodCorrect.thy ===== *)
theory PolymodCorrect
  imports Polymod PolyInvert
begin

text \<open>
  The extension \<open>R[x]\<close> modulo a polynomial with root \<open>\<theta>\<close>: an array of \<open>n\<close> coefficients
  stands for the value of its polynomial at \<open>\<theta>\<close>. The contract of the precomputed data is
  the locale \<open>polymod_ring\<close>: entry \<open>i\<close> of the table \<open>xpwr\<close> has the value \<open>\<theta>^(n + i)\<close>.
\<close>

section \<open>Folds that accumulate\<close>

text \<open>
  A loop whose steps keep the invariant \<open>I\<close> and add \<open>g j\<close> to the value \<open>v\<close> of the state
  adds the sum over its indices.
\<close>

lemma fold_adds:
  fixes v :: "'s \<Rightarrow> 'k::comm_monoid_add"
  assumes "\<And>s j. j \<in> set js \<Longrightarrow> I s \<Longrightarrow> I (f j s) \<and> v (f j s) = v s + g j" "I s"
  shows "I (fold f js s) \<and> v (fold f js s) = v s + sum_list (map g js)"
  using assms by (induction js arbitrary: s) (auto simp: add.assoc)

lemma fold_adds_upt:
  fixes v :: "'s \<Rightarrow> 'k::comm_monoid_add"
  assumes "\<And>s j. m \<le> j \<Longrightarrow> j < n \<Longrightarrow> I s \<Longrightarrow> I (f j s) \<and> v (f j s) = v s + g j" "I s"
  shows "I (fold f [m..<n] s)" and "v (fold f [m..<n] s) = v s + sum g {m..<n}"
  using fold_adds [of "[m..<n]" I f v g s] assms
  by (auto simp: interv_sum_list_conv_sum_set_nat)

text \<open>The square of a sum: the squares, and twice the products above the diagonal.\<close>

lemma square_sum:
  fixes x :: "nat \<Rightarrow> 'k::comm_ring_1"
  shows "(\<Sum>i<n. x i * x i + (\<Sum>j=i + 1..<n. x i * x j + x i * x j)) = (\<Sum>i<n. x i) * (\<Sum>i<n. x i)"
proof (induction n)
  case (Suc n)
  have "(\<Sum>i<n. x i * x i + (\<Sum>j=i + 1..<Suc n. x i * x j + x i * x j)) =
      (\<Sum>i<n. x i * x i + (\<Sum>j=i + 1..<n. x i * x j + x i * x j)) + (\<Sum>i<n. x i * x n + x i * x n)"
    unfolding sum.distrib [symmetric] by (rule sum.cong) (simp_all add: algebra_simps)
  also have "(\<Sum>i<n. x i * x n + x i * x n) = (\<Sum>i<n. x i) * x n + (\<Sum>i<n. x i) * x n"
    by (simp only: sum.distrib sum_distrib_right)
  finally show ?case using Suc.IH by (simp add: algebra_simps)
qed simp

section \<open>Values\<close>

text \<open>
  What concerns the coefficients alone: the arrays of length \<open>n\<close> and their values. The
  contract with the table follows below.
\<close>

locale polymod_linear = ring_impl B V \<alpha>
  for B :: "'a field_s" and V :: "'a set" and \<alpha> :: "'a \<Rightarrow> 'k::comm_ring_1" +
  fixes n :: nat and \<theta> :: 'k
  assumes degree_pos: "0 < n"
begin

definition W :: "'a list set" where
  "W = {e \<in> lists V. length e = n}"

definition val :: "'a list \<Rightarrow> 'k" where
  "val e = (\<Sum>i<n. \<alpha> (e ! i) * \<theta> ^ i)"

lemma val_eval: "length e = n \<Longrightarrow> val e = poly_eval \<alpha> \<theta> e"
  by (simp add: val_def poly_eval_def)

lemma W_nth [intro, simp]: "e \<in> W \<Longrightarrow> i < n \<Longrightarrow> e ! i \<in> V"
  by (auto simp: W_def)

lemma W_lists: "e \<in> W \<Longrightarrow> e \<in> lists V"
  by (simp add: W_def)

lemma W_length: "e \<in> W \<Longrightarrow> length e = n"
  by (simp add: W_def)

lemma map_W: "(\<And>i. i < n \<Longrightarrow> g i \<in> V) \<Longrightarrow> map g [0..<n] \<in> W"
  by (auto simp: W_def)

lemma val_map: "val (map g [0..<n]) = (\<Sum>i<n. \<alpha> (g i) * \<theta> ^ i)"
  by (simp add: val_def)

lemma W_update: "e \<in> W \<Longrightarrow> x \<in> V \<Longrightarrow> e[i := x] \<in> W"
  using lists_update [of e V x i] by (simp add: W_def)

lemma val_add_coeff:
  assumes "e \<in> W" "i < n" "x \<in> V"
  shows "e[i := element_add B (e ! i) (e ! i) x] \<in> W"
    and "val (e[i := element_add B (e ! i) (e ! i) x]) = val e + \<alpha> x * \<theta> ^ i"
proof -
  show "e[i := element_add B (e ! i) (e ! i) x] \<in> W" using assms by (simp add: W_update)
  have len: "i < length e" using assms by (simp add: W_length)
  have "val (e[i := element_add B (e ! i) (e ! i) x]) =
      (\<Sum>j<n. \<alpha> (e ! j) * \<theta> ^ j + (if j = i then \<alpha> x * \<theta> ^ i else 0))"
    unfolding val_def
    by (rule sum.cong) (use assms len in \<open>auto simp: nth_list_update impl_law algebra_simps\<close>)
  then show "val (e[i := element_add B (e ! i) (e ! i) x]) = val e + \<alpha> x * \<theta> ^ i"
    using assms(2) by (simp add: val_def sum.distrib)
qed

section \<open>Linear operations\<close>

lemma polymod_init_ok [simp]: "polymod_init B n \<in> W" "val (polymod_init B n) = 0"
  by (auto simp: polymod_init_def W_def val_def impl_law)

lemma polymod_set_ok [simp]:
  assumes "r \<in> W" "e \<in> W"
  shows "polymod_set B n r e \<in> W" and "val (polymod_set B n r e) = val e"
  unfolding polymod_set_def val_map val_def
  by (use assms in \<open>auto simp: impl_law intro!: map_W sum.cong\<close>)

lemma polymod_add_ok [simp]:
  assumes "r \<in> W" "e \<in> W" "f \<in> W"
  shows "polymod_add B n r e f \<in> W" and "val (polymod_add B n r e f) = val e + val f"
    and "polymod_sub B n r e f \<in> W" and "val (polymod_sub B n r e f) = val e - val f"
  unfolding polymod_add_def polymod_sub_def val_map val_def sum.distrib [symmetric] sum_subtractf [symmetric]
  by (use assms in \<open>auto simp: impl_law algebra_simps intro!: map_W sum.cong\<close>)

lemma polymod_neg_ok [simp]:
  assumes "r \<in> W" "e \<in> W"
  shows "polymod_neg B n r e \<in> W" and "val (polymod_neg B n r e) = - val e"
    and "polymod_double B n r e \<in> W" and "val (polymod_double B n r e) = val e + val e"
  unfolding polymod_neg_def polymod_double_def val_map val_def sum.distrib [symmetric] sum_negf [symmetric]
  by (use assms in \<open>auto simp: impl_law algebra_simps intro!: map_W sum.cong\<close>)

lemma polymod_const_mul_ok [simp]:
  assumes "r \<in> W" "a \<in> V" "e \<in> W"
  shows "polymod_const_mul B n r a e \<in> W" and "val (polymod_const_mul B n r a e) = \<alpha> a * val e"
  unfolding polymod_const_mul_def val_map val_def sum_distrib_left
  by (use assms in \<open>auto simp: impl_law algebra_simps intro!: map_W sum.cong\<close>)

lemma polymod_mul_mpz_ok [simp]:
  assumes "r \<in> W" "e \<in> W"
  shows "polymod_mul_mpz B n r e z \<in> W" and "val (polymod_mul_mpz B n r e z) = val e * of_int z"
    and "polymod_mul_si B n r e z \<in> W" and "val (polymod_mul_si B n r e z) = val e * of_int z"
  unfolding polymod_mul_mpz_def polymod_mul_si_def val_map val_def sum_distrib_right
  by (use assms in \<open>auto simp: impl_law algebra_simps intro!: map_W sum.cong\<close>)

lemma zero_tail_ok:
  assumes "c \<in> V" "e \<in> W"
  shows "zero_tail B n c e \<in> W" and "val (zero_tail B n c e) = \<alpha> c"
proof -
  show "zero_tail B n c e \<in> W" unfolding zero_tail_def by (rule map_W) (use assms in auto)
  have "val (zero_tail B n c e) = (\<Sum>i<n. if i = 0 then \<alpha> c else 0)"
    unfolding zero_tail_def val_map by (rule sum.cong) (use assms in \<open>auto simp: impl_law\<close>)
  then show "val (zero_tail B n c e) = \<alpha> c" using degree_pos by simp
qed

lemma polymod_constants_ok [simp]:
  assumes "e \<in> W"
  shows "polymod_set0 B n e \<in> W" "val (polymod_set0 B n e) = 0"
    "polymod_set1 B n e \<in> W" "val (polymod_set1 B n e) = 1"
    "polymod_set_si B n e z \<in> W" "val (polymod_set_si B n e z) = of_int z"
    "polymod_set_mpz B n e z \<in> W" "val (polymod_set_mpz B n e z) = of_int z"
  using assms degree_pos zero_tail_ok [of "element_set1 B (e ! 0)" e]
    zero_tail_ok [of "element_set_si B (e ! 0) z" e] zero_tail_ok [of "element_set_mpz B (e ! 0) z" e]
  by (auto simp: polymod_set0_def polymod_set1_def polymod_set_si_def polymod_set_mpz_def val_map
      impl_law map_W)

end

section \<open>The contract of the table\<close>

locale polymod_ring = polymod_linear B V \<alpha> "pm_n P" \<theta>
  for B :: "'a field_s" and V :: "'a set" and \<alpha> :: "'a \<Rightarrow> 'k::comm_ring_1"
    and P :: "'a polymod_field_data" and \<theta> :: 'k +
  assumes xpwr_in: "i < pm_n P \<Longrightarrow> pm_xpwr P ! i \<in> lists V"
    and xpwr_length: "i < pm_n P \<Longrightarrow> length (pm_xpwr P ! i) = pm_n P"
    and xpwr_eval: "i < pm_n P \<Longrightarrow> poly_eval \<alpha> \<theta> (pm_xpwr P ! i) = \<theta> ^ (pm_n P + i)"
begin

abbreviation n :: nat where "n \<equiv> pm_n P"

lemma xpwr [simp]: "i < n \<Longrightarrow> pm_xpwr P ! i \<in> W" "i < n \<Longrightarrow> val (pm_xpwr P ! i) = \<theta> ^ (n + i)"
  using xpwr_in xpwr_length xpwr_eval by (simp_all add: W_def val_eval)

section \<open>The general product\<close>

text \<open>The loops keep a low half, a high half and a scratch element.\<close>

fun halves :: "'a list \<times> 'a list \<times> 'a \<Rightarrow> bool" where
  "halves (dst, hi, c0) \<longleftrightarrow> dst \<in> W \<and> hi \<in> lists V \<and> length hi = n - 1 \<and> c0 \<in> V"

fun total :: "'a list \<times> 'a list \<times> 'a \<Rightarrow> 'k" where
  "total (dst, hi, c0) = val dst + (\<Sum>h<n - 1. \<alpha> (hi ! h) * \<theta> ^ (n + h))"

lemma high_add:
  assumes "hi \<in> lists V" "length hi = n - 1" "h < n - 1" "x \<in> V"
  shows "hi[h := element_add B (hi ! h) (hi ! h) x] \<in> lists V"
    and "(\<Sum>i<n - 1. \<alpha> (hi[h := element_add B (hi ! h) (hi ! h) x] ! i) * \<theta> ^ (n + i)) =
      (\<Sum>i<n - 1. \<alpha> (hi ! i) * \<theta> ^ (n + i)) + \<alpha> x * \<theta> ^ (n + h)"
proof -
  show "hi[h := element_add B (hi ! h) (hi ! h) x] \<in> lists V"
    using assms by (intro lists_update) auto
  have "(\<Sum>i<n - 1. \<alpha> (hi[h := element_add B (hi ! h) (hi ! h) x] ! i) * \<theta> ^ (n + i)) =
      (\<Sum>i<n - 1. \<alpha> (hi ! i) * \<theta> ^ (n + i) + (if i = h then \<alpha> x * \<theta> ^ (n + h) else 0))"
    by (rule sum.cong) (use assms in \<open>auto simp: nth_list_update impl_law algebra_simps\<close>)
  then show "(\<Sum>i<n - 1. \<alpha> (hi[h := element_add B (hi ! h) (hi ! h) x] ! i) * \<theta> ^ (n + i)) =
      (\<Sum>i<n - 1. \<alpha> (hi ! i) * \<theta> ^ (n + i)) + \<alpha> x * \<theta> ^ (n + h)"
    using assms(3) by (simp add: sum.distrib)
qed

lemma mul_low_ok:
  assumes "e \<in> W" "f \<in> W" "i < n" "i + j < n" "halves s"
  shows "halves (mul_low B e f i j s)"
    and "total (mul_low B e f i j s) = total s + \<alpha> (e ! i) * \<theta> ^ i * (\<alpha> (f ! j) * \<theta> ^ j)"
  using assms val_add_coeff [of "fst s" "i + j" "element_mul B (snd (snd s)) (e ! i) (f ! j)"]
  by (cases s; simp add: mul_low_def Let_def impl_law power_add algebra_simps)+

lemma mul_high_ok:
  assumes "e \<in> W" "f \<in> W" "i < n" "n - i \<le> j" "j < n" "halves s"
  shows "halves (mul_high B n e f i j s)"
    and "total (mul_high B n e f i j s) = total s + \<alpha> (e ! i) * \<theta> ^ i * (\<alpha> (f ! j) * \<theta> ^ j)"
proof -
  obtain dst hi c0 where s: "s = (dst, hi, c0)" by (cases s)
  have h: "n + (j - (n - i)) = i + j" "j - (n - i) < n - 1" using assms by auto
  define x where "x = element_mul B c0 (e ! i) (f ! j)"
  have x: "x \<in> V" "\<alpha> x = \<alpha> (e ! i) * \<alpha> (f ! j)" using assms s by (simp_all add: x_def impl_law)
  have st: "mul_high B n e f i j s = (dst, hi[j - (n - i) := element_add B (hi ! (j - (n - i))) (hi ! (j - (n - i))) x], x)"
    by (simp add: mul_high_def s x_def Let_def)
  have hv: "hi \<in> lists V" "length hi = n - 1" using assms(6) s by simp_all
  note hifacts = high_add [OF hv h(2) x(1)]
  show "halves (mul_high B n e f i j s)" unfolding st using assms(6) s hifacts(1) x by simp
  show "total (mul_high B n e f i j s) = total s + \<alpha> (e ! i) * \<theta> ^ i * (\<alpha> (f ! j) * \<theta> ^ j)"
    unfolding s st [unfolded s] total.simps hifacts(2) h(1) x(2) by (simp add: power_add algebra_simps)
qed

lemma add_xpwr_ok:
  assumes "r \<in> W" "p0 \<in> W" "c \<in> V" "i < n"
  shows "fst (add_xpwr B P (r, p0) c i) \<in> W" and "snd (add_xpwr B P (r, p0) c i) \<in> W"
    and "val (fst (add_xpwr B P (r, p0) c i)) = val r + \<alpha> c * \<theta> ^ (n + i)"
  using assms by (simp_all add: add_xpwr_def Let_def)

lemma reduce_high_ok:
  assumes "halves (pr, hi, c0)"
  shows "reduce_high B P pr hi \<in> W" and "val (reduce_high B P pr hi) = total (pr, hi, c0)"
proof -
  let ?I = "\<lambda>s. fst s \<in> W \<and> snd s \<in> W"
  have step: "?I (add_xpwr B P s (hi ! i) i) \<and>
      val (fst (add_xpwr B P s (hi ! i) i)) = val (fst s) + \<alpha> (hi ! i) * \<theta> ^ (n + i)"
    if "i < n - 1" "?I s" for s i
  proof -
    have "hi ! i \<in> V" using assms that by auto
    then show ?thesis using add_xpwr_ok [of "fst s" "snd s" "hi ! i" i] that by simp
  qed
  have "?I (pr, polymod_init B n)" using assms by simp
  note * = fold_adds_upt [where I = ?I and v = "\<lambda>s. val (fst s)" and g = "\<lambda>i. \<alpha> (hi ! i) * \<theta> ^ (n + i)" and m = 0
      and n = "n - 1" and f = "\<lambda>i s. add_xpwr B P s (hi ! i) i", OF step this]
  show "reduce_high B P pr hi \<in> W" using *(1) by (simp add: reduce_high_def)
  show "val (reduce_high B P pr hi) = total (pr, hi, c0)"
    using *(2) by (simp add: reduce_high_def lessThan_atLeast0)
qed

lemma halves_start:
  "halves (polymod_init B n, replicate (n - 1) (element_set0 B (element_init B)), element_init B)"
  "total (polymod_init B n, replicate (n - 1) (element_set0 B (element_init B)), element_init B) = 0"
  by (auto simp: impl_law intro!: sum.neutral)

lemma finish_ok:
  assumes "r \<in> W" "halves s" "s = (pr, hi, c0)"
  shows "polymod_set B n r (reduce_high B P pr hi) \<in> W"
    and "val (polymod_set B n r (reduce_high B P pr hi)) = total s"
  using assms reduce_high_ok [of pr hi c0] by simp_all

lemma polymod_mul_ok:
  assumes "r \<in> W" "e \<in> W" "f \<in> W"
  shows "polymod_mul B P r e f \<in> W" and "val (polymod_mul B P r e f) = val e * val f"
proof -
  define g where "g i j = \<alpha> (e ! i) * \<theta> ^ i * (\<alpha> (f ! j) * \<theta> ^ j)" for i j
  define row where "row i s = fold (mul_high B n e f i) [n - i..<n] (fold (mul_low B e f i) [0..<n - i] s)" for i s
  have row: "halves (row i s) \<and> total (row i s) = total s + (\<Sum>j<n. g i j)" if "i < n" "halves s" for i s
  proof -
    define s1 where "s1 = fold (mul_low B e f i) [0..<n - i] s"
    have low: "halves (mul_low B e f i j u) \<and> total (mul_low B e f i j u) = total u + g i j"
      if "j < n - i" "halves u" for j u
      using mul_low_ok [OF assms(2,3) \<open>i < n\<close> _ that(2), of j] that(1) by (simp add: g_def)
    have high: "halves (mul_high B n e f i j u) \<and> total (mul_high B n e f i j u) = total u + g i j"
      if "n - i \<le> j" "j < n" "halves u" for j u
      using mul_high_ok [OF assms(2,3) \<open>i < n\<close> that] by (simp add: g_def)
    have s1: "halves s1" "total s1 = total s + (\<Sum>j=0..<n - i. g i j)"
      unfolding s1_def
      using fold_adds_upt [where I = halves and v = total and g = "g i" and m = 0 and n = "n - i"
          and f = "mul_low B e f i", OF low \<open>halves s\<close>] by blast+
    have "halves (row i s)" "total (row i s) = total s1 + (\<Sum>j=n - i..<n. g i j)"
      unfolding row_def s1_def [symmetric]
      using fold_adds_upt [where I = halves and v = total and g = "g i" and m = "n - i" and n = n
          and f = "mul_high B n e f i", OF high s1(1)] by blast+
    moreover have "(\<Sum>j=0..<n - i. g i j) + (\<Sum>j=n - i..<n. g i j) = (\<Sum>j<n. g i j)"
      unfolding lessThan_atLeast0 by (rule sum.atLeastLessThan_concat) simp_all
    ultimately show ?thesis by (simp add: s1(2) add.assoc)
  qed
  let ?s0 = "(polymod_init B n, replicate (n - 1) (element_set0 B (element_init B)), element_init B)"
  note all = fold_adds_upt [where I = halves and v = total and g = "\<lambda>i. \<Sum>j<n. g i j" and m = 0 and n = n
      and f = row, OF row halves_start(1)]
  obtain pr hi c0 where s: "fold row [0..<n] ?s0 = (pr, hi, c0)" by (metis prod_cases3)
  have eq: "polymod_mul B P r e f = polymod_set B n r (reduce_high B P pr hi)"
    using s unfolding polymod_mul_def Let_def row_def by simp
  note fin = finish_ok [OF assms(1) all(1) s, folded eq]
  have "(\<Sum>i=0..<n. \<Sum>j<n. g i j) = val e * val f"
    unfolding val_def g_def lessThan_atLeast0 by (simp only: sum_product)
  with fin all(2) halves_start(2) show "polymod_mul B P r e f \<in> W"
    "val (polymod_mul B P r e f) = val e * val f" by simp_all
qed

lemma square_diag_ok:
  assumes "e \<in> W" "i < n" "halves s"
  shows "halves (square_diag B n e i s)"
    and "total (square_diag B n e i s) = total s + \<alpha> (e ! i) * \<theta> ^ i * (\<alpha> (e ! i) * \<theta> ^ i)"
proof -
  obtain dst hi c0 where s: "s = (dst, hi, c0)" by (cases s)
  define x where "x = element_square B c0 (e ! i)"
  have x: "x \<in> V" "\<alpha> x = \<alpha> (e ! i) * \<alpha> (e ! i)" using assms s by (simp_all add: x_def impl_law)
  have hv: "dst \<in> W" "hi \<in> lists V" "length hi = n - 1" using assms(3) s by simp_all
  have "halves (square_diag B n e i s) \<and> total (square_diag B n e i s) =
      total s + \<alpha> (e ! i) * \<theta> ^ i * (\<alpha> (e ! i) * \<theta> ^ i)"
  proof (cases "2 * i < n")
    case True
    then have st: "square_diag B n e i s = (dst[2 * i := element_add B (dst ! (2 * i)) (dst ! (2 * i)) x], hi, x)"
      by (simp add: square_diag_def s x_def Let_def)
    note lo = val_add_coeff [OF hv(1) True x(1)]
    have "\<theta> ^ (2 * i) = \<theta> ^ i * \<theta> ^ i" by (simp only: mult_2 power_add)
    then show ?thesis unfolding s st [unfolded s] using lo x hv by (simp add: algebra_simps)
  next
    case False
    define h where "h = 2 * i - n"
    have h: "h < n - 1" "n + h = i + i" using False assms(2) by (auto simp: h_def)
    have st: "square_diag B n e i s = (dst, hi[h := element_add B (hi ! h) (hi ! h) x], x)"
      using False by (simp add: square_diag_def s x_def Let_def h_def)
    note hifacts = high_add [OF hv(2,3) h(1) x(1)]
    have "halves (square_diag B n e i s)" unfolding st using hifacts(1) x hv by simp
    moreover have "total (square_diag B n e i s) = total s + \<alpha> x * \<theta> ^ (i + i)"
      unfolding s st [unfolded s] total.simps hifacts(2) h(2) by (simp only: add.assoc)
    ultimately show ?thesis using x(2) by (simp add: power_add algebra_simps)
  qed
  then show "halves (square_diag B n e i s)"
    "total (square_diag B n e i s) = total s + \<alpha> (e ! i) * \<theta> ^ i * (\<alpha> (e ! i) * \<theta> ^ i)" by simp_all
qed

lemma square_low_ok:
  assumes "e \<in> W" "i < n" "i + j < n" "halves s"
  shows "halves (square_low B e i j s)"
    and "total (square_low B e i j s) = total s + (\<alpha> (e ! i) * \<theta> ^ i * (\<alpha> (e ! j) * \<theta> ^ j) +
      \<alpha> (e ! i) * \<theta> ^ i * (\<alpha> (e ! j) * \<theta> ^ j))"
proof -
  obtain dst hi c0 where s: "s = (dst, hi, c0)" by (cases s)
  define y where "y = element_mul B c0 (e ! i) (e ! j)"
  define x where "x = element_add B y y y"
  have y: "y \<in> V" "\<alpha> y = \<alpha> (e ! i) * \<alpha> (e ! j)" using assms s by (simp_all add: y_def impl_law)
  then have x: "x \<in> V" "\<alpha> x = \<alpha> (e ! i) * \<alpha> (e ! j) + \<alpha> (e ! i) * \<alpha> (e ! j)"
    unfolding x_def by (simp_all only: add_in add y)
  have hv: "dst \<in> W" using assms(4) s by simp
  have st: "square_low B e i j s = (dst[i + j := element_add B (dst ! (i + j)) (dst ! (i + j)) x], hi, x)"
    by (simp add: square_low_def s x_def y_def Let_def)
  note lo = val_add_coeff [OF hv assms(3) x(1)]
  show "halves (square_low B e i j s)" unfolding st using assms(4) s lo(1) x by simp
  show "total (square_low B e i j s) = total s + (\<alpha> (e ! i) * \<theta> ^ i * (\<alpha> (e ! j) * \<theta> ^ j) +
      \<alpha> (e ! i) * \<theta> ^ i * (\<alpha> (e ! j) * \<theta> ^ j))"
    unfolding s st [unfolded s] total.simps lo(2) x(2) by (simp add: power_add algebra_simps)
qed

lemma square_high_ok:
  assumes "e \<in> W" "i < n" "n - i \<le> j" "j < n" "halves s"
  shows "halves (square_high B n e i j s)"
    and "total (square_high B n e i j s) = total s + (\<alpha> (e ! i) * \<theta> ^ i * (\<alpha> (e ! j) * \<theta> ^ j) +
      \<alpha> (e ! i) * \<theta> ^ i * (\<alpha> (e ! j) * \<theta> ^ j))"
proof -
  obtain dst hi c0 where s: "s = (dst, hi, c0)" by (cases s)
  define y where "y = element_mul B c0 (e ! i) (e ! j)"
  define x where "x = element_add B y y y"
  define h where "h = i + j - n"
  have y: "y \<in> V" "\<alpha> y = \<alpha> (e ! i) * \<alpha> (e ! j)" using assms s by (simp_all add: y_def impl_law)
  then have x: "x \<in> V" "\<alpha> x = \<alpha> (e ! i) * \<alpha> (e ! j) + \<alpha> (e ! i) * \<alpha> (e ! j)"
    unfolding x_def by (simp_all only: add_in add y)
  have h: "h < n - 1" "n + h = i + j" using assms by (auto simp: h_def)
  have hv: "hi \<in> lists V" "length hi = n - 1" using assms(5) s by simp_all
  have st: "square_high B n e i j s = (dst, hi[h := element_add B (hi ! h) (hi ! h) x], x)"
    by (simp add: square_high_def s x_def y_def Let_def h_def)
  note hifacts = high_add [OF hv h(1) x(1)]
  show "halves (square_high B n e i j s)" unfolding st using assms(5) s hifacts(1) x by simp
  show "total (square_high B n e i j s) = total s + (\<alpha> (e ! i) * \<theta> ^ i * (\<alpha> (e ! j) * \<theta> ^ j) +
      \<alpha> (e ! i) * \<theta> ^ i * (\<alpha> (e ! j) * \<theta> ^ j))"
    unfolding s st [unfolded s] total.simps hifacts(2) h(2) x(2) by (simp add: power_add algebra_simps)
qed

text \<open>The two inner loops together run over every index above the diagonal.\<close>

lemma above_diagonal:
  fixes g :: "nat \<Rightarrow> 'k"
  assumes "i < m"
  shows "(\<Sum>j=i + 1..<m - i. g j) + (\<Sum>j=max (i + 1) (m - i)..<m. g j) = (\<Sum>j=i + 1..<m. g j)"
proof (cases "i + 1 \<le> m - i")
  case True
  then show ?thesis by (simp add: max_def sum.atLeastLessThan_concat)
qed (use assms in \<open>simp add: max_def\<close>)

lemma polymod_square_ok:
  assumes "r \<in> W" "e \<in> W"
  shows "polymod_square B P r e \<in> W" and "val (polymod_square B P r e) = val e * val e"
proof -
  define x where "x i = \<alpha> (e ! i) * \<theta> ^ i" for i
  define g where "g i j = x i * x j + x i * x j" for i j
  define row where "row i s = fold (square_high B n e i) [max (i + 1) (n - i)..<n]
      (fold (square_low B e i) [i + 1..<n - i] (square_diag B n e i s))" for i s
  have row: "halves (row i s) \<and> total (row i s) = total s + (x i * x i + (\<Sum>j=i + 1..<n. g i j))"
    if "i < n" "halves s" for i s
  proof -
    define s1 where "s1 = fold (square_low B e i) [i + 1..<n - i] (square_diag B n e i s)"
    note diag = square_diag_ok [OF assms(2) that, folded x_def]
    have low: "halves (square_low B e i j u) \<and> total (square_low B e i j u) = total u + g i j"
      if "j < n - i" "halves u" for j u
      using square_low_ok [OF assms(2) \<open>i < n\<close> _ that(2), of j] that(1) by (simp add: g_def x_def)
    have high: "halves (square_high B n e i j u) \<and> total (square_high B n e i j u) = total u + g i j"
      if "max (i + 1) (n - i) \<le> j" "j < n" "halves u" for j u
      using square_high_ok [OF assms(2) \<open>i < n\<close> _ that(2,3)] that(1) by (simp add: g_def x_def)
    have s1: "halves s1" "total s1 = total (square_diag B n e i s) + (\<Sum>j=i + 1..<n - i. g i j)"
      unfolding s1_def
      using fold_adds_upt [where I = halves and v = total and g = "g i" and m = "i + 1" and n = "n - i"
          and f = "square_low B e i", OF low diag(1)] by blast+
    have "halves (row i s)" "total (row i s) = total s1 + (\<Sum>j=max (i + 1) (n - i)..<n. g i j)"
      unfolding row_def s1_def [symmetric]
      using fold_adds_upt [where I = halves and v = total and g = "g i" and m = "max (i + 1) (n - i)" and n = n
          and f = "square_high B n e i", OF high s1(1)] by blast+
    then show ?thesis
      using above_diagonal [OF that(1), of "g i"] by (simp only: s1(2) diag(2) add.assoc simp_thms)
  qed
  let ?s0 = "(polymod_init B n, replicate (n - 1) (element_set0 B (element_init B)), element_init B)"
  note all = fold_adds_upt [where I = halves and v = total and g = "\<lambda>i. x i * x i + (\<Sum>j=i + 1..<n. g i j)"
      and m = 0 and n = n and f = row, OF row halves_start(1)]
  obtain pr hi c0 where s: "fold row [0..<n] ?s0 = (pr, hi, c0)" by (metis prod_cases3)
  have eq: "polymod_square B P r e = polymod_set B n r (reduce_high B P pr hi)"
    using s unfolding polymod_square_def Let_def row_def by simp
  note fin = finish_ok [OF assms(1) all(1) s, folded eq]
  have "(\<Sum>i=0..<n. x i * x i + (\<Sum>j=i + 1..<n. g i j)) = val e * val e"
    unfolding g_def lessThan_atLeast0 [symmetric] square_sum by (simp add: val_def x_def)
  with fin all(2) halves_start(2) show "polymod_square B P r e \<in> W"
    "val (polymod_square B P r e) = val e * val e" by simp_all
qed

end

end
