(* ===== verification/PolymodKaratsuba.thy ===== *)
theory PolymodKaratsuba
  imports PolymodCorrect
begin

text \<open>
  The special cases of the multiplication in \<open>R[x]\<close> modulo a polynomial: Karatsuba products
  for degree 3 and degree 6, and the table of reductions that every product uses.
\<close>

context ring_impl
begin

text \<open>
  The Karatsuba product of two arrays of three coefficients computes the five coefficients of
  the product.
\<close>

lemma kar_poly_2_ok:
  assumes V: "{dst ! 0, dst ! 1, dst ! 2, c3, c4, s1 ! 0, s1 ! 1, s1 ! 2, s2 ! 0, s2 ! 1, s2 ! 2,
      scratch ! 0, scratch ! 1, scratch ! 2} \<subseteq> V"
  obtains d0 d1 d2 c3' c4' t0 t1 t2 where
    "kar_poly_2 F dst c3 c4 s1 s2 scratch =
      (dst[0 := d0, 1 := d1, 2 := d2], c3', c4', scratch[0 := t0, 1 := t1, 2 := t2])"
    "{d0, d1, d2, c3', c4', t0, t1, t2} \<subseteq> V"
    "\<alpha> d0 = \<alpha> (s1 ! 0) * \<alpha> (s2 ! 0)"
    "\<alpha> d1 = \<alpha> (s1 ! 0) * \<alpha> (s2 ! 1) + \<alpha> (s1 ! 1) * \<alpha> (s2 ! 0)"
    "\<alpha> d2 = \<alpha> (s1 ! 0) * \<alpha> (s2 ! 2) + \<alpha> (s1 ! 1) * \<alpha> (s2 ! 1) + \<alpha> (s1 ! 2) * \<alpha> (s2 ! 0)"
    "\<alpha> c3' = \<alpha> (s1 ! 1) * \<alpha> (s2 ! 2) + \<alpha> (s1 ! 2) * \<alpha> (s2 ! 1)"
    "\<alpha> c4' = \<alpha> (s1 ! 2) * \<alpha> (s2 ! 2)"
proof -
  have v: "dst ! 0 \<in> V" "dst ! 1 \<in> V" "dst ! 2 \<in> V" "c3 \<in> V" "c4 \<in> V" "s1 ! 0 \<in> V" "s1 ! 1 \<in> V" "s1 ! 2 \<in> V"
    "s2 ! 0 \<in> V" "s2 ! 1 \<in> V" "s2 ! 2 \<in> V" "scratch ! 0 \<in> V" "scratch ! 1 \<in> V" "scratch ! 2 \<in> V"
    using V by simp_all
  show thesis
    by (rule that, unfold kar_poly_2_def Let_def, rule refl)
       (use v in \<open>simp_all add: impl_law algebra_simps del: One_nat_def\<close>)
qed

end

context polymod_ring
begin

lemma val_3: "n = 3 \<Longrightarrow> val e = \<alpha> (e ! 0) + \<alpha> (e ! 1) * \<theta> + \<alpha> (e ! 2) * \<theta> ^ 2"
  unfolding val_def by (simp add: numeral_3_eq_3 numeral_2_eq_2)

text \<open>The degree 3 product: two reductions after the Karatsuba product.\<close>

lemma polymod_mul_degree3_ok:
  assumes n: "n = 3" and "r \<in> W" "e \<in> W" "f \<in> W"
  shows "polymod_mul_degree3 B P r e f \<in> W" and "val (polymod_mul_degree3 B P r e f) = val e * val f"
proof -
  define p0 where "p0 = polymod_init B n"
  have idx: "0 < n" "1 < n" "2 < n" using n by simp_all
  have p0: "p0 \<in> W" by (simp add: p0_def)
  have V: "{r ! 0, r ! 1, r ! 2, element_init B, element_init B, e ! 0, e ! 1, e ! 2, f ! 0, f ! 1, f ! 2,
      p0 ! 0, p0 ! 1, p0 ! 2} \<subseteq> V"
    using assms p0 idx by (simp del: One_nat_def)
  obtain d0 d1 d2 c3 c4 t0 t1 t2 where
    kar: "kar_poly_2 B r (element_init B) (element_init B) e f p0 =
      (r[0 := d0, 1 := d1, 2 := d2], c3, c4, p0[0 := t0, 1 := t1, 2 := t2])"
    and inV: "{d0, d1, d2, c3, c4, t0, t1, t2} \<subseteq> V"
    and vals: "\<alpha> d0 = \<alpha> (e ! 0) * \<alpha> (f ! 0)" "\<alpha> d1 = \<alpha> (e ! 0) * \<alpha> (f ! 1) + \<alpha> (e ! 1) * \<alpha> (f ! 0)"
      "\<alpha> d2 = \<alpha> (e ! 0) * \<alpha> (f ! 2) + \<alpha> (e ! 1) * \<alpha> (f ! 1) + \<alpha> (e ! 2) * \<alpha> (f ! 0)"
      "\<alpha> c3 = \<alpha> (e ! 1) * \<alpha> (f ! 2) + \<alpha> (e ! 2) * \<alpha> (f ! 1)" "\<alpha> c4 = \<alpha> (e ! 2) * \<alpha> (f ! 2)"
    by (rule kar_poly_2_ok [OF V])
  define r1 where "r1 = r[0 := d0, 1 := d1, 2 := d2]"
  define p1 where "p1 = p0[0 := t0, 1 := t1, 2 := t2]"
  have W1: "r1 \<in> W" "p1 \<in> W" using assms(2) p0 inV by (simp_all add: r1_def p1_def W_update)
  have val1: "val r1 = \<alpha> d0 + \<alpha> d1 * \<theta> + \<alpha> d2 * \<theta> ^ 2"
    unfolding val_3 [OF n] r1_def using W_length [OF assms(2)] n by simp
  obtain r2 p2 where s2: "add_xpwr B P (r1, p1) c3 0 = (r2, p2)" by (cases "add_xpwr B P (r1, p1) c3 0")
  then have r2: "r2 \<in> W" "p2 \<in> W" "val r2 = val r1 + \<alpha> c3 * \<theta> ^ 3"
    using add_xpwr_ok [OF W1, of c3 0] inV n by simp_all
  obtain r3 p3 where s3: "add_xpwr B P (r2, p2) c4 1 = (r3, p3)" by (cases "add_xpwr B P (r2, p2) c4 1")
  then have r3: "r3 \<in> W" "val r3 = val r2 + \<alpha> c4 * \<theta> ^ 4"
    using add_xpwr_ok [OF r2(1,2), of c4 1] inV n by (simp_all del: One_nat_def)
  have "polymod_mul_degree3 B P r e f = r3"
    unfolding polymod_mul_degree3_def Let_def p0_def [symmetric] kar prod.case r1_def [symmetric]
      p1_def [symmetric] s2 s3 ..
  moreover have "val r3 = val e * val f"
    unfolding r3(2) r2(3) val1 vals val_3 [OF n, of e] val_3 [OF n, of f]
    by (simp add: power2_eq_square power3_eq_cube power4_eq_xxxx algebra_simps)
  ultimately show "polymod_mul_degree3 B P r e f \<in> W"
    "val (polymod_mul_degree3 B P r e f) = val e * val f" using r3(1) by simp_all
qed

lemma polymod_square_degree3_ok:
  assumes n: "n = 3" and "r \<in> W" "e \<in> W"
  shows "polymod_square_degree3 B P r e \<in> W" and "val (polymod_square_degree3 B P r e) = val e * val e"
proof -
  define p0 where "p0 = polymod_init B n"
  have idx: "0 < n" "1 < n" "2 < n" using n by simp_all
  have p0: "p0 \<in> W" by (simp add: p0_def)
  have v: "r ! 0 \<in> V" "r ! 1 \<in> V" "r ! 2 \<in> V" "e ! 0 \<in> V" "e ! 1 \<in> V" "e ! 2 \<in> V" "p0 ! 0 \<in> V" "p0 ! 1 \<in> V"
    using assms p0 idx by (simp_all del: One_nat_def)
  define c3 where "c3 = element_mul B (p0 ! 0) (e ! 0) (e ! 1)"
  define x1 where "x1 = element_mul B (p0 ! 1) (e ! 0) (e ! 2)"
  define d0 where "d0 = element_square B (r ! 0) (e ! 0)"
  define x2 where "x2 = element_mul B (element_init B) (e ! 1) (e ! 2)"
  define c0 where "c0 = element_square B (element_init B) (e ! 2)"
  define y2 where "y2 = element_square B (r ! 2) (e ! 1)"
  define d1 where "d1 = element_add B (r ! 1) c3 c3"
  define c1 where "c1 = element_add B x1 x1 x1"
  define d2 where "d2 = element_add B y2 y2 c1"
  define c2 where "c2 = element_add B x2 x2 x2"
  note defs = c3_def x1_def d0_def x2_def c0_def y2_def d1_def c1_def d2_def c2_def
  have eq: "polymod_square_degree3 B P r e = fst (add_xpwr B P
      (add_xpwr B P (r[0 := d0, 1 := d1, 2 := d2], p0[0 := c3, 1 := c1]) c0 1) c2 0)"
    unfolding polymod_square_degree3_def Let_def p0_def [symmetric] case_prod_unfold prod.collapse
    unfolding defs [symmetric] ..
  have inV: "{d0, d1, d2, c0, c1, c2, c3} \<subseteq> V" unfolding defs using v by (simp del: One_nat_def)
  have vals: "\<alpha> d0 = \<alpha> (e ! 0) * \<alpha> (e ! 0)" "\<alpha> d1 = \<alpha> (e ! 0) * \<alpha> (e ! 1) + \<alpha> (e ! 0) * \<alpha> (e ! 1)"
    "\<alpha> d2 = \<alpha> (e ! 1) * \<alpha> (e ! 1) + (\<alpha> (e ! 0) * \<alpha> (e ! 2) + \<alpha> (e ! 0) * \<alpha> (e ! 2))"
    "\<alpha> c0 = \<alpha> (e ! 2) * \<alpha> (e ! 2)" "\<alpha> c2 = \<alpha> (e ! 1) * \<alpha> (e ! 2) + \<alpha> (e ! 1) * \<alpha> (e ! 2)"
    unfolding defs using v by (simp_all add: impl_law del: One_nat_def)
  define r1 where "r1 = r[0 := d0, 1 := d1, 2 := d2]"
  define p1 where "p1 = p0[0 := c3, 1 := c1]"
  have W1: "r1 \<in> W" "p1 \<in> W" using assms(2) p0 inV by (simp_all add: r1_def p1_def W_update)
  have val1: "val r1 = \<alpha> d0 + \<alpha> d1 * \<theta> + \<alpha> d2 * \<theta> ^ 2"
    unfolding val_3 [OF n] r1_def using W_length [OF assms(2)] n by simp
  obtain r2 p2 where s2: "add_xpwr B P (r1, p1) c0 1 = (r2, p2)" by (cases "add_xpwr B P (r1, p1) c0 1")
  then have r2: "r2 \<in> W" "p2 \<in> W" "val r2 = val r1 + \<alpha> c0 * \<theta> ^ 4"
    using add_xpwr_ok [OF W1, of c0 1] inV n by (simp_all del: One_nat_def)
  have r3: "fst (add_xpwr B P (r2, p2) c2 0) \<in> W" "val (fst (add_xpwr B P (r2, p2) c2 0)) = val r2 + \<alpha> c2 * \<theta> ^ 3"
    using add_xpwr_ok [OF r2(1,2), of c2 0] inV n by simp_all
  have res: "polymod_square_degree3 B P r e = fst (add_xpwr B P (r2, p2) c2 0)"
    unfolding eq r1_def [symmetric] p1_def [symmetric] s2 ..
  show "polymod_square_degree3 B P r e \<in> W" unfolding res by (rule r3)
  show "val (polymod_square_degree3 B P r e) = val e * val e"
    unfolding res r3(2) r2(3) val1 vals val_3 [OF n, of e]
    by (simp add: power2_eq_square power3_eq_cube power4_eq_xxxx algebra_simps)
qed

text \<open>The degree 6 product: three products of halves, and five reductions.\<close>

lemma val_6: "n = 6 \<Longrightarrow> val e = \<alpha> (e ! 0) + \<alpha> (e ! 1) * \<theta> + \<alpha> (e ! 2) * \<theta> ^ 2 + \<alpha> (e ! 3) * \<theta> ^ 3 +
    \<alpha> (e ! 4) * \<theta> ^ 4 + \<alpha> (e ! 5) * \<theta> ^ 5"
  unfolding val_def by (simp add: eval_nat_numeral)

lemma W_6: "n = 6 \<Longrightarrow> {a, b, c, d, x, y} \<subseteq> V \<Longrightarrow> [a, b, c, d, x, y] \<in> W"
  unfolding W_def by simp

lemma kar_half:
  assumes n: "n = 6" and "dst \<in> W" "p \<in> W"
    and "{s1 ! 0, s1 ! 1, s1 ! 2, s2 ! 0, s2 ! 1, s2 ! 2} \<subseteq> V"
  obtains S c3 c4 p' where "kar_poly_2 B dst (dst ! 3) (dst ! 4) s1 s2 p = (S, c3, c4, p')"
    "S[3 := c3, 4 := c4] \<in> W" "p' \<in> W"
    "\<alpha> (S[3 := c3, 4 := c4] ! 0) = \<alpha> (s1 ! 0) * \<alpha> (s2 ! 0)"
    "\<alpha> (S[3 := c3, 4 := c4] ! 1) = \<alpha> (s1 ! 0) * \<alpha> (s2 ! 1) + \<alpha> (s1 ! 1) * \<alpha> (s2 ! 0)"
    "\<alpha> (S[3 := c3, 4 := c4] ! 2) =
       \<alpha> (s1 ! 0) * \<alpha> (s2 ! 2) + \<alpha> (s1 ! 1) * \<alpha> (s2 ! 1) + \<alpha> (s1 ! 2) * \<alpha> (s2 ! 0)"
    "\<alpha> (S[3 := c3, 4 := c4] ! 3) = \<alpha> (s1 ! 1) * \<alpha> (s2 ! 2) + \<alpha> (s1 ! 2) * \<alpha> (s2 ! 1)"
    "\<alpha> (S[3 := c3, 4 := c4] ! 4) = \<alpha> (s1 ! 2) * \<alpha> (s2 ! 2)"
proof -
  have len: "length dst = 6" using assms(1,2) by (simp add: W_length)
  have "{dst ! 0, dst ! 1, dst ! 2, dst ! 3, dst ! 4, s1 ! 0, s1 ! 1, s1 ! 2, s2 ! 0, s2 ! 1, s2 ! 2,
      p ! 0, p ! 1, p ! 2} \<subseteq> V"
    using assms by (simp del: One_nat_def)
  then obtain d0 d1 d2 c3 c4 t0 t1 t2 where
    kar: "kar_poly_2 B dst (dst ! 3) (dst ! 4) s1 s2 p =
      (dst[0 := d0, 1 := d1, 2 := d2], c3, c4, p[0 := t0, 1 := t1, 2 := t2])"
    and inV: "{d0, d1, d2, c3, c4, t0, t1, t2} \<subseteq> V"
    and vals: "\<alpha> d0 = \<alpha> (s1 ! 0) * \<alpha> (s2 ! 0)" "\<alpha> d1 = \<alpha> (s1 ! 0) * \<alpha> (s2 ! 1) + \<alpha> (s1 ! 1) * \<alpha> (s2 ! 0)"
      "\<alpha> d2 = \<alpha> (s1 ! 0) * \<alpha> (s2 ! 2) + \<alpha> (s1 ! 1) * \<alpha> (s2 ! 1) + \<alpha> (s1 ! 2) * \<alpha> (s2 ! 0)"
      "\<alpha> c3 = \<alpha> (s1 ! 1) * \<alpha> (s2 ! 2) + \<alpha> (s1 ! 2) * \<alpha> (s2 ! 1)" "\<alpha> c4 = \<alpha> (s1 ! 2) * \<alpha> (s2 ! 2)"
    by (rule kar_poly_2_ok)
  show thesis
  proof (rule that [OF kar])
    show "dst[0 := d0, 1 := d1, 2 := d2, 3 := c3, 4 := c4] \<in> W" "p[0 := t0, 1 := t1, 2 := t2] \<in> W"
      using assms(2,3) inV by (simp_all add: W_update)
  qed (simp_all add: len vals del: One_nat_def)
qed

lemma add_xpwr_step:
  assumes "r \<in> W" "p \<in> W" "c \<in> V" "i < n"
  obtains r' p' where "add_xpwr B P (r, p) c i = (r', p')" "r' \<in> W" "p' \<in> W"
    "val r' = val r + \<alpha> c * \<theta> ^ (n + i)"
  using add_xpwr_ok [OF assms] that by (metis prod.collapse)

text \<open>The value of the product of two arrays of three coefficients.\<close>

definition product_3 :: "'a list \<Rightarrow> 'k \<Rightarrow> 'k \<Rightarrow> 'k \<Rightarrow> 'k \<Rightarrow> 'k \<Rightarrow> 'k \<Rightarrow> bool" where
  "product_3 S a b c x y z \<longleftrightarrow> \<alpha> (S ! 0) = a * x \<and> \<alpha> (S ! 1) = a * y + b * x \<and>
     \<alpha> (S ! 2) = a * z + b * y + c * x \<and> \<alpha> (S ! 3) = b * z + c * y \<and> \<alpha> (S ! 4) = c * z"

lemma degree6_products_ok:
  assumes n: "n = 6" and e: "e \<in> W" and f: "f \<in> W"
  obtains s0 s1 s2 p where "degree6_products B n e f = (s0, s1, s2, p)" "{s0, s1, s2, p} \<subseteq> W"
    "product_3 s0 (\<alpha> (e ! 0)) (\<alpha> (e ! 1)) (\<alpha> (e ! 2)) (\<alpha> (f ! 0)) (\<alpha> (f ! 1)) (\<alpha> (f ! 2))"
    "product_3 s1 (\<alpha> (e ! 3)) (\<alpha> (e ! 4)) (\<alpha> (e ! 5)) (\<alpha> (f ! 3)) (\<alpha> (f ! 4)) (\<alpha> (f ! 5))"
    "product_3 s2 (\<alpha> (e ! 0) + \<alpha> (e ! 3)) (\<alpha> (e ! 1) + \<alpha> (e ! 4)) (\<alpha> (e ! 2) + \<alpha> (e ! 5))
       (\<alpha> (f ! 0) + \<alpha> (f ! 3)) (\<alpha> (f ! 1) + \<alpha> (f ! 4)) (\<alpha> (f ! 2) + \<alpha> (f ! 5))"
proof -
  define z where "z = polymod_init B n"
  have zW: "z \<in> W" by (simp add: z_def)
  have z: "length z = 6" using W_length [OF zW] n by simp
  have el: "length e = 6" "length f = 6" using W_length [OF e] W_length [OF f] n by simp_all
  have halves: "take 3 e ! 0 = e ! 0" "take 3 e ! 1 = e ! 1" "take 3 e ! 2 = e ! 2"
    "drop 3 e ! 0 = e ! 3" "drop 3 e ! 1 = e ! 4" "drop 3 e ! 2 = e ! 5"
    "take 3 f ! 0 = f ! 0" "take 3 f ! 1 = f ! 1" "take 3 f ! 2 = f ! 2"
    "drop 3 f ! 0 = f ! 3" "drop 3 f ! 1 = f ! 4" "drop 3 f ! 2 = f ! 5"
    by (simp_all add: el del: One_nat_def)
  have ev: "e ! i \<in> V" "f ! i \<in> V" "z ! i \<in> V" if "i < 6" for i
    using e f zW that n by simp_all
  define A where "A = z[0 := element_add B (z ! 0) (e ! 0) (e ! 3), 1 := element_add B (z ! 1) (e ! 1) (e ! 4),
    2 := element_add B (z ! 2) (e ! 2) (e ! 5)]"
  define C where "C = z[0 := element_add B (z ! 0) (f ! 0) (f ! 3), 1 := element_add B (z ! 1) (f ! 1) (f ! 4),
    2 := element_add B (z ! 2) (f ! 2) (f ! 5)]"
  have AC: "A \<in> W" "C \<in> W" using zW ev by (simp_all add: A_def C_def W_update)
  have Av: "\<alpha> (A ! 0) = \<alpha> (e ! 0) + \<alpha> (e ! 3)" "\<alpha> (A ! 1) = \<alpha> (e ! 1) + \<alpha> (e ! 4)"
    "\<alpha> (A ! 2) = \<alpha> (e ! 2) + \<alpha> (e ! 5)" "\<alpha> (C ! 0) = \<alpha> (f ! 0) + \<alpha> (f ! 3)"
    "\<alpha> (C ! 1) = \<alpha> (f ! 1) + \<alpha> (f ! 4)" "\<alpha> (C ! 2) = \<alpha> (f ! 2) + \<alpha> (f ! 5)"
    using ev by (simp_all add: A_def C_def z impl_law del: One_nat_def)
  have V: "{A ! 0, A ! 1, A ! 2, C ! 0, C ! 1, C ! 2} \<subseteq> V"
    "{take 3 e ! 0, take 3 e ! 1, take 3 e ! 2, take 3 f ! 0, take 3 f ! 1, take 3 f ! 2} \<subseteq> V"
    "{drop 3 e ! 0, drop 3 e ! 1, drop 3 e ! 2, drop 3 f ! 0, drop 3 f ! 1, drop 3 f ! 2} \<subseteq> V"
    using AC n ev unfolding halves by (simp_all del: One_nat_def)
  from kar_half [OF n zW zW V(1)] obtain S2 c3 c4 q1 where
    k1: "kar_poly_2 B z (z ! 3) (z ! 4) A C z = (S2, c3, c4, q1)" "S2[3 := c3, 4 := c4] \<in> W" "q1 \<in> W"
    "product_3 (S2[3 := c3, 4 := c4]) (\<alpha> (A ! 0)) (\<alpha> (A ! 1)) (\<alpha> (A ! 2)) (\<alpha> (C ! 0)) (\<alpha> (C ! 1)) (\<alpha> (C ! 2))"
    unfolding product_3_def by metis
  from kar_half [OF n AC(1) k1(3) V(2)] obtain S0 c5 c6 q2 where
    k2: "kar_poly_2 B A (A ! 3) (A ! 4) (take 3 e) (take 3 f) q1 = (S0, c5, c6, q2)"
    "S0[3 := c5, 4 := c6] \<in> W" "q2 \<in> W"
    "product_3 (S0[3 := c5, 4 := c6]) (\<alpha> (e ! 0)) (\<alpha> (e ! 1)) (\<alpha> (e ! 2)) (\<alpha> (f ! 0)) (\<alpha> (f ! 1)) (\<alpha> (f ! 2))"
    unfolding product_3_def halves by metis
  from kar_half [OF n AC(2) k2(3) V(3)] obtain S1 c7 c8 q3 where
    k3: "kar_poly_2 B C (C ! 3) (C ! 4) (drop 3 e) (drop 3 f) q2 = (S1, c7, c8, q3)"
    "S1[3 := c7, 4 := c8] \<in> W" "q3 \<in> W"
    "product_3 (S1[3 := c7, 4 := c8]) (\<alpha> (e ! 3)) (\<alpha> (e ! 4)) (\<alpha> (e ! 5)) (\<alpha> (f ! 3)) (\<alpha> (f ! 4)) (\<alpha> (f ! 5))"
    unfolding product_3_def halves by metis
  show thesis
  proof (rule that)
    show "degree6_products B n e f = (S0[3 := c5, 4 := c6], S1[3 := c7, 4 := c8], S2[3 := c3, 4 := c4], q3)"
      unfolding degree6_products_def Let_def z_def [symmetric] halves A_def [symmetric] C_def [symmetric]
        k1(1) prod.case k2(1) k3(1) ..
  qed (use k1(2-4) k2(2-4) k3(2-4) in \<open>simp_all only: insert_subset empty_subsetI simp_thms Av\<close>)
qed

lemma degree6_combine_ok:
  assumes n: "n = 6" and W: "res \<in> W" "s0 \<in> W" "s1 \<in> W" "s2 \<in> W"
  obtains r' x0 x1 where "degree6_combine B res s0 s1 s2 = (r', x0, x1)" "r' \<in> W" "x0 \<in> V" "x1 \<in> V"
    "val r' = \<alpha> (s0 ! 0) + \<alpha> (s0 ! 1) * \<theta> + \<alpha> (s0 ! 2) * \<theta> ^ 2 +
       (\<alpha> (s0 ! 3) - \<alpha> (s0 ! 0) - \<alpha> (s1 ! 0) + \<alpha> (s2 ! 0)) * \<theta> ^ 3 +
       (\<alpha> (s0 ! 4) - \<alpha> (s0 ! 1) - \<alpha> (s1 ! 1) + \<alpha> (s2 ! 1)) * \<theta> ^ 4 +
       (\<alpha> (s2 ! 2) - \<alpha> (s0 ! 2) - \<alpha> (s1 ! 2)) * \<theta> ^ 5"
    "\<alpha> x0 = \<alpha> (s2 ! 3) - \<alpha> (s0 ! 3) - \<alpha> (s1 ! 3) + \<alpha> (s1 ! 0)"
    "\<alpha> x1 = \<alpha> (s2 ! 4) - \<alpha> (s0 ! 4) - \<alpha> (s1 ! 4) + \<alpha> (s1 ! 1)"
proof -
  have v: "res ! i \<in> V" "s0 ! i \<in> V" "s1 ! i \<in> V" "s2 ! i \<in> V" if "i < 6" for i
    using W that n by simp_all
  show thesis
    by (rule that, unfold degree6_combine_def Let_def, rule refl)
       (use v in \<open>simp_all add: W_6 [OF n] val_6 [OF n] impl_law del: One_nat_def\<close>)
qed

lemma polymod_mul_degree6_ok:
  assumes n: "n = 6" and r: "r \<in> W" and e: "e \<in> W" and f: "f \<in> W"
  shows "polymod_mul_degree6 B P r e f \<in> W" and "val (polymod_mul_degree6 B P r e f) = val e * val f"
proof -
  obtain s0 s1 s2 p where s: "degree6_products B n e f = (s0, s1, s2, p)" "{s0, s1, s2, p} \<subseteq> W"
    and sv: "product_3 s0 (\<alpha> (e ! 0)) (\<alpha> (e ! 1)) (\<alpha> (e ! 2)) (\<alpha> (f ! 0)) (\<alpha> (f ! 1)) (\<alpha> (f ! 2))"
    "product_3 s1 (\<alpha> (e ! 3)) (\<alpha> (e ! 4)) (\<alpha> (e ! 5)) (\<alpha> (f ! 3)) (\<alpha> (f ! 4)) (\<alpha> (f ! 5))"
    "product_3 s2 (\<alpha> (e ! 0) + \<alpha> (e ! 3)) (\<alpha> (e ! 1) + \<alpha> (e ! 4)) (\<alpha> (e ! 2) + \<alpha> (e ! 5))
       (\<alpha> (f ! 0) + \<alpha> (f ! 3)) (\<alpha> (f ! 1) + \<alpha> (f ! 4)) (\<alpha> (f ! 2) + \<alpha> (f ! 5))"
    by (rule degree6_products_ok [OF n e f])
  then have W: "s0 \<in> W" "s1 \<in> W" "s2 \<in> W" "p \<in> W" by simp_all
  obtain r1 x0 x1 where c: "degree6_combine B r s0 s1 s2 = (r1, x0, x1)" "r1 \<in> W" "x0 \<in> V" "x1 \<in> V"
    and cv: "val r1 = \<alpha> (s0 ! 0) + \<alpha> (s0 ! 1) * \<theta> + \<alpha> (s0 ! 2) * \<theta> ^ 2 +
       (\<alpha> (s0 ! 3) - \<alpha> (s0 ! 0) - \<alpha> (s1 ! 0) + \<alpha> (s2 ! 0)) * \<theta> ^ 3 +
       (\<alpha> (s0 ! 4) - \<alpha> (s0 ! 1) - \<alpha> (s1 ! 1) + \<alpha> (s2 ! 1)) * \<theta> ^ 4 +
       (\<alpha> (s2 ! 2) - \<alpha> (s0 ! 2) - \<alpha> (s1 ! 2)) * \<theta> ^ 5"
    "\<alpha> x0 = \<alpha> (s2 ! 3) - \<alpha> (s0 ! 3) - \<alpha> (s1 ! 3) + \<alpha> (s1 ! 0)"
    "\<alpha> x1 = \<alpha> (s2 ! 4) - \<alpha> (s0 ! 4) - \<alpha> (s1 ! 4) + \<alpha> (s1 ! 1)"
    by (rule degree6_combine_ok [OF n r W(1-3)])
  have i: "0 < n" "1 < n" "2 < n" "3 < n" "4 < n" using n by simp_all
  have sV: "s1 ! 2 \<in> V" "s1 ! 3 \<in> V" "s1 ! 4 \<in> V" using W(2) i by simp_all
  obtain r2 p2 where a2: "add_xpwr B P (r1, p) x0 0 = (r2, p2)" "r2 \<in> W" "p2 \<in> W"
    "val r2 = val r1 + \<alpha> x0 * \<theta> ^ (n + 0)" by (rule add_xpwr_step [OF c(2) W(4) c(3) i(1)])
  obtain r3 p3 where a3: "add_xpwr B P (r2, p2) x1 1 = (r3, p3)" "r3 \<in> W" "p3 \<in> W"
    "val r3 = val r2 + \<alpha> x1 * \<theta> ^ (n + 1)" by (rule add_xpwr_step [OF a2(2,3) c(4) i(2)])
  obtain r4 p4 where a4: "add_xpwr B P (r3, p3) (s1 ! 2) 2 = (r4, p4)" "r4 \<in> W" "p4 \<in> W"
    "val r4 = val r3 + \<alpha> (s1 ! 2) * \<theta> ^ (n + 2)" by (rule add_xpwr_step [OF a3(2,3) sV(1) i(3)])
  obtain r5 p5 where a5: "add_xpwr B P (r4, p4) (s1 ! 3) 3 = (r5, p5)" "r5 \<in> W" "p5 \<in> W"
    "val r5 = val r4 + \<alpha> (s1 ! 3) * \<theta> ^ (n + 3)" by (rule add_xpwr_step [OF a4(2,3) sV(2) i(4)])
  obtain r6 p6 where a6: "add_xpwr B P (r5, p5) (s1 ! 4) 4 = (r6, p6)" "r6 \<in> W" "p6 \<in> W"
    "val r6 = val r5 + \<alpha> (s1 ! 4) * \<theta> ^ (n + 4)" by (rule add_xpwr_step [OF a5(2,3) sV(3) i(5)])
  have eq: "polymod_mul_degree6 B P r e f = r6"
    unfolding polymod_mul_degree6_def s(1) Let_def prod.case c(1) a2(1) a3(1) a4(1) a5(1) a6(1) ..
  show "polymod_mul_degree6 B P r e f \<in> W" unfolding eq by (rule a6)
  show "val (polymod_mul_degree6 B P r e f) = val e * val f"
    unfolding eq a6(4) a5(4) a4(4) a3(4) a2(4) cv val_6 [OF n, of e] val_6 [OF n, of f]
    using sv unfolding product_3_def n
    by (simp add: algebra_simps eval_nat_numeral)
qed

end

end
