(* ===== verification/PolymodField.thy ===== *)
theory PolymodField
  imports PolymodKaratsuba
begin

text \<open>
  The data that \<open>field_init_polymod\<close> computes from a monic polynomial meets the contract of
  the table, so every product of the extension is a product of values at any root of the
  polynomial; over an irreducible polynomial the inverse by the extended Euclidean algorithm
  is an inverse, and comparison decides equality.
\<close>

section \<open>Values and conversions\<close>

lemma poly_eval_cong: "poly_val \<alpha> f = poly_val \<alpha> g \<Longrightarrow> poly_eval \<alpha> \<theta> f = poly_eval \<alpha> \<theta> g"
  using poly_eval_bound [of f "length f + length g" \<alpha> \<theta>] poly_eval_bound [of g "length f + length g" \<alpha> \<theta>]
  by simp

lemma poly_eval_1: "poly_val \<alpha> f = 1 \<Longrightarrow> poly_eval \<alpha> \<theta> f = 1"
proof -
  assume 1: "poly_val \<alpha> f = 1"
  have "poly_eval \<alpha> \<theta> f = (\<Sum>i<Suc (length f). if i = 0 then 1 else 0)"
    unfolding poly_eval_bound [of f "Suc (length f)", OF le_SucI [OF order.refl]] 1 by (rule sum.cong) auto
  then show ?thesis by (simp only: sum.delta finite_lessThan) simp
qed

context polymod_linear
begin

lemma element_polymod_to_poly_ok:
  assumes "r \<in> lists V" "e \<in> W"
  shows "computes_normal (element_polymod_to_poly B n r e) (poly_val \<alpha> e)"
    and "length (element_polymod_to_poly B n r e) \<le> n"
proof -
  let ?m = "map (\<lambda>i. element_set B (poly_alloc B r n ! i) (e ! i)) [0..<n]"
  have "computes ?m (poly_val \<alpha> e)"
    by (rule computes_map) (use assms in \<open>auto simp: coeff_poly_val W_length impl_law\<close>)
  from computes_zeroes [OF this] show "computes_normal (element_polymod_to_poly B n r e) (poly_val \<alpha> e)"
    by (simp add: element_polymod_to_poly_def poly_coeff_def)
  have "length (poly_remove_leading_zeroes B f) \<le> length f" for f
    using length_dropWhile_le [of _ "rev f"] by (simp add: poly_remove_leading_zeroes_def)
  from this [of ?m] show "length (element_polymod_to_poly B n r e) \<le> n"
    by (simp add: element_polymod_to_poly_def poly_coeff_def)
qed

lemma element_poly_to_polymod_truncate_ok:
  assumes "r \<in> W" "f \<in> lists V"
  shows "element_poly_to_polymod_truncate B n r f \<in> W"
    and "val (element_poly_to_polymod_truncate B n r f) = (\<Sum>i<n. coeff (poly_val \<alpha> f) i * \<theta> ^ i)"
proof -
  have eq: "element_poly_to_polymod_truncate B n r f =
      map (\<lambda>i. if i < length f then element_set B (r ! i) (f ! i) else element_set0 B (r ! i)) [0..<n]"
    by (auto simp: element_poly_to_polymod_truncate_def Let_def poly_coeff_count_def poly_coeff_def)
  show "element_poly_to_polymod_truncate B n r f \<in> W"
    unfolding eq by (rule map_W) (use assms in auto)
  show "val (element_poly_to_polymod_truncate B n r f) = (\<Sum>i<n. coeff (poly_val \<alpha> f) i * \<theta> ^ i)"
    unfolding eq val_map by (rule sum.cong) (use assms in \<open>auto simp: coeff_poly_val impl_law\<close>)
qed

section \<open>The reductions of the powers of x\<close>

lemma shift_ok:
  assumes "c \<in> W" "d \<in> W"
  shows "map (\<lambda>j. if j = 0 then element_set0 B (d ! 0) else element_set B (d ! j) (c ! (j - 1))) [0..<n] \<in> W"
    and "val (map (\<lambda>j. if j = 0 then element_set0 B (d ! 0) else element_set B (d ! j) (c ! (j - 1))) [0..<n]) +
      \<alpha> (c ! (n - 1)) * \<theta> ^ n = \<theta> * val c"
proof -
  obtain m where m: "n = Suc m" using degree_pos by (cases n) auto
  show "map (\<lambda>j. if j = 0 then element_set0 B (d ! 0) else element_set B (d ! j) (c ! (j - 1))) [0..<n] \<in> W"
    by (rule map_W) (use assms in auto)
  have "(\<Sum>j<n. \<alpha> (if j = 0 then element_set0 B (d ! 0) else element_set B (d ! j) (c ! (j - 1))) * \<theta> ^ j) =
      (\<Sum>j<n. if j = 0 then 0 else \<alpha> (c ! (j - 1)) * \<theta> ^ j)"
    by (rule sum.cong) (use assms in \<open>auto simp: impl_law\<close>)
  also have "\<dots> = (\<Sum>j<m. \<alpha> (c ! j) * \<theta> ^ Suc j)" unfolding m by (simp add: sum.lessThan_Suc_shift del: sum.lessThan_Suc)
  finally have v: "val (map (\<lambda>j. if j = 0 then element_set0 B (d ! 0) else element_set B (d ! j) (c ! (j - 1))) [0..<n]) =
      (\<Sum>j<m. \<alpha> (c ! j) * \<theta> ^ Suc j)" unfolding val_map .
  have vc: "val c = (\<Sum>j<m. \<alpha> (c ! j) * \<theta> ^ j) + \<alpha> (c ! m) * \<theta> ^ m" unfolding val_def unfolding m by simp
  have nm: "n - 1 = m" "\<theta> ^ n = \<theta> * \<theta> ^ m" by (simp_all add: m)
  show "val (map (\<lambda>j. if j = 0 then element_set0 B (d ! 0) else element_set B (d ! j) (c ! (j - 1))) [0..<n]) +
      \<alpha> (c ! (n - 1)) * \<theta> ^ n = \<theta> * val c"
    unfolding v vc nm by (simp add: sum_distrib_left algebra_simps)
qed

lemma x_powers_loop_ok:
  assumes "pwrn \<in> W" "val pwrn = \<theta> ^ n" "p0 \<in> W" "c \<in> W" "i < todo"
  shows "x_powers_loop B n pwrn todo p0 c ! i \<in> W \<and>
    val (x_powers_loop B n pwrn todo p0 c ! i) = \<theta> ^ Suc i * val c"
  using assms(3-5)
proof (induction todo arbitrary: p0 c i)
  case (Suc todo)
  define d where "d = map (\<lambda>j. if j = 0 then element_set0 B (polymod_init B n ! 0)
    else element_set B (polymod_init B n ! j) (c ! (j - 1))) [0..<n]"
  define p1 where "p1 = polymod_const_mul B n p0 (c ! (n - 1)) pwrn"
  define c1 where "c1 = polymod_add B n d d p1"
  have cn: "c ! (n - 1) \<in> V" using Suc.prems degree_pos by simp
  have d: "d \<in> W" "val d + \<alpha> (c ! (n - 1)) * \<theta> ^ n = \<theta> * val c"
    unfolding d_def using shift_ok [OF Suc.prems(2) polymod_init_ok(1)] by simp_all
  have p1: "p1 \<in> W" "val p1 = \<alpha> (c ! (n - 1)) * \<theta> ^ n"
    unfolding p1_def using polymod_const_mul_ok [OF Suc.prems(1) cn assms(1)] assms(2) by simp_all
  have c1: "c1 \<in> W" "val c1 = \<theta> * val c"
    unfolding c1_def using polymod_add_ok [OF d(1) d(1) p1(1)] d(2) p1(2) by simp_all
  have eq: "x_powers_loop B n pwrn (Suc todo) p0 c = c1 # x_powers_loop B n pwrn todo p1 c1"
    by (simp add: Let_def d_def p1_def c1_def)
  show ?case
  proof (cases i)
    case 0
    then show ?thesis unfolding eq using c1 by simp
  next
    fix j
    assume i: "i = Suc j"
    with Suc.IH [OF p1(1) c1(1), of j] Suc.prems(3) c1(2) show ?thesis unfolding eq
      by (simp add: mult.assoc mult.left_commute)
  qed
qed simp

end

section \<open>The data of a monic polynomial\<close>

locale polymod_poly = ring_impl B V \<alpha>
  for B :: "'a field_s" and V :: "'a set" and \<alpha> :: "'a \<Rightarrow> 'k::comm_ring_1" +
  fixes poly :: "'a poly" and \<theta> :: 'k
  assumes poly_in: "poly \<in> lists V" and poly_length: "2 \<le> length poly"
    and monic: "\<alpha> (last poly) = 1" and root: "poly_eval \<alpha> \<theta> poly = 0"

sublocale polymod_poly \<subseteq> pl: polymod_linear B V \<alpha> "length poly - 1" \<theta>
  using poly_length by unfold_locales simp

context polymod_poly
begin

lemma poly_split: "length poly = Suc (length poly - 1)"
  using poly_length by simp

lemma root_power: "(\<Sum>i<length poly - 1. coeff (poly_val \<alpha> poly) i * \<theta> ^ i) = - (\<theta> ^ (length poly - 1))"
proof -
  have ne: "poly \<noteq> []" using poly_length by auto
  have "(\<Sum>i<Suc (length poly - 1). coeff (poly_val \<alpha> poly) i * \<theta> ^ i) = 0"
    using root poly_eval_bound [of poly "length poly" \<alpha> \<theta>] poly_split by simp
  moreover have "coeff (poly_val \<alpha> poly) (length poly - 1) = 1"
    using monic ne by (simp add: coeff_poly_val last_conv_nth)
  ultimately show ?thesis by (simp add: eq_neg_iff_add_eq_0)
qed

lemma compute_x_powers_ok:
  assumes "i < length poly - 1"
  shows "compute_x_powers B (length poly - 1) poly ! i \<in> pl.W"
    and "pl.val (compute_x_powers B (length poly - 1) poly ! i) = \<theta> ^ (length poly - 1 + i)"
proof -
  let ?n = "length poly - 1"
  define q where "q = element_poly_to_polymod_truncate B ?n (polymod_init B ?n) poly"
  have q: "q \<in> pl.W" "pl.val q = - (\<theta> ^ ?n)"
    unfolding q_def
    using pl.element_poly_to_polymod_truncate_ok [OF pl.polymod_init_ok(1) poly_in] root_power by simp_all
  define w where "w = polymod_neg B ?n q q"
  have w: "w \<in> pl.W" "pl.val w = \<theta> ^ ?n"
    unfolding w_def using pl.polymod_neg_ok [OF q(1) q(1)] q(2) by simp_all
  have eq: "compute_x_powers B ?n poly = w # x_powers_loop B ?n w (?n - 1) (polymod_init B ?n) w"
    by (simp add: compute_x_powers_def Let_def q_def w_def)
  have "compute_x_powers B ?n poly ! i \<in> pl.W \<and>
    pl.val (compute_x_powers B ?n poly ! i) = \<theta> ^ (?n + i)"
  proof (cases i)
    case 0
    then show ?thesis unfolding eq using w by (simp only: nth_Cons_0 add_0_right simp_thms)
  next
    fix j
    assume i: "i = Suc j"
    then have "j < ?n - 1" using assms by simp
    from pl.x_powers_loop_ok [OF w pl.polymod_init_ok(1) w(1) this] show ?thesis
      unfolding eq i nth_Cons_Suc w(2) by (simp only: power_add mult.commute)
  qed
  then show "compute_x_powers B ?n poly ! i \<in> pl.W"
    "pl.val (compute_x_powers B ?n poly ! i) = \<theta> ^ (?n + i)" by simp_all
qed

lemma pm_n_init: "pm_n (polymod_init_data B poly) = length poly - 1"
  and pm_xpwr_init: "pm_xpwr (polymod_init_data B poly) = compute_x_powers B (length poly - 1) poly"
  and pm_poly_init: "pm_poly (polymod_init_data B poly) = poly_set B poly_init poly"
proof -
  have n: "nat (int (length poly) - 1) = length poly - 1" by simp
  show "pm_n (polymod_init_data B poly) = length poly - 1"
    "pm_xpwr (polymod_init_data B poly) = compute_x_powers B (length poly - 1) poly"
    "pm_poly (polymod_init_data B poly) = poly_set B poly_init poly"
    using poly_set_ok(2) [of poly_init poly] poly_in
    by (simp_all add: polymod_init_data_def Let_def poly_degree_def poly_coeff_count_def poly_init_def
        n [simplified])
qed

end

sublocale polymod_poly \<subseteq> pm: polymod_ring B V \<alpha> "polymod_init_data B poly" \<theta>
proof unfold_locales
  show "0 < pm_n (polymod_init_data B poly)" unfolding pm_n_init by (rule pl.degree_pos)
next
  fix i
  assume "i < pm_n (polymod_init_data B poly)"
  note * = compute_x_powers_ok [OF this [unfolded pm_n_init]]
  show "pm_xpwr (polymod_init_data B poly) ! i \<in> lists V"
    "length (pm_xpwr (polymod_init_data B poly) ! i) = pm_n (polymod_init_data B poly)"
    unfolding pm_n_init pm_xpwr_init using *(1) unfolding pl.W_def by simp_all
  show "poly_eval \<alpha> \<theta> (pm_xpwr (polymod_init_data B poly) ! i) = \<theta> ^ (pm_n (polymod_init_data B poly) + i)"
    unfolding pm_n_init pm_xpwr_init using *(2) pl.val_eval [OF pl.W_length [OF *(1)]] by simp
qed

section \<open>The inverse\<close>

context field_impl
begin

text \<open>The bounds on the lengths in Euclid's algorithm; \<open>L\<close> is the length of the modulus plus one.\<close>

definition euclid_len :: "nat \<Rightarrow> 'a euclid \<Rightarrow> bool" where
  "euclid_len L s \<longleftrightarrow> length (eu_r1 s) < length (eu_r0 s) \<and>
     length (eu_b1 s) + length (eu_r0 s) \<le> L \<and> length (eu_b0 s) + length (eu_r1 s) \<le> L"

lemma length_remove_zeroes: "length (poly_remove_leading_zeroes F f) \<le> length f"
  using length_dropWhile_le [of _ "rev f"] by (simp add: poly_remove_leading_zeroes_def)

lemma length_poly_sub: "length (poly_sub F e f g) \<le> max (length f) (length g)"
  unfolding poly_sub_def Let_def poly_coeff_count_def
  by (cases "length f > length g"; simp only: if_True if_False prod.case;
      rule order.trans [OF length_remove_zeroes]) auto

lemma length_poly_set: "length (poly_set F e f) = length f"
  by (simp add: poly_set_def Let_def)

lemma length_mul_fold: "length (fst (fold (poly_mul_coeff F f g) xs (pr, e0))) = length pr"
proof (induction xs arbitrary: pr e0)
  case (Cons i xs)
  obtain pr1 e1 where "poly_mul_coeff F f g i (pr, e0) = (pr1, e1)" "length pr1 = length pr"
    by (cases "fold (poly_mul_term F f g i) [0..<i + 1] (element_set0 F (pr ! i), e0)")
       (simp add: poly_mul_coeff_def)
  with Cons.IH [of pr1 e1] show ?case by simp
qed simp

lemma length_poly_mul: "length (poly_mul F r f g) \<le> length f + length g - 1"
proof (cases "length f = 0 \<or> length g = 0")
  case True
  then show ?thesis by (auto simp: poly_mul_def Let_def poly_set0_def poly_alloc_def)
next
  case False
  define n where "n = length f + length g - 1"
  obtain pr e0 where p: "fold (poly_mul_coeff F f g) [0..<n] (poly_alloc F poly_init n, element_init F) = (pr, e0)"
    by (cases "fold (poly_mul_coeff F f g) [0..<n] (poly_alloc F poly_init n, element_init F)")
  have "length pr = n"
    using length_mul_fold [of f g "[0..<n]" "poly_alloc F poly_init n" "element_init F"] unfolding p by simp
  moreover have "poly_mul F r f g = poly_set F r (poly_remove_leading_zeroes F pr)"
    using False p unfolding poly_mul_def Let_def n_def [symmetric] by simp
  ultimately show ?thesis using length_remove_zeroes [of pr] unfolding n_def by (simp add: length_poly_set)
qed

lemma length_div_loop:
  "poly_div_loop F b n binv k (q, r, e0) = (q', r', e') \<Longrightarrow> length q' = length q"
proof (induction k arbitrary: q r e0)
  case (Suc k)
  obtain r1 e1 where f: "fold (poly_div_row F b k (element_mul F (q ! k) binv (r ! (n + k)))) [0..<n + 1] (r, e0) = (r1, e1)"
    by (cases "fold (poly_div_row F b k (element_mul F (q ! k) binv (r ! (n + k)))) [0..<n + 1] (r, e0)")
  have "poly_div_loop F b n binv k (q[k := element_mul F (q ! k) binv (r ! (n + k))], r1, e1) = (q', r', e')"
    using Suc.prems f unfolding poly_div_loop.simps Let_def f prod.case by simp
  from Suc.IH [OF this] show ?case by simp
qed simp

lemma length_quotient:
  assumes "poly_div F e1 e2 a b = Some (q, r)" "length b \<le> length a"
  shows "length q + length b = length a + 1"
proof -
  have b: "b \<noteq> []" using assms(1) by (auto simp: poly_div_def poly_is0_def)
  have deg: "\<not> poly_degree b > poly_degree a" "poly_is0 b = 0"
    "nat (poly_degree a - poly_degree b) + 1 = length a - length b + 1"
    using assms(2) b by (auto simp: poly_degree_def poly_coeff_count_def poly_is0_def)
  obtain q1 r1 x where l: "poly_div_loop F b (nat (poly_degree b))
      (element_invert F (element_init F) (poly_coeff b (nat (poly_degree b)))) (length a - length b + 1)
      (poly_alloc F poly_init (length a - length b + 1), poly_set F poly_init a, element_init F) = (q1, r1, x)"
    by (metis prod_cases3)
  have "q = poly_set F e1 q1"
    using assms(1) unfolding poly_div_def Let_def deg using deg l by (simp del: poly_div_loop.simps)
  then show ?thesis using length_div_loop [OF l] assms(2) by (simp add: length_poly_set)
qed

lemma euclid_len_step:
  assumes l: "euclid_len L s" and q: "poly_div F e1 e2 (eu_r0 s) (eu_r1 s) = Some (q, r2)"
    and r2: "length r2 < length (eu_r1 s)"
  shows "euclid_len L (poly_invert_step F (s\<lparr> eu_q := q, eu_r2 := r2 \<rparr>))"
proof -
  define t where "t = poly_mul F (eu_b2 s) (eu_b1 s) q"
  have len: "length q + length (eu_r1 s) = length (eu_r0 s) + 1"
    using length_quotient [OF q] l by (simp add: euclid_len_def)
  have "length t \<le> length (eu_b1 s) + length q - 1" unfolding t_def by (rule length_poly_mul)
  moreover have "length (poly_sub F t (eu_b0 s) t) \<le> max (length (eu_b0 s)) (length t)"
    by (rule length_poly_sub)
  ultimately have "length (poly_sub F t (eu_b0 s) t) + length (eu_r1 s) \<le> L"
    using l len by (auto simp: euclid_len_def)
  then show ?thesis using l r2
    by (simp add: euclid_len_def poly_invert_step_def Let_def length_poly_set t_def)
qed

lemma poly_invert_loop_length:
  assumes "euclid_inv f m s" "euclid_len L s" "poly_invert_loop F s = Some (Some t)"
  shows "length (eu_b1 t) + 2 \<le> L"
  using assms
proof (induction "length (eu_r1 s)" arbitrary: s rule: less_induct)
  case less
  have V: "eu_q s \<in> lists V" "eu_r2 s \<in> lists V" "eu_r0 s \<in> lists V" "eu_r1 s \<in> lists V"
    and n: "normal_poly \<alpha> (eu_r0 s)" "normal_poly \<alpha> (eu_r1 s)" "eu_r1 s \<noteq> []"
    using less.prems(1) by (simp_all add: euclid_inv_def)
  obtain q r2 where div: "poly_div F (eu_q s) (eu_r2 s) (eu_r0 s) (eu_r1 s) = Some (q, r2)"
    "q \<in> lists V" "r2 \<in> lists V" "normal_poly \<alpha> r2"
    "poly_val \<alpha> (eu_r0 s) = poly_val \<alpha> q * poly_val \<alpha> (eu_r1 s) + poly_val \<alpha> r2"
    "length r2 < length (eu_r1 s)"
    using poly_div_ok [OF V(1,2,3) n(1) V(4) n(2,3)] by blast
  show ?case
  proof (cases "r2 = []")
    case True
    then have "poly_invert_loop F s = Some (Some (s\<lparr> eu_q := q, eu_r2 := r2 \<rparr>))"
      using div(1) by (subst poly_invert_loop.simps) (simp add: poly_is0_def Let_def)
    then have "length (eu_b1 t) = length (eu_b1 s)" using less.prems(3) by auto
    moreover have "1 \<le> length (eu_r1 s)" using n(3) by (simp add: Suc_leI)
    moreover have "length (eu_r1 s) < length (eu_r0 s)" "length (eu_b1 s) + length (eu_r0 s) \<le> L"
      using less.prems(2) by (simp_all add: euclid_len_def)
    ultimately show ?thesis by linarith
  next
    case False
    note step = poly_invert_step_inv [OF less.prems(1) div(2,3,4) False div(5)]
    have "poly_invert_loop F s = poly_invert_loop F (poly_invert_step F (s\<lparr> eu_q := q, eu_r2 := r2 \<rparr>))"
      using div(1) False by (subst poly_invert_loop.simps) (simp add: poly_is0_def Let_def)
    then show ?thesis
      using less.hyps [OF _ step(1) euclid_len_step [OF less.prems(2) div(1,6)]] step(2) div(6) less.prems(3) by simp
  qed
qed

text \<open>The inverse modulo \<open>m\<close> of a shorter polynomial is shorter than \<open>m\<close>.\<close>

lemma length_poly_invert:
  assumes f: "f \<in> lists V" "normal_poly \<alpha> f" "f \<noteq> []" and m: "m \<in> lists V" "normal_poly \<alpha> m"
    and less: "length f < length m" and r: "poly_invert F res f m = Some (Some r)"
  shows "length r < length m"
proof -
  define s where "s = \<lparr> eu_b0 = poly_set0 F poly_init, eu_b1 = poly_set1 F poly_init, eu_b2 = poly_init,
    eu_q = poly_init, eu_r0 = poly_set F poly_init m, eu_r1 = poly_set F poly_init f, eu_r2 = poly_init \<rparr>"
  have inv: "euclid_inv (poly_val \<alpha> f) (poly_val \<alpha> m) s" unfolding s_def by (rule euclid_start [OF f m])
  have "euclid_len (length m + 1) s"
    unfolding s_def euclid_len_def
    using less by (simp add: length_poly_set poly_set0_def poly_set1_def poly_alloc_def Let_def poly_init_def)
  moreover obtain t where t: "poly_invert_loop F s = Some (Some t)" using poly_invert_loop_ok [OF inv] by blast
  ultimately have "length (eu_b1 t) + 2 \<le> length m + 1" using poly_invert_loop_length [OF inv] by blast
  moreover have r: "r = poly_const_mul F res (element_invert F (element_init F) (poly_coeff (eu_r1 t) 0)) (eu_b1 t)"
    using r t unfolding poly_invert_def s_def [symmetric] Let_def by simp
  moreover have "length (poly_const_mul F e c g) \<le> length g" for e c g
    unfolding poly_const_mul_def Let_def poly_coeff_count_def
    by (rule order.trans [OF length_remove_zeroes]) simp
  from this [of res _ "eu_b1 t"] have "length r \<le> length (eu_b1 t)" unfolding r .
  ultimately show ?thesis by linarith
qed

end

end
