(* ===== verification/PolymodTable.thy ===== *)
theory PolymodTable
  imports PolymodField PowCorrect
begin

text \<open>
  The function table of \<open>field_init_polymod\<close>. Over a base field and an irreducible polynomial
  it implements a field: its contract is that of every other field of the library.
\<close>

section \<open>The entries\<close>

lemma pm_n_data: "pm_n (polymod_init_data B poly) = length poly - 1"
proof -
  have "nat (int (length poly) - 1) = length poly - 1" by simp
  then show ?thesis
    by (simp add: polymod_init_data_def Let_def poly_degree_def poly_coeff_count_def poly_set_def)
qed

lemma polymod_table [simp]:
  fixes B :: "'a field_s" and poly :: "'a poly" and R :: entropy and G :: gmp
  defines "n \<equiv> length poly - 1" and "P \<equiv> polymod_init_data B poly" and "F \<equiv> field_init_polymod G R B poly"
  shows "element_init F = polymod_init B n"
    "element_set F = polymod_set B n"
    "element_set0 F = polymod_set0 B n"
    "element_set1 F = polymod_set1 B n"
    "element_set_si F = polymod_set_si B n"
    "element_set_mpz F = polymod_set_mpz B n"
    "element_add F = polymod_add B n"
    "element_sub F = polymod_sub B n"
    "element_mul F = (if n = 3 then polymod_mul_degree3 B P
       else if n = 6 then polymod_mul_degree6 B P else polymod_mul B P)"
    "element_mul_si F = polymod_mul_si B n"
    "element_mul_mpz F = polymod_mul_mpz B n"
    "element_square F = (if n = 3 then polymod_square_degree3 B P else polymod_square B P)"
    "element_double F = polymod_double B n"
    "element_neg F = polymod_neg B n"
    "element_invert F = (\<lambda>r e. case polymod_invert B P r e of Some x \<Rightarrow> x | None \<Rightarrow> undefined)"
    "element_cmp F = polymod_cmp B"
    "element_is0 F = polymod_is0 B"
    "element_is1 F = polymod_is1 B"
    "element_to_bytes F = polymod_to_bytes B"
    "element_from_bytes F = polymod_from_bytes B"
    "f_pow_mpz F = None"
    "f_order F = mpz_pow_ui G (f_order B) n"
  unfolding n_def P_def F_def
  by (simp_all add: fun_eq_iff field_init_polymod_def polymod_base_def Let_def pm_n_data field_init_def dispatch)

section \<open>Arithmetic\<close>

context polymod_poly
begin

lemma element_mul_ok:
  assumes "r \<in> pl.W" "e \<in> pl.W" "f \<in> pl.W"
  shows "element_mul (field_init_polymod G R B poly) r e f \<in> pl.W"
    and "pl.val (element_mul (field_init_polymod G R B poly) r e f) = pl.val e * pl.val f"
  using pm.polymod_mul_ok [OF assms [folded pm_n_init]] pm.polymod_mul_degree3_ok [OF _ assms [folded pm_n_init]]
    pm.polymod_mul_degree6_ok [OF _ assms [folded pm_n_init]]
  unfolding pm_n_init by (simp_all del: One_nat_def)

lemma element_square_ok:
  assumes "r \<in> pl.W" "e \<in> pl.W"
  shows "element_square (field_init_polymod G R B poly) r e \<in> pl.W"
    and "pl.val (element_square (field_init_polymod G R B poly) r e) = pl.val e * pl.val e"
  using pm.polymod_square_ok [OF assms [folded pm_n_init]] pm.polymod_square_degree3_ok [OF _ assms [folded pm_n_init]]
  unfolding pm_n_init by (simp_all del: One_nat_def)

end

text \<open>All operations together, over the arrays of the right length.\<close>

context polymod_poly
begin

lemma W_iff: "x \<in> pl.W \<longleftrightarrow> x \<in> lists V \<and> length x = length poly - 1"
  unfolding pl.W_def by blast

lemma ring_values:
  fixes R :: entropy and G :: gmp
  defines "F \<equiv> field_init_polymod G R B poly"
  assumes "r \<in> pl.W" "e \<in> pl.W" "f \<in> pl.W"
  shows "pl.val (element_mul F r e f) = pl.val e * pl.val f" "pl.val (element_square F r e) = pl.val e * pl.val e"
    "pl.val (element_add F r e f) = pl.val e + pl.val f" "pl.val (element_sub F r e f) = pl.val e - pl.val f"
    "pl.val (element_neg F r e) = - pl.val e" "pl.val (element_set1 F r) = 1"
    "{element_mul F r e f, element_square F r e, element_add F r e f, element_sub F r e f,
      element_neg F r e, element_set1 F r} \<subseteq> pl.W"
  using element_mul_ok [OF assms(2-4)] element_square_ok [OF assms(2,3)]
    pl.polymod_add_ok [OF assms(2-4)] pl.polymod_neg_ok [OF assms(2,3)] pl.polymod_constants_ok [OF assms(2)]
  unfolding F_def by (simp_all only: polymod_table(4,7,8,14) insert_subset empty_subsetI simp_thms)

lemma ring_correct:
  fixes R :: entropy and G :: gmp
  defines "F \<equiv> field_init_polymod G R B poly" and "ev \<equiv> poly_eval \<alpha> \<theta>"
  assumes "{r, e, f} \<subseteq> lists V" "\<forall>x\<in>{r, e, f}. length x = length poly - 1"
  shows "ev (element_mul F r e f) = ev e * ev f \<and> ev (element_square F r e) = ev e * ev e \<and>
    ev (element_add F r e f) = ev e + ev f \<and> ev (element_sub F r e f) = ev e - ev f \<and>
    ev (element_neg F r e) = - ev e \<and> ev (element_set1 F r) = 1 \<and>
    (\<forall>x\<in>{element_mul F r e f, element_square F r e, element_add F r e f, element_sub F r e f,
       element_neg F r e, element_set1 F r}. x \<in> lists V \<and> length x = length poly - 1)"
proof -
  have W: "r \<in> pl.W" "e \<in> pl.W" "f \<in> pl.W" using assms(3,4) by (simp_all only: W_iff insert_subset) auto
  have ev: "ev x = pl.val x" if "x \<in> pl.W" for x
    using pl.val_eval [OF pl.W_length [OF that]] by (simp only: ev_def)
  note rv = ring_values [OF W, of G R, folded F_def]
  have res: "element_mul F r e f \<in> pl.W" "element_square F r e \<in> pl.W" "element_add F r e f \<in> pl.W"
    "element_sub F r e f \<in> pl.W" "element_neg F r e \<in> pl.W" "element_set1 F r \<in> pl.W"
    using rv(7) by (simp_all only: insert_subset)
  note ball = res [unfolded W_iff]
  show ?thesis
    unfolding ev [OF W(1)] ev [OF W(2)] ev [OF W(3)] ev [OF res(1)] ev [OF res(2)] ev [OF res(3)]
      ev [OF res(4)] ev [OF res(5)] ev [OF res(6)] rv(1-6)
    using ball by (simp only: ball_simps simp_thms)
qed

end

section \<open>Irreducible polynomials\<close>

context field_impl
begin

text \<open>The length of a product.\<close>

lemma length_product:
  assumes u: "u \<in> lists V" "normal_poly \<alpha> u" "u \<noteq> []" and d: "d \<in> lists V" "normal_poly \<alpha> d" "d \<noteq> []"
    and a: "a \<in> lists V" "normal_poly \<alpha> a" "poly_val \<alpha> a = poly_val \<alpha> u * poly_val \<alpha> d"
  shows "length a + 1 = length u + length d"
proof -
  define i j where "i = length d - 1" and "j = length u - 1"
  have ij: "length d = i + 1" "length u = j + 1" using u(3) d(3) by (simp_all add: i_def j_def Suc_leI)
  have "coeff (poly_val \<alpha> u * poly_val \<alpha> d) (i + j) = (\<Sum>k\<le>i + j. if k = j then \<alpha> (u ! j) * \<alpha> (d ! i) else 0)"
    unfolding coeff_mult by (rule sum.cong) (use ij in \<open>auto simp: coeff_poly_val\<close>)
  then have top: "coeff (poly_val \<alpha> a) (i + j) = \<alpha> (u ! j) * \<alpha> (d ! i)" unfolding a(3) by simp
  have "\<alpha> (u ! j) \<noteq> 0" "\<alpha> (d ! i) \<noteq> 0"
    using u(2,3) d(2,3) ij by (simp_all add: normal_poly_def last_conv_nth)
  then have "coeff (poly_val \<alpha> a) (i + j) \<noteq> 0"
    unfolding top using no_zero_divisors [of "u ! j" "d ! i"] u(1) d(1) ij by auto
  then have "i + j < length a" by (simp add: coeff_poly_val split: if_splits)
  moreover have "\<forall>k\<ge>i + j + 1. coeff (poly_val \<alpha> a) k = 0"
    unfolding a(3) using coeff_mult_high [of u d] ij by auto
  then have "length a \<le> i + j + 1" by (rule normal_length_le [OF a(2)])
  ultimately show ?thesis using ij by simp
qed

text \<open>A polynomial without factors other than constants and its own multiples.\<close>

definition irreducible_poly :: "'a poly \<Rightarrow> bool" where
  "irreducible_poly m \<longleftrightarrow> (\<forall>u\<in>lists V. \<forall>d\<in>lists V. normal_poly \<alpha> u \<and> normal_poly \<alpha> d \<and>
     poly_val \<alpha> m = poly_val \<alpha> u * poly_val \<alpha> d \<longrightarrow> length u \<le> 1 \<or> length d \<le> 1)"

lemma pdvd_factor:
  assumes "pdvd (poly_val \<alpha> d) (poly_val \<alpha> a)"
  obtains u where "u \<in> lists V" "normal_poly \<alpha> u" "poly_val \<alpha> a = poly_val \<alpha> u * poly_val \<alpha> d"
proof -
  obtain u0 where "u0 \<in> lists V" "poly_val \<alpha> a = poly_val \<alpha> u0 * poly_val \<alpha> d"
    using assms by (auto simp: pdvd_def polys_def)
  with remove_leading_zeroes_ok [of u0] that [of "poly_remove_leading_zeroes F u0"] show thesis by auto
qed

lemma irreducible_coprime:
  assumes m: "m \<in> lists V" "normal_poly \<alpha> m" "irreducible_poly m"
    and f: "f \<in> lists V" "normal_poly \<alpha> f" "f \<noteq> []" and less: "length f < length m"
  shows "combination 1 (poly_val \<alpha> f) (poly_val \<alpha> m)"
proof -
  have mne: "m \<noteq> []" using less by auto
  obtain d where d: "d \<in> lists V" "normal_poly \<alpha> d" "pdvd (poly_val \<alpha> d) (poly_val \<alpha> f)"
    "pdvd (poly_val \<alpha> d) (poly_val \<alpha> m)" "combination (poly_val \<alpha> d) (poly_val \<alpha> f) (poly_val \<alpha> m)"
    using poly_gcd_ok [of "[]" f m] f m mne by auto
  obtain w where w: "w \<in> lists V" "normal_poly \<alpha> w" "poly_val \<alpha> f = poly_val \<alpha> w * poly_val \<alpha> d"
    using pdvd_factor [OF d(3)] .
  obtain u where u: "u \<in> lists V" "normal_poly \<alpha> u" "poly_val \<alpha> m = poly_val \<alpha> u * poly_val \<alpha> d"
    using pdvd_factor [OF d(4)] .
  have ne: "d \<noteq> []" "w \<noteq> []" "u \<noteq> []"
    using w(3) u(3) normal_zero [OF f(2)] normal_zero [OF m(2)] f(3) mne by auto
  have "length d \<le> length f"
    using length_product [OF w(1,2) ne(2) d(1,2) ne(1) f(1,2) w(3)] ne by (cases w) auto
  moreover have "length m + 1 = length u + length d"
    by (rule length_product [OF u(1,2) ne(3) d(1,2) ne(1) m(1,2) u(3)])
  moreover have "length u \<le> 1 \<or> length d \<le> 1" using m(3) u d(1,2) unfolding irreducible_poly_def by blast
  ultimately have "length d = 1" using less ne(1) by (cases d) auto
  then obtain c where c: "d = [c]" by (cases d) auto
  define x where "x = \<alpha> (element_invert F (element_init F) c)"
  have "c \<in> V" "\<alpha> c \<noteq> 0" using d(1,2) c by (simp_all add: normal_poly_def)
  then have x: "\<alpha> c * x = 1" "element_invert F (element_init F) c \<in> V"
    using invert [OF init_in] invert_in [OF init_in] by (simp_all add: x_def)
  have cx: "const x \<in> polys" using polys_val [of "[element_invert F (element_init F) c]"] x(2)
    by (simp add: poly_val_single x_def)
  obtain s t where st: "s \<in> polys" "t \<in> polys" "const (\<alpha> c) = s * poly_val \<alpha> f + t * poly_val \<alpha> m"
    using d(5) unfolding combination_def c poly_val_single by blast
  have "1 = const (\<alpha> c * x)" using x(1) by (simp add: const_simps)
  also have "\<dots> = const x * const (\<alpha> c)" by (simp only: const_simps mult.commute)
  also have "\<dots> = const x * s * poly_val \<alpha> f + const x * t * poly_val \<alpha> m"
    unfolding st(3) by (simp add: algebra_simps)
  finally show ?thesis
    unfolding combination_def using cx st(1,2) polys_closed(3) by blast
qed

end

section \<open>The field\<close>

locale polymod_field = polymod_poly B V \<alpha> poly \<theta> + bf: field_impl B V \<alpha> + gmp: gmp_laws G
  for B :: "'a field_s" and V :: "'a set" and \<alpha> :: "'a \<Rightarrow> 'k::comm_ring_1"
    and poly :: "'a poly" and \<theta> :: 'k and G :: gmp and R :: entropy +
  assumes irreducible: "field_impl.irreducible_poly V \<alpha> poly"
begin

lemma poly_normal: "normal_poly \<alpha> poly"
  using monic by (simp add: normal_poly_def)

lemma coprime_value:
  assumes "e \<in> pl.W" "f = element_polymod_to_poly B (length poly - 1) poly_init e" "f \<noteq> []"
  obtains r where "poly_invert B poly_init f (poly_set B poly_init poly) = Some (Some r)" "r \<in> lists V"
    "length r \<le> length poly - 1" "poly_eval \<alpha> \<theta> r * pl.val e = 1"
proof -
  have nil: "poly_init \<in> lists V" by (simp add: poly_init_def)
  have f: "f \<in> lists V" "normal_poly \<alpha> f" "poly_val \<alpha> f = poly_val \<alpha> e" "length f \<le> length poly - 1"
    using pl.element_polymod_to_poly_ok [OF nil assms(1)] unfolding assms(2)
    by (simp_all add: computes_normal_def computes_def)
  define m where "m = poly_set B poly_init poly"
  have m: "m \<in> lists V" "normal_poly \<alpha> m" "poly_val \<alpha> m = poly_val \<alpha> poly" "length m = length poly"
    using poly_set_normal [OF nil poly_in poly_normal] poly_set_ok(2) [OF nil poly_in]
    by (simp_all add: m_def computes_normal_def computes_def)
  have less: "length f < length poly" "length f < length m" using f(4) m(4) poly_length by simp_all
  have co: "bf.combination 1 (poly_val \<alpha> f) (poly_val \<alpha> m)"
    unfolding m(3) by (rule bf.irreducible_coprime [OF poly_in poly_normal irreducible f(1,2) assms(3) less(1)])
  obtain r c where r: "poly_invert B poly_init f m = Some (Some r)" "r \<in> lists V" "c \<in> polys"
    "poly_val \<alpha> r * poly_val \<alpha> f + c * poly_val \<alpha> m = 1"
    using bf.poly_invert_ok [OF nil f(1,2) assms(3) m(1,2) co] by blast
  obtain c' where c: "c' \<in> lists V" "c = poly_val \<alpha> c'" using r(3) by (auto simp: polys_def)
  have "length r < length m" by (rule bf.length_poly_invert [OF f(1,2) assms(3) m(1,2) less(2) r(1)])
  moreover have "poly_eval \<alpha> \<theta> r * pl.val e = 1"
  proof -
    define cm where "cm = poly_mul B [] c' m"
    have cm: "poly_val \<alpha> cm = poly_val \<alpha> c' * poly_val \<alpha> m"
      using poly_mul_ok [of "[]" c' m] c(1) m(1) by (simp add: cm_def computes_normal_def computes_def)
    have "poly_eval \<alpha> \<theta> cm = poly_eval \<alpha> \<theta> c' * poly_eval \<alpha> \<theta> m + poly_eval \<alpha> \<theta> []"
      by (rule poly_eval_mult_add) (simp add: cm)
    moreover have "poly_eval \<alpha> \<theta> m = 0" using poly_eval_cong [OF m(3), of \<theta>] root by simp
    ultimately have "poly_eval \<alpha> \<theta> cm = 0" by (simp add: poly_eval_def)
    moreover have "poly_eval \<alpha> \<theta> (poly_set1 B []) = poly_eval \<alpha> \<theta> r * poly_eval \<alpha> \<theta> f + poly_eval \<alpha> \<theta> cm"
      by (rule poly_eval_mult_add)
         (use r(4) poly_set1_ok [of "[]"] in \<open>simp add: cm c(2) computes_normal_def computes_def\<close>)
    moreover have "poly_eval \<alpha> \<theta> (poly_set1 B []) = 1"
      by (rule poly_eval_1) (use poly_set1_ok [of "[]"] in \<open>simp add: computes_normal_def computes_def\<close>)
    moreover have "pl.val e = poly_eval \<alpha> \<theta> f"
      using poly_eval_cong [OF f(3), of \<theta>] pl.val_eval [OF pl.W_length [OF assms(1)]] by simp
    ultimately show ?thesis by simp
  qed
  ultimately show thesis using that r(1,2) m(4) unfolding m_def by simp
qed

lemma val_zero_iff:
  assumes "e \<in> pl.W"
  shows "pl.val e = 0 \<longleftrightarrow> (\<forall>c\<in>set e. \<alpha> c = 0)"
proof
  assume "\<forall>c\<in>set e. \<alpha> c = 0"
  then show "pl.val e = 0" unfolding pl.val_def using pl.W_length [OF assms] by simp
next
  assume 0: "pl.val e = 0"
  define f where "f = element_polymod_to_poly B (length poly - 1) poly_init e"
  have "f = []"
  proof (rule ccontr)
    assume "f \<noteq> []"
    from coprime_value [OF assms f_def this] 0 show False by (metis mult_zero_right zero_neq_one)
  qed
  moreover have "poly_val \<alpha> f = poly_val \<alpha> e"
    using pl.element_polymod_to_poly_ok(1) [of poly_init e] assms
    by (simp add: f_def computes_normal_def computes_def poly_init_def)
  ultimately have "coeff (poly_val \<alpha> e) i = 0" for i by simp
  then show "\<forall>c\<in>set e. \<alpha> c = 0" by (metis coeff_poly_val in_set_conv_nth)
qed

lemma polymod_invert_ok:
  assumes "r \<in> pl.W" "e \<in> pl.W" "pl.val e \<noteq> 0"
  obtains x where "polymod_invert B (polymod_init_data B poly) r e = Some x" "x \<in> pl.W" "pl.val e * pl.val x = 1"
proof -
  define f where "f = element_polymod_to_poly B (length poly - 1) poly_init e"
  have "poly_val \<alpha> f = poly_val \<alpha> e"
    using pl.element_polymod_to_poly_ok(1) [of poly_init e] assms(2)
    by (simp add: f_def computes_normal_def computes_def poly_init_def)
  then have "poly_eval \<alpha> \<theta> f \<noteq> 0"
    using poly_eval_cong [of \<alpha> f e \<theta>] pl.val_eval [OF pl.W_length [OF assms(2)]] assms(3) by simp
  then have "f \<noteq> []" by (auto simp: poly_eval_def)
  from coprime_value [OF assms(2) f_def this] obtain q where
    q: "poly_invert B poly_init f (poly_set B poly_init poly) = Some (Some q)" "q \<in> lists V"
    "length q \<le> length poly - 1" "poly_eval \<alpha> \<theta> q * pl.val e = 1" .
  note tr = pl.element_poly_to_polymod_truncate_ok [OF assms(1) q(2)]
  have "pl.val e * pl.val (element_poly_to_polymod_truncate B (length poly - 1) r q) = 1"
    using q(4) unfolding tr(2) poly_eval_bound [OF q(3)] by (simp only: mult.commute)
  moreover have "polymod_invert B (polymod_init_data B poly) r e =
      Some (element_poly_to_polymod_truncate B (length poly - 1) r q)"
    unfolding polymod_invert_def Let_def pm_n_init pm_poly_init f_def [symmetric] q(1) by simp
  ultimately show thesis using that tr(1) by blast
qed

lemma cmp_iff: "length e = length f \<Longrightarrow> e \<in> lists V \<Longrightarrow> f \<in> lists V \<Longrightarrow>
    polymod_cmp B e f = 0 \<longleftrightarrow> map \<alpha> e = map \<alpha> f"
  by (induction e f rule: list_induct2) (auto simp: impl_law)

lemma is0_iff: "e \<in> lists V \<Longrightarrow> polymod_is0 B e = 0 \<longleftrightarrow> (\<exists>c\<in>set e. \<alpha> c \<noteq> 0)"
  by (induction e) (auto simp: impl_law)

lemma val_eq_iff:
  assumes "e \<in> pl.W" "f \<in> pl.W"
  shows "pl.val e = pl.val f \<longleftrightarrow> map \<alpha> e = map \<alpha> f"
proof
  assume "pl.val e = pl.val f"
  then have "pl.val (polymod_sub B (length poly - 1) e e f) = 0"
    using pl.polymod_add_ok(4) [OF assms(1,1,2)] by simp
  then have *: "\<forall>c\<in>set (polymod_sub B (length poly - 1) e e f). \<alpha> c = 0"
    using val_zero_iff [OF pl.polymod_add_ok(3) [OF assms(1,1,2)]] by simp
  have "\<alpha> (e ! i) = \<alpha> (f ! i)" if "i < length poly - 1" for i
  proof -
    have "element_sub B (e ! i) (e ! i) (f ! i) \<in> set (polymod_sub B (length poly - 1) e e f)"
      using that by (auto simp: polymod_sub_def)
    with * show ?thesis using pl.W_nth [OF assms(1) that] pl.W_nth [OF assms(2) that]
      by (auto simp: impl_law)
  qed
  then show "map \<alpha> e = map \<alpha> f"
    using pl.W_length [OF assms(1)] pl.W_length [OF assms(2)] by (simp add: list_eq_iff_nth_eq)
next
  assume eq: "map \<alpha> e = map \<alpha> f"
  have "\<alpha> (e ! i) = \<alpha> (f ! i)" if "i < length poly - 1" for i
    using arg_cong [OF eq, of "\<lambda>l. l ! i"] that pl.W_length [OF assms(1)] pl.W_length [OF assms(2)] by simp
  then show "pl.val e = pl.val f" unfolding pl.val_def by simp
qed

lemma is1_iff:
  assumes "e \<in> pl.W"
  shows "polymod_is1 B e = 0 \<longleftrightarrow> pl.val e \<noteq> 1"
proof -
  define o1 where "o1 = polymod_set1 B (length poly - 1) e"
  have o1: "o1 \<in> pl.W" "pl.val o1 = 1" using pl.polymod_constants_ok(3,4) [OF assms] by (simp_all add: o1_def)
  obtain c es where e: "e = c # es" using pl.W_length [OF assms] pl.degree_pos by (cases e) auto
  have V: "c \<in> V" "es \<in> lists V" and len: "length poly - 1 = Suc (length es)"
    using pl.W_lists [OF assms] pl.W_length [OF assms] by (simp_all add: e)
  have "map \<alpha> o1 = 1 # map (\<lambda>_. 0) es"
  proof (rule nth_equalityI)
    fix i
    assume "i < length (map \<alpha> o1)"
    then have i: "i < length poly - 1" using pl.W_length [OF o1(1)] by simp
    then have "\<alpha> (o1 ! i) = (if i = 0 then 1 else 0)"
      using pl.W_nth [OF assms i] V(1) by (auto simp: o1_def polymod_set1_def zero_tail_def impl_law e)
    then show "map \<alpha> o1 ! i = (1 # map (\<lambda>_. 0) es) ! i"
      using i len pl.W_length [OF o1(1)] by (cases i) simp_all
  qed (use len pl.W_length [OF o1(1)] in simp)
  then have "pl.val e = 1 \<longleftrightarrow> \<alpha> c = 1 \<and> (\<forall>x\<in>set es. \<alpha> x = 0)"
    using val_eq_iff [OF assms o1(1)] o1(2) by (auto simp: e)
  then show ?thesis using V is0_iff [OF V(2)] by (auto simp: polymod_is1_def e impl_law)
qed

end

sublocale polymod_field \<subseteq> pf: field_gmp "field_init_polymod G R B poly" pl.W pl.val G
proof -
  have is0: "polymod_is0 B e = 0 \<longleftrightarrow> pl.val e \<noteq> 0" if "e \<in> pl.W" for e
    using val_zero_iff [OF that] is0_iff [OF pl.W_lists [OF that]] by blast
  have cmp: "polymod_cmp B e f = 0 \<longleftrightarrow> pl.val e = pl.val f" if "e \<in> pl.W" "f \<in> pl.W" for e f
    using val_eq_iff [OF that] cmp_iff [of e f, OF _ pl.W_lists [OF that(1)] pl.W_lists [OF that(2)]]
      pl.W_length [OF that(1)] pl.W_length [OF that(2)] by simp
  have inv: "element_invert (field_init_polymod G R B poly) r e \<in> pl.W \<and>
      pl.val e * pl.val (element_invert (field_init_polymod G R B poly) r e) = 1"
    if re: "r \<in> pl.W" "e \<in> pl.W" "pl.val e \<noteq> 0" for r e
  proof -
    obtain x where "polymod_invert B (polymod_init_data B poly) r e = Some x" "x \<in> pl.W" "pl.val e * pl.val x = 1"
      by (rule polymod_invert_ok [OF re])
    then show ?thesis by (simp only: polymod_table option.case simp_thms)
  qed
  have "field_impl (field_init_polymod G R B poly) pl.W pl.val"
    by unfold_locales
       (simp_all only: element_mul_ok element_square_ok inv polymod_table(1-8,10,11,13,14,16-18)
         pl.polymod_init_ok pl.polymod_set_ok pl.polymod_add_ok pl.polymod_neg_ok pl.polymod_mul_mpz_ok
         pl.polymod_constants_ok is0 is1_iff cmp simp_thms)
  then show "field_gmp (field_init_polymod G R B poly) pl.W pl.val G"
    by (rule field_gmp_generic_pow) (simp_all add: gmp.gmp_laws_axioms)
qed

context polymod_field
begin

lemma field_correct:
  defines "F \<equiv> field_init_polymod G R B poly" and "ev \<equiv> poly_eval \<alpha> \<theta>"
  assumes "{r, e, f} \<subseteq> lists V" "\<forall>x\<in>{r, e, f}. length x = length poly - 1" "0 \<le> k"
  shows "(ev e \<noteq> 0 \<longrightarrow> polymod_invert B (polymod_init_data B poly) r e = Some (element_invert F r e) \<and>
      ev e * ev (element_invert F r e) = 1) \<and>
    (element_cmp F e f = 0 \<longleftrightarrow> ev e = ev f) \<and> (element_is0 F e = 0 \<longleftrightarrow> ev e \<noteq> 0) \<and>
    ev (element_pow_mpz G F r e k) = ev e ^ nat k"
proof -
  have W: "r \<in> pl.W" "e \<in> pl.W" "f \<in> pl.W" using assms(3,4) by (simp_all only: W_iff insert_subset) auto
  have ev: "ev x = pl.val x" if "x \<in> pl.W" for x
    using pl.val_eval [OF pl.W_length [OF that]] by (simp only: ev_def)
  note pow = pf.pow_in [OF W(1,2) assms(5), folded F_def] pf.pow [OF W(1,2) assms(5), folded F_def]
  have "polymod_invert B (polymod_init_data B poly) r e = Some (element_invert F r e) \<and>
      ev e * ev (element_invert F r e) = 1" if "ev e \<noteq> 0"
  proof -
    have 0: "pl.val e \<noteq> 0" using that ev [OF W(2)] by simp
    obtain x where x: "polymod_invert B (polymod_init_data B poly) r e = Some x" "x \<in> pl.W" "pl.val e * pl.val x = 1"
      by (rule polymod_invert_ok [OF W(1,2) 0])
    then have "element_invert F r e = x" unfolding F_def polymod_table by simp
    with x show ?thesis using ev W(2) by simp
  qed
  then show ?thesis
    using pf.cmp [OF W(2,3), folded F_def] pf.is0 [OF W(2), folded F_def] pow ev W by simp
qed

end

end
