(* ===== verification/PolymodProps.thy ===== *)
theory PolymodProps
  imports PolymodTable QuadraticProps PolyProps
begin

text \<open>
  The properties of the extensions \<open>R[x]\<close> modulo a polynomial, for the table of
  \<open>field_init_polymod\<close>. \<open>poly_eval \<alpha> \<theta> e\<close> is the value at \<open>\<theta>\<close> of the polynomial with the
  coefficients \<open>e\<close>; the witnesses use cubic, sextic and quadratic moduli over the integers
  modulo 7.
\<close>

text \<open>
  C28: Multiplication modulo a monic polynomial of any degree, with Karatsuba in degrees 3 and
  6 and the table of reductions otherwise: at every root \<open>\<theta>\<close> of the polynomial, in any ring,
  products, squares, sums, differences and negatives have the values they should, and every
  result has the right length.
\<close>

theorem polymod_ring_correct:
  fixes R :: entropy and G :: gmp
  assumes "ring_impl B V \<alpha>" "poly \<in> lists V" "2 \<le> length poly" "\<alpha> (last poly) = 1"
    and "poly_eval \<alpha> \<theta> poly = 0"
    and "{r, e, f} \<subseteq> lists V" "\<forall>x\<in>{r, e, f}. length x = length poly - 1"
  defines "F \<equiv> field_init_polymod G R B poly" and "ev \<equiv> poly_eval \<alpha> \<theta>"
  shows "ev (element_mul F r e f) = ev e * ev f \<and> ev (element_square F r e) = ev e * ev e \<and>
    ev (element_add F r e f) = ev e + ev f \<and> ev (element_sub F r e f) = ev e - ev f \<and>
    ev (element_neg F r e) = - ev e \<and> ev (element_set1 F r) = 1 \<and>
    (\<forall>x\<in>{element_mul F r e f, element_square F r e, element_add F r e f, element_sub F r e f,
       element_neg F r e, element_set1 F r}. x \<in> lists V \<and> length x = length poly - 1)"
  unfolding F_def ev_def
  by (rule polymod_poly.ring_correct [OF polymod_poly.intro [OF assms(1) polymod_poly_axioms.intro
      [OF assms(2-5)]] assms(6,7)])

lemma polymod_ring_witness:
  "let F = field_init_polymod gmp_ref (\<lambda>_ _. 0) (field_init_naive_fp gmp_ref 7) [6, 0, 0, 1];
       ev = poly_eval (of_int :: int \<Rightarrow> 7) 2
   in ev (element_mul F [0, 0, 0] [1, 2, 3] [4, 5, 6]) = ev [1, 2, 3] * ev [4, 5, 6] \<and>
      element_mul F [0, 0, 0] [1, 2, 3] [4, 5, 6] = [3, 3, 0]"
proof -
  let ?F = "field_init_polymod gmp_ref (\<lambda>_ _. 0) (field_init_naive_fp gmp_ref 7) [6, 0, 0, 1]"
  let ?ev = "poly_eval (of_int :: int \<Rightarrow> 7) 2"
  have "?ev [6, 0, 0, 1] = 0" by (simp add: poly_eval_def)
  then have "?ev (element_mul ?F [0, 0, 0] [1, 2, 3] [4, 5, 6]) = ?ev [1, 2, 3] * ?ev [4, 5, 6]"
    using polymod_ring_correct [OF ring7, of "[6, 0, 0, 1]" 2 "[0, 0, 0]" "[1, 2, 3]" "[4, 5, 6]" gmp_ref "\<lambda>_ _. 0"] by simp
  moreover have "element_mul ?F [0, 0, 0] [1, 2, 3] [4, 5, 6] = [3, 3, 0]"
    unfolding polymod_table by code_simp
  ultimately show ?thesis unfolding Let_def by blast
qed

section \<open>A field of 49 elements as a polynomial extension\<close>

lemma no_root_of_minus_one: "y \<in> {0..<7} \<Longrightarrow> (of_int y :: 7 gauss) * of_int y \<noteq> - 1"
proof
  assume y: "y \<in> {0..<7}" and "(of_int y :: 7 gauss) * of_int y = - 1"
  then have "(of_int (y * y + 1) :: 7 gauss) = 0" by simp
  then have "(of_int (y * y + 1) :: 7) = 0" by (simp only: gauss_of_int_eq_0)
  then have "(of_int y :: 7) * of_int y = - 1" by (simp add: eq_neg_iff_add_eq_0)
  with fi49.minus_one [OF y] show False by simp
qed

lemma of_int_mod_7: "(of_int (z mod 7) :: 7 gauss) = of_int z"
proof -
  have "z mod 7 = z - 7 * (z div 7)" by (simp add: minus_mult_div_eq_mod)
  moreover have "(of_int 7 :: 7 gauss) = 0" unfolding gauss_of_int_eq_0 by simp
  ultimately show ?thesis by (simp only: of_int_diff of_int_mult mult_zero_left diff_zero)
qed

lemma quadratic_factors:
  fixes a b c e :: "'k::comm_ring_1"
  assumes "a * c = 1" "a * e + b * c = 0" "b * e = 1"
  shows "(a * e) * (a * e) = - 1"
proof -
  have "a * e = - (b * c)" using assms(2) by (simp add: eq_neg_iff_add_eq_0)
  then have "(a * e) * (a * e) = - (b * c) * (a * e)" by simp
  also have "\<dots> = - ((a * c) * (b * e))" by (simp add: algebra_simps)
  finally show ?thesis using assms(1,3) by simp
qed

lemma irreducible_49:
  "field_impl.irreducible_poly {0..<7} (of_int :: int \<Rightarrow> 7 gauss) [1, 0, 1]"
proof -
  have field: "field_impl (field_init_naive_fp gmp_ref 7) {0..<7} (of_int :: int \<Rightarrow> 7 gauss)"
    by (rule fp7g.fpx.field_impl_axioms)
  let ?v = "poly_val (of_int :: int \<Rightarrow> 7 gauss)"
  have "length u \<le> 1 \<or> length d \<le> 1"
    if u: "u \<in> lists {0..<7}" "normal_poly (of_int :: int \<Rightarrow> 7 gauss) u"
      and d: "d \<in> lists {0..<7}" "normal_poly (of_int :: int \<Rightarrow> 7 gauss) d"
      and eq: "?v [1, 0, 1] = ?v u * ?v d" for u d
  proof (rule ccontr)
    assume "\<not> (length u \<le> 1 \<or> length d \<le> 1)"
    then have long: "2 \<le> length u" "2 \<le> length d" by simp_all
    moreover have "length u + length d = 4"
    proof -
      have "u \<noteq> []" "d \<noteq> []" using long by auto
      from field_impl.length_product [OF field u this(1) d this(2) _ _ eq] show ?thesis
        by (simp add: normal_poly_def)
    qed
    ultimately have "length u = 2" "length d = 2" by simp_all
    then obtain a b c e where ud: "u = [a, b]" "d = [c, e]" by (auto simp: numeral_2_eq_2 length_Suc_conv)
    have V: "a \<in> {0..<7}" "b \<in> {0..<7}" "c \<in> {0..<7}" "e \<in> {0..<7}" using u(1) d(1) ud by simp_all
    have co: "coeff (?v [1, 0, 1]) i = coeff (?v u * ?v d) i" for i using eq by simp
    have "(of_int a :: 7 gauss) * of_int c = 1" using co [of 0] by (simp add: coeff_mult coeff_poly_val ud)
    moreover have "(of_int a :: 7 gauss) * of_int e + of_int b * of_int c = 0"
      using co [of 1] by (simp add: coeff_mult coeff_poly_val ud)
    moreover have "(of_int b :: 7 gauss) * of_int e = 1"
      using co [of 2] by (simp add: coeff_mult coeff_poly_val ud numeral_2_eq_2)
    ultimately have "(of_int a * of_int e :: 7 gauss) * (of_int a * of_int e) = - 1"
      by (rule quadratic_factors)
    moreover have "(of_int (a * e mod 7) :: 7 gauss) = of_int a * of_int e"
      by (simp only: of_int_mod_7 of_int_mult)
    ultimately show False using no_root_of_minus_one [of "a * e mod 7"] by simp
  qed
  then show ?thesis unfolding field_impl.irreducible_poly_def [OF field] by blast
qed

text \<open>The contracts of the extension hold for \<open>x^2 + 1\<close> over the integers modulo 7.\<close>

interpretation pf49: polymod_field "field_init_naive_fp gmp_ref 7" "{0..<7}" "of_int :: int \<Rightarrow> 7 gauss"
    "[1, 0, 1]" "Gauss 0 1" gmp_ref "\<lambda>_ _. 0"
  by unfold_locales (simp_all add: poly_eval_def gauss_eq_iff irreducible_49)

text \<open>
  C29: Over a base field and an irreducible monic polynomial with root \<open>\<theta>\<close> the extension is a
  field: the inverse by the extended Euclidean algorithm exists and is the inverse,
  comparison decides equality of values, and exponentiation computes powers.
\<close>

theorem polymod_field_correct:
  fixes R :: entropy and G :: gmp
  assumes "field_impl B V \<alpha>" "gmp_laws G" "poly \<in> lists V" "2 \<le> length poly" "\<alpha> (last poly) = 1"
    and "poly_eval \<alpha> \<theta> poly = 0" "field_impl.irreducible_poly V \<alpha> poly"
    and "{r, e, f} \<subseteq> lists V" "\<forall>x\<in>{r, e, f}. length x = length poly - 1" "0 \<le> k"
  defines "F \<equiv> field_init_polymod G R B poly" and "ev \<equiv> poly_eval \<alpha> \<theta>"
  shows "(ev e \<noteq> 0 \<longrightarrow> polymod_invert B (polymod_init_data B poly) r e = Some (element_invert F r e) \<and>
      ev e * ev (element_invert F r e) = 1) \<and>
    (element_cmp F e f = 0 \<longleftrightarrow> ev e = ev f) \<and> (element_is0 F e = 0 \<longleftrightarrow> ev e \<noteq> 0) \<and>
    ev (element_pow_mpz G F r e k) = ev e ^ nat k"
  unfolding F_def ev_def
  by (rule polymod_field.field_correct [OF polymod_field.intro [OF polymod_poly.intro [OF _ polymod_poly_axioms.intro
      [OF assms(3-6)]] assms(1,2) polymod_field_axioms.intro [OF assms(7)]] assms(8-10)])
     (use assms(1) in \<open>simp add: field_impl_def\<close>)

text \<open>The witness inverts \<open>2 + 3 x\<close> modulo \<open>x^2 + 1\<close>, in the field of 49 elements.\<close>

lemma polymod_field_witness:
  "let F = field_init_polymod gmp_ref (\<lambda>_ _. 0) (field_init_naive_fp gmp_ref 7) [1, 0, 1];
       ev = poly_eval (of_int :: int \<Rightarrow> 7 gauss) (Gauss 0 1)
   in ev [2, 3] * ev (element_invert F [0, 0] [2, 3]) = 1 \<and>
      ev (element_pow_mpz gmp_ref F [0, 0] [2, 3] 10) = ev [2, 3] ^ nat 10"
proof -
  let ?F = "field_init_polymod gmp_ref (\<lambda>_ _. 0) (field_init_naive_fp gmp_ref 7) [1, 0, 1]"
  let ?ev = "poly_eval (of_int :: int \<Rightarrow> 7 gauss) (Gauss 0 1)"
  have "?ev [2, 3] \<noteq> 0" by (simp add: poly_eval_def gauss_eq_iff)
  moreover have "?ev [1, 0, 1] = 0" by (simp add: poly_eval_def gauss_eq_iff)
  ultimately show ?thesis
    using polymod_field_correct [OF fp7g.fpx.field_impl_axioms gmp_ref.gmp_laws_axioms _ _ _ _ irreducible_49,
        of "Gauss 0 1" "[0, 0]" "[2, 3]" "[0, 0]" 10 "\<lambda>_ _. 0"]
    unfolding Let_def by simp
qed

end
