(* ===== verification/Curve.thy ===== *)
theory Curve
  imports Quadratic
begin

text \<open>
  The group of points of an elliptic curve \<open>y^2 = x^3 + a x + b\<close>, \<^verbatim>\<open>ecc/curve.c\<close>. A point
  keeps its coordinates when it is set to infinity, so every operation takes the old
  destination. The data of the curve holds the table of the base field. Searches for a point
  that may run forever return \<open>None\<close> then.
\<close>

section \<open>Points\<close>

record 'a point =
  inf_flag :: int
  pt_x :: 'a
  pt_y :: 'a

record 'a curve_data =
  cv_field :: "'a field_s"
  cv_a :: 'a
  cv_b :: 'a
  cv_gen :: "'a point"
  cv_gen_no_cofac :: "'a point"
  cv_cofac :: "int option"

definition curve_init :: "'a curve_data \<Rightarrow> 'a point" where
  "curve_init cdp = \<lparr> inf_flag = 1, pt_x = element_init (cv_field cdp), pt_y = element_init (cv_field cdp) \<rparr>"

definition curve_is_valid_point :: "'a curve_data \<Rightarrow> 'a point \<Rightarrow> int" where
  "curve_is_valid_point cdp p = (
     if inf_flag p \<noteq> 0 then 1
     else
       let f = cv_field cdp;
           t0 = element_init f;
           t1 = element_init f;
           t0 = element_square f t0 (pt_x p);
           t0 = element_add f t0 t0 (cv_a cdp);
           t0 = element_mul f t0 t0 (pt_x p);
           t0 = element_add f t0 t0 (cv_b cdp);
           t1 = element_square f t1 (pt_y p)
       in if element_cmp f t0 t1 = 0 then 1 else 0)"

definition curve_invert :: "'a curve_data \<Rightarrow> 'a point \<Rightarrow> 'a point \<Rightarrow> 'a point" where
  "curve_invert cdp r p = (
     if inf_flag p \<noteq> 0 then r\<lparr> inf_flag := 1 \<rparr>
     else \<lparr> inf_flag = 0, pt_x = element_set (cv_field cdp) (pt_x r) (pt_x p),
            pt_y = element_neg (cv_field cdp) (pt_y r) (pt_y p) \<rparr>)"

definition curve_set :: "'a curve_data \<Rightarrow> 'a point \<Rightarrow> 'a point \<Rightarrow> 'a point" where
  "curve_set cdp r p = (
     if inf_flag p \<noteq> 0 then r\<lparr> inf_flag := 1 \<rparr>
     else \<lparr> inf_flag = 0, pt_x = element_set (cv_field cdp) (pt_x r) (pt_x p),
            pt_y = element_set (cv_field cdp) (pt_y r) (pt_y p) \<rparr>)"

definition double_no_check :: "'a field_s \<Rightarrow> 'a point \<Rightarrow> 'a point \<Rightarrow> 'a \<Rightarrow> 'a point" where
  "double_no_check f r p a = (
     let lambda = element_init f;
         e0 = element_init f;
         e1 = element_init f;
         lambda = element_square f lambda (pt_x p);
         lambda = element_mul_si f lambda lambda 3;
         lambda = element_add f lambda lambda a;
         e0 = element_double f e0 (pt_y p);
         e0 = element_invert f e0 e0;
         lambda = element_mul f lambda lambda e0;
         e1 = element_double f e1 (pt_x p);
         e0 = element_square f e0 lambda;
         e0 = element_sub f e0 e0 e1;
         e1 = element_sub f e1 (pt_x p) e0;
         e1 = element_mul f e1 e1 lambda;
         e1 = element_sub f e1 e1 (pt_y p)
     in \<lparr> inf_flag = 0, pt_x = element_set f (pt_x r) e0, pt_y = element_set f (pt_y r) e1 \<rparr>)"

definition curve_double :: "'a curve_data \<Rightarrow> 'a point \<Rightarrow> 'a point \<Rightarrow> 'a point" where
  "curve_double cdp r p = (
     if inf_flag p \<noteq> 0 then r\<lparr> inf_flag := 1 \<rparr>
     else if element_is0 (cv_field cdp) (pt_y p) \<noteq> 0 then r\<lparr> inf_flag := 1 \<rparr>
     else double_no_check (cv_field cdp) r p (cv_a cdp))"

text \<open>The chord through two points with different abscissas.\<close>

definition curve_chord :: "'a field_s \<Rightarrow> 'a point \<Rightarrow> 'a point \<Rightarrow> 'a point \<Rightarrow> 'a point" where
  "curve_chord f r p q = (
     let lambda = element_init f;
         e0 = element_init f;
         e1 = element_init f;
         e0 = element_sub f e0 (pt_x q) (pt_x p);
         e0 = element_invert f e0 e0;
         lambda = element_sub f lambda (pt_y q) (pt_y p);
         lambda = element_mul f lambda lambda e0;
         e0 = element_square f e0 lambda;
         e0 = element_sub f e0 e0 (pt_x p);
         e0 = element_sub f e0 e0 (pt_x q);
         e1 = element_sub f e1 (pt_x p) e0;
         e1 = element_mul f e1 e1 lambda;
         e1 = element_sub f e1 e1 (pt_y p)
     in \<lparr> inf_flag = 0, pt_x = element_set f (pt_x r) e0, pt_y = element_set f (pt_y r) e1 \<rparr>)"

definition curve_mul :: "'a curve_data \<Rightarrow> 'a point \<Rightarrow> 'a point \<Rightarrow> 'a point \<Rightarrow> 'a point" where
  "curve_mul cdp r p q = (
     let f = cv_field cdp in
     if inf_flag p \<noteq> 0 then curve_set cdp r q
     else if inf_flag q \<noteq> 0 then curve_set cdp r p
     else if element_cmp f (pt_x p) (pt_x q) = 0 then
       if element_cmp f (pt_y p) (pt_y q) = 0 then
         if element_is0 f (pt_y p) \<noteq> 0 then r\<lparr> inf_flag := 1 \<rparr>
         else double_no_check f r p (cv_a cdp)
       else r\<lparr> inf_flag := 1 \<rparr>
     else curve_chord f r p q)"

text \<open>\<open>same\<close> says whether the two arguments are the same object.\<close>

definition curve_cmp :: "'a curve_data \<Rightarrow> bool \<Rightarrow> 'a point \<Rightarrow> 'a point \<Rightarrow> int" where
  "curve_cmp cdp same p q = (
     if same then 0
     else if inf_flag p \<noteq> 0 then inf_flag q
     else if element_cmp (cv_field cdp) (pt_x p) (pt_x q) \<noteq> 0 \<or> element_cmp (cv_field cdp) (pt_y p) (pt_y q) \<noteq> 0
       then 1 else 0)"

definition curve_set1 :: "'a point \<Rightarrow> 'a point" where
  "curve_set1 p = p\<lparr> inf_flag := 1 \<rparr>"

definition curve_is1 :: "'a point \<Rightarrow> int" where
  "curve_is1 p = inf_flag p"

definition curve_sign :: "'a curve_data \<Rightarrow> 'a point \<Rightarrow> int" where
  "curve_sign cdp p = (if inf_flag p \<noteq> 0 then 0 else element_sign (cv_field cdp) (pt_y p))"

definition curve_set_si :: "'a curve_data \<Rightarrow> 'a point \<Rightarrow> int \<Rightarrow> int \<Rightarrow> 'a point" where
  "curve_set_si cdp p x y = (
     let px = element_set_si (cv_field cdp) (pt_x p) x;
         py = element_set_si (cv_field cdp) (pt_y p) y
     in \<lparr> inf_flag = 0, pt_x = px, pt_y = py \<rparr>)"

definition curve_x_coord :: "'a point \<Rightarrow> 'a" where
  "curve_x_coord e = pt_x e"

definition curve_y_coord :: "'a point \<Rightarrow> 'a" where
  "curve_y_coord e = pt_y e"

definition curve_field_a_coeff :: "'a curve_data \<Rightarrow> 'a" where
  "curve_field_a_coeff cdp = cv_a cdp"

definition curve_field_b_coeff :: "'a curve_data \<Rightarrow> 'a" where
  "curve_field_b_coeff cdp = cv_b cdp"

section \<open>Points from abscissas\<close>

text \<open>The right-hand side of the equation at \<open>x\<close>, as every search computes it.\<close>

definition curve_rhs :: "'a field_s \<Rightarrow> 'a \<Rightarrow> 'a \<Rightarrow> 'a \<Rightarrow> 'a \<Rightarrow> 'a" where
  "curve_rhs f t x a b = (
     let t = element_square f t x;
         t = element_add f t t a;
         t = element_mul f t t x
     in element_add f t t b)"

definition point_from_x :: "'a field_s \<Rightarrow> 'a point \<Rightarrow> 'a \<Rightarrow> 'a \<Rightarrow> 'a \<Rightarrow> 'a point" where
  "point_from_x f p x a b = (
     let t = curve_rhs f (element_init f) x a b;
         y = element_sqrt f (pt_y p) t;
         px = element_set f (pt_x p) x
     in \<lparr> inf_flag = 0, pt_x = px, pt_y = y \<rparr>)"

definition curve_from_x :: "'a curve_data \<Rightarrow> 'a point \<Rightarrow> 'a \<Rightarrow> 'a point" where
  "curve_from_x cdp e x = point_from_x (cv_field cdp) e x (cv_a cdp) (cv_b cdp)"

partial_function (option) solvefory_loop ::
  "'a curve_data \<Rightarrow> entropy \<Rightarrow> nat \<Rightarrow> 'a \<Rightarrow> 'a \<Rightarrow> ('a \<times> 'a \<times> nat) option" where
  "solvefory_loop cdp R c x t = (
     let (x, c) = element_random (cv_field cdp) R c x;
         t = curve_rhs (cv_field cdp) t x (cv_a cdp) (cv_b cdp)
     in if element_is_sqr (cv_field cdp) t = 0 then solvefory_loop cdp R c x t
        else Some (x, t, c))"

definition curve_random_no_cofac_solvefory ::
  "'a curve_data \<Rightarrow> entropy \<Rightarrow> nat \<Rightarrow> 'a point \<Rightarrow> ('a point \<times> nat) option" where
  "curve_random_no_cofac_solvefory cdp R c p = (
     case solvefory_loop cdp R c (pt_x p) (element_init (cv_field cdp)) of
       None \<Rightarrow> None
     | Some (x, t, c) \<Rightarrow>
         Some (\<lparr> inf_flag = 0, pt_x = x, pt_y = element_sqrt (cv_field cdp) (pt_y p) t \<rparr>, c))"

text \<open>The hash, with the first byte of the data counted up until its abscissa is on the curve.\<close>

partial_function (option) curve_hash_loop ::
  "'a curve_data \<Rightarrow> byte list \<Rightarrow> 'a \<Rightarrow> 'a \<Rightarrow> ('a \<times> 'a) option" where
  "curve_hash_loop cdp data x t = (
     case element_from_hash (cv_field cdp) x data of
       None \<Rightarrow> None
     | Some x \<Rightarrow>
         let t = curve_rhs (cv_field cdp) t x (cv_a cdp) (cv_b cdp)
         in if element_is_sqr (cv_field cdp) t \<noteq> 0 then Some (x, t)
            else if data = [] then None
            else curve_hash_loop cdp ((hd data + 1) # tl data) x t)"

section \<open>Serialisation\<close>

definition curve_length_in_bytes :: "'a curve_data \<Rightarrow> 'a point \<Rightarrow> int" where
  "curve_length_in_bytes cdp p =
     element_length_in_bytes (cv_field cdp) (pt_x p) + element_length_in_bytes (cv_field cdp) (pt_y p)"

definition curve_to_bytes :: "'a curve_data \<Rightarrow> 'a point \<Rightarrow> byte list" where
  "curve_to_bytes cdp p = element_to_bytes (cv_field cdp) (pt_x p) @ element_to_bytes (cv_field cdp) (pt_y p)"

definition curve_from_bytes :: "'a curve_data \<Rightarrow> 'a point \<Rightarrow> byte list \<Rightarrow> 'a point \<times> nat" where
  "curve_from_bytes cdp p data = (
     let (x, len) = element_from_bytes (cv_field cdp) (pt_x p) data;
         (y, len2) = element_from_bytes (cv_field cdp) (pt_y p) (drop len data);
         p = \<lparr> inf_flag = 0, pt_x = x, pt_y = y \<rparr>
     in (if curve_is_valid_point cdp p = 0 then curve_set1 p else p, len + len2))"

definition element_to_bytes_compressed :: "'a curve_data \<Rightarrow> 'a point \<Rightarrow> byte list" where
  "element_to_bytes_compressed cdp p =
     element_to_bytes (cv_field cdp) (pt_x p) @ [if element_sign (cv_field cdp) (pt_y p) > 0 then 1 else 0]"

text \<open>The byte after the abscissa chooses the sign of the ordinate; it is read at offset \<open>len\<close>.\<close>

definition element_from_bytes_compressed :: "'a curve_data \<Rightarrow> 'a point \<Rightarrow> byte list \<Rightarrow> 'a point \<times> nat" where
  "element_from_bytes_compressed cdp p data = (
     let f = cv_field cdp;
         (x, len) = element_from_bytes f (pt_x p) data;
         p = point_from_x f (p\<lparr> pt_x := x \<rparr>) x (cv_a cdp) (cv_b cdp);
         p = (if data ! len \<noteq> 0 then
                if element_sign f (pt_y p) < 0 then p\<lparr> pt_y := element_neg f (pt_y p) (pt_y p) \<rparr> else p
              else if element_sign f (pt_y p) > 0 then p\<lparr> pt_y := element_neg f (pt_y p) (pt_y p) \<rparr>
              else p)
     in (p, len + 1))"

definition element_length_in_bytes_compressed :: "'a curve_data \<Rightarrow> 'a point \<Rightarrow> int" where
  "element_length_in_bytes_compressed cdp p = element_length_in_bytes (cv_field cdp) (pt_x p) + 1"

definition element_to_bytes_x_only :: "'a curve_data \<Rightarrow> 'a point \<Rightarrow> byte list" where
  "element_to_bytes_x_only cdp p = element_to_bytes (cv_field cdp) (pt_x p)"

definition element_from_bytes_x_only :: "'a curve_data \<Rightarrow> 'a point \<Rightarrow> byte list \<Rightarrow> 'a point \<times> nat" where
  "element_from_bytes_x_only cdp p data = (
     let (x, len) = element_from_bytes (cv_field cdp) (pt_x p) data
     in (point_from_x (cv_field cdp) (p\<lparr> pt_x := x \<rparr>) x (cv_a cdp) (cv_b cdp), len))"

definition element_length_in_bytes_x_only :: "'a curve_data \<Rightarrow> 'a point \<Rightarrow> int" where
  "element_length_in_bytes_x_only cdp p = element_length_in_bytes (cv_field cdp) (pt_x p)"

text \<open>Printing and parsing, over the printer and the parser of the base field.\<close>

definition curve_snprint :: "(nat \<Rightarrow> 'a \<Rightarrow> string \<times> int) \<Rightarrow> nat \<Rightarrow> 'a point \<Rightarrow> string \<times> int" where
  "curve_snprint snp n p = (
     if inf_flag p \<noteq> 0 then
       let (s1, status) = c_snprintf n ''O''
       in if status < 0 then (s1, status) else (s1, 1)
     else
     let (s1, status) = c_snprintf n ''['' in
     if status < 0 then (s1, status) else
     let (result, left) = clip_sub n 0 status;
         (s2, status) = snp left (pt_x p) in
     if status < 0 then (s1 @ s2, status) else
     let (result, left) = clip_sub n result status;
         (s3, status) = c_snprintf left '', '' in
     if status < 0 then (s1 @ s2 @ s3, status) else
     let (result, left) = clip_sub n result status;
         (s4, status) = snp left (pt_y p) in
     if status < 0 then (s1 @ s2 @ s3 @ s4, status) else
     let (result, left) = clip_sub n result status;
         (s5, status) = c_snprintf left '']'' in
     if status < 0 then (s1 @ s2 @ s3 @ s4 @ s5, status)
     else (s1 @ s2 @ s3 @ s4 @ s5, int result + status))"

definition curve_set_str ::
  "'a curve_data \<Rightarrow> ('a \<Rightarrow> string \<Rightarrow> 'a \<times> nat) \<Rightarrow> 'a point \<Rightarrow> string \<Rightarrow> 'a point \<times> nat" where
  "curve_set_str cdp sst e s = (
     let e = curve_set1 e;
         cp = skip_space s
     in case cp of [] \<Rightarrow> (e\<lparr> inf_flag := 0 \<rparr>, 0) | c # cp' \<Rightarrow>
       if c = CHR ''O'' then (e, length s - length cp + 1) else
       let e = e\<lparr> inf_flag := 0 \<rparr> in
       if c \<noteq> CHR ''['' then (e, 0) else
       let (x, k) = sst (pt_x e) cp';
           e = e\<lparr> pt_x := x \<rparr>;
           cp = skip_space (drop k cp')
       in case cp of [] \<Rightarrow> (e, 0) | c # cp \<Rightarrow>
         if c \<noteq> CHR '','' then (e, 0) else
         let (y, k) = sst (pt_y e) cp;
             e = e\<lparr> pt_y := y \<rparr>;
             cp = drop k cp
         in case cp of [] \<Rightarrow> (e, 0) | c # cp \<Rightarrow>
           if c \<noteq> CHR '']'' then (e, 0)
           else if curve_is_valid_point cdp e = 0 then (curve_set1 e, 0)
           else (e, length s - length cp))"

section \<open>The table\<close>

definition odd_curve_is_sqr :: "'a point \<Rightarrow> int" where
  "odd_curve_is_sqr e = 1"

text \<open>
  The table of \<open>field_init_curve_ab\<close> but for the operations that multiply a point by an
  integer, which call the exponentiation of the table; those are added by \<open>curve_table\<close>.
\<close>

definition curve_base :: "'a curve_data \<Rightarrow> int \<Rightarrow> 'a point field_s" where
  "curve_base cdp order = field_init\<lparr>
     f_order := order,
     f_init := curve_init cdp,
     f_neg := curve_invert cdp,
     f_invert := curve_invert cdp,
     f_square := Some (curve_double cdp),
     f_doub := Some (curve_double cdp),
     f_add := curve_mul cdp,
     f_mul := curve_mul cdp,
     f_cmp := Some (curve_cmp cdp False),
     f_set0 := curve_set1,
     f_set1 := curve_set1,
     f_is0 := Some curve_is1,
     f_is1 := Some curve_is1,
     f_sign := curve_sign cdp,
     f_set := curve_set cdp,
     f_length_in_bytes := (if f_fixed_length (cv_field cdp) < 0 then curve_length_in_bytes cdp else undefined),
     f_fixed_length := (if f_fixed_length (cv_field cdp) < 0 then undefined else 2 * f_fixed_length (cv_field cdp)),
     f_to_bytes := curve_to_bytes cdp,
     f_from_bytes := curve_from_bytes cdp \<rparr>"

definition even_curve_is_sqr :: "gmp \<Rightarrow> 'a point field_s \<Rightarrow> 'a point \<Rightarrow> int" where
  "even_curve_is_sqr G F e = (
     let z = mpz_sub G (f_order F) 1;
         e1 = element_init F;
         z = mpz_fdiv_q_2exp G z 1;
         e1 = element_pow_mpz G F e1 e z
     in element_is1 F e1)"

definition curve_from_hash :: "gmp \<Rightarrow> 'a point field_s \<Rightarrow> 'a curve_data \<Rightarrow> 'a point \<Rightarrow> byte list \<Rightarrow> 'a point option" where
  "curve_from_hash G F cdp a data = (
     let f = cv_field cdp in
     case curve_hash_loop cdp data (pt_x a) (element_init f) of
       None \<Rightarrow> None
     | Some (x, t) \<Rightarrow>
         let y = element_sqrt f (pt_y a) t;
             y = (if element_sgn f y < 0 then element_neg f y y else y);
             a = \<lparr> inf_flag = 0, pt_x = x, pt_y = y \<rparr>
         in Some (case cv_cofac cdp of None \<Rightarrow> a | Some h \<Rightarrow> element_pow_mpz G F a a h))"

definition curve_random_pointmul ::
  "gmp \<Rightarrow> 'a point field_s \<Rightarrow> 'a curve_data \<Rightarrow> entropy \<Rightarrow> nat \<Rightarrow> 'a point \<Rightarrow> 'a point \<times> nat" where
  "curve_random_pointmul G F cdp R c a = (
     let x = R c (f_order F)
     in (element_pow_mpz G F a (cv_gen cdp) x, c + 1))"

definition curve_table :: "gmp \<Rightarrow> 'a curve_data \<Rightarrow> int \<Rightarrow> 'a point field_s" where
  "curve_table G cdp order = (
     let F = curve_base cdp order
     in F\<lparr> f_mul_mpz := Some (element_pow_mpz G F),
           f_is_sqr := (if mpz_odd_p G order then odd_curve_is_sqr else even_curve_is_sqr G F),
           f_from_hash := curve_from_hash G F cdp,
           f_random := Some (curve_random_pointmul G F cdp) \<rparr>)"

definition curve_random_solvefory ::
  "gmp \<Rightarrow> 'a curve_data \<Rightarrow> int \<Rightarrow> entropy \<Rightarrow> nat \<Rightarrow> 'a point \<Rightarrow> ('a point \<times> nat) option" where
  "curve_random_solvefory G cdp order R c a = (
     case curve_random_no_cofac_solvefory cdp R c a of
       None \<Rightarrow> None
     | Some (a, c) \<Rightarrow>
         Some (case cv_cofac cdp of None \<Rightarrow> a | Some h \<Rightarrow> element_mul_mpz (curve_table G cdp order) a a h, c))"

definition field_curve_use_random_solvefory ::
  "gmp \<Rightarrow> 'a curve_data \<Rightarrow> int \<Rightarrow> 'a point field_s" where
  "field_curve_use_random_solvefory G cdp order = (curve_table G cdp order)\<lparr>
     f_random := Some (\<lambda>R c a. case curve_random_solvefory G cdp order R c a of
        Some r \<Rightarrow> r | None \<Rightarrow> undefined) \<rparr>"

definition curve_set_gen_no_cofac :: "'a curve_data \<Rightarrow> 'a point \<Rightarrow> 'a point" where
  "curve_set_gen_no_cofac cdp a = curve_set cdp a (cv_gen_no_cofac cdp)"

text \<open>
  The generator: a random point, times the cofactor when there is one; \<open>field_init_curve_ab\<close>
  and \<open>twist_curve\<close> end with it.
\<close>

definition curve_make_gen ::
  "gmp \<Rightarrow> 'a curve_data \<Rightarrow> int \<Rightarrow> entropy \<Rightarrow> nat \<Rightarrow> ('a curve_data \<times> nat) option" where
  "curve_make_gen G cdp order R c = (
     case curve_random_no_cofac_solvefory cdp R c (cv_gen_no_cofac cdp) of
       None \<Rightarrow> None
     | Some (g, c) \<Rightarrow>
         let cdp = cdp\<lparr> cv_gen_no_cofac := g \<rparr>;
             gen = (case cv_cofac cdp of
                      Some h \<Rightarrow> element_mul_mpz (curve_table G cdp order) (cv_gen cdp) g h
                    | None \<Rightarrow> curve_set cdp (cv_gen cdp) g)
         in Some (cdp\<lparr> cv_gen := gen \<rparr>, c))"

definition field_init_curve_ab ::
  "gmp \<Rightarrow> entropy \<Rightarrow> nat \<Rightarrow> 'a field_s \<Rightarrow> 'a \<Rightarrow> 'a \<Rightarrow> int \<Rightarrow> int option \<Rightarrow>
     ('a point field_s \<times> 'a curve_data \<times> nat) option" where
  "field_init_curve_ab G R c f a b order cofac = (
     let inf = \<lparr> inf_flag = 1, pt_x = element_init f, pt_y = element_init f \<rparr>;
         cdp = \<lparr> cv_field = f, cv_a = element_set f (element_init f) a, cv_b = element_set f (element_init f) b,
                 cv_gen = inf, cv_gen_no_cofac = inf, cv_cofac = cofac \<rparr>
     in map_option (\<lambda>(cdp, c). (curve_table G cdp order, cdp, c)) (curve_make_gen G cdp order R c))"

definition field_init_curve_b ::
  "gmp \<Rightarrow> entropy \<Rightarrow> nat \<Rightarrow> 'a field_s \<Rightarrow> 'a \<Rightarrow> int \<Rightarrow> int option \<Rightarrow>
     ('a point field_s \<times> 'a curve_data \<times> nat) option" where
  "field_init_curve_b G R c f b order cofac = field_init_curve_ab G R c f (element_init f) b order cofac"

definition curve_j_coeffs :: "'a field_s \<Rightarrow> 'a \<Rightarrow> 'a \<times> 'a" where
  "curve_j_coeffs f j = (
     let a = element_init f;
         b = element_init f;
         a = element_set_si f a 1728;
         a = element_sub f a a j;
         a = element_invert f a a;
         a = element_mul f a a j;
         b = element_add f b a a;
         a = element_add f a a b
     in (a, b))"

definition field_init_curve_j ::
  "gmp \<Rightarrow> entropy \<Rightarrow> nat \<Rightarrow> 'a field_s \<Rightarrow> 'a \<Rightarrow> int \<Rightarrow> int option \<Rightarrow>
     ('a point field_s \<times> 'a curve_data \<times> nat) option" where
  "field_init_curve_j G R c f j order cofac = (
     let (a, b) = curve_j_coeffs f j
     in field_init_curve_ab G R c f a b order cofac)"

definition field_init_curve_ab_map ::
  "gmp \<Rightarrow> entropy \<Rightarrow> nat \<Rightarrow> 'a curve_data \<Rightarrow> ('b \<Rightarrow> 'a \<Rightarrow> 'b) \<Rightarrow> 'b field_s \<Rightarrow> int \<Rightarrow> int option \<Rightarrow>
     ('b point field_s \<times> 'b curve_data \<times> nat) option" where
  "field_init_curve_ab_map G R c cdp fmap mapdest ordernew cofacnew = (
     let a = fmap (element_init mapdest) (cv_a cdp);
         b = fmap (element_init mapdest) (cv_b cdp)
     in field_init_curve_ab G R c mapdest a b ordernew cofacnew)"

text \<open>
  The quadratic twist, in place. The nonresidue is the one stored in the base field, computed
  and stored there by \<open>field_get_nqr\<close> when there is none yet; that search may not return.
\<close>

definition twist_coeffs :: "'a field_s \<Rightarrow> 'a \<Rightarrow> 'a \<Rightarrow> 'a \<Rightarrow> 'a \<times> 'a" where
  "twist_coeffs f nqr a b = (
     let a = element_mul f a a nqr;
         a = element_mul f a a nqr;
         b = element_mul f b b nqr;
         b = element_mul f b b nqr;
         b = element_mul f b b nqr
     in (a, b))"

definition twist_curve ::
  "gmp \<Rightarrow> int \<Rightarrow> entropy \<Rightarrow> nat \<Rightarrow> 'a curve_data \<Rightarrow> ('a curve_data \<times> nat) option" where
  "twist_curve G order R c cdp = (
     case field_get_nqr (cv_field cdp) R c of
       None \<Rightarrow> None
     | Some (nqr, f, c) \<Rightarrow>
         let (a, b) = twist_coeffs f nqr (cv_a cdp) (cv_b cdp)
         in curve_make_gen G (cdp\<lparr> cv_field := f, cv_a := a, cv_b := b \<rparr>) order R c)"

section \<open>The trace of Frobenius over an extension\<close>

fun trace_loop :: "gmp \<Rightarrow> int \<Rightarrow> int \<Rightarrow> nat \<Rightarrow> int \<Rightarrow> int \<Rightarrow> int \<times> int" where
  "trace_loop G q trace 0 c1 c2 = (c1, c2)"
| "trace_loop G q trace (Suc k) c1 c2 = (
     let c0 = mpz_mul G trace c1;
         t0 = mpz_mul G q c2;
         c0 = mpz_sub G c0 t0
     in trace_loop G q trace k c0 c1)"

definition compute_trace_n :: "gmp \<Rightarrow> int \<Rightarrow> int \<Rightarrow> nat \<Rightarrow> int" where
  "compute_trace_n G q trace n = fst (trace_loop G q trace (n - 1) trace 2)"

end
