(* ===== verification/CurveCorrect.thy ===== *)
theory CurveCorrect
  imports Curve SqrtField
begin

text \<open>
  The points of a curve over a field: \<open>ec_val\<close> is the point of the affine plane, or the point
  at infinity, that the data of a point stands for. \<open>ec_sum\<close> is the chord and tangent law.
  Every operation of \<^verbatim>\<open>ecc/curve.c\<close> keeps the equation of the curve.
\<close>

section \<open>The chord and tangent law\<close>

datatype 'k ec = Inf | Aff 'k 'k

text \<open>The reflection of the third point on the line of slope \<open>l\<close> through two points.\<close>

definition third_point :: "'k::comm_ring_1 \<Rightarrow> 'k \<Rightarrow> 'k \<Rightarrow> 'k \<Rightarrow> 'k ec" where
  "third_point l x1 y1 x2 = (let x3 = l * l - x1 - x2 in Aff x3 ((x1 - x3) * l - y1))"

text \<open>
  \<open>ec_sum A P Q R\<close>: \<open>R\<close> is the sum of \<open>P\<close> and \<open>Q\<close>. The slope \<open>l\<close> is given by the equation it
  satisfies, which has one solution when the denominator is invertible.
\<close>

fun ec_sum :: "'k::comm_ring_1 \<Rightarrow> 'k ec \<Rightarrow> 'k ec \<Rightarrow> 'k ec \<Rightarrow> bool" where
  "ec_sum A Inf Q R \<longleftrightarrow> R = Q"
| "ec_sum A (Aff x y) Inf R \<longleftrightarrow> R = Aff x y"
| "ec_sum A (Aff x1 y1) (Aff x2 y2) R \<longleftrightarrow>
     (if x1 \<noteq> x2 then \<exists>l. l * (x2 - x1) = y2 - y1 \<and> R = third_point l x1 y1 x2
      else if y1 = y2 \<and> y1 \<noteq> 0 then \<exists>l. l * (y1 + y1) = 3 * (x1 * x1) + A \<and> R = third_point l x1 y1 x2
      else R = Inf)"

fun on_curve :: "'k::comm_ring_1 \<Rightarrow> 'k \<Rightarrow> 'k ec \<Rightarrow> bool" where
  "on_curve A B Inf \<longleftrightarrow> True"
| "on_curve A B (Aff x y) \<longleftrightarrow> y * y = (x * x + A) * x + B"

fun ec_neg :: "'k::comm_ring_1 ec \<Rightarrow> 'k ec" where
  "ec_neg Inf = Inf"
| "ec_neg (Aff x y) = Aff x (- y)"

text \<open>
  The cubic along the line through \<open>(x1, y1)\<close> of slope \<open>l\<close>, at distance \<open>t\<close>: when its
  linear coefficient is \<open>e\<close> the difference of the two sides is \<open>t (e + t (l^2 - 3 x1 - t))\<close>.
\<close>

lemma line_cubic:
  fixes x1 y1 l t A B :: "'k::comm_ring_1"
  assumes "y1 * y1 = (x1 * x1 + A) * x1 + B"
  shows "(l * t + y1) * (l * t + y1) - (((x1 + t) * (x1 + t) + A) * (x1 + t) + B) =
    t * ((l * (y1 + y1) - (3 * (x1 * x1) + A)) + t * (l * l - 3 * x1 - t))"
proof -
  have "(l * t + y1) * (l * t + y1) - (((x1 + t) * (x1 + t) + A) * (x1 + t) + B) =
      l * l * t * t + l * t * y1 + l * t * y1 + ((x1 * x1 + A) * x1 + B) - (((x1 + t) * (x1 + t) + A) * (x1 + t) + B)"
    unfolding assms [symmetric] by (simp add: algebra_simps)
  also have "\<dots> = t * ((l * (y1 + y1) - (3 * (x1 * x1) + A)) + t * (l * l - 3 * x1 - t))"
    by (simp add: algebra_simps)
  finally show ?thesis .
qed

lemma third_point_shift:
  "third_point l x1 y1 x2 = Aff (x1 + (l * l - x1 - x1 - x2)) (- (l * (l * l - x1 - x1 - x2) + y1))"
  by (simp add: third_point_def Let_def algebra_simps)

lemma tangent_on_curve:
  assumes P: "on_curve A B (Aff x y)" and l: "l * (y + y) = 3 * (x * x) + A"
  shows "on_curve A B (third_point l x y x)"
proof -
  define t where "t = l * l - x - x - x"
  have 0: "t * ((l * (y + y) - (3 * (x * x) + A)) + t * (l * l - 3 * x - t)) = 0"
    unfolding l by (simp add: t_def algebra_simps)
  have "y * y = (x * x + A) * x + B" using P by simp
  from line_cubic [OF this, of l t] have
    "(l * t + y) * (l * t + y) = ((x + t) * (x + t) + A) * (x + t) + B"
    unfolding 0 by (simp only: right_minus_eq)
  then show ?thesis unfolding third_point_shift t_def [symmetric]
    by (simp only: on_curve.simps minus_mult_minus)
qed

lemma chord_on_curve:
  assumes P: "on_curve A B (Aff x1 y1)" and Q: "on_curve A B (Aff x2 y2)"
    and l: "l * (x2 - x1) = y2 - y1" and d: "(x2 - x1) * i = 1"
  shows "on_curve A B (third_point l x1 y1 x2)"
proof -
  define e where "e = l * (y1 + y1) - (3 * (x1 * x1) + A)"
  define D where "D = x2 - x1"
  define t where "t = l * l - x1 - x1 - x2"
  have t: "t = l * l - 3 * x1 - D" by (simp add: t_def D_def algebra_simps)
  have P': "y1 * y1 = (x1 * x1 + A) * x1 + B" using P by simp
  have y2: "l * D + y1 = y2" using l by (simp add: D_def)
  have x2: "x1 + D = x2" by (simp add: D_def)
  have "D * (e + D * (l * l - 3 * x1 - D)) = 0"
    using line_cubic [OF P', of l D, folded e_def] Q unfolding y2 x2 by simp
  then have "i * D * (e + D * t) = 0" unfolding t by (simp add: mult.assoc)
  then have e: "e + D * t = 0" using d by (simp add: D_def mult.commute)
  have "t * (e + t * (l * l - 3 * x1 - t)) = t * (e + D * t)"
    by (simp add: t algebra_simps)
  then have "t * (e + t * (l * l - 3 * x1 - t)) = 0" unfolding e by simp
  then have "(l * t + y1) * (l * t + y1) = ((x1 + t) * (x1 + t) + A) * (x1 + t) + B"
    using line_cubic [OF P', of l t, folded e_def] by (simp only: right_minus_eq)
  then show ?thesis unfolding third_point_shift t_def [symmetric]
    by (simp only: on_curve.simps minus_mult_minus)
qed

lemma ec_sum_commute:
  assumes "ec_sum A P Q R"
  shows "ec_sum A Q P R"
proof (cases P)
  case Inf
  then show ?thesis using assms by (cases Q) auto
next
  fix x1 y1
  assume P: "P = Aff x1 y1"
  show ?thesis
  proof (cases Q)
    case Inf
    then show ?thesis using assms P by auto
  next
    fix x2 y2
    assume Q: "Q = Aff x2 y2"
    show ?thesis
    proof (cases "x1 = x2")
      case True
      then show ?thesis using assms P Q by (auto split: if_splits)
    next
      case False
      then obtain l where l: "l * (x2 - x1) = y2 - y1" "R = third_point l x1 y1 x2" using assms P Q by auto
      have "l * (x1 - x2) = - (l * (x2 - x1))" by (simp add: algebra_simps)
      then have l': "l * (x1 - x2) = y1 - y2" unfolding l(1) by simp
      have "(x1 - x3) * l - y1 = (x2 - x3) * l - y2" for x3
      proof -
        have "(x1 - x3) * l - y1 = l * (x1 - x2) + (x2 - x3) * l - y1" by (simp add: algebra_simps)
        then show ?thesis unfolding l' by simp
      qed
      then have "third_point l x1 y1 x2 = third_point l x2 y2 x1"
        by (simp add: third_point_def Let_def algebra_simps)
      then show ?thesis using l(2) l' False P Q by auto
    qed
  qed
qed

section \<open>The operations\<close>

definition pt_val :: "('a \<Rightarrow> 'k) \<Rightarrow> 'a point \<Rightarrow> 'k ec" where
  "pt_val \<alpha> p = (if inf_flag p \<noteq> 0 then Inf else Aff (\<alpha> (pt_x p)) (\<alpha> (pt_y p)))"

text \<open>The well-formed points: a flag that is 0 or 1, and coordinates of the field on the curve.\<close>

definition curve_points :: "'a curve_data \<Rightarrow> 'a set \<Rightarrow> ('a \<Rightarrow> 'k::comm_ring_1) \<Rightarrow> 'a point set" where
  "curve_points cdp V \<alpha> = {p. inf_flag p \<in> {0, 1} \<and> pt_x p \<in> V \<and> pt_y p \<in> V \<and>
     on_curve (\<alpha> (cv_a cdp)) (\<alpha> (cv_b cdp)) (pt_val \<alpha> p)}"

locale curve_field = field_impl "cv_field cdp" V \<alpha>
  for cdp :: "'a curve_data" and V :: "'a set" and \<alpha> :: "'a \<Rightarrow> 'k::comm_ring_1" +
  assumes a_in: "cv_a cdp \<in> V" and b_in: "cv_b cdp \<in> V" and char_not_2: "(2::'k) \<noteq> 0"
begin

abbreviation A :: 'k where "A \<equiv> \<alpha> (cv_a cdp)"
abbreviation B :: 'k where "B \<equiv> \<alpha> (cv_b cdp)"

abbreviation ec_val :: "'a point \<Rightarrow> 'k ec" where "ec_val \<equiv> pt_val \<alpha>"
abbreviation points :: "'a point set" where "points \<equiv> curve_points cdp V \<alpha>"

lemmas ec_val_def = pt_val_def [where \<alpha> = \<alpha>]
lemmas points_def = curve_points_def [where cdp = cdp and V = V and \<alpha> = \<alpha>]

lemma pointsI:
  "x \<in> V \<Longrightarrow> y \<in> V \<Longrightarrow> on_curve A B (Aff (\<alpha> x) (\<alpha> y)) \<Longrightarrow> \<lparr> inf_flag = 0, pt_x = x, pt_y = y \<rparr> \<in> points"
  by (simp add: points_def ec_val_def)

lemma points_coord: "p \<in> points \<Longrightarrow> pt_x p \<in> V" "p \<in> points \<Longrightarrow> pt_y p \<in> V"
  by (simp_all add: points_def)

lemma inf_point [simp]:
  "p \<in> points \<Longrightarrow> p\<lparr> inf_flag := 1 \<rparr> \<in> points" "ec_val (p\<lparr> inf_flag := 1 \<rparr>) = Inf"
  by (simp_all add: points_def ec_val_def)

lemma aff_val: "ec_val \<lparr> inf_flag = 0, pt_x = x, pt_y = y \<rparr> = Aff (\<alpha> x) (\<alpha> y)"
  by (simp add: ec_val_def)

lemma curve_rhs_ok:
  assumes "t \<in> V" "x \<in> V"
  shows "curve_rhs (cv_field cdp) t x (cv_a cdp) (cv_b cdp) \<in> V"
    and "\<alpha> (curve_rhs (cv_field cdp) t x (cv_a cdp) (cv_b cdp)) = (\<alpha> x * \<alpha> x + A) * \<alpha> x + B"
  using assms a_in b_in by (simp_all add: curve_rhs_def Let_def impl_law)

lemma curve_is_valid_point_ok:
  assumes "pt_x p \<in> V" "pt_y p \<in> V"
  shows "curve_is_valid_point cdp p \<noteq> 0 \<longleftrightarrow> on_curve A B (ec_val p)"
  using assms a_in b_in by (auto simp: curve_is_valid_point_def Let_def ec_val_def impl_law)

lemma points_iff: "p \<in> points \<longleftrightarrow>
    inf_flag p \<in> {0, 1} \<and> pt_x p \<in> V \<and> pt_y p \<in> V \<and> curve_is_valid_point cdp p \<noteq> 0"
  using curve_is_valid_point_ok [of p] by (auto simp: points_def)

lemma curve_init_ok [simp]: "curve_init cdp \<in> points" "ec_val (curve_init cdp) = Inf"
  by (simp_all add: curve_init_def points_def ec_val_def)

lemma curve_set_ok:
  assumes "r \<in> points" "p \<in> points"
  shows "curve_set cdp r p \<in> points" and "ec_val (curve_set cdp r p) = ec_val p"
  using assms by (auto simp: curve_set_def points_def ec_val_def impl_law)

lemma curve_invert_ok:
  assumes "r \<in> points" "p \<in> points"
  shows "curve_invert cdp r p \<in> points" and "ec_val (curve_invert cdp r p) = ec_neg (ec_val p)"
  using assms by (auto simp: curve_invert_def points_def ec_val_def impl_law)

lemma double_nonzero:
  assumes "y \<in> V" "\<alpha> y \<noteq> 0"
  shows "\<alpha> y + \<alpha> y \<noteq> 0"
proof
  assume "\<alpha> y + \<alpha> y = 0"
  then have "2 * (\<alpha> y * \<alpha> (element_invert (cv_field cdp) y y)) = 0"
    by (metis mult.assoc mult_2 mult_zero_left)
  then show False using invert [OF assms(1,1,2)] char_not_2 by simp
qed

lemma double_no_check_ok:
  assumes r: "r \<in> points" and p: "p \<in> points" "inf_flag p = 0" "\<alpha> (pt_y p) \<noteq> 0"
  shows "double_no_check (cv_field cdp) r p (cv_a cdp) \<in> points"
    and "ec_sum A (ec_val p) (ec_val p) (ec_val (double_no_check (cv_field cdp) r p (cv_a cdp)))"
proof -
  let ?f = "cv_field cdp"
  note pV = points_coord [OF p(1)] points_coord [OF r]
  define d where "d = element_double ?f (element_init ?f) (pt_y p)"
  define i where "i = element_invert ?f d d"
  have d: "d \<in> V" "\<alpha> d = \<alpha> (pt_y p) + \<alpha> (pt_y p)" unfolding d_def by (simp_all only: double_in double init_in pV)
  have "\<alpha> d \<noteq> 0" using double_nonzero [OF pV(2) p(3)] d(2) by simp
  then have i: "i \<in> V" "\<alpha> d * \<alpha> i = 1" unfolding i_def using d(1) by (simp_all add: impl_law)
  define l where "l = (\<alpha> (pt_x p) * \<alpha> (pt_x p) * 3 + A) * \<alpha> i"
  have slope: "l * (\<alpha> (pt_y p) + \<alpha> (pt_y p)) = 3 * (\<alpha> (pt_x p) * \<alpha> (pt_x p)) + A"
  proof -
    have "l * \<alpha> d = (\<alpha> (pt_x p) * \<alpha> (pt_x p) * 3 + A) * (\<alpha> d * \<alpha> i)" unfolding l_def by (simp only: ac_simps)
    then show ?thesis unfolding i(2) unfolding d(2) by (simp add: mult.commute)
  qed
  let ?q = "double_no_check ?f r p (cv_a cdp)"
  have q: "inf_flag ?q = 0" "pt_x ?q \<in> V" "pt_y ?q \<in> V"
    "Aff (\<alpha> (pt_x ?q)) (\<alpha> (pt_y ?q)) = third_point l (\<alpha> (pt_x p)) (\<alpha> (pt_y p)) (\<alpha> (pt_x p))"
    unfolding double_no_check_def Let_def d_def [symmetric] i_def [symmetric] third_point_def
    using pV i(1) a_in by (simp_all add: impl_law l_def algebra_simps)
  have P: "ec_val p = Aff (\<alpha> (pt_x p)) (\<alpha> (pt_y p))" using p(2) by (simp add: ec_val_def)
  have val: "ec_val ?q = third_point l (\<alpha> (pt_x p)) (\<alpha> (pt_y p)) (\<alpha> (pt_x p))"
    using q(1,4) by (simp add: ec_val_def)
  have "on_curve A B (Aff (\<alpha> (pt_x p)) (\<alpha> (pt_y p)))" using p(1) unfolding points_def P [symmetric] by simp
  from tangent_on_curve [OF this slope] show "?q \<in> points" using q val by (simp add: points_def)
  show "ec_sum A (ec_val p) (ec_val p) (ec_val ?q)" unfolding P val using slope p(3) by auto
qed

lemma curve_double_ok:
  assumes "r \<in> points" "p \<in> points"
  shows "curve_double cdp r p \<in> points" and "ec_sum A (ec_val p) (ec_val p) (ec_val (curve_double cdp r p))"
proof -
  have "curve_double cdp r p \<in> points \<and> ec_sum A (ec_val p) (ec_val p) (ec_val (curve_double cdp r p))"
  proof (cases "inf_flag p \<noteq> 0 \<or> \<alpha> (pt_y p) = 0")
    case True
    then have "curve_double cdp r p = r\<lparr> inf_flag := 1 \<rparr>"
      using is0 [OF points_coord(2) [OF assms(2)]] by (auto simp: curve_double_def)
    then show ?thesis using True assms by (auto simp: ec_val_def points_def)
  next
    case False
    then have "curve_double cdp r p = double_no_check (cv_field cdp) r p (cv_a cdp)"
      using is0 [OF points_coord(2) [OF assms(2)]] by (auto simp: curve_double_def)
    with double_no_check_ok [OF assms] False show ?thesis by simp
  qed
  then show "curve_double cdp r p \<in> points" "ec_sum A (ec_val p) (ec_val p) (ec_val (curve_double cdp r p))"
    by simp_all
qed

lemma curve_chord_ok:
  assumes r: "r \<in> points" and p: "p \<in> points" "inf_flag p = 0" and q: "q \<in> points" "inf_flag q = 0"
    and ne: "\<alpha> (pt_x p) \<noteq> \<alpha> (pt_x q)"
  shows "curve_chord (cv_field cdp) r p q \<in> points"
    and "ec_sum A (ec_val p) (ec_val q) (ec_val (curve_chord (cv_field cdp) r p q))"
proof -
  let ?f = "cv_field cdp"
  note V = points_coord [OF p(1)] points_coord [OF q(1)] points_coord [OF r]
  define d where "d = element_sub ?f (element_init ?f) (pt_x q) (pt_x p)"
  define i where "i = element_invert ?f d d"
  have d: "d \<in> V" "\<alpha> d = \<alpha> (pt_x q) - \<alpha> (pt_x p)" using V by (simp_all add: d_def impl_law)
  have "\<alpha> d \<noteq> 0" unfolding d(2) using ne by simp
  then have i: "i \<in> V" "\<alpha> d * \<alpha> i = 1" unfolding i_def using invert_in [OF d(1) d(1)] invert [OF d(1) d(1)] by blast+
  define l where "l = (\<alpha> (pt_y q) - \<alpha> (pt_y p)) * \<alpha> i"
  have slope: "l * (\<alpha> (pt_x q) - \<alpha> (pt_x p)) = \<alpha> (pt_y q) - \<alpha> (pt_y p)"
  proof -
    have "l * \<alpha> d = (\<alpha> (pt_y q) - \<alpha> (pt_y p)) * (\<alpha> d * \<alpha> i)" unfolding l_def by (simp only: ac_simps)
    then show ?thesis unfolding i(2) unfolding d(2) by simp
  qed
  let ?q = "curve_chord ?f r p q"
  have res: "inf_flag ?q = 0" "pt_x ?q \<in> V" "pt_y ?q \<in> V"
    "Aff (\<alpha> (pt_x ?q)) (\<alpha> (pt_y ?q)) = third_point l (\<alpha> (pt_x p)) (\<alpha> (pt_y p)) (\<alpha> (pt_x q))"
    unfolding curve_chord_def Let_def d_def [symmetric] i_def [symmetric] third_point_def
    using V i(1) by (simp_all add: impl_law l_def)
  have P: "ec_val p = Aff (\<alpha> (pt_x p)) (\<alpha> (pt_y p))" "ec_val q = Aff (\<alpha> (pt_x q)) (\<alpha> (pt_y q))"
    using p(2) q(2) by (simp_all add: ec_val_def)
  have val: "ec_val ?q = third_point l (\<alpha> (pt_x p)) (\<alpha> (pt_y p)) (\<alpha> (pt_x q))"
    using res(1,4) by (simp add: ec_val_def)
  have "on_curve A B (Aff (\<alpha> (pt_x p)) (\<alpha> (pt_y p)))" "on_curve A B (Aff (\<alpha> (pt_x q)) (\<alpha> (pt_y q)))"
    using p(1) q(1) unfolding points_def P [symmetric] by simp_all
  from chord_on_curve [OF this slope i(2) [unfolded d(2)]] show "?q \<in> points"
    using res val by (simp add: points_def)
  show "ec_sum A (ec_val p) (ec_val q) (ec_val ?q)" unfolding P val using slope ne by auto
qed

lemma curve_mul_ok:
  assumes "r \<in> points" "p \<in> points" "q \<in> points"
  shows "curve_mul cdp r p q \<in> points" and "ec_sum A (ec_val p) (ec_val q) (ec_val (curve_mul cdp r p q))"
proof -
  note V = points_coord [OF assms(2)] points_coord [OF assms(3)]
  note cx = cmp [OF V(1,3)] and cy = cmp [OF V(2,4)] and y0 = is0 [OF V(2)]
  consider (p_inf) "inf_flag p \<noteq> 0" | (q_inf) "inf_flag p = 0" "inf_flag q \<noteq> 0"
    | (double) "inf_flag p = 0" "inf_flag q = 0" "\<alpha> (pt_x p) = \<alpha> (pt_x q)" "\<alpha> (pt_y p) = \<alpha> (pt_y q)" "\<alpha> (pt_y p) \<noteq> 0"
    | (inverse) "inf_flag p = 0" "inf_flag q = 0" "\<alpha> (pt_x p) = \<alpha> (pt_x q)" "\<alpha> (pt_y p) \<noteq> \<alpha> (pt_y q) \<or> \<alpha> (pt_y p) = 0"
    | (chord) "inf_flag p = 0" "inf_flag q = 0" "\<alpha> (pt_x p) \<noteq> \<alpha> (pt_x q)"
    by blast
  then have "curve_mul cdp r p q \<in> points \<and> ec_sum A (ec_val p) (ec_val q) (ec_val (curve_mul cdp r p q))"
  proof cases
    case p_inf
    then have "ec_val p = Inf" by (simp add: ec_val_def)
    with p_inf curve_set_ok [OF assms(1,3)] show ?thesis by (simp add: curve_mul_def)
  next
    case q_inf
    then have "ec_val q = Inf" "ec_val p = Aff (\<alpha> (pt_x p)) (\<alpha> (pt_y p))" by (simp_all add: ec_val_def)
    with q_inf curve_set_ok [OF assms(1,2)] show ?thesis by (simp add: curve_mul_def)
  next
    case double
    then have "curve_mul cdp r p q = double_no_check (cv_field cdp) r p (cv_a cdp)" "ec_val q = ec_val p"
      using cx cy y0 by (simp_all add: curve_mul_def ec_val_def)
    with double_no_check_ok [OF assms(1,2) double(1,5)] show ?thesis by simp
  next
    case inverse
    then have "curve_mul cdp r p q = r\<lparr> inf_flag := 1 \<rparr>" using cx cy y0 by (auto simp: curve_mul_def)
    then show ?thesis using inverse assms(1) by (auto simp: ec_val_def points_def)
  next
    case chord
    then have "curve_mul cdp r p q = curve_chord (cv_field cdp) r p q" using cx by (simp add: curve_mul_def)
    with curve_chord_ok [OF assms(1,2) chord(1) assms(3) chord(2,3)] show ?thesis by simp
  qed
  then show "curve_mul cdp r p q \<in> points" "ec_sum A (ec_val p) (ec_val q) (ec_val (curve_mul cdp r p q))"
    by simp_all
qed

end

end
