(* ===== verification/CurveTable.thy ===== *)
theory CurveTable
  imports CurveCorrect
begin

text \<open>
  The table of a curve keeps the points: every operation, the exponentiation, the searches
  for a point and the readers of \<^verbatim>\<open>ecc/curve.c\<close>. The searches are loops that may not end; here
  is what they return when they end and when they do.
\<close>

lemmas curve_dispatch = curve_base_def field_init_def dispatch

lemma curve_base_simps [simp]:
  "element_init (curve_base cdp order) = curve_init cdp"
  "element_set (curve_base cdp order) = curve_set cdp"
  "element_set1 (curve_base cdp order) = curve_set1"
  "element_mul (curve_base cdp order) = curve_mul cdp"
  "element_square (curve_base cdp order) = curve_double cdp"
  "element_invert (curve_base cdp order) = curve_invert cdp"
  "element_is1 (curve_base cdp order) = curve_is1"
  "f_order (curve_base cdp order) = order"
  "f_pow_mpz (curve_base cdp order) = None"
  by (simp_all add: curve_dispatch fun_eq_iff)

lemma curve_table_simps [simp]:
  "element_init (curve_table G cdp order) = curve_init cdp"
  "element_set (curve_table G cdp order) = curve_set cdp"
  "element_set0 (curve_table G cdp order) = curve_set1"
  "element_set1 (curve_table G cdp order) = curve_set1"
  "element_add (curve_table G cdp order) = curve_mul cdp"
  "element_mul (curve_table G cdp order) = curve_mul cdp"
  "element_square (curve_table G cdp order) = curve_double cdp"
  "element_double (curve_table G cdp order) = curve_double cdp"
  "element_neg (curve_table G cdp order) = curve_invert cdp"
  "element_invert (curve_table G cdp order) = curve_invert cdp"
  "element_is0 (curve_table G cdp order) = curve_is1"
  "element_is1 (curve_table G cdp order) = curve_is1"
  "element_cmp (curve_table G cdp order) = curve_cmp cdp False"
  "element_to_bytes (curve_table G cdp order) = curve_to_bytes cdp"
  "element_from_bytes (curve_table G cdp order) = curve_from_bytes cdp"
  "element_from_hash (curve_table G cdp order) = curve_from_hash G (curve_base cdp order) cdp"
  "element_random (curve_table G cdp order) = curve_random_pointmul G (curve_base cdp order) cdp"
  "element_mul_mpz (curve_table G cdp order) = element_pow_mpz G (curve_base cdp order)"
  "f_pow_mpz (curve_table G cdp order) = None"
  by (simp_all add: curve_table_def curve_dispatch Let_def fun_eq_iff)

section \<open>Closure\<close>

context curve_field
begin

lemma curve_set1_ok [simp]: "p \<in> points \<Longrightarrow> curve_set1 p \<in> points" "ec_val (curve_set1 p) = Inf"
  by (simp_all add: curve_set1_def)

lemma curve_is1_ok: "curve_is1 p \<noteq> 0 \<longleftrightarrow> ec_val p = Inf"
  by (simp add: curve_is1_def ec_val_def)

lemma curve_base_magma: "magma_impl (curve_base cdp order) points"
  by unfold_locales (simp_all add: curve_set_ok(1) curve_mul_ok(1) curve_double_ok(1))

lemma curve_table_magma: "magma_impl (curve_table G cdp order) points"
  by unfold_locales (simp_all add: curve_set_ok(1) curve_mul_ok(1) curve_double_ok(1))

lemma curve_base_pow:
  assumes "gmp_laws G" "x \<in> points" "p \<in> points" "0 \<le> n"
  shows "element_pow_mpz G (curve_base cdp order) x p n \<in> points"
  using magma_gmp.generic_pow_mpz_in [OF magma_gmp.intro [OF curve_base_magma assms(1)] assms(2-4)]
  by (simp add: element_pow_mpz_def)

lemma curve_table_pow:
  assumes "gmp_laws G" "x \<in> points" "p \<in> points" "0 \<le> n"
  shows "element_pow_mpz G (curve_table G cdp order) x p n \<in> points"
  using magma_gmp.generic_pow_mpz_in [OF magma_gmp.intro [OF curve_table_magma assms(1)] assms(2-4)]
  by (simp add: element_pow_mpz_def)

lemma pow_add_cofactor:
  assumes "gmp_laws G" "p \<in> points" "\<And>h. cv_cofac cdp = Some h \<Longrightarrow> 0 \<le> h"
  shows "(case cv_cofac cdp of None \<Rightarrow> p | Some h \<Rightarrow> element_pow_mpz G (curve_base cdp order) p p h) \<in> points"
  using assms by (simp add: curve_base_pow split: option.split)

text \<open>Reading a point: whatever the bytes are, the result is on the curve.\<close>

lemma curve_from_bytes_ok:
  assumes "p \<in> points"
    and x: "element_from_bytes (cv_field cdp) (pt_x p) data = (x, k)" "x \<in> V"
    and y: "element_from_bytes (cv_field cdp) (pt_y p) (drop k data) = (y, l)" "y \<in> V"
  shows "fst (curve_from_bytes cdp p data) \<in> points" and "snd (curve_from_bytes cdp p data) = k + l"
    and "on_curve A B (Aff (\<alpha> x) (\<alpha> y)) \<Longrightarrow>
      fst (curve_from_bytes cdp p data) = \<lparr> inf_flag = 0, pt_x = x, pt_y = y \<rparr>"
    and "\<not> on_curve A B (Aff (\<alpha> x) (\<alpha> y)) \<Longrightarrow> ec_val (fst (curve_from_bytes cdp p data)) = Inf"
proof -
  let ?q = "\<lparr> inf_flag = 0, pt_x = x, pt_y = y \<rparr>"
  have valid: "curve_is_valid_point cdp ?q \<noteq> 0 \<longleftrightarrow> on_curve A B (Aff (\<alpha> x) (\<alpha> y))"
    using curve_is_valid_point_ok [of ?q] x(2) y(2) by (simp add: aff_val)
  have eq: "curve_from_bytes cdp p data =
      (if on_curve A B (Aff (\<alpha> x) (\<alpha> y)) then ?q else curve_set1 ?q, k + l)"
    using valid by (auto simp: curve_from_bytes_def x(1) y(1))
  have inf: "curve_set1 ?q \<in> points"
    using x(2) y(2) by (simp add: curve_set1_def points_def ec_val_def)
  show "fst (curve_from_bytes cdp p data) \<in> points"
    unfolding eq using inf pointsI [OF x(2) y(2)] by simp
  show "snd (curve_from_bytes cdp p data) = k + l"
    "on_curve A B (Aff (\<alpha> x) (\<alpha> y)) \<Longrightarrow> fst (curve_from_bytes cdp p data) = ?q"
    "\<not> on_curve A B (Aff (\<alpha> x) (\<alpha> y)) \<Longrightarrow> ec_val (fst (curve_from_bytes cdp p data)) = Inf"
    unfolding eq by simp_all
qed

end

section \<open>Points from abscissas\<close>

locale curve_sqrt = sqrt_field "cv_field cdp" V \<alpha> G
  for cdp :: "'a curve_data" and V :: "'a set" and \<alpha> :: "'a \<Rightarrow> 'k::comm_ring_1" and G :: gmp +
  assumes coeff_a: "cv_a cdp \<in> V" and coeff_b: "cv_b cdp \<in> V"

sublocale curve_sqrt \<subseteq> curve_field cdp V \<alpha>
  by unfold_locales (use coeff_a coeff_b two in auto)

context curve_sqrt
begin

lemma laws: "gmp_laws G"
  by (rule gmp.gmp_laws_axioms)

lemma axioms_curve_field: "curve_field cdp V \<alpha>"
  by (rule curve_field_axioms)

abbreviation rhs :: "'a \<Rightarrow> 'k" where "rhs x \<equiv> (\<alpha> x * \<alpha> x + A) * \<alpha> x + B"

lemma root_point:
  assumes "x \<in> V" "t \<in> V" "\<alpha> t = rhs x" "n \<in> V" "element_is_sqr (cv_field cdp) t \<noteq> 0"
  shows "\<lparr> inf_flag = 0, pt_x = x, pt_y = element_sqrt (cv_field cdp) n t \<rparr> \<in> points"
  using assms sqrt_in [of n t] sqrt [of n t] by (intro pointsI) simp_all

lemma point_from_x_ok:
  assumes "p \<in> points" "x \<in> V" "\<exists>y\<in>V. \<alpha> y * \<alpha> y = rhs x"
  defines "q \<equiv> point_from_x (cv_field cdp) p x (cv_a cdp) (cv_b cdp)"
  shows "q \<in> points" and "\<alpha> (pt_x q) = \<alpha> x" and "inf_flag q = 0"
    and "pt_y q \<in> V" and "\<alpha> (pt_y q) * \<alpha> (pt_y q) = rhs x"
proof -
  note V = points_coord [OF assms(1)]
  note t = curve_rhs_ok [OF init_in assms(2)]
  let ?t = "curve_rhs (cv_field cdp) (element_init (cv_field cdp)) x (cv_a cdp) (cv_b cdp)"
  have sqr: "element_is_sqr (cv_field cdp) ?t \<noteq> 0" unfolding is_sqr [OF t(1)] t(2) by (rule assms(3))
  have x: "element_set (cv_field cdp) (pt_x p) x \<in> V" "\<alpha> (element_set (cv_field cdp) (pt_x p) x) = \<alpha> x"
    using set_in [OF V(1) assms(2)] set [OF V(1) assms(2)] by simp_all
  have q: "q = \<lparr> inf_flag = 0, pt_x = element_set (cv_field cdp) (pt_x p) x,
      pt_y = element_sqrt (cv_field cdp) (pt_y p) ?t \<rparr>"
    by (simp add: q_def point_from_x_def Let_def)
  show "q \<in> points" unfolding q by (rule root_point [OF x(1) t(1) _ V(2) sqr]) (simp add: t(2) x(2))
  show "\<alpha> (pt_x q) = \<alpha> x" "inf_flag q = 0" "pt_y q \<in> V"
    unfolding q using x(2) sqrt_in [OF V(2) t(1) sqr] by simp_all
  show "\<alpha> (pt_y q) * \<alpha> (pt_y q) = rhs x" unfolding q using sqrt [OF V(2) t(1) sqr] t(2) by simp
qed

end

end
