(* ===== verification/CurveSearch.thy ===== *)
theory CurveSearch
  imports CurveTable
begin

text \<open>
  The searches for a point of \<^verbatim>\<open>ecc/curve.c\<close>. The random one returns at the first draw that is
  an abscissa of the curve. The one of \<open>curve_from_hash\<close> counts the first byte of the data up
  and returns exactly when one of its 256 values gives an abscissa; otherwise it never ends.
\<close>

text \<open>The \<open>n\<close>-th draw from the base field, with the count of draws made after it.\<close>

fun draws :: "'a field_s \<Rightarrow> entropy \<Rightarrow> nat \<Rightarrow> 'a \<Rightarrow> nat \<Rightarrow> 'a \<times> nat" where
  "draws F R c x 0 = element_random F R c x"
| "draws F R c x (Suc n) = draws F R (snd (element_random F R c x)) (fst (element_random F R c x)) n"

text \<open>The data after \<open>k\<close> increments of its first byte.\<close>

definition bump :: "nat \<Rightarrow> byte list \<Rightarrow> byte list" where
  "bump k data = (hd data + of_nat k) # tl data"

lemma bump_0: "data \<noteq> [] \<Longrightarrow> bump 0 data = data"
  by (simp add: bump_def)

lemma bump_Suc: "(hd (bump k data) + 1) # tl (bump k data) = bump (Suc k) data"
  by (simp add: bump_def ac_simps)

lemma bump_nonempty [simp]: "bump k data \<noteq> []"
  by (simp add: bump_def)

lemma bump_mod: "bump (k mod 256) data = bump k data"
proof -
  have "(of_nat (k mod 256) :: byte) = of_nat k"
    by (rule word_of_nat_eq_iff [THEN iffD2]) (simp add: take_bit_eq_mod)
  then show ?thesis by (simp add: bump_def)
qed

text \<open>The induction rules of the two loops over their arguments.\<close>

lemmas solvefory_loop_induct = solvefory_loop.raw_induct
  [where xa = "((((cdp, R), c), x), t)" for cdp R c x t, unfolded prod.case]

lemmas hash_loop_induct = curve_hash_loop.raw_induct
  [where xa = "(((cdp, data), x), t)" for cdp data x t, unfolded prod.case]

text \<open>The abscissas of the points of the curve.\<close>

definition curve_abscissa :: "'a curve_data \<Rightarrow> 'a set \<Rightarrow> ('a \<Rightarrow> 'k::comm_ring_1) \<Rightarrow> 'a \<Rightarrow> bool" where
  "curve_abscissa cdp V \<alpha> x \<longleftrightarrow>
     (\<exists>y\<in>V. \<alpha> y * \<alpha> y = (\<alpha> x * \<alpha> x + \<alpha> (cv_a cdp)) * \<alpha> x + \<alpha> (cv_b cdp))"

text \<open>
  The hash of the base field is given as a function \<open>H\<close> of the data, on the 256 strings the
  search of \<open>curve_from_hash\<close> can try.
\<close>

definition field_hash :: "'a field_s \<Rightarrow> 'a set \<Rightarrow> byte list \<Rightarrow> (byte list \<Rightarrow> 'a) \<Rightarrow> bool" where
  "field_hash F V data H \<longleftrightarrow> data \<noteq> [] \<and>
     (\<forall>k. \<forall>x\<in>V. element_from_hash F x (bump k data) = Some (H (bump k data))) \<and>
     (\<forall>k. H (bump k data) \<in> V)"

context curve_sqrt
begin

abbreviation has_point :: "'a \<Rightarrow> bool" where "has_point \<equiv> curve_abscissa cdp V \<alpha>"

lemma has_point_def: "has_point x \<longleftrightarrow> (\<exists>y\<in>V. \<alpha> y * \<alpha> y = rhs x)"
  by (simp add: curve_abscissa_def)

lemma rhs_is_sqr:
  assumes "t \<in> V" "x \<in> V"
  shows "element_is_sqr (cv_field cdp) (curve_rhs (cv_field cdp) t x (cv_a cdp) (cv_b cdp)) \<noteq> 0 \<longleftrightarrow> has_point x"
  unfolding is_sqr [OF curve_rhs_ok(1) [OF assms]] curve_rhs_ok(2) [OF assms] has_point_def ..

section \<open>Random points\<close>

lemma solvefory_loop_step:
  assumes "x \<in> V" "t \<in> V" "fst (element_random (cv_field cdp) R c x) \<in> V"
  shows "solvefory_loop cdp R c x t = (
    let (x', c') = element_random (cv_field cdp) R c x;
        t' = curve_rhs (cv_field cdp) t x' (cv_a cdp) (cv_b cdp)
    in if has_point x' then Some (x', t', c') else solvefory_loop cdp R c' x' t')"
proof -
  obtain x' c' where e: "element_random (cv_field cdp) R c x = (x', c')" by fastforce
  then have "x' \<in> V" using assms(3) by simp
  from rhs_is_sqr [OF assms(2) this] show ?thesis
    by (subst solvefory_loop.simps) (auto simp: e Let_def)
qed

lemma solvefory_loop_first:
  assumes random: "\<And>c x. x \<in> V \<Longrightarrow> fst (element_random (cv_field cdp) R c x) \<in> V"
    and "x \<in> V" "t \<in> V"
    and "\<forall>j<n. \<not> has_point (fst (draws (cv_field cdp) R c x j))"
    and "has_point (fst (draws (cv_field cdp) R c x n))"
  shows "\<exists>x' t'. solvefory_loop cdp R c x t = Some (x', t', snd (draws (cv_field cdp) R c x n)) \<and>
    x' = fst (draws (cv_field cdp) R c x n) \<and> x' \<in> V \<and> t' \<in> V \<and> \<alpha> t' = rhs x'"
  using assms(2-5)
proof (induction n arbitrary: x c t)
  case 0
  obtain x' c' where e: "element_random (cv_field cdp) R c x = (x', c')" by fastforce
  then have x': "x' \<in> V" using random [OF \<open>x \<in> V\<close>, of c] by simp
  show ?case
    using 0(4) solvefory_loop_step [OF 0(1,2) random [OF 0(1)]] curve_rhs_ok [OF 0(2) x'] x'
    by (simp add: e Let_def)
next
  case (Suc n)
  obtain x' c' where e: "element_random (cv_field cdp) R c x = (x', c')" by fastforce
  then have x': "x' \<in> V" using random [OF \<open>x \<in> V\<close>, of c] by simp
  have no: "\<not> has_point x'" using Suc.prems(3) e by (metis draws.simps(1) fst_conv zero_less_Suc)
  have rest: "\<forall>j<n. \<not> has_point (fst (draws (cv_field cdp) R c' x' j))"
    using Suc.prems(3) e by (metis Suc_less_eq draws.simps(2) fst_conv snd_conv)
  have last: "has_point (fst (draws (cv_field cdp) R c' x' n))" using Suc.prems(4) e by simp
  show ?case
    using Suc.IH [OF x' curve_rhs_ok(1) [OF Suc.prems(2) x'] rest last]
      solvefory_loop_step [OF Suc.prems(1,2) random [OF Suc.prems(1)]] no
    by (simp add: e Let_def)
qed

lemma random_solvefory_first:
  assumes random: "\<And>c x. x \<in> V \<Longrightarrow> fst (element_random (cv_field cdp) R c x) \<in> V"
    and p: "p \<in> points"
    and "\<forall>j<n. \<not> has_point (fst (draws (cv_field cdp) R c (pt_x p) j))"
    and "has_point (fst (draws (cv_field cdp) R c (pt_x p) n))"
  shows "\<exists>q. curve_random_no_cofac_solvefory cdp R c p = Some (q, snd (draws (cv_field cdp) R c (pt_x p) n)) \<and>
    q \<in> points \<and> inf_flag q = 0 \<and> pt_x q = fst (draws (cv_field cdp) R c (pt_x p) n)"
proof -
  note V = points_coord [OF p]
  obtain x t where loop: "solvefory_loop cdp R c (pt_x p) (element_init (cv_field cdp)) =
      Some (x, t, snd (draws (cv_field cdp) R c (pt_x p) n))"
    and x: "x = fst (draws (cv_field cdp) R c (pt_x p) n)" "x \<in> V" "t \<in> V" "\<alpha> t = rhs x"
    using solvefory_loop_first [OF random V(1) init_in assms(3,4)] by blast
  have "element_is_sqr (cv_field cdp) t \<noteq> 0"
    using assms(4) unfolding is_sqr [OF x(3)] x(4) has_point_def x(1) .
  from root_point [OF x(2,3,4) V(2) this] show ?thesis
    by (simp add: curve_random_no_cofac_solvefory_def loop x(1))
qed

text \<open>Without any assumption on the source: whatever the search returns is on the curve.\<close>

lemma solvefory_loop_sound:
  assumes random: "\<And>c x. x \<in> V \<Longrightarrow> fst (element_random (cv_field cdp) R c x) \<in> V"
    and "solvefory_loop cdp R c x t = Some r" "x \<in> V" "t \<in> V"
  shows "fst r \<in> V \<and> fst (snd r) \<in> V \<and> \<alpha> (fst (snd r)) = rhs (fst r) \<and> has_point (fst r)"
proof -
  have "cdp = cdp \<longrightarrow> R = R \<longrightarrow> x \<in> V \<longrightarrow> t \<in> V \<longrightarrow>
    fst r \<in> V \<and> fst (snd r) \<in> V \<and> \<alpha> (fst (snd r)) = rhs (fst r) \<and> has_point (fst r)"
  proof (rule solvefory_loop_induct [where P = "\<lambda>cdp' R' c x t r. cdp' = cdp \<longrightarrow> R' = R \<longrightarrow> x \<in> V \<longrightarrow> t \<in> V \<longrightarrow>
      fst r \<in> V \<and> fst (snd r) \<in> V \<and> \<alpha> (fst (snd r)) = rhs (fst r) \<and> has_point (fst r)", OF _ assms(2)], intro impI)
    fix f :: "'a curve_data \<Rightarrow> entropy \<Rightarrow> nat \<Rightarrow> 'a \<Rightarrow> 'a \<Rightarrow> ('a \<times> 'a \<times> nat) option" and cdp' R' c x t r
    assume IH: "\<And>cdp' R' c x t r. f cdp' R' c x t = Some r \<Longrightarrow> cdp' = cdp \<longrightarrow> R' = R \<longrightarrow> x \<in> V \<longrightarrow> t \<in> V \<longrightarrow>
        fst r \<in> V \<and> fst (snd r) \<in> V \<and> \<alpha> (fst (snd r)) = rhs (fst r) \<and> has_point (fst r)"
      and eq: "(let (x, c) = element_random (cv_field cdp') R' c x;
           t = curve_rhs (cv_field cdp') t x (cv_a cdp') (cv_b cdp')
         in if element_is_sqr (cv_field cdp') t = 0 then f cdp' R' c x t else Some (x, t, c)) = Some r"
      and c: "cdp' = cdp" "R' = R" and V: "x \<in> V" "t \<in> V"
    obtain x' c' where e: "element_random (cv_field cdp) R c x = (x', c')" by fastforce
    then have x': "x' \<in> V" using random [OF V(1), of c] by simp
    note t' = curve_rhs_ok [OF V(2) x']
    show "fst r \<in> V \<and> fst (snd r) \<in> V \<and> \<alpha> (fst (snd r)) = rhs (fst r) \<and> has_point (fst r)"
    proof (cases "has_point x'")
      case True
      then show ?thesis using eq rhs_is_sqr [OF V(2) x'] x' t' by (auto simp: c e Let_def)
    next
      case False
      then have "f cdp R c' x' (curve_rhs (cv_field cdp) t x' (cv_a cdp) (cv_b cdp)) = Some r"
        using eq rhs_is_sqr [OF V(2) x'] by (simp add: c e Let_def)
      from IH [OF this] x' t'(1) show ?thesis by blast
    qed
  qed
  with assms(3,4) show ?thesis by blast
qed

lemma random_solvefory_sound:
  assumes random: "\<And>c x. x \<in> V \<Longrightarrow> fst (element_random (cv_field cdp) R c x) \<in> V"
    and p: "p \<in> points" and r: "curve_random_no_cofac_solvefory cdp R c p = Some (q, c')"
  shows "q \<in> points" and "inf_flag q = 0"
proof -
  note V = points_coord [OF p]
  obtain x t where loop: "solvefory_loop cdp R c (pt_x p) (element_init (cv_field cdp)) = Some (x, t, c')"
    and q: "q = \<lparr> inf_flag = 0, pt_x = x, pt_y = element_sqrt (cv_field cdp) (pt_y p) t \<rparr>"
    using r by (auto simp: curve_random_no_cofac_solvefory_def split: option.splits)
  from solvefory_loop_sound [OF random loop V(1) init_in]
  have x: "x \<in> V" "t \<in> V" "\<alpha> t = rhs x" "has_point x" by simp_all
  have "element_is_sqr (cv_field cdp) t \<noteq> 0" using x(4) unfolding is_sqr [OF x(2)] x(3) has_point_def .
  from root_point [OF x(1-3) V(2) this] show "q \<in> points" "inf_flag q = 0" unfolding q by simp_all
qed

section \<open>Hashing to the curve\<close>

abbreviation hash_of :: "byte list \<Rightarrow> (byte list \<Rightarrow> 'a) \<Rightarrow> bool" where
  "hash_of \<equiv> field_hash (cv_field cdp) V"

lemma hash_ofD:
  assumes "hash_of data H"
  shows "data \<noteq> []" and "H (bump k data) \<in> V"
    and "x \<in> V \<Longrightarrow> element_from_hash (cv_field cdp) x (bump k data) = Some (H (bump k data))"
  using assms by (auto simp: field_hash_def)

lemma hash_loop_step:
  fixes k :: nat
  assumes "hash_of data H" "x \<in> V" "t \<in> V"
  defines "x' \<equiv> H (bump k data)"
  defines "t' \<equiv> curve_rhs (cv_field cdp) t x' (cv_a cdp) (cv_b cdp)"
  shows "curve_hash_loop cdp (bump k data) x t =
    (if has_point x' then Some (x', t') else curve_hash_loop cdp (bump (Suc k) data) x' t')"
  using rhs_is_sqr [OF assms(3) hash_ofD(2) [OF assms(1), of k]]
  by (subst curve_hash_loop.simps)
     (simp add: hash_ofD(3) [OF assms(1,2)] x'_def t'_def Let_def bump_Suc)

lemma hash_loop_first:
  assumes H: "hash_of data H" and "x \<in> V" "t \<in> V"
    and "\<forall>j<n. \<not> has_point (H (bump (k + j) data))" and "has_point (H (bump (k + n) data))"
  shows "\<exists>t'. curve_hash_loop cdp (bump k data) x t = Some (H (bump (k + n) data), t') \<and> t' \<in> V \<and>
    \<alpha> t' = rhs (H (bump (k + n) data))"
  using assms(2-5)
proof (induction n arbitrary: k x t)
  case 0
  then show ?case using curve_rhs_ok [OF 0(2) hash_ofD(2) [OF H]] by (simp add: hash_loop_step [OF H])
next
  case (Suc n)
  have no: "\<not> has_point (H (bump k data))" using Suc.prems(3) by (metis add_0_right zero_less_Suc)
  have rest: "\<forall>j<n. \<not> has_point (H (bump (Suc k + j) data))" "has_point (H (bump (Suc k + n) data))"
    using Suc.prems(3,4) by auto
  note x' = hash_ofD(2) [OF H, of k]
  show ?case
    using Suc.IH [OF x' curve_rhs_ok(1) [OF Suc.prems(2) x'] rest] no
    by (simp add: hash_loop_step [OF H Suc.prems(1,2)])
qed

lemma hash_loop_sound:
  assumes H: "hash_of data H" and "curve_hash_loop cdp (bump k data) x t = Some r" "x \<in> V" "t \<in> V"
  shows "\<exists>k. has_point (H (bump k data))"
proof -
  have "cdp = cdp \<longrightarrow> (\<exists>j. bump k data = bump j data) \<longrightarrow> x \<in> V \<longrightarrow> t \<in> V \<longrightarrow> (\<exists>k. has_point (H (bump k data)))"
  proof (rule hash_loop_induct [where P = "\<lambda>cdp' d x t r. cdp' = cdp \<longrightarrow> (\<exists>j. d = bump j data) \<longrightarrow> x \<in> V \<longrightarrow> t \<in> V \<longrightarrow>
      (\<exists>k. has_point (H (bump k data)))", OF _ assms(2)], intro impI)
    fix f :: "'a curve_data \<Rightarrow> byte list \<Rightarrow> 'a \<Rightarrow> 'a \<Rightarrow> ('a \<times> 'a) option" and cdp' d x t r
    assume IH: "\<And>cdp' d x t r. f cdp' d x t = Some r \<Longrightarrow> cdp' = cdp \<longrightarrow> (\<exists>j. d = bump j data) \<longrightarrow> x \<in> V \<longrightarrow> t \<in> V \<longrightarrow>
        (\<exists>k. has_point (H (bump k data)))"
      and eq: "(case element_from_hash (cv_field cdp') x d of None \<Rightarrow> None
        | Some x \<Rightarrow>
            let t = curve_rhs (cv_field cdp') t x (cv_a cdp') (cv_b cdp')
            in if element_is_sqr (cv_field cdp') t \<noteq> 0 then Some (x, t)
               else if d = [] then None else f cdp' ((hd d + 1) # tl d) x t) = Some r"
      and c: "cdp' = cdp" and d: "\<exists>j. d = bump j data" and V: "x \<in> V" "t \<in> V"
    obtain j where j: "d = bump j data" using d ..
    note x' = hash_ofD(2) [OF H, of j]
    show "\<exists>k. has_point (H (bump k data))"
    proof (cases "has_point (H (bump j data))")
      case True
      then show ?thesis ..
    next
      case False
      then have "f cdp (bump (Suc j) data) (H (bump j data))
          (curve_rhs (cv_field cdp) t (H (bump j data)) (cv_a cdp) (cv_b cdp)) = Some r"
        using eq rhs_is_sqr [OF V(2) x'] by (simp add: c j hash_ofD(3) [OF H V(1)] Let_def bump_Suc)
      from IH [OF this] x' curve_rhs_ok(1) [OF V(2) x'] show ?thesis by blast
    qed
  qed
  with assms(3,4) show ?thesis by blast
qed

lemma hash_loop_returns_iff:
  assumes H: "hash_of data H" and "x \<in> V" "t \<in> V"
  shows "curve_hash_loop cdp data x t \<noteq> None \<longleftrightarrow> (\<exists>k<256. has_point (H (bump k data)))"
proof
  assume "curve_hash_loop cdp data x t \<noteq> None"
  then obtain r where "curve_hash_loop cdp (bump 0 data) x t = Some r"
    using bump_0 [OF hash_ofD(1) [OF H]] by auto
  from hash_loop_sound [OF H this assms(2,3)] obtain k where "has_point (H (bump k data))" ..
  then have "has_point (H (bump (k mod 256) data))" unfolding bump_mod .
  then show "\<exists>k<256. has_point (H (bump k data))" by (intro exI [of _ "k mod 256"]) simp
next
  assume "\<exists>k<256. has_point (H (bump k data))"
  then obtain k where k: "has_point (H (bump k data))" "\<forall>j<k. \<not> has_point (H (bump j data))"
    using exists_least_iff [of "\<lambda>k. has_point (H (bump k data))"] by blast
  from hash_loop_first [OF H assms(2,3), of k 0] k
  show "curve_hash_loop cdp data x t \<noteq> None" by (auto simp: bump_0 [OF hash_ofD(1) [OF H]])
qed

lemma curve_from_hash_ok:
  assumes H: "hash_of data H" and p: "p \<in> points"
    and cof: "\<And>h. cv_cofac cdp = Some h \<Longrightarrow> 0 \<le> h"
  shows "curve_from_hash G (curve_base cdp order) cdp p data \<noteq> None \<longleftrightarrow>
      (\<exists>k<256. has_point (H (bump k data)))"
    and "curve_from_hash G (curve_base cdp order) cdp p data = Some q \<Longrightarrow> q \<in> points"
    and "curve_from_hash G (curve_base cdp order) cdp p data = Some q \<Longrightarrow> cv_cofac cdp = None \<Longrightarrow>
      \<forall>j<k. \<not> has_point (H (bump j data)) \<Longrightarrow> has_point (H (bump k data)) \<Longrightarrow> pt_x q = H (bump k data)"
proof -
  note V = points_coord [OF p]
  let ?loop = "curve_hash_loop cdp data (pt_x p) (element_init (cv_field cdp))"
  have "curve_from_hash G (curve_base cdp order) cdp p data = None \<longleftrightarrow> ?loop = None"
    by (auto simp: curve_from_hash_def Let_def split: option.split)
  with hash_loop_returns_iff [OF H V(1) init_in]
  show iff: "curve_from_hash G (curve_base cdp order) cdp p data \<noteq> None \<longleftrightarrow>
      (\<exists>k<256. has_point (H (bump k data)))" by simp
  have loop: "\<exists>t. ?loop = Some (H (bump k data), t) \<and> t \<in> V \<and> \<alpha> t = rhs (H (bump k data))"
    if "\<forall>j<k. \<not> has_point (H (bump j data))" "has_point (H (bump k data))" for k
    using hash_loop_first [OF H V(1) init_in, of k 0] that by (simp add: bump_0 [OF hash_ofD(1) [OF H]])
  {
    assume q: "curve_from_hash G (curve_base cdp order) cdp p data = Some q"
    then have "\<exists>k. has_point (H (bump k data))" using iff by auto
    then obtain k where k: "has_point (H (bump k data))" "\<forall>j<k. \<not> has_point (H (bump j data))"
      using exists_least_iff [of "\<lambda>k. has_point (H (bump k data))"] by blast
    from loop [OF k(2,1)] obtain t where
      t: "?loop = Some (H (bump k data), t)" "t \<in> V" "\<alpha> t = rhs (H (bump k data))" by blast
    define y where "y = element_sqrt (cv_field cdp) (pt_y p) t"
    define y' where "y' = (if element_sgn (cv_field cdp) y < 0 then element_neg (cv_field cdp) y y else y)"
    have sqr: "element_is_sqr (cv_field cdp) t \<noteq> 0"
      using k(1) unfolding is_sqr [OF t(2)] t(3) has_point_def .
    have y: "y \<in> V" "\<alpha> y * \<alpha> y = rhs (H (bump k data))"
      unfolding y_def using sqrt_in [OF V(2) t(2) sqr] sqrt [OF V(2) t(2) sqr] t(3) by simp_all
    then have y': "y' \<in> V" "\<alpha> y' * \<alpha> y' = rhs (H (bump k data))"
      unfolding y'_def by (simp_all add: neg)
    have pt: "\<lparr> inf_flag = 0, pt_x = H (bump k data), pt_y = y' \<rparr> \<in> points"
      by (rule pointsI [OF hash_ofD(2) [OF H] y'(1)]) (simp add: y'(2))
    have eq: "q = (let a = \<lparr> inf_flag = 0, pt_x = H (bump k data), pt_y = y' \<rparr>
        in case cv_cofac cdp of None \<Rightarrow> a | Some h \<Rightarrow> element_pow_mpz G (curve_base cdp order) a a h)"
      using q unfolding curve_from_hash_def t(1) Let_def option.case prod.case y_def [symmetric] y'_def [symmetric]
      by simp
    have "q \<in> points" unfolding eq Let_def by (rule pow_add_cofactor [OF gmp.gmp_laws_axioms pt cof])
    moreover have "pt_x q = H (bump k data)" if "cv_cofac cdp = None" unfolding eq using that by simp
    ultimately have "q \<in> points \<and> (cv_cofac cdp = None \<longrightarrow> (\<exists>k. pt_x q = H (bump k data) \<and>
        has_point (H (bump k data)) \<and> (\<forall>j<k. \<not> has_point (H (bump j data)))))"
      using k by blast
  } note q = this
  show "curve_from_hash G (curve_base cdp order) cdp p data = Some q \<Longrightarrow> q \<in> points"
    using q by blast
  show "curve_from_hash G (curve_base cdp order) cdp p data = Some q \<Longrightarrow> cv_cofac cdp = None \<Longrightarrow>
      \<forall>j<k. \<not> has_point (H (bump j data)) \<Longrightarrow> has_point (H (bump k data)) \<Longrightarrow> pt_x q = H (bump k data)"
    using q by (metis nat_neq_iff)
qed

end

end
