(* ===== verification/CurveGroup.thy ===== *)
theory CurveGroup
  imports CurveSearch
begin

text \<open>
  Compressed points, the comparison of points, multiples of a point seen through a homomorphism
  of the group into a monoid, and the formulas of \<^verbatim>\<open>ecc/curve.c\<close> for the coefficients of a
  curve: from its \<open>j\<close>-invariant, of its twist, and the trace of Frobenius over an extension.
\<close>

section \<open>Comparison and compression\<close>

text \<open>The sign of an element, as every prime field of odd order has it.\<close>

definition sign_rule :: "'a field_s \<Rightarrow> 'a set \<Rightarrow> ('a \<Rightarrow> 'k::comm_ring_1) \<Rightarrow> bool" where
  "sign_rule F V \<alpha> \<longleftrightarrow>
     (\<forall>n\<in>V. \<forall>a\<in>V. element_sign F (element_neg F n a) = - element_sign F a) \<and>
     (\<forall>a\<in>V. element_sign F a = 0 \<longleftrightarrow> \<alpha> a = 0) \<and>
     (\<forall>a\<in>V. \<forall>b\<in>V. \<alpha> a = \<alpha> b \<longrightarrow> element_sign F a = element_sign F b)"

context curve_field
begin

lemma ec_val_affine: "inf_flag p = 0 \<Longrightarrow> ec_val p = Aff (\<alpha> (pt_x p)) (\<alpha> (pt_y p))"
  by (simp add: ec_val_def)

lemma curve_cmp_ok:
  assumes "p \<in> points" "q \<in> points"
  shows "inf_flag p = 0 \<Longrightarrow> inf_flag q = 0 \<Longrightarrow> curve_cmp cdp False p q = 0 \<longleftrightarrow> ec_val p = ec_val q"
    and "inf_flag p \<noteq> 0 \<Longrightarrow> curve_cmp cdp False p q = 0 \<longleftrightarrow> ec_val q \<noteq> Inf"
  using cmp [OF points_coord(1) [OF assms(1)] points_coord(1) [OF assms(2)]]
    cmp [OF points_coord(2) [OF assms(1)] points_coord(2) [OF assms(2)]]
  by (auto simp: curve_cmp_def ec_val_def)

abbreviation sign_contract :: bool where "sign_contract \<equiv> sign_rule (cv_field cdp) V \<alpha>"

lemma signD:
  assumes "sign_contract" "a \<in> V"
  shows "n \<in> V \<Longrightarrow> element_sign (cv_field cdp) (element_neg (cv_field cdp) n a) = - element_sign (cv_field cdp) a"
    and "element_sign (cv_field cdp) a = 0 \<longleftrightarrow> \<alpha> a = 0"
    and "b \<in> V \<Longrightarrow> \<alpha> a = \<alpha> b \<Longrightarrow> element_sign (cv_field cdp) a = element_sign (cv_field cdp) b"
  using assms unfolding sign_rule_def by blast+

lemma square_eq_cases:
  assumes "y \<in> V" "z \<in> V" "\<alpha> y * \<alpha> y = \<alpha> z * \<alpha> z"
  shows "\<alpha> y = \<alpha> z \<or> \<alpha> y = - \<alpha> z"
proof -
  let ?d = "element_sub (cv_field cdp) y y z" and ?s = "element_add (cv_field cdp) y y z"
  have V: "?d \<in> V" "?s \<in> V" "\<alpha> ?d = \<alpha> y - \<alpha> z" "\<alpha> ?s = \<alpha> y + \<alpha> z"
    using assms(1,2) by (simp_all add: impl_law)
  have "(\<alpha> y - \<alpha> z) * (\<alpha> y + \<alpha> z) = \<alpha> y * \<alpha> y - \<alpha> z * \<alpha> z" by (simp add: algebra_simps)
  then have "\<alpha> ?d * \<alpha> ?s = 0" unfolding V(3,4) assms(3) by simp
  from no_zero_divisors [OF V(1,2) this] show ?thesis unfolding V(3,4) right_minus_eq eq_neg_iff_add_eq_0 .
qed

text \<open>Choosing the sign of a root by a bit finds the root of that sign.\<close>

lemma sign_choice:
  assumes sign: "sign_contract" and V: "y \<in> V" "z \<in> V" and sq: "\<alpha> y * \<alpha> y = \<alpha> z * \<alpha> z"
  defines "z' \<equiv> if element_sign (cv_field cdp) y > 0
    then if element_sign (cv_field cdp) z < 0 then element_neg (cv_field cdp) z z else z
    else if element_sign (cv_field cdp) z > 0 then element_neg (cv_field cdp) z z else z"
  shows "z' \<in> V" and "\<alpha> z' = \<alpha> y"
proof -
  let ?s = "element_sign (cv_field cdp)" and ?n = "element_neg (cv_field cdp) z z"
  have n: "?n \<in> V" "\<alpha> ?n = - \<alpha> z" "?s ?n = - ?s z"
    using V(2) signD(1) [OF sign V(2) V(2)] by (simp_all add: neg)
  note z0 = signD(2) [OF sign V(2)] and same = signD(3) [OF sign V(1)]
  show "z' \<in> V" unfolding z'_def using n(1) V(2) by simp
  from square_eq_cases [OF V sq] show "\<alpha> z' = \<alpha> y"
  proof
    assume eq: "\<alpha> y = \<alpha> z"
    then have "?s y = ?s z" by (rule same [OF V(2)])
    then show ?thesis unfolding z'_def using eq z0 by auto
  next
    assume eq: "\<alpha> y = - \<alpha> z"
    then have "?s y = - ?s z" using same [OF n(1)] n by simp
    then show ?thesis unfolding z'_def using eq z0 n(2) by auto
  qed
qed

end

context curve_sqrt
begin

lemma has_root:
  assumes "p \<in> points" "inf_flag p = 0"
  shows "\<exists>y\<in>V. \<alpha> y * \<alpha> y = rhs (pt_x p)"
  using assms unfolding points_def by (intro bexI [of _ "pt_y p"]) (auto simp: ec_val_def)

lemma root_of:
  assumes "p \<in> points" "inf_flag p = 0"
  shows "\<alpha> (pt_y p) * \<alpha> (pt_y p) = rhs (pt_x p)"
  using assms unfolding points_def by (simp add: ec_val_def)

lemma compressed_ok:
  assumes sign: "sign_contract" and p: "p \<in> points" "inf_flag p = 0" and q: "q \<in> points"
    and bytes: "element_from_bytes (cv_field cdp) (pt_x q) (element_to_bytes (cv_field cdp) (pt_x p) @ bs @ rest) =
      (pt_x p, length (element_to_bytes (cv_field cdp) (pt_x p)))"
    and bs: "bs = [if element_sign (cv_field cdp) (pt_y p) > 0 then 1 else 0]"
  shows "element_to_bytes_compressed cdp p = element_to_bytes (cv_field cdp) (pt_x p) @ bs"
    and "fst (element_from_bytes_compressed cdp q (element_to_bytes_compressed cdp p @ rest)) \<in> points"
    and "ec_val (fst (element_from_bytes_compressed cdp q (element_to_bytes_compressed cdp p @ rest))) = ec_val p"
    and "snd (element_from_bytes_compressed cdp q (element_to_bytes_compressed cdp p @ rest)) =
      length (element_to_bytes_compressed cdp p)"
proof -
  let ?f = "cv_field cdp"
  note pV = points_coord [OF p(1)] and qV = points_coord [OF q]
  show tb: "element_to_bytes_compressed cdp p = element_to_bytes ?f (pt_x p) @ bs"
    by (simp add: element_to_bytes_compressed_def bs)
  have q': "q\<lparr> pt_x := pt_x p, inf_flag := 1 \<rparr> \<in> points" using pV(1) qV(2) by (simp add: points_def ec_val_def)
  define r where "r = point_from_x ?f (q\<lparr> pt_x := pt_x p \<rparr>) (pt_x p) (cv_a cdp) (cv_b cdp)"
  have "r = point_from_x ?f (q\<lparr> pt_x := pt_x p, inf_flag := 1 \<rparr>) (pt_x p) (cv_a cdp) (cv_b cdp)"
    by (simp add: r_def point_from_x_def)
  with point_from_x_ok [OF q' pV(1) has_root [OF p]]
  have r: "r \<in> points" "\<alpha> (pt_x r) = \<alpha> (pt_x p)" "inf_flag r = 0" "pt_y r \<in> V"
    "\<alpha> (pt_y r) * \<alpha> (pt_y r) = rhs (pt_x p)" by simp_all
  have sq: "\<alpha> (pt_y p) * \<alpha> (pt_y p) = \<alpha> (pt_y r) * \<alpha> (pt_y r)" unfolding r(5) by (rule root_of [OF p])
  define z where "z = (if element_sign ?f (pt_y p) > 0
    then if element_sign ?f (pt_y r) < 0 then element_neg ?f (pt_y r) (pt_y r) else pt_y r
    else if element_sign ?f (pt_y r) > 0 then element_neg ?f (pt_y r) (pt_y r) else pt_y r)"
  note z = sign_choice [OF sign pV(2) r(4) sq, folded z_def]
  have nth: "(element_to_bytes ?f (pt_x p) @ bs @ rest) ! length (element_to_bytes ?f (pt_x p)) =
      (if element_sign ?f (pt_y p) > 0 then 1 else 0)" by (simp add: bs nth_append)
  have eq: "element_from_bytes_compressed cdp q (element_to_bytes_compressed cdp p @ rest) =
      (r\<lparr> pt_y := z \<rparr>, length (element_to_bytes ?f (pt_x p)) + 1)"
    unfolding tb append_assoc element_from_bytes_compressed_def bytes Let_def prod.case r_def [symmetric] nth z_def
    by auto
  have val: "ec_val (r\<lparr> pt_y := z \<rparr>) = ec_val p" using r(2,3) p(2) z(2) by (simp add: ec_val_def)
  have "r\<lparr> pt_y := z \<rparr> \<in> points"
    using z(1) points_coord(1) [OF r(1)] r(3) val p(1) unfolding points_def by simp
  then show "fst (element_from_bytes_compressed cdp q (element_to_bytes_compressed cdp p @ rest)) \<in> points"
    unfolding eq by simp
  show "ec_val (fst (element_from_bytes_compressed cdp q (element_to_bytes_compressed cdp p @ rest))) = ec_val p"
    unfolding eq fst_conv by (rule val)
  show "snd (element_from_bytes_compressed cdp q (element_to_bytes_compressed cdp p @ rest)) =
      length (element_to_bytes_compressed cdp p)" unfolding eq snd_conv unfolding tb by (simp add: bs)
qed

end

section \<open>Multiples of a point\<close>

text \<open>
  \<open>h\<close> turns sums of points of the curve into products of a monoid: an isomorphism of a known
  group of points, or an invariant of it.
\<close>

locale curve_hom = curve_field cdp V \<alpha> + gmp: gmp_laws G
  for cdp :: "'a curve_data" and V :: "'a set" and \<alpha> :: "'a \<Rightarrow> 'k::comm_ring_1" and G :: gmp +
  fixes h :: "'k ec \<Rightarrow> 'm::monoid_mult"
  assumes hom_inf: "h Inf = 1"
    and hom: "on_curve (\<alpha> (cv_a cdp)) (\<alpha> (cv_b cdp)) P \<Longrightarrow> on_curve (\<alpha> (cv_a cdp)) (\<alpha> (cv_b cdp)) Q \<Longrightarrow>
      ec_sum (\<alpha> (cv_a cdp)) P Q R \<Longrightarrow> h R = h P * h Q"

context curve_hom
begin

abbreviation hval :: "'a point \<Rightarrow> 'm" where "hval p \<equiv> h (ec_val p)"

lemma on_curve_val: "p \<in> points \<Longrightarrow> on_curve A B (ec_val p)"
  by (simp add: points_def)

lemma hval_mul:
  assumes "r \<in> points" "p \<in> points" "q \<in> points"
  shows "hval (curve_mul cdp r p q) = hval p * hval q"
  by (rule hom [OF on_curve_val [OF assms(2)] on_curve_val [OF assms(3)] curve_mul_ok(2) [OF assms]])

lemma hval_double:
  assumes "r \<in> points" "p \<in> points"
  shows "hval (curve_double cdp r p) = hval p * hval p"
  by (rule hom [OF on_curve_val [OF assms(2)] on_curve_val [OF assms(2)] curve_double_ok(2) [OF assms]])

lemma curve_base_monoid: "monoid_gmp (curve_base cdp order) points hval G"
proof (intro monoid_gmp.intro monoid_impl.intro monoid_impl_axioms.intro curve_base_magma gmp.gmp_laws_axioms)
qed (simp_all add: hval_mul hval_double, simp_all add: curve_set_ok(2) hom_inf)

lemma curve_mul_mpz_ok:
  assumes "x \<in> points" "p \<in> points" "0 \<le> n"
  shows "element_mul_mpz (curve_table G cdp order) x p n \<in> points"
    and "hval (element_mul_mpz (curve_table G cdp order) x p n) = hval p ^ nat n"
  using curve_base_pow [OF gmp.gmp_laws_axioms assms]
    monoid_gmp.generic_pow_mpz_value [OF curve_base_monoid assms, of order]
  by (simp_all add: element_pow_mpz_def)

text \<open>The square test for a group of even order \<open>2 m\<close> raises to the power \<open>m - 1\<close>.\<close>

lemma even_curve_is_sqr_ok:
  assumes "p \<in> points" "0 < m" "\<And>P. on_curve A B P \<Longrightarrow> h P = 1 \<Longrightarrow> P = Inf"
  shows "even_curve_is_sqr G (curve_base cdp (2 * m)) p \<noteq> 0 \<longleftrightarrow> hval p ^ nat (m - 1) = 1"
proof -
  have "(2 * m - 1) div 2 = m - 1" by simp
  then have eq: "even_curve_is_sqr G (curve_base cdp (2 * m)) p =
      curve_is1 (element_pow_mpz G (curve_base cdp (2 * m)) (curve_init cdp) p (m - 1))" (is "_ = curve_is1 ?q")
    by (simp add: even_curve_is_sqr_def Let_def gmp_law)
  have q: "?q \<in> points" "hval ?q = hval p ^ nat (m - 1)"
    using curve_base_pow [OF gmp.gmp_laws_axioms curve_init_ok(1) assms(1)] assms(2)
      monoid_gmp.generic_pow_mpz_value [OF curve_base_monoid curve_init_ok(1) assms(1), of "m - 1"]
    by (simp_all add: element_pow_mpz_def)
  show ?thesis unfolding eq curve_is1_ok q(2) [symmetric]
    using assms(3) [OF on_curve_val [OF q(1)]] by (auto simp: hom_inf)
qed

end

section \<open>Coefficients and traces\<close>

context field_impl
begin

lemma curve_j_coeffs_ok:
  assumes "j \<in> V" "\<alpha> j \<noteq> 1728"
  defines "a \<equiv> fst (curve_j_coeffs F j)" and "b \<equiv> snd (curve_j_coeffs F j)"
  shows "a \<in> V" "b \<in> V"
    and "1728 * (4 * \<alpha> a ^ 3) = \<alpha> j * (4 * \<alpha> a ^ 3 + 27 * \<alpha> b ^ 2)"
proof -
  define d where "d = element_sub F (element_set_si F (element_init F) 1728) (element_set_si F (element_init F) 1728) j"
  define i where "i = element_invert F d d"
  define c where "c = element_mul F i i j"
  have d: "d \<in> V" "\<alpha> d = 1728 - \<alpha> j" using assms(1) by (simp_all add: d_def impl_law)
  have "\<alpha> d \<noteq> 0" unfolding d(2) using assms(2) by simp
  then have i: "i \<in> V" "\<alpha> d * \<alpha> i = 1"
    using invert_in [OF d(1) d(1)] invert [OF d(1) d(1)] unfolding i_def by blast+
  have c: "c \<in> V" "\<alpha> c = \<alpha> i * \<alpha> j" using i(1) assms(1) by (simp_all add: c_def impl_law)
  have ab: "b = element_add F (element_init F) c c" "a = element_add F c c b"
    by (simp_all add: a_def b_def curve_j_coeffs_def Let_def d_def i_def c_def)
  show V: "a \<in> V" "b \<in> V" using c(1) by (simp_all add: ab)
  have b: "\<alpha> b = 2 * \<alpha> c" using c(1) by (simp add: ab impl_law)
  have a: "\<alpha> a = 3 * \<alpha> c" using c(1) V(2) b by (simp add: ab(2) add)
  have "(1728 - \<alpha> j) * \<alpha> c = \<alpha> d * \<alpha> i * \<alpha> j" unfolding c(2) d(2) by (simp only: ac_simps)
  then have eq: "1728 * \<alpha> c = \<alpha> j * (\<alpha> c + 1)" unfolding i(2) by (simp add: algebra_simps)
  have "1728 * (4 * \<alpha> a ^ 3) = 108 * (\<alpha> c * \<alpha> c) * (1728 * \<alpha> c)"
    by (simp add: a power3_eq_cube power2_eq_square)
  also have "\<dots> = \<alpha> j * (4 * \<alpha> a ^ 3 + 27 * \<alpha> b ^ 2)"
    unfolding eq by (simp add: a b power3_eq_cube power2_eq_square algebra_simps)
  finally show "1728 * (4 * \<alpha> a ^ 3) = \<alpha> j * (4 * \<alpha> a ^ 3 + 27 * \<alpha> b ^ 2)" .
qed

lemma twist_coeffs_ok:
  assumes "v \<in> V" "a \<in> V" "b \<in> V"
  defines "a' \<equiv> fst (twist_coeffs F v a b)" and "b' \<equiv> snd (twist_coeffs F v a b)"
  shows "a' \<in> V" "b' \<in> V" and "\<alpha> a' = \<alpha> a * \<alpha> v * \<alpha> v" and "\<alpha> b' = \<alpha> b * \<alpha> v * \<alpha> v * \<alpha> v"
  using assms(1-3) by (simp_all add: a'_def b'_def twist_coeffs_def Let_def impl_law)

end

text \<open>Squares of the field, and how a nonsquare factor changes them.\<close>

context sqrt_field
begin

definition has_sqrt :: "'k \<Rightarrow> bool" where
  "has_sqrt c \<longleftrightarrow> (\<exists>y\<in>V. \<alpha> y * \<alpha> y = c)"

lemma has_sqrt_mult: "has_sqrt c \<Longrightarrow> has_sqrt d \<Longrightarrow> has_sqrt (c * d)"
proof -
  assume "has_sqrt c" "has_sqrt d"
  then obtain y z where yz: "y \<in> V" "z \<in> V" "\<alpha> y * \<alpha> y = c" "\<alpha> z * \<alpha> z = d" by (auto simp: has_sqrt_def)
  have "\<alpha> (element_mul F y y z) * \<alpha> (element_mul F y y z) = (\<alpha> y * \<alpha> y) * (\<alpha> z * \<alpha> z)"
    using yz(1,2) by (simp add: mul ac_simps)
  then show "has_sqrt (c * d)" unfolding has_sqrt_def yz(3,4) using yz(1,2) mul_in by blast
qed

lemma has_sqrt_cancel:
  assumes "y \<in> V" "\<alpha> y \<noteq> 0" "has_sqrt (c * (\<alpha> y * \<alpha> y))"
  shows "has_sqrt c"
proof -
  let ?i = "element_invert F y y"
  have i: "?i \<in> V" "\<alpha> y * \<alpha> ?i = 1" using assms(1,2) invert_in [of y y] invert [of y y] by blast+
  then have "has_sqrt (\<alpha> ?i * \<alpha> ?i)" by (auto simp: has_sqrt_def)
  from has_sqrt_mult [OF assms(3) this]
  have "has_sqrt (c * (\<alpha> y * \<alpha> ?i) * (\<alpha> y * \<alpha> ?i))" by (simp only: ac_simps)
  then show ?thesis unfolding i(2) by simp
qed

lemma nonsquare_times:
  assumes v: "v \<in> V" "\<not> has_sqrt (\<alpha> v)" and t: "t \<in> V" "\<alpha> t \<noteq> 0"
  shows "has_sqrt (\<alpha> v * \<alpha> t) \<longleftrightarrow> \<not> has_sqrt (\<alpha> t)"
proof
  assume vt: "has_sqrt (\<alpha> v * \<alpha> t)"
  show "\<not> has_sqrt (\<alpha> t)"
  proof
    assume "has_sqrt (\<alpha> t)"
    then obtain y where y: "y \<in> V" "\<alpha> y * \<alpha> y = \<alpha> t" by (auto simp: has_sqrt_def)
    have "\<alpha> y \<noteq> 0" using y(2) t(2) by auto
    from has_sqrt_cancel [OF y(1) this] vt v(2) show False unfolding y(2) by blast
  qed
next
  assume "\<not> has_sqrt (\<alpha> t)"
  then have "element_is_sqr F v = 0" "element_is_sqr F t = 0"
    using v t(1) is_sqr [OF v(1)] is_sqr [OF t(1)] unfolding has_sqrt_def by blast+
  from nonsquares [OF v(1) t(1) this] show "has_sqrt (\<alpha> v * \<alpha> t)" unfolding has_sqrt_def .
qed

text \<open>An abscissa belongs to the curve or, scaled, to its twist.\<close>

lemma twist_abscissas:
  assumes v: "v \<in> V" "element_is_sqr F v = 0" and V: "a \<in> V" "b \<in> V" "x \<in> V"
  defines "a' \<equiv> fst (twist_coeffs F v a b)" and "b' \<equiv> snd (twist_coeffs F v a b)"
  defines "t \<equiv> (\<alpha> x * \<alpha> x + \<alpha> a) * \<alpha> x + \<alpha> b"
  defines "t' \<equiv> ((\<alpha> v * \<alpha> x) * (\<alpha> v * \<alpha> x) + \<alpha> a') * (\<alpha> v * \<alpha> x) + \<alpha> b'"
  shows "t' = \<alpha> v * \<alpha> v * \<alpha> v * t" and "t \<noteq> 0 \<Longrightarrow> has_sqrt t' \<longleftrightarrow> \<not> has_sqrt t"
proof -
  note c = twist_coeffs_ok [OF v(1) V(1,2), folded a'_def b'_def]
  show eq: "t' = \<alpha> v * \<alpha> v * \<alpha> v * t" unfolding t'_def t_def c by (simp add: algebra_simps)
  have nv: "\<not> has_sqrt (\<alpha> v)" using v is_sqr unfolding has_sqrt_def by blast
  have v0: "\<alpha> v \<noteq> 0"
  proof
    assume "\<alpha> v = 0"
    then have "\<alpha> (element_init F) * \<alpha> (element_init F) = \<alpha> v" by (simp add: init)
    then show False using nv init_in unfolding has_sqrt_def by blast
  qed
  let ?t = "curve_rhs F x x a b"
  have t: "?t \<in> V" "\<alpha> ?t = t" using V by (simp_all add: curve_rhs_def Let_def impl_law t_def)
  show "has_sqrt t' \<longleftrightarrow> \<not> has_sqrt t" if "t \<noteq> 0"
  proof -
    have "t' = \<alpha> v * t * (\<alpha> v * \<alpha> v)" unfolding eq by (simp only: ac_simps)
    moreover have "has_sqrt (\<alpha> v * \<alpha> v)" using v(1) by (auto simp: has_sqrt_def)
    ultimately have "has_sqrt t' \<longleftrightarrow> has_sqrt (\<alpha> v * t)"
      using has_sqrt_cancel [OF v(1) v0, of "\<alpha> v * t"] has_sqrt_mult [of "\<alpha> v * t" "\<alpha> v * \<alpha> v"] by metis
    also have "\<dots> \<longleftrightarrow> \<not> has_sqrt t"
      using nonsquare_times [OF v(1) nv t(1)] that unfolding t(2) .
    finally show ?thesis .
  qed
qed

end

lemma trace_loop_ok:
  fixes a b :: "'k::comm_ring_1"
  assumes G: "gmp_laws G" and ab: "a + b = of_int t" "a * b = of_int q"
    and c: "of_int c1 = a ^ Suc j + b ^ Suc j" "of_int c2 = a ^ j + b ^ j"
  shows "of_int (fst (trace_loop G q t k c1 c2)) = a ^ (Suc j + k) + b ^ (Suc j + k)"
  using c
proof (induction k arbitrary: j c1 c2)
  case 0
  then show ?case by simp
next
  case (Suc k)
  have "of_int (t * c1 - q * c2) = (a + b) * (a ^ Suc j + b ^ Suc j) - a * b * (a ^ j + b ^ j)"
    using Suc.prems ab by simp
  also have "\<dots> = a ^ Suc (Suc j) + b ^ Suc (Suc j)" by (simp add: algebra_simps)
  finally have "of_int (t * c1 - q * c2) = a ^ Suc (Suc j) + b ^ Suc (Suc j)" .
  from Suc.IH [OF this Suc.prems(1)] show ?case by (simp add: gmp_laws.mul [OF G] gmp_laws.sub [OF G])
qed

lemma compute_trace_n_ok:
  fixes a b :: "'k::comm_ring_1"
  assumes "gmp_laws G" "a + b = of_int t" "a * b = of_int q" "0 < n"
  shows "of_int (compute_trace_n G q t n) = a ^ n + b ^ n"
  using trace_loop_ok [OF assms(1-3), of t 0 2 "n - 1"] assms(2,4) by (simp add: compute_trace_n_def)

end
