(* ===== verification/Curve7.thy ===== *)
theory Curve7
  imports CurveGroup
begin

text \<open>
  The curve \<open>y^2 = x^3 + x + 3\<close> over the integers modulo 7, over the table of
  \<^verbatim>\<open>arith/naivefp.c\<close>: its six points form a cyclic group, which \<open>h7\<close> maps onto the units
  modulo 7.
\<close>

definition cdp7 :: "int curve_data" where
  "cdp7 = (let inf = \<lparr> inf_flag = 1, pt_x = 0, pt_y = 0 \<rparr>
     in \<lparr> cv_field = field_set_nqr (field_init_naive_fp gmp_ref 7) 3, cv_a = 1, cv_b = 3,
          cv_gen = inf, cv_gen_no_cofac = inf, cv_cofac = None \<rparr>)"

lemma cdp7_simps [simp]:
  "cv_field cdp7 = field_set_nqr (field_init_naive_fp gmp_ref 7) 3" "cv_a cdp7 = 1" "cv_b cdp7 = 3"
  "cv_cofac cdp7 = None"
  by (simp_all add: cdp7_def Let_def)

interpretation c7: curve_sqrt cdp7 "{0..<7}" "of_int :: int \<Rightarrow> 7" gmp_ref
  by (intro curve_sqrt.intro curve_sqrt_axioms.intro) (simp_all add: fp7s.fps.sqrt_field_axioms)

lemma base7:
  "element_from_bytes (cv_field cdp7) = (\<lambda>n. zp_from_bytes gmp_ref (zp_length gmp_ref 7))"
  "element_to_bytes (cv_field cdp7) = zp_to_bytes gmp_ref (zp_length gmp_ref 7)"
  "element_from_hash (cv_field cdp7) = (\<lambda>n. zp_from_hash gmp_ref 7)"
  "element_sign (cv_field cdp7) = zp_sgn_odd gmp_ref"
  "element_neg (cv_field cdp7) = (\<lambda>n. zp_neg gmp_ref 7)"
  unfolding cdp7_simps fp7s.Fp_eq
  by (simp_all add: field_init_naive_fp_def naive_fp_base_def dispatch fun_eq_iff gmp_ref.odd_p)

definition pts7 :: "(int \<times> int) list" where
  "pts7 = [(4, 1), (4, 6), (5, 0), (6, 1), (6, 6)]"

definition log7 :: "int \<Rightarrow> int \<Rightarrow> int" where
  "log7 x y = (if x mod 7 = 4 then if y mod 7 = 1 then 3 else 5 else if x mod 7 = 5 then 6 else if y mod 7 = 1 then 4 else 2)"

definition h7 :: "7 ec \<Rightarrow> 7" where
  "h7 P = (case P of Inf \<Rightarrow> 1 | Aff x y \<Rightarrow>
     if x = of_int 4 then if y = of_int 1 then of_int 3 else of_int 5 else if x = of_int 5 then of_int 6
     else if y = of_int 1 then of_int 4 else of_int 2)"

lemma eq_7: "(of_int i :: 7) = of_int j \<longleftrightarrow> i mod 7 = j mod 7"
  using of_int_7 [of "i - j"] by (simp add: mod_eq_dvd_iff)

lemma rep_7: "\<exists>i\<in>{0..<7}. x = (of_int i :: 7)"
  by (cases x rule: bit1_cases) auto

lemma h7_aff: "h7 (Aff (of_int x) (of_int y)) = of_int (log7 x y)"
  by (simp add: h7_def log7_def eq_7 del: of_int_numeral of_int_1)

definition res7 :: "int list" where
  "res7 = [0, 1, 2, 3, 4, 5, 6]"

lemma res7_set: "{0..<7::int} = set res7"
  by (auto simp: res7_def)

lemma pts7_all: "\<forall>x\<in>set res7. \<forall>y\<in>set res7. (y * y) mod 7 = ((x * x + 1) * x + 3) mod 7 \<longrightarrow> (x, y) \<in> set pts7"
  by code_simp

lemma chord7: "\<forall>(x1, y1) \<in> set pts7. \<forall>(x2, y2) \<in> set pts7. \<forall>l\<in>set res7. x1 \<noteq> x2 \<longrightarrow>
   (l * (x2 - x1)) mod 7 = (y2 - y1) mod 7 \<longrightarrow>
   log7 (l * l - x1 - x2) ((x1 - (l * l - x1 - x2)) * l - y1) mod 7 = (log7 x1 y1 * log7 x2 y2) mod 7"
  by code_simp

lemma tangent7: "\<forall>(x1, y1) \<in> set pts7. \<forall>l\<in>set res7. y1 \<noteq> 0 \<longrightarrow>
   (l * (y1 + y1)) mod 7 = (3 * (x1 * x1) + 1) mod 7 \<longrightarrow>
   log7 (l * l - x1 - x1) ((x1 - (l * l - x1 - x1)) * l - y1) mod 7 = (log7 x1 y1 * log7 x1 y1) mod 7" 
  by code_simp

lemma opposite7: "\<forall>(x1, y1) \<in> set pts7. \<forall>(x2, y2) \<in> set pts7. x1 = x2 \<longrightarrow> y1 \<noteq> y2 \<or> y1 = 0 \<longrightarrow>
   (log7 x1 y1 * log7 x2 y2) mod 7 = 1"
  by code_simp

lemma on_curve_7:
  assumes "on_curve (1::7) 3 (Aff x y)"
  obtains i j where "(i, j) \<in> set pts7" "x = of_int i" "y = of_int j"
proof -
  obtain i j where ij: "i \<in> {0..<7}" "j \<in> {0..<7}" "x = of_int i" "y = of_int j"
    using rep_7 [of x] rep_7 [of y] by blast
  have "(of_int (j * j) :: 7) = of_int ((i * i + 1) * i + 3)" using assms ij(3,4) by simp
  then have "(j * j) mod 7 = ((i * i + 1) * i + 3) mod 7" unfolding eq_7 .
  then have "(i, j) \<in> set pts7" using pts7_all ij(1,2) unfolding res7_set by blast
  then show thesis using ij(3,4) by (rule that)
qed

lemma third_point_7:
  "third_point (of_int l) (of_int x1) (of_int y1) (of_int x2) =
     Aff (of_int (l * l - x1 - x2) :: 7) (of_int ((x1 - (l * l - x1 - x2)) * l - y1))"
  by (simp add: third_point_def Let_def)

lemma pts7_range: "(i, j) \<in> set pts7 \<Longrightarrow> 0 \<le> i \<and> i < 7 \<and> 0 \<le> j \<and> j < 7"
  by (auto simp: pts7_def)

lemma pts7_eq:
  assumes "(i, j) \<in> set pts7" "(k, l) \<in> set pts7"
  shows "(of_int i :: 7) = of_int k \<longleftrightarrow> i = k" "(of_int j :: 7) = of_int l \<longleftrightarrow> j = l" "(of_int j :: 7) = 0 \<longleftrightarrow> j = 0"
  using pts7_range [OF assms(1)] pts7_range [OF assms(2)] eq_7 [of j 0] by (simp_all add: eq_7)

lemma hom_7_aff:
  assumes P: "(x1, y1) \<in> set pts7" and Q: "(x2, y2) \<in> set pts7"
    and "ec_sum (1::7) (Aff (of_int x1) (of_int y1)) (Aff (of_int x2) (of_int y2)) R"
  shows "h7 R = of_int (log7 x1 y1) * of_int (log7 x2 y2)"
proof (cases "x1 = x2")
  case False
  then obtain l' where l': "l' * (of_int x2 - of_int x1) = (of_int y2 - of_int y1 :: 7)"
    "R = third_point l' (of_int x1) (of_int y1) (of_int x2)" using assms(3) pts7_eq [OF P Q] by auto
  obtain l where l: "l \<in> {0..<7}" "l' = of_int l" using rep_7 by blast
  have "(of_int (l * (x2 - x1)) :: 7) = of_int (y2 - y1)" using l'(1) l(2) by simp
  then have "(l * (x2 - x1)) mod 7 = (y2 - y1) mod 7" unfolding eq_7 .
  then have "log7 (l * l - x1 - x2) ((x1 - (l * l - x1 - x2)) * l - y1) mod 7 = (log7 x1 y1 * log7 x2 y2) mod 7"
    using chord7 P Q l(1) False unfolding res7_set by blast
  then show ?thesis unfolding l'(2) l(2) third_point_7 h7_aff of_int_mult [symmetric] eq_7 .
next
  case x: True
  show ?thesis
  proof (cases "y1 = y2 \<and> y1 \<noteq> 0")
    case True
    then obtain l' where l': "l' * (of_int y1 + of_int y1) = (3 * (of_int x1 * of_int x1) + 1 :: 7)"
      "R = third_point l' (of_int x1) (of_int y1) (of_int x1)" using assms(3) x pts7_eq [OF P Q] by auto
    obtain l where l: "l \<in> {0..<7}" "l' = of_int l" using rep_7 by blast
    have "(of_int (l * (y1 + y1)) :: 7) = of_int (3 * (x1 * x1) + 1)" using l'(1) l(2) by simp
    then have "(l * (y1 + y1)) mod 7 = (3 * (x1 * x1) + 1) mod 7" unfolding eq_7 .
    then have "log7 (l * l - x1 - x1) ((x1 - (l * l - x1 - x1)) * l - y1) mod 7 = (log7 x1 y1 * log7 x1 y1) mod 7"
      using tangent7 P l(1) True unfolding res7_set by blast
    then show ?thesis using x True unfolding l'(2) l(2) third_point_7 h7_aff of_int_mult [symmetric] eq_7 by simp
  next
    case False
    then have "R = Inf" using assms(3) x pts7_eq [OF P Q] by auto
    then have R: "h7 R = of_int 1" by (simp add: h7_def)
    have "x1 = x2 \<longrightarrow> y1 \<noteq> y2 \<or> y1 = 0 \<longrightarrow> (log7 x1 y1 * log7 x2 y2) mod 7 = 1"
      using bspec [OF bspec [OF opposite7 P, unfolded prod.case] Q] by simp
    then have "1 mod 7 = (log7 x1 y1 * log7 x2 y2) mod 7" using x False by simp
    then show ?thesis unfolding R of_int_mult [symmetric] eq_7 .
  qed
qed

lemma h7_Inf: "h7 Inf = 1"
  by (simp add: h7_def)

lemma hom_7:
  assumes "on_curve (1::7) 3 P" "on_curve 1 3 Q" "ec_sum 1 P Q R"
  shows "h7 R = h7 P * h7 Q"
proof (cases "P = Inf \<or> Q = Inf")
  case True
  then show ?thesis using assms(3) by (cases P; cases Q) (auto simp: h7_Inf)
next
  case False
  then obtain x1 y1 x2 y2 where PQ: "P = Aff x1 y1" "Q = Aff x2 y2" by (cases P; cases Q) auto
  obtain i j where P: "(i, j) \<in> set pts7" "x1 = of_int i" "y1 = of_int j"
    using on_curve_7 assms(1) unfolding PQ by blast
  obtain k l where Q: "(k, l) \<in> set pts7" "x2 = of_int k" "y2 = of_int l"
    using on_curve_7 assms(2) unfolding PQ by blast
  show ?thesis using hom_7_aff [OF P(1) Q(1)] assms(3) unfolding PQ P(2,3) Q(2,3) h7_aff by blast
qed

lemma kernel_7:
  assumes "on_curve (1::7) 3 P" "h7 P = 1"
  shows "P = Inf"
proof (rule ccontr)
  assume "P \<noteq> Inf"
  then obtain x y where P: "P = Aff x y" by (cases P) auto
  obtain i j where ij: "(i, j) \<in> set pts7" "x = of_int i" "y = of_int j"
    using on_curve_7 assms(1) unfolding P by blast
  have "(of_int (log7 i j) :: 7) = of_int 1" using assms(2) unfolding P ij(2,3) h7_aff by simp
  then have "log7 i j mod 7 = 1" unfolding eq_7 by simp
  then show False using ij(1) by (auto simp: pts7_def log7_def)
qed

interpretation h7: curve_hom cdp7 "{0..<7}" "of_int :: int \<Rightarrow> 7" gmp_ref h7
proof (intro curve_hom.intro curve_hom_axioms.intro gmp_ref.gmp_laws_axioms c7.curve_field_axioms h7_Inf)
qed (simp add: hom_7)

end
