(* ===== verification/Curve257.thy ===== *)
theory Curve257
  imports CurveGroup
begin

text \<open>
  The integers modulo 257, the least prime of nine bits, and the curve \<open>y^2 = x^3 + x + 4\<close>
  over them: an instance whose hash never returns the modulus itself for a string
  \<open>[b, 0]\<close>, so that all 256 values the search of \<open>curve_from_hash\<close> can try are reduced.
\<close>

lemma of_int_257: "of_int i = (0::257) \<longleftrightarrow> 257 dvd i"
proof -
  have "of_int i = (0::257) \<longleftrightarrow> of_int i = (of_int 0 :: 257)" by simp
  also have "\<dots> \<longleftrightarrow> i mod 257 = 0 mod 257"
    unfolding bit1.of_int_eq
    by (simp only: bit1.Rep_inject_sym bit1.Rep_Abs_mod) simp
  finally show ?thesis by (simp add: dvd_eq_mod_eq_0)
qed

lemma is_prime_257: "is_prime 257"
  by (rule is_prime_code, simp) code_simp

lemma nonresidue_257: "zp_is_sqr gmp_ref 257 3 = 0"
  by code_simp

interpretation fp257: fp_sqrt_env gmp_ref 257 "of_int :: int \<Rightarrow> 257" 3
  by unfold_locales (simp_all add: of_int_257 is_prime_257 nonresidue_257)

definition cdp257 :: "int curve_data" where
  "cdp257 = (let inf = \<lparr> inf_flag = 1, pt_x = 0, pt_y = 0 \<rparr>
     in \<lparr> cv_field = field_set_nqr (field_init_naive_fp gmp_ref 257) 3, cv_a = 1, cv_b = 4,
          cv_gen = inf, cv_gen_no_cofac = inf, cv_cofac = None \<rparr>)"

lemma cdp257_simps [simp]:
  "cv_field cdp257 = field_set_nqr (field_init_naive_fp gmp_ref 257) 3" "cv_a cdp257 = 1" "cv_b cdp257 = 4"
  "cv_cofac cdp257 = None"
  by (simp_all add: cdp257_def Let_def)

interpretation c257: curve_sqrt cdp257 "{0..<257}" "of_int :: int \<Rightarrow> 257" gmp_ref
  by (intro curve_sqrt.intro curve_sqrt_axioms.intro) (simp_all add: fp257.fps.sqrt_field_axioms)

definition hash257 :: "byte list \<Rightarrow> int" where
  "hash257 data = (case zp_from_hash gmp_ref 257 data of Some z \<Rightarrow> z | None \<Rightarrow> 0)"

lemma shifted_byte:
  assumes "0 \<le> b" "b < (256::int)"
  shows "(256 * b) div 2 ^ k \<noteq> 257"
proof (cases "k \<le> 7")
  case True
  have "(256::int) = 2 ^ (Suc (7 - k)) * 2 ^ k" using True
    by (simp add: power_add [symmetric] del: power_Suc)
  then have "256 * b = 2 ^ k * (2 * (2 ^ (7 - k) * b))" by (simp only: power_Suc ac_simps)
  then have "(256 * b) div 2 ^ k = 2 * (2 ^ (7 - k) * b)" by (simp only: nonzero_mult_div_cancel_left power_not_zero) simp
  then have "even ((256 * b) div 2 ^ k)" by simp
  then show ?thesis by auto
next
  case False
  then have "(256::int) dvd 2 ^ k" using le_imp_power_dvd [of 8 k "2::int"] by simp
  then have "(256::int) \<le> 2 ^ k" by (rule zdvd_imp_le) simp
  then have "(256 * b) div 2 ^ k \<le> (256 * b) div 256" using assms by (intro zdiv_mono2) simp_all
  then show ?thesis using assms by simp
qed

lemma nbits_257: "nbits 257 = 9"
  by code_simp

lemma hash257_ok:
  "zp_from_hash gmp_ref 257 [b, 0] = Some (hash257 [b, 0])" "hash257 [b, 0] \<in> {0..<257}"
  "\<exists>k. hash257 [b, 0] = (256 * int (unat b)) div 2 ^ k"
proof -
  have count: "(mpz_sizeinbase gmp_ref 257 2 + 7) div 8 = 2" by (simp add: gmp_ref.sizeinbase nbits_257)
  have fill: "hash_fill 2 [b, 0] 0 0 [] = [b, 0]" by (simp add: hash_fill_long)
  have val: "mpz_import gmp_ref [b, 0] = 256 * int (unat b)" by (simp add: gmp_ref.import bytes_val_def)
  have byte: "0 \<le> int (unat b)" "int (unat b) < 256" using unsigned_less [of b] by simp_all
  obtain k where k: "hash_shrink gmp_ref 257 (256 * int (unat b)) = Some ((256 * int (unat b)) div 2 ^ k)"
    "(256 * int (unat b)) div 2 ^ k \<le> 257"
    using hash_shrink_ok [OF gmp_ref.gmp_laws_axioms, of 257 "256 * int (unat b)"] by auto
  have eq: "zp_from_hash gmp_ref 257 [b, 0] = Some ((256 * int (unat b)) div 2 ^ k)"
    unfolding zp_from_hash_def pbc_mpz_from_hash_def Let_def count fill val k(1) by (simp add: max_limbs_def)
  then show "zp_from_hash gmp_ref 257 [b, 0] = Some (hash257 [b, 0])" by (simp add: hash257_def)
  have "0 \<le> (256 * int (unat b)) div 2 ^ k" using byte(1) by (simp add: pos_imp_zdiv_nonneg_iff)
  then show "hash257 [b, 0] \<in> {0..<257}"
    using k(2) shifted_byte [OF byte, of k] unfolding hash257_def eq by simp
  show "\<exists>k. hash257 [b, 0] = (256 * int (unat b)) div 2 ^ k" unfolding hash257_def eq by auto
qed

lemma field_hash_257: "field_hash (cv_field cdp257) {0..<257} [0, 0] hash257"
proof -
  have "element_from_hash (cv_field cdp257) x data = zp_from_hash gmp_ref 257 data" for x data
    unfolding cdp257_simps fp257.Fp_eq by (simp add: field_init_naive_fp_def naive_fp_base_def dispatch)
  then show ?thesis using hash257_ok by (simp add: field_hash_def bump_def)
qed

lemma abscissa_257: "curve_abscissa cdp257 {0..<257} (of_int :: int \<Rightarrow> 257) (hash257 (bump 0 [0, 0]))"
proof -
  have "hash257 [0, 0] = 0" using hash257_ok(3) [of 0] by auto
  then show ?thesis unfolding curve_abscissa_def by (intro bexI [of _ 2]) (simp_all add: bump_def)
qed

end
