(* ===== verification/CurveProps.thy ===== *)
theory CurveProps
  imports Curve7 Curve257
begin

text \<open>
  The properties of elliptic curves, with the curve \<open>y^2 = x^3 + x + 3\<close> over the integers
  modulo 7 as the instance of each.
\<close>

section \<open>The group law\<close>

text \<open>
  C30: The operations of the table of \<open>field_init_curve_ab\<close> refine the chord and tangent law:
  the product of two points of the curve is a point of the curve, it is the reflected third
  point of the line through them (the tangent when they are equal, infinity when the line is
  vertical), and the same point is the product in the other order; squaring is doubling, and
  the inverse is the reflection.
\<close>

theorem curve_law:
  fixes G :: gmp and order :: int
  assumes "curve_field cdp V \<alpha>"
    and "r \<in> curve_points cdp V \<alpha>" "p \<in> curve_points cdp V \<alpha>" "q \<in> curve_points cdp V \<alpha>"
  defines "F \<equiv> curve_table G cdp order" and "A \<equiv> \<alpha> (cv_a cdp)"
  shows "element_mul F r p q \<in> curve_points cdp V \<alpha> \<and>
    ec_sum A (pt_val \<alpha> p) (pt_val \<alpha> q) (pt_val \<alpha> (element_mul F r p q)) \<and>
    ec_sum A (pt_val \<alpha> q) (pt_val \<alpha> p) (pt_val \<alpha> (element_mul F r p q)) \<and>
    element_square F r p \<in> curve_points cdp V \<alpha> \<and>
    ec_sum A (pt_val \<alpha> p) (pt_val \<alpha> p) (pt_val \<alpha> (element_square F r p)) \<and>
    element_invert F r p \<in> curve_points cdp V \<alpha> \<and>
    pt_val \<alpha> (element_invert F r p) = ec_neg (pt_val \<alpha> p) \<and>
    (element_is1 F p \<noteq> 0 \<longleftrightarrow> pt_val \<alpha> p = Inf)"
  using curve_field.curve_mul_ok [OF assms(1-4)] curve_field.curve_double_ok [OF assms(1-3)]
    curve_field.curve_invert_ok [OF assms(1-3)] curve_field.curve_is1_ok [OF assms(1)]
    ec_sum_commute [OF curve_field.curve_mul_ok(2) [OF assms(1-4)]]
  unfolding F_def A_def curve_table_simps by (intro conjI) assumption+

lemma point_7:
  assumes "(x, y) \<in> set pts7"
  shows "\<lparr> inf_flag = 0, pt_x = x, pt_y = y \<rparr> \<in> curve_points cdp7 {0..<7} (of_int :: int \<Rightarrow> 7)"
proof -
  have "(y * y) mod 7 = ((x * x + 1) * x + 3) mod 7" using assms by (auto simp: pts7_def)
  then have "(of_int (y * y) :: 7) = of_int ((x * x + 1) * x + 3)" unfolding eq_7 .
  then show ?thesis using pts7_range [OF assms] by (intro c7.pointsI) simp_all
qed

lemma curve_law_witness:
  "ec_sum (1::7) (Aff 4 1) (Aff 4 1)
     (pt_val of_int (element_mul (curve_table gmp_ref cdp7 6) (curve_init cdp7)
        \<lparr> inf_flag = 0, pt_x = 4, pt_y = 1 \<rparr> \<lparr> inf_flag = 0, pt_x = 4, pt_y = 1 \<rparr>))"
proof -
  have p: "\<lparr> inf_flag = 0, pt_x = 4, pt_y = 1 \<rparr> \<in> curve_points cdp7 {0..<7} (of_int :: int \<Rightarrow> 7)"
    by (rule point_7) (simp add: pts7_def)
  from curve_law [OF c7.curve_field_axioms c7.curve_init_ok(1) p p, of gmp_ref 6]
  show ?thesis by (simp add: pt_val_def)
qed

section \<open>The invariant\<close>

text \<open>
  The points that the operations of a curve can produce, the exponentiation, the reader of
  bytes, the search for a random point and the hash included. Draws and coordinates read come
  from the base field.
\<close>

inductive curve_reach ::
  "gmp \<Rightarrow> 'a curve_data \<Rightarrow> int \<Rightarrow> 'a set \<Rightarrow> 'a point \<Rightarrow> bool"
  for G :: gmp and cdp :: "'a curve_data" and order :: int and V :: "'a set" where
  reach_init: "curve_reach G cdp order V (element_init (curve_table G cdp order))"
| reach_set: "curve_reach G cdp order V r \<Longrightarrow> curve_reach G cdp order V p \<Longrightarrow>
    curve_reach G cdp order V (element_set (curve_table G cdp order) r p)"
| reach_set1: "curve_reach G cdp order V r \<Longrightarrow>
    curve_reach G cdp order V (element_set1 (curve_table G cdp order) r)"
| reach_mul: "curve_reach G cdp order V r \<Longrightarrow> curve_reach G cdp order V p \<Longrightarrow> curve_reach G cdp order V q \<Longrightarrow>
    curve_reach G cdp order V (element_mul (curve_table G cdp order) r p q)"
| reach_square: "curve_reach G cdp order V r \<Longrightarrow> curve_reach G cdp order V p \<Longrightarrow>
    curve_reach G cdp order V (element_square (curve_table G cdp order) r p)"
| reach_invert: "curve_reach G cdp order V r \<Longrightarrow> curve_reach G cdp order V p \<Longrightarrow>
    curve_reach G cdp order V (element_invert (curve_table G cdp order) r p)"
| reach_pow: "curve_reach G cdp order V r \<Longrightarrow> curve_reach G cdp order V p \<Longrightarrow> 0 \<le> n \<Longrightarrow>
    curve_reach G cdp order V (element_pow_mpz G (curve_table G cdp order) r p n)"
| reach_mul_mpz: "curve_reach G cdp order V r \<Longrightarrow> curve_reach G cdp order V p \<Longrightarrow> 0 \<le> n \<Longrightarrow>
    curve_reach G cdp order V (element_mul_mpz (curve_table G cdp order) r p n)"
| reach_from_bytes: "curve_reach G cdp order V r \<Longrightarrow>
    element_from_bytes (cv_field cdp) (pt_x r) data = (x, k) \<Longrightarrow> x \<in> V \<Longrightarrow>
    element_from_bytes (cv_field cdp) (pt_y r) (drop k data) = (y, l) \<Longrightarrow> y \<in> V \<Longrightarrow>
    curve_reach G cdp order V (fst (element_from_bytes (curve_table G cdp order) r data))"
| reach_random: "curve_reach G cdp order V r \<Longrightarrow>
    (\<And>c x. x \<in> V \<Longrightarrow> fst (element_random (cv_field cdp) R c x) \<in> V) \<Longrightarrow>
    curve_random_solvefory G cdp order R c r = Some (q, c') \<Longrightarrow> curve_reach G cdp order V q"
| reach_from_hash: "curve_reach G cdp order V r \<Longrightarrow> field_hash (cv_field cdp) V data H \<Longrightarrow>
    element_from_hash (curve_table G cdp order) r data = Some q \<Longrightarrow> curve_reach G cdp order V q"



section \<open>Comparison, bytes and strings\<close>

text \<open>
  \<open>element_cmp\<close> of two points decides equality when neither is infinity. When the first
  is infinity its answer is inverted: it reports equality exactly when the second is not
  infinity.
\<close>

theorem curve_cmp_cases:
  fixes G :: gmp and order :: int
  assumes "curve_field cdp V \<alpha>" "p \<in> curve_points cdp V \<alpha>" "q \<in> curve_points cdp V \<alpha>"
  defines "F \<equiv> curve_table G cdp order"
  shows "(pt_val \<alpha> p \<noteq> Inf \<and> pt_val \<alpha> q \<noteq> Inf \<longrightarrow> (element_cmp F p q = 0 \<longleftrightarrow> pt_val \<alpha> p = pt_val \<alpha> q)) \<and>
    (pt_val \<alpha> p = Inf \<longrightarrow> (element_cmp F p q = 0 \<longleftrightarrow> pt_val \<alpha> q \<noteq> Inf))"
  using curve_field.curve_cmp_ok [OF assms(1-3)] unfolding F_def curve_table_simps
  by (simp add: pt_val_def split: if_splits)

lemma curve_cmp_cases_witness:
  "let F = curve_table gmp_ref cdp7 6; z = element_init F in
   element_cmp F z z \<noteq> 0 \<and> element_cmp F z \<lparr> inf_flag = 0, pt_x = 4, pt_y = 1 \<rparr> = 0"
proof -
  have p: "\<lparr> inf_flag = 0, pt_x = 4, pt_y = 1 \<rparr> \<in> curve_points cdp7 {0..<7} (of_int :: int \<Rightarrow> 7)"
    by (rule point_7) (simp add: pts7_def)
  note O = c7.curve_init_ok
  show ?thesis
    using curve_cmp_cases [OF c7.curve_field_axioms O(1) O(1), of gmp_ref 6]
      curve_cmp_cases [OF c7.curve_field_axioms O(1) p, of gmp_ref 6] O(2)
    by (simp add: Let_def) (simp add: pt_val_def)
qed

lemma roundtrip_7:
  "\<forall>n\<in>{0..<7}. \<forall>a\<in>{0..<7}. \<forall>rest. element_from_bytes (cv_field cdp7) n (element_to_bytes (cv_field cdp7) a @ rest) =
     (a, length (element_to_bytes (cv_field cdp7) a))"
  using zp_to_bytes_ok [OF gmp_ref.gmp_laws_axioms] unfolding base7 by simp

text \<open>
  C32: Points as bytes: an affine point is read back from the bytes written for it, whatever
  follows. A point that was set to infinity still has its old coordinates and they are
  written, so that reading gives the old point and not infinity.
\<close>

theorem curve_bytes_roundtrip:
  fixes G :: gmp and order :: int
  assumes "curve_field cdp V \<alpha>" "p \<in> curve_points cdp V \<alpha>" "q \<in> curve_points cdp V \<alpha>" "inf_flag p = 0"
    and bytes: "\<forall>n\<in>V. \<forall>a\<in>V. \<forall>rest. element_from_bytes (cv_field cdp) n (element_to_bytes (cv_field cdp) a @ rest) =
      (a, length (element_to_bytes (cv_field cdp) a))"
  defines "F \<equiv> curve_table G cdp order"
  shows "element_from_bytes F q (element_to_bytes F p @ rest) = (p, length (element_to_bytes F p)) \<and>
    element_from_bytes F q (element_to_bytes F (element_set1 F p) @ rest) = (p, length (element_to_bytes F p)) \<and>
    pt_val \<alpha> (element_set1 F p) = Inf"
proof -
  note pV = curve_field.points_coord [OF assms(1,2)] and qV = curve_field.points_coord [OF assms(1,3)]
  let ?x = "element_to_bytes (cv_field cdp) (pt_x p)" and ?y = "element_to_bytes (cv_field cdp) (pt_y p)"
  have x: "element_from_bytes (cv_field cdp) (pt_x q) ((?x @ ?y) @ rest) = (pt_x p, length ?x)"
    using bytes qV(1) pV(1) by simp
  have y: "element_from_bytes (cv_field cdp) (pt_y q) (drop (length ?x) ((?x @ ?y) @ rest)) = (pt_y p, length ?y)"
    using bytes qV(2) pV(2) by simp
  have on: "on_curve (\<alpha> (cv_a cdp)) (\<alpha> (cv_b cdp)) (Aff (\<alpha> (pt_x p)) (\<alpha> (pt_y p)))"
    using assms(2,4) by (simp add: curve_points_def pt_val_def)
  have "curve_from_bytes cdp q ((?x @ ?y) @ rest) = (p, length (?x @ ?y))"
    using curve_field.curve_from_bytes_ok(3) [OF assms(1,3) x pV(1) y pV(2) on]
      curve_field.curve_from_bytes_ok(2) [OF assms(1,3) x pV(1) y pV(2)] assms(4)
    by (intro prod_eqI) simp_all
  then show ?thesis
    unfolding F_def curve_table_simps curve_to_bytes_def by (simp add: curve_set1_def pt_val_def)
qed

lemma curve_bytes_roundtrip_witness:
  "let F = curve_table gmp_ref cdp7 6; p = \<lparr> inf_flag = 0, pt_x = 4, pt_y = 1 \<rparr> in
   fst (element_from_bytes F (element_init F) (element_to_bytes F (element_set1 F p) @ [])) = p"
proof -
  have p: "\<lparr> inf_flag = 0, pt_x = 4, pt_y = 1 \<rparr> \<in> curve_points cdp7 {0..<7} (of_int :: int \<Rightarrow> 7)"
    by (rule point_7) (simp add: pts7_def)
  from curve_bytes_roundtrip [OF c7.curve_field_axioms p c7.curve_init_ok(1) _ roundtrip_7, of gmp_ref 6 "[]"]
  show ?thesis unfolding Let_def by simp
qed

text \<open>
  A string that is not a point: when \<open>curve_set_str\<close> finds neither \<open>O\<close> nor an opening
  bracket it returns 0 but leaves the destination flagged as an affine point with its old
  coordinates. For a fresh destination on a curve with \<open>b \<noteq> 0\<close> that is no point of the
  curve.
\<close>

theorem curve_set_str_error:
  assumes "curve_field cdp V \<alpha>" "\<alpha> (cv_b cdp) \<noteq> 0"
    and "\<forall>c. skip_space s \<noteq> CHR ''O'' # c \<and> skip_space s \<noteq> CHR ''['' # c"
  shows "\<exists>q. curve_set_str cdp sst (curve_init cdp) s = (q, 0) \<and> inf_flag q = 0 \<and> curve_is_valid_point cdp q = 0"
proof -
  let ?q = "(curve_init cdp)\<lparr> inf_flag := 0 \<rparr>"
  note f = curve_field.axioms(1) [OF assms(1)]
  have init: "element_init (cv_field cdp) \<in> V" "\<alpha> (element_init (cv_field cdp)) = 0"
    using f by (simp_all add: field_impl_def ring_impl_def ring_impl_axioms_def monoid_impl_def magma_impl_def)
  have "curve_set_str cdp sst (curve_init cdp) s = (?q, 0)"
    using assms(3) by (cases "skip_space s") (auto simp: curve_set_str_def Let_def curve_set1_def curve_init_def)
  moreover have "\<not> on_curve (\<alpha> (cv_a cdp)) (\<alpha> (cv_b cdp)) (pt_val \<alpha> ?q)"
    using assms(2) init(2) by (simp add: pt_val_def curve_init_def)
  then have "curve_is_valid_point cdp ?q = 0"
    using curve_field.curve_is_valid_point_ok [OF assms(1), of ?q] init(1) by (simp add: curve_init_def)
  ultimately show ?thesis by simp
qed

lemma curve_set_str_error_witness:
  "\<exists>q. curve_set_str cdp7 (\<lambda>e s. (e, 0)) (curve_init cdp7) ''(4,1)'' = (q, 0) \<and> curve_is_valid_point cdp7 q = 0"
proof -
  have "skip_space ''(4,1)'' = ''(4,1)''" by code_simp
  moreover have "(3 :: 7) \<noteq> 0" using eq_7 [of 3 0] by simp
  ultimately show ?thesis
    using curve_set_str_error [OF c7.curve_field_axioms, of "''(4,1)''" "\<lambda>e s. (e, 0)"] by auto
qed

text \<open>
  C33: Compressed points: the abscissa and one byte for the sign of the ordinate determine an
  affine point. Reading them back recomputes the ordinate by a square root and fixes its sign.
\<close>

theorem curve_compressed_roundtrip:
  assumes "curve_sqrt cdp V \<alpha> G" "sign_rule (cv_field cdp) V \<alpha>"
    and "p \<in> curve_points cdp V \<alpha>" "inf_flag p = 0" "q \<in> curve_points cdp V \<alpha>"
    and "\<forall>n\<in>V. \<forall>a\<in>V. \<forall>rest. element_from_bytes (cv_field cdp) n (element_to_bytes (cv_field cdp) a @ rest) =
      (a, length (element_to_bytes (cv_field cdp) a))"
  shows "\<exists>r. element_from_bytes_compressed cdp q (element_to_bytes_compressed cdp p @ rest) =
      (r, length (element_to_bytes_compressed cdp p)) \<and> r \<in> curve_points cdp V \<alpha> \<and> pt_val \<alpha> r = pt_val \<alpha> p"
proof -
  note cf = curve_sqrt.axioms_curve_field [OF assms(1)]
  have "element_from_bytes (cv_field cdp) (pt_x q) (element_to_bytes (cv_field cdp) (pt_x p) @ bs @ rest) =
      (pt_x p, length (element_to_bytes (cv_field cdp) (pt_x p)))" for bs
    using assms(6) curve_field.points_coord(1) [OF cf assms(3)] curve_field.points_coord(1) [OF cf assms(5)] by simp
  from curve_sqrt.compressed_ok [OF assms(1-5) this refl]
  show ?thesis by (metis prod.collapse)
qed

lemma sign_rule_7: "sign_rule (cv_field cdp7) {0..<7} (of_int :: int \<Rightarrow> 7)"
proof -
  have "zp_sgn_odd gmp_ref a = zp_sgn_odd gmp_ref b" if "a \<in> {0..<7}" "b \<in> {0..<7}" "(of_int a :: 7) = of_int b" for a b
    using that by (simp add: eq_7)
  moreover have "zp_sgn_odd gmp_ref (zp_neg gmp_ref 7 a) = - zp_sgn_odd gmp_ref a"
    "zp_sgn_odd gmp_ref a = 0 \<longleftrightarrow> (of_int a :: 7) = 0" if "a \<in> {0..<7}" for a
    using that zp_sgn_odd_neg [OF gmp_ref.gmp_laws_axioms, of 7 a] eq_7 [of a 0] by simp_all
  ultimately show ?thesis unfolding sign_rule_def base7 by (intro conjI ballI impI) blast+
qed

lemma curve_compressed_roundtrip_witness:
  "let p = \<lparr> inf_flag = 0, pt_x = 4, pt_y = 6 \<rparr>
   in pt_val (of_int :: int \<Rightarrow> 7)
     (fst (element_from_bytes_compressed cdp7 (curve_init cdp7) (element_to_bytes_compressed cdp7 p @ []))) =
     pt_val of_int p"
proof -
  have p: "\<lparr> inf_flag = 0, pt_x = 4, pt_y = 6 \<rparr> \<in> curve_points cdp7 {0..<7} (of_int :: int \<Rightarrow> 7)"
    by (rule point_7) (simp add: pts7_def)
  from curve_compressed_roundtrip [OF c7.curve_sqrt_axioms sign_rule_7 p _ c7.curve_init_ok(1) roundtrip_7, of "[]"]
  show ?thesis by (auto simp: Let_def)
qed

section \<open>Hashing to the curve\<close>

text \<open>
  C34: \<open>curve_from_hash\<close> counts the first byte of the data up until its hash is an abscissa.
  It returns if and only if one of the 256 values of that byte gives an abscissa, and loops for
  ever otherwise. What it returns is on the curve, and without a cofactor its abscissa is the
  hash of the first string that works.
\<close>

theorem curve_from_hash_returns:
  fixes order :: int
  assumes "curve_sqrt cdp V \<alpha> G" "field_hash (cv_field cdp) V data H" "p \<in> curve_points cdp V \<alpha>"
    and "\<And>h. cv_cofac cdp = Some h \<Longrightarrow> 0 \<le> h"
  defines "res \<equiv> element_from_hash (curve_table G cdp order) p data"
  shows "(res \<noteq> None \<longleftrightarrow> (\<exists>k<256. curve_abscissa cdp V \<alpha> (H (bump k data)))) \<and>
    (\<forall>q. res = Some q \<longrightarrow> q \<in> curve_points cdp V \<alpha> \<and>
      (cv_cofac cdp = None \<longrightarrow> (\<forall>k. (\<forall>j<k. \<not> curve_abscissa cdp V \<alpha> (H (bump j data))) \<and>
        curve_abscissa cdp V \<alpha> (H (bump k data)) \<longrightarrow> pt_x q = H (bump k data))))"
  using curve_sqrt.curve_from_hash_ok [OF assms(1-4)] unfolding res_def curve_table_simps by blast

lemma curve_from_hash_returns_witness:
  "\<exists>q. element_from_hash (curve_table gmp_ref cdp257 0) (curve_init cdp257) [0, 0] = Some q \<and>
     curve_is_valid_point cdp257 q \<noteq> 0"
proof -
  have "\<exists>k<256. curve_abscissa cdp257 {0..<257} (of_int :: int \<Rightarrow> 257) (hash257 (bump k [0, 0]))"
    using abscissa_257 by (intro exI [of _ 0]) simp
  then show ?thesis
    using curve_from_hash_returns [OF c257.curve_sqrt_axioms field_hash_257 c257.curve_init_ok(1), of 0]
      c257.points_iff by auto
qed

section \<open>Multiples of a point\<close>

text \<open>
  C35: \<open>element_mul_mpz\<close> on points, which runs the exponentiation with a sliding window, computes
  multiples: every map of the points into a monoid that respects sums turns it into powers.
\<close>

theorem curve_mul_mpz_power:
  fixes order :: int
  assumes "curve_hom cdp V \<alpha> G h" "x \<in> curve_points cdp V \<alpha>" "p \<in> curve_points cdp V \<alpha>" "0 \<le> n"
  defines "r \<equiv> element_mul_mpz (curve_table G cdp order) x p n"
  shows "r \<in> curve_points cdp V \<alpha> \<and> h (pt_val \<alpha> r) = h (pt_val \<alpha> p) ^ nat n"
  using curve_hom.curve_mul_mpz_ok [OF assms(1-4)] unfolding r_def by simp

lemma curve_mul_mpz_power_witness:
  "pt_val (of_int :: int \<Rightarrow> 7)
     (element_mul_mpz (curve_table gmp_ref cdp7 6) (curve_init cdp7) \<lparr> inf_flag = 0, pt_x = 4, pt_y = 1 \<rparr> 6) = Inf"
proof -
  have p: "\<lparr> inf_flag = 0, pt_x = 4, pt_y = 1 \<rparr> \<in> curve_points cdp7 {0..<7} (of_int :: int \<Rightarrow> 7)"
    by (rule point_7) (simp add: pts7_def)
  let ?r = "element_mul_mpz (curve_table gmp_ref cdp7 6) (curve_init cdp7) \<lparr> inf_flag = 0, pt_x = 4, pt_y = 1 \<rparr> 6"
  have r: "?r \<in> curve_points cdp7 {0..<7} (of_int :: int \<Rightarrow> 7)" "h7 (pt_val of_int ?r) = h7 (Aff 4 1) ^ 6"
    using curve_mul_mpz_power [OF h7.curve_hom_axioms c7.curve_init_ok(1) p, of 6 6] by (simp_all add: pt_val_def)
  have "h7 (Aff 4 1) = 3" using h7_aff [of 4 1] by (simp add: log7_def)
  moreover have "(3 :: 7) ^ 6 = 1" using eq_7 [of "3 ^ 6" 1] by simp
  ultimately have "h7 (pt_val of_int ?r) = 1" using r(2) by simp
  then show ?thesis using kernel_7 h7.on_curve_val [OF r(1)] by simp
qed

text \<open>
  The square test for a group of even order \<open>2 m\<close> raises a point to the power \<open>m - 1\<close>,
  not \<open>m\<close>: in a group where \<open>h\<close> is injective at the neutral element, it accepts exactly the
  points that the \<open>(m - 1)\<close>-th power kills.
\<close>

theorem even_curve_is_sqr_power:
  assumes "curve_hom cdp V \<alpha> G h" "p \<in> curve_points cdp V \<alpha>" "0 < m"
    and "\<And>P. on_curve (\<alpha> (cv_a cdp)) (\<alpha> (cv_b cdp)) P \<Longrightarrow> h P = 1 \<Longrightarrow> P = Inf"
  shows "even_curve_is_sqr G (curve_base cdp (2 * m)) p \<noteq> 0 \<longleftrightarrow> h (pt_val \<alpha> p) ^ nat (m - 1) = 1"
  using curve_hom.even_curve_is_sqr_ok [OF assms] .

text \<open>
  On the curve with six points: \<open>(6, 6)\<close> is the double of \<open>(4, 1)\<close>, but the test refuses it;
  \<open>(5, 0)\<close> is no double and is accepted.
\<close>

lemma even_curve_is_sqr_power_witness:
  "even_curve_is_sqr gmp_ref (curve_base cdp7 (2 * 3)) \<lparr> inf_flag = 0, pt_x = 6, pt_y = 6 \<rparr> = 0 \<and>
   even_curve_is_sqr gmp_ref (curve_base cdp7 (2 * 3)) \<lparr> inf_flag = 0, pt_x = 5, pt_y = 0 \<rparr> \<noteq> 0"
proof -
  have p: "\<lparr> inf_flag = 0, pt_x = 6, pt_y = 6 \<rparr> \<in> curve_points cdp7 {0..<7} (of_int :: int \<Rightarrow> 7)"
    "\<lparr> inf_flag = 0, pt_x = 5, pt_y = 0 \<rparr> \<in> curve_points cdp7 {0..<7} (of_int :: int \<Rightarrow> 7)"
    by (rule point_7, simp add: pts7_def)+
  have "h7 (Aff 6 6) = of_int 2" "h7 (Aff 5 0) = of_int 6"
    using h7_aff [of 6 6] h7_aff [of 5 0] by (simp_all add: log7_def)
  then have "h7 (pt_val of_int \<lparr> inf_flag = 0, pt_x = 6, pt_y = 6 \<rparr>) ^ 2 \<noteq> (1 :: 7)"
    "h7 (pt_val of_int \<lparr> inf_flag = 0, pt_x = 5, pt_y = 0 \<rparr>) ^ 2 = (1 :: 7)"
    using eq_7 [of "2 ^ 2" 1] eq_7 [of "6 ^ 2" 1] by (simp_all add: pt_val_def)
  then show ?thesis
    using even_curve_is_sqr_power [OF h7.curve_hom_axioms p(1), of 3]
      even_curve_is_sqr_power [OF h7.curve_hom_axioms p(2), of 3] kernel_7 by simp
qed

section \<open>Coefficients\<close>

text \<open>
  The coefficients of the twist by a nonsquare \<open>v\<close>: the two sides of the equations at
  \<open>x\<close> and \<open>v x\<close> differ by the factor \<open>v^3\<close>, so that an abscissa where the first does not vanish
  belongs to the curve or, scaled, to the twist, and never to both.
\<close>

theorem twist_coeffs_abscissa:
  assumes "sqrt_field F V \<alpha> G" "v \<in> V" "element_is_sqr F v = 0" "a \<in> V" "b \<in> V" "x \<in> V"
  defines "t \<equiv> (\<alpha> x * \<alpha> x + \<alpha> a) * \<alpha> x + \<alpha> b"
    and "t' \<equiv> ((\<alpha> v * \<alpha> x) * (\<alpha> v * \<alpha> x) + \<alpha> (fst (twist_coeffs F v a b))) * (\<alpha> v * \<alpha> x) +
      \<alpha> (snd (twist_coeffs F v a b))"
  shows "t' = \<alpha> v * \<alpha> v * \<alpha> v * t \<and>
    (t \<noteq> 0 \<longrightarrow> ((\<exists>y\<in>V. \<alpha> y * \<alpha> y = t') \<longleftrightarrow> \<not> (\<exists>y\<in>V. \<alpha> y * \<alpha> y = t)))"
  using sqrt_field.twist_abscissas [OF assms(1-6)]
  unfolding t_def t'_def sqrt_field.has_sqrt_def [OF assms(1)] by blast

lemma twist_coeffs_abscissa_witness:
  "let F = field_set_nqr (field_init_naive_fp gmp_ref 7) 3
   in (of_int (snd (twist_coeffs F 3 1 3)) :: 7) = 4"
proof -
  have "element_is_sqr (field_set_nqr (field_init_naive_fp gmp_ref 7) 3) 3 = 0"
    unfolding fp7s.Fp_is_sqr by (rule nonresidue_7(2))
  from twist_coeffs_abscissa [OF fp7s.fps.sqrt_field_axioms _ this, of 1 3 0]
  have "(of_int (snd (twist_coeffs (field_set_nqr (field_init_naive_fp gmp_ref 7) 3) 3 1 3)) :: 7) = of_int (3 * 3 * 3 * 3)"
    by simp
  then show ?thesis using eq_7 [of "3 * 3 * 3 * 3" 4] unfolding Let_def by simp
qed

text \<open>
  The trace of Frobenius over the extension of degree \<open>n\<close>: with the trace and the norm
  of \<open>a\<close> and \<open>b\<close> given, \<open>compute_trace_n\<close> is \<open>a^n + b^n\<close>.
\<close>

theorem compute_trace_n_powers:
  fixes a b :: "'k::comm_ring_1"
  assumes "gmp_laws G" "a + b = of_int t" "a * b = of_int q" "0 < n"
  shows "of_int (compute_trace_n G q t n) = a ^ n + b ^ n"
  by (rule compute_trace_n_ok [OF assms])

lemma compute_trace_n_powers_witness:
  "compute_trace_n gmp_ref 6 5 4 = 2 ^ 4 + 3 ^ 4"
  using compute_trace_n_powers [OF gmp_ref.gmp_laws_axioms, of "2::int" 3 5 6 4] by simp

end
