(* ===== verification/FieldZ.thy ===== *)
theory FieldZ
  imports NaiveFp
begin

unbundle bit_operations_syntax

text \<open>
  The ring of integers, \<^verbatim>\<open>arith/fieldmpz.c\<close>: wrappers around GMP with OpenSSL's format for
  bytes. An \<open>unsigned long\<close> has 32 bits, so the count \<open>- 1\<close> that \<open>z_halve\<close> shifts by is
  \<open>ulong_max\<close>. \<open>mpz_export\<close> writes nothing for zero: the byte that \<open>z_to_bytes\<close> then leaves
  as it was in the caller's buffer is the argument \<open>old\<close>.
\<close>

section \<open>The operations\<close>

definition ulong_max :: nat where
  "ulong_max = 2 ^ 32 - 1"

definition z_init :: int where
  "z_init = 0"

definition z_set_si :: "int \<Rightarrow> int" where
  "z_set_si i = i"

definition z_set_mpz :: "int \<Rightarrow> int" where
  "z_set_mpz z = z"

definition z_set0 :: int where
  "z_set0 = 0"

definition z_set1 :: int where
  "z_set1 = 1"

definition z_sgn :: "gmp \<Rightarrow> int \<Rightarrow> int" where
  "z_sgn G a = mpz_sgn G a"

definition z_add :: "gmp \<Rightarrow> int \<Rightarrow> int \<Rightarrow> int" where
  "z_add G a b = mpz_add G a b"

definition z_sub :: "gmp \<Rightarrow> int \<Rightarrow> int \<Rightarrow> int" where
  "z_sub G a b = mpz_sub G a b"

definition z_square :: "gmp \<Rightarrow> int \<Rightarrow> int" where
  "z_square G a = mpz_mul G a a"

definition z_double :: "gmp \<Rightarrow> int \<Rightarrow> int" where
  "z_double G a = mpz_mul_2exp G a 1"

definition z_halve :: "gmp \<Rightarrow> int \<Rightarrow> int" where
  "z_halve G a = mpz_tdiv_q_2exp G a ulong_max"

definition z_mul :: "gmp \<Rightarrow> int \<Rightarrow> int \<Rightarrow> int" where
  "z_mul G a b = mpz_mul G a b"

definition z_mul_mpz :: "gmp \<Rightarrow> int \<Rightarrow> int \<Rightarrow> int" where
  "z_mul_mpz G a z = mpz_mul G a z"

definition z_mul_si :: "gmp \<Rightarrow> int \<Rightarrow> int \<Rightarrow> int" where
  "z_mul_si G a z = mpz_mul G a z"

definition z_pow_mpz :: "gmp \<Rightarrow> int \<Rightarrow> int \<Rightarrow> int" where
  "z_pow_mpz G a z = mpz_pow_ui G a (mpz_get_ui G z)"

definition z_set :: "int \<Rightarrow> int" where
  "z_set a = a"

definition z_neg :: "gmp \<Rightarrow> int \<Rightarrow> int" where
  "z_neg G a = mpz_neg G a"

definition z_invert :: "gmp \<Rightarrow> int \<Rightarrow> int" where
  "z_invert G a = (if mpz_cmpabs G a 1 = 0 then a else 0)"

definition z_div :: "gmp \<Rightarrow> int \<Rightarrow> int \<Rightarrow> int" where
  "z_div G a b = mpz_tdiv_q G a b"

definition z_random :: "nat \<Rightarrow> int \<times> nat" where
  "z_random i = (0, i)"

definition z_from_hash :: "gmp \<Rightarrow> byte list \<Rightarrow> int" where
  "z_from_hash G data = mpz_import_le G data"

definition z_is1 :: "gmp \<Rightarrow> int \<Rightarrow> int" where
  "z_is1 G n = (if mpz_cmp G n 1 = 0 then 1 else 0)"

definition z_is0 :: "gmp \<Rightarrow> int \<Rightarrow> int" where
  "z_is0 G n = (if mpz_is0 G n then 1 else 0)"

definition z_cmp :: "gmp \<Rightarrow> int \<Rightarrow> int \<Rightarrow> int" where
  "z_cmp G a b = mpz_cmp G a b"

definition z_is_sqr :: "gmp \<Rightarrow> int \<Rightarrow> int" where
  "z_is_sqr G a = (if mpz_perfect_power_p G a then 1 else 0)"

definition z_sqrt :: "gmp \<Rightarrow> int \<Rightarrow> int" where
  "z_sqrt G a = mpz_sqrt G a"

text \<open>The length in four bytes, most significant first.\<close>

definition length_bytes :: "nat \<Rightarrow> byte list" where
  "length_bytes n = map (\<lambda>i. word_of_nat (n div 2 ^ (8 * (3 - i)))) [0, 1, 2, 3]"

definition z_to_bytes :: "gmp \<Rightarrow> byte \<Rightarrow> int \<Rightarrow> byte list" where
  "z_to_bytes G old z = (
     let msb = mpz_sizeinbase G z 2;
         n = 4;
         (pad, n) = (if msb mod 8 = 0 then ([0], n + 1) else ([], n));
         written = (if mpz_sgn G z = 0 then [old] else mpz_export G z);
         body = pad @ written;
         body = (if mpz_sgn G z < 0 then (hd body OR 128) # tl body else body);
         n = n + (msb + 7) div 8 - 4
     in length_bytes n @ body)"

fun z_bytes_loop :: "gmp \<Rightarrow> byte list \<Rightarrow> nat \<Rightarrow> nat \<Rightarrow> int \<Rightarrow> int" where
  "z_bytes_loop G ptr n 0 z = z"
| "z_bytes_loop G ptr n (Suc k) z = (
     let i = n - Suc k;
         z1 = int (unat (ptr ! i));
         z1 = mpz_mul_2exp G z1 (8 * (n - 1 - i))
     in z_bytes_loop G ptr n k (mpz_add G z z1))"

definition z_from_bytes :: "gmp \<Rightarrow> byte list \<Rightarrow> int \<times> nat" where
  "z_from_bytes G data = (
     let n = unat (data ! 0) * 2 ^ 24 + unat (data ! 1) * 2 ^ 16 + unat (data ! 2) * 2 ^ 8 + unat (data ! 3);
         neg = (data ! 4 AND 128 \<noteq> 0);
         data = (if neg then data[4 := data ! 4 AND 127] else data);
         z = z_bytes_loop G (drop 4 data) n n 0
     in (if neg then mpz_neg G z else z, n))"

definition z_to_mpz :: "int \<Rightarrow> int" where
  "z_to_mpz a = a"

definition z_length_in_bytes :: "gmp \<Rightarrow> int \<Rightarrow> int" where
  "z_length_in_bytes G a = int ((mpz_sizeinbase G a 2 + 7) div 8 + 4)"

definition field_init_z :: "gmp \<Rightarrow> byte \<Rightarrow> int field_s" where
  "field_init_z G old = field_init\<lparr>
     f_init := z_init,
     f_set_si := Some (\<lambda>e. z_set_si),
     f_set_mpz := Some (\<lambda>e. z_set_mpz),
     f_sign := z_sgn G,
     f_add := (\<lambda>n. z_add G),
     f_sub := Some (\<lambda>n. z_sub G),
     f_set := (\<lambda>n. z_set),
     f_square := Some (\<lambda>n. z_square G),
     f_doub := Some (\<lambda>n. z_double G),
     f_halve := Some (\<lambda>n. z_halve G),
     f_mul := (\<lambda>n. z_mul G),
     f_mul_mpz := Some (\<lambda>n. z_mul_mpz G),
     f_mul_si := Some (\<lambda>n. z_mul_si G),
     f_pow_mpz := Some (\<lambda>n. z_pow_mpz G),
     f_neg := (\<lambda>n. z_neg G),
     f_cmp := Some (z_cmp G),
     f_invert := (\<lambda>n. z_invert G),
     f_div := Some (\<lambda>n. z_div G),
     f_random := Some (\<lambda>R i e. z_random i),
     f_from_hash := (\<lambda>n data. Some (z_from_hash G data)),
     f_is1 := Some (z_is1 G),
     f_is0 := Some (z_is0 G),
     f_set0 := (\<lambda>n. z_set0),
     f_set1 := (\<lambda>n. z_set1),
     f_is_sqr := z_is_sqr G,
     f_sqrt := (\<lambda>nqr x. z_sqrt G),
     f_to_bytes := z_to_bytes G old,
     f_from_bytes := (\<lambda>e. z_from_bytes G),
     f_to_mpz := Some z_to_mpz,
     f_length_in_bytes := z_length_in_bytes G,
     f_order := 0,
     f_fixed_length := - 1 \<rparr>"

section \<open>The ring\<close>

lemmas z_dispatch = field_init_z_def field_init_def dispatch

lemmas z_ops = z_init_def z_set_si_def z_set_mpz_def z_set0_def z_set1_def z_sgn_def z_add_def
  z_sub_def z_square_def z_double_def z_mul_def z_mul_mpz_def z_mul_si_def z_set_def z_neg_def
  z_is1_def z_is0_def z_cmp_def

locale z_env = gmp_laws G for G :: gmp

sublocale z_env \<subseteq> z: ring_impl "field_init_z G old" UNIV "id :: int \<Rightarrow> int"
  by unfold_locales (simp_all add: z_dispatch z_ops gmp_law)

section \<open>Bytes\<close>

lemma bytes_val_Cons: "bytes_val (b # bs) = unat b * 256 ^ length bs + bytes_val bs"
  using bytes_val_append [of "[b]" bs] by (simp add: bytes_val_def)

lemma length_bytes_val:
  assumes "n < 2 ^ 32" "length_bytes n @ rest = data"
  shows "unat (data ! 0) * 2 ^ 24 + unat (data ! 1) * 2 ^ 16 + unat (data ! 2) * 2 ^ 8 + unat (data ! 3) = n"
proof -
  have n: "n div 2 ^ 24 mod 256 = n div 2 ^ 24" using assms(1) by (simp add: div_less_iff_less_mult)
  have d: "n div 2 ^ 24 * 2 ^ 24 + n div 2 ^ 16 mod 256 * 2 ^ 16 + n div 2 ^ 8 mod 256 * 2 ^ 8 + n mod 256 = n"
  proof -
    have *: "n div 2 ^ 16 = n div 2 ^ 8 div 256" "n div 2 ^ 24 = n div 2 ^ 16 div 256"
      by (simp_all add: div_mult2_eq [symmetric])
    define a b c where "a = n div 2 ^ 8" and "b = a div 256" and "c = b div 256"
    have "c * 256 + b mod 256 = b" "b * 256 + a mod 256 = a" "a * 256 + n mod 256 = n"
      unfolding a_def b_def c_def by simp_all
    then have "c * 2 ^ 24 + b mod 256 * 2 ^ 16 + a mod 256 * 2 ^ 8 + n mod 256 = n" by simp
    then show ?thesis unfolding * a_def b_def c_def .
  qed
  have w: "unat (word_of_nat k :: byte) = k mod 256" for k by (simp add: unat_of_nat)
  have "data ! 0 = word_of_nat (n div 2 ^ 24)" "data ! 1 = word_of_nat (n div 2 ^ 16)"
    "data ! 2 = word_of_nat (n div 2 ^ 8)" "data ! 3 = word_of_nat n"
    unfolding assms(2) [symmetric] length_bytes_def by simp_all
  then show ?thesis using d n by (simp add: w)
qed

lemma z_bytes_loop_ok:
  assumes G: "gmp_laws G" and "n \<le> length ptr" "k \<le> n"
    and "z = int (bytes_val (take (n - k) ptr) * 256 ^ k)"
  shows "z_bytes_loop G ptr n k z = int (bytes_val (take n ptr))"
  using assms(3,4)
proof (induction k arbitrary: z)
  case 0
  then show ?case by simp
next
  case (Suc k)
  have i: "n - k = Suc (n - Suc k)" "n - 1 - (n - Suc k) = k" "n - Suc k < length ptr"
    using Suc.prems(1) assms(2) by simp_all
  have p: "(2::int) ^ (8 * k) = 256 ^ k" by (simp add: power_mult)
  have "bytes_val (take (n - k) ptr) = 256 * bytes_val (take (n - Suc k) ptr) + unat (ptr ! (n - Suc k))"
    unfolding i(1) take_Suc_conv_app_nth [OF i(3)] by simp
  then have "z + int (unat (ptr ! (n - Suc k))) * 256 ^ k = int (bytes_val (take (n - k) ptr) * 256 ^ k)"
    unfolding Suc.prems(2) by (simp add: algebra_simps)
  with Suc.IH Suc.prems(1) show ?case
    by (simp add: Let_def i gmp_laws.add [OF G] gmp_laws.mul_2exp [OF G] p)
qed

lemma top_bit_small: "unat (b :: byte) < 128 \<Longrightarrow> b AND 128 = 0 \<and> b AND 127 = b \<and> (b OR 128) AND 127 = b \<and> (b OR 128) AND 128 \<noteq> 0"
proof -
  have "list_all (\<lambda>k. (word_of_nat k :: byte) AND 128 = 0 \<and> (word_of_nat k :: byte) AND 127 = word_of_nat k \<and>
      ((word_of_nat k :: byte) OR 128) AND 127 = word_of_nat k \<and> ((word_of_nat k :: byte) OR 128) AND 128 \<noteq> 0) [0..<128]"
    by code_simp
  moreover assume "unat b < 128"
  then have "unat b \<in> set [0..<128]" by simp
  moreover have "(word_of_nat (unat b) :: byte) = b" by simp
  ultimately show ?thesis unfolding list_all_iff by metis
qed

text \<open>The bytes after the length: their value is \<open>|z|\<close> and their top bit is free.\<close>

definition z_body :: "int \<Rightarrow> byte list" where
  "z_body z = (let msb = nbits (nat \<bar>z\<bar>) in
     (if msb mod 8 = 0 then [0] else []) @ low_bytes ((msb + 7) div 8) (nat \<bar>z\<bar>))"

lemma low_bytes_Suc_hd: "low_bytes (Suc k) n = word_of_nat (n div 256 ^ k) # low_bytes k n"
proof (induction k arbitrary: n)
  case 0
  have "(word_of_nat (n mod 256) :: byte) = word_of_nat n"
    by (rule word_of_nat_eq_iff [THEN iffD2]) (simp add: take_bit_eq_mod)
  then show ?case by simp
next
  case (Suc k)
  show ?case
    by (subst low_bytes.simps(2), subst Suc.IH) (simp add: div_mult2_eq)
qed

lemma z_body_ok:
  assumes "z \<noteq> 0"
  shows "z_body z \<noteq> []" and "unat (hd (z_body z)) < 128" and "bytes_val (z_body z) = nat \<bar>z\<bar>"
    and "length (z_body z) = (nbits (nat \<bar>z\<bar>) + 7) div 8 + (if nbits (nat \<bar>z\<bar>) mod 8 = 0 then 1 else 0)"
proof -
  define m where "m = nbits (nat \<bar>z\<bar>)"
  define k where "k = (m + 7) div 8 - 1"
  have m: "0 < m" by (simp add: m_def)
  then have k: "(m + 7) div 8 = Suc k" "m \<le> 8 * k + 8" unfolding k_def by linarith+
  have body: "z_body z = (if m mod 8 = 0 then [0] else []) @ low_bytes (Suc k) (nat \<bar>z\<bar>)"
    unfolding z_body_def Let_def m_def [symmetric] k(1) ..
  show "z_body z \<noteq> []" unfolding body by simp
  show "length (z_body z) = (nbits (nat \<bar>z\<bar>) + 7) div 8 + (if nbits (nat \<bar>z\<bar>) mod 8 = 0 then 1 else 0)"
    unfolding m_def [symmetric] k(1) body by simp
  have "nat \<bar>z\<bar> < 2 ^ m" unfolding m_def by (rule nbits_upper)
  also have "(2::nat) ^ m \<le> 2 ^ (8 * Suc k)" using k(2) by (intro power_increasing) simp_all
  also have "\<dots> = 256 ^ Suc k" by (simp add: power_add power_mult)
  finally have "bytes_val (low_bytes (Suc k) (nat \<bar>z\<bar>)) = nat \<bar>z\<bar>" unfolding bytes_val_low_bytes by simp
  then show "bytes_val (z_body z) = nat \<bar>z\<bar>" unfolding body using bytes_val_replicate_0 [of 1] by simp
  show "unat (hd (z_body z)) < 128"
  proof (cases "m mod 8 = 0")
    case True
    then show ?thesis unfolding body by simp
  next
    case False
    then have "m \<noteq> 8 * k + 8" by auto
    then have "m \<le> 8 * k + 7" using k(2) by linarith
    then have "(2::nat) ^ m \<le> 2 ^ (8 * k + 7)" by (intro power_increasing) simp_all
    also have "\<dots> = 128 * 256 ^ k" by (simp add: power_add power_mult)
    finally have "nat \<bar>z\<bar> < 128 * 256 ^ k" by (rule less_le_trans [OF \<open>nat \<bar>z\<bar> < 2 ^ m\<close>])
    then have "nat \<bar>z\<bar> div 256 ^ k < 128" by (simp add: div_less_iff_less_mult)
    then show ?thesis using False unfolding body low_bytes_Suc_hd by (simp add: unat_of_nat)
  qed
qed

lemma z_to_bytes_eq:
  assumes G: "gmp_laws G" and "z \<noteq> 0"
  shows "z_to_bytes G old z = length_bytes (length (z_body z)) @
    (if z < 0 then (hd (z_body z) OR 128) # tl (z_body z) else z_body z)"
proof -
  have "length (z_body z) = 4 + (if nbits (nat \<bar>z\<bar>) mod 8 = 0 then 1 else 0) + (nbits (nat \<bar>z\<bar>) + 7) div 8 - 4"
    using z_body_ok(4) [OF assms(2)] by simp
  then show ?thesis using assms(2)
    by (simp add: z_to_bytes_def gmp_laws.sizeinbase [OF G] gmp_laws.sgn [OF G] gmp_laws.export [OF G assms(2)]
        z_body_def Let_def sgn_if)
qed

lemma length_length_bytes [simp]: "length (length_bytes n) = 4"
  by (simp add: length_bytes_def)

lemma z_bytes_ok:
  assumes G: "gmp_laws G" and z: "z \<noteq> 0" and n: "length (z_body z) < 2 ^ 32"
  shows "length (z_to_bytes G old z) = length (z_body z) + 4"
    and "z_from_bytes G (z_to_bytes G old z @ rest) = (z, length (z_body z))"
proof -
  obtain b bs where body: "z_body z = b # bs" using z_body_ok(1) [OF z] by (cases "z_body z") auto
  have b: "unat b < 128" using z_body_ok(2) [OF z] body by simp
  note bits = top_bit_small [OF b]
  define b' where "b' = (if z < 0 then b OR 128 else b)"
  have data: "z_to_bytes G old z @ rest = length_bytes (length (b # bs)) @ b' # bs @ rest"
    unfolding z_to_bytes_eq [OF G z] body b'_def by simp
  show "length (z_to_bytes G old z) = length (z_body z) + 4" unfolding z_to_bytes_eq [OF G z] body by simp
  have len: "unat ((z_to_bytes G old z @ rest) ! 0) * 2 ^ 24 + unat ((z_to_bytes G old z @ rest) ! 1) * 2 ^ 16 +
      unat ((z_to_bytes G old z @ rest) ! 2) * 2 ^ 8 + unat ((z_to_bytes G old z @ rest) ! 3) = length (b # bs)"
    using length_bytes_val [OF n [unfolded body] data [symmetric]] .
  have nth: "(z_to_bytes G old z @ rest) ! 4 = b'" unfolding data by (simp add: nth_append)
  have neg: "b' AND 128 \<noteq> 0 \<longleftrightarrow> z < 0" "(if z < 0 then b' AND 127 else b') = b" using bits unfolding b'_def by auto
  have ptr: "drop 4 (if z < 0 then (z_to_bytes G old z @ rest)[4 := b' AND 127] else z_to_bytes G old z @ rest) = b # bs @ rest"
    using neg(2) unfolding data by (cases "z < 0") (simp_all add: list_update_append)
  have "bytes_val (take (length (b # bs)) (b # bs @ rest)) = nat \<bar>z\<bar>"
    using z_body_ok(3) [OF z] unfolding body by simp
  then have loop: "z_bytes_loop G (b # bs @ rest) (length (b # bs)) (length (b # bs)) 0 = \<bar>z\<bar>"
    using z_bytes_loop_ok [OF G, of "length (b # bs)" "b # bs @ rest" "length (b # bs)" 0] by simp
  show "z_from_bytes G (z_to_bytes G old z @ rest) = (z, length (z_body z))"
    unfolding z_from_bytes_def len Let_def nth neg(1) ptr loop body by (simp add: gmp_laws.neg [OF G])
qed

end
