(* ===== verification/TinyFp.thy ===== *)
theory TinyFp
  imports NaiveFp
begin

unbundle bit_operations_syntax

text \<open>
  \<open>F_p\<close> for a modulus that fits an \<open>unsigned long\<close>, \<^verbatim>\<open>arith/tinyfp.c\<close>: residues are words
  of 32 bits and every operation is on machine words, with the wrap-around of C. Powers and
  inverses go through GMP. \<open>same\<close> tells whether the two arguments of \<open>fp_double\<close> are the same
  object, since the code reads its argument after it has written its result.
\<close>

type_synonym ulong = "32 word"

section \<open>The operations\<close>

definition tiny_init :: ulong where
  "tiny_init = 0"

definition tiny_set_mpz :: "gmp \<Rightarrow> ulong \<Rightarrow> int \<Rightarrow> ulong" where
  "tiny_set_mpz G p z = (
     let r = mpz_fdiv_r_ui G z (unat p)
     in word_of_nat (mpz_get_ui G r))"

definition tiny_set_si :: "ulong \<Rightarrow> int \<Rightarrow> ulong" where
  "tiny_set_si p i = (
     if i < 0 then
       let d = word_of_int (- i) mod p
       in p - d
     else word_of_int i mod p)"

definition tiny_to_mpz :: "ulong \<Rightarrow> int" where
  "tiny_to_mpz e = uint e"

definition tiny_set0 :: ulong where
  "tiny_set0 = 0"

definition tiny_set1 :: ulong where
  "tiny_set1 = 1"

definition tiny_is1 :: "ulong \<Rightarrow> int" where
  "tiny_is1 e = (if e = 1 then 1 else 0)"

definition tiny_is0 :: "ulong \<Rightarrow> int" where
  "tiny_is0 e = (if e = 0 then 1 else 0)"

definition tiny_add :: "ulong \<Rightarrow> ulong \<Rightarrow> ulong \<Rightarrow> ulong" where
  "tiny_add prime p q = (
     let l0 = p + q;
         l0 = (if l0 < p then l0 - prime else l0)
     in l0 mod prime)"

definition tiny_double :: "bool \<Rightarrow> ulong \<Rightarrow> ulong \<Rightarrow> ulong" where
  "tiny_double same prime p = (
     let r = 2 * p;
         p = (if same then r else p);
         r = (if r < p then r - prime else r)
     in r mod prime)"

definition tiny_sub :: "ulong \<Rightarrow> ulong \<Rightarrow> ulong \<Rightarrow> ulong" where
  "tiny_sub prime p q = (if p \<ge> q then p - q else prime - q + p)"

text \<open>The product is taken in 32 bits before it is widened.\<close>

definition tiny_mul :: "ulong \<Rightarrow> ulong \<Rightarrow> ulong \<Rightarrow> ulong" where
  "tiny_mul prime p q = (
     let ll = ucast (p * q) :: 64 word
     in ucast (ll mod ucast prime))"

definition tiny_square :: "ulong \<Rightarrow> ulong \<Rightarrow> ulong" where
  "tiny_square prime a = tiny_mul prime a a"

definition tiny_neg :: "ulong \<Rightarrow> ulong \<Rightarrow> ulong" where
  "tiny_neg prime p = (if p \<noteq> 0 then prime - p else 0)"

definition tiny_mul_si :: "ulong \<Rightarrow> ulong \<Rightarrow> int \<Rightarrow> ulong" where
  "tiny_mul_si prime p i = (
     let ll = ucast (p * word_of_int i) :: 64 word
     in ucast (ll mod ucast prime))"

definition tiny_pow_mpz :: "gmp \<Rightarrow> int \<Rightarrow> ulong \<Rightarrow> int \<Rightarrow> ulong" where
  "tiny_pow_mpz G order a i = (
     let z = tiny_to_mpz a;
         z = mpz_powm G z i order
     in word_of_nat (mpz_get_ui G z))"

definition tiny_set :: "ulong \<Rightarrow> ulong" where
  "tiny_set a = a"

definition tiny_invert :: "gmp \<Rightarrow> int \<Rightarrow> ulong \<Rightarrow> ulong" where
  "tiny_invert G order a = (
     let z = tiny_to_mpz a;
         z = mpz_invert G z order
     in word_of_nat (mpz_get_ui G z))"

definition tiny_random :: "gmp \<Rightarrow> int \<Rightarrow> entropy \<Rightarrow> nat \<Rightarrow> ulong \<times> nat" where
  "tiny_random G order R i = (word_of_nat (mpz_get_ui G (R i order)), i + 1)"

definition tiny_from_hash :: "gmp \<Rightarrow> ulong \<Rightarrow> byte list \<Rightarrow> ulong" where
  "tiny_from_hash G p data = (
     let z = mpz_import_le G data
     in tiny_set_mpz G p z)"

definition tiny_cmp :: "ulong \<Rightarrow> ulong \<Rightarrow> int" where
  "tiny_cmp p q = (if p \<noteq> q then 1 else 0)"

definition tiny_sgn_odd :: "ulong \<Rightarrow> int" where
  "tiny_sgn_odd p = (if p = 0 then 0 else if p AND 1 \<noteq> 0 then 1 else - 1)"

definition tiny_is_sqr :: "gmp \<Rightarrow> int \<Rightarrow> ulong \<Rightarrow> int" where
  "tiny_is_sqr G order a = (
     if tiny_is0 a \<noteq> 0 then 1
     else
       let z = tiny_to_mpz a
       in if mpz_legendre G z order = 1 then 1 else 0)"

fun tiny_to_bytes :: "nat \<Rightarrow> ulong \<Rightarrow> byte list" where
  "tiny_to_bytes 0 l = []"
| "tiny_to_bytes (Suc n) l = tiny_to_bytes n (drop_bit 8 l) @ [ucast l]"

fun tiny_bytes_loop :: "nat \<Rightarrow> byte list \<Rightarrow> ulong \<Rightarrow> ulong" where
  "tiny_bytes_loop 0 ptr p = p"
| "tiny_bytes_loop (Suc n) ptr p = tiny_bytes_loop n (tl ptr) (push_bit 8 p + ucast (hd ptr))"

definition tiny_from_bytes :: "nat \<Rightarrow> byte list \<Rightarrow> ulong \<times> nat" where
  "tiny_from_bytes n data = (tiny_bytes_loop n data 0, n)"

partial_function (option) tiny_length_loop :: "ulong \<Rightarrow> ulong \<Rightarrow> nat \<Rightarrow> nat option" where
  "tiny_length_loop p l n = (
     if l < p then tiny_length_loop p (push_bit 8 l + 255) (n + 1) else Some n)"

definition tiny_fp_base :: "gmp \<Rightarrow> int \<Rightarrow> ulong field_s" where
  "tiny_fp_base G prime = (
     let p = word_of_nat (mpz_get_ui G prime) :: ulong;
         n = (case tiny_length_loop p 255 1 of Some n \<Rightarrow> n | None \<Rightarrow> undefined)
     in field_init\<lparr>
       f_init := tiny_init,
       f_set_si := Some (\<lambda>e. tiny_set_si p),
       f_set_mpz := Some (\<lambda>e. tiny_set_mpz G p),
       f_add := (\<lambda>n. tiny_add p),
       f_sub := Some (\<lambda>n. tiny_sub p),
       f_set := (\<lambda>n. tiny_set),
       f_mul := (\<lambda>n. tiny_mul p),
       f_mul_si := Some (\<lambda>n. tiny_mul_si p),
       f_square := Some (\<lambda>n. tiny_square p),
       f_doub := Some (\<lambda>n. tiny_double False p),
       f_pow_mpz := Some (\<lambda>n. tiny_pow_mpz G prime),
       f_neg := (\<lambda>n. tiny_neg p),
       f_cmp := Some tiny_cmp,
       f_sign := tiny_sgn_odd,
       f_invert := (\<lambda>n. tiny_invert G prime),
       f_random := Some (\<lambda>R i e. tiny_random G prime R i),
       f_from_hash := (\<lambda>n data. Some (tiny_from_hash G p data)),
       f_is1 := Some tiny_is1,
       f_is0 := Some tiny_is0,
       f_set0 := (\<lambda>n. tiny_set0),
       f_set1 := (\<lambda>n. tiny_set1),
       f_is_sqr := tiny_is_sqr G prime,
       f_to_bytes := tiny_to_bytes n,
       f_from_bytes := (\<lambda>e. tiny_from_bytes n),
       f_to_mpz := Some tiny_to_mpz,
       f_fixed_length := int n,
       f_order := prime \<rparr>)"

definition field_init_tiny_fp :: "gmp \<Rightarrow> int \<Rightarrow> ulong field_s option" where
  "field_init_tiny_fp G prime = (
     if mpz_fits_ulong_p G prime then
       Some ((tiny_fp_base G prime)\<lparr>
         f_sqrt := (\<lambda>nqr x a. case nqr of
           Some g \<Rightarrow> fp_tonelli G (tiny_fp_base G prime) g x a
         | None \<Rightarrow> undefined) \<rparr>)
     else None)"

section \<open>Words as residues\<close>

lemma ulong_less: "unat (p :: ulong) < 2 ^ 32"
  by (rule less_le_trans [OF unsigned_less]) simp

lemma tiny_add_ok:
  assumes "a < p" "b < p"
  shows "tiny_add p a b < p" and "unat (tiny_add p a b) = (unat a + unat b) mod unat p"
proof -
  have p: "0 < unat p" using assms(1) by (metis less_nat_zero_code not_gr_zero word_less_nat_alt)
  have ab: "unat a < unat p" "unat b < unat p" "unat p < 2 ^ 32"
    using assms unsigned_less [of p] by (simp_all add: word_less_nat_alt)
  show eq: "unat (tiny_add p a b) = (unat a + unat b) mod unat p"
  proof (cases "unat a + unat b < 2 ^ 32")
    case True
    then have s: "unat (a + b) = unat a + unat b" by (simp add: unat_word_ariths)
    then have "\<not> a + b < a" by (simp add: word_less_nat_alt)
    then show ?thesis by (simp add: tiny_add_def Let_def unat_mod_distrib s)
  next
    case False
    then have s: "unat (a + b) = unat a + unat b - 2 ^ 32"
      using ab by (simp add: unat_word_ariths mod_if)
    then have "a + b < a" using False ab by (simp add: word_less_nat_alt)
    moreover have "unat (a + b - p) = unat a + unat b - unat p"
      using False ab s by (simp add: unat_sub_if' word_le_nat_alt)
    ultimately show ?thesis using False ab
      by (simp add: tiny_add_def Let_def unat_mod_distrib mod_if)
  qed
  show "tiny_add p a b < p" unfolding word_less_nat_alt eq using p by simp
qed

lemma word_lt_bounds:
  assumes "a < (p :: ulong)"
  shows "unat a < unat p" "unat p < 2 ^ 32" "0 < unat p"
  using assms unsigned_less [of p] by (simp_all add: word_less_nat_alt)

lemma tiny_double_ok:
  assumes "a < p"
  shows "tiny_double False p a = tiny_add p a a"
proof -
  have "2 * a = a + a" by simp
  then show ?thesis unfolding tiny_double_def tiny_add_def Let_def by simp
qed

text \<open>When the result replaces its argument the overflow goes unnoticed.\<close>

lemma tiny_double_same: "unat (tiny_double True p a) = (2 * unat a mod 2 ^ 32) mod unat p"
  by (simp add: tiny_double_def Let_def unat_mod_distrib unat_word_ariths)

lemma tiny_sub_ok:
  assumes "a < p" "b < p"
  shows "tiny_sub p a b < p" and "(unat (tiny_sub p a b) + unat b) mod unat p = unat a"
proof -
  note a = word_lt_bounds [OF assms(1)] and b = word_lt_bounds [OF assms(2)]
  have v: "unat (tiny_sub p a b) = (if b \<le> a then unat a - unat b else unat p - unat b + unat a)"
  proof (cases "b \<le> a")
    case True
    then show ?thesis by (simp add: tiny_sub_def unat_sub)
  next
    case False
    then have lt: "unat a < unat b" by (simp add: word_le_nat_alt)
    have "unat (p - b) = unat p - unat b" using assms(2) by (simp add: unat_sub)
    then have "unat (p - b + a) = unat p - unat b + unat a" using lt a b by (simp add: unat_word_ariths)
    then show ?thesis using False by (simp add: tiny_sub_def)
  qed
  show "tiny_sub p a b < p" "(unat (tiny_sub p a b) + unat b) mod unat p = unat a"
    using a b unfolding word_less_nat_alt v by (auto simp: word_le_nat_alt)
qed

lemma tiny_neg_ok:
  assumes "a < p"
  shows "tiny_neg p a < p" and "(unat (tiny_neg p a) + unat a) mod unat p = 0"
proof -
  note a = word_lt_bounds [OF assms]
  have v: "unat (tiny_neg p a) = (if unat a = 0 then 0 else unat p - unat a)"
    using assms by (simp add: tiny_neg_def unat_sub unat_eq_0)
  show "tiny_neg p a < p" "(unat (tiny_neg p a) + unat a) mod unat p = 0"
    using a unfolding word_less_nat_alt v by auto
qed

text \<open>Products are those of 32-bit words; they are right when they fit.\<close>

lemma tiny_mul_word: "unat (tiny_mul p a b) = (unat a * unat b mod 2 ^ 32) mod unat p"
proof -
  have small: "unat p < 2 ^ 32" "unat a * unat b mod 2 ^ 32 < 2 ^ 32" using unsigned_less [of p] by simp_all
  have "unat (ucast (a * b) :: 64 word) = unat a * unat b mod 2 ^ 32"
    using small(2) by (simp add: unsigned_ucast_eq take_bit_eq_mod unat_word_ariths)
  moreover have "unat (ucast p :: 64 word) = unat p" using small(1) by (simp add: unsigned_ucast_eq take_bit_eq_mod)
  ultimately have ll: "unat ((ucast (a * b) :: 64 word) mod ucast p) = (unat a * unat b mod 2 ^ 32) mod unat p"
    by (simp add: unat_mod_distrib)
  have "(unat a * unat b mod 2 ^ 32) mod unat p < 2 ^ 32"
    using small(2) by (rule le_less_trans [OF mod_less_eq_dividend])
  then show ?thesis unfolding tiny_mul_def Let_def by (simp add: unsigned_ucast_eq take_bit_eq_mod ll)
qed

lemma tiny_mul_ok:
  assumes "a < p" "b < p" "unat p \<le> 2 ^ 16"
  shows "unat (tiny_mul p a b) = unat a * unat b mod unat p"
proof -
  have "unat a * unat b < 2 ^ 16 * 2 ^ 16"
    using word_lt_bounds [OF assms(1)] word_lt_bounds [OF assms(2)] assms(3)
    by (intro mult_strict_mono') linarith+
  then have "unat a * unat b < 2 ^ 32" by simp
  then show ?thesis unfolding tiny_mul_word by simp
qed

lemma tiny_set_si_multiple:
  assumes "i < 0" "p \<noteq> 0" "word_of_int (- i) mod p = 0"
  shows "tiny_set_si p i = p"
  using assms by (simp add: tiny_set_si_def)

section \<open>Bytes\<close>

lemma tiny_to_bytes_eq: "tiny_to_bytes n l = low_bytes n (unat l)"
proof (induction n arbitrary: l)
  case 0
  then show ?case by simp
next
  case (Suc n)
  have d: "unat (drop_bit 8 l) = unat l div 256" unfolding unat_drop_bit_eq by (simp add: drop_bit_eq_div)
  have "(ucast l :: byte) = word_of_nat (unat l mod 256)"
    by (rule word_unat_eq_iff [THEN iffD2]) (simp add: unsigned_ucast_eq take_bit_eq_mod unat_of_nat)
  then show ?case unfolding tiny_to_bytes.simps low_bytes.simps Suc.IH d by simp
qed

lemma tiny_bytes_loop_ok:
  assumes "n \<le> length bs" "unat p * 256 ^ n + bytes_val (take n bs) < 2 ^ 32"
  shows "unat (tiny_bytes_loop n bs p) = unat p * 256 ^ n + bytes_val (take n bs)"
  using assms
proof (induction n arbitrary: bs p)
  case 0
  then show ?case by simp
next
  case (Suc n)
  then obtain b bs' where bs: "bs = b # bs'" by (cases bs) auto
  have len: "length (take n bs') = n" using Suc.prems(1) bs by simp
  have val: "bytes_val (take (Suc n) bs) = unat b * 256 ^ n + bytes_val (take n bs')"
    using bytes_val_append [of "[b]" "take n bs'"] len bs by (simp add: bytes_val_def)
  have sum: "(256 * unat p + unat b) * 256 ^ n + bytes_val (take n bs') < 2 ^ 32"
    using Suc.prems(2) unfolding val by (simp add: algebra_simps)
  have "256 * unat p + unat b \<le> (256 * unat p + unat b) * 256 ^ n" by simp
  then have small: "256 * unat p + unat b < 2 ^ 32" using sum by linarith
  have pb: "unat (push_bit 8 p) = 256 * unat p"
    using small by (simp add: push_bit_eq_mult unat_word_ariths)
  have "unat b < 256" using unsigned_less [of b] by simp
  then have cb: "unat (ucast b :: ulong) = unat b" by (simp add: unsigned_ucast_eq take_bit_eq_mod)
  have p': "unat (push_bit 8 p + ucast b) = 256 * unat p + unat b"
    using small by (simp add: unat_word_ariths pb cb)
  have "unat (tiny_bytes_loop n bs' (push_bit 8 p + ucast b)) =
      (256 * unat p + unat b) * 256 ^ n + bytes_val (take n bs')"
    using Suc.IH [of bs' "push_bit 8 p + ucast b"] Suc.prems(1) sum bs unfolding p' by simp
  then show ?case unfolding val by (simp add: bs algebra_simps)
qed

lemma tiny_bytes_ok:
  assumes "unat e < 256 ^ n"
  shows "length (tiny_to_bytes n e) = n" and "tiny_from_bytes n (tiny_to_bytes n e @ rest) = (e, n)"
proof -
  show len: "length (tiny_to_bytes n e) = n" by (simp add: tiny_to_bytes_eq)
  have val: "bytes_val (take n (tiny_to_bytes n e @ rest)) = unat e"
    using assms len by (simp add: tiny_to_bytes_eq bytes_val_low_bytes)
  have "unat (tiny_bytes_loop n (tiny_to_bytes n e @ rest) 0) = unat e"
    using tiny_bytes_loop_ok [of n "tiny_to_bytes n e @ rest" 0] len val unsigned_less [of e] by simp
  then show "tiny_from_bytes n (tiny_to_bytes n e @ rest) = (e, n)"
    by (simp add: tiny_from_bytes_def word_unat_eq_iff)
qed

text \<open>The length found by the loop of \<open>field_init_tiny_fp\<close> holds every residue.\<close>

lemma tiny_length_step:
  "l < p \<Longrightarrow> tiny_length_loop p l n = tiny_length_loop p (push_bit 8 l + 255) (n + 1)"
  "\<not> l < p \<Longrightarrow> tiny_length_loop p l n = Some n"
  by (simp_all add: tiny_length_loop.simps [of p l n])

lemma tiny_length_ok:
  "\<exists>n. tiny_length_loop p 255 1 = Some n \<and> 1 \<le> n \<and> n \<le> 4 \<and> unat p < 256 ^ n"
proof -
  have nxt: "push_bit 8 255 + 255 = (65535 :: ulong)" "push_bit 8 65535 + 255 = (16777215 :: ulong)"
    "push_bit 8 16777215 + 255 = (4294967295 :: ulong)" by (simp_all add: push_bit_eq_mult)
  have top: "\<not> 4294967295 < p" using ulong_less [of p] by (simp add: word_less_nat_alt)
  consider "\<not> 255 < p" | "255 < p" "\<not> 65535 < p" | "65535 < p" "\<not> 16777215 < p" | "16777215 < p" by blast
  then show ?thesis
  proof cases
    case 1
    then show ?thesis by (intro exI [of _ 1]) (simp add: tiny_length_step word_less_nat_alt)
  next
    case 2
    then show ?thesis
      by (intro exI [of _ 2]) (simp add: tiny_length_step nxt word_less_nat_alt)
  next
    case 3
    then have "255 < p" by (simp add: word_less_nat_alt)
    with 3 show ?thesis
      by (intro exI [of _ 3]) (simp add: tiny_length_step nxt word_less_nat_alt)
  next
    case 4
    then have "255 < p" "65535 < p" by (simp_all add: word_less_nat_alt)
    with 4 top show ?thesis using ulong_less [of p]
      by (intro exI [of _ 4]) (simp add: tiny_length_step nxt word_less_nat_alt)
  qed
qed

end
