(* ===== verification/IntProps.thy ===== *)
theory IntProps
  imports FieldZ TinyFp
begin

text \<open>
  The properties of the integers of \<^verbatim>\<open>arith/fieldmpz.c\<close> and of the prime fields on machine
  words of \<^verbatim>\<open>arith/tinyfp.c\<close>.
\<close>

interpretation z_ref: z_env gmp_ref
  by (rule z_env.intro) (rule gmp_ref.gmp_laws_axioms)

section \<open>Integers\<close>

lemma z_body_length:
  assumes "z \<noteq> 0" "nbits (nat \<bar>z\<bar>) < 2 ^ 32"
  shows "length (z_body z) < 2 ^ 32"
proof -
  define m where "m = nbits (nat \<bar>z\<bar>)"
  have "m < 4294967296" using assms(2) by (simp add: m_def)
  then have "(m + 7) div 8 + (if m mod 8 = 0 then 1 else 0) < 4294967296" by auto
  then show ?thesis unfolding z_body_ok(4) [OF assms(1)] m_def [symmetric] by simp
qed

text \<open>
  Bytes of an integer and back. For a nonzero integer the bytes that the ring of
  \<open>field_init_z\<close> writes are read back to the same integer whatever follows them, but the
  number of bytes that the reader returns is 4 less than the number written, and
  \<open>element_length_in_bytes\<close> promises one byte less than is written when the number of bits
  is a multiple of 8.
\<close>

theorem z_bytes_roundtrip:
  fixes z :: int and old :: byte
  assumes "gmp_laws G" "z \<noteq> 0" "nbits (nat \<bar>z\<bar>) < 2 ^ 32"
  defines "F \<equiv> field_init_z G old"
  shows "element_from_bytes F junk (element_to_bytes F z @ rest) = (z, length (element_to_bytes F z) - 4) \<and>
    element_length_in_bytes F z + (if nbits (nat \<bar>z\<bar>) mod 8 = 0 then 1 else 0) = int (length (element_to_bytes F z))"
  using z_bytes_ok [OF assms(1,2) z_body_length [OF assms(2,3)], of old] z_body_ok(4) [OF assms(2)]
  by (simp add: F_def z_dispatch z_length_in_bytes_def gmp_laws.sizeinbase [OF assms(1)])

lemma z_bytes_roundtrip_witness:
  "element_from_bytes (field_init_z gmp_ref 9) 5 (element_to_bytes (field_init_z gmp_ref 9) (- 255) @ [3]) =
     (- 255, length (element_to_bytes (field_init_z gmp_ref 9) (- 255)) - 4)"
proof -
  have "nbits 255 = 8" by (simp add: nbits.simps)
  then show ?thesis using z_bytes_roundtrip [OF gmp_ref.gmp_laws_axioms, of "- 255" 9 5 "[3]"] by simp
qed

section \<open>Residues in machine words\<close>

text \<open>
  Arithmetic modulo a word \<open>p\<close>. For reduced arguments the table of \<open>field_init_tiny_fp\<close>
  adds, doubles, subtracts and negates modulo \<open>p\<close> even when the sum overflows 32 bits. Its
  product is that of 32-bit words: it is the product modulo \<open>p\<close> for \<open>p\<close> up to \<open>2^16\<close>, and
  what is left of it beyond. Bytes of the fixed length are read back.
\<close>

theorem tiny_fp_words:
  assumes "gmp_laws G" "a < p" "b < p"
  defines "F \<equiv> the (field_init_tiny_fp G (uint p))"
  shows "unat (element_add F x a b) = (unat a + unat b) mod unat p \<and>
    unat (element_double F x a) = (unat a + unat a) mod unat p \<and>
    (unat (element_sub F x a b) + unat b) mod unat p = unat a \<and>
    (unat (element_neg F x a) + unat a) mod unat p = 0 \<and>
    unat (element_mul F x a b) = (unat a * unat b mod 2 ^ 32) mod unat p \<and>
    (unat p \<le> 2 ^ 16 \<longrightarrow> unat (element_mul F x a b) = unat a * unat b mod unat p) \<and>
    element_from_bytes F x (element_to_bytes F a @ rest) = (a, nat (element_length_in_bytes F a))"
proof -
  obtain n where n: "tiny_length_loop p 255 1 = Some n" "unat p < 256 ^ n" using tiny_length_ok by blast
  have "unat a < 256 ^ n" using n(2) word_lt_bounds(1) [OF assms(2)] by simp
  note bytes = tiny_bytes_ok(2) [OF this, of rest]
  have up: "uint p < 4294967296" using unsigned_less [of p, where 'a = int] by simp
  have "mpz_fits_ulong_p G (uint p)" using up by (simp add: gmp_laws.fits_ulong_p [OF assms(1)])
  moreover have "(word_of_nat (mpz_get_ui G (uint p)) :: ulong) = p"
    using up by (simp add: gmp_laws.get_ui [OF assms(1)])
  ultimately show ?thesis
    using tiny_add_ok(2) [OF assms(2,3)] tiny_add_ok(2) [OF assms(2,2)] tiny_sub_ok(2) [OF assms(2,3)]
      tiny_neg_ok(2) [OF assms(2)] tiny_mul_ok [OF assms(2,3)] bytes
    by (simp add: F_def field_init_tiny_fp_def tiny_fp_base_def dispatch n(1) [unfolded One_nat_def] Let_def
        tiny_mul_word tiny_double_ok [OF assms(2)])
qed

lemma tiny_fp_words_witness:
  "unat (element_mul (the (field_init_tiny_fp gmp_ref 65537)) 0 65536 65536) = 0 \<and>
   65536 * 65536 mod 65537 = (1 :: nat)"
  using tiny_fp_words [OF gmp_ref.gmp_laws_axioms, of 65536 65537 65536 0] by simp

end
