(* ===== verification/Mpn.thy ===== *)
theory Mpn
  imports Gmp
begin

text \<open>
  The low-level functions of GMP on natural numbers stored as limbs, least significant
  first. Like the functions of \<open>gmp\<close> they are not part of the repository and are a parameter,
  the record \<open>mpn\<close>; the locale \<open>mpn_laws\<close> states what the GMP manual documents of them and
  \<open>mpn_ref\<close> is an executable instance. A limb has 32 bits on the platform of this port. The
  count \<open>n\<close> of a call is the length of its lists; a carry is returned beside the result.
\<close>

type_synonym limb = "32 word"

section \<open>Numbers as limbs\<close>

fun limbs_val :: "limb list \<Rightarrow> nat" where
  "limbs_val [] = 0"
| "limbs_val (x # xs) = unat x + 2 ^ 32 * limbs_val xs"

fun limbs_of :: "nat \<Rightarrow> nat \<Rightarrow> limb list" where
  "limbs_of 0 v = []"
| "limbs_of (Suc n) v = word_of_nat v # limbs_of n (v div 2 ^ 32)"

lemma length_limbs_of [simp]: "length (limbs_of n v) = n"
  by (induction n arbitrary: v) auto

lemma unat_limb: "unat (word_of_nat v :: limb) = v mod 2 ^ 32"
  by (simp add: unat_of_nat)

lemma limb_less: "unat (x :: limb) < 2 ^ 32"
  by (rule less_le_trans [OF unsigned_less]) simp

lemma limbs_val_limbs_of: "limbs_val (limbs_of n v) = v mod (2 ^ 32) ^ n"
proof (induction n arbitrary: v)
  case 0
  then show ?case by simp
next
  case (Suc n)
  have "v mod (2 ^ 32 * (2 ^ 32) ^ n) = 2 ^ 32 * (v div 2 ^ 32 mod (2 ^ 32) ^ n) + v mod 2 ^ 32"
    by (rule mod_mult2_eq)
  with Suc show ?case by (simp add: unat_limb)
qed

lemma limbs_val_less: "limbs_val xs < (2 ^ 32) ^ length xs"
proof (induction xs)
  case Nil
  then show ?case by simp
next
  case (Cons x xs)
  have "unat x + 2 ^ 32 * limbs_val xs < 2 ^ 32 * Suc (limbs_val xs)" using limb_less [of x] by simp
  also have "\<dots> \<le> 2 ^ 32 * (2 ^ 32) ^ length xs" using Cons by (intro mult_le_mono2) simp
  finally show ?case by simp
qed

lemma limbs_val_append: "limbs_val (xs @ ys) = limbs_val xs + (2 ^ 32) ^ length xs * limbs_val ys"
  by (induction xs) (simp_all add: algebra_simps)

lemma limbs_val_take_drop:
  "i \<le> length xs \<Longrightarrow> limbs_val xs = limbs_val (take i xs) + (2 ^ 32) ^ i * limbs_val (drop i xs)"
  using limbs_val_append [of "take i xs" "drop i xs"] by simp

lemma digit_eq:
  fixes a b x y w :: nat
  assumes "x < w" "y < w"
  shows "x + w * a = y + w * b \<longleftrightarrow> x = y \<and> a = b"
proof
  assume eq: "x + w * a = y + w * b"
  have "(x + w * a) mod w = x" "(y + w * b) mod w = y" using assms by simp_all
  with eq have "x = y" by simp
  with eq assms show "x = y \<and> a = b" by simp
qed simp

lemma limbs_val_inj: "length xs = length ys \<Longrightarrow> limbs_val xs = limbs_val ys \<longleftrightarrow> xs = ys"
proof (induction xs ys rule: list_induct2)
  case Nil
  then show ?case by simp
next
  case (Cons x xs y ys)
  have "unat x + 2 ^ 32 * limbs_val xs = unat y + 2 ^ 32 * limbs_val ys \<longleftrightarrow> unat x = unat y \<and> limbs_val xs = limbs_val ys"
    by (rule digit_eq [OF limb_less limb_less])
  then show ?case using Cons by (simp add: word_unat_eq_iff)
qed

lemma limbs_val_replicate_0 [simp]: "limbs_val (replicate n 0) = 0"
  by (induction n) simp_all

section \<open>The functions the code calls\<close>

record mpn =
  mpn_add_n :: "limb list \<Rightarrow> limb list \<Rightarrow> limb list \<times> limb"
  mpn_sub_n :: "limb list \<Rightarrow> limb list \<Rightarrow> limb list \<times> limb"
  mpn_cmp :: "limb list \<Rightarrow> limb list \<Rightarrow> int"
  mpn_add_1 :: "limb list \<Rightarrow> limb \<Rightarrow> limb list \<times> limb"
  mpn_mul_1 :: "limb list \<Rightarrow> limb \<Rightarrow> limb list \<times> limb"
  mpn_addmul_1 :: "limb list \<Rightarrow> limb list \<Rightarrow> limb \<Rightarrow> limb list \<times> limb"
  mpn_lshift1 :: "limb list \<Rightarrow> limb list \<times> limb"
  mpn_rshift1 :: "limb list \<Rightarrow> limb list"
  mpz_export_limbs :: "int \<Rightarrow> limb list"
  mpz_import_limbs :: "limb list \<Rightarrow> int"

text \<open>
  \<open>mpz_export_limbs\<close> and \<open>mpz_import_limbs\<close> are the calls of \<open>mpz_export\<close> and \<open>mpz_import\<close>
  with order \<open>- 1\<close> and the size of a limb; the shifts are those by one bit.
\<close>

locale mpn_laws =
  fixes N :: mpn
  assumes add_n: "length xs = length ys \<Longrightarrow> mpn_add_n N xs ys = (zs, c) \<Longrightarrow>
      length zs = length xs \<and> limbs_val zs + (2 ^ 32) ^ length xs * unat c = limbs_val xs + limbs_val ys"
    and sub_n: "length xs = length ys \<Longrightarrow> mpn_sub_n N xs ys = (zs, c) \<Longrightarrow>
      length zs = length xs \<and> unat c \<le> 1 \<and>
      limbs_val zs + limbs_val ys = limbs_val xs + (2 ^ 32) ^ length xs * unat c"
    and cmp_lt: "length xs = length ys \<Longrightarrow> mpn_cmp N xs ys < 0 \<longleftrightarrow> limbs_val xs < limbs_val ys"
    and cmp_gt: "length xs = length ys \<Longrightarrow> 0 < mpn_cmp N xs ys \<longleftrightarrow> limbs_val ys < limbs_val xs"
    and add_1: "mpn_add_1 N xs b = (zs, c) \<Longrightarrow> xs \<noteq> [] \<Longrightarrow>
      length zs = length xs \<and> limbs_val zs + (2 ^ 32) ^ length xs * unat c = limbs_val xs + unat b"
    and mul_1: "mpn_mul_1 N xs b = (zs, c) \<Longrightarrow> xs \<noteq> [] \<Longrightarrow>
      length zs = length xs \<and> limbs_val zs + (2 ^ 32) ^ length xs * unat c = limbs_val xs * unat b"
    and addmul_1: "length rs = length xs \<Longrightarrow> mpn_addmul_1 N rs xs b = (zs, c) \<Longrightarrow> xs \<noteq> [] \<Longrightarrow>
      length zs = length xs \<and> limbs_val zs + (2 ^ 32) ^ length xs * unat c = limbs_val rs + limbs_val xs * unat b"
    and lshift1: "mpn_lshift1 N xs = (zs, c) \<Longrightarrow> xs \<noteq> [] \<Longrightarrow>
      length zs = length xs \<and> limbs_val zs + (2 ^ 32) ^ length xs * unat c = 2 * limbs_val xs"
    and rshift1: "xs \<noteq> [] \<Longrightarrow> length (mpn_rshift1 N xs) = length xs \<and> limbs_val (mpn_rshift1 N xs) = limbs_val xs div 2"
    and export_limbs: "limbs_val (mpz_export_limbs N z) = nat \<bar>z\<bar>"
    and export_size: "nat \<bar>z\<bar> < (2 ^ 32) ^ n \<Longrightarrow> length (mpz_export_limbs N z) \<le> n"
    and import_limbs: "mpz_import_limbs N xs = int (limbs_val xs)"
begin

lemma cmp_0: "length xs = length ys \<Longrightarrow> mpn_cmp N xs ys = 0 \<longleftrightarrow> limbs_val xs = limbs_val ys"
  using cmp_lt [of xs ys] cmp_gt [of xs ys] by (metis less_irrefl linorder_neqE)

lemma cmp_ge: "length xs = length ys \<Longrightarrow> 0 \<le> mpn_cmp N xs ys \<longleftrightarrow> limbs_val ys \<le> limbs_val xs"
  using cmp_lt [of xs ys] by (simp add: not_less [symmetric])

end

section \<open>An executable instance\<close>

fun limbs_ref :: "nat \<Rightarrow> limb list" where
  "limbs_ref v = (if v = 0 then [] else word_of_nat v # limbs_ref (v div 2 ^ 32))"

declare limbs_ref.simps [simp del]

definition mpn_split :: "nat \<Rightarrow> nat \<Rightarrow> limb list \<times> limb" where
  "mpn_split n v = (limbs_of n v, word_of_nat (v div (2 ^ 32) ^ n))"

definition mpn_ref :: mpn where
  "mpn_ref = \<lparr>
     mpn_add_n = (\<lambda>xs ys. mpn_split (length xs) (limbs_val xs + limbs_val ys)),
     mpn_sub_n = (\<lambda>xs ys. if limbs_val ys \<le> limbs_val xs then (limbs_of (length xs) (limbs_val xs - limbs_val ys), 0)
       else (limbs_of (length xs) ((2 ^ 32) ^ length xs + limbs_val xs - limbs_val ys), 1)),
     mpn_cmp = (\<lambda>xs ys. int (limbs_val xs) - int (limbs_val ys)),
     mpn_add_1 = (\<lambda>xs b. mpn_split (length xs) (limbs_val xs + unat b)),
     mpn_mul_1 = (\<lambda>xs b. mpn_split (length xs) (limbs_val xs * unat b)),
     mpn_addmul_1 = (\<lambda>rs xs b. mpn_split (length xs) (limbs_val rs + limbs_val xs * unat b)),
     mpn_lshift1 = (\<lambda>xs. mpn_split (length xs) (2 * limbs_val xs)),
     mpn_rshift1 = (\<lambda>xs. limbs_of (length xs) (limbs_val xs div 2)),
     mpz_export_limbs = (\<lambda>z. limbs_ref (nat \<bar>z\<bar>)),
     mpz_import_limbs = (\<lambda>xs. int (limbs_val xs)) \<rparr>"

lemma limbs_ref_val: "limbs_val (limbs_ref v) = v"
proof (induction v rule: limbs_ref.induct)
  case (1 v)
  then show ?case by (auto simp: limbs_ref.simps [of v] unat_limb)
qed

lemma limbs_ref_length: "v < (2 ^ 32) ^ n \<Longrightarrow> length (limbs_ref v) \<le> n"
proof (induction n arbitrary: v)
  case 0
  then show ?case by (simp add: limbs_ref.simps)
next
  case (Suc n)
  then have "v div 2 ^ 32 < (2 ^ 32) ^ n" by (simp add: div_less_iff_less_mult mult.commute)
  from Suc.IH [OF this] show ?case by (simp add: limbs_ref.simps [of v])
qed

lemma mpn_split_ok:
  assumes "mpn_split n v = (zs, c)" "v div (2 ^ 32) ^ n < 2 ^ 32"
  shows "length zs = n \<and> limbs_val zs + (2 ^ 32) ^ n * unat c = v"
proof -
  have "zs = limbs_of n v" "unat c = v div (2 ^ 32) ^ n"
    using assms by (auto simp: mpn_split_def unat_limb)
  then show ?thesis by (simp add: limbs_val_limbs_of)
qed

lemma carry_less:
  assumes "v < m * w"
  shows "v div m < (w :: nat)"
  using assms by (simp add: div_less_iff_less_mult mult.commute less_mult_imp_div_less)

lemma one_limb_product:
  assumes "a < m" "b < w" "(r::nat) < m"
  shows "r + a * b < m * w"
proof -
  have "Suc a * b \<le> m * b" using assms(1) by (intro mult_le_mono1) simp
  moreover have "m * Suc b \<le> m * w" using assms(2) by (intro mult_le_mono2) simp
  ultimately have "a * b + b \<le> m * b" "m * b + m \<le> m * w" by simp_all
  then show ?thesis using assms(3) by linarith
qed

interpretation mpn_ref: mpn_laws mpn_ref
proof unfold_locales
  fix xs ys zs :: "limb list" and c b :: limb
  note vx = limbs_val_less [of xs] and b = limb_less [of b]
  have m: "1 \<le> (2 ^ 32 :: nat) ^ length xs" by simp
  {
    assume l: "length xs = length ys"
    have "limbs_val xs + limbs_val ys < (2 ^ 32) ^ length xs * 2 ^ 32"
      using vx limbs_val_less [of ys] l by simp
    then show "mpn_add_n mpn_ref xs ys = (zs, c) \<Longrightarrow>
        length zs = length xs \<and> limbs_val zs + (2 ^ 32) ^ length xs * unat c = limbs_val xs + limbs_val ys"
      using mpn_split_ok [OF _ carry_less] by (simp add: mpn_ref_def)
    have "limbs_val (limbs_of (length xs) v) = v" if "v < (2 ^ 32) ^ length xs" for v
      using that by (simp add: limbs_val_limbs_of)
    then show "mpn_sub_n mpn_ref xs ys = (zs, c) \<Longrightarrow> length zs = length xs \<and> unat c \<le> 1 \<and>
        limbs_val zs + limbs_val ys = limbs_val xs + (2 ^ 32) ^ length xs * unat c"
      using vx limbs_val_less [of ys] l by (auto simp: mpn_ref_def split: if_splits)
  }
  have "limbs_val xs + unat b < (2 ^ 32) ^ length xs * 2 ^ 32" if "xs \<noteq> []"
  proof -
    have "(2 ^ 32 :: nat) ^ 1 \<le> (2 ^ 32) ^ length xs" using that by (intro power_increasing) (simp_all add: Suc_le_eq)
    then show ?thesis using vx b by simp
  qed
  then show "mpn_add_1 mpn_ref xs b = (zs, c) \<Longrightarrow> xs \<noteq> [] \<Longrightarrow>
      length zs = length xs \<and> limbs_val zs + (2 ^ 32) ^ length xs * unat c = limbs_val xs + unat b"
    using mpn_split_ok [OF _ carry_less] by (simp add: mpn_ref_def)
  have "limbs_val xs * unat b < (2 ^ 32) ^ length xs * 2 ^ 32" using one_limb_product [OF vx b, of 0] by simp
  then show "mpn_mul_1 mpn_ref xs b = (zs, c) \<Longrightarrow> xs \<noteq> [] \<Longrightarrow>
      length zs = length xs \<and> limbs_val zs + (2 ^ 32) ^ length xs * unat c = limbs_val xs * unat b"
    using mpn_split_ok [OF _ carry_less] by (simp add: mpn_ref_def)
  have "2 * limbs_val xs < (2 ^ 32) ^ length xs * 2 ^ 32" using vx by simp
  then show "mpn_lshift1 mpn_ref xs = (zs, c) \<Longrightarrow> xs \<noteq> [] \<Longrightarrow>
      length zs = length xs \<and> limbs_val zs + (2 ^ 32) ^ length xs * unat c = 2 * limbs_val xs"
    using mpn_split_ok [OF _ carry_less] by (simp add: mpn_ref_def)
  show "length (mpn_rshift1 mpn_ref xs) = length xs \<and> limbs_val (mpn_rshift1 mpn_ref xs) = limbs_val xs div 2"
    using vx by (simp add: mpn_ref_def limbs_val_limbs_of)
next
  fix rs xs zs :: "limb list" and c b :: limb
  assume l: "length rs = length xs"
  have "limbs_val rs + limbs_val xs * unat b < (2 ^ 32) ^ length xs * 2 ^ 32"
    using one_limb_product [OF limbs_val_less [of xs] limb_less [of b]] limbs_val_less [of rs] l by simp
  then show "mpn_addmul_1 mpn_ref rs xs b = (zs, c) \<Longrightarrow>
      length zs = length xs \<and> limbs_val zs + (2 ^ 32) ^ length xs * unat c = limbs_val rs + limbs_val xs * unat b"
    using mpn_split_ok [OF _ carry_less] by (simp add: mpn_ref_def)
qed (simp_all add: mpn_ref_def limbs_ref_val limbs_ref_length)

end
