(* ===== verification/MontFp.thy ===== *)
theory MontFp
  imports Mpn NaiveFp
begin

unbundle bit_operations_syntax

text \<open>
  \<open>F_p\<close> in Montgomery representation, \<^verbatim>\<open>arith/montfp.c\<close>. With \<open>R = 2^(32 t)\<close> for \<open>t\<close> limbs
  a residue \<open>x\<close> is stored as the limbs of \<open>x R mod p\<close>; zero is the flag 0, and the limbs then
  keep what they held before. An operation takes the old destination, whose limbs and flag it
  may leave as they are. \<open>junk\<close> is what freshly allocated limbs contain.
\<close>

record fp_field_data =
  mf_limbs :: nat
  mf_prime :: "limb list"
  mf_negpinv :: limb
  mf_R :: "limb list"
  mf_R3 :: "limb list"
  mf_order :: int

record mont_elem =
  m_flag :: int
  m_d :: "limb list"

section \<open>Montgomery reduction and multiplication\<close>

text \<open>
  The loop of \<open>mont_reduce\<close> over \<open>i\<close>, on the \<open>2 t\<close> limbs \<open>y\<close>; \<open>k\<close> rounds are left.
\<close>

fun mont_reduce_loop :: "mpn \<Rightarrow> fp_field_data \<Rightarrow> nat \<Rightarrow> limb list \<Rightarrow> limb \<Rightarrow> limb list \<times> limb" where
  "mont_reduce_loop N p 0 y flag = (y, flag)"
| "mont_reduce_loop N p (Suc k) y flag = (
     let t = mf_limbs p;
         i = t - Suc k;
         u = y ! i * mf_negpinv p;
         (seg, carry) = mpn_addmul_1 N (take t (drop i y)) (mf_prime p) u;
         (high, c) = mpn_add_1 N (drop (i + t) y) carry;
         y = take i y @ seg @ high
     in mont_reduce_loop N p k y (flag + c))"

definition mont_reduce :: "mpn \<Rightarrow> fp_field_data \<Rightarrow> limb list \<Rightarrow> limb list" where
  "mont_reduce N p y = (
     let t = mf_limbs p;
         (y, flag) = mont_reduce_loop N p t y 0
     in if flag \<noteq> 0 \<or> mpn_cmp N (drop t y) (mf_prime p) \<ge> 0
        then fst (mpn_sub_n N (drop t y) (mf_prime p))
        else drop t y)"

text \<open>
  The loop of \<open>mont_mul\<close>. The list \<open>z\<close> holds the limbs of the buffer written so far: \<open>t + i + 1\<close>
  of them before round \<open>i\<close>.
\<close>

fun mont_mul_loop :: "mpn \<Rightarrow> fp_field_data \<Rightarrow> limb list \<Rightarrow> limb list \<Rightarrow> nat \<Rightarrow> limb list \<Rightarrow> limb list" where
  "mont_mul_loop N p a b 0 z = z"
| "mont_mul_loop N p a b (Suc k) z = (
     let t = mf_limbs p;
         i = t - Suc k;
         u = (z ! i + a ! i * b ! 0) * mf_negpinv p;
         (seg, carry) = mpn_addmul_1 N (take t (drop i z)) b (a ! i);
         v = z ! (t + i) + carry;
         (seg, carry) = mpn_addmul_1 N seg (mf_prime p) u;
         top = v + carry;
         z = take i z @ seg @ [top, if top < v then 1 else 0]
     in mont_mul_loop N p a b k z)"

definition mont_mul :: "mpn \<Rightarrow> fp_field_data \<Rightarrow> limb list \<Rightarrow> limb list \<Rightarrow> limb list" where
  "mont_mul N p a b = (
     let t = mf_limbs p;
         u = (a ! 0 * b ! 0) * mf_negpinv p;
         (seg, v) = mpn_mul_1 N b (a ! 0);
         (seg, carry) = mpn_addmul_1 N seg (mf_prime p) u;
         top = v + carry;
         z = seg @ [top, if top < v then 1 else 0];
         z = mont_mul_loop N p a b (t - 1) z
     in if z ! (t * 2) \<noteq> 0 \<or> mpn_cmp N (take t (drop t z)) (mf_prime p) \<ge> 0
        then fst (mpn_sub_n N (take t (drop t z)) (mf_prime p))
        else take t (drop t z))"

section \<open>The operations\<close>

definition mont_from_mpz :: "mpn \<Rightarrow> fp_field_data \<Rightarrow> int \<Rightarrow> limb list" where
  "mont_from_mpz N p z = (
     let d = mpz_export_limbs N z
     in d @ replicate (mf_limbs p - length d) 0)"

definition mont_init :: "limb list \<Rightarrow> mont_elem" where
  "mont_init junk = \<lparr> m_flag = 0, m_d = junk \<rparr>"

definition mont_set_mpz :: "gmp \<Rightarrow> mpn \<Rightarrow> fp_field_data \<Rightarrow> mont_elem \<Rightarrow> int \<Rightarrow> mont_elem" where
  "mont_set_mpz G N p e z = (
     if mpz_sgn G z = 0 then e\<lparr> m_flag := 0 \<rparr>
     else
       let tmp = mpz_mul_2exp G z (32 * mf_limbs p);
           tmp = mpz_mod G tmp (mf_order p)
       in \<lparr> m_flag = 2, m_d = mont_from_mpz N p tmp \<rparr>)"

definition mont_set_si :: "gmp \<Rightarrow> mpn \<Rightarrow> fp_field_data \<Rightarrow> mont_elem \<Rightarrow> int \<Rightarrow> mont_elem" where
  "mont_set_si G N p e i = (
     if i = 0 then e\<lparr> m_flag := 0 \<rparr>
     else
       let tmp = mpz_mul_2exp G i (32 * mf_limbs p);
           tmp = mpz_mod G tmp (mf_order p)
       in \<lparr> m_flag = 2, m_d = mont_from_mpz N p tmp \<rparr>)"

text \<open>
  \<open>fp_to_mpz\<close> drops leading zero limbs in a loop that runs out of the array when there is no
  other limb; the result is unspecified then.
\<close>

definition mont_to_mpz :: "mpn \<Rightarrow> fp_field_data \<Rightarrow> mont_elem \<Rightarrow> int" where
  "mont_to_mpz N p e = (
     if m_flag e = 0 then 0
     else
       let tmp = take (mf_limbs p) (m_d e) @ replicate (mf_limbs p) 0;
           d = mont_reduce N p tmp
       in if list_all (\<lambda>x. x = 0) d then undefined else int (limbs_val d))"

definition mont_set0 :: "mont_elem \<Rightarrow> mont_elem" where
  "mont_set0 e = e\<lparr> m_flag := 0 \<rparr>"

definition mont_set1 :: "fp_field_data \<Rightarrow> mont_elem \<Rightarrow> mont_elem" where
  "mont_set1 p e = \<lparr> m_flag = 2, m_d = mf_R p \<rparr>"

definition mont_is1 :: "mpn \<Rightarrow> fp_field_data \<Rightarrow> mont_elem \<Rightarrow> int" where
  "mont_is1 N p e = (
     if m_flag e = 0 then 0
     else if mpn_cmp N (m_d e) (mf_R p) = 0 then 1 else 0)"

definition mont_is0 :: "mont_elem \<Rightarrow> int" where
  "mont_is0 e = (if m_flag e = 0 then 1 else 0)"

definition mont_snprint :: "gmp \<Rightarrow> mpn \<Rightarrow> fp_field_data \<Rightarrow> nat \<Rightarrow> mont_elem \<Rightarrow> string \<times> int" where
  "mont_snprint G N p n e = (
     let z = mont_to_mpz N p e
     in c_snprintf n (mpz_get_str G 10 z))"

definition mont_set_str :: "gmp \<Rightarrow> mpn \<Rightarrow> fp_field_data \<Rightarrow> mont_elem \<Rightarrow> string \<Rightarrow> int \<Rightarrow> mont_elem \<times> nat" where
  "mont_set_str G N p e s base = (
     let (z, result) = pbc_mpz_set_str G s base;
         z = mpz_mod G z (mf_order p)
     in (mont_set_mpz G N p e z, result))"

definition mont_set :: "mont_elem \<Rightarrow> mont_elem \<Rightarrow> mont_elem" where
  "mont_set c a = (if m_flag a = 0 then c\<lparr> m_flag := 0 \<rparr> else \<lparr> m_flag = 2, m_d = m_d a \<rparr>)"

text \<open>The reduction after a sum without carry: \<open>cmp\<close> compares it with the modulus.\<close>

definition mont_add :: "mpn \<Rightarrow> fp_field_data \<Rightarrow> mont_elem \<Rightarrow> mont_elem \<Rightarrow> mont_elem \<Rightarrow> mont_elem" where
  "mont_add N p c a b = (
     if m_flag a = 0 then mont_set c b
     else if m_flag b = 0 then mont_set c a
     else
       let (d, carry) = mpn_add_n N (m_d a) (m_d b) in
       if carry \<noteq> 0 then \<lparr> m_flag = 2, m_d = fst (mpn_sub_n N d (mf_prime p)) \<rparr>
       else
         let i = mpn_cmp N d (mf_prime p) in
         if i = 0 then \<lparr> m_flag = 0, m_d = d \<rparr>
         else if i > 0 then \<lparr> m_flag = 2, m_d = fst (mpn_sub_n N d (mf_prime p)) \<rparr>
         else \<lparr> m_flag = 2, m_d = d \<rparr>)"

definition mont_double :: "mpn \<Rightarrow> fp_field_data \<Rightarrow> mont_elem \<Rightarrow> mont_elem \<Rightarrow> mont_elem" where
  "mont_double N p c a = (
     if m_flag a = 0 then c\<lparr> m_flag := 0 \<rparr>
     else
       let (d, carry) = mpn_lshift1 N (m_d a) in
       if carry \<noteq> 0 then \<lparr> m_flag = 2, m_d = fst (mpn_sub_n N d (mf_prime p)) \<rparr>
       else
         let i = mpn_cmp N d (mf_prime p) in
         if i = 0 then \<lparr> m_flag = 0, m_d = d \<rparr>
         else if i > 0 then \<lparr> m_flag = 2, m_d = fst (mpn_sub_n N d (mf_prime p)) \<rparr>
         else \<lparr> m_flag = 2, m_d = d \<rparr>)"

text \<open>For an odd number of limbs the flag of the destination is not written.\<close>

definition mont_halve :: "mpn \<Rightarrow> fp_field_data \<Rightarrow> mont_elem \<Rightarrow> mont_elem \<Rightarrow> mont_elem" where
  "mont_halve N p c a = (
     if m_flag a = 0 then c\<lparr> m_flag := 0 \<rparr>
     else
       let t = mf_limbs p;
           (c, carry) = (if m_d a ! 0 AND 1 \<noteq> 0
             then (case mpn_add_n N (m_d a) (mf_prime p) of (d, carry) \<Rightarrow> (c\<lparr> m_d := d \<rparr>, carry))
             else (mont_set c a, 0));
           d = mpn_rshift1 N (m_d c);
           d = (if carry \<noteq> 0 then d[t - 1 := d ! (t - 1) OR 2 ^ 31] else d)
       in c\<lparr> m_d := d \<rparr>)"

definition mont_neg :: "mpn \<Rightarrow> fp_field_data \<Rightarrow> mont_elem \<Rightarrow> mont_elem \<Rightarrow> mont_elem" where
  "mont_neg N p c a = (
     if m_flag a = 0 then c\<lparr> m_flag := 0 \<rparr>
     else \<lparr> m_flag = 2, m_d = fst (mpn_sub_n N (mf_prime p) (m_d a)) \<rparr>)"

definition mont_sub :: "mpn \<Rightarrow> fp_field_data \<Rightarrow> mont_elem \<Rightarrow> mont_elem \<Rightarrow> mont_elem \<Rightarrow> mont_elem" where
  "mont_sub N p c a b = (
     if m_flag a = 0 then mont_neg N p c b
     else if m_flag b = 0 then mont_set c a
     else
       let i = mpn_cmp N (m_d a) (m_d b) in
       if i = 0 then c\<lparr> m_flag := 0 \<rparr>
       else
         let d = fst (mpn_sub_n N (m_d a) (m_d b));
             d = (if i < 0 then fst (mpn_add_n N d (mf_prime p)) else d)
         in \<lparr> m_flag = 2, m_d = d \<rparr>)"

definition mont_fp_mul :: "mpn \<Rightarrow> fp_field_data \<Rightarrow> mont_elem \<Rightarrow> mont_elem \<Rightarrow> mont_elem \<Rightarrow> mont_elem" where
  "mont_fp_mul N p c a b = (
     if m_flag a = 0 \<or> m_flag b = 0 then c\<lparr> m_flag := 0 \<rparr>
     else \<lparr> m_flag = 2, m_d = mont_mul N p (m_d a) (m_d b) \<rparr>)"

definition mont_pow_mpz :: "gmp \<Rightarrow> mpn \<Rightarrow> fp_field_data \<Rightarrow> mont_elem \<Rightarrow> mont_elem \<Rightarrow> int \<Rightarrow> mont_elem" where
  "mont_pow_mpz G N p c a i = (
     if m_flag a = 0 then c\<lparr> m_flag := 0 \<rparr>
     else
       let z = mont_to_mpz N p a;
           z = mpz_powm G z i (mf_order p);
           z = mpz_mul_2exp G z (32 * mf_limbs p);
           z = mpz_mod G z (mf_order p)
       in \<lparr> m_flag = 2, m_d = mont_from_mpz N p z \<rparr>)"

definition mont_invert :: "gmp \<Rightarrow> mpn \<Rightarrow> fp_field_data \<Rightarrow> mont_elem \<Rightarrow> mont_elem \<Rightarrow> mont_elem" where
  "mont_invert G N p c a = (
     let z = mpz_import_limbs N (m_d a);
         z = mpz_invert G z (mf_order p);
         tmp = mont_from_mpz N p z
     in \<lparr> m_flag = 2, m_d = mont_mul N p tmp (mf_R3 p) \<rparr>)"

definition mont_random :: "gmp \<Rightarrow> mpn \<Rightarrow> fp_field_data \<Rightarrow> entropy \<Rightarrow> nat \<Rightarrow> mont_elem \<Rightarrow> mont_elem \<times> nat" where
  "mont_random G N p R i a = (
     let z = R i (mf_order p) in
     if mpz_sgn G z \<noteq> 0 then
       let z = mpz_mul_2exp G z (32 * mf_limbs p);
           z = mpz_mod G z (mf_order p)
       in (\<lparr> m_flag = 2, m_d = mont_from_mpz N p z \<rparr>, i + 1)
     else (a\<lparr> m_flag := 0 \<rparr>, i + 1))"

definition mont_from_hash :: "gmp \<Rightarrow> mpn \<Rightarrow> fp_field_data \<Rightarrow> mont_elem \<Rightarrow> byte list \<Rightarrow> mont_elem option" where
  "mont_from_hash G N p a data =
     map_option (mont_set_mpz G N p a) (pbc_mpz_from_hash G (mf_order p) data)"

definition mont_cmp :: "mpn \<Rightarrow> mont_elem \<Rightarrow> mont_elem \<Rightarrow> int" where
  "mont_cmp N a b = (if m_flag a = 0 then m_flag b else mpn_cmp N (m_d a) (m_d b))"

definition mont_sgn_odd :: "gmp \<Rightarrow> mpn \<Rightarrow> fp_field_data \<Rightarrow> mont_elem \<Rightarrow> int" where
  "mont_sgn_odd G N p a = (
     if m_flag a = 0 then 0
     else
       let z = mont_to_mpz N p a
       in if mpz_odd_p G z then 1 else - 1)"

definition mont_is_sqr :: "gmp \<Rightarrow> mpn \<Rightarrow> fp_field_data \<Rightarrow> mont_elem \<Rightarrow> int" where
  "mont_is_sqr G N p a = (
     if m_flag a = 0 then 1
     else
       let z = mont_to_mpz N p a
       in if mpz_legendre G z (mf_order p) = 1 then 1 else 0)"

definition mont_to_bytes :: "gmp \<Rightarrow> mpn \<Rightarrow> fp_field_data \<Rightarrow> nat \<Rightarrow> mont_elem \<Rightarrow> byte list" where
  "mont_to_bytes G N p n a = (
     let z = mont_to_mpz N p a
     in case pbc_mpz_out_raw_n G n z of Some bs \<Rightarrow> bs | None \<Rightarrow> undefined)"

definition mont_from_bytes :: "gmp \<Rightarrow> mpn \<Rightarrow> fp_field_data \<Rightarrow> nat \<Rightarrow> mont_elem \<Rightarrow> byte list \<Rightarrow> mont_elem \<times> nat" where
  "mont_from_bytes G N p n a data = (
     let z = mpz_import G (take n data) in
     if mpz_sgn G z = 0 then (a\<lparr> m_flag := 0 \<rparr>, n)
     else
       let z = mpz_mul_2exp G z (32 * mf_limbs p);
           z = mpz_mod G z (mf_order p)
       in (\<lparr> m_flag = 2, m_d = mont_from_mpz N p z \<rparr>, n))"

section \<open>The table\<close>

text \<open>The constants that \<open>field_init_mont_fp\<close> computes.\<close>

definition mont_init_data :: "gmp \<Rightarrow> mpn \<Rightarrow> int \<Rightarrow> fp_field_data" where
  "mont_init_data G N prime = (
     let primelimbs = mpz_export_limbs N prime;
         t = length primelimbs;
         pad = (\<lambda>d. d @ replicate (t - length d) 0);
         z = mpz_setbit G 0 (32 * t);
         z = mpz_mod G z prime;
         R = pad (mpz_export_limbs N z);
         z = mpz_powm G z 3 prime;
         R3 = pad (mpz_export_limbs N z);
         z = mpz_setbit G 0 (32 * t);
         z = mpz_invert G prime z;
         val = word_of_nat (mpz_get_ui G z)
     in \<lparr> mf_limbs = t, mf_prime = primelimbs, mf_negpinv = - val, mf_R = R, mf_R3 = R3, mf_order = prime \<rparr>)"

definition mont_base :: "gmp \<Rightarrow> mpn \<Rightarrow> limb list \<Rightarrow> int \<Rightarrow> mont_elem field_s" where
  "mont_base G N junk prime = (
     let p = mont_init_data G N prime;
         n = (mpz_sizeinbase G prime 2 + 7) div 8
     in field_init\<lparr>
       f_init := mont_init junk,
       f_set_si := Some (mont_set_si G N p),
       f_set_mpz := Some (mont_set_mpz G N p),
       f_add := mont_add N p,
       f_sub := Some (mont_sub N p),
       f_set := mont_set,
       f_mul := mont_fp_mul N p,
       f_doub := Some (mont_double N p),
       f_halve := Some (mont_halve N p),
       f_pow_mpz := Some (mont_pow_mpz G N p),
       f_neg := mont_neg N p,
       f_sign := mont_sgn_odd G N p,
       f_cmp := Some (mont_cmp N),
       f_invert := mont_invert G N p,
       f_random := Some (mont_random G N p),
       f_from_hash := mont_from_hash G N p,
       f_is1 := Some (mont_is1 N p),
       f_is0 := Some mont_is0,
       f_set0 := mont_set0,
       f_set1 := mont_set1 p,
       f_is_sqr := mont_is_sqr G N p,
       f_to_bytes := mont_to_bytes G N p n,
       f_from_bytes := mont_from_bytes G N p n,
       f_to_mpz := Some (mont_to_mpz N p),
       f_fixed_length := int n,
       f_order := prime \<rparr>)"

definition field_init_mont_fp :: "gmp \<Rightarrow> mpn \<Rightarrow> limb list \<Rightarrow> int \<Rightarrow> mont_elem field_s option" where
  "field_init_mont_fp G N junk prime = (
     if mpz_fits_ulong_p G prime then None
     else Some ((mont_base G N junk prime)\<lparr>
       f_sqrt := (\<lambda>nqr x a. case nqr of
         Some g \<Rightarrow> fp_tonelli G (mont_base G N junk prime) g x a
       | None \<Rightarrow> undefined) \<rparr>))"

end
