(* ===== verification/MontCorrect.thy ===== *)
theory MontCorrect
  imports MontFp
begin

text \<open>
  Montgomery reduction and multiplication. Both clear the limbs of a number from below by adding
  multiples of the modulus, and both end with one subtraction. The multiplication keeps the
  carry of two additions in one limb, which is enough unless the top limb of the modulus is
  all ones.
\<close>

abbreviation W :: nat where "W \<equiv> 2 ^ 32"

locale mont_env = mpn: mpn_laws N + gmp: gmp_laws G
  for N :: mpn and G :: gmp +
  fixes p :: fp_field_data and q :: nat
  assumes limbs: "mf_limbs p = length (mf_prime p)" and limbs_pos: "mf_prime p \<noteq> []"
    and prime: "limbs_val (mf_prime p) = q" and order: "mf_order p = int q"
    and odd_q: "odd q" and q_gt_1: "1 < q"
    and negpinv: "(unat (mf_negpinv p) * q + 1) mod W = 0"
    and R_len: "length (mf_R p) = mf_limbs p" and R: "limbs_val (mf_R p) = W ^ mf_limbs p mod q"
    and R3_len: "length (mf_R3 p) = mf_limbs p" and R3: "limbs_val (mf_R3 p) = (W ^ mf_limbs p) ^ 3 mod q"

context mont_env
begin

abbreviation t :: nat where "t \<equiv> mf_limbs p"

lemma t_pos: "0 < t"
  using limbs limbs_pos by simp

lemma q_less: "q < W ^ t"
  using limbs_val_less [of "mf_prime p"] prime limbs by simp

text \<open>The last subtraction, from a number below \<open>2 q\<close> given by \<open>t\<close> limbs and a carry.\<close>

lemma final_sub:
  assumes h: "length h = t" and S: "limbs_val h + W ^ t * f < 2 * q" and f: "c \<longleftrightarrow> f \<noteq> 0"
  defines "r \<equiv> if c \<or> mpn_cmp N h (mf_prime p) \<ge> 0 then fst (mpn_sub_n N h (mf_prime p)) else h"
  shows "length r = t" and "limbs_val r < q" and "limbs_val r mod q = (limbs_val h + W ^ t * f) mod q"
proof -
  have hl: "length h = length (mf_prime p)" using h limbs by simp
  obtain z b where sub: "mpn_sub_n N h (mf_prime p) = (z, b)" by fastforce
  note z = mpn.sub_n [OF hl sub]
  have zb: "length z = t" "unat b \<le> 1" "limbs_val z + q = limbs_val h + W ^ t * unat b" "limbs_val z < W ^ t"
    using z limbs_val_less [of z] h prime by simp_all
  have cond: "c \<or> mpn_cmp N h (mf_prime p) \<ge> 0 \<longleftrightarrow> q \<le> limbs_val h + W ^ t * f"
  proof (cases "f = 0")
    case True
    then show ?thesis using f mpn.cmp_ge [OF hl] prime by simp
  next
    case False
    then have "W ^ t * 1 \<le> W ^ t * f" by (intro mult_le_mono2) simp
    then have "q \<le> limbs_val h + W ^ t * f" using q_less by linarith
    then show ?thesis using f False by blast
  qed
  have "length r = t \<and> limbs_val r < q \<and> limbs_val r mod q = (limbs_val h + W ^ t * f) mod q"
  proof (cases "q \<le> limbs_val h + W ^ t * f")
    case False
    then have "W ^ t * f < W ^ t" using q_less by linarith
    then have "f = 0" by simp
    then show ?thesis using False cond h unfolding r_def by simp
  next
    case True
    have r: "r = z" unfolding r_def cond using True sub by simp
    have "f < 2"
    proof (rule ccontr)
      assume "\<not> f < 2"
      then have "W ^ t * 2 \<le> W ^ t * f" by (intro mult_le_mono2) simp
      then show False using S q_less by linarith
    qed
    have eq: "limbs_val z + q = limbs_val h + W ^ t * f"
    proof (cases "f = unat b")
      case True
      then show ?thesis using zb(3) by simp
    next
      case False
      then consider "f = 0" "unat b = 1" | "f = 1" "unat b = 0" using \<open>f < 2\<close> zb(2) by linarith
      then show ?thesis
      proof cases
        case 1
        then show ?thesis using True zb(3,4) by simp
      next
        case 2
        then show ?thesis using S zb(3) q_less limbs_val_less [of h] h by simp
      qed
    qed
    then have "limbs_val z < q" using S by linarith
    moreover have "limbs_val z mod q = (limbs_val z + q) mod q" by simp
    ultimately show ?thesis unfolding r using zb(1) eq by simp
  qed
  then show "length r = t" "limbs_val r < q" "limbs_val r mod q = (limbs_val h + W ^ t * f) mod q"
    by simp_all
qed

text \<open>A multiple of the modulus that clears the low limb.\<close>

lemma clears:
  fixes x :: limb and s :: nat
  assumes "s mod W = unat x"
  shows "W dvd s + q * unat (x * mf_negpinv p)"
proof -
  have u: "unat (x * mf_negpinv p) = unat x * unat (mf_negpinv p) mod W" by (simp add: unat_word_ariths)
  have "(s + q * unat (x * mf_negpinv p)) mod W = (unat x + q * (unat x * unat (mf_negpinv p))) mod W"
    unfolding u using assms by (metis mod_add_eq mod_mod_trivial mod_mult_right_eq)
  also have "\<dots> = (unat x * (unat (mf_negpinv p) * q + 1)) mod W" by (simp add: algebra_simps)
  also have "\<dots> = 0" using negpinv by (metis mod_mult_right_eq mult_0_right mod_0)
  finally show ?thesis by (simp add: dvd_eq_mod_eq_0)
qed

lemma limbs_val_mod: "xs \<noteq> [] \<Longrightarrow> limbs_val xs mod W = unat (xs ! 0)"
  using limb_less [of "hd xs"] by (cases xs) (simp_all add: hd_conv_nth)

section \<open>Reduction\<close>

lemma reduce_step:
  assumes y: "length y = 2 * t" and i: "i < t" and dvd: "W ^ i dvd limbs_val y"
    and seg: "mpn_addmul_1 N (take t (drop i y)) (mf_prime p) (y ! i * mf_negpinv p) = (seg, carry)"
    and high: "mpn_add_1 N (drop (i + t) y) carry = (high, c)"
  defines "y' \<equiv> take i y @ seg @ high"
  shows "length y' = 2 * t" and "W ^ Suc i dvd limbs_val y'"
    and "limbs_val y' + W ^ (2 * t) * unat c = limbs_val y + W ^ i * (q * unat (y ! i * mf_negpinv p))"
proof -
  define u where "u = unat (y ! i * mf_negpinv p)"
  define v0 s h where "v0 = limbs_val (take i y)" and "s = limbs_val (take t (drop i y))"
    and "h = limbs_val (drop (i + t) y)"
  have len: "length (take t (drop i y)) = length (mf_prime p)" using y i limbs by simp
  have seg': "length seg = t" "limbs_val seg + W ^ t * unat carry = s + q * u"
    using mpn.addmul_1 [OF len seg limbs_pos] limbs prime unfolding s_def u_def by simp_all
  have "drop (i + t) y \<noteq> []" using y i by simp
  from mpn.add_1 [OF high this] have high': "length high = t - i" "limbs_val high + W ^ (t - i) * unat c = h + unat carry"
    using y i unfolding h_def by simp_all
  show "length y' = 2 * t" unfolding y'_def using seg'(1) high'(1) y i by simp
  have "y = take i y @ take t (drop i y) @ drop (i + t) y"
    by (metis append_take_drop_id drop_drop add.commute)
  then have "limbs_val y = limbs_val (take i y @ take t (drop i y) @ drop (i + t) y)" by simp
  then have Y: "limbs_val y = v0 + W ^ i * (s + W ^ t * h)"
    unfolding limbs_val_append v0_def s_def h_def using y i by simp
  have y': "limbs_val y' = v0 + W ^ i * (limbs_val seg + W ^ t * limbs_val high)"
    unfolding y'_def limbs_val_append v0_def using y i seg'(1) by simp
  have W2: "W ^ (2 * t) = W ^ i * (W ^ t * W ^ (t - i))"
    using i by (simp only: power_add [symmetric]) (rule arg_cong [of _ _ "\<lambda>k. W ^ k"], simp)
  have "limbs_val y' + W ^ (2 * t) * unat c = v0 + W ^ i * (limbs_val seg + W ^ t * (limbs_val high + W ^ (t - i) * unat c))"
    unfolding y' W2 by (simp only: algebra_simps)
  also have "\<dots> = v0 + W ^ i * ((limbs_val seg + W ^ t * unat carry) + W ^ t * h)"
    unfolding high'(2) by (simp only: algebra_simps)
  also have "\<dots> = limbs_val y + W ^ i * (q * u)" unfolding seg'(2) Y by (simp only: algebra_simps)
  finally show eq: "limbs_val y' + W ^ (2 * t) * unat c = limbs_val y + W ^ i * (q * unat (y ! i * mf_negpinv p))"
    unfolding u_def .
  have "v0 < W ^ i" using limbs_val_less [of "take i y"] y i unfolding v0_def by simp
  moreover have "W ^ i dvd v0" using dvd unfolding Y by (simp add: dvd_add_left_iff)
  ultimately have v0: "v0 = 0" using nat_dvd_not_less by blast
  have "take t (drop i y) \<noteq> []" using y i t_pos by simp
  from limbs_val_mod [OF this] have s: "s mod W = unat (y ! i)" unfolding s_def using y i t_pos by simp
  have "(s + W ^ t * h) mod W = s mod W"
  proof -
    have "W dvd W ^ t * h" using t_pos by (simp add: dvd_mult2 dvd_power)
    then show ?thesis by (metis add.right_neutral dvd_eq_mod_eq_0 mod_add_right_eq)
  qed
  from clears [OF this [unfolded s]] have "W dvd s + W ^ t * h + q * u" unfolding u_def .
  then have "W ^ i * W dvd W ^ i * (s + W ^ t * h + q * u)" by (rule mult_dvd_mono [OF dvd_refl])
  then have "W ^ Suc i dvd limbs_val y' + W ^ (2 * t) * unat c"
    unfolding eq Y v0 u_def by (simp add: algebra_simps)
  moreover have "W ^ Suc i dvd W ^ (2 * t) * unat c" using i by (intro dvd_mult2 le_imp_power_dvd) simp
  ultimately show "W ^ Suc i dvd limbs_val y'" using dvd_add_left_iff by blast
qed

text \<open>The invariant of the loop on the number \<open>y + W^(2 t) flag\<close>.\<close>

lemma reduce_loop:
  assumes "mont_reduce_loop N p k y flag = (y', flag')" and "k \<le> t" and "length y = 2 * t"
    and "W ^ (t - k) dvd limbs_val y" and y0: "y0 < W ^ (2 * t)"
    and "limbs_val y + W ^ (2 * t) * unat flag = y0 + q * m" and "m < W ^ (t - k)"
  shows "length y' = 2 * t \<and> W ^ t dvd limbs_val y' \<and>
    (\<exists>m<W ^ t. limbs_val y' + W ^ (2 * t) * unat flag' = y0 + q * m)"
  using assms(1-4,6,7)
proof (induction k arbitrary: y flag m)
  case 0
  then show ?case by auto
next
  case (Suc k)
  define i where "i = t - Suc k"
  have i: "i < t" "t - k = Suc i" using Suc.prems(2) by (simp_all add: i_def)
  define u where "u = unat (y ! i * mf_negpinv p)"
  obtain seg carry where seg: "mpn_addmul_1 N (take t (drop i y)) (mf_prime p) (y ! i * mf_negpinv p) = (seg, carry)"
    by fastforce
  obtain high c where high: "mpn_add_1 N (drop (i + t) y) carry = (high, c)" by fastforce
  note step = reduce_step [OF Suc.prems(3) i(1) Suc.prems(4) [folded i_def] seg high, folded u_def]
  let ?y = "take i y @ seg @ high"
  have total: "limbs_val ?y + W ^ (2 * t) * (unat flag + unat c) = y0 + q * (m + W ^ i * u)"
    using step(3) Suc.prems(5) by (simp add: algebra_simps)
  have m: "m < W ^ i" using Suc.prems(6) i_def by simp
  have "u < W" unfolding u_def by (rule limb_less)
  then have "W ^ i * Suc u \<le> W ^ i * W" by (intro mult_le_mono2) simp
  then have "W ^ i * u + W ^ i \<le> W ^ Suc i" by simp
  with m have m': "m + W ^ i * u < W ^ Suc i" by linarith
  also have "W ^ Suc i \<le> W ^ t" using i(1) by (intro power_increasing) simp_all
  finally have "m + W ^ i * u < W ^ t" .
  then have "q * (m + W ^ i * u) \<le> W ^ t * W ^ t" using q_less by (intro mult_le_mono) simp_all
  also have "\<dots> = W ^ (2 * t)" by (simp add: power_add [symmetric] mult_2)
  finally have "W ^ (2 * t) * (unat flag + unat c) < W ^ (2 * t) * 2" using total y0 by linarith
  then have "unat flag + unat c < 2" by (simp only: mult_less_cancel1)
  then have flag: "unat (flag + c) = unat flag + unat c" by (simp add: unat_word_ariths)
  have "mont_reduce_loop N p k ?y (flag + c) = (y', flag')"
    using Suc.prems(1) seg high by (simp add: i_def Let_def)
  from Suc.IH [OF this _ step(1), of "m + W ^ i * u"] show ?case
    using Suc.prems(2) step(2) total m' i(2) flag by simp
qed

lemma mont_reduce_ok:
  assumes y: "length y = 2 * t" and y0: "limbs_val y < W ^ t * q"
  shows "length (mont_reduce N p y) = t" and "limbs_val (mont_reduce N p y) < q"
    and "(limbs_val (mont_reduce N p y) * W ^ t) mod q = limbs_val y mod q"
proof -
  obtain y' flag where loop: "mont_reduce_loop N p t y 0 = (y', flag)" by fastforce
  have W2: "W ^ (2 * t) = W ^ t * W ^ t" by (simp add: power_add [symmetric] mult_2)
  have "W ^ t * q \<le> W ^ (2 * t)" unfolding W2 using q_less by (intro mult_le_mono2) simp
  then have "limbs_val y < W ^ (2 * t)" using y0 by linarith
  from reduce_loop [OF loop le_refl y _ this, of 0] obtain m where
    m: "length y' = 2 * t" "W ^ t dvd limbs_val y'" "m < W ^ t"
      "limbs_val y' + W ^ (2 * t) * unat flag = limbs_val y + q * m" by auto
  define h where "h = drop t y'"
  have h: "length h = t" using m(1) by (simp add: h_def)
  have split: "limbs_val y' = limbs_val (take t y') + W ^ t * limbs_val h"
    unfolding h_def by (rule limbs_val_take_drop) (simp add: m(1))
  have "limbs_val (take t y') < W ^ t" using limbs_val_less [of "take t y'"] m(1) by simp
  moreover have "W ^ t dvd limbs_val (take t y')" using m(2) unfolding split by (simp add: dvd_add_left_iff)
  ultimately have "limbs_val (take t y') = 0" using nat_dvd_not_less by blast
  then have S: "W ^ t * (limbs_val h + W ^ t * unat flag) = limbs_val y + q * m"
    using m(4) unfolding split W2 by (simp add: algebra_simps)
  have "q * m < W ^ t * q" using m(3) q_gt_1 by (simp add: mult.commute)
  then have "W ^ t * (limbs_val h + W ^ t * unat flag) < W ^ t * q + W ^ t * q" using S y0 by linarith
  then have "W ^ t * (limbs_val h + W ^ t * unat flag) < W ^ t * (2 * q)" by (simp only: mult_2 distrib_left)
  then have lt: "limbs_val h + W ^ t * unat flag < 2 * q" by (simp only: mult_less_cancel1)
  have f: "flag \<noteq> 0 \<longleftrightarrow> unat flag \<noteq> 0" by (simp add: unat_eq_0)
  note r = final_sub [OF h lt f]
  have eq: "mont_reduce N p y = (if flag \<noteq> 0 \<or> mpn_cmp N h (mf_prime p) \<ge> 0 then fst (mpn_sub_n N h (mf_prime p)) else h)"
    by (simp add: mont_reduce_def loop h_def Let_def)
  show "length (mont_reduce N p y) = t" "limbs_val (mont_reduce N p y) < q" unfolding eq using r(1,2) .
  have "(limbs_val (mont_reduce N p y) * W ^ t) mod q = ((limbs_val h + W ^ t * unat flag) * W ^ t) mod q"
    unfolding eq using r(3) by (metis mod_mult_left_eq)
  also have "\<dots> = (limbs_val y + q * m) mod q" using S by (simp add: mult.commute)
  finally show "(limbs_val (mont_reduce N p y) * W ^ t) mod q = limbs_val y mod q" by simp
qed

section \<open>Multiplication\<close>

text \<open>
  A round of \<open>mont_mul\<close> on its window: \<open>seg\<close> and the limb \<open>f\<close> above it hold a number below
  \<open>b + q\<close>, to which \<open>x b\<close> and a multiple of \<open>q\<close> are added.
\<close>

lemma mul_round:
  assumes b: "length b = t" "limbs_val b < q" and seg: "length seg = t"
    and top: "(W + 1) * q \<le> W ^ Suc t"
    and lt: "limbs_val seg + W ^ t * unat f < limbs_val b + q"
    and s1: "length seg1 = t" "limbs_val seg1 + W ^ t * unat c1 = limbs_val seg + limbs_val b * unat x"
    and a2: "mpn_addmul_1 N seg1 (mf_prime p) u = (seg2, c2)" and u: "u = (seg ! 0 + x * b ! 0) * mf_negpinv p"
  defines "v \<equiv> f + c1" and "w \<equiv> f + c1 + c2"
  shows "length seg2 = t" and "W dvd limbs_val seg2"
    and "limbs_val seg2 + W ^ t * unat w + W ^ Suc t * (if w < v then 1 else 0) =
      limbs_val seg + W ^ t * unat f + limbs_val b * unat x + q * unat u"
proof -
  have bn: "b \<noteq> []" using b(1) t_pos by auto
  have s2: "length seg2 = t" "limbs_val seg2 + W ^ t * unat c2 = limbs_val seg1 + q * unat u"
    using mpn.addmul_1 [OF _ a2 limbs_pos] s1(1) limbs prime by simp_all
  show "length seg2 = t" by (rule s2(1))
  have "unat x + 1 \<le> W" using limb_less [of x] by simp
  then have "limbs_val b * (unat x + 1) \<le> limbs_val b * W" by (rule mult_le_mono2)
  then have "limbs_val b + limbs_val b * unat x \<le> W * limbs_val b" by (simp add: algebra_simps)
  moreover have "W * limbs_val b \<le> W * q" using b(2) by simp
  moreover have "(W + 1) * q = W * q + q" by (simp add: algebra_simps)
  moreover have "W ^ t * (unat f + unat c1) \<le> limbs_val seg + W ^ t * unat f + limbs_val b * unat x"
    using s1(2) by (simp add: algebra_simps)
  ultimately have "W ^ t * (unat f + unat c1) < W ^ Suc t" using lt top by linarith
  then have "W ^ t * (unat f + unat c1) < W ^ t * W" by (simp add: mult.commute)
  then have "unat f + unat c1 < W" by (simp only: mult_less_cancel1)
  then have v: "unat v = unat f + unat c1" unfolding v_def by (simp add: unat_word_ariths)
  have w: "unat w + W * (if w < v then 1 else 0) = unat v + unat c2"
  proof (cases "unat v + unat c2 < W")
    case True
    then have "unat w = unat v + unat c2" unfolding w_def v_def [symmetric] by (simp add: unat_word_ariths)
    then show ?thesis by (simp add: word_less_nat_alt)
  next
    case False
    then have "unat w = unat v + unat c2 - W" unfolding w_def v_def [symmetric]
      using limb_less [of v] limb_less [of c2] by (simp add: unat_word_ariths mod_if)
    then show ?thesis using False limb_less [of c2] by (simp add: word_less_nat_alt)
  qed
  have "limbs_val seg2 + W ^ t * unat w + W ^ Suc t * (if w < v then 1 else 0) =
      limbs_val seg2 + W ^ t * (unat w + W * (if w < v then 1 else 0))" by (simp add: algebra_simps)
  also have "\<dots> = (limbs_val seg2 + W ^ t * unat c2) + W ^ t * unat c1 + W ^ t * unat f"
    unfolding w v by (simp add: algebra_simps)
  also have "\<dots> = limbs_val seg + W ^ t * unat f + limbs_val b * unat x + q * unat u"
    unfolding s2(2) using s1(2) by linarith
  finally show "limbs_val seg2 + W ^ t * unat w + W ^ Suc t * (if w < v then 1 else 0) =
      limbs_val seg + W ^ t * unat f + limbs_val b * unat x + q * unat u" .
  have Wt: "W dvd W ^ t" using t_pos by (simp add: dvd_power)
  have segn: "seg \<noteq> []" using seg t_pos by auto
  have "(limbs_val seg + limbs_val b * unat x) mod W = (unat (seg ! 0) + unat (b ! 0) * unat x) mod W"
    unfolding limbs_val_mod [OF segn, symmetric] limbs_val_mod [OF bn, symmetric]
    by (metis mod_add_eq mod_add_left_eq mod_mult_left_eq)
  also have "\<dots> = unat (seg ! 0 + x * b ! 0)"
    by (simp add: unat_word_ariths mod_add_right_eq mult.commute)
  finally have low: "(limbs_val seg1 + W ^ t * unat c1) mod W = unat (seg ! 0 + x * b ! 0)" unfolding s1(2) .
  have "W dvd limbs_val seg1 + W ^ t * unat c1 + q * unat u" unfolding u by (rule clears [OF low])
  then have "W dvd limbs_val seg2 + W ^ t * unat c2 + W ^ t * unat c1"
    unfolding s2(2) by (simp add: algebra_simps)
  moreover have "W dvd W ^ t * unat c2 + W ^ t * unat c1" using Wt by (simp add: dvd_add dvd_mult2)
  ultimately show "W dvd limbs_val seg2" by (metis add.assoc dvd_add_left_iff)
qed

text \<open>The number in the window of round \<open>i\<close>: \<open>t\<close> limbs from \<open>i\<close> and one above them.\<close>

definition window :: "limb list \<Rightarrow> nat \<Rightarrow> nat" where
  "window z i = limbs_val (take t (drop i z)) + W ^ t * unat (z ! (t + i))"

lemma window_less:
  assumes "W ^ i * window z i = A * limbs_val b + m * q" "A < W ^ i" "m < W ^ i"
  shows "window z i < limbs_val b + q"
proof -
  have "A * limbs_val b \<le> W ^ i * limbs_val b" using assms(2) by (intro mult_le_mono1) simp
  moreover have "m * q < W ^ i * q" using assms(3) q_gt_1 by simp
  ultimately have "W ^ i * window z i < W ^ i * (limbs_val b + q)"
    unfolding assms(1) distrib_left by linarith
  then show ?thesis by (simp only: mult_less_cancel1)
qed

text \<open>Writing the limbs of a round: the lowest is zero and leaves the window.\<close>

lemma window_next:
  assumes "length seg = t" "W dvd limbs_val seg" "i < length z"
  shows "W * window (take i z @ seg @ [w, f]) (Suc i) = limbs_val seg + W ^ t * unat w + W ^ Suc t * unat f"
proof -
  obtain s0 rest where seg: "seg = s0 # rest" using assms(1) t_pos by (cases seg) auto
  have len: "length rest = t - 1" using assms(1) seg by simp
  have "W dvd unat s0" using assms(2) unfolding seg by (simp add: dvd_add_left_iff)
  then have s0: "unat s0 = 0" using limb_less [of s0] nat_dvd_not_less by blast
  have drop: "drop (Suc i) (take i z @ seg @ [w, f]) = rest @ [w, f]" using assms(3) seg by simp
  have nth: "(take i z @ seg @ [w, f]) ! (t + Suc i) = f" using assms(1,3) by (simp add: nth_append)
  have "take t (rest @ [w, f]) = rest @ [w]" using len t_pos by simp
  then have "window (take i z @ seg @ [w, f]) (Suc i) = limbs_val (rest @ [w]) + W ^ t * unat f"
    unfolding window_def drop nth by simp
  moreover have "W ^ t = W * W ^ length rest" using len t_pos by (metis Suc_diff_1 power_Suc)
  ultimately show ?thesis unfolding seg by (simp add: limbs_val_append s0 algebra_simps)
qed

lemma limbs_val_take_Suc:
  "i < length xs \<Longrightarrow> limbs_val (take (Suc i) xs) = limbs_val (take i xs) + W ^ i * unat (xs ! i)"
  by (simp add: take_Suc_conv_app_nth limbs_val_append)

lemma mul_loop:
  assumes b: "length b = t" "limbs_val b < q" and a: "length a = t" and top: "(W + 1) * q \<le> W ^ Suc t"
    and "k < t" and "length z = t + (t - k) + 1"
    and "W ^ (t - k) * window z (t - k) = limbs_val (take (t - k) a) * limbs_val b + m * q" "m < W ^ (t - k)"
  shows "\<exists>m<W ^ t. length (mont_mul_loop N p a b k z) = 2 * t + 1 \<and>
    W ^ t * window (mont_mul_loop N p a b k z) t = limbs_val a * limbs_val b + m * q"
  using assms(5-8)
proof (induction k arbitrary: z m)
  case 0
  then show ?case using a by auto
next
  case (Suc k)
  define i where "i = t - Suc k"
  have i: "i < t" "t - k = Suc i" "0 < i" "i < length z" using Suc.prems(1,2) by (simp_all add: i_def)
  define seg where "seg = take t (drop i z)"
  define f where "f = z ! (t + i)"
  define u where "u = (z ! i + a ! i * b ! 0) * mf_negpinv p"
  have len: "length seg = t" using Suc.prems(2) i unfolding seg_def i_def by simp
  have seg0: "seg ! 0 = z ! i" using i t_pos by (simp add: seg_def)
  have win: "window z i = limbs_val seg + W ^ t * unat f" by (simp add: window_def seg_def f_def)
  have A: "limbs_val (take i a) < W ^ i" using limbs_val_less [of "take i a"] a i(1) by simp
  note inv = Suc.prems(3,4) [folded i_def]
  have lt: "limbs_val seg + W ^ t * unat f < limbs_val b + q" using window_less [OF inv(1) A inv(2)] unfolding win .
  obtain seg1 c1 where a1: "mpn_addmul_1 N seg b (a ! i) = (seg1, c1)" by fastforce
  obtain seg2 c2 where a2: "mpn_addmul_1 N seg1 (mf_prime p) u = (seg2, c2)" by fastforce
  have "length seg1 = t" "limbs_val seg1 + W ^ t * unat c1 = limbs_val seg + limbs_val b * unat (a ! i)"
    using mpn.addmul_1 [OF _ a1] b(1) len t_pos by fastforce+
  note round = mul_round [OF b len top lt this a2 u_def [folded seg0]]
  define w where "w = f + c1 + c2"
  define f' :: limb where "f' = (if w < f + c1 then 1 else 0)"
  let ?z = "take i z @ seg2 @ [w, f']"
  have f': "unat f' = (if w < f + c1 then 1 else 0)" by (simp add: f'_def)
  have nxt: "W * window ?z (Suc i) = window z i + limbs_val b * unat (a ! i) + q * unat u"
    unfolding window_next [OF round(1,2) i(4)] f' win using round(3) unfolding w_def by simp
  have inv': "W ^ Suc i * window ?z (Suc i) = limbs_val (take (Suc i) a) * limbs_val b + (m + W ^ i * unat u) * q"
  proof -
    have "W ^ Suc i * window ?z (Suc i) = W ^ i * (W * window ?z (Suc i))" by simp
    also have "\<dots> = W ^ i * window z i + W ^ i * (limbs_val b * unat (a ! i) + q * unat u)"
      unfolding nxt by (simp add: algebra_simps)
    also have "\<dots> = limbs_val (take (Suc i) a) * limbs_val b + (m + W ^ i * unat u) * q"
      using i(1) a unfolding inv(1) by (simp add: limbs_val_take_Suc algebra_simps)
    finally show ?thesis .
  qed
  have "W ^ i * unat u + W ^ i = W ^ i * Suc (unat u)" by simp
  also have "\<dots> \<le> W ^ i * W" using limb_less [of u] by (intro mult_le_mono2) simp
  also have "\<dots> = W ^ Suc i" by simp
  finally have m': "m + W ^ i * unat u < W ^ Suc i" using inv(2) by linarith
  have "mont_mul_loop N p a b (Suc k) z = mont_mul_loop N p a b k ?z"
    by (simp add: i_def [symmetric] Let_def seg_def [symmetric] f_def [symmetric] u_def [symmetric] a1 a2 w_def f'_def)
  moreover have "length ?z = t + (t - k) + 1" using round(1) i by simp
  ultimately show ?case using Suc.IH [of ?z "m + W ^ i * unat u"] Suc.prems(1) inv' m' i(2) by simp
qed

lemma mont_mul_ok:
  assumes a: "length a = t" and b: "length b = t" "limbs_val b < q" and top: "(W + 1) * q \<le> W ^ Suc t"
  shows "length (mont_mul N p a b) = t" and "limbs_val (mont_mul N p a b) < q"
    and "(limbs_val (mont_mul N p a b) * W ^ t) mod q = (limbs_val a * limbs_val b) mod q"
proof -
  define u where "u = a ! 0 * b ! 0 * mf_negpinv p"
  obtain seg1 c1 where m1: "mpn_mul_1 N b (a ! 0) = (seg1, c1)" by fastforce
  obtain seg2 c2 where a2: "mpn_addmul_1 N seg1 (mf_prime p) u = (seg2, c2)" by fastforce
  have bn: "b \<noteq> []" using b(1) t_pos by auto
  let ?z0 = "replicate t 0 :: limb list"
  have s1: "length seg1 = t" "limbs_val seg1 + W ^ t * unat c1 = limbs_val ?z0 + limbs_val b * unat (a ! 0)"
    using mpn.mul_1 [OF m1 bn] b(1) by simp_all
  have lt: "limbs_val ?z0 + W ^ t * unat (0 :: limb) < limbs_val b + q" using q_gt_1 by simp
  have u: "u = (?z0 ! 0 + a ! 0 * b ! 0) * mf_negpinv p" using t_pos by (simp add: u_def)
  note round = mul_round [OF b length_replicate top lt s1 a2 u]
  define z where "z = seg2 @ [c1 + c2, if c1 + c2 < c1 then 1 else 0]"
  have flag: "unat (if c then 1 else 0 :: limb) = (if c then 1 else 0)" for c by simp
  have win: "W * window z 1 = limbs_val b * unat (a ! 0) + q * unat u"
    using window_next [OF round(1,2), of 0 "?z0" "c1 + c2" "if c1 + c2 < c1 then 1 else 0", unfolded flag]
      round(3) t_pos by (simp add: z_def split del: if_split)
  have inv: "W ^ (t - (t - 1)) * window z (t - (t - 1)) = limbs_val (take (t - (t - 1)) a) * limbs_val b + unat u * q"
  proof -
    have "t - (t - 1) = 1" using t_pos by simp
    moreover have "limbs_val (take 1 a) = unat (a ! 0)" using a t_pos by (cases a) auto
    ultimately show ?thesis using win by (simp add: mult.commute)
  qed
  have "unat u < W ^ (t - (t - 1))" using limb_less [of u] t_pos by simp
  with mul_loop [OF b a top, of "t - 1" z "unat u"] inv t_pos round(1) obtain m where
    m: "m < W ^ t" "length (mont_mul_loop N p a b (t - 1) z) = 2 * t + 1"
      "W ^ t * window (mont_mul_loop N p a b (t - 1) z) t = limbs_val a * limbs_val b + m * q"
    by (auto simp: z_def)
  define y where "y = mont_mul_loop N p a b (t - 1) z"
  define h where "h = take t (drop t y)"
  have h: "length h = t" using m(2) by (simp add: h_def y_def)
  have wy: "window y t = limbs_val h + W ^ t * unat (y ! (t * 2))" by (simp add: window_def h_def mult_2_right)
  have "limbs_val a < W ^ t" using limbs_val_less [of a] a by simp
  then have "window y t < limbs_val b + q" using window_less m(1,3) unfolding y_def by blast
  then have S: "limbs_val h + W ^ t * unat (y ! (t * 2)) < 2 * q" using b(2) unfolding wy by linarith
  have f: "y ! (t * 2) \<noteq> 0 \<longleftrightarrow> unat (y ! (t * 2)) \<noteq> 0" by (simp add: unat_eq_0)
  note r = final_sub [OF h S f]
  have eq: "mont_mul N p a b = (if y ! (t * 2) \<noteq> 0 \<or> mpn_cmp N h (mf_prime p) \<ge> 0 then fst (mpn_sub_n N h (mf_prime p)) else h)"
    unfolding mont_mul_def Let_def u_def [symmetric] m1 prod.case a2 z_def [symmetric] y_def [symmetric] h_def [symmetric] ..
  show "length (mont_mul N p a b) = t" "limbs_val (mont_mul N p a b) < q" unfolding eq using r(1,2) .
  have "(limbs_val (mont_mul N p a b) * W ^ t) mod q = (window y t * W ^ t) mod q"
    unfolding eq wy using r(3) by (metis mod_mult_left_eq)
  also have "\<dots> = (limbs_val a * limbs_val b + m * q) mod q" using m(3) unfolding y_def by (simp add: mult.commute)
  finally show "(limbs_val (mont_mul N p a b) * W ^ t) mod q = (limbs_val a * limbs_val b) mod q" by simp
qed

end

end
