(* ===== verification/MontRefine.thy ===== *)
theory MontRefine
  imports MontCorrect
begin

unbundle bit_operations_syntax

text \<open>
  The Montgomery field simulates the field of \<^verbatim>\<open>arith/naivefp.c\<close>: \<open>mont_repr e x\<close> says that
  the element \<open>e\<close> stands for the residue \<open>x\<close>, and the operations of the one take related
  arguments to related results of the other.
\<close>

definition to_mont :: "fp_field_data \<Rightarrow> int \<Rightarrow> nat" where
  "to_mont p x = (nat x * (2 ^ 32) ^ mf_limbs p) mod nat (mf_order p)"

definition mont_rep :: "fp_field_data \<Rightarrow> mont_elem \<Rightarrow> int \<Rightarrow> bool" where
  "mont_rep p e x \<longleftrightarrow> 0 \<le> x \<and> x < mf_order p \<and> length (m_d e) = mf_limbs p \<and>
     (m_flag e = 0 \<and> x = 0 \<or> m_flag e = 2 \<and> x \<noteq> 0 \<and> limbs_val (m_d e) = to_mont p x)"

context mont_env
begin

abbreviation mont_form :: "int \<Rightarrow> nat" where "mont_form \<equiv> to_mont p"
abbreviation mont_repr :: "mont_elem \<Rightarrow> int \<Rightarrow> bool" where "mont_repr \<equiv> mont_rep p"

lemma mont_form_def: "mont_form x = (nat x * W ^ t) mod q"
  by (simp add: to_mont_def order)

lemma mont_repr_def: "mont_repr e x \<longleftrightarrow> 0 \<le> x \<and> x < int q \<and> length (m_d e) = t \<and>
    (m_flag e = 0 \<and> x = 0 \<or> m_flag e = 2 \<and> x \<noteq> 0 \<and> limbs_val (m_d e) = mont_form x)"
  by (simp add: mont_rep_def order)

section \<open>Montgomery forms\<close>

lemma coprime_W: "coprime (W ^ t) q"
proof -
  have "coprime (2 ^ (32 * t)) q" using odd_q by (simp add: coprime_left_2_iff_odd)
  then show ?thesis by (simp add: power_mult)
qed

lemma mont_form_less: "mont_form x < q"
  using q_gt_1 by (simp add: mont_form_def)

lemma cancel_W:
  assumes "(v * W ^ t) mod q = (w * W ^ t) mod q" "v < q" "w < q"
  shows "v = w"
proof -
  have *: "v = w" if "(v * W ^ t) mod q = (w * W ^ t) mod q" "v < q" "w < q" "v \<le> w" for v w
  proof -
    have "v * W ^ t \<le> w * W ^ t" using that(4) by (rule mult_le_mono1)
    then have "q dvd w * W ^ t - v * W ^ t" using that(1) mod_eq_dvd_iff_nat by metis
    then have "q dvd (w - v) * W ^ t" by (simp add: diff_mult_distrib)
    then have "q dvd w - v" using coprime_W by (metis coprime_commute coprime_dvd_mult_left_iff)
    moreover have "w - v < q" using that(3) by simp
    ultimately have "w - v = 0" using nat_dvd_not_less by blast
    then show "v = w" using that(4) by simp
  qed
  show ?thesis using *[of v w] *[of w v] assms by (metis nat_le_linear)
qed

lemma mont_form_0 [simp]: "mont_form 0 = 0"
  by (simp add: mont_form_def)

lemma mont_form_eq_0:
  assumes "0 \<le> x" "x < int q"
  shows "mont_form x = 0 \<longleftrightarrow> x = 0"
proof
  assume "mont_form x = 0"
  then have "(nat x * W ^ t) mod q = (0 * W ^ t) mod q" by (simp add: mont_form_def)
  from cancel_W [OF this] assms q_gt_1 show "x = 0" by simp
qed simp

text \<open>Residues by natural numbers.\<close>

lemma nat_residue: "0 \<le> x \<Longrightarrow> nat (x mod int q) = nat x mod q"
  by (simp add: nat_mod_distrib)

lemma mont_form_mod: "0 \<le> x \<Longrightarrow> mont_form (x mod int q) = mont_form x"
  by (simp add: mont_form_def nat_residue mod_mult_left_eq)

lemma mont_form_add: "0 \<le> x \<Longrightarrow> 0 \<le> y \<Longrightarrow> mont_form ((x + y) mod int q) = (mont_form x + mont_form y) mod q"
  by (simp add: mont_form_mod) (simp add: mont_form_def nat_add_distrib distrib_right mod_add_eq)

lemma mont_form_mult:
  assumes "0 \<le> x" "0 \<le> y" "v < q" "(v * W ^ t) mod q = (mont_form x * mont_form y) mod q"
  shows "v = mont_form ((x * y) mod int q)"
proof (rule cancel_W [OF _ assms(3) mont_form_less])
  have "(mont_form ((x * y) mod int q) * W ^ t) mod q = (nat x * nat y * W ^ t * W ^ t) mod q"
    using assms(1,2) by (simp add: mont_form_mod) (simp add: mont_form_def nat_mult_distrib mod_mult_left_eq)
  also have "\<dots> = (mont_form x * mont_form y) mod q"
    unfolding mont_form_def mod_mult_eq by (simp only: ac_simps)
  finally show "(v * W ^ t) mod q = (mont_form ((x * y) mod int q) * W ^ t) mod q" using assms(4) by simp
qed

section \<open>Building related elements\<close>

lemma residue_bounds: "0 \<le> z mod int q" "z mod int q < int q"
  using q_gt_1 by simp_all

lemma repr_0: "length d = t \<Longrightarrow> mont_repr \<lparr> m_flag = 0, m_d = d \<rparr> 0"
  using q_gt_1 by (simp add: mont_repr_def)

lemma repr_2:
  "length d = t \<Longrightarrow> limbs_val d = mont_form x \<Longrightarrow> limbs_val d \<noteq> 0 \<Longrightarrow> 0 \<le> x \<Longrightarrow> x < int q \<Longrightarrow>
    mont_repr \<lparr> m_flag = 2, m_d = d \<rparr> x"
  by (auto simp: mont_repr_def)

lemma reprD:
  assumes "mont_repr e x"
  shows "0 \<le> x" "x < int q" "length (m_d e) = t" and "m_flag e = 0 \<longleftrightarrow> x = 0"
    and "x \<noteq> 0 \<Longrightarrow> limbs_val (m_d e) = mont_form x" and "x \<noteq> 0 \<Longrightarrow> m_flag e = 2"
    and "x \<noteq> 0 \<Longrightarrow> 0 < mont_form x"
  using assms mont_form_eq_0 [of x] by (auto simp: mont_repr_def)

lemma repr_set_flag: "mont_repr c z \<Longrightarrow> mont_repr (c\<lparr> m_flag := 0 \<rparr>) 0"
  using q_gt_1 by (simp add: mont_repr_def)

lemma from_mpz_ok:
  assumes "0 \<le> z" "z < int q"
  shows "length (mont_from_mpz N p z) = t" and "limbs_val (mont_from_mpz N p z) = nat z"
proof -
  have "nat \<bar>z\<bar> < q" using assms by (simp add: nat_less_iff)
  then have "nat \<bar>z\<bar> < W ^ t" using q_less by (rule less_trans)
  from mpn.export_size [OF this] show "length (mont_from_mpz N p z) = t"
    by (simp add: mont_from_mpz_def Let_def)
  show "limbs_val (mont_from_mpz N p z) = nat z"
    using assms(1) mpn.export_limbs [of z] by (simp add: mont_from_mpz_def Let_def limbs_val_append)
qed

text \<open>Storing \<open>z R mod q\<close>.\<close>

lemma from_mpz_form:
  assumes "z mod int q \<noteq> 0"
  shows "mont_repr \<lparr> m_flag = 2, m_d = mont_from_mpz N p (mpz_mod G (mpz_mul_2exp G z (32 * t)) (mf_order p)) \<rparr>
    (z mod int q)"
proof -
  have v: "mpz_mod G (mpz_mul_2exp G z (32 * t)) (mf_order p) = (z * int (W ^ t)) mod int q"
    using order q_gt_1 by (simp add: gmp.mul_2exp gmp.mod power_mult)
  have "(z * int (W ^ t)) mod int q = (z mod int q * int (W ^ t)) mod int q" by (simp add: mod_mult_left_eq)
  also have "\<dots> = int (mont_form (z mod int q))"
    using residue_bounds(1) [of z] by (simp add: mont_form_def zmod_int)
  finally have f: "(z * int (W ^ t)) mod int q = int (mont_form (z mod int q))" .
  have "int (mont_form (z mod int q)) < int q" using mont_form_less by simp
  note fm = from_mpz_ok [OF _ this, unfolded nat_int]
  show ?thesis unfolding v f
    using fm residue_bounds mont_form_eq_0 [OF residue_bounds, of z] assms
    by (intro repr_2) simp_all
qed

section \<open>Sums\<close>

text \<open>The reduction of a sum given by limbs and a carry, shared by \<open>fp_add\<close> and \<open>fp_double\<close>.\<close>

definition reduce_sum :: "limb list \<Rightarrow> limb \<Rightarrow> mont_elem" where
  "reduce_sum d carry = (
     if carry \<noteq> 0 then \<lparr> m_flag = 2, m_d = fst (mpn_sub_n N d (mf_prime p)) \<rparr>
     else
       let i = mpn_cmp N d (mf_prime p) in
       if i = 0 then \<lparr> m_flag = 0, m_d = d \<rparr>
       else if i > 0 then \<lparr> m_flag = 2, m_d = fst (mpn_sub_n N d (mf_prime p)) \<rparr>
       else \<lparr> m_flag = 2, m_d = d \<rparr>)"

lemma reduce_sum_ok:
  assumes d: "length d = t" and S: "limbs_val d + W ^ t * unat carry = s" and s: "0 < s" "s < 2 * q"
    and x: "s mod q = mont_form x" "0 \<le> x" "x < int q"
  shows "mont_repr (reduce_sum d carry) x"
proof -
  have dl: "length d = length (mf_prime p)" using d limbs by simp
  define r where "r = (if carry \<noteq> 0 \<or> mpn_cmp N d (mf_prime p) \<ge> 0 then fst (mpn_sub_n N d (mf_prime p)) else d)"
  have f: "carry \<noteq> 0 \<longleftrightarrow> unat carry \<noteq> 0" by (simp add: unat_eq_0)
  note r = final_sub [OF d S [THEN ord_eq_less_trans] f, OF s(2), folded r_def]
  have rv: "limbs_val r = mont_form x" using r(2,3) S x(1) by simp
  show ?thesis
  proof (cases "carry = 0 \<and> mpn_cmp N d (mf_prime p) = 0")
    case True
    then have "s = q" using S mpn.cmp_0 [OF dl] prime by simp
    then have "x = 0" using x mont_form_eq_0 by simp
    moreover have "reduce_sum d carry = \<lparr> m_flag = 0, m_d = d \<rparr>" using True by (simp add: reduce_sum_def)
    ultimately show ?thesis using repr_0 [OF d] by simp
  next
    case False
    then have eq: "reduce_sum d carry = \<lparr> m_flag = 2, m_d = r \<rparr>"
      by (auto simp: reduce_sum_def r_def Let_def)
    have "s \<noteq> q"
    proof
      assume "s = q"
      then have "W ^ t * unat carry < W ^ t * 1" using S q_less by linarith
      then have "carry = 0" by (simp only: mult_less_cancel1) (simp add: unat_eq_0)
      moreover from this have "mpn_cmp N d (mf_prime p) = 0" using S \<open>s = q\<close> mpn.cmp_0 [OF dl] prime by simp
      ultimately show False using False by simp
    qed
    then have "s mod q \<noteq> 0" using s by (cases "s < q") (simp_all add: mod_if)
    then show ?thesis unfolding eq using r(1) rv x by (intro repr_2) simp_all
  qed
qed

lemma mont_set_repr:
  assumes "mont_repr c z" "mont_repr a x"
  shows "mont_repr (mont_set c a) x"
  using assms reprD [OF assms(2)] repr_set_flag [OF assms(1)] by (auto simp: mont_set_def mont_repr_def)

lemma mont_add_repr:
  assumes c: "mont_repr c z" and a: "mont_repr a x" and b: "mont_repr b y"
  shows "mont_repr (mont_add N p c a b) ((x + y) mod int q)"
proof -
  note A = reprD [OF a] and B = reprD [OF b]
  consider "x = 0" | "x \<noteq> 0" "y = 0" | "x \<noteq> 0" "y \<noteq> 0" by blast
  then show ?thesis
  proof cases
    case 1
    then show ?thesis using mont_set_repr [OF c b] A B by (simp add: mont_add_def)
  next
    case 2
    then show ?thesis using mont_set_repr [OF c a] A B by (simp add: mont_add_def)
  next
    case 3
    obtain d carry where add: "mpn_add_n N (m_d a) (m_d b) = (d, carry)" by fastforce
    have "length (m_d a) = length (m_d b)" using A B by simp
    from mpn.add_n [OF this add] have d: "length d = t" "limbs_val d + W ^ t * unat carry = mont_form x + mont_form y"
      using A B 3 by simp_all
    have "mont_add N p c a b = reduce_sum d carry" using 3 A(4) B(4) add by (simp add: mont_add_def reduce_sum_def)
    moreover have "mont_form x + mont_form y < 2 * q" using mont_form_less [of x] mont_form_less [of y] by simp
    ultimately show ?thesis
      using reduce_sum_ok [OF d _ _ _ residue_bounds, of "x + y"] A(7) 3 mont_form_add [OF A(1) B(1)] by simp
  qed
qed

lemma mont_double_repr:
  assumes c: "mont_repr c z" and a: "mont_repr a x"
  shows "mont_repr (mont_double N p c a) ((x + x) mod int q)"
proof (cases "x = 0")
  case True
  then show ?thesis using repr_set_flag [OF c] reprD(4) [OF a] by (simp add: mont_double_def)
next
  case False
  note A = reprD [OF a]
  obtain d carry where sh: "mpn_lshift1 N (m_d a) = (d, carry)" by fastforce
  have "m_d a \<noteq> []" using A(3) t_pos by auto
  from mpn.lshift1 [OF sh this] have d: "length d = t" "limbs_val d + W ^ t * unat carry = mont_form x + mont_form x"
    using A False by simp_all
  have "mont_double N p c a = reduce_sum d carry" using False A(4) sh by (simp add: mont_double_def reduce_sum_def)
  moreover have "mont_form x + mont_form x < 2 * q" using mont_form_less [of x] by simp
  ultimately show ?thesis
    using reduce_sum_ok [OF d _ _ _ residue_bounds, of "x + x"] A(7) False mont_form_add [OF A(1) A(1)] by simp
qed

section \<open>Differences\<close>

lemma mont_neg_repr:
  assumes c: "mont_repr c z" and a: "mont_repr a x"
  shows "mont_repr (mont_neg N p c a) ((- x) mod int q)"
proof (cases "x = 0")
  case True
  then show ?thesis using repr_set_flag [OF c] reprD(4) [OF a] by (simp add: mont_neg_def)
next
  case False
  note A = reprD [OF a]
  obtain d b where sub: "mpn_sub_n N (mf_prime p) (m_d a) = (d, b)" by fastforce
  have len: "length (mf_prime p) = length (m_d a)" using A(3) limbs by simp
  have d: "length d = t" "unat b \<le> 1" "limbs_val d + mont_form x = q + W ^ t * unat b" "limbs_val d < W ^ t"
    using mpn.sub_n [OF len sub] A(3,5) False prime limbs limbs_val_less [of d] by simp_all
  have "unat b = 0"
  proof (rule ccontr)
    assume "unat b \<noteq> 0"
    then have "unat b = 1" using d(2) by simp
    then have "limbs_val d + mont_form x = q + W ^ t" using d(3) by simp
    then show False using d(4) mont_form_less [of x] by linarith
  qed
  then have v: "limbs_val d + mont_form x = q" using d(3) by simp
  have x': "(- x) mod int q = int q - x"
    using A(1,2) False mod_pos_pos_trivial [of "int q - x" "int q"] by (simp add: zmod_zminus1_eq_if)
  have "mont_form (int q - x) = q - mont_form x"
  proof -
    have "(mont_form (int q - x) + mont_form x) mod q = mont_form (((int q - x) + x) mod int q)"
      using A(1,2) by (intro mont_form_add [symmetric]) simp_all
    then have "(mont_form (int q - x) + mont_form x) mod q = 0" by simp
    moreover have "0 < mont_form (int q - x)" using mont_form_eq_0 [of "int q - x"] A(1,2) False by simp
    ultimately have "mont_form (int q - x) + mont_form x = q"
      using mont_form_less [of x] mont_form_less [of "int q - x"] by (simp add: mod_if split: if_splits)
    then show ?thesis by simp
  qed
  then have "limbs_val d = mont_form ((- x) mod int q)" using v unfolding x' by simp
  then show ?thesis
    using False A d(1) v mont_form_less [of x] residue_bounds [of "- x"] sub
    by (simp add: mont_neg_def) (intro repr_2, simp_all)
qed

lemma mont_sub_repr:
  assumes c: "mont_repr c z" and a: "mont_repr a x" and b: "mont_repr b y"
  shows "mont_repr (mont_sub N p c a b) ((x - y) mod int q)"
proof -
  note A = reprD [OF a] and B = reprD [OF b]
  consider "x = 0" | "x \<noteq> 0" "y = 0" | "x \<noteq> 0" "y \<noteq> 0" by blast
  then show ?thesis
  proof cases
    case 1
    then show ?thesis using mont_neg_repr [OF c b] A(4) by (simp add: mont_sub_def)
  next
    case 2
    then show ?thesis using mont_set_repr [OF c a] A B(4) by (simp add: mont_sub_def)
  next
    case 3
    have len: "length (m_d a) = length (m_d b)" using A(3) B(3) by simp
    define w where "w = mont_form ((x - y) mod int q)"
    have sum: "(w + mont_form y) mod q = mont_form x"
    proof -
      have "(w + mont_form y) mod q = mont_form (((x - y) mod int q + y) mod int q)"
        unfolding w_def using B(1) residue_bounds by (intro mont_form_add [symmetric]) simp_all
      also have "((x - y) mod int q + y) mod int q = x" using A(1,2) by (simp add: mod_add_left_eq)
      finally show ?thesis .
    qed
    have w: "w < q" unfolding w_def by (rule mont_form_less)
    show ?thesis
    proof (cases "mpn_cmp N (m_d a) (m_d b) = 0")
      case True
      then have eq: "mont_form x = mont_form y" using mpn.cmp_0 [OF len] A(5) B(5) 3 by simp
      then have "(w + mont_form y) mod q = mont_form y" using sum by simp
      then have "w = 0" using w mont_form_less [of y] by (simp add: mod_if split: if_splits)
      then have "(x - y) mod int q = 0" using mont_form_eq_0 [OF residue_bounds, of "x - y"] unfolding w_def by simp
      then show ?thesis using True 3 A(4) B(4) repr_set_flag [OF c] by (simp add: mont_sub_def)
    next
      case False
      obtain d bo where sub: "mpn_sub_n N (m_d a) (m_d b) = (d, bo)" by fastforce
      have d: "length d = t" "unat bo \<le> 1" "limbs_val d + mont_form y = mont_form x + W ^ t * unat bo" "limbs_val d < W ^ t"
        using mpn.sub_n [OF len sub] A(3,5) B(5) 3 limbs_val_less [of d] by simp_all
      have lt: "mpn_cmp N (m_d a) (m_d b) < 0 \<longleftrightarrow> mont_form x < mont_form y"
        using mpn.cmp_lt [OF len] A(5) B(5) 3 by simp
      have ne: "mont_form x \<noteq> mont_form y" using False mpn.cmp_0 [OF len] A(5) B(5) 3 by simp
      then have w0: "w \<noteq> 0" using sum mont_form_less [of y] by (metis add_0 mod_less)
      show ?thesis
      proof (cases "mont_form x < mont_form y")
        case True
        have wv: "w + mont_form y = mont_form x + q"
          using sum w mont_form_less [of x] mont_form_less [of y] True by (simp add: mod_if split: if_splits)
        have bo: "unat bo = 1"
        proof (rule ccontr)
          assume "unat bo \<noteq> 1"
          then have "unat bo = 0" using d(2) by simp
          then show False using d(3) True by simp
        qed
        obtain e co where add: "mpn_add_n N d (mf_prime p) = (e, co)" by fastforce
        have "length d = length (mf_prime p)" using d(1) limbs by simp
        from mpn.add_n [OF this add] have e: "length e = t" "limbs_val e + W ^ t * unat co = limbs_val d + q" "limbs_val e < W ^ t"
          using d(1) prime limbs_val_less [of e] by simp_all
        have "limbs_val e + W ^ t * unat co = w + W ^ t" using e(2) d(3) bo wv by simp
        moreover have "w < W ^ t" using w q_less by (rule less_trans)
        ultimately have "limbs_val e = w" using e(3) by (metis add.commute digit_eq mult_1_right)
        then show ?thesis using 3 False A(4) B(4) lt True sub add w0 e(1) residue_bounds [of "x - y"]
          by (simp add: mont_sub_def Let_def) (intro repr_2, simp_all add: w_def)
      next
        case False
        have wv: "w + mont_form y = mont_form x"
          using sum w mont_form_less [of x] mont_form_less [of y] False ne by (simp add: mod_if split: if_splits)
        have "unat bo = 0"
        proof (rule ccontr)
          assume "unat bo \<noteq> 0"
          then have "unat bo = 1" using d(2) by simp
          then have "limbs_val d = w + W ^ t" using d(3) wv by simp
          then show False using d(4) by simp
        qed
        then have "limbs_val d = w" using d(3) wv by simp
        then show ?thesis using 3 \<open>mpn_cmp N (m_d a) (m_d b) \<noteq> 0\<close> A(4) B(4) lt False sub w0 d(1) residue_bounds [of "x - y"]
          by (simp add: mont_sub_def Let_def) (intro repr_2, simp_all add: w_def)
      qed
    qed
  qed
qed

end

section \<open>Products, inverses and conversions\<close>

text \<open>The carry of \<open>mont_mul\<close> fits its limb.\<close>

locale mont_carry = mont_env N G p q
  for N :: mpn and G :: gmp and p :: fp_field_data and q :: nat +
  assumes carry_fits: "(W + 1) * q \<le> W ^ Suc (mf_limbs p)"

context mont_carry
begin

lemma mont_mul_repr:
  assumes c: "mont_repr c z" and a: "mont_repr a x" and b: "mont_repr b y"
    and nz: "int q dvd x * y \<Longrightarrow> x = 0 \<or> y = 0"
  shows "mont_repr (mont_fp_mul N p c a b) ((x * y) mod int q)"
proof (cases "x = 0 \<or> y = 0")
  case True
  then show ?thesis using repr_set_flag [OF c] reprD(4) [OF a] reprD(4) [OF b] by (auto simp: mont_fp_mul_def)
next
  case False
  note A = reprD [OF a] and B = reprD [OF b]
  have "limbs_val (m_d b) < q" using B(5) False mont_form_less by simp
  note m = mont_mul_ok [OF A(3) B(3) this carry_fits]
  have v: "limbs_val (mont_mul N p (m_d a) (m_d b)) = mont_form ((x * y) mod int q)"
    using m(3) A(5) B(5) False by (intro mont_form_mult [OF A(1) B(1) m(2)]) simp
  have "(x * y) mod int q \<noteq> 0" using nz False by (auto simp: dvd_eq_mod_eq_0)
  then show ?thesis using False A(4) B(4) m(1) v residue_bounds mont_form_eq_0 [OF residue_bounds, of "x * y"]
    by (simp add: mont_fp_mul_def) (intro repr_2, simp_all)
qed

lemma to_mpz_ok:
  assumes "mont_repr a x"
  shows "mont_to_mpz N p a = x"
proof (cases "x = 0")
  case True
  then show ?thesis using reprD(4) [OF assms] by (simp add: mont_to_mpz_def)
next
  case False
  note A = reprD [OF assms]
  let ?y = "m_d a @ replicate t 0"
  have y: "length ?y = 2 * t" "limbs_val ?y = mont_form x" using A(3,5) False by (simp_all add: limbs_val_append)
  have "mont_form x < 1 * q" using mont_form_less by simp
  also have "\<dots> \<le> W ^ t * q" by (intro mult_le_mono1) simp
  finally have "limbs_val ?y < W ^ t * q" unfolding y(2) .
  note r = mont_reduce_ok [OF y(1) this]
  have "(limbs_val (mont_reduce N p ?y) * W ^ t) mod q = (nat x * W ^ t) mod q"
    using r(3) unfolding y(2) by (simp add: mont_form_def)
  moreover have "nat x < q" using A(1,2) by (simp add: nat_less_iff)
  ultimately have v: "limbs_val (mont_reduce N p ?y) = nat x" using cancel_W r(2) by blast
  have zero: "limbs_val xs = 0" if "list_all (\<lambda>x. x = 0) xs" for xs :: "limb list"
    using that by (induction xs) simp_all
  have "\<not> list_all (\<lambda>x. x = 0) (mont_reduce N p ?y)"
  proof
    assume "list_all (\<lambda>x. x = 0) (mont_reduce N p ?y)"
    have "nat x = 0" using zero [OF \<open>list_all _ _\<close>] unfolding v .
    then show False using False A(1) by simp
  qed
  then show ?thesis using False A(1,3,4) v by (simp add: mont_to_mpz_def Let_def)
qed

lemma zp_invert_bounds:
  assumes "coprime x (int q)"
  shows "0 \<le> mpz_invert G x (int q)" "mpz_invert G x (int q) < int q" "(mpz_invert G x (int q) * x) mod int q = 1"
proof -
  from assms gmp.invert [of "int q" x] q_gt_1
  show "0 \<le> mpz_invert G x (int q)" "mpz_invert G x (int q) < int q" "(mpz_invert G x (int q) * x) mod int q = 1"
    by simp_all
qed

lemma mont_invert_repr:
  assumes a: "mont_repr a x" and c: "coprime x (int q)"
  shows "mont_repr (mont_invert G N p c a) (zp_invert G (int q) x)"
proof -
  note A = reprD [OF a]
  have x: "x \<noteq> 0" using c q_gt_1 by auto
  have "coprime (nat x) q" using c A(1) coprime_int_iff [of "nat x" q] by simp
  then have "coprime (nat x * W ^ t) q" using coprime_W by simp
  then have "coprime (mont_form x) q" unfolding mont_form_def
    using coprime_mod_left_iff [of q "nat x * W ^ t"] q_gt_1 by simp
  then have form: "coprime (int (mont_form x)) (int q)" by simp
  define w where "w = mpz_invert G (int (mont_form x)) (int q)"
  note w = zp_invert_bounds [OF form, folded w_def]
  define y where "y = zp_invert G (int q) x"
  have y: "0 \<le> y" "y < int q" "(y * x) mod int q = 1"
    using zp_invert_bounds [OF c] by (simp_all add: y_def zp_invert_def)
  have z: "mpz_import_limbs N (m_d a) = int (mont_form x)" using A(5) x mpn.import_limbs by simp
  note tmp = from_mpz_ok [OF w(1,2)]
  have "limbs_val (mf_R3 p) < q" using R3 q_gt_1 by simp
  note m = mont_mul_ok [OF tmp(1) R3_len this carry_fits]
  let ?r = "limbs_val (mont_mul N p (mont_from_mpz N p w) (mf_R3 p))"
  text \<open>\<open>?r R = w R^3\<close> and \<open>w x R = 1\<close>, so \<open>?r = y R\<close>.\<close>
  have wx: "(nat w * (nat x * W ^ t)) mod q = 1"
  proof -
    have "int ((nat w * mont_form x) mod q) = (w * int (mont_form x)) mod int q" using w(1) by (simp add: zmod_int)
    then have "(nat w * mont_form x) mod q = 1" using w(3) by simp
    then show ?thesis by (simp add: mont_form_def mod_mult_right_eq)
  qed
  have yx: "(nat y * nat x) mod q = 1"
  proof -
    have "int ((nat y * nat x) mod q) = (y * x) mod int q" using y(1) A(1) by (simp add: zmod_int)
    then show ?thesis using y(3) by simp
  qed
  have rW: "(?r * W ^ t) mod q = (nat w * (W ^ t) ^ 3) mod q"
    using m(3) unfolding tmp(2) R3 by (simp add: mod_mult_right_eq)
  have "?r = mont_form y"
  proof (rule cancel_W [OF _ m(2) mont_form_less])
    have "(nat w * (W ^ t) ^ 3) mod q = ((nat w * (W ^ t) ^ 3) * ((nat y * nat x) mod q)) mod q" unfolding yx by simp
    also have "\<dots> = ((nat w * (W ^ t) ^ 3) * (nat y * nat x)) mod q" by (rule mod_mult_right_eq)
    also have "(nat w * (W ^ t) ^ 3) * (nat y * nat x) = (nat w * (nat x * W ^ t)) * (nat y * (W ^ t) ^ 2)"
      by (simp only: power3_eq_cube power2_eq_square ac_simps)
    also have "\<dots> mod q = ((nat w * (nat x * W ^ t)) mod q * (nat y * (W ^ t) ^ 2)) mod q"
      by (rule mod_mult_left_eq [symmetric])
    also have "\<dots> = (nat y * W ^ t * W ^ t) mod q" unfolding wx by (simp add: power2_eq_square ac_simps)
    also have "\<dots> = (mont_form y * W ^ t) mod q" unfolding mont_form_def by (simp add: mod_mult_left_eq)
    finally show "(?r * W ^ t) mod q = (mont_form y * W ^ t) mod q" unfolding rW .
  qed
  moreover have "y \<noteq> 0" using y(3) q_gt_1 by auto
  ultimately have "mont_repr \<lparr> m_flag = 2, m_d = mont_mul N p (mont_from_mpz N p w) (mf_R3 p) \<rparr> y"
    using m(1) y(1,2) mont_form_eq_0 [OF y(1,2)] by (intro repr_2) simp_all
  then show ?thesis by (simp add: mont_invert_def Let_def z order w_def y_def)
qed

lemma mont_set_mpz_repr:
  assumes c: "mont_repr c y" and z: "z = 0 \<or> z mod int q \<noteq> 0"
  shows "mont_repr (mont_set_mpz G N p c z) (zp_set_mpz G (int q) z)"
proof (cases "z = 0")
  case True
  then show ?thesis using repr_set_flag [OF c] q_gt_1
    by (simp add: mont_set_mpz_def gmp.sgn zp_set_mpz_def gmp.mod)
next
  case False
  then show ?thesis using z from_mpz_form [of z] q_gt_1
    by (simp add: mont_set_mpz_def gmp.sgn sgn_0_0 zp_set_mpz_def gmp.mod Let_def)
qed

lemma mont_pow_repr:
  assumes c: "mont_repr c z" and a: "mont_repr a x" and n: "0 \<le> n" "x = 0 \<Longrightarrow> 0 < n"
    and nz: "int q dvd x ^ nat n \<Longrightarrow> x = 0"
  shows "mont_repr (mont_pow_mpz G N p c a n) (zp_pow_mpz G (int q) x n)"
proof (cases "x = 0")
  case True
  then have "mont_repr (c\<lparr> m_flag := 0 \<rparr>) 0" "0 < nat n" using repr_set_flag [OF c] n by simp_all
  then show ?thesis using True reprD(4) [OF a] q_gt_1 n(1)
    by (simp add: mont_pow_mpz_def zp_pow_mpz_def gmp.powm zero_power)
next
  case False
  note A = reprD [OF a]
  have "\<not> int q dvd x ^ nat n" using nz False by blast
  then have ne: "x ^ nat n mod int q \<noteq> 0" by (simp add: dvd_eq_mod_eq_0)
  have v: "mpz_powm G x n (mf_order p) = x ^ nat n mod int q" using order q_gt_1 n(1) by (simp add: gmp.powm)
  have "(x ^ nat n mod int q) mod int q \<noteq> 0" using ne by simp
  from from_mpz_form [OF this] show ?thesis
    using False A(4) v order by (simp add: mont_pow_mpz_def to_mpz_ok [OF a] zp_pow_mpz_def Let_def)
qed

lemma mont_set1_repr: "mont_repr (mont_set1 p e) 1"
proof -
  have "mont_form 1 = limbs_val (mf_R p)" by (simp add: mont_form_def R)
  then show ?thesis using R_len mont_form_eq_0 [of 1] q_gt_1 unfolding mont_set1_def by (intro repr_2) simp_all
qed

lemma mont_tests_ok:
  assumes a: "mont_repr a x" and b: "mont_repr b y"
  shows "mont_is0 a = zp_is0 G x" and "mont_sgn_odd G N p a = zp_sgn_odd G x" and "mont_is_sqr G N p a = zp_is_sqr G (int q) x"
    and "x = 0 \<or> y \<noteq> 0 \<Longrightarrow> mont_cmp N a b = 0 \<longleftrightarrow> zp_cmp G x y = 0"
proof -
  note A = reprD [OF a] and B = reprD [OF b]
  show "mont_is0 a = zp_is0 G x" "mont_sgn_odd G N p a = zp_sgn_odd G x" "mont_is_sqr G N p a = zp_is_sqr G (int q) x"
    using A(4) to_mpz_ok [OF a] order
    by (simp_all add: mont_is0_def zp_is0_def gmp.is0 mont_sgn_odd_def zp_sgn_odd_def mont_is_sqr_def zp_is_sqr_def)
  show "mont_cmp N a b = 0 \<longleftrightarrow> zp_cmp G x y = 0" if "x = 0 \<or> y \<noteq> 0"
  proof (cases "x = 0")
    case True
    then show ?thesis using A(4) B(4) by (auto simp: mont_cmp_def zp_cmp_def gmp.cmp_eq)
  next
    case False
    then have len: "length (m_d a) = length (m_d b)" using A(3) B(3) by simp
    have "mont_form x = mont_form y \<longleftrightarrow> x = y"
      using cancel_W [of "nat x" "nat y"] A(1,2) B(1,2) by (auto simp: mont_form_def nat_less_iff)
    then show ?thesis using that False A(4,5) B(5) mpn.cmp_0 [OF len]
      by (simp add: mont_cmp_def zp_cmp_def gmp.cmp_eq)
  qed
qed

end

text \<open>
  A zero that keeps the limbs of a nonzero element compares equal to that element when it is
  the second argument.
\<close>

lemma mont_cmp_stale_zero:
  assumes "mpn_laws N" "m_flag a \<noteq> 0"
  shows "mont_cmp N a (mont_set0 (mont_set c a)) = 0"
  using assms mpn_laws.cmp_0 [OF assms(1)] by (simp add: mont_cmp_def mont_set0_def mont_set_def)

text \<open>Halving an odd number of limbs into a destination that was zero gives zero.\<close>

lemma mont_halve_stale_flag:
  assumes "m_flag a \<noteq> 0" "m_d a ! 0 AND 1 \<noteq> 0" "m_flag c = 0"
  shows "m_flag (mont_halve N p c a) = 0"
  using assms by (simp add: mont_halve_def Let_def split: prod.splits)

end
