(* ===== verification/FastFp.thy ===== *)
theory FastFp
  imports Mpn NaiveFp
begin

unbundle bit_operations_syntax

text \<open>
  \<open>F_p\<close> on the low-level functions of GMP, \<^verbatim>\<open>arith/fastfp.c\<close>: an element is the limbs of a
  residue, as many as the modulus has; every operation writes the whole destination. The fixed
  size of the scratch arrays is not part of the model. \<open>fp_square\<close> hands its limbs to a function of
  GMP on integers; where the highest limb is zero, it is taken to read the number the limbs stand for.
\<close>

section \<open>More functions of GMP\<close>

text \<open>
  \<open>mpn_sub_1\<close>, \<open>mpn_mul_n\<close> and the remainder of \<open>mpn_tdiv_qr\<close>, whose divisor must not have a zero
  as its highest limb.
\<close>

record mpn_div =
  mpn_sub_1 :: "limb list \<Rightarrow> limb \<Rightarrow> limb list \<times> limb"
  mpn_mul_n :: "limb list \<Rightarrow> limb list \<Rightarrow> limb list"
  mpn_tdiv_r :: "limb list \<Rightarrow> limb list \<Rightarrow> limb list"

locale mpn_div_laws =
  fixes D :: mpn_div
  assumes sub_1: "mpn_sub_1 D xs b = (zs, c) \<Longrightarrow> xs \<noteq> [] \<Longrightarrow>
      length zs = length xs \<and> limbs_val zs + unat b = limbs_val xs + (2 ^ 32) ^ length xs * unat c"
    and mul_n: "length xs = length ys \<Longrightarrow> xs \<noteq> [] \<Longrightarrow>
      length (mpn_mul_n D xs ys) = 2 * length xs \<and> limbs_val (mpn_mul_n D xs ys) = limbs_val xs * limbs_val ys"
    and tdiv_r: "ys \<noteq> [] \<Longrightarrow> last ys \<noteq> 0 \<Longrightarrow> length ys \<le> length xs \<Longrightarrow>
      length (mpn_tdiv_r D xs ys) = length ys \<and> limbs_val (mpn_tdiv_r D xs ys) = limbs_val xs mod limbs_val ys"

definition mpn_div_ref :: mpn_div where
  "mpn_div_ref = \<lparr>
     mpn_sub_1 = (\<lambda>xs b. if unat b \<le> limbs_val xs then (limbs_of (length xs) (limbs_val xs - unat b), 0)
       else (limbs_of (length xs) ((2 ^ 32) ^ length xs + limbs_val xs - unat b), 1)),
     mpn_mul_n = (\<lambda>xs ys. limbs_of (2 * length xs) (limbs_val xs * limbs_val ys)),
     mpn_tdiv_r = (\<lambda>xs ys. limbs_of (length ys) (limbs_val xs mod limbs_val ys)) \<rparr>"

lemma limbs_val_last: "ys \<noteq> [] \<Longrightarrow> last ys \<noteq> 0 \<Longrightarrow> 0 < limbs_val ys"
  by (induction ys) (auto simp: unat_gt_0 split: if_splits)

interpretation mpn_div_ref: mpn_div_laws mpn_div_ref
proof unfold_locales
  fix xs ys zs :: "limb list" and b c :: limb
  have small: "limbs_val (limbs_of n v) = v" if "v < (2 ^ 32) ^ n" for n v
    using that by (simp add: limbs_val_limbs_of)
  show "length zs = length xs \<and> limbs_val zs + unat b = limbs_val xs + (2 ^ 32) ^ length xs * unat c"
    if "mpn_sub_1 mpn_div_ref xs b = (zs, c)" "xs \<noteq> []"
  proof -
    have "(2 ^ 32 :: nat) ^ 1 \<le> (2 ^ 32) ^ length xs" using that(2) by (intro power_increasing) (simp_all add: Suc_le_eq)
    then have "unat b < (2 ^ 32) ^ length xs" using limb_less [of b] by simp
    then show ?thesis using that(1) limbs_val_less [of xs] by (auto simp: mpn_div_ref_def small split: if_splits)
  qed
  show "length (mpn_mul_n mpn_div_ref xs ys) = 2 * length xs \<and> limbs_val (mpn_mul_n mpn_div_ref xs ys) = limbs_val xs * limbs_val ys"
    if "length xs = length ys"
  proof -
    have "limbs_val xs * limbs_val ys < (2 ^ 32) ^ length xs * (2 ^ 32) ^ length xs"
      using limbs_val_less [of xs] limbs_val_less [of ys] that by (intro mult_strict_mono) simp_all
    then show ?thesis by (simp add: mpn_div_ref_def small mult_2 power_add)
  qed
  show "length (mpn_tdiv_r mpn_div_ref xs ys) = length ys \<and> limbs_val (mpn_tdiv_r mpn_div_ref xs ys) = limbs_val xs mod limbs_val ys"
    if "ys \<noteq> []" "last ys \<noteq> 0"
  proof -
    have "limbs_val xs mod limbs_val ys < limbs_val ys" using limbs_val_last [OF that] by simp
    then have "limbs_val xs mod limbs_val ys < (2 ^ 32) ^ length ys" using limbs_val_less [of ys] by (rule less_trans)
    then show ?thesis by (simp add: mpn_div_ref_def small)
  qed
qed

section \<open>The operations\<close>

record fast_data =
  ff_limbs :: nat
  ff_prime :: "limb list"
  ff_order :: int

definition fast_init :: "fast_data \<Rightarrow> limb list" where
  "fast_init p = replicate (ff_limbs p) 0"

definition fast_from_mpz :: "mpn \<Rightarrow> fast_data \<Rightarrow> int \<Rightarrow> limb list" where
  "fast_from_mpz N p z = (
     let d = mpz_export_limbs N z
     in d @ replicate (ff_limbs p - length d) 0)"

definition fast_set_mpz :: "gmp \<Rightarrow> mpn \<Rightarrow> fast_data \<Rightarrow> int \<Rightarrow> limb list" where
  "fast_set_mpz G N p z = (let tmp = mpz_mod G z (ff_order p) in fast_from_mpz N p tmp)"

definition fast_set_si :: "mpn_div \<Rightarrow> fast_data \<Rightarrow> int \<Rightarrow> limb list" where
  "fast_set_si D p i = (
     if i < 0 then fst (mpn_sub_1 D (ff_prime p) (word_of_int (- i)))
     else word_of_int i # replicate (ff_limbs p - 1) 0)"

definition fast_to_mpz :: "mpn \<Rightarrow> limb list \<Rightarrow> int" where
  "fast_to_mpz N a = mpz_import_limbs N a"

definition fast_set0 :: "fast_data \<Rightarrow> limb list" where
  "fast_set0 p = replicate (ff_limbs p) 0"

definition fast_set1 :: "fast_data \<Rightarrow> limb list" where
  "fast_set1 p = 1 # replicate (ff_limbs p - 1) 0"

definition fast_is1 :: "limb list \<Rightarrow> int" where
  "fast_is1 d = (
     if d ! 0 \<noteq> 1 then 0
     else if list_ex (\<lambda>x. x \<noteq> 0) (tl d) then 0 else 1)"

definition fast_is0 :: "limb list \<Rightarrow> int" where
  "fast_is0 d = (if list_ex (\<lambda>x. x \<noteq> 0) d then 0 else 1)"

definition fast_add :: "mpn \<Rightarrow> fast_data \<Rightarrow> limb list \<Rightarrow> limb list \<Rightarrow> limb list" where
  "fast_add N p a b = (
     let (r, carry) = mpn_add_n N a b
     in if carry \<noteq> 0 \<or> mpn_cmp N r (ff_prime p) \<ge> 0 then fst (mpn_sub_n N r (ff_prime p)) else r)"

definition fast_double :: "mpn \<Rightarrow> fast_data \<Rightarrow> limb list \<Rightarrow> limb list" where
  "fast_double N p a = (
     let (r, carry) = mpn_lshift1 N a
     in if carry \<noteq> 0 \<or> mpn_cmp N r (ff_prime p) \<ge> 0 then fst (mpn_sub_n N r (ff_prime p)) else r)"

definition fast_set :: "limb list \<Rightarrow> limb list" where
  "fast_set a = a"

definition fast_halve :: "mpn \<Rightarrow> fast_data \<Rightarrow> limb list \<Rightarrow> limb list" where
  "fast_halve N p a = (
     let t = ff_limbs p;
         (r, carry) = (if a ! 0 AND 1 \<noteq> 0 then mpn_add_n N a (ff_prime p) else (fast_set a, 0));
         r = mpn_rshift1 N r
     in if carry \<noteq> 0 then r[t - 1 := r ! (t - 1) OR 2 ^ 31] else r)"

definition fast_sub :: "mpn \<Rightarrow> fast_data \<Rightarrow> limb list \<Rightarrow> limb list \<Rightarrow> limb list" where
  "fast_sub N p a b = (
     let (r, borrow) = mpn_sub_n N a b
     in if borrow \<noteq> 0 then fst (mpn_add_n N r (ff_prime p)) else r)"

definition fast_mul :: "mpn_div \<Rightarrow> fast_data \<Rightarrow> limb list \<Rightarrow> limb list \<Rightarrow> limb list" where
  "fast_mul D p a b = (
     let tmp = mpn_mul_n D a b
     in mpn_tdiv_r D tmp (ff_prime p))"

text \<open>\<open>mpz_powm_ui\<close> on the limbs, filled up with zeroes.\<close>

definition fast_square :: "gmp \<Rightarrow> mpn \<Rightarrow> fast_data \<Rightarrow> limb list \<Rightarrow> limb list" where
  "fast_square G N p a = fast_from_mpz N p (mpz_powm G (mpz_import_limbs N a) 2 (ff_order p))"

definition fast_neg :: "mpn \<Rightarrow> fast_data \<Rightarrow> limb list \<Rightarrow> limb list" where
  "fast_neg N p a = (
     if fast_is0 a \<noteq> 0 then fast_set0 p
     else fst (mpn_sub_n N (ff_prime p) a))"

definition fast_mul_si :: "mpn \<Rightarrow> mpn_div \<Rightarrow> fast_data \<Rightarrow> limb list \<Rightarrow> int \<Rightarrow> limb list" where
  "fast_mul_si N D p a op = (
     let (tmp, top) = mpn_mul_1 N a (word_of_int \<bar>op\<bar>);
         e = mpn_tdiv_r D (tmp @ [top]) (ff_prime p)
     in if op < 0 then fast_neg N p e else e)"

definition fast_pow_mpz :: "gmp \<Rightarrow> mpn \<Rightarrow> fast_data \<Rightarrow> limb list \<Rightarrow> int \<Rightarrow> limb list" where
  "fast_pow_mpz G N p a op = (
     let z = fast_to_mpz N a;
         z = mpz_powm G z op (ff_order p)
     in fast_from_mpz N p z)"

definition fast_invert :: "gmp \<Rightarrow> mpn \<Rightarrow> fast_data \<Rightarrow> limb list \<Rightarrow> limb list" where
  "fast_invert G N p a = (
     let z = fast_to_mpz N a;
         z = mpz_invert G z (ff_order p)
     in fast_from_mpz N p z)"

definition fast_random :: "mpn \<Rightarrow> fast_data \<Rightarrow> entropy \<Rightarrow> nat \<Rightarrow> limb list \<times> nat" where
  "fast_random N p R i = (let z = R i (ff_order p) in (fast_from_mpz N p z, i + 1))"

definition fast_from_hash :: "gmp \<Rightarrow> mpn \<Rightarrow> fast_data \<Rightarrow> byte list \<Rightarrow> limb list option" where
  "fast_from_hash G N p data = map_option (fast_set_mpz G N p) (pbc_mpz_from_hash G (ff_order p) data)"

definition fast_cmp :: "mpn \<Rightarrow> limb list \<Rightarrow> limb list \<Rightarrow> int" where
  "fast_cmp N a b = mpn_cmp N a b"

definition fast_sgn_odd :: "limb list \<Rightarrow> int" where
  "fast_sgn_odd a = (
     if fast_is0 a \<noteq> 0 then 0
     else if a ! 0 AND 1 \<noteq> 0 then 1 else - 1)"

definition fast_sgn_even :: "mpn \<Rightarrow> fast_data \<Rightarrow> limb list \<Rightarrow> int" where
  "fast_sgn_even N p a = (
     if fast_is0 a \<noteq> 0 then 0
     else
       let (sum, carry) = mpn_add_n N a a
       in if carry \<noteq> 0 then 1 else mpn_cmp N sum (ff_prime p))"

definition fast_is_sqr :: "gmp \<Rightarrow> mpn \<Rightarrow> fast_data \<Rightarrow> limb list \<Rightarrow> int" where
  "fast_is_sqr G N p a = (
     if fast_is0 a \<noteq> 0 then 1
     else
       let z = fast_to_mpz N a
       in if mpz_legendre G z (ff_order p) = 1 then 1 else 0)"

definition fast_to_bytes :: "gmp \<Rightarrow> mpn \<Rightarrow> nat \<Rightarrow> limb list \<Rightarrow> byte list" where
  "fast_to_bytes G N n e = (
     let z = fast_to_mpz N e
     in case pbc_mpz_out_raw_n G n z of Some bs \<Rightarrow> bs | None \<Rightarrow> undefined)"

definition fast_from_bytes :: "gmp \<Rightarrow> mpn \<Rightarrow> fast_data \<Rightarrow> nat \<Rightarrow> byte list \<Rightarrow> limb list \<times> nat" where
  "fast_from_bytes G N p n data = (
     let z = mpz_import G (take n data)
     in (fast_set_mpz G N p z, n))"

section \<open>The table\<close>

definition fast_init_data :: "mpn \<Rightarrow> int \<Rightarrow> fast_data" where
  "fast_init_data N prime = (
     let primelimbs = mpz_export_limbs N prime
     in \<lparr> ff_limbs = length primelimbs, ff_prime = primelimbs, ff_order = prime \<rparr>)"

definition fast_base :: "gmp \<Rightarrow> mpn \<Rightarrow> mpn_div \<Rightarrow> int \<Rightarrow> limb list field_s" where
  "fast_base G N D prime = (
     let p = fast_init_data N prime;
         n = (mpz_sizeinbase G prime 2 + 7) div 8
     in field_init\<lparr>
       f_init := fast_init p,
       f_set_si := Some (\<lambda>e. fast_set_si D p),
       f_set_mpz := Some (\<lambda>e. fast_set_mpz G N p),
       f_add := (\<lambda>r. fast_add N p),
       f_sub := Some (\<lambda>r. fast_sub N p),
       f_set := (\<lambda>c. fast_set),
       f_mul := (\<lambda>c. fast_mul D p),
       f_mul_si := Some (\<lambda>e. fast_mul_si N D p),
       f_square := Some (\<lambda>c. fast_square G N p),
       f_doub := Some (\<lambda>r. fast_double N p),
       f_halve := Some (\<lambda>r. fast_halve N p),
       f_pow_mpz := Some (\<lambda>c. fast_pow_mpz G N p),
       f_neg := (\<lambda>n. fast_neg N p),
       f_cmp := Some (fast_cmp N),
       f_sign := (if mpz_odd_p G prime then fast_sgn_odd else fast_sgn_even N p),
       f_invert := (\<lambda>e. fast_invert G N p),
       f_random := Some (\<lambda>R i a. fast_random N p R i),
       f_from_hash := (\<lambda>a. fast_from_hash G N p),
       f_is1 := Some fast_is1,
       f_is0 := Some fast_is0,
       f_set0 := (\<lambda>e. fast_set0 p),
       f_set1 := (\<lambda>e. fast_set1 p),
       f_is_sqr := fast_is_sqr G N p,
       f_to_bytes := fast_to_bytes G N n,
       f_from_bytes := (\<lambda>e. fast_from_bytes G N p n),
       f_to_mpz := Some (fast_to_mpz N),
       f_fixed_length := int n,
       f_order := prime \<rparr>)"

definition field_init_fast_fp :: "gmp \<Rightarrow> mpn \<Rightarrow> mpn_div \<Rightarrow> int \<Rightarrow> limb list field_s option" where
  "field_init_fast_fp G N D prime = (
     if mpz_fits_ulong_p G prime then None
     else Some ((fast_base G N D prime)\<lparr>
       f_sqrt := (\<lambda>nqr x a. case nqr of
         Some g \<Rightarrow> fp_tonelli G (fast_base G N D prime) g x a
       | None \<Rightarrow> undefined) \<rparr>))"

end
