(* ===== verification/FastRefine.thy ===== *)
theory FastRefine
  imports FastFp
begin

unbundle bit_operations_syntax

text \<open>
  The field on limbs simulates the field of \<^verbatim>\<open>arith/naivefp.c\<close>: an element stands for the
  residue that its limbs are, and related arguments give related results.
\<close>

section \<open>Bits of limbs\<close>

lemma limb_of_int: "0 \<le> i \<Longrightarrow> i < 2 ^ 32 \<Longrightarrow> unat (word_of_int i :: limb) = nat i"
  by (simp add: unat_eq_nat_uint uint_word_of_int)

lemma bit_limb: "bit (x :: limb) n \<longleftrightarrow> odd (unat x div 2 ^ n)"
  by (simp add: bit_iff_odd [of "unat x", symmetric] bit_unsigned_iff) 

lemma odd_limb: "(x :: limb) AND 1 \<noteq> 0 \<longleftrightarrow> odd (unat x)"
  using bit_limb [of x 0] and_exp_eq_0_iff_not_bit [of x 0] by simp

lemma or_top_bit:
  assumes "unat (x :: limb) < 2 ^ 31"
  shows "unat (x OR 2 ^ 31) = unat x + 2 ^ 31"
proof -
  have "x AND 2 ^ 31 = 0" using assms bit_limb [of x 31] and_exp_eq_0_iff_not_bit [of x 31] by simp
  then have "x OR 2 ^ 31 = x + 2 ^ 31" using word_plus_and_or [of x "2 ^ 31"] by simp
  moreover have "unat (x + 2 ^ 31) = unat x + 2 ^ 31" using assms by (simp add: unat_word_ariths)
  ultimately show ?thesis by simp
qed
lemma limbs_val_update_top:
  "xs \<noteq> [] \<Longrightarrow> limbs_val (xs[length xs - 1 := y]) + (2 ^ 32) ^ (length xs - 1) * unat (xs ! (length xs - 1)) =
    limbs_val xs + (2 ^ 32) ^ (length xs - 1) * unat y"
  by (induction xs rule: rev_induct) (simp_all add: limbs_val_append)

lemma odd_limbs: "a \<noteq> [] \<Longrightarrow> a ! 0 AND 1 \<noteq> 0 \<longleftrightarrow> odd (limbs_val a)"
  by (cases a) (simp_all add: odd_limb)

section \<open>The relation\<close>

definition fast_rep :: "fast_data \<Rightarrow> limb list \<Rightarrow> int \<Rightarrow> bool" where
  "fast_rep p d x \<longleftrightarrow> 0 \<le> x \<and> x < ff_order p \<and> length d = ff_limbs p \<and> limbs_val d = nat x"

locale fast_env = mpn: mpn_laws N + dv: mpn_div_laws D + gmp: gmp_laws G
  for N :: mpn and D :: mpn_div and G :: gmp +
  fixes p :: fast_data and q :: nat
  assumes limbs: "ff_limbs p = length (ff_prime p)" and limbs_pos: "ff_prime p \<noteq> []" and top: "last (ff_prime p) \<noteq> 0"
    and prime: "limbs_val (ff_prime p) = q" and order: "ff_order p = int q" and big: "2 ^ 32 \<le> q"

lemma fast_env_init:
  assumes N: "mpn_laws N" and "mpn_div_laws D" "gmp_laws G" and p: "2 ^ 32 \<le> p"
  shows "fast_env N D G (fast_init_data N p) (nat p)"
proof -
  define ls where "ls = mpz_export_limbs N p"
  have v: "limbs_val ls = nat p" using mpn_laws.export_limbs [OF N, of p] p by (simp add: ls_def)
  then have ne: "ls \<noteq> []" using p by auto
  have last: "last ls \<noteq> 0"
  proof
    assume "last ls = 0"
    then have ls': "ls = butlast ls @ [0]" using ne append_butlast_last_id [of ls] by simp
    have "limbs_val ls = limbs_val (butlast ls)" by (subst ls') (simp add: limbs_val_append)
    then have "nat \<bar>p\<bar> < (2 ^ 32) ^ length (butlast ls)" using v p limbs_val_less [of "butlast ls"] by simp
    from mpn_laws.export_size [OF N this, folded ls_def] have "length ls \<le> length ls - 1" by (simp only: length_butlast)
    moreover have "0 < length ls" using ne by (rule length_greater_0_conv [THEN iffD2])
    ultimately show False by linarith
  qed
  have "fast_init_data N p = \<lparr> ff_limbs = length ls, ff_prime = ls, ff_order = p \<rparr>" by (simp add: fast_init_data_def ls_def Let_def)
  moreover have "2 ^ 32 \<le> nat p" "int (nat p) = p" using p by simp_all
  ultimately show ?thesis using assms v ne last by (intro fast_env.intro fast_env_axioms.intro) simp_all
qed

context fast_env
begin

abbreviation t :: nat where "t \<equiv> ff_limbs p"
abbreviation fast_repr :: "limb list \<Rightarrow> int \<Rightarrow> bool" where "fast_repr \<equiv> fast_rep p"

lemma fast_repr_def: "fast_repr d x \<longleftrightarrow> 0 \<le> x \<and> x < int q \<and> length d = t \<and> limbs_val d = nat x"
  by (simp add: fast_rep_def order)

lemma q_pos: "0 < q" "1 < q"
  using big by simp_all

lemma q_less: "q < (2 ^ 32) ^ t"
  using limbs_val_less [of "ff_prime p"] prime limbs by simp

lemma t_pos: "0 < t" using limbs limbs_pos by simp

lemma limb_fits: "unat (x :: limb) < q"
  using limb_less [of x] big by simp

section \<open>Sums\<close>

lemma sub_prime:
  assumes d: "length d = t" and s: "limbs_val d + (2 ^ 32) ^ t * unat (c :: limb) = s" "q \<le> s" "s < 2 * q"
  shows "length (fst (mpn_sub_n N d (ff_prime p))) = t" and "limbs_val (fst (mpn_sub_n N d (ff_prime p))) = s - q"
proof -
  obtain z b where sub: "mpn_sub_n N d (ff_prime p) = (z, b)" by fastforce
  have dl: "length d = length (ff_prime p)" using d limbs by simp
  have z: "length z = t" "limbs_val z + q = limbs_val d + (2 ^ 32) ^ t * unat b"
    using mpn.sub_n [OF dl sub] d prime by simp_all
  then have "limbs_val z + (2 ^ 32) ^ t * unat c = (s - q) + (2 ^ 32) ^ t * unat b" using s by linarith
  moreover have "limbs_val z < (2 ^ 32) ^ t" "s - q < (2 ^ 32) ^ t"
    using limbs_val_less [of z] z(1) s(2,3) q_less by simp_all
  ultimately have "limbs_val z = s - q" using digit_eq by blast
  then show "length (fst (mpn_sub_n N d (ff_prime p))) = t" "limbs_val (fst (mpn_sub_n N d (ff_prime p))) = s - q"
    using z(1) sub by simp_all
qed

lemma reduce_ok:
  assumes d: "length d = t" and s: "limbs_val d + (2 ^ 32) ^ t * unat (c :: limb) = s" "s < 2 * q"
  defines "r \<equiv> if c \<noteq> 0 \<or> mpn_cmp N d (ff_prime p) \<ge> 0 then fst (mpn_sub_n N d (ff_prime p)) else d"
  shows "length r = t \<and> limbs_val r = (if q \<le> s then s - q else s)"
proof -
  have dl: "length d = length (ff_prime p)" using d limbs by simp
  have cond: "c \<noteq> 0 \<or> mpn_cmp N d (ff_prime p) \<ge> 0 \<longleftrightarrow> q \<le> s"
  proof (cases "c = 0")
    case True
    then show ?thesis using s(1) mpn.cmp_ge [OF dl] prime by simp
  next
    case False
    then have "1 \<le> unat c" using unat_gt_0 [of c] by simp
    then have "(2 ^ 32) ^ t * 1 \<le> (2 ^ 32) ^ t * unat c" by (rule mult_le_mono2)
    then have "q \<le> s" using s(1) q_less by linarith
    then show ?thesis using False by simp
  qed
  show ?thesis
  proof (cases "q \<le> s")
    case True
    then show ?thesis using sub_prime [OF d s(1) True s(2)] unfolding r_def cond by simp
  next
    case False
    then have "c = 0" using cond by blast
    then show ?thesis using False d s(1) unfolding r_def cond by simp
  qed
qed

lemma residue_sum:
  assumes "0 \<le> x" "x < int q" "0 \<le> y" "y < int q"
  shows "(x + y) mod int q = int (if q \<le> nat (x + y) then nat (x + y) - q else nat (x + y))"
proof (cases "q \<le> nat (x + y)")
  case True
  then have "(x + y) mod int q = (x + y - int q) mod int q" by simp
  also have "\<dots> = x + y - int q" using True assms by (intro mod_pos_pos_trivial) linarith+
  finally show ?thesis using True assms by simp
qed (use assms in simp)

lemma fast_add_repr:
  assumes a: "fast_repr a x" and b: "fast_repr b y"
  shows "fast_repr (fast_add N p a b) ((x + y) mod int q)"
proof -
  obtain r c where add: "mpn_add_n N a b = (r, c)" by fastforce
  have xy: "0 \<le> x" "x < int q" "0 \<le> y" "y < int q" "length a = t" "length b = t" "limbs_val a = nat x" "limbs_val b = nat y"
    using a b by (simp_all add: fast_repr_def)
  have "length a = length b" using xy by simp
  from mpn.add_n [OF this add] have "length r = t" "limbs_val r + (2 ^ 32) ^ t * unat c = nat (x + y)"
    using xy by (simp_all add: nat_add_distrib)
  from reduce_ok [OF this] have "length (fast_add N p a b) = t \<and>
      limbs_val (fast_add N p a b) = (if q \<le> nat (x + y) then nat (x + y) - q else nat (x + y))"
    using xy by (simp add: fast_add_def add)
  then show ?thesis unfolding fast_repr_def residue_sum [OF xy(1-4)] using xy by auto
qed

lemma fast_double_repr:
  assumes a: "fast_repr a x"
  shows "fast_repr (fast_double N p a) ((x + x) mod int q)"
proof -
  obtain r c where sh: "mpn_lshift1 N a = (r, c)" by fastforce
  have x: "0 \<le> x" "x < int q" "length a = t" "limbs_val a = nat x" using a by (simp_all add: fast_repr_def)
  have "a \<noteq> []" using x(3) t_pos by auto
  from mpn.lshift1 [OF sh this] have "length r = t" "limbs_val r + (2 ^ 32) ^ t * unat c = nat (x + x)"
    using x by (simp_all add: nat_add_distrib)
  from reduce_ok [OF this] have "length (fast_double N p a) = t \<and>
      limbs_val (fast_double N p a) = (if q \<le> nat (x + x) then nat (x + x) - q else nat (x + x))"
    using x by (simp add: fast_double_def sh)
  then show ?thesis unfolding fast_repr_def residue_sum [OF x(1,2,1,2)] using x by auto
qed

section \<open>Differences\<close>

lemma fast_sub_repr:
  assumes a: "fast_repr a x" and b: "fast_repr b y"
  shows "fast_repr (fast_sub N p a b) ((x - y) mod int q)"
proof -
  obtain r c where sub: "mpn_sub_n N a b = (r, c)" by fastforce
  have xy: "0 \<le> x" "x < int q" "0 \<le> y" "y < int q" "length a = t" "length b = t" "limbs_val a = nat x" "limbs_val b = nat y"
    using a b by (simp_all add: fast_repr_def)
  have "length a = length b" using xy by simp
  from mpn.sub_n [OF this sub] have r: "length r = t" "unat c \<le> 1" "limbs_val r + nat y = nat x + (2 ^ 32) ^ t * unat c"
    using xy by simp_all
  show ?thesis
  proof (cases "c = 0")
    case True
    then have "limbs_val r = nat (x - y)" "y \<le> x" using r(3) xy by simp_all
    moreover from this have "(x - y) mod int q = x - y" using xy by (intro mod_pos_pos_trivial) simp_all
    ultimately show ?thesis using True r(1) xy by (simp add: fast_repr_def fast_sub_def sub)
  next
    case False
    then have "0 < unat c" by (simp add: unat_gt_0)
    then have c1: "unat c = 1" using r(2) by linarith
    have less: "x < y"
    proof (rule ccontr)
      assume "\<not> x < y"
      then have "nat y \<le> nat x" by simp
      then have "(2 ^ 32) ^ t \<le> limbs_val r" using r(3) c1 by simp
      then show False using limbs_val_less [of r] r(1) by simp
    qed
    obtain z k where add: "mpn_add_n N r (ff_prime p) = (z, k)" by fastforce
    have rl: "length r = length (ff_prime p)" using r(1) limbs by simp
    have z: "length z = t" "limbs_val z + (2 ^ 32) ^ t * unat k = limbs_val r + q"
      using mpn.add_n [OF rl add] r(1) prime by simp_all
    have "limbs_val z + (2 ^ 32) ^ t * unat k = nat (x - y + int q) + (2 ^ 32) ^ t * 1"
      using z(2) r(3) c1 xy less by simp
    moreover have "limbs_val z < (2 ^ 32) ^ t" "nat (x - y + int q) < (2 ^ 32) ^ t"
      using limbs_val_less [of z] z(1) le_less_trans [OF _ q_less, of "nat (x - y + int q)"] less by simp_all
    ultimately have "limbs_val z = nat (x - y + int q)" using digit_eq by blast
    moreover have "(x - y) mod int q = (x - y + int q) mod int q" by simp
    moreover have "(x - y + int q) mod int q = x - y + int q" using less xy by (intro mod_pos_pos_trivial) simp_all
    ultimately show ?thesis using False z(1) less xy by (simp add: fast_repr_def fast_sub_def sub add)
  qed
qed

lemma is0_repr: "fast_repr a x \<Longrightarrow> fast_is0 a = (if x = 0 then 1 else 0)"
proof -
  assume a: "fast_repr a x"
  have "limbs_val a = 0 \<longleftrightarrow> \<not> list_ex (\<lambda>x. x \<noteq> 0) a"
    by (induction a) (auto simp: unat_eq_0)
  then show ?thesis using a by (simp add: fast_repr_def fast_is0_def) linarith
qed

lemma fast_neg_repr:
  assumes a: "fast_repr a x"
  shows "fast_repr (fast_neg N p a) ((- x) mod int q)"
proof (cases "x = 0")
  case True
  then show ?thesis using is0_repr [OF a] q_pos by (simp add: fast_neg_def fast_repr_def fast_set0_def)
next
  case False
  have x: "0 \<le> x" "x < int q" "length a = t" "limbs_val a = nat x" using a by (simp_all add: fast_repr_def)
  obtain d b where sub: "mpn_sub_n N (ff_prime p) a = (d, b)" by fastforce
  have len: "length (ff_prime p) = length a" using x(3) limbs by simp
  have d: "length d = t" "limbs_val d + nat x = q + (2 ^ 32) ^ t * unat b"
    using mpn.sub_n [OF len sub] x prime limbs by simp_all
  have "limbs_val d + (2 ^ 32) ^ t * 0 = (q - nat x) + (2 ^ 32) ^ t * unat b" using d(2) x by linarith
  moreover have "limbs_val d < (2 ^ 32) ^ t" "q - nat x < (2 ^ 32) ^ t"
    using limbs_val_less [of d] d(1) q_less by simp_all
  ultimately have "limbs_val d = q - nat x" using digit_eq by blast
  moreover have "(- x) mod int q = int q - x"
    using x(1,2) False mod_pos_pos_trivial [of "int q - x" "int q"] by (simp add: zmod_zminus1_eq_if)
  ultimately show ?thesis using False x is0_repr [OF a] d(1) sub by (simp add: fast_neg_def fast_repr_def nat_diff_distrib)
qed

section \<open>Products\<close>

lemma from_mpz_repr:
  assumes "0 \<le> z" "z < int q"
  shows "fast_repr (fast_from_mpz N p z) z"
proof -
  have "nat \<bar>z\<bar> < q" using assms by linarith
  then have "nat \<bar>z\<bar> < (2 ^ 32) ^ t" using q_less by (rule less_trans)
  from mpn.export_size [OF this] mpn.export_limbs [of z] assms show ?thesis
    by (simp add: fast_repr_def fast_from_mpz_def Let_def limbs_val_append)
qed

lemma fast_mul_repr:
  assumes a: "fast_repr a x" and b: "fast_repr b y"
  shows "fast_repr (fast_mul D p a b) ((x * y) mod int q)"
proof -
  have xy: "0 \<le> x" "0 \<le> y" "length a = t" "length b = t" "limbs_val a = nat x" "limbs_val b = nat y"
    using a b by (simp_all add: fast_repr_def)
  have "length a = length b" "a \<noteq> []" using xy t_pos by auto
  note m = dv.mul_n [OF this]
  have "length (ff_prime p) \<le> length (mpn_mul_n D a b)" using m xy limbs by simp
  from dv.tdiv_r [OF limbs_pos top this] show ?thesis
    using m xy limbs prime q_pos
    by (simp add: fast_repr_def fast_mul_def nat_mult_distrib [symmetric] nat_mod_distrib)
qed

lemma limbs_val_append_top: "limbs_val (xs @ [c]) = limbs_val xs + (2 ^ 32) ^ length xs * unat c"
  by (simp add: limbs_val_append)

lemma fast_mul_si_repr:
  assumes a: "fast_repr a x" and op: "\<bar>op\<bar> < 2 ^ 32"
  shows "fast_repr (fast_mul_si N D p a op) ((x * op) mod int q)"
proof -
  have x: "0 \<le> x" "length a = t" "limbs_val a = nat x" using a by (simp_all add: fast_repr_def)
  obtain d c where mul: "mpn_mul_1 N a (word_of_int \<bar>op\<bar>) = (d, c)" by fastforce
  have "a \<noteq> []" using x t_pos by auto
  have u: "unat (word_of_int \<bar>op\<bar> :: limb) = nat \<bar>op\<bar>"
    using op by (simp add: limb_of_int)
  from mpn.mul_1 [OF mul \<open>a \<noteq> []\<close>] have d: "length d = t" "limbs_val d + (2 ^ 32) ^ t * unat c = nat (x * \<bar>op\<bar>)"
    using x u by (simp_all add: nat_mult_distrib)
  then have v: "limbs_val (d @ [c]) = nat (x * \<bar>op\<bar>)" by (simp only: limbs_val_append_top)
  have "length (ff_prime p) \<le> length (d @ [c])" using d(1) limbs by simp
  from dv.tdiv_r [OF limbs_pos top this] have e: "fast_repr (mpn_tdiv_r D (d @ [c]) (ff_prime p)) ((x * \<bar>op\<bar>) mod int q)"
    using v x limbs prime q_pos by (simp add: fast_repr_def nat_mod_distrib)
  show ?thesis
  proof (cases "op < 0")
    case True
    have "(- ((x * \<bar>op\<bar>) mod int q)) mod int q = (x * op) mod int q"
      using True by (simp add: mod_minus_eq)
    then show ?thesis using fast_neg_repr [OF e] True by (simp only: fast_mul_si_def mul prod.case Let_def if_True)
  next
    case False
    then have "\<bar>op\<bar> = op" by simp
    then have "fast_repr (mpn_tdiv_r D (d @ [c]) (ff_prime p)) ((x * op) mod int q)" using e by (simp only:)
    then show ?thesis using False by (simp only: fast_mul_si_def mul prod.case Let_def if_False)
  qed
qed

lemma to_mpz_repr: "fast_repr a x \<Longrightarrow> fast_to_mpz N a = x"
  by (simp add: fast_to_mpz_def mpn.import_limbs fast_repr_def)

lemma fast_square_repr:
  assumes a: "fast_repr a x"
  shows "fast_repr (fast_square G N p a) ((x * x) mod int q)"
  using to_mpz_repr [OF a] q_pos order from_mpz_repr [of "(x * x) mod int q"]
  by (simp add: fast_square_def fast_to_mpz_def gmp.powm power2_eq_square)

lemma fast_pow_repr:
  assumes a: "fast_repr a x" and n: "0 \<le> n"
  shows "fast_repr (fast_pow_mpz G N p a n) (x ^ nat n mod int q)"
  using to_mpz_repr [OF a] q_pos order from_mpz_repr [of "x ^ nat n mod int q"] n
  by (simp add: fast_pow_mpz_def gmp.powm)

lemma fast_invert_repr:
  assumes a: "fast_repr a x" and c: "coprime x (int q)"
  shows "fast_repr (fast_invert G N p a) (zp_invert G (int q) x)"
  using to_mpz_repr [OF a] q_pos order from_mpz_repr [of "mpz_invert G x (int q)"] gmp.invert [of "int q" x] c
  by (simp add: fast_invert_def zp_invert_def)

lemma fast_set_mpz_repr: "fast_repr (fast_set_mpz G N p z) (z mod int q)"
  using q_pos order from_mpz_repr [of "z mod int q"] by (simp add: fast_set_mpz_def gmp.mod)

lemma fast_set_si_repr:
  assumes i: "\<bar>i\<bar> < 2 ^ 32"
  shows "fast_repr (fast_set_si D p i) (i mod int q)"
proof (cases "i < 0")
  case True
  obtain d c where sub: "mpn_sub_1 D (ff_prime p) (word_of_int (- i)) = (d, c)" by fastforce
  have u: "unat (word_of_int (- i) :: limb) = nat (- i)"
    using i True by (intro limb_of_int) simp_all
  from dv.sub_1 [OF sub limbs_pos] have d: "length d = t" "limbs_val d + nat (- i) = q + (2 ^ 32) ^ t * unat c"
    using limbs prime u by simp_all
  have le: "nat (- i) \<le> q" using i big True by simp
  then have "limbs_val d + (2 ^ 32) ^ t * 0 = (q - nat (- i)) + (2 ^ 32) ^ t * unat c" using d(2) by linarith
  moreover have "limbs_val d < (2 ^ 32) ^ t" "q - nat (- i) < (2 ^ 32) ^ t"
    using limbs_val_less [of d] d(1) q_less by simp_all
  ultimately have v: "limbs_val d = q - nat (- i)" using digit_eq by blast
  have "int q + i \<ge> 0" using le True by simp
  then have "(i + int q) mod int q = i + int q" using True by (intro mod_pos_pos_trivial) simp_all
  then have "i mod int q = int q + i" by simp
  moreover have "fast_set_si D p i = d" using True by (simp only: fast_set_si_def sub if_True fst_conv)
  moreover have "q - nat (- i) = nat (int q + i)" using True le by linarith
  ultimately show ?thesis using True d(1) v \<open>int q + i \<ge> 0\<close> by (simp add: fast_repr_def)
next
  case False
  have u: "unat (word_of_int i :: limb) = nat i" using i False by (simp add: limb_of_int)
  have less: "i < int q" using i False big by simp
  then show ?thesis using False u t_pos by (simp add: fast_set_si_def fast_repr_def)
qed

section \<open>Halves and tests\<close>

text \<open>The shift of a sum of limbs and a carry.\<close>

lemma shift_carry:
  assumes d: "length d = t" and c: "unat (c :: limb) \<le> 1"
  defines "r \<equiv> mpn_rshift1 N d"
  shows "length (if c \<noteq> 0 then r[t - 1 := r ! (t - 1) OR 2 ^ 31] else r) = t \<and>
    limbs_val (if c \<noteq> 0 then r[t - 1 := r ! (t - 1) OR 2 ^ 31] else r) = (limbs_val d + (2 ^ 32) ^ t * unat c) div 2"
proof -
  have "d \<noteq> []" using d t_pos by auto
  note r = mpn.rshift1 [OF this, folded r_def]
  obtain k where k: "t = Suc k" using t_pos by (cases t) auto
  show ?thesis
  proof (cases "c = 0")
    case True
    then show ?thesis using r d by simp
  next
    case False
    then have "unat c \<noteq> 0" by (simp add: unat_eq_0)
    then have c1: "unat c = 1" using c by linarith
    have ne: "r \<noteq> []" "length r = Suc k" using r d k by auto
    have "limbs_val d < (2 ^ 32) ^ Suc k" using limbs_val_less [of d] d k by simp
    then have small: "limbs_val r < 2 ^ 31 * (2 ^ 32) ^ k" using r by simp
    have "r = take k r @ [r ! k]" using ne(2) by (metis lessI take_Suc_conv_app_nth take_all order_refl)
    then have "limbs_val r = limbs_val (take k r) + (2 ^ 32) ^ k * unat (r ! k)"
      using ne(2) limbs_val_append [of "take k r" "[r ! k]"] by simp
    then have "(2 ^ 32) ^ k * unat (r ! k) \<le> limbs_val r" by simp
    then have "(2 ^ 32) ^ k * unat (r ! k) < (2 ^ 32) ^ k * 2 ^ 31" using small by (simp only: mult.commute le_less_trans)
    then have "unat (r ! k) < 2 ^ 31" by (simp only: mult_less_cancel1)
    from or_top_bit [OF this] have "limbs_val (r[k := r ! k OR 2 ^ 31]) = limbs_val r + (2 ^ 32) ^ k * 2 ^ 31"
      using limbs_val_update_top [OF ne(1), of "r ! k OR 2 ^ 31"] ne(2) by (simp add: algebra_simps)
    moreover have "(limbs_val d + (2 ^ 32) ^ t * unat c) div 2 = limbs_val d div 2 + (2 ^ 32) ^ k * 2 ^ 31"
      unfolding c1 k by simp
    moreover have "limbs_val r = limbs_val d div 2" "t - 1 = k" using r k by simp_all
    ultimately have "limbs_val (r[t - 1 := r ! (t - 1) OR 2 ^ 31]) = (limbs_val d + (2 ^ 32) ^ t * unat c) div 2"
      by (simp only:)
    then show ?thesis using False ne(2) k by (simp only: if_True length_list_update not_False_eq_True)
  qed
qed

lemma fast_halve_repr:
  assumes a: "fast_repr a x" and odd: "odd q"
  shows "fast_repr (fast_halve N p a) (zp_halve G (int q) x)"
proof -
  have x: "0 \<le> x" "x < int q" "length a = t" "limbs_val a = nat x" using a by (simp_all add: fast_repr_def)
  have "a \<noteq> []" using x t_pos by auto
  then have bit: "a ! 0 AND 1 \<noteq> 0 \<longleftrightarrow> odd x" using odd_limbs x by (simp add: even_nat_iff)
  have zp: "zp_halve G (int q) x = (if odd x then (x + int q) div 2 else x div 2)"
    using x by (simp add: zp_halve_def gmp.odd_p gmp.add gmp.tdiv_q_2exp_nonneg)
  note range = zp_halve_ok [OF gmp.gmp_laws_axioms x(1,2)]
  show ?thesis
  proof (cases "odd x")
    case True
    obtain r c where add: "mpn_add_n N a (ff_prime p) = (r, c)" by fastforce
    have len: "length a = length (ff_prime p)" using x(3) limbs by simp
    have r: "length r = t" "limbs_val r + (2 ^ 32) ^ t * unat c = nat x + q"
      using mpn.add_n [OF len add] x prime by simp_all
    have "unat c \<le> 1"
    proof (rule ccontr)
      assume "\<not> unat c \<le> 1"
      then have "(2 ^ 32) ^ t * 2 \<le> (2 ^ 32) ^ t * unat c" by (intro mult_le_mono2) simp
      then show False using r(2) x q_less by linarith
    qed
    from shift_carry [OF r(1) this] have "length (fast_halve N p a) = t \<and> limbs_val (fast_halve N p a) = (nat x + q) div 2"
      using True bit add unfolding r(2) by (simp add: fast_halve_def Let_def)
    moreover have "nat ((x + int q) div 2) = (nat x + q) div 2" using x by (simp add: nat_div_distrib nat_add_distrib)
    ultimately show ?thesis using range odd True by (simp add: fast_repr_def zp)
  next
    case False
    have "unat (0 :: limb) \<le> 1" by simp
    from shift_carry [OF x(3) this] have "length (fast_halve N p a) = t \<and> limbs_val (fast_halve N p a) = nat x div 2"
      using False bit x by (simp add: fast_halve_def Let_def fast_set_def)
    moreover have "nat (x div 2) = nat x div 2" using x by (simp add: nat_div_distrib)
    ultimately show ?thesis using range odd False by (simp add: fast_repr_def zp)
  qed
qed

lemma fast_tests_ok:
  assumes a: "fast_repr a x" and b: "fast_repr b y"
  shows "fast_is0 a = zp_is0 G x" and "fast_is1 a = zp_is1 G x" and "fast_cmp N a b = 0 \<longleftrightarrow> zp_cmp G x y = 0"
    and "fast_sgn_odd a = zp_sgn_odd G x" and "fast_is_sqr G N p a = zp_is_sqr G (int q) x"
proof -
  have xy: "0 \<le> x" "x < int q" "0 \<le> y" "length a = t" "length b = t" "limbs_val a = nat x" "limbs_val b = nat y"
    using a b by (simp_all add: fast_repr_def)
  have ne: "a \<noteq> []" using xy t_pos by auto
  show "fast_is0 a = zp_is0 G x" using is0_repr [OF a] by (simp add: zp_is0_def gmp.is0)
  obtain l ls where l: "a = l # ls" using ne by (cases a) auto
  have "limbs_val ls = 0 \<longleftrightarrow> \<not> list_ex (\<lambda>x. x \<noteq> 0) ls" by (induction ls) (auto simp: unat_eq_0)
  moreover have "limbs_val a = 1 \<longleftrightarrow> unat l = 1 \<and> limbs_val ls = 0"
  proof -
    have "limbs_val a = 1 \<longleftrightarrow> unat l + 2 ^ 32 * limbs_val ls = 1 + 2 ^ 32 * 0" by (simp add: l)
    also have "\<dots> \<longleftrightarrow> unat l = 1 \<and> limbs_val ls = 0" by (rule digit_eq [OF limb_less]) simp
    finally show ?thesis .
  qed
  moreover have "unat l = 1 \<longleftrightarrow> l = 1" using word_unat_eq_iff [of l 1] by simp
  ultimately have "fast_is1 a = (if limbs_val a = 1 then 1 else 0)" by (auto simp: fast_is1_def l)
  moreover have "limbs_val a = 1 \<longleftrightarrow> x = 1" using xy by auto
  ultimately show "fast_is1 a = zp_is1 G x" by (simp add: zp_is1_def gmp.cmp_eq)
  have "length a = length b" using xy by simp
  then show "fast_cmp N a b = 0 \<longleftrightarrow> zp_cmp G x y = 0"
    using mpn.cmp_0 [of a b] xy by (simp add: fast_cmp_def zp_cmp_def gmp.cmp_eq eq_nat_nat_iff)
  show "fast_sgn_odd a = zp_sgn_odd G x"
    using is0_repr [OF a] odd_limbs [OF ne] xy by (simp add: fast_sgn_odd_def zp_sgn_odd_def gmp.is0 gmp.odd_p even_nat_iff)
  show "fast_is_sqr G N p a = zp_is_sqr G (int q) x"
    using is0_repr [OF a] to_mpz_repr [OF a] order by (simp add: fast_is_sqr_def zp_is_sqr_def gmp.is0)
qed

lemma fast_constants_repr: "fast_repr (fast_init p) 0" "fast_repr (fast_set0 p) 0" "fast_repr (fast_set1 p) 1"
  using q_pos t_pos by (simp_all add: fast_repr_def fast_init_def fast_set0_def fast_set1_def)

end

section \<open>The table of integers\<close>

text \<open>What the table of \<^verbatim>\<open>arith/naivefp.c\<close> does on residues.\<close>

lemma naive_table:
  assumes G: "gmp_laws G" and p: "1 < p"
  defines "Z \<equiv> field_init_naive_fp G p"
  shows "element_init Z = 0" "element_set0 Z z = 0" "element_set1 Z z = 1" "element_set Z z x = x"
    "element_mul Z z x y = (x * y) mod p" "element_square Z z x = (x * x) mod p"
    "element_mul_si Z z x k = (x * k) mod p" "element_set_si Z z k = k mod p" "element_set_mpz Z z k = k mod p"
    "element_halve Z z x = zp_halve G p x" "element_invert Z z x = zp_invert G p x"
    "element_pow_mpz G Z z x n = zp_pow_mpz G p x n" "element_cmp Z x y = zp_cmp G x y" "element_to_mpz Z x = x"
    "element_is0 Z x = zp_is0 G x" "element_is1 Z x = zp_is1 G x" "odd p \<Longrightarrow> element_sign Z x = zp_sgn_odd G x"
    "element_is_sqr Z x = zp_is_sqr G p x"
  using p unfolding Z_def
  by (simp_all add: field_init_naive_fp_def naive_fp_base_def dispatch element_pow_mpz_def gmp_laws.odd_p [OF G]
      gmp_laws.mul [OF G] gmp_laws.mod [OF G] gmp_laws.powm [OF G] zp_to_mpz_def zp_set_si_def
      zp_set_mpz_def zp_init_def zp_set0_def zp_set1_def zp_set_def zp_mul_def zp_mul_si_def zp_square_def
      power2_eq_square Let_def)

lemma naive_table_sums:
  assumes "gmp_laws G" "0 \<le> x" "x < p" "0 \<le> y" "y < p"
  defines "Z \<equiv> field_init_naive_fp G p"
  shows "element_add Z z x y = (x + y) mod p" "element_sub Z z x y = (x - y) mod p"
    "element_neg Z z x = (- x) mod p" "element_double Z z x = (x + x) mod p"
  using zp_add_mod [OF assms(1-5)] zp_sub_mod [OF assms(1-5)] zp_neg_mod [OF assms(1-3)] zp_double_mod [OF assms(1-3)]
  unfolding Z_def by (simp_all add: field_init_naive_fp_def naive_fp_base_def dispatch)

end
