(* ===== verification/MontProps.thy ===== *)
theory MontProps
  imports MontRefine FastRefine
begin

unbundle bit_operations_syntax

text \<open>
  The properties of \<^verbatim>\<open>arith/montfp.c\<close>: the constants that \<open>field_init_mont_fp\<close> computes, the
  simulation of \<^verbatim>\<open>arith/naivefp.c\<close>, and what goes wrong outside its conditions.
\<close>

section \<open>The constants\<close>

lemma pad_ok:
  assumes "mpn_laws N" "0 \<le> z" "nat z < (2 ^ 32) ^ n"
  defines "d \<equiv> mpz_export_limbs N z"
  shows "length (d @ replicate (n - length d) 0) = n" and "limbs_val (d @ replicate (n - length d) 0) = nat z"
  using mpn_laws.export_size [OF assms(1), of z n] mpn_laws.export_limbs [OF assms(1), of z] assms(2,3)
  by (simp_all add: d_def limbs_val_append)

lemma mont_init_data_ok:
  assumes N: "mpn_laws N" and G: "gmp_laws G" and p: "1 < p" "odd p"
  shows "mont_env N G (mont_init_data G N p) (nat p)"
proof -
  define ls where "ls = mpz_export_limbs N p"
  define n where "n = length ls"
  have ls: "limbs_val ls = nat p" using mpn_laws.export_limbs [OF N, of p] p(1) by (simp add: ls_def)
  have n: "0 < n" using ls p(1) by (cases ls) (simp_all add: n_def)
  have less: "nat p < W ^ n" using limbs_val_less [of ls] ls by (simp add: n_def)
  define b where "b = (2::int) ^ (32 * n)"
  have b: "b = int (W ^ n)" by (simp add: b_def power_mult)
  have b1: "1 < b" using n by (simp add: b_def)
  have setbit: "mpz_setbit G 0 (32 * n) = b" using gmp_laws.setbit [OF G, of 0 "32 * n"] by (simp add: b_def)
  have R: "mpz_mod G b p = b mod p" using p(1) by (simp add: gmp_laws.mod [OF G])
  have R3: "mpz_powm G (b mod p) 3 p = (b mod p) ^ 3 mod p" using p(1) by (simp add: gmp_laws.powm [OF G])
  have small: "nat (z mod p) < W ^ n" for z
  proof -
    have "z mod p < p" using p(1) by simp
    then have "nat (z mod p) \<le> nat p" by simp
    then show ?thesis using less by (rule le_less_trans)
  qed
  have pos: "0 \<le> z mod p" for z using p(1) by simp
  define w where "w = mpz_invert G p b"
  have "coprime p b" using p(2) by (simp add: b_def coprime_right_2_iff_odd)
  from gmp_laws.invert [OF G b1 this] have w: "0 \<le> w" "w < b" "(w * p) mod b = 1" by (simp_all add: w_def)
  define neg where "neg = - (word_of_nat (mpz_get_ui G w) :: limb)"
  have neg: "(unat neg * nat p + 1) mod W = 0"
  proof -
    have "(2::int) ^ 32 dvd b" unfolding b_def using n by (intro le_imp_power_dvd) simp
    from mod_mod_cancel [OF this, of "w * p"] have wp: "(w * p) mod 2 ^ 32 = 1" unfolding w(3) by simp
    have w32: "(word_of_nat (mpz_get_ui G w) :: limb) = word_of_int w"
    proof -
      have "int (mpz_get_ui G w) = w mod 2 ^ 32" using w(1) by (simp add: gmp_laws.get_ui [OF G])
      then have "(word_of_int (int (mpz_get_ui G w)) :: limb) = word_of_int (w mod 2 ^ 32)" by simp
      also have "\<dots> = word_of_int w" by (rule word_of_int_eq_iff [THEN iffD2]) (simp add: take_bit_eq_mod)
      finally show ?thesis by simp
    qed
    have "(word_of_int (w * p) :: limb) = word_of_int 1" using wp
      by (intro word_of_int_eq_iff [THEN iffD2]) (simp add: take_bit_eq_mod)
    then have "neg * word_of_int p + 1 = 0"
      unfolding neg_def w32 by simp
    then have "(word_of_nat (unat neg * nat p + 1) :: limb) = 0" using p(1) by (simp add: add.commute)
    then have "W dvd unat neg * nat p + 1" using word_of_nat_eq_0_iff [where 'a = 32] by (simp only: len_of_numeral_defs) simp
    then show ?thesis by (simp add: dvd_eq_mod_eq_0)
  qed
  have eq: "mont_init_data G N p = \<lparr> mf_limbs = n, mf_prime = ls, mf_negpinv = neg,
      mf_R = mpz_export_limbs N (b mod p) @ replicate (n - length (mpz_export_limbs N (b mod p))) 0,
      mf_R3 = mpz_export_limbs N ((b mod p) ^ 3 mod p) @ replicate (n - length (mpz_export_limbs N ((b mod p) ^ 3 mod p))) 0,
      mf_order = p \<rparr>"
    unfolding mont_init_data_def Let_def ls_def [symmetric] n_def [symmetric] setbit R R3 w_def [symmetric] neg_def [symmetric] ..
  have Rv: "nat (b mod p) = W ^ n mod nat p" using p(1) unfolding b by (simp add: nat_mod_distrib nat_power_eq)
  have R3v: "nat ((b mod p) ^ 3 mod p) = (W ^ n) ^ 3 mod nat p"
  proof -
    have "(b mod p) ^ 3 mod p = b ^ 3 mod p" by (rule power_mod)
    then show ?thesis using p(1) unfolding b by (simp add: nat_mod_distrib nat_power_eq)
  qed
  show ?thesis
    unfolding eq
    by (intro mont_env.intro mont_env_axioms.intro N G)
       (use p n ls neg pad_ok [OF N pos small] Rv R3v in \<open>simp_all add: n_def even_nat_iff\<close>)
qed

section \<open>The simulation\<close>

text \<open>
  Halving works on the limbs as in \<^verbatim>\<open>arith/fastfp.c\<close>: half of a Montgomery form is the form of
  the half.
\<close>

lemma half_unique:
  assumes "odd q" "0 \<le> h" "h < int q" "0 \<le> k" "k < int q" "(h + h) mod int q = (k + k) mod int q"
  shows "h = k"
proof -
  have "int q dvd (h + h) - (k + k)" using assms(6) by (simp only: mod_eq_dvd_iff)
  then have dvd: "int q dvd 2 * (h - k)" by (simp add: algebra_simps)
  have "coprime (int q) 2" using assms(1) by simp
  from coprime_dvd_mult_right_iff [OF this, of "h - k"] dvd have "int q dvd h - k" by (simp only:)
  then have "h mod int q = k mod int q" by (simp only: mod_eq_dvd_iff)
  then show ?thesis using assms(2-5) by simp
qed

lemma mont_halve_repr:
  assumes N: "mpn_laws N" and G: "gmp_laws G" and p: "2 ^ 32 \<le> p" "odd p"
  defines "P \<equiv> mont_init_data G N p"
  assumes c: "mont_rep P c z" and a: "mont_rep P a x" and flag: "m_flag c = 2 \<or> x = 0 \<or> m_d a ! 0 AND 1 = 0"
  shows "mont_rep P (mont_halve N P c a) (zp_halve G p x)"
proof -
  let ?Q = "fast_init_data N p"
  have env: "mont_env N G P (nat p)" unfolding P_def using p by (intro mont_init_data_ok [OF N G]) simp_all
  have fast: "fast_env N mpn_div_ref G ?Q (nat p)"
    by (rule fast_env_init [OF N mpn_div_ref.mpn_div_laws_axioms G p(1)])
  have same: "ff_limbs ?Q = mf_limbs P" "ff_prime ?Q = mf_prime P" "ff_order ?Q = p" "mf_order P = p"
    by (simp_all add: P_def fast_init_data_def mont_init_data_def Let_def)
  have odd: "odd (nat p)" "int (nat p) = p" using p by (simp_all add: even_nat_iff)
  note A = mont_env.reprD [OF env a] and C = mont_env.repr_set_flag [OF env c]
  have x: "0 \<le> x" "x < p" using A odd by simp_all
  note half = zp_halve_ok [OF G x]
  show ?thesis
  proof (cases "x = 0")
    case True
    moreover have "zp_halve G p 0 = 0" by (simp add: zp_halve_def gmp_laws.odd_p [OF G] gmp_laws.tdiv_q_2exp_nonneg [OF G])
    ultimately show ?thesis using A(4) C by (simp add: mont_halve_def)
  next
    case False
    let ?m = "to_mont P x"
    have rep: "fast_rep ?Q (m_d a) (int ?m)"
      using A(3,5) False mont_env.mont_form_less [OF env, of x] odd by (simp add: fast_rep_def same)
    note h = fast_env.fast_halve_repr [OF fast rep odd(1), unfolded odd(2)]
    have m: "0 \<le> int ?m" "int ?m < p" using mont_env.mont_form_less [OF env, of x] odd by simp_all
    note hm = zp_halve_ok [OF G m]
    define y where "y = zp_halve G p x"
    have y: "0 \<le> y" "y < p" "(y + y) mod p = x" using half p(2) by (simp_all add: y_def)
    have "zp_halve G p (int ?m) = int (to_mont P y)"
    proof (rule half_unique [OF odd(1), unfolded odd(2)])
      have "int (to_mont P ((y + y) mod p)) = int ((to_mont P y + to_mont P y) mod nat p)"
        using mont_env.mont_form_add [OF env y(1,1)] odd by simp
      then show "(zp_halve G p (int ?m) + zp_halve G p (int ?m)) mod p = (int (to_mont P y) + int (to_mont P y)) mod p"
        using hm p(2) y(3) odd by (simp add: zmod_int)
    qed (use hm p(2) mont_env.mont_form_less [OF env, of y] odd in simp_all)
    moreover have "y \<noteq> 0" using y(3) False by auto
    moreover have "mont_halve N P c a = \<lparr> m_flag = 2, m_d = fast_halve N ?Q (m_d a) \<rparr>"
      using False flag A(4) by (auto simp: mont_halve_def fast_halve_def mont_set_def fast_set_def same Let_def split: prod.splits)
    ultimately show ?thesis using h y(1,2) by (simp add: mont_rep_def fast_rep_def same y_def)
  qed
qed

lemma mont_is1_ok:
  assumes env: "mont_env N G P q" and a: "mont_rep P a x"
  shows "mont_is1 N P a = zp_is1 G x"
proof (cases "x = 0")
  case True
  then show ?thesis using mont_env.reprD(4) [OF env a] gmp_laws.cmp_eq [OF mont_env.axioms(2) [OF env]]
    by (simp add: mont_is1_def zp_is1_def)
next
  case False
  note A = mont_env.reprD [OF env a]
  have len: "length (m_d a) = length (mf_R P)" using A(3) mont_env.R_len [OF env] by simp
  have R: "limbs_val (mf_R P) = to_mont P 1" using mont_env.R [OF env] mont_env.mont_form_def [OF env, of 1] by simp
  have "to_mont P x = to_mont P 1 \<longleftrightarrow> x = 1"
    using mont_env.cancel_W [OF env, of "nat x" "nat 1"] A(1,2) mont_env.q_gt_1 [OF env]
    by (auto simp: mont_env.mont_form_def [OF env] nat_less_iff)
  then show ?thesis
    using False A(4,5) R mpn_laws.cmp_0 [OF mont_env.axioms(1) [OF env] len] gmp_laws.cmp_eq [OF mont_env.axioms(2) [OF env]]
    by (simp add: mont_is1_def zp_is1_def)
qed

lemma mont_table:
  fixes N :: mpn
  assumes G: "gmp_laws G" and p: "2 ^ 32 \<le> p"
  defines "P \<equiv> mont_init_data G N p"
  shows "\<exists>F. field_init_mont_fp G N junk p = Some F \<and> element_init F = mont_init junk \<and>
    element_set0 F c = mont_set0 c \<and> element_set1 F c = mont_set1 P c \<and> element_set F c a = mont_set c a \<and>
    element_add F c a b = mont_add N P c a b \<and> element_sub F c a b = mont_sub N P c a b \<and>
    element_neg F c a = mont_neg N P c a \<and> element_double F c a = mont_double N P c a \<and>
    element_halve F c a = mont_halve N P c a \<and> element_mul F c a b = mont_fp_mul N P c a b \<and>
    element_square F c a = mont_fp_mul N P c a a \<and>
    element_mul_si F c a k = mont_fp_mul N P c a (mont_set_mpz G N P (mont_init junk) k) \<and>
    element_invert F c a = mont_invert G N P c a \<and> element_pow_mpz G F c a n = mont_pow_mpz G N P c a n \<and>
    element_set_si F c k = mont_set_mpz G N P c k \<and> element_set_mpz F c k = mont_set_mpz G N P c k \<and>
    element_cmp F a b = mont_cmp N a b \<and> element_to_mpz F a = mont_to_mpz N P a \<and> element_is0 F a = mont_is0 a \<and>
    element_is1 F a = mont_is1 N P a \<and> element_sign F a = mont_sgn_odd G N P a \<and>
    element_is_sqr F a = mont_is_sqr G N P a"
proof -
  have si: "mont_set_si G N P r k = mont_set_mpz G N P r k" for r
    by (simp add: mont_set_si_def mont_set_mpz_def gmp_laws.sgn [OF G] sgn_0_0)
  show ?thesis using p unfolding P_def
    by (simp add: field_init_mont_fp_def mont_base_def field_init_def dispatch element_pow_mpz_def generic_square_def
        generic_mul_si_def gmp_laws.fits_ulong_p [OF G] si [unfolded P_def] Let_def)
qed

text \<open>Products and small numbers: what is zero modulo \<open>p\<close> must carry the flag of zero.\<close>

lemma mont_products:
  assumes carry: "mont_carry N G P (nat p)" and p: "1 < p"
    and c: "mont_rep P c z" and a: "mont_rep P a x" and b: "mont_rep P b y" and init: "mont_rep P e w"
  shows "x = 0 \<or> y = 0 \<or> \<not> p dvd x * y \<longrightarrow> mont_rep P (mont_fp_mul N P c a b) (x * y mod p)"
    and "k = 0 \<or> \<not> p dvd k \<longrightarrow> mont_rep P (mont_set_mpz G N P c k) (k mod p)"
    and "k = 0 \<or> \<not> p dvd k \<and> (x = 0 \<or> \<not> p dvd x * k) \<longrightarrow>
      mont_rep P (mont_fp_mul N P c a (mont_set_mpz G N P e k)) (x * k mod p)"
proof -
  have pq: "int (nat p) = p" using p by simp
  have mul: "mont_rep P (mont_fp_mul N P c a b) (x * y mod p)" if "mont_rep P b y" "x = 0 \<or> y = 0 \<or> \<not> p dvd x * y" for b y
    using mont_carry.mont_mul_repr [OF carry c a that(1), unfolded pq] that(2) by blast
  have set: "mont_rep P (mont_set_mpz G N P r k) (k mod p)" if "mont_rep P r v" "k = 0 \<or> \<not> p dvd k" for r v
    using mont_carry.mont_set_mpz_repr [OF carry that(1), of k, unfolded pq] that(2) p
      gmp_laws.mod [OF mont_env.axioms(2) [OF mont_carry.axioms(1) [OF carry]], of p k]
    by (auto simp: zp_set_mpz_def dvd_eq_mod_eq_0)
  show "x = 0 \<or> y = 0 \<or> \<not> p dvd x * y \<longrightarrow> mont_rep P (mont_fp_mul N P c a b) (x * y mod p)" using mul [OF b] by blast
  show "k = 0 \<or> \<not> p dvd k \<longrightarrow> mont_rep P (mont_set_mpz G N P c k) (k mod p)" using set [OF c] by blast
  show "k = 0 \<or> \<not> p dvd k \<and> (x = 0 \<or> \<not> p dvd x * k) \<longrightarrow>
      mont_rep P (mont_fp_mul N P c a (mont_set_mpz G N P e k)) (x * k mod p)"
  proof
    assume k: "k = 0 \<or> \<not> p dvd k \<and> (x = 0 \<or> \<not> p dvd x * k)"
    then have "x = 0 \<or> k mod p = 0 \<or> \<not> p dvd x * (k mod p)" by (auto simp: dvd_eq_mod_eq_0 mod_mult_right_eq)
    moreover have "k = 0 \<or> \<not> p dvd k" using k by blast
    ultimately show "mont_rep P (mont_fp_mul N P c a (mont_set_mpz G N P e k)) (x * k mod p)"
      using mul [OF set [OF init]] by (simp only: mod_mult_right_eq) 
  qed
qed

text \<open>
  C20: The Montgomery field refines the field on GMP integers, for odd moduli \<open>p\<close> of \<open>t > 1\<close>
  limbs with \<open>(2^32 + 1) p \<le> 2^(32 (t + 1))\<close>, which holds when the top limb is not all ones; its
  initialisation fails for moduli of one limb. On elements that stand for \<open>x\<close> and \<open>y\<close> the
  arithmetic of the table of \<open>field_init_mont_fp\<close>, its setters, tests, comparison and conversion to
  an integer give what the table of \<open>field_init_naive_fp\<close> gives, whatever the destination
  held before; random and hashed elements, square roots, text and bytes are not part of the statement.
  A product, square or power is right unless it is zero modulo \<open>p\<close> without a factor that is zero;
  the numbers of \<open>set_si\<close>, \<open>set_mpz\<close> and \<open>mul_si\<close> must not be nonzero multiples of \<open>p\<close>; the power
  needs a positive exponent for \<open>x = 0\<close>, the inverse an invertible \<open>x\<close>; the half of an odd number of
  limbs needs a destination that is not flagged as zero, and the comparison is right unless its
  second argument alone is zero.
\<close>

theorem mont_refines_naive:
  assumes "mpn_laws N" "gmp_laws G" "1 < p" "odd p"
    and "(2 ^ 32 + 1) * nat p \<le> (2 ^ 32) ^ Suc (mf_limbs (mont_init_data G N p))"
  defines "P \<equiv> mont_init_data G N p" and "Z \<equiv> field_init_naive_fp G p"
  assumes c: "mont_rep P c z" and a: "mont_rep P a x" and b: "mont_rep P b y" and n: "0 \<le> n"
    and junk: "length junk = mf_limbs P"
  shows "case field_init_mont_fp G N junk p of None \<Rightarrow> p < 2 ^ 32 | Some F \<Rightarrow> 2 ^ 32 \<le> p \<and>
    mont_rep P (element_init F) (element_init Z) \<and>
    mont_rep P (element_add F c a b) (element_add Z z x y) \<and>
    mont_rep P (element_sub F c a b) (element_sub Z z x y) \<and>
    mont_rep P (element_neg F c a) (element_neg Z z x) \<and>
    mont_rep P (element_double F c a) (element_double Z z x) \<and>
    (m_flag c = 2 \<or> x = 0 \<or> m_d a ! 0 AND 1 = 0 \<longrightarrow> mont_rep P (element_halve F c a) (element_halve Z z x)) \<and>
    (x = 0 \<or> y = 0 \<or> \<not> p dvd x * y \<longrightarrow> mont_rep P (element_mul F c a b) (element_mul Z z x y)) \<and>
    (x = 0 \<or> \<not> p dvd x * x \<longrightarrow> mont_rep P (element_square F c a) (element_square Z z x)) \<and>
    (k = 0 \<or> \<not> p dvd k \<and> (x = 0 \<or> \<not> p dvd x * k) \<longrightarrow>
      mont_rep P (element_mul_si F c a k) (element_mul_si Z z x k)) \<and>
    (coprime x p \<longrightarrow> mont_rep P (element_invert F c a) (element_invert Z z x)) \<and>
    (x = 0 \<and> 0 < n \<or> x \<noteq> 0 \<and> \<not> p dvd x ^ nat n \<longrightarrow>
      mont_rep P (element_pow_mpz G F c a n) (element_pow_mpz G Z z x n)) \<and>
    (k = 0 \<or> \<not> p dvd k \<longrightarrow> mont_rep P (element_set_si F c k) (element_set_si Z z k) \<and>
      mont_rep P (element_set_mpz F c k) (element_set_mpz Z z k)) \<and>
    mont_rep P (element_set0 F c) (element_set0 Z z) \<and> mont_rep P (element_set1 F c) (element_set1 Z z) \<and>
    mont_rep P (element_set F c a) (element_set Z z x) \<and>
    (x = 0 \<or> y \<noteq> 0 \<longrightarrow> (element_cmp F a b = 0 \<longleftrightarrow> element_cmp Z x y = 0)) \<and>
    element_to_mpz F a = element_to_mpz Z x \<and> element_is0 F a = element_is0 Z x \<and>
    element_is1 F a = element_is1 Z x \<and> element_sign F a = element_sign Z x \<and>
    element_is_sqr F a = element_is_sqr Z x"
proof (cases "2 ^ 32 \<le> p")
  case False
  then show ?thesis using assms(3) by (simp add: field_init_mont_fp_def gmp_laws.fits_ulong_p [OF assms(2)])
next
  case True
  have env: "mont_env N G P (nat p)" unfolding P_def by (rule mont_init_data_ok [OF assms(1,2,3,4)])
  then have carry: "mont_carry N G P (nat p)"
    using assms(5) unfolding P_def by (intro mont_carry.intro mont_carry_axioms.intro) simp_all
  have pq: "int (nat p) = p" using True by simp
  have xy: "0 \<le> x" "x < p" "0 \<le> y" "y < p"
    using mont_env.reprD(1,2) [OF env a] mont_env.reprD(1,2) [OF env b] unfolding pq by simp_all
  obtain F where F: "field_init_mont_fp G N junk p = Some F" and eqF: "element_init F = mont_init junk"
    "element_set0 F c = mont_set0 c" "element_set1 F c = mont_set1 P c" "element_set F c a = mont_set c a"
    "element_add F c a b = mont_add N P c a b" "element_sub F c a b = mont_sub N P c a b"
    "element_neg F c a = mont_neg N P c a" "element_double F c a = mont_double N P c a"
    "element_halve F c a = mont_halve N P c a" "element_mul F c a b = mont_fp_mul N P c a b"
    "element_square F c a = mont_fp_mul N P c a a"
    "element_mul_si F c a k = mont_fp_mul N P c a (mont_set_mpz G N P (mont_init junk) k)"
    "element_invert F c a = mont_invert G N P c a" "element_pow_mpz G F c a n = mont_pow_mpz G N P c a n"
    "element_set_si F c k = mont_set_mpz G N P c k" "element_set_mpz F c k = mont_set_mpz G N P c k"
    "element_cmp F a b = mont_cmp N a b" "element_to_mpz F a = mont_to_mpz N P a" "element_is0 F a = mont_is0 a"
    "element_is1 F a = mont_is1 N P a" "element_sign F a = mont_sgn_odd G N P a"
    "element_is_sqr F a = mont_is_sqr G N P a"
    using mont_table [OF assms(2) True, of N junk c a b k n, folded P_def] by blast
  note eqZ = naive_table [OF assms(2,3), folded Z_def] naive_table_sums [OF assms(2) xy, folded Z_def]
  have init: "mont_rep P (mont_init junk) 0" unfolding mont_init_def by (rule mont_env.repr_0 [OF env junk])
  note constants = init mont_env.repr_set_flag [OF env c] mont_carry.mont_set1_repr [OF carry] mont_env.mont_set_repr [OF env c a]
  note sums = mont_env.mont_add_repr [OF env c a b] mont_env.mont_sub_repr [OF env c a b]
    mont_env.mont_neg_repr [OF env c a] mont_env.mont_double_repr [OF env c a]
  note products = mont_products [OF carry assms(3) c a b init] mont_products(1) [OF carry assms(3) c a a init]
  note tests = mont_carry.mont_tests_ok [OF carry a b] mont_carry.to_mpz_ok [OF carry a] mont_is1_ok [OF env a]
  have half: "m_flag c = 2 \<or> x = 0 \<or> m_d a ! 0 AND 1 = 0 \<longrightarrow> mont_rep P (mont_halve N P c a) (zp_halve G p x)"
    using mont_halve_repr [OF assms(1,2) True assms(4), folded P_def, OF c a] by blast
  have inv: "coprime x p \<longrightarrow> mont_rep P (mont_invert G N P c a) (zp_invert G p x)"
    using mont_carry.mont_invert_repr [OF carry a, unfolded pq] by blast
  have pow: "x = 0 \<and> 0 < n \<or> x \<noteq> 0 \<and> \<not> p dvd x ^ nat n \<longrightarrow> mont_rep P (mont_pow_mpz G N P c a n) (zp_pow_mpz G p x n)"
    using mont_carry.mont_pow_repr [OF carry c a n, unfolded pq] by blast
  show ?thesis unfolding F option.case
    using True constants sums [unfolded pq] products half inv pow tests [unfolded pq] assms(4)
    by (simp add: eqF eqZ mont_set0_def)
qed

lemma mont_refines_naive_witness:
  "let P = mont_init_data gmp_ref mpn_ref 4294967311; F = the (field_init_mont_fp gmp_ref mpn_ref [8, 8] 4294967311);
       one = \<lparr> m_flag = 2, m_d = mf_R P \<rparr>; zero = \<lparr> m_flag = 0, m_d = [9, 9] \<rparr>; Z = field_init_naive_fp gmp_ref 4294967311
   in mont_rep P (element_mul F zero one one) (element_mul Z 0 1 1) \<and>
      mont_rep P (element_sub F one zero one) (element_sub Z 1 0 1)"
proof -
  let ?P = "mont_init_data gmp_ref mpn_ref 4294967311"
  let ?one = "\<lparr> m_flag = 2, m_d = mf_R ?P \<rparr>" and ?zero = "\<lparr> m_flag = 0, m_d = [9, 9] \<rparr>"
  have env: "mont_env mpn_ref gmp_ref ?P (nat 4294967311)"
    by (rule mont_init_data_ok [OF mpn_ref.mpn_laws_axioms gmp_ref.gmp_laws_axioms]) simp_all
  have "limbs_ref 4294967311 = [15, 1]" by (simp add: limbs_ref.simps)
  then have P: "mf_limbs ?P = 2" "mf_order ?P = 4294967311" by (simp_all add: mont_init_data_def mpn_ref_def Let_def)
  have carry: "(2 ^ 32 + 1) * nat 4294967311 \<le> (2 ^ 32) ^ Suc (mf_limbs ?P)" unfolding P by simp
  have R: "to_mont ?P 1 = limbs_val (mf_R ?P)"
    using mont_env.R [OF env] mont_env.mont_form_def [OF env, of 1] by simp
  have one: "mont_rep ?P ?one 1" using mont_env.R_len [OF env] P R by (simp add: mont_rep_def)
  have zero: "mont_rep ?P ?zero 0" using P by (simp add: mont_rep_def)
  note refines = mont_refines_naive [OF mpn_ref.mpn_laws_axioms gmp_ref.gmp_laws_axioms _ _ carry, where junk = "[8, 8]" and n = 0 and k = 0]
  have "\<not> 4294967311 dvd (1::int)" by simp
  then show ?thesis
    using refines [OF _ _ zero one one] refines [OF _ _ one zero one] P(1) by (simp add: Let_def split: option.splits)
qed

lemma mpn_split_2: "mpn_split (Suc (Suc 0)) v = ([word_of_nat v, word_of_nat (v div 2 ^ 32)], word_of_nat (v div (2 ^ 32) ^ 2))"
  by (simp add: mpn_split_def power2_eq_square [simplified])

definition p64 :: fp_field_data where
  "p64 = \<lparr> mf_limbs = 2, mf_prime = [4294967237, 4294967295], mf_negpinv = 2693454067,
     mf_R = [59, 0], mf_R3 = [205379, 0], mf_order = 18446744073709551557 \<rparr>"

lemma p64_simps [simp]:
  "mf_limbs p64 = 2" "mf_prime p64 = [4294967237, 4294967295]" "mf_negpinv p64 = 2693454067"
  by (simp_all add: p64_def)

text \<open>The products of limbs that the run below makes.\<close>

lemma p64_products:
  "mpn_mul_1 mpn_ref [4294967236, 4294967295] 2444712010 = ([3641134760, 4294967261], 2444712009)"
  "mpn_addmul_1 mpn_ref [3641134760, 4294967261] [4294967237, 4294967295] 28281154536426666986441632120 = ([0, 4294967228], 2463983992)"
  "mpn_addmul_1 mpn_ref [4294967228, 4908696001] [4294967236, 4294967295] 4294967295 = ([4294967288, 613728645], 4294967295)"
  "mpn_addmul_1 mpn_ref [4294967288, 613728645] [4294967237, 4294967295] 49685457154143311692722419816 = ([0, 613728588], 4222171240)"
  by (simp_all add: mpn_ref_def mpn_split_2)

lemma p64_cmp: "mpn_cmp mpn_ref [613728588, 8517138536] [4294967237, 4294967295] < 0"
  by (simp add: mpn_ref_def)

lemma p64_mul: "mont_mul mpn_ref p64 [2444712010, 4294967295] [4294967236, 4294967295] = [613728588, 8517138536]"
  using p64_cmp by (simp add: mont_mul_def p64_products Let_def)

text \<open>The contracts hold for the constants of a modulus on the reference limbs.\<close>

interpretation mont_7: mont_carry mpn_ref gmp_ref "mont_init_data gmp_ref mpn_ref 7" 7
proof -
  have "limbs_ref 7 = [7]" by (simp add: limbs_ref.simps)
  then have "mf_limbs (mont_init_data gmp_ref mpn_ref 7) = 1" by (simp add: mont_init_data_def mpn_ref_def Let_def)
  moreover have "mont_env mpn_ref gmp_ref (mont_init_data gmp_ref mpn_ref 7) 7"
    using mont_init_data_ok [OF mpn_ref.mpn_laws_axioms gmp_ref.gmp_laws_axioms, of 7] by simp
  ultimately show "mont_carry mpn_ref gmp_ref (mont_init_data gmp_ref mpn_ref 7) 7"
    by (intro mont_carry.intro mont_carry_axioms.intro) simp_all
qed

text \<open>
  The condition on the top limb is needed. For the prime \<open>2^64 - 59\<close>, whose top limb is
  all ones, the carry of \<open>mont_mul\<close> is lost on some reduced arguments and the result differs
  from the Montgomery product.
\<close>

lemma mont_mul_carry_lost:
  "let q = 2 ^ 64 - 59; a = [2444712010, 4294967295]; b = [4294967236, 4294967295]
   in limbs_val (mf_prime p64) = q \<and> (unat (mf_negpinv p64) * q + 1) mod 2 ^ 32 = 0 \<and>
      limbs_val a < q \<and> limbs_val b < q \<and>
      (limbs_val (mont_mul mpn_ref p64 a b) * (2 ^ 32) ^ 2) mod q \<noteq> (limbs_val a * limbs_val b) mod q"
  by (simp add: p64_mul Let_def)

end
