(* ===== verification/FasterFp.thy ===== *)
theory FasterFp
  imports FastFp
begin

unbundle bit_operations_syntax

text \<open>
  \<open>F_p\<close> on limbs with a flag for zero, \<^verbatim>\<open>arith/fasterfp.c\<close>: a nonzero residue is its limbs
  and the flag 2; zero is the flag 0, and the limbs then keep what they held before. An
  operation takes the old destination, whose limbs and flag it may leave as they are. The data
  of the field are those of \<^verbatim>\<open>arith/fastfp.c\<close>. \<open>junk\<close> is what freshly allocated limbs
  contain.
\<close>

record faster_elem =
  fe_flag :: int
  fe_d :: "limb list"

section \<open>The operations\<close>

definition faster_init :: "limb list \<Rightarrow> faster_elem" where
  "faster_init junk = \<lparr> fe_flag = 0, fe_d = junk \<rparr>"

definition faster_from_mpz :: "mpn \<Rightarrow> fast_data \<Rightarrow> int \<Rightarrow> limb list" where
  "faster_from_mpz N p z = (
     let d = mpz_export_limbs N z
     in d @ replicate (ff_limbs p - length d) 0)"

definition faster_set_mpz :: "gmp \<Rightarrow> mpn \<Rightarrow> fast_data \<Rightarrow> faster_elem \<Rightarrow> int \<Rightarrow> faster_elem" where
  "faster_set_mpz G N p e z = (
     if mpz_sgn G z = 0 then e\<lparr> fe_flag := 0 \<rparr>
     else
       let tmp = mpz_mod G z (ff_order p)
       in \<lparr> fe_flag = 2, fe_d = faster_from_mpz N p tmp \<rparr>)"

definition faster_set_si :: "mpn_div \<Rightarrow> fast_data \<Rightarrow> faster_elem \<Rightarrow> int \<Rightarrow> faster_elem" where
  "faster_set_si D p e i = (
     if i = 0 then e\<lparr> fe_flag := 0 \<rparr>
     else
       let d = (if i < 0 then fst (mpn_sub_1 D (ff_prime p) (word_of_int (- i)))
                else word_of_int i # replicate (ff_limbs p - 1) 0)
       in \<lparr> fe_flag = 2, fe_d = d \<rparr>)"

definition faster_to_mpz :: "mpn \<Rightarrow> faster_elem \<Rightarrow> int" where
  "faster_to_mpz N e = (if fe_flag e = 0 then 0 else mpz_import_limbs N (fe_d e))"

definition faster_set0 :: "faster_elem \<Rightarrow> faster_elem" where
  "faster_set0 e = e\<lparr> fe_flag := 0 \<rparr>"

definition faster_set1 :: "fast_data \<Rightarrow> faster_elem" where
  "faster_set1 p = \<lparr> fe_flag = 2, fe_d = 1 # replicate (ff_limbs p - 1) 0 \<rparr>"

definition faster_is1 :: "faster_elem \<Rightarrow> int" where
  "faster_is1 e = (
     if fe_flag e = 0 then 0
     else if fe_d e ! 0 \<noteq> 1 then 0
     else if list_ex (\<lambda>x. x \<noteq> 0) (tl (fe_d e)) then 0 else 1)"

definition faster_is0 :: "faster_elem \<Rightarrow> int" where
  "faster_is0 e = (if fe_flag e = 0 then 1 else 0)"

definition faster_set :: "faster_elem \<Rightarrow> faster_elem \<Rightarrow> faster_elem" where
  "faster_set c a = (if fe_flag a = 0 then c\<lparr> fe_flag := 0 \<rparr> else \<lparr> fe_flag = 2, fe_d = fe_d a \<rparr>)"

definition faster_add :: "mpn \<Rightarrow> fast_data \<Rightarrow> faster_elem \<Rightarrow> faster_elem \<Rightarrow> faster_elem \<Rightarrow> faster_elem" where
  "faster_add N p c a b = (
     if fe_flag a = 0 then faster_set c b
     else if fe_flag b = 0 then faster_set c a
     else
       let (d, carry) = mpn_add_n N (fe_d a) (fe_d b) in
       if carry \<noteq> 0 then \<lparr> fe_flag = 2, fe_d = fst (mpn_sub_n N d (ff_prime p)) \<rparr>
       else
         let i = mpn_cmp N d (ff_prime p) in
         if i = 0 then \<lparr> fe_flag = 0, fe_d = d \<rparr>
         else if i > 0 then \<lparr> fe_flag = 2, fe_d = fst (mpn_sub_n N d (ff_prime p)) \<rparr>
         else \<lparr> fe_flag = 2, fe_d = d \<rparr>)"

definition faster_double :: "mpn \<Rightarrow> fast_data \<Rightarrow> faster_elem \<Rightarrow> faster_elem \<Rightarrow> faster_elem" where
  "faster_double N p c a = (
     if fe_flag a = 0 then c\<lparr> fe_flag := 0 \<rparr>
     else
       let (d, carry) = mpn_lshift1 N (fe_d a) in
       if carry \<noteq> 0 then \<lparr> fe_flag = 2, fe_d = fst (mpn_sub_n N d (ff_prime p)) \<rparr>
       else
         let i = mpn_cmp N d (ff_prime p) in
         if i = 0 then \<lparr> fe_flag = 0, fe_d = d \<rparr>
         else if i > 0 then \<lparr> fe_flag = 2, fe_d = fst (mpn_sub_n N d (ff_prime p)) \<rparr>
         else \<lparr> fe_flag = 2, fe_d = d \<rparr>)"

text \<open>For an odd residue the flag of the destination is not written.\<close>

definition faster_halve :: "mpn \<Rightarrow> fast_data \<Rightarrow> faster_elem \<Rightarrow> faster_elem \<Rightarrow> faster_elem" where
  "faster_halve N p c a = (
     if fe_flag a = 0 then c\<lparr> fe_flag := 0 \<rparr>
     else
       let t = ff_limbs p;
           (c, carry) = (if fe_d a ! 0 AND 1 \<noteq> 0
             then (case mpn_add_n N (fe_d a) (ff_prime p) of (d, carry) \<Rightarrow> (c\<lparr> fe_d := d \<rparr>, carry))
             else (faster_set c a, 0));
           d = mpn_rshift1 N (fe_d c);
           d = (if carry \<noteq> 0 then d[t - 1 := d ! (t - 1) OR 2 ^ 31] else d)
       in c\<lparr> fe_d := d \<rparr>)"

definition faster_neg :: "mpn \<Rightarrow> fast_data \<Rightarrow> faster_elem \<Rightarrow> faster_elem \<Rightarrow> faster_elem" where
  "faster_neg N p c a = (
     if fe_flag a = 0 then c\<lparr> fe_flag := 0 \<rparr>
     else \<lparr> fe_flag = 2, fe_d = fst (mpn_sub_n N (ff_prime p) (fe_d a)) \<rparr>)"

definition faster_sub :: "mpn \<Rightarrow> fast_data \<Rightarrow> faster_elem \<Rightarrow> faster_elem \<Rightarrow> faster_elem \<Rightarrow> faster_elem" where
  "faster_sub N p c a b = (
     if fe_flag a = 0 then faster_neg N p c b
     else if fe_flag b = 0 then faster_set c a
     else
       let i = mpn_cmp N (fe_d a) (fe_d b) in
       if i = 0 then c\<lparr> fe_flag := 0 \<rparr>
       else
         let d = fst (mpn_sub_n N (fe_d a) (fe_d b));
             d = (if i < 0 then fst (mpn_add_n N d (ff_prime p)) else d)
         in \<lparr> fe_flag = 2, fe_d = d \<rparr>)"

definition faster_mul :: "mpn_div \<Rightarrow> fast_data \<Rightarrow> faster_elem \<Rightarrow> faster_elem \<Rightarrow> faster_elem \<Rightarrow> faster_elem" where
  "faster_mul D p c a b = (
     if fe_flag a = 0 \<or> fe_flag b = 0 then c\<lparr> fe_flag := 0 \<rparr>
     else
       let tmp = mpn_mul_n D (fe_d a) (fe_d b)
       in \<lparr> fe_flag = 2, fe_d = mpn_tdiv_r D tmp (ff_prime p) \<rparr>)"

text \<open>\<open>mpz_powm_ui\<close> on the limbs, filled up with zeroes.\<close>

definition faster_square :: "gmp \<Rightarrow> mpn \<Rightarrow> fast_data \<Rightarrow> faster_elem \<Rightarrow> faster_elem \<Rightarrow> faster_elem" where
  "faster_square G N p c a = (
     if fe_flag a = 0 then c\<lparr> fe_flag := 0 \<rparr>
     else
       let z = mpz_powm G (mpz_import_limbs N (fe_d a)) 2 (ff_order p)
       in \<lparr> fe_flag = 2, fe_d = faster_from_mpz N p z \<rparr>)"

definition faster_mul_si :: "mpn \<Rightarrow> mpn_div \<Rightarrow> fast_data \<Rightarrow> faster_elem \<Rightarrow> faster_elem \<Rightarrow> int \<Rightarrow> faster_elem" where
  "faster_mul_si N D p c a op = (
     if fe_flag a = 0 \<or> op = 0 then c\<lparr> fe_flag := 0 \<rparr>
     else
       let (tmp, top) = mpn_mul_1 N (fe_d a) (word_of_int \<bar>op\<bar>);
           c = \<lparr> fe_flag = 2, fe_d = mpn_tdiv_r D (tmp @ [top]) (ff_prime p) \<rparr>
       in if op < 0 then faster_neg N p c c else c)"

definition faster_pow_mpz :: "gmp \<Rightarrow> mpn \<Rightarrow> fast_data \<Rightarrow> faster_elem \<Rightarrow> faster_elem \<Rightarrow> int \<Rightarrow> faster_elem" where
  "faster_pow_mpz G N p c a op = (
     if fe_flag a = 0 then c\<lparr> fe_flag := 0 \<rparr>
     else
       let z = faster_to_mpz N a;
           z = mpz_powm G z op (ff_order p)
       in \<lparr> fe_flag = 2, fe_d = faster_from_mpz N p z \<rparr>)"

definition faster_invert :: "gmp \<Rightarrow> mpn \<Rightarrow> fast_data \<Rightarrow> faster_elem \<Rightarrow> faster_elem" where
  "faster_invert G N p a = (
     let z = faster_to_mpz N a;
         z = mpz_invert G z (ff_order p)
     in \<lparr> fe_flag = 2, fe_d = faster_from_mpz N p z \<rparr>)"

definition faster_random :: "gmp \<Rightarrow> mpn \<Rightarrow> fast_data \<Rightarrow> entropy \<Rightarrow> nat \<Rightarrow> faster_elem \<Rightarrow> faster_elem \<times> nat" where
  "faster_random G N p R i a = (
     let z = R i (ff_order p) in
     if mpz_sgn G z \<noteq> 0 then (\<lparr> fe_flag = 2, fe_d = faster_from_mpz N p z \<rparr>, i + 1)
     else (a\<lparr> fe_flag := 0 \<rparr>, i + 1))"

definition faster_from_hash :: "gmp \<Rightarrow> mpn \<Rightarrow> fast_data \<Rightarrow> faster_elem \<Rightarrow> byte list \<Rightarrow> faster_elem option" where
  "faster_from_hash G N p a data =
     map_option (faster_set_mpz G N p a) (pbc_mpz_from_hash G (ff_order p) data)"

definition faster_cmp :: "mpn \<Rightarrow> faster_elem \<Rightarrow> faster_elem \<Rightarrow> int" where
  "faster_cmp N a b = (if fe_flag a = 0 then fe_flag b else mpn_cmp N (fe_d a) (fe_d b))"

definition faster_sgn_odd :: "faster_elem \<Rightarrow> int" where
  "faster_sgn_odd a = (
     if fe_flag a = 0 then 0
     else if fe_d a ! 0 AND 1 \<noteq> 0 then 1 else - 1)"

definition faster_sgn_even :: "mpn \<Rightarrow> fast_data \<Rightarrow> faster_elem \<Rightarrow> int" where
  "faster_sgn_even N p a = (
     if fe_flag a = 0 then 0
     else
       let (sum, carry) = mpn_add_n N (fe_d a) (fe_d a)
       in if carry \<noteq> 0 then 1 else mpn_cmp N sum (ff_prime p))"

definition faster_is_sqr :: "gmp \<Rightarrow> mpn \<Rightarrow> fast_data \<Rightarrow> faster_elem \<Rightarrow> int" where
  "faster_is_sqr G N p a = (
     if fe_flag a = 0 then 1
     else
       let z = faster_to_mpz N a
       in if mpz_legendre G z (ff_order p) = 1 then 1 else 0)"

definition faster_to_bytes :: "gmp \<Rightarrow> mpn \<Rightarrow> nat \<Rightarrow> faster_elem \<Rightarrow> byte list" where
  "faster_to_bytes G N n a = (
     if fe_flag a = 0 then replicate n 0
     else
       let z = faster_to_mpz N a
       in case pbc_mpz_out_raw_n G n z of Some bs \<Rightarrow> bs | None \<Rightarrow> undefined)"

text \<open>\<open>from_mpz\<close> without a reduction.\<close>

definition faster_from_bytes :: "gmp \<Rightarrow> mpn \<Rightarrow> fast_data \<Rightarrow> nat \<Rightarrow> faster_elem \<Rightarrow> byte list \<Rightarrow> faster_elem \<times> nat" where
  "faster_from_bytes G N p n a data = (
     let z = mpz_import G (take n data) in
     if mpz_sgn G z = 0 then (a\<lparr> fe_flag := 0 \<rparr>, n)
     else (\<lparr> fe_flag = 2, fe_d = faster_from_mpz N p z \<rparr>, n))"

section \<open>The table\<close>

definition faster_init_data :: "mpn \<Rightarrow> int \<Rightarrow> fast_data" where
  "faster_init_data N prime = (
     let primelimbs = mpz_export_limbs N prime
     in \<lparr> ff_limbs = length primelimbs, ff_prime = primelimbs, ff_order = prime \<rparr>)"

definition faster_base :: "gmp \<Rightarrow> mpn \<Rightarrow> mpn_div \<Rightarrow> limb list \<Rightarrow> int \<Rightarrow> faster_elem field_s" where
  "faster_base G N D junk prime = (
     let p = faster_init_data N prime;
         n = (mpz_sizeinbase G prime 2 + 7) div 8
     in field_init\<lparr>
       f_init := faster_init junk,
       f_set_si := Some (faster_set_si D p),
       f_set_mpz := Some (faster_set_mpz G N p),
       f_add := faster_add N p,
       f_sub := Some (faster_sub N p),
       f_set := faster_set,
       f_mul := faster_mul D p,
       f_mul_si := Some (faster_mul_si N D p),
       f_square := Some (faster_square G N p),
       f_doub := Some (faster_double N p),
       f_halve := Some (faster_halve N p),
       f_pow_mpz := Some (faster_pow_mpz G N p),
       f_neg := faster_neg N p,
       f_cmp := Some (faster_cmp N),
       f_sign := (if mpz_odd_p G prime then faster_sgn_odd else faster_sgn_even N p),
       f_invert := (\<lambda>c. faster_invert G N p),
       f_random := Some (faster_random G N p),
       f_from_hash := faster_from_hash G N p,
       f_is1 := Some faster_is1,
       f_is0 := Some faster_is0,
       f_set0 := faster_set0,
       f_set1 := (\<lambda>e. faster_set1 p),
       f_is_sqr := faster_is_sqr G N p,
       f_to_bytes := faster_to_bytes G N n,
       f_from_bytes := faster_from_bytes G N p n,
       f_to_mpz := Some (faster_to_mpz N),
       f_fixed_length := int n,
       f_order := prime \<rparr>)"

definition field_init_faster_fp :: "gmp \<Rightarrow> mpn \<Rightarrow> mpn_div \<Rightarrow> limb list \<Rightarrow> int \<Rightarrow> faster_elem field_s option" where
  "field_init_faster_fp G N D junk prime = (
     if mpz_fits_ulong_p G prime then None
     else Some ((faster_base G N D junk prime)\<lparr>
       f_sqrt := (\<lambda>nqr x a. case nqr of
         Some g \<Rightarrow> fp_tonelli G (faster_base G N D junk prime) g x a
       | None \<Rightarrow> undefined) \<rparr>))"

end
