(* ===== verification/FasterRefine.thy ===== *)
theory FasterRefine
  imports FasterFp FastRefine
begin

unbundle bit_operations_syntax

text \<open>
  The field with a flag for zero, on nonzero elements, computes what the field of
  \<^verbatim>\<open>arith/fastfp.c\<close> computes; what is left is that the flag of a result is right, which the
  products need a prime modulus for.
\<close>

section \<open>The relation\<close>

definition faster_rep :: "fast_data \<Rightarrow> faster_elem \<Rightarrow> int \<Rightarrow> bool" where
  "faster_rep p e x \<longleftrightarrow> (if fe_flag e = 0 then x = 0 else fe_flag e = 2 \<and> x \<noteq> 0 \<and> fast_rep p (fe_d e) x)"

lemma faster_rep_0: "faster_rep p e x \<Longrightarrow> fe_flag e = 0 \<Longrightarrow> x = 0"
  by (simp add: faster_rep_def)

lemma faster_rep_2:
  assumes "faster_rep p e x" "fe_flag e \<noteq> 0"
  shows "fe_flag e = 2" and "fast_rep p (fe_d e) x" and "x \<noteq> 0"
  using assms by (simp_all add: faster_rep_def)

lemma faster_rep_zero [simp]: "faster_rep p (e\<lparr> fe_flag := 0 \<rparr>) x \<longleftrightarrow> x = 0"
  by (simp add: faster_rep_def)

lemma faster_rep_two [simp]: "faster_rep p \<lparr> fe_flag = 2, fe_d = d \<rparr> x \<longleftrightarrow> x \<noteq> 0 \<and> fast_rep p d x"
  by (simp add: faster_rep_def)

lemma faster_from_mpz_fast: "faster_from_mpz = fast_from_mpz"
  by (intro ext) (simp add: faster_from_mpz_def fast_from_mpz_def)

lemma faster_set_repr: "faster_rep p a x \<Longrightarrow> faster_rep p (faster_set c a) x"
  by (auto simp: faster_set_def faster_rep_def)

context fast_env
begin

section \<open>Sums and differences\<close>

lemma reduce_flag:
  assumes d: "length d = t" and s: "limbs_val d + (2 ^ 32) ^ t * unat (c :: limb) = s"
  shows "c = 0 \<and> mpn_cmp N d (ff_prime p) = 0 \<longleftrightarrow> s = q"
proof -
  have dl: "length d = length (ff_prime p)" using d limbs by simp
  have "c = 0" if "s = q"
  proof (rule ccontr)
    assume "c \<noteq> 0"
    then have "1 \<le> unat c" using unat_gt_0 [of c] by simp
    then have "(2 ^ 32) ^ t * 1 \<le> (2 ^ 32) ^ t * unat c" by (rule mult_le_mono2)
    then show False using s that q_less by linarith
  qed
  then show ?thesis using s mpn.cmp_0 [OF dl] prime by auto
qed

lemma sum_zero:
  assumes "0 \<le> x" "x < int q" "0 \<le> y" "y < int q" "x \<noteq> 0"
  shows "(x + y) mod int q = 0 \<longleftrightarrow> nat (x + y) = q"
  using assms by (auto simp: residue_sum)

lemma faster_mod: "faster_rep p a x \<Longrightarrow> x mod int q = x"
  by (simp add: faster_rep_def fast_repr_def split: if_splits)

lemma faster_add_repr:
  assumes a: "faster_rep p a x" and b: "faster_rep p b y"
  shows "faster_rep p (faster_add N p c a b) ((x + y) mod int q)"
proof (cases "fe_flag a = 0 \<or> fe_flag b = 0")
  case True
  then show ?thesis using faster_rep_0 [OF a] faster_rep_0 [OF b] faster_set_repr [OF a] faster_set_repr [OF b]
    by (auto simp: faster_add_def faster_mod [OF a] faster_mod [OF b])
next
  case False
  then have ab: "fast_repr (fe_d a) x" "fast_repr (fe_d b) y" "x \<noteq> 0"
    using faster_rep_2 [OF a] faster_rep_2 [OF b] by simp_all
  obtain d k where add: "mpn_add_n N (fe_d a) (fe_d b) = (d, k)" by fastforce
  have xy: "0 \<le> x" "x < int q" "0 \<le> y" "y < int q" "length (fe_d a) = t" "length (fe_d b) = t"
    "limbs_val (fe_d a) = nat x" "limbs_val (fe_d b) = nat y"
    using ab by (simp_all add: fast_repr_def)
  have "length (fe_d a) = length (fe_d b)" using xy by simp
  from mpn.add_n [OF this add] have "length d = t" "limbs_val d + (2 ^ 32) ^ t * unat k = nat (x + y)"
    using xy by (simp_all add: nat_add_distrib)
  note flag = reduce_flag [OF this] sum_zero [OF xy(1-4) ab(3)]
  note fast = fast_add_repr [OF ab(1,2)]
  have "faster_add N p c a b =
      (if k = 0 \<and> mpn_cmp N d (ff_prime p) = 0 then \<lparr> fe_flag = 0, fe_d = d \<rparr>
       else \<lparr> fe_flag = 2, fe_d = fast_add N p (fe_d a) (fe_d b) \<rparr>)"
    using False by (auto simp: faster_add_def fast_add_def add)
  then show ?thesis using flag fast by (simp add: faster_rep_def)
qed

lemma faster_double_repr:
  assumes a: "faster_rep p a x"
  shows "faster_rep p (faster_double N p c a) ((x + x) mod int q)"
proof (cases "fe_flag a = 0")
  case True
  then show ?thesis using faster_rep_0 [OF a] by (simp add: faster_double_def)
next
  case False
  then have a: "fast_repr (fe_d a) x" "x \<noteq> 0" using faster_rep_2 [OF a] by simp_all
  obtain d k where sh: "mpn_lshift1 N (fe_d a) = (d, k)" by fastforce
  have x: "0 \<le> x" "x < int q" "length (fe_d a) = t" "limbs_val (fe_d a) = nat x" using a by (simp_all add: fast_repr_def)
  have "fe_d a \<noteq> []" using x(3) t_pos by auto
  from mpn.lshift1 [OF sh this] have "length d = t" "limbs_val d + (2 ^ 32) ^ t * unat k = nat (x + x)"
    using x by (simp_all add: nat_add_distrib)
  note flag = reduce_flag [OF this] sum_zero [OF x(1,2,1,2) a(2)]
  note fast = fast_double_repr [OF a(1)]
  have "faster_double N p c a =
      (if k = 0 \<and> mpn_cmp N d (ff_prime p) = 0 then \<lparr> fe_flag = 0, fe_d = d \<rparr>
       else \<lparr> fe_flag = 2, fe_d = fast_double N p (fe_d a) \<rparr>)"
    using False by (auto simp: faster_double_def fast_double_def sh)
  then show ?thesis using flag fast by (simp add: faster_rep_def)
qed

lemma neg_zero:
  assumes "0 \<le> x" "x < int q"
  shows "(- x) mod int q = 0 \<longleftrightarrow> x = 0"
  using assms by (auto simp: zmod_zminus1_eq_if split: if_splits)

lemma faster_neg_repr:
  assumes a: "faster_rep p a x"
  shows "faster_rep p (faster_neg N p c a) ((- x) mod int q)"
proof (cases "fe_flag a = 0")
  case True
  then show ?thesis using faster_rep_0 [OF a] by (auto simp: faster_neg_def)
next
  case False
  then have a: "fast_repr (fe_d a) x" "x \<noteq> 0" using faster_rep_2 [OF a] by simp_all
  have "faster_neg N p c a = \<lparr> fe_flag = 2, fe_d = fast_neg N p (fe_d a) \<rparr>"
    using False is0_repr [OF a(1)] a(2) by (simp add: faster_neg_def fast_neg_def)
  then show ?thesis using fast_neg_repr [OF a(1)] neg_zero [of x] a by (simp add: fast_repr_def)
qed

lemma difference_zero:
  assumes "0 \<le> x" "x < int q" "0 \<le> y" "y < int q"
  shows "(x - y) mod int q = 0 \<longleftrightarrow> x = y"
proof
  assume "(x - y) mod int q = 0"
  then have "int q dvd x - y" by (simp add: dvd_eq_mod_eq_0)
  then have "x mod int q = y mod int q" by (simp only: mod_eq_dvd_iff)
  then show "x = y" using assms by simp
qed simp

lemma sub_borrow:
  assumes "length a = length b" "mpn_sub_n N a b = (r, c)"
  shows "c \<noteq> 0 \<longleftrightarrow> limbs_val a < limbs_val b"
proof -
  from mpn.sub_n [OF assms] have r: "length r = length a" "limbs_val r + limbs_val b = limbs_val a + (2 ^ 32) ^ length a * unat c"
    by simp_all
  show ?thesis
  proof
    assume "c \<noteq> 0"
    then have "1 \<le> unat c" using unat_gt_0 [of c] by simp
    then have "(2 ^ 32) ^ length a * 1 \<le> (2 ^ 32) ^ length a * unat c" by (rule mult_le_mono2)
    then show "limbs_val a < limbs_val b" using r limbs_val_less [of r, unfolded r(1)] by linarith
  qed (use r in auto)
qed

lemma faster_sub_repr:
  assumes a: "faster_rep p a x" and b: "faster_rep p b y"
  shows "faster_rep p (faster_sub N p c a b) ((x - y) mod int q)"
proof (cases "fe_flag a = 0 \<or> fe_flag b = 0")
  case True
  then show ?thesis using faster_rep_0 [OF a] faster_rep_0 [OF b] faster_set_repr [OF a] faster_neg_repr [OF b, of c]
    by (auto simp: faster_sub_def faster_mod [OF a])
next
  case False
  then have ab: "fast_repr (fe_d a) x" "fast_repr (fe_d b) y" using faster_rep_2 [OF a] faster_rep_2 [OF b] by simp_all
  obtain d k where sub: "mpn_sub_n N (fe_d a) (fe_d b) = (d, k)" by fastforce
  have len: "length (fe_d a) = length (fe_d b)" using ab by (simp add: fast_repr_def)
  have cmp: "mpn_cmp N (fe_d a) (fe_d b) = 0 \<longleftrightarrow> x = y" "mpn_cmp N (fe_d a) (fe_d b) < 0 \<longleftrightarrow> k \<noteq> 0"
    using mpn.cmp_0 [OF len] mpn.cmp_ge [OF len] sub_borrow [OF len sub] ab by (auto simp: fast_repr_def not_le [symmetric])
  have "faster_sub N p c a b =
      (if x = y then c\<lparr> fe_flag := 0 \<rparr> else \<lparr> fe_flag = 2, fe_d = fast_sub N p (fe_d a) (fe_d b) \<rparr>)"
    using False by (simp add: faster_sub_def fast_sub_def sub cmp)
  then show ?thesis using fast_sub_repr [OF ab] difference_zero [of x y] ab by (auto simp: faster_rep_def fast_repr_def)
qed

section \<open>Products\<close>

lemma faster_mul_repr:
  assumes a: "faster_rep p a x" and b: "faster_rep p b y" and z: "x * y mod int q = 0 \<Longrightarrow> x = 0 \<or> y = 0"
  shows "faster_rep p (faster_mul D p c a b) ((x * y) mod int q)"
proof (cases "fe_flag a = 0 \<or> fe_flag b = 0")
  case True
  then show ?thesis using faster_rep_0 [OF a] faster_rep_0 [OF b] by (auto simp: faster_mul_def)
next
  case False
  then have "fast_repr (fe_d a) x" "fast_repr (fe_d b) y" "x \<noteq> 0" "y \<noteq> 0"
    using faster_rep_2 [OF a] faster_rep_2 [OF b] by simp_all
  then show ?thesis using False z fast_mul_repr [of "fe_d a" x "fe_d b" y]
    by (auto simp: faster_mul_def fast_mul_def Let_def)
qed

lemma faster_square_repr:
  assumes a: "faster_rep p a x" and z: "x * x mod int q = 0 \<Longrightarrow> x = 0"
  shows "faster_rep p (faster_square G N p c a) ((x * x) mod int q)"
proof (cases "fe_flag a = 0")
  case True
  then show ?thesis using faster_rep_0 [OF a] by (auto simp: faster_square_def)
next
  case False
  then have "fast_repr (fe_d a) x" "x \<noteq> 0" using faster_rep_2 [OF a] by simp_all
  then show ?thesis using False z fast_square_repr [of "fe_d a" x]
    by (auto simp: faster_square_def fast_square_def faster_from_mpz_fast Let_def)
qed

lemma faster_mul_si_repr:
  assumes a: "faster_rep p a x" and op: "\<bar>op\<bar> < 2 ^ 32" and z: "x * op mod int q = 0 \<Longrightarrow> x = 0 \<or> op = 0"
  shows "faster_rep p (faster_mul_si N D p c a op) ((x * op) mod int q)"
proof (cases "fe_flag a = 0 \<or> op = 0")
  case True
  then show ?thesis using faster_rep_0 [OF a] by (auto simp: faster_mul_si_def)
next
  case False
  then have ax: "fast_repr (fe_d a) x" "x \<noteq> 0" using faster_rep_2 [OF a] by simp_all
  obtain d k where mul: "mpn_mul_1 N (fe_d a) (word_of_int \<bar>op\<bar>) = (d, k)" by fastforce
  let ?e = "mpn_tdiv_r D (d @ [k]) (ff_prime p)"
  have abs: "\<bar>\<bar>op\<bar>\<bar> < 2 ^ 32" using op by simp
  from fast_mul_si_repr [OF ax(1) this] have e: "fast_repr ?e (x * \<bar>op\<bar> mod int q)"
    by (simp only: fast_mul_si_def abs_abs mul prod.case Let_def abs_not_less_zero if_False)
  have nz: "x * \<bar>op\<bar> mod int q \<noteq> 0"
    using z False ax(2) by (cases "op < 0") (auto simp: abs_if mod_eq_0_iff_dvd)
  show ?thesis
  proof (cases "op < 0")
    case True
    have "(- ((x * \<bar>op\<bar>) mod int q)) mod int q = (x * op) mod int q" using True by (simp add: mod_minus_eq)
    moreover have "faster_rep p \<lparr> fe_flag = 2, fe_d = ?e \<rparr> (x * \<bar>op\<bar> mod int q)" using e nz by simp
    moreover have "faster_mul_si N D p c a op = faster_neg N p \<lparr> fe_flag = 2, fe_d = ?e \<rparr> \<lparr> fe_flag = 2, fe_d = ?e \<rparr>"
      using False True by (simp only: faster_mul_si_def mul prod.case Let_def if_True if_False)
    ultimately show ?thesis using faster_neg_repr by metis
  next
    case op': False
    then have "\<bar>op\<bar> = op" by simp
    moreover have "faster_mul_si N D p c a op = \<lparr> fe_flag = 2, fe_d = ?e \<rparr>"
      using False op' by (simp only: faster_mul_si_def mul prod.case Let_def if_False)
    ultimately show ?thesis using e nz by (simp add: faster_rep_two)
  qed
qed

lemma faster_to_mpz_repr: "faster_rep p a x \<Longrightarrow> faster_to_mpz N a = x"
  using to_mpz_repr [of "fe_d a" x] by (simp add: faster_to_mpz_def fast_to_mpz_def faster_rep_def split: if_splits)

lemma faster_pow_repr:
  assumes a: "faster_rep p a x" and n: "0 \<le> n" and z: "x ^ nat n mod int q = 0 \<Longrightarrow> x = 0" "x = 0 \<Longrightarrow> 0 < n"
  shows "faster_rep p (faster_pow_mpz G N p c a n) (x ^ nat n mod int q)"
proof (cases "fe_flag a = 0")
  case True
  then show ?thesis using faster_rep_0 [OF a] z(2) by (simp add: faster_pow_mpz_def zero_power)
next
  case False
  then have "fast_repr (fe_d a) x" "x \<noteq> 0" using faster_rep_2 [OF a] by simp_all
  then show ?thesis using False z fast_pow_repr [of "fe_d a" x n] n
    by (auto simp: faster_pow_mpz_def fast_pow_mpz_def faster_to_mpz_def fast_to_mpz_def faster_from_mpz_fast Let_def
       )
qed

lemma faster_invert_repr:
  assumes a: "faster_rep p a x" and c: "coprime x (int q)"
  shows "faster_rep p (faster_invert G N p a) (zp_invert G (int q) x)"
proof -
  have "x \<noteq> 0" using c q_pos by auto
  then have f: "fe_flag a = 2" and a: "fast_repr (fe_d a) x" using a by (auto simp: faster_rep_def split: if_splits)
  have "zp_invert G (int q) x \<noteq> 0"
  proof
    assume "zp_invert G (int q) x = 0"
    moreover have "x * mpz_invert G x (int q) mod int q = 1" using gmp.invert [of "int q" x] c q_pos by (simp add: mult.commute)
    ultimately show False by (simp add: zp_invert_def)
  qed
  then show ?thesis using fast_invert_repr [OF a c] f
    by (simp add: faster_invert_def fast_invert_def faster_to_mpz_def fast_to_mpz_def faster_from_mpz_fast Let_def
        faster_rep_two)
qed

section \<open>Halves, constants and tests\<close>

lemma faster_halve_repr:
  assumes a: "faster_rep p a x" and odd: "odd q" and c: "fe_flag c = 2 \<or> even x"
  shows "faster_rep p (faster_halve N p c a) (zp_halve G (int q) x)"
proof (cases "fe_flag a = 0")
  case True
  then have "x = 0" by (rule faster_rep_0 [OF a])
  moreover have "zp_halve G (int q) 0 = 0" by (simp add: zp_halve_def gmp.odd_p gmp.tdiv_q_2exp_nonneg)
  ultimately show ?thesis using True by (simp add: faster_halve_def faster_rep_zero)
next
  case False
  then have a: "fast_repr (fe_d a) x" "x \<noteq> 0" using faster_rep_2 [OF a] by simp_all
  have x: "0 \<le> x" "x < int q" "length (fe_d a) = t" "limbs_val (fe_d a) = nat x" using a by (simp_all add: fast_repr_def)
  have "fe_d a \<noteq> []" using x t_pos by auto
  then have bit: "fe_d a ! 0 AND 1 \<noteq> 0 \<longleftrightarrow> odd x" using odd_limbs x by (simp add: even_nat_iff)
  have "zp_halve G (int q) x \<noteq> 0"
  proof
    assume "zp_halve G (int q) x = 0"
    moreover have "(zp_halve G (int q) x + zp_halve G (int q) x) mod int q = x"
      using zp_halve_ok [OF gmp.gmp_laws_axioms x(1,2)] odd by simp
    ultimately show False using a(2) by simp
  qed
  moreover have "faster_halve N p c a = \<lparr> fe_flag = 2, fe_d = fast_halve N p (fe_d a) \<rparr>"
    using False c bit by (auto simp: faster_halve_def fast_halve_def faster_set_def fast_set_def Let_def split: prod.splits)
  ultimately show ?thesis using fast_halve_repr [OF a(1) odd] by (simp add: faster_rep_two)
qed

lemma faster_set_si_repr:
  assumes i: "\<bar>i\<bar> < 2 ^ 32"
  shows "faster_rep p (faster_set_si D p e i) (i mod int q)"
proof (cases "i = 0")
  case False
  have "\<bar>i\<bar> < int q" using i big by simp
  then have "i mod int q \<noteq> 0" using False zdvd_imp_le [of "int q" "\<bar>i\<bar>"] by (auto simp: mod_eq_0_iff_dvd)
  then show ?thesis using False fast_set_si_repr [OF i]
    by (simp only: faster_set_si_def fast_set_si_def Let_def if_False faster_rep_two simp_thms)
qed (simp add: faster_set_si_def faster_rep_zero)

lemma faster_set_mpz_repr:
  assumes "m = 0 \<or> \<not> int q dvd m"
  shows "faster_rep p (faster_set_mpz G N p e m) (m mod int q)"
  using assms fast_set_mpz_repr [of m] gmp.sgn [of m] sgn_0_0 [of m]
  by (auto simp: faster_set_mpz_def fast_set_mpz_def faster_from_mpz_fast Let_def mod_eq_0_iff_dvd faster_rep_zero
     )

lemma faster_tests_ok:
  assumes a: "faster_rep p a x" and b: "faster_rep p b y"
  shows "faster_is0 a = zp_is0 G x" and "faster_is1 a = zp_is1 G x"
    and "x = 0 \<or> y \<noteq> 0 \<Longrightarrow> faster_cmp N a b = 0 \<longleftrightarrow> zp_cmp G x y = 0"
    and "faster_sgn_odd a = zp_sgn_odd G x" and "faster_is_sqr G N p a = zp_is_sqr G (int q) x"
proof -
  have "fast_repr (fe_d a) x" if "fe_flag a \<noteq> 0" using that faster_rep_2 [OF a] by simp
  note nz = fast_tests_ok [OF this this] this to_mpz_repr [OF this]
  show "faster_is0 a = zp_is0 G x" using a by (simp add: faster_is0_def zp_is0_def gmp.is0 faster_rep_def split: if_splits)
  show "faster_is1 a = zp_is1 G x"
  proof (cases "fe_flag a = 0")
    case True
    then show ?thesis using faster_rep_0 [OF a] by (simp add: faster_is1_def zp_is1_def gmp.cmp_eq)
  next
    case False
    then show ?thesis using nz(2) by (simp add: faster_is1_def fast_is1_def)
  qed
  show "faster_cmp N a b = 0 \<longleftrightarrow> zp_cmp G x y = 0" if "x = 0 \<or> y \<noteq> 0"
  proof (cases "fe_flag a = 0")
    case True
    then show ?thesis using a b by (auto simp: faster_cmp_def zp_cmp_def gmp.cmp_eq faster_rep_def split: if_splits)
  next
    case False
    then have "fast_repr (fe_d a) x" "fast_repr (fe_d b) y"
      using a b that by (auto simp: faster_rep_def split: if_splits)
    from fast_tests_ok(3) [OF this] False show ?thesis by (simp add: faster_cmp_def fast_cmp_def)
  qed
  show "faster_sgn_odd a = zp_sgn_odd G x"
  proof (cases "fe_flag a = 0")
    case True
    then show ?thesis using faster_rep_0 [OF a] by (simp add: faster_sgn_odd_def zp_sgn_odd_def gmp.is0)
  next
    case False
    then have "x \<noteq> 0" using faster_rep_2 [OF a] by simp_all
    then show ?thesis using False nz(4) is0_repr [OF nz(6)] by (simp add: faster_sgn_odd_def fast_sgn_odd_def)
  qed
  show "faster_is_sqr G N p a = zp_is_sqr G (int q) x"
    using a faster_to_mpz_repr [OF a] order by (auto simp: faster_is_sqr_def zp_is_sqr_def gmp.is0 faster_rep_def split: if_splits)
qed

end

end
