(* ===== verification/FastProps.thy ===== *)
theory FastProps
  imports FasterRefine
begin

text \<open>
  What \<^verbatim>\<open>arith/fastfp.c\<close> and \<^verbatim>\<open>arith/fasterfp.c\<close> promise: their tables do on limbs
  what the table of \<^verbatim>\<open>arith/naivefp.c\<close> does on GMP integers.
\<close>

text \<open>
  C21: The field on limbs refines the field on GMP integers, and its initialisation fails exactly
  for the moduli of one limb. For a modulus of more, the arithmetic, setters, tests, comparison and
  conversion to an integer of the table of \<open>field_init_fast_fp\<close> on elements that stand for \<open>x\<close> and
  \<open>y\<close> give what the table of \<open>field_init_naive_fp\<close> gives on \<open>x\<close> and \<open>y\<close>, whatever the destination
  held before; the inverse needs that \<open>x\<close> has one, the half and the sign need an odd modulus, and
  the small numbers of \<open>set_si\<close> and \<open>mul_si\<close> fit in a limb. Random and hashed elements, square
  roots, text and bytes are not part of the statement.
\<close>

theorem fast_refines_naive:
  assumes "mpn_laws N" "mpn_div_laws D" "gmp_laws G" "0 < p"
  defines "P \<equiv> fast_init_data N p" and "Z \<equiv> field_init_naive_fp G p"
  assumes a: "fast_rep P a x" and b: "fast_rep P b y" and n: "0 \<le> n" and k: "\<bar>k\<bar> < 2 ^ 32"
  shows "case field_init_fast_fp G N D p of None \<Rightarrow> p < 2 ^ 32 | Some F \<Rightarrow> 2 ^ 32 \<le> p \<and>
    fast_rep P (element_add F c a b) (element_add Z z x y) \<and>
    fast_rep P (element_sub F c a b) (element_sub Z z x y) \<and>
    fast_rep P (element_neg F c a) (element_neg Z z x) \<and>
    fast_rep P (element_double F c a) (element_double Z z x) \<and>
    (odd p \<longrightarrow> fast_rep P (element_halve F c a) (element_halve Z z x)) \<and>
    fast_rep P (element_mul F c a b) (element_mul Z z x y) \<and>
    fast_rep P (element_mul_si F c a k) (element_mul_si Z z x k) \<and>
    fast_rep P (element_square F c a) (element_square Z z x) \<and>
    (coprime x p \<longrightarrow> fast_rep P (element_invert F c a) (element_invert Z z x)) \<and>
    fast_rep P (element_pow_mpz G F c a n) (element_pow_mpz G Z z x n) \<and>
    fast_rep P (element_set_si F c k) (element_set_si Z z k) \<and>
    fast_rep P (element_set_mpz F c m) (element_set_mpz Z z m) \<and>
    (element_cmp F a b = 0 \<longleftrightarrow> element_cmp Z x y = 0) \<and>
    element_to_mpz F a = element_to_mpz Z x \<and> element_is0 F a = element_is0 Z x \<and>
    element_is1 F a = element_is1 Z x \<and>
    (odd p \<longrightarrow> element_sign F a = element_sign Z x) \<and> element_is_sqr F a = element_is_sqr Z x"
proof (cases "2 ^ 32 \<le> p")
  case False
  then show ?thesis using assms(4) by (simp add: field_init_fast_fp_def gmp_laws.fits_ulong_p [OF assms(3)])
next
  case True
  have env: "fast_env N D G P (nat p)" unfolding P_def by (rule fast_env_init [OF assms(1-3) True])
  note steps = fast_env.fast_add_repr [OF env a b] fast_env.fast_sub_repr [OF env a b] fast_env.fast_neg_repr [OF env a]
    fast_env.fast_double_repr [OF env a] fast_env.fast_halve_repr [OF env a] fast_env.fast_mul_repr [OF env a b]
    fast_env.fast_mul_si_repr [OF env a k] fast_env.fast_square_repr [OF env a] fast_env.fast_invert_repr [OF env a]
    fast_env.fast_pow_repr [OF env a n] fast_env.fast_set_si_repr [OF env k] fast_env.fast_set_mpz_repr [OF env, of m]
  note tests = fast_env.fast_tests_ok [OF env a b] fast_env.to_mpz_repr [OF env a]
  have pq: "int (nat p) = p" "odd (nat p) \<longleftrightarrow> odd p" using True by (simp_all add: even_nat_iff)
  have xy: "0 \<le> x" "x < p" "0 \<le> y" "y < p" using a b by (simp_all add: fast_rep_def P_def fast_init_data_def Let_def)
  note zp = zp_add_mod [OF assms(3) xy] zp_sub_mod [OF assms(3) xy] zp_neg_mod [OF assms(3) xy(1,2)]
    zp_double_mod [OF assms(3) xy(1,2)]
  note G = gmp_laws.mul [OF assms(3)] gmp_laws.mod [OF assms(3)] gmp_laws.powm [OF assms(3)]
    gmp_laws.odd_p [OF assms(3)] gmp_laws.fits_ulong_p [OF assms(3)]
  show ?thesis
    using steps tests True pq n
    by (simp add: field_init_fast_fp_def fast_base_def field_init_naive_fp_def naive_fp_base_def dispatch P_def [symmetric]
        Z_def element_pow_mpz_def zp G zp_to_mpz_def zp_mul_def zp_mul_si_def zp_square_def zp_pow_mpz_def zp_set_si_def
        zp_set_mpz_def power2_eq_square Let_def)
qed

lemma fast_refines_naive_witness:
  "fast_rep (fast_init_data mpn_ref 4294967311)
     (element_sub (the (field_init_fast_fp gmp_ref mpn_ref mpn_div_ref 4294967311)) [7, 7] [1, 0] [3, 1])
     (element_sub (field_init_naive_fp gmp_ref 4294967311) 0 1 4294967299)"
proof -
  let ?P = "fast_init_data mpn_ref 4294967311"
  have "limbs_ref 4294967311 = [15, 1]" by (simp add: limbs_ref.simps)
  then have P: "ff_limbs ?P = 2" "ff_order ?P = 4294967311" by (simp_all add: fast_init_data_def mpn_ref_def Let_def)
  have rep: "fast_rep ?P [1, 0] 1" "fast_rep ?P [3, 1] 4294967299" by (simp_all add: fast_rep_def P)
  from fast_refines_naive [OF mpn_ref.mpn_laws_axioms mpn_div_ref.mpn_div_laws_axioms gmp_ref.gmp_laws_axioms _ rep,
      of 0 0 "[7, 7]" 0 0]
  show ?thesis by (simp split: option.splits)
qed

lemma faster_table:
  fixes N :: mpn
  assumes G: "gmp_laws G" and p: "2 ^ 32 \<le> p"
  defines "P \<equiv> faster_init_data N p"
  shows "\<exists>F. field_init_faster_fp G N D junk p = Some F \<and>
    element_add F c a b = faster_add N P c a b \<and> element_sub F c a b = faster_sub N P c a b \<and>
    element_neg F c a = faster_neg N P c a \<and> element_double F c a = faster_double N P c a \<and>
    element_halve F c a = faster_halve N P c a \<and> element_mul F c a b = faster_mul D P c a b \<and>
    element_mul_si F c a k = faster_mul_si N D P c a k \<and> element_square F c a = faster_square G N P c a \<and>
    element_invert F c a = faster_invert G N P a \<and> element_pow_mpz G F c a n = faster_pow_mpz G N P c a n \<and>
    element_set_si F c k = faster_set_si D P c k \<and> element_set_mpz F c m = faster_set_mpz G N P c m \<and>
    element_cmp F a b = faster_cmp N a b \<and> element_to_mpz F a = faster_to_mpz N a \<and> element_is0 F a = faster_is0 a \<and>
    element_is1 F a = faster_is1 a \<and> (odd p \<longrightarrow> element_sign F a = faster_sgn_odd a) \<and>
    element_is_sqr F a = faster_is_sqr G N P a"
  using p unfolding P_def
  by (simp add: field_init_faster_fp_def faster_base_def dispatch element_pow_mpz_def
      gmp_laws.fits_ulong_p [OF G] gmp_laws.odd_p [OF G] Let_def)

text \<open>
  C22: The field with a flag for zero refines the field on GMP integers, for every modulus of more
  than one limb; its initialisation fails for the others. The arithmetic, the setters, the tests,
  the comparison and the conversion to an integer are compared; random and hashed elements, square
  roots, text and bytes are not part of the statement. A product, square or power is right
  unless it is zero without zero factors, the power needs a positive exponent for \<open>x = 0\<close>, the
  inverse an invertible \<open>x\<close>, \<open>set_mpz\<close> an argument that is not a nonzero multiple of the modulus.
  The half and the sign need an odd modulus, the half of an odd residue also a destination that is
  not flagged as zero, the small numbers of \<open>set_si\<close> and \<open>mul_si\<close> fit in a limb,
  and the comparison is right unless its second argument alone is zero.
\<close>

theorem faster_refines_naive:
  assumes "mpn_laws N" "mpn_div_laws D" "gmp_laws G" "0 < p"
  defines "P \<equiv> faster_init_data N p" and "Z \<equiv> field_init_naive_fp G p"
  assumes a: "faster_rep P a x" and b: "faster_rep P b y" and n: "0 \<le> n" and k: "\<bar>k\<bar> < 2 ^ 32"
  shows "case field_init_faster_fp G N D junk p of None \<Rightarrow> p < 2 ^ 32 | Some F \<Rightarrow> 2 ^ 32 \<le> p \<and>
    faster_rep P (element_add F c a b) (element_add Z z x y) \<and>
    faster_rep P (element_sub F c a b) (element_sub Z z x y) \<and>
    faster_rep P (element_neg F c a) (element_neg Z z x) \<and>
    faster_rep P (element_double F c a) (element_double Z z x) \<and>
    (odd p \<and> (fe_flag c = 2 \<or> even x) \<longrightarrow> faster_rep P (element_halve F c a) (element_halve Z z x)) \<and>
    (x = 0 \<or> y = 0 \<or> \<not> p dvd x * y \<longrightarrow> faster_rep P (element_mul F c a b) (element_mul Z z x y)) \<and>
    (x = 0 \<or> k = 0 \<or> \<not> p dvd x * k \<longrightarrow> faster_rep P (element_mul_si F c a k) (element_mul_si Z z x k)) \<and>
    (x = 0 \<or> \<not> p dvd x * x \<longrightarrow> faster_rep P (element_square F c a) (element_square Z z x)) \<and>
    (coprime x p \<longrightarrow> faster_rep P (element_invert F c a) (element_invert Z z x)) \<and>
    (x = 0 \<and> 0 < n \<or> \<not> p dvd x ^ nat n \<and> x \<noteq> 0 \<longrightarrow>
      faster_rep P (element_pow_mpz G F c a n) (element_pow_mpz G Z z x n)) \<and>
    faster_rep P (element_set_si F c k) (element_set_si Z z k) \<and>
    (m = 0 \<or> \<not> p dvd m \<longrightarrow> faster_rep P (element_set_mpz F c m) (element_set_mpz Z z m)) \<and>
    (x = 0 \<or> y \<noteq> 0 \<longrightarrow> (element_cmp F a b = 0 \<longleftrightarrow> element_cmp Z x y = 0)) \<and>
    element_to_mpz F a = element_to_mpz Z x \<and> element_is0 F a = element_is0 Z x \<and>
    element_is1 F a = element_is1 Z x \<and>
    (odd p \<longrightarrow> element_sign F a = element_sign Z x) \<and> element_is_sqr F a = element_is_sqr Z x"
proof (cases "2 ^ 32 \<le> p")
  case False
  then show ?thesis using assms(4) by (simp add: field_init_faster_fp_def gmp_laws.fits_ulong_p [OF assms(3)])
next
  case True
  have same: "faster_init_data N p = fast_init_data N p" by (simp add: faster_init_data_def fast_init_data_def)
  have env: "fast_env N D G P (nat p)" unfolding P_def same by (rule fast_env_init [OF assms(1-3) True])
  have pq: "int (nat p) = p" "odd (nat p) \<longleftrightarrow> odd p" and p: "1 < p" using True by (simp_all add: even_nat_iff)
  have xy: "0 \<le> x" "x < p" "0 \<le> y" "y < p"
    using a b True by (auto simp: faster_rep_def fast_rep_def P_def faster_init_data_def Let_def split: if_splits)
  obtain F where F: "field_init_faster_fp G N D junk p = Some F" and eqF:
    "element_add F c a b = faster_add N P c a b" "element_sub F c a b = faster_sub N P c a b"
    "element_neg F c a = faster_neg N P c a" "element_double F c a = faster_double N P c a"
    "element_halve F c a = faster_halve N P c a" "element_mul F c a b = faster_mul D P c a b"
    "element_mul_si F c a k = faster_mul_si N D P c a k" "element_square F c a = faster_square G N P c a"
    "element_invert F c a = faster_invert G N P a" "element_pow_mpz G F c a n = faster_pow_mpz G N P c a n"
    "element_set_si F c k = faster_set_si D P c k" "element_set_mpz F c m = faster_set_mpz G N P c m"
    "element_cmp F a b = faster_cmp N a b" "element_to_mpz F a = faster_to_mpz N a" "element_is0 F a = faster_is0 a"
    "element_is1 F a = faster_is1 a" "odd p \<longrightarrow> element_sign F a = faster_sgn_odd a"
    "element_is_sqr F a = faster_is_sqr G N P a"
    using faster_table [OF assms(3) True, of N D junk c a b k n m, folded P_def] by blast
  note eqZ = naive_table [OF assms(3) p, folded Z_def] naive_table_sums [OF assms(3) xy, folded Z_def]
  have pow: "zp_pow_mpz G p x n = x ^ nat n mod p" using p n by (simp add: zp_pow_mpz_def gmp_laws.powm [OF assms(3)])
  note steps = fast_env.faster_add_repr [OF env a b] fast_env.faster_sub_repr [OF env a b] fast_env.faster_neg_repr [OF env a]
    fast_env.faster_double_repr [OF env a] fast_env.faster_halve_repr [OF env a, of c] fast_env.faster_set_si_repr [OF env k]
    fast_env.faster_set_mpz_repr [OF env, of m] fast_env.faster_invert_repr [OF env a]
  note prods = fast_env.faster_mul_repr [OF env a b] fast_env.faster_mul_si_repr [OF env a k]
    fast_env.faster_square_repr [OF env a] fast_env.faster_pow_repr [OF env a n]
  have products: "x = 0 \<or> y = 0 \<or> \<not> p dvd x * y \<longrightarrow> faster_rep P (faster_mul D P c a b) (x * y mod p)"
    "x = 0 \<or> k = 0 \<or> \<not> p dvd x * k \<longrightarrow> faster_rep P (faster_mul_si N D P c a k) (x * k mod p)"
    "x = 0 \<or> \<not> p dvd x * x \<longrightarrow> faster_rep P (faster_square G N P c a) (x * x mod p)"
    "x = 0 \<and> 0 < n \<or> \<not> p dvd x ^ nat n \<and> x \<noteq> 0 \<longrightarrow> faster_rep P (faster_pow_mpz G N P c a n) (x ^ nat n mod p)"
    using prods [unfolded pq, folded dvd_eq_mod_eq_0] by blast+
  note tests = fast_env.faster_tests_ok [OF env a b] fast_env.faster_to_mpz_repr [OF env a]
  show ?thesis unfolding F option.case
    using True steps [unfolded pq] products tests [unfolded pq] eqF(17)
    by (simp add: eqF eqZ pow del: mult_eq_0_iff)
qed

lemma faster_refines_naive_witness:
  "faster_rep (faster_init_data mpn_ref 4294967311)
     (element_add (the (field_init_faster_fp gmp_ref mpn_ref mpn_div_ref [0, 0] 4294967311)) \<lparr> fe_flag = 0, fe_d = [9, 9] \<rparr>
       \<lparr> fe_flag = 2, fe_d = [12, 0] \<rparr> \<lparr> fe_flag = 2, fe_d = [3, 1] \<rparr>)
     (element_add (field_init_naive_fp gmp_ref 4294967311) 0 12 4294967299)"
proof -
  let ?P = "faster_init_data mpn_ref 4294967311"
  have "limbs_ref 4294967311 = [15, 1]" by (simp add: limbs_ref.simps)
  then have P: "ff_limbs ?P = 2" "ff_order ?P = 4294967311" by (simp_all add: faster_init_data_def mpn_ref_def Let_def)
  have rep: "faster_rep ?P \<lparr> fe_flag = 2, fe_d = [12, 0] \<rparr> 12" "faster_rep ?P \<lparr> fe_flag = 2, fe_d = [3, 1] \<rparr> 4294967299"
    by (simp_all add: fast_rep_def P)
  from faster_refines_naive [OF mpn_ref.mpn_laws_axioms mpn_div_ref.mpn_div_laws_axioms gmp_ref.gmp_laws_axioms _ rep,
      of 0 0 "\<lparr> fe_flag = 0, fe_d = [9, 9] \<rparr>" 0 0 "[0, 0]"]
  show ?thesis by (simp split: option.splits)
qed

text \<open>
  C23: The condition on products is needed, and \<open>field_init_fp\<close> chooses this field for even moduli,
  where it fails: for every modulus of more than one limb, a product of nonzero residues that
  the modulus divides has the limbs of zero and the flag of a nonzero element, so that
  \<open>element_to_mpz\<close> gives 0, while \<open>element_is0\<close> and the comparison of a zero with it deny that it
  is zero. The same holds for an element that is set to a nonzero multiple of the modulus.
\<close>

theorem faster_zero_products:
  fixes junk :: "limb list"
  assumes "mpn_laws N" "mpn_div_laws D" "gmp_laws G" "2 ^ 32 \<le> p"
  defines "P \<equiv> faster_init_data N p" and "F \<equiv> faster_base G N D junk p"
  assumes a: "faster_rep P a x" and b: "faster_rep P b y" and xy: "x \<noteq> 0" "y \<noteq> 0" "p dvd x * y"
    and m: "m \<noteq> 0" "p dvd m" and zero: "fe_flag zero = 0"
    and e: "e \<in> {element_mul F c a b, element_set_mpz F c m}"
  shows "element_to_mpz F e = 0 \<and> element_is0 F e = 0 \<and> element_cmp F zero e \<noteq> 0"
proof -
  have same: "faster_init_data N p = fast_init_data N p" by (simp add: faster_init_data_def fast_init_data_def)
  have env: "fast_env N D G P (nat p)" unfolding P_def same by (rule fast_env_init [OF assms(1-4)])
  have pq: "int (nat p) = p" using assms(4) by simp
  have F: "element_mul F c a b = faster_mul D P c a b" "element_set_mpz F c m = faster_set_mpz G N P c m"
    "element_to_mpz F e = faster_to_mpz N e" "element_is0 F e = faster_is0 e" "element_cmp F zero e = faster_cmp N zero e"
    by (simp_all add: F_def P_def faster_base_def dispatch Let_def)
  have flags: "fe_flag a = 2" "fe_flag b = 2" "fast_rep P (fe_d a) x" "fast_rep P (fe_d b) y"
    using a b xy by (auto simp: faster_rep_def split: if_splits)
  have "fe_flag e = 2 \<and> fast_rep P (fe_d e) 0"
  proof (cases "e = element_mul F c a b")
    case True
    have "x * y mod p = 0" using xy(3) by simp
    with fast_env.fast_mul_repr [OF env flags(3,4), unfolded pq] have "fast_rep P (fast_mul D P (fe_d a) (fe_d b)) 0"
      by (simp only:)
    then show ?thesis unfolding True F(1) using flags(1,2) by (simp add: faster_mul_def fast_mul_def Let_def)
  next
    case False
    then have "e = faster_set_mpz G N P c m" using e F(2) by simp
    moreover have "m mod p = 0" using m(2) by simp
    with fast_env.fast_set_mpz_repr [OF env, of m, unfolded pq] have "fast_rep P (fast_set_mpz G N P m) 0" by (simp only:)
    ultimately show ?thesis using m(1) gmp_laws.sgn [OF assms(3), of m] sgn_0_0 [of m]
      by (simp add: faster_set_mpz_def fast_set_mpz_def faster_from_mpz_fast Let_def)
  qed
  then show ?thesis unfolding F(3-5)
    using fast_env.to_mpz_repr [OF env, of "fe_d e" 0] zero
    by (simp add: faster_to_mpz_def fast_to_mpz_def faster_is0_def faster_cmp_def)
qed

lemma faster_zero_products_witness:
  "let F = faster_base gmp_ref mpn_ref mpn_div_ref [1, 1] (2 ^ 33); zero = \<lparr> fe_flag = 0, fe_d = [1, 1] \<rparr>;
       e = element_mul F zero \<lparr> fe_flag = 2, fe_d = [131072, 0] \<rparr> \<lparr> fe_flag = 2, fe_d = [65536, 0] \<rparr>
   in element_to_mpz F e = 0 \<and> element_is0 F e = 0 \<and> element_cmp F zero e \<noteq> 0"
proof -
  have "limbs_ref 8589934592 = [0, 2]" by (simp add: limbs_ref.simps)
  then have P: "ff_limbs (faster_init_data mpn_ref (2 ^ 33)) = 2" "ff_order (faster_init_data mpn_ref (2 ^ 33)) = 2 ^ 33"
    by (simp_all add: faster_init_data_def mpn_ref_def Let_def)
  have rep: "faster_rep (faster_init_data mpn_ref (2 ^ 33)) \<lparr> fe_flag = 2, fe_d = [131072, 0] \<rparr> (2 ^ 17)"
    "faster_rep (faster_init_data mpn_ref (2 ^ 33)) \<lparr> fe_flag = 2, fe_d = [65536, 0] \<rparr> (2 ^ 16)"
    using P by (simp_all add: fast_rep_def)
  have "(2 :: int) ^ 33 dvd 2 ^ 17 * 2 ^ 16" by simp
  from faster_zero_products [OF mpn_ref.mpn_laws_axioms mpn_div_ref.mpn_div_laws_axioms gmp_ref.gmp_laws_axioms _ rep _ _ this,
      of "2 ^ 33" "\<lparr> fe_flag = 0, fe_d = [1, 1] \<rparr>" _ "[1, 1]" "\<lparr> fe_flag = 0, fe_d = [1, 1] \<rparr>"]
  show ?thesis by (simp add: Let_def)
qed

end
