(* ===== verification/PbcRandom.thy ===== *)
theory PbcRandom
  imports Gmp
begin

text \<open>
  Random numbers, \<^verbatim>\<open>arith/random.c\<close>: numbers of OpenSSL are drawn and copied bit by bit into
  numbers of GMP. The two other generators of the file are kept in a variable that
  \<open>pbc_mpz_random\<close> does not read.
\<close>

section \<open>Numbers of OpenSSL\<close>





section \<open>Conversions\<close>





section \<open>The generators\<close>








text \<open>The generator of GMP: its initial state and \<open>mpz_urandomm\<close>.\<close>

record 's gmp_rand =
  gmp_randinit :: 's
  mpz_urandomm :: "'s \<Rightarrow> int \<Rightarrow> int \<times> 's"

text \<open>The static variable is \<open>None\<close> until the first call.\<close>

definition deterministic_mpz_random :: "'s gmp_rand \<Rightarrow> 's option \<Rightarrow> int \<Rightarrow> int \<times> 's option" where
  "deterministic_mpz_random U rs limit = (
     let s = (case rs of None \<Rightarrow> gmp_randinit U | Some s \<Rightarrow> s);
         (z, s) = mpz_urandomm U s limit
     in (z, Some s))"

text \<open>
  A file is the bytes it still has. \<open>fread\<close> overwrites as many bytes of the buffer as it gets, and
  its result is ignored, so that the buffer keeps the last block at the end of the file. A file
  that cannot be opened is \<open>None\<close>, and leaves the destination as it was.
\<close>

definition read_block :: "nat \<Rightarrow> nat \<Rightarrow> byte list \<Rightarrow> byte list \<Rightarrow> byte list" where
  "read_block bytecount leftover fp bytes = (
     let got = take bytecount fp;
         bytes = got @ drop (length got) bytes
     in if leftover \<noteq> 0 then bytes[0 := word_of_nat (unat (bytes ! 0) mod 2 ^ leftover)] else bytes)"

partial_function (option) file_loop ::
  "gmp \<Rightarrow> int \<Rightarrow> nat \<Rightarrow> nat \<Rightarrow> byte list \<Rightarrow> byte list \<Rightarrow> int option" where
  "file_loop G limit bytecount leftover fp bytes = (
     let bytes = read_block bytecount leftover fp bytes;
         z = mpz_import G bytes
     in if mpz_cmp G z limit < 0 then Some z
        else file_loop G limit bytecount leftover (drop bytecount fp) bytes)"

definition file_mpz_random :: "gmp \<Rightarrow> byte list option \<Rightarrow> byte list \<Rightarrow> int \<Rightarrow> int \<Rightarrow> int option" where
  "file_mpz_random G file junk r limit = (
     case file of
       None \<Rightarrow> Some r
     | Some fp \<Rightarrow>
         let n = mpz_sizeinbase G limit 2;
             bytecount = (n + 7) div 8;
             leftover = n mod 8
         in file_loop G limit bytecount leftover fp junk)"

section \<open>Correctness\<close>




section \<open>Blocks of a file\<close>

text \<open>The number that the \<open>k\<close>-th full block of a file stands for.\<close>

definition file_block :: "int \<Rightarrow> byte list \<Rightarrow> nat \<Rightarrow> nat" where
  "file_block limit fp k = (
     let n = nbits (nat limit); c = (n + 7) div 8
     in bytes_val (read_block c (n mod 8) (drop (k * c) fp) []))"

lemma read_block_full:
  "c \<le> length fp \<Longrightarrow> length bytes = c \<Longrightarrow> read_block c l fp bytes = read_block c l fp []"
  by (simp add: read_block_def Let_def)

lemma length_read_block [simp]: "length bytes = c \<Longrightarrow> length (read_block c l fp bytes) = c"
  by (simp add: read_block_def Let_def)

lemma read_block_again:
  assumes "l < 8" "0 < c" "length bytes = c"
  shows "read_block c l [] (read_block c l fp bytes) = read_block c l fp bytes"
proof -
  have "(2 :: nat) ^ l \<le> 2 ^ 8" using assms(1) by (intro power_increasing) simp_all
  then have "x mod 2 ^ l < 2 ^ 8" for x :: nat by (rule less_le_trans [OF mod_less_divisor, rotated]) simp
  then have "unat (word_of_nat (x mod 2 ^ l) :: byte) = x mod 2 ^ l" for x
    by (simp add: unat_of_nat)
  note mask = this
  define ys where "ys = take c fp @ drop (length (take c fp)) bytes"
  then have "ys \<noteq> []" using assms by auto
  then obtain y zs where y: "ys = y # zs" by (cases ys) auto
  have "read_block c l fp bytes = (if l \<noteq> 0 then word_of_nat (unat y mod 2 ^ l) # zs else y # zs)"
    unfolding read_block_def Let_def ys_def [symmetric] y by simp
  then show ?thesis by (simp add: read_block_def mask Let_def)
qed

lemma file_block_less:
  assumes "length fp = m * ((nbits (nat limit) + 7) div 8)" "k < m"
  shows "file_block limit fp k < 2 ^ nbits (nat limit)"
proof -
  define n where "n = nbits (nat limit)"
  define c where "c = (n + 7) div 8"
  define ys where "ys = take c (drop (k * c) fp)"
  have "Suc k * c \<le> m * c" using assms(2) by (intro mult_le_mono1) simp
  then have "Suc k * c \<le> length fp" using assms(1) by (simp add: c_def n_def)
  then have ys: "length ys = c" by (simp add: ys_def)
  have "0 < n" by (simp add: n_def)
  then have c: "0 < c" by (simp add: c_def div_greater_zero_iff)
  obtain y zs where y: "ys = y # zs" using ys c by (cases ys) auto
  have zs: "length zs = c - 1" using ys y by simp
  have cons: "bytes_val (x # zs) = unat x * 256 ^ (c - 1) + bytes_val zs" for x
    using bytes_val_append [of "[x]" zs] zs by (simp add: bytes_val_def)
  have rest: "bytes_val zs < 256 ^ (c - 1)" using bytes_val_lt [of zs] zs by simp
  have block: "file_block limit fp k = bytes_val (if n mod 8 \<noteq> 0 then word_of_nat (unat y mod 2 ^ (n mod 8)) # zs else y # zs)"
    using y by (simp add: file_block_def n_def [symmetric] c_def [symmetric] read_block_def ys_def [symmetric] Let_def)
  show ?thesis
  proof (cases "n mod 8 = 0")
    case True
    then obtain e where e: "n = 8 * e" by (auto simp: mod_eq_0_iff_dvd)
    have "c = e" unfolding c_def e by simp
    then have "n = 8 * c" using e by simp
    then have "(2 :: nat) ^ n = 256 ^ c" by (simp add: power_mult)
    moreover have "file_block limit fp k = bytes_val ys" using block True y by simp
    ultimately show ?thesis using bytes_val_lt [of ys] unfolding ys n_def by (simp only:)
  next
    case False
    have d: "n = 8 * (n div 8) + n mod 8" by simp
    then have "c = Suc (n div 8)" using False mod_less_divisor [of 8 n] unfolding c_def by linarith
    then have n: "n = 8 * (c - 1) + n mod 8" using d by simp
    define l where "l = n mod 8"
    have "(2 :: nat) ^ l \<le> 2 ^ 8" by (intro power_increasing) (simp_all add: l_def)
    then have "unat y mod 2 ^ l < 2 ^ 8" by (rule less_le_trans [OF mod_less_divisor, rotated]) simp
    then have "unat (word_of_nat (unat y mod 2 ^ l) :: byte) = unat y mod 2 ^ l" by (simp add: unat_of_nat)
    then have "file_block limit fp k = unat y mod 2 ^ l * 256 ^ (c - 1) + bytes_val zs"
      using False block by (simp add: l_def [symmetric] cons)
    also have "\<dots> < (unat y mod 2 ^ l + 1) * 256 ^ (c - 1)" using rest by simp
    also have "\<dots> \<le> 2 ^ l * 256 ^ (c - 1)" by (intro mult_le_mono1) (simp add: Suc_le_eq)
    also have "\<dots> = 2 ^ (8 * (c - 1) + l)" by (simp add: power_add power_mult)
    finally show ?thesis using n by (simp add: n_def l_def)
  qed
qed

text \<open>At the end of the file the buffer does not change any more.\<close>

lemma file_loop_end:
  assumes G: "gmp_laws G" and "l < 8" "0 < c" "length bytes = c" "read_block c l [] bytes = bytes"
    and "limit \<le> int (bytes_val bytes)"
  shows "file_loop G limit c l [] bytes = None"
proof (rule ccontr)
  assume "file_loop G limit c l [] bytes \<noteq> None"
  then obtain z where z: "file_loop G limit c l [] bytes = Some z" by blast
  define P where "P = (\<lambda>G limit (c :: nat) l (fp :: byte list) bytes (z :: int). gmp_laws G \<longrightarrow> fp = [] \<longrightarrow>
    read_block c l [] bytes = bytes \<longrightarrow> \<not> limit \<le> int (bytes_val bytes))"
  have "P G limit c l [] bytes z"
  proof (rule file_loop.raw_induct [OF _ z])
    fix loop G limit c l fp bytes z
    assume "\<And>G limit c l fp bytes z. loop G limit c l fp bytes = Some z \<Longrightarrow> P G limit c l fp bytes z"
      and "(let bytes = read_block c l fp bytes; z = mpz_import G bytes
        in if mpz_cmp G z limit < 0 then Some z else loop G limit c l (drop c fp) bytes) = Some z"
    then show "P G limit c l fp bytes z"
      by (auto simp: P_def Let_def gmp_laws.import gmp_laws.cmp_lt split: if_splits)
  qed
  then show False using assms by (simp add: P_def)
qed

lemma file_loop_blocks:
  fixes limit :: int
  assumes G: "gmp_laws G"
  defines "n \<equiv> nbits (nat limit)"
  defines "c \<equiv> (n + 7) div 8"
  assumes fp: "length fp = m * c" and k: "k \<le> m" and bytes: "length bytes = c"
    and last: "k = m \<Longrightarrow> read_block c (n mod 8) [] bytes = bytes \<and> limit \<le> int (bytes_val bytes)"
  shows "file_loop G limit c (n mod 8) (drop (k * c) fp) bytes =
    map_option (\<lambda>j. int (file_block limit fp j)) (find (\<lambda>j. int (file_block limit fp j) < limit) [k..<m])"
  using k bytes last
proof (induction "m - k" arbitrary: k bytes)
  case 0
  have "0 < n" by (simp add: n_def)
  then have "0 < c" by (simp add: c_def div_greater_zero_iff)
  moreover have "k = m" "drop (k * c) fp = []" using 0 fp by simp_all
  ultimately show ?case using file_loop_end [OF G, of "n mod 8" c bytes limit] 0 by simp
next
  case (Suc d)
  then have km: "k < m" by simp
  have "0 < n" by (simp add: n_def)
  then have c: "0 < c" by (simp add: c_def div_greater_zero_iff)
  have "Suc k * c \<le> m * c" using km by (intro mult_le_mono1) simp
  then have "c \<le> length (drop (k * c) fp)" using fp by simp
  from read_block_full [OF this Suc.prems(2), of "n mod 8"]
  have block: "mpz_import G (read_block c (n mod 8) (drop (k * c) fp) bytes) = int (file_block limit fp k)"
    by (simp add: gmp_laws.import [OF G] file_block_def n_def [symmetric] c_def [symmetric] Let_def)
  let ?b = "read_block c (n mod 8) (drop (k * c) fp) bytes"
  have "file_loop G limit c (n mod 8) (drop (Suc k * c) fp) ?b =
      map_option (\<lambda>j. int (file_block limit fp j)) (find (\<lambda>j. int (file_block limit fp j) < limit) [Suc k..<m])"
    if "\<not> int (file_block limit fp k) < limit"
  proof (rule Suc.hyps(1))
    show "read_block c (n mod 8) [] ?b = ?b \<and> limit \<le> int (bytes_val ?b)"
      using read_block_again [of "n mod 8" c bytes] c Suc.prems(2) that block by (simp add: gmp_laws.import [OF G])
  qed (use Suc km in simp_all)
  then show ?case
    using km by (subst file_loop.simps) (simp add: block gmp_laws.cmp_lt [OF G] upt_conv_Cons Let_def drop_drop add.commute)
qed

text \<open>
  C39: Reading random numbers from a file. When the file has at least one block and no part of a
  block is left at its end, the result is the first block below the limit, of which the bits
  above those of the limit are cleared; every block is below the next power of two. The call
  does not return when there is no such block.
\<close>

theorem file_random_first:
  assumes "gmp_laws G" "0 < m" "length fp = m * ((nbits (nat limit) + 7) div 8)" "0 < limit"
    and "length junk = (nbits (nat limit) + 7) div 8"
  shows "file_mpz_random G (Some fp) junk r limit =
      map_option (\<lambda>k. int (file_block limit fp k)) (find (\<lambda>k. int (file_block limit fp k) < limit) [0..<m]) \<and>
    (\<forall>k<m. file_block limit fp k < 2 ^ nbits (nat limit))"
proof
  show "file_mpz_random G (Some fp) junk r limit =
      map_option (\<lambda>k. int (file_block limit fp k)) (find (\<lambda>k. int (file_block limit fp k) < limit) [0..<m])"
    using file_loop_blocks [OF assms(1,3), of 0 junk] assms(2,4,5)
    by (simp add: file_mpz_random_def gmp_laws.sizeinbase [OF assms(1)] Let_def)
qed (use file_block_less [OF assms(3)] in blast)

lemma file_random_first_witness:
  "file_mpz_random gmp_ref (Some [255, 200, 0, 7]) [0, 0] 1 300 = Some 7"
proof -
  have "nbits 300 = 9" by (simp add: nbits_step)
  then show ?thesis
    using file_random_first [OF gmp_ref.gmp_laws_axioms, of 2 "[255, 200, 0, 7]" 300 "[0, 0]" 1]
    by (simp add: file_block_def read_block_def bytes_val_def upt_rec Let_def)
qed



end
