(* ===== verification/Param.thy ===== *)
theory Param
  imports Symtab Parse Gmp
begin

text \<open>
  Parameter files, \<^verbatim>\<open>ecc/param.c\<close>: pairs of words, read by the tokenizer into a symbol table
  from which numbers are looked up. A stream that is written to is the text that is written.
  What the code relies on of GMP's conversions to and from text is a parameter.
\<close>

section \<open>The operations\<close>

text \<open>
  \<open>mpz_out_str (stream, 0, z)\<close>, \<open>mpz_set_str (z, s, 0)\<close>, which is given the old value of \<open>z\<close>,
  and \<open>mpz_get_si\<close>. GMP takes the base 0 of the output function for base 10.
\<close>

record gmp_io =
  io_out_str :: "int \<Rightarrow> string"
  io_set_str :: "int \<Rightarrow> string \<Rightarrow> int"
  io_get_si :: "int \<Rightarrow> int"

definition newline :: string where
  "newline = [CHR 0x0A]"

definition param_out_type :: "string \<Rightarrow> string" where
  "param_out_type s = ''type '' @ s @ newline"

definition param_out_mpz :: "gmp_io \<Rightarrow> string \<Rightarrow> int \<Rightarrow> string" where
  "param_out_mpz IO s z = s @ '' '' @ io_out_str IO z @ newline"

definition param_out_int :: "gmp_io \<Rightarrow> string \<Rightarrow> int \<Rightarrow> string" where
  "param_out_int IO s i = param_out_mpz IO s i"

text \<open>\<open>Some None\<close> is a memory error, \<open>None\<close> a run that does not end.\<close>

partial_function (option) param_read_loop ::
  "'c fetch_ops \<Rightarrow> token \<Rightarrow> string symtab \<Rightarrow> 'c \<Rightarrow> ((string symtab \<times> 'c) option) option" where
  "param_read_loop fops tok tab ctx = (
     case token_get_generic fops tok ctx of
       None \<Rightarrow> None
     | Some None \<Rightarrow> Some None
     | Some (Some (tok, ctx)) \<Rightarrow>
         if tok_type tok \<noteq> token_word then Some (Some (tab, ctx))
         else case tok_s tok of
           None \<Rightarrow> Some None
         | Some s \<Rightarrow>
             (case token_get_generic fops tok ctx of
                None \<Rightarrow> None
              | Some None \<Rightarrow> Some None
              | Some (Some (tok, ctx)) \<Rightarrow>
                  if tok_type tok \<noteq> token_word then Some (Some (tab, ctx))
                  else case tok_s tok of
                    None \<Rightarrow> Some None
                  | Some s1 \<Rightarrow>
                      (case symtab_put tab s1 s of
                         None \<Rightarrow> Some None
                       | Some tab \<Rightarrow> param_read_loop fops tok tab ctx)))"

definition param_read_generic ::
  "string symtab \<Rightarrow> 'c fetch_ops \<Rightarrow> 'c \<Rightarrow> ((string symtab \<times> 'c) option) option" where
  "param_read_generic tab fops ctx = param_read_loop fops token_init tab ctx"

definition param_read_buf :: "string symtab \<Rightarrow> string \<Rightarrow> nat \<Rightarrow> ((string symtab \<times> tracker) option) option" where
  "param_read_buf tab buf len = param_read_generic tab fops_buf (tracker_init buf len)"

text \<open>The strings that are freed, the last one first.\<close>

definition param_clear_tab :: "string symtab \<Rightarrow> string list option" where
  "param_clear_tab tab = symtab_forall_data tab (\<lambda>d freed. d # freed) []"

text \<open>A missing key leaves the variable as it was.\<close>

definition lookup_mpz :: "gmp_io \<Rightarrow> int \<Rightarrow> string symtab \<Rightarrow> string \<Rightarrow> int option" where
  "lookup_mpz IO z tab k = (
     case symtab_has tab k of
       None \<Rightarrow> None
     | Some False \<Rightarrow> Some z
     | Some True \<Rightarrow>
         (case symtab_at tab k of Some (Some d) \<Rightarrow> Some (io_set_str IO z d) | _ \<Rightarrow> None))"

definition lookup_int :: "gmp_io \<Rightarrow> string symtab \<Rightarrow> string \<Rightarrow> int option" where
  "lookup_int IO tab k = (
     case symtab_has tab k of
       None \<Rightarrow> None
     | Some False \<Rightarrow> Some 0
     | Some True \<Rightarrow>
         (case symtab_at tab k of Some (Some d) \<Rightarrow> Some (io_get_si IO (io_set_str IO 0 d)) | _ \<Rightarrow> None))"

section \<open>What is read\<close>

lemma skip_spec_length: "length (skip_spec b s) \<le> length s"
  by (induction b s rule: skip_spec.induct) auto

lemma lex_word_shorter:
  assumes "lex s = (Word w, r)"
  shows "length r < length s"
proof -
  obtain x xs where x: "skip_spec False s = x # xs" "r = dropWhile (\<lambda>y. \<not> is_delim y) xs"
    using assms by (auto simp: lex_def split: list.splits if_splits)
  have "length r \<le> length xs" unfolding x(2) by (rule length_dropWhile_le)
  then show ?thesis using skip_spec_length [of False s] x(1) by simp
qed

text \<open>The pairs of words of a text, up to the first token that is not a word.\<close>

function lex_pairs :: "string \<Rightarrow> (string \<times> string) list" where
  "lex_pairs s = (
     case lex s of
       (Word k, s1) \<Rightarrow> (case lex s1 of (Word v, s2) \<Rightarrow> (k, v) # lex_pairs s2 | _ \<Rightarrow> [])
     | _ \<Rightarrow> [])"
  by pat_completeness auto
termination
  by (relation "measure length") (auto dest!: lex_word_shorter sym [of _ "lex _"])

declare lex_pairs.simps [simp del]

text \<open>The reader ends, with the pairs in the table; a later pair overrides an earlier one.\<close>

context fetch_source
begin

lemma lex_ascii: "ascii s \<Longrightarrow> ascii (snd (lex s))"
proof -
  have sub: "set (skip_spec b s) \<subseteq> set s" for b by (induction b s rule: skip_spec.induct) auto
  have drop: "set (dropWhile P xs) \<subseteq> set xs" for P and xs :: string by (metis set_dropWhileD subsetI)
  assume "ascii s"
  then show ?thesis using sub [of False] drop
    by (fastforce simp: lex_def ascii_def split: list.splits if_splits)
qed

lemma param_read_loop_ok:
  assumes "reads ctx s" "ascii s" "symtab_ok tab m"
  shows "\<exists>tab' ctx'. param_read_loop fops tok tab ctx = Some (Some (tab', ctx')) \<and>
    symtab_ok tab' (m ++ map_of (rev (lex_pairs s)))"
  using assms
proof (induction s arbitrary: tok tab ctx m rule: lex_pairs.induct)
  case (1 s)
  obtain ctx1 where g: "token_get_generic fops tok ctx = Some (Some (store (fst (lex s)) tok, ctx1))" "reads ctx1 (snd (lex s))"
    using token_get_ok [OF "1.prems"(1,2)] by blast
  show ?case
  proof (cases "\<exists>k. fst (lex s) = Word k")
    case False
    then have "lex_pairs s = []"
      by (subst lex_pairs.simps) (auto split: prod.splits lexeme.splits)
    moreover have "tok_type (store (fst (lex s)) tok) \<noteq> token_word"
      using False by (cases "fst (lex s)") (auto simp: store_def)
    ultimately show ?thesis using g "1.prems"(3) by (subst param_read_loop.simps) simp
  next
    case True
    then obtain k s1 where k: "lex s = (Word k, s1)" by (metis prod.collapse)
    have a1: "ascii s1" using lex_ascii [OF "1.prems"(2)] k by simp
    let ?tok = "store (Word k) tok"
    have t1: "tok_type ?tok = token_word" "tok_s ?tok = Some k" by (simp_all add: store_def)
    obtain ctx2 where g2: "token_get_generic fops ?tok ctx1 = Some (Some (store (fst (lex s1)) ?tok, ctx2))" "reads ctx2 (snd (lex s1))"
      using token_get_ok [OF _ a1] g(2) k by fastforce
    show ?thesis
    proof (cases "\<exists>v. fst (lex s1) = Word v")
      case False
      then have "lex_pairs s = []"
        using k by (subst lex_pairs.simps) (auto split: prod.splits lexeme.splits)
      moreover have "tok_type (store (fst (lex s1)) ?tok) \<noteq> token_word"
        using False by (cases "fst (lex s1)") (auto simp: store_def)
      ultimately show ?thesis using g g2 k t1 "1.prems"(3) by (subst param_read_loop.simps) simp
    next
      case True
      then obtain v s2 where v: "lex s1 = (Word v, s2)" by (metis prod.collapse)
      have a2: "ascii s2" using lex_ascii [OF a1] v by simp
      let ?tok2 = "store (Word v) ?tok"
      have t2: "tok_type ?tok2 = token_word" "tok_s ?tok2 = Some v" by (simp_all add: store_def)
      obtain tab1 where p: "symtab_put tab v k = Some tab1" "symtab_ok tab1 (m(k \<mapsto> v))"
        using symtab_put_ok [OF "1.prems"(3)] by blast
      have eq: "param_read_loop fops tok tab ctx = param_read_loop fops ?tok2 tab1 ctx2"
        using g g2 k v t1 t2 p(1) by (subst param_read_loop.simps) simp
      have pairs: "lex_pairs s = (k, v) # lex_pairs s2" using k v by (subst lex_pairs.simps) simp
      have "\<exists>tab' ctx'. param_read_loop fops ?tok2 tab1 ctx2 = Some (Some (tab', ctx')) \<and>
          symtab_ok tab' (m(k \<mapsto> v) ++ map_of (rev (lex_pairs s2)))"
        using "1.IH" [OF k [symmetric] refl v [symmetric] refl _ a2 p(2)] g2(2) v by fastforce
      then show ?thesis unfolding eq pairs by (simp add: map_of_append)
    qed
  qed
qed

end

end
