(* ===== verification/AParam.thy ===== *)
theory AParam
  imports Param Field
begin

text \<open>
  The parameters of the pairings of type A, \<^verbatim>\<open>ecc/a_param.c\<close>: their generation, their text form
  and the ones built into \<open>a_param_input\<close>. The values of \<open>rand ()\<close> are a stream; the primality
  test of GMP, \<open>mpz_probab_prime_p (n, 10)\<close>, is a parameter; \<open>pbc_mpz_random\<close> draws from the
  source of the model.
\<close>

text \<open>The integers that \<open>a_param_init\<close> does not set are 0; the readers and the generator set all.\<close>

record a_param =
  exp2 :: int
  exp1 :: int
  sign1 :: int
  sign0 :: int
  par_r :: int
  par_q :: int
  par_h :: int

definition a_param_init :: a_param where
  "a_param_init = \<lparr> exp2 = 0, exp1 = 0, sign1 = 0, sign0 = 0, par_r = 0, par_q = 0, par_h = 0 \<rparr>"

section \<open>Generation\<close>

type_synonym prime_test = "int \<Rightarrow> bool"

text \<open>The inner loop: up to \<open>n\<close> tries for a cofactor; the last component is \<open>found\<close>.\<close>

fun find_cofactor ::
  "gmp \<Rightarrow> prime_test \<Rightarrow> entropy \<Rightarrow> int \<Rightarrow> int \<Rightarrow> nat \<Rightarrow> a_param \<Rightarrow> nat \<Rightarrow> a_param \<times> nat \<times> bool" where
  "find_cofactor G probab_prime R rbits qbits 0 sp c = (sp, c, False)"
| "find_cofactor G probab_prime R rbits qbits (Suc n) sp c = (
     let bit = qbits - rbits - 4 + 1;
         bit = (if bit < 3 then 3 else bit);
         q = mpz_setbit G 0 (nat bit);
         h = R c q;
         h = mpz_mul G h 12;
         q = mpz_mul G h (par_r sp);
         q = mpz_sub G q 1;
         sp = sp\<lparr> par_h := h, par_q := q \<rparr>
     in if probab_prime q then (sp, c + 1, True)
        else find_cofactor G probab_prime R rbits qbits n sp (c + 1))"

text \<open>
  One round of the outer loop, from the next number of \<open>rand ()\<close> and the next draw; \<open>None\<close> is
  the division by zero for \<open>exp2 = 1\<close>. The number \<open>rbits\<close> is positive.
\<close>

definition a_param_try ::
  "gmp \<Rightarrow> prime_test \<Rightarrow> (nat \<Rightarrow> nat) \<Rightarrow> entropy \<Rightarrow> int \<Rightarrow> int \<Rightarrow> a_param \<Rightarrow> nat \<Rightarrow> nat \<Rightarrow>
     (a_param \<times> nat \<times> nat \<times> bool) option" where
  "a_param_try G probab_prime rand R rbits qbits sp d c = (
     let r = 0;
         sp = (if rand d mod 2 \<noteq> 0 then sp\<lparr> exp2 := rbits - 1, sign1 := 1 \<rparr>
               else sp\<lparr> exp2 := rbits, sign1 := - 1 \<rparr>);
         r = mpz_setbit G r (nat (exp2 sp))
     in if exp2 sp - 1 = 0 then None
        else
          let sp = sp\<lparr> exp1 := int (rand (d + 1) mod nat \<bar>exp2 sp - 1\<bar>) + 1 \<rparr>;
              q = mpz_setbit G 0 (nat (exp1 sp));
              r = (if sign1 sp > 0 then mpz_add G r q else mpz_sub G r q);
              (sp, r) = (if rand (d + 2) mod 2 \<noteq> 0 then (sp\<lparr> sign0 := 1 \<rparr>, mpz_add G r 1)
                         else (sp\<lparr> sign0 := - 1 \<rparr>, mpz_sub G r 1));
              sp = sp\<lparr> par_r := r, par_q := q \<rparr>
          in if \<not> probab_prime r then Some (sp, d + 3, c, False)
             else
               let (sp, c, found) = find_cofactor G probab_prime R rbits qbits 10 sp c
               in Some (sp, d + 3, c, found))"

partial_function (option) a_param_gen_loop ::
  "gmp \<Rightarrow> prime_test \<Rightarrow> (nat \<Rightarrow> nat) \<Rightarrow> entropy \<Rightarrow> int \<Rightarrow> int \<Rightarrow> a_param \<Rightarrow> nat \<Rightarrow> nat \<Rightarrow>
     ((a_param \<times> nat \<times> nat) option) option" where
  "a_param_gen_loop G probab_prime rand R rbits qbits sp d c = (
     case a_param_try G probab_prime rand R rbits qbits sp d c of
       None \<Rightarrow> Some None
     | Some (sp, d, c, found) \<Rightarrow>
         if found then Some (Some (sp, d, c))
         else a_param_gen_loop G probab_prime rand R rbits qbits sp d c)"

definition a_param_gen ::
  "gmp \<Rightarrow> prime_test \<Rightarrow> (nat \<Rightarrow> nat) \<Rightarrow> entropy \<Rightarrow> a_param \<Rightarrow> int \<Rightarrow> int \<Rightarrow> nat \<Rightarrow> nat \<Rightarrow>
     ((a_param \<times> nat \<times> nat) option) option" where
  "a_param_gen G probab_prime rand R sp rbits qbits d c = a_param_gen_loop G probab_prime rand R rbits qbits sp d c"

section \<open>Text\<close>

definition a_param_out_str :: "gmp_io \<Rightarrow> a_param \<Rightarrow> string" where
  "a_param_out_str IO p =
     param_out_type ''a'' @
     param_out_mpz IO ''q'' (par_q p) @
     param_out_mpz IO ''h'' (par_h p) @
     param_out_mpz IO ''r'' (par_r p) @
     param_out_int IO ''exp2'' (exp2 p) @
     param_out_int IO ''exp1'' (exp1 p) @
     param_out_int IO ''sign1'' (sign1 p) @
     param_out_int IO ''sign0'' (sign0 p)"

definition a_param_inp_generic ::
  "gmp_io \<Rightarrow> a_param \<Rightarrow> 'c fetch_ops \<Rightarrow> 'c \<Rightarrow> ((a_param \<times> 'c) option) option" where
  "a_param_inp_generic IO p fops ctx = (
     case param_read_generic symtab_init fops ctx of
       None \<Rightarrow> None
     | Some None \<Rightarrow> Some None
     | Some (Some (tab, ctx)) \<Rightarrow>
         (case (lookup_mpz IO (par_q p) tab ''q'', lookup_mpz IO (par_r p) tab ''r'', lookup_mpz IO (par_h p) tab ''h'',
            lookup_int IO tab ''exp2'', lookup_int IO tab ''exp1'', lookup_int IO tab ''sign1'', lookup_int IO tab ''sign0'') of
            (Some q, Some r, Some h, Some e2, Some e1, Some s1, Some s0) \<Rightarrow>
              Some (Some (\<lparr> exp2 = e2, exp1 = e1, sign1 = s1, sign0 = s0, par_r = r, par_q = q, par_h = h \<rparr>, ctx))
          | _ \<Rightarrow> Some None))"

section \<open>The built-in parameters\<close>

definition a_param_builtin :: a_param where
  "a_param_builtin = \<lparr>
     exp2 = 159, exp1 = 107, sign1 = 1, sign0 = 1,
     par_r = 730750818665451621361119245571504901405976559617,
     par_q = 8780710799663312522437781984754049815806883199414208211028653399266475630880222957078625179422662221423155858769582317459277713367317481324925129998224791,
     par_h = 12016012264891146079388821366740534204802954401251311822919615131047207289359704531102844802183906537786776 \<rparr>"

text \<open>What \<open>rbits\<close>, \<open>qbits\<close> and the header \<^verbatim>\<open>pbc_a_param.h\<close> say of the parameters.\<close>

definition a_param_ok :: "a_param \<Rightarrow> bool" where
  "a_param_ok p \<longleftrightarrow> par_r p = 2 ^ nat (exp2 p) + sign1 p * 2 ^ nat (exp1 p) + sign0 p \<and>
     sign1 p \<in> {1, - 1} \<and> sign0 p \<in> {1, - 1} \<and> 1 \<le> exp1 p \<and> exp1 p < exp2 p \<and>
     par_r p * par_h p = par_q p + 1 \<and> par_q p mod 12 = 11"

lemma a_param_builtin_ok: "a_param_ok a_param_builtin"
  unfolding a_param_ok_def a_param_builtin_def by simp

end
