(* ===== verification/APairing.thy ===== *)
theory APairing
  imports Curve
begin

text \<open>
  The pairings of type A, \<^verbatim>\<open>ecc/a_param.c\<close>: Miller loops on the curve \<open>y^2 = x^3 + x\<close> over
  \<open>Fq\<close> with \<open>q = 3 mod 4\<close>, with values in the extension of \<open>Fq\<close> by a root of \<open>- 1\<close>, and the
  final exponentiation by a Lucas sequence. The second point is moved by \<open>(x, y) \<mapsto> (- x, i y)\<close>
  before it is put into a line. The order of the group is \<open>2^exp2 + sign1 2^exp1 + sign0\<close>.
  Local variables of the code that a routine passes on are the components of tuples.
\<close>

record 'a a_pairing_data =
  ad_Fq :: "'a field_s"
  ad_Fq2 :: "'a fq_data field_s"
  ad_Eq :: "'a point field_s"
  ad_exp2 :: int
  ad_exp1 :: int
  ad_sign1 :: int

section \<open>Lines\<close>

type_synonym 'a line_vars = "'a \<times> 'a \<times> 'a \<times> 'a"

text \<open>The tangent \<open>a X + b Y + c\<close> at \<open>V\<close>, scaled by \<open>- 2 V.y\<close>; the last component is \<open>e0\<close>.\<close>

definition compute_abc_tangent :: "'a field_s \<Rightarrow> 'a line_vars \<Rightarrow> 'a \<Rightarrow> 'a \<Rightarrow> 'a line_vars" where
  "compute_abc_tangent B = (\<lambda>(a, b, c, e0) Vx Vy.
     let a = element_square B a Vx;
         e0 = element_add B e0 a a;
         a = element_add B a e0 a;
         b = element_set1 B b;
         a = element_add B a a b;
         a = element_neg B a a;
         b = element_double B b Vy;
         e0 = element_mul B e0 b Vy;
         c = element_mul B c a Vx;
         c = element_add B c c e0;
         c = element_neg B c c
     in (a, b, c, e0))"

text \<open>The same in weighted projective coordinates \<open>(x / z^2, y / z^3)\<close>.\<close>

definition compute_abc_tangent_proj ::
  "'a field_s \<Rightarrow> 'a line_vars \<Rightarrow> 'a \<Rightarrow> 'a \<Rightarrow> 'a \<Rightarrow> 'a \<Rightarrow> 'a line_vars" where
  "compute_abc_tangent_proj B = (\<lambda>(a, b, c, e0) Vx Vy z z2.
     let a = element_square B a z2;
         b = element_square B b Vx;
         e0 = element_double B e0 b;
         b = element_add B b e0 b;
         a = element_add B a a b;
         a = element_neg B a a;
         e0 = element_double B e0 Vy;
         b = element_mul B b e0 z2;
         b = element_mul B b b z;
         c = element_mul B c Vx a;
         a = element_mul B a a z2;
         e0 = element_mul B e0 e0 Vy;
         c = element_add B c c e0;
         c = element_neg B c c
     in (a, b, c, e0))"

text \<open>The line through \<open>V\<close> and \<open>V1\<close>, scaled by the difference of the abscissas.\<close>

definition compute_abc_line :: "'a field_s \<Rightarrow> 'a line_vars \<Rightarrow> 'a \<Rightarrow> 'a \<Rightarrow> 'a \<Rightarrow> 'a \<Rightarrow> 'a line_vars" where
  "compute_abc_line B = (\<lambda>(a, b, c, e0) Vx Vy V1x V1y.
     let a = element_sub B a Vy V1y;
         b = element_sub B b V1x Vx;
         c = element_mul B c Vx V1y;
         e0 = element_mul B e0 Vy V1x;
         c = element_sub B c c e0
     in (a, b, c, e0))"

text \<open>The line at the moved second point: the value is \<open>(c - a Qx) + i b Qy\<close>.\<close>

definition a_miller_evalfn :: "'a field_s \<Rightarrow> 'a fq_data \<Rightarrow> 'a \<Rightarrow> 'a \<Rightarrow> 'a \<Rightarrow> 'a \<Rightarrow> 'a \<Rightarrow> 'a fq_data" where
  "a_miller_evalfn B out a b c Qx Qy = (
     let im = element_mul B (fi_im out) a Qx;
         re = element_sub B (fi_re out) c im;
         im = element_mul B im b Qy
     in \<lparr> fq_x = re, fq_y = im \<rparr>)"

section \<open>The final exponentiation\<close>

text \<open>The bits \<open>j, ..., 0\<close> of the cofactor; the last one is taken to be 0.\<close>

fun lucas_loop :: "gmp \<Rightarrow> 'a field_s \<Rightarrow> int \<Rightarrow> 'a \<Rightarrow> 'a \<Rightarrow> nat \<Rightarrow> 'a \<Rightarrow> 'a \<Rightarrow> 'a \<times> 'a" where
  "lucas_loop G B cofactor t0 t1 0 v0 v1 = (
     let v1 = element_mul B v1 v0 v1;
         v1 = element_sub B v1 v1 t1;
         v0 = element_square B v0 v0;
         v0 = element_sub B v0 v0 t0
     in (v0, v1))"
| "lucas_loop G B cofactor t0 t1 (Suc j) v0 v1 = (
     if mpz_tstbit G cofactor (Suc j) \<noteq> 0 then
       let v0 = element_mul B v0 v0 v1;
           v0 = element_sub B v0 v0 t1;
           v1 = element_square B v1 v1;
           v1 = element_sub B v1 v1 t0
       in lucas_loop G B cofactor t0 t1 j v0 v1
     else
       let v1 = element_mul B v1 v0 v1;
           v1 = element_sub B v1 v1 t1;
           v0 = element_square B v0 v0;
           v0 = element_sub B v0 v0 t0
       in lucas_loop G B cofactor t0 t1 j v0 v1)"

definition lucas_odd :: "gmp \<Rightarrow> 'a field_s \<Rightarrow> 'a fq_data \<Rightarrow> 'a fq_data \<Rightarrow> 'a fq_data \<Rightarrow> int \<Rightarrow> 'a fq_data" where
  "lucas_odd G B out inn temp cofactor = (
     let in0 = fi_re inn;
         in1 = fi_im inn;
         t0 = element_set_si B (fi_re temp) 2;
         t1 = element_double B (fi_im temp) in0;
         v0 = element_set B (fi_re out) t0;
         v1 = element_set B (fi_im out) t1;
         j = mpz_sizeinbase G cofactor 2 - 1;
         (v0, v1) = lucas_loop G B cofactor t0 t1 j v0 v1;
         in0 = element_mul B in0 v0 t1;
         v1 = element_double B v1 v1;
         v1 = element_sub B v1 v1 in0;
         t1 = element_square B t1 t1;
         t1 = element_sub B t1 t1 t0;
         t1 = element_sub B t1 t1 t0;
         v1 = element_div B v1 v1 t1;
         v0 = element_halve B v0 v0;
         v1 = element_mul B v1 v1 in1
     in \<lparr> fq_x = v0, fq_y = v1 \<rparr>)"

definition a_tateexp ::
  "gmp \<Rightarrow> 'a field_s \<Rightarrow> 'a fq_data field_s \<Rightarrow> 'a fq_data \<Rightarrow> 'a fq_data \<Rightarrow> 'a fq_data \<Rightarrow> int \<Rightarrow> 'a fq_data" where
  "a_tateexp G B F2 out inn temp cofactor = (
     let temp = element_invert F2 temp inn;
         inn = inn\<lparr> fq_y := element_neg B (fi_im inn) (fi_im inn) \<rparr>;
         inn = element_mul F2 inn inn temp
     in lucas_odd G B out inn temp cofactor)"

section \<open>The Miller loop in affine coordinates\<close>

text \<open>\<open>do_tangent\<close> and \<open>do_line\<close>: multiply \<open>f\<close> by the line at \<open>Q\<close>.\<close>

definition miller_mul_line ::
  "'a a_pairing_data \<Rightarrow> 'a \<Rightarrow> 'a \<Rightarrow> 'a line_vars \<Rightarrow> 'a fq_data \<Rightarrow> 'a fq_data \<Rightarrow> 'a fq_data \<times> 'a fq_data" where
  "miller_mul_line ad Qx Qy = (\<lambda>(a, b, c, e0) f f0.
     let f0 = a_miller_evalfn (ad_Fq ad) f0 a b c Qx Qy;
         f = element_mul (ad_Fq2 ad) f f f0
     in (f, f0))"

fun affine_loop ::
  "'a a_pairing_data \<Rightarrow> 'a \<Rightarrow> 'a \<Rightarrow> nat \<Rightarrow> 'a fq_data \<Rightarrow> 'a fq_data \<Rightarrow> 'a point \<Rightarrow> 'a line_vars \<Rightarrow>
     'a fq_data \<times> 'a fq_data \<times> 'a point \<times> 'a line_vars" where
  "affine_loop ad Qx Qy 0 f f0 V l = (f, f0, V, l)"
| "affine_loop ad Qx Qy (Suc n) f f0 V l = (
     let f = element_square (ad_Fq2 ad) f f;
         l = compute_abc_tangent (ad_Fq ad) l (pt_x V) (pt_y V);
         (f, f0) = miller_mul_line ad Qx Qy l f f0;
         V = element_double (ad_Eq ad) V V
     in affine_loop ad Qx Qy n f f0 V l)"

definition line_vars_init :: "'a field_s \<Rightarrow> 'a line_vars" where
  "line_vars_init B = (element_init B, element_init B, element_init B, element_init B)"

definition a_pairing_affine ::
  "gmp \<Rightarrow> 'a a_pairing_data \<Rightarrow> int \<Rightarrow> 'a fq_data \<Rightarrow> 'a point \<Rightarrow> 'a point \<Rightarrow> 'a fq_data" where
  "a_pairing_affine G ad phikonr out in1 in2 = (
     let Qx = pt_x in2;
         Qy = pt_y in2;
         V = element_set (ad_Eq ad) (element_init (ad_Eq ad)) in1;
         V1 = element_init (ad_Eq ad);
         f = element_set1 (ad_Fq2 ad) (element_init (ad_Fq2 ad));
         f0 = element_init (ad_Fq2 ad);
         f1 = element_init (ad_Fq2 ad);
         l = line_vars_init (ad_Fq ad);
         (f, f0, V, l) = affine_loop ad Qx Qy (nat (ad_exp1 ad)) f f0 V l;
         (V1, f1) = (if ad_sign1 ad < 0
           then (element_neg (ad_Eq ad) V1 V, element_invert (ad_Fq2 ad) f1 f)
           else (element_set (ad_Eq ad) V1 V, element_set (ad_Fq2 ad) f1 f));
         (f, f0, V, l) = affine_loop ad Qx Qy (nat (ad_exp2 ad) - nat (ad_exp1 ad)) f f0 V l;
         f = element_mul (ad_Fq2 ad) f f f1;
         l = compute_abc_line (ad_Fq ad) l (pt_x V) (pt_y V) (pt_x V1) (pt_y V1);
         (f, f0) = miller_mul_line ad Qx Qy l f f0
     in a_tateexp G (ad_Fq ad) (ad_Fq2 ad) out f f0 phikonr)"

section \<open>The Miller loop in projective coordinates\<close>

definition point_to_affine :: "'a field_s \<Rightarrow> 'a point \<Rightarrow> 'a \<Rightarrow> 'a \<Rightarrow> 'a \<Rightarrow> 'a point \<times> 'a \<times> 'a \<times> 'a" where
  "point_to_affine B V z z2 e0 = (
     let z = element_invert B z z;
         e0 = element_square B e0 z;
         Vx = element_mul B (pt_x V) (pt_x V) e0;
         e0 = element_mul B e0 e0 z;
         Vy = element_mul B (pt_y V) (pt_y V) e0;
         z = element_set1 B z;
         z2 = element_set1 B z2
     in (V\<lparr> pt_x := Vx, pt_y := Vy \<rparr>, z, z2, e0))"

text \<open>The temporaries \<open>e1\<close>, \<open>e2\<close> and \<open>e3\<close> are the variables \<open>a\<close>, \<open>b\<close> and \<open>c\<close>.\<close>

definition proj_double ::
  "'a field_s \<Rightarrow> 'a point \<Rightarrow> 'a \<Rightarrow> 'a \<Rightarrow> 'a line_vars \<Rightarrow> 'a point \<times> 'a \<times> 'a \<times> 'a line_vars" where
  "proj_double B V z z2 = (\<lambda>(e1, e2, e3, e0).
     let e0 = element_square B e0 (pt_x V);
         e1 = element_double B e1 e0;
         e0 = element_add B e0 e1 e0;
         e1 = element_square B e1 z2;
         e0 = element_add B e0 e0 e1;
         z = element_mul B z (pt_y V) z;
         z = element_double B z z;
         z2 = element_square B z2 z;
         e2 = element_square B e2 (pt_y V);
         e1 = element_mul B e1 (pt_x V) e2;
         e1 = element_double B e1 e1;
         e1 = element_double B e1 e1;
         e3 = element_double B e3 e1;
         Vx = element_square B (pt_x V) e0;
         Vx = element_sub B Vx Vx e3;
         e2 = element_square B e2 e2;
         e2 = element_double B e2 e2;
         e2 = element_double B e2 e2;
         e2 = element_double B e2 e2;
         e1 = element_sub B e1 e1 Vx;
         e0 = element_mul B e0 e0 e1;
         Vy = element_sub B (pt_y V) e0 e2
     in (V\<lparr> pt_x := Vx, pt_y := Vy \<rparr>, z, z2, (e1, e2, e3, e0)))"

fun proj_loop ::
  "'a a_pairing_data \<Rightarrow> 'a \<Rightarrow> 'a \<Rightarrow> nat \<Rightarrow> 'a fq_data \<Rightarrow> 'a fq_data \<Rightarrow> 'a point \<Rightarrow> 'a \<Rightarrow> 'a \<Rightarrow> 'a line_vars \<Rightarrow>
     'a fq_data \<times> 'a fq_data \<times> 'a point \<times> 'a \<times> 'a \<times> 'a line_vars" where
  "proj_loop ad Qx Qy 0 f f0 V z z2 l = (f, f0, V, z, z2, l)"
| "proj_loop ad Qx Qy (Suc n) f f0 V z z2 l = (
     let f = element_square (ad_Fq2 ad) f f;
         l = compute_abc_tangent_proj (ad_Fq ad) l (pt_x V) (pt_y V) z z2;
         (f, f0) = miller_mul_line ad Qx Qy l f f0;
         (V, z, z2, l) = proj_double (ad_Fq ad) V z z2 l
     in proj_loop ad Qx Qy n f f0 V z z2 l)"

definition a_pairing_proj ::
  "gmp \<Rightarrow> 'a a_pairing_data \<Rightarrow> int \<Rightarrow> 'a fq_data \<Rightarrow> 'a point \<Rightarrow> 'a point \<Rightarrow> 'a fq_data" where
  "a_pairing_proj G ad phikonr out in1 in2 = (
     let Qx = pt_x in2;
         Qy = pt_y in2;
         V = element_set (ad_Eq ad) (element_init (ad_Eq ad)) in1;
         V1 = element_init (ad_Eq ad);
         f = element_set1 (ad_Fq2 ad) (element_init (ad_Fq2 ad));
         f0 = element_init (ad_Fq2 ad);
         f1 = element_init (ad_Fq2 ad);
         l = line_vars_init (ad_Fq ad);
         z = element_set1 (ad_Fq ad) (element_init (ad_Fq ad));
         z2 = element_set1 (ad_Fq ad) (element_init (ad_Fq ad));
         (f, f0, V, z, z2, (a, b, c, e0)) = proj_loop ad Qx Qy (nat (ad_exp1 ad)) f f0 V z z2 l;
         (V, z, z2, e0) = point_to_affine (ad_Fq ad) V z z2 e0;
         (V1, f1) = (if ad_sign1 ad < 0
           then (element_neg (ad_Eq ad) V1 V, element_invert (ad_Fq2 ad) f1 f)
           else (element_set (ad_Eq ad) V1 V, element_set (ad_Fq2 ad) f1 f));
         (f, f0, V, z, z2, (a, b, c, e0)) =
           proj_loop ad Qx Qy (nat (ad_exp2 ad) - nat (ad_exp1 ad)) f f0 V z z2 (a, b, c, e0);
         f = element_mul (ad_Fq2 ad) f f f1;
         (V, z, z2, e0) = point_to_affine (ad_Fq ad) V z z2 e0;
         l = compute_abc_line (ad_Fq ad) (a, b, c, e0) (pt_x V) (pt_y V) (pt_x V1) (pt_y V1);
         (f, f0) = miller_mul_line ad Qx Qy l f f0
     in a_tateexp G (ad_Fq ad) (ad_Fq2 ad) out f f0 phikonr)"

section \<open>Preprocessing the first argument\<close>

definition pp_coeff_set :: "'a field_s \<Rightarrow> 'a line_vars \<Rightarrow> 'a \<times> 'a \<times> 'a" where
  "pp_coeff_set B = (\<lambda>(a, b, c, e0).
     (element_set B (element_init B) a, element_set B (element_init B) b, element_set B (element_init B) c))"

fun pp_init_loop ::
  "'a a_pairing_data \<Rightarrow> nat \<Rightarrow> 'a point \<Rightarrow> 'a line_vars \<Rightarrow> ('a \<times> 'a \<times> 'a) list \<times> 'a point \<times> 'a line_vars" where
  "pp_init_loop ad 0 V l = ([], V, l)"
| "pp_init_loop ad (Suc n) V l = (
     let l = compute_abc_tangent (ad_Fq ad) l (pt_x V) (pt_y V);
         co = pp_coeff_set (ad_Fq ad) l;
         V = element_double (ad_Eq ad) V V;
         (cs, V, l) = pp_init_loop ad n V l
     in (co # cs, V, l))"

definition a_pairing_pp_init :: "'a a_pairing_data \<Rightarrow> 'a point \<Rightarrow> ('a \<times> 'a \<times> 'a) list" where
  "a_pairing_pp_init ad in1 = (
     let V = element_set (ad_Eq ad) (element_init (ad_Eq ad)) in1;
         V1 = element_init (ad_Eq ad);
         l = line_vars_init (ad_Fq ad);
         (cs, V, l) = pp_init_loop ad (nat (ad_exp1 ad)) V l;
         V1 = (if ad_sign1 ad < 0 then element_neg (ad_Eq ad) V1 V else element_set (ad_Eq ad) V1 V);
         (ds, V, l) = pp_init_loop ad (nat (ad_exp2 ad) - nat (ad_exp1 ad)) V l;
         l = compute_abc_line (ad_Fq ad) l (pt_x V) (pt_y V) (pt_x V1) (pt_y V1)
     in cs @ ds @ [pp_coeff_set (ad_Fq ad) l])"

fun pp_apply_loop ::
  "'a a_pairing_data \<Rightarrow> 'a \<Rightarrow> 'a \<Rightarrow> ('a \<times> 'a \<times> 'a) list \<Rightarrow> 'a fq_data \<Rightarrow> 'a fq_data \<Rightarrow> 'a fq_data \<times> 'a fq_data" where
  "pp_apply_loop ad Qx Qy [] f f0 = (f, f0)"
| "pp_apply_loop ad Qx Qy ((a, b, c) # cs) f f0 = (
     let f = element_square (ad_Fq2 ad) f f;
         f0 = a_miller_evalfn (ad_Fq ad) f0 a b c Qx Qy;
         f = element_mul (ad_Fq2 ad) f f f0
     in pp_apply_loop ad Qx Qy cs f f0)"

text \<open>The coefficients that the two loops and the last step read.\<close>

definition a_pairing_pp_apply ::
  "gmp \<Rightarrow> 'a a_pairing_data \<Rightarrow> int \<Rightarrow> 'a fq_data \<Rightarrow> 'a point \<Rightarrow> ('a \<times> 'a \<times> 'a) list \<Rightarrow> 'a fq_data" where
  "a_pairing_pp_apply G ad phikonr out in2 coeff = (
     let Qx = pt_x in2;
         Qy = pt_y in2;
         n1 = nat (ad_exp1 ad);
         n2 = nat (ad_exp2 ad) - n1;
         f = element_set1 (ad_Fq2 ad) (element_init (ad_Fq2 ad));
         f0 = element_init (ad_Fq2 ad);
         (f, f0) = pp_apply_loop ad Qx Qy (take n1 coeff) f f0;
         out = (if ad_sign1 ad < 0 then element_invert (ad_Fq2 ad) out f else element_set (ad_Fq2 ad) out f);
         (f, f0) = pp_apply_loop ad Qx Qy (take n2 (drop n1 coeff)) f f0;
         f = element_mul (ad_Fq2 ad) f f out;
         (a, b, c) = coeff ! (n1 + n2);
         f0 = a_miller_evalfn (ad_Fq ad) f0 a b c Qx Qy;
         f = element_mul (ad_Fq2 ad) f f f0
     in a_tateexp G (ad_Fq ad) (ad_Fq2 ad) out f f0 phikonr)"

end
