(* ===== verification/AEllnet.thy ===== *)
theory AEllnet
  imports APairing
begin

text \<open>
  The pairing of type A by elliptic nets, \<^verbatim>\<open>ecc/a_param.c\<close>: a block of eight terms
  \<open>c_{k-3}, ..., c_{k+4}\<close> of an elliptic divisibility sequence over the base field and three terms
  \<open>d_{k-1}, d_k, d_{k+1}\<close> of a net over the extension are moved from \<open>k\<close> to \<open>2 k\<close> or \<open>2 k + 1\<close> by
  the bits of the order; and the form that stores the first part for a fixed point. Local
  variables that a later statement of the code writes to again are passed on as destinations.
\<close>

text \<open>The variables \<open>cm3\<close> to \<open>c4\<close>.\<close>

record 'a ellnet_block =
  en_m3 :: 'a
  en_m2 :: 'a
  en_m1 :: 'a
  en_0 :: 'a
  en_1 :: 'a
  en_2 :: 'a
  en_3 :: 'a
  en_4 :: 'a

record 'a ellnet_pp_st =
  st_sm1 :: 'a
  st_s0 :: 'a
  st_s1 :: 'a
  st_s2 :: 'a
  st_tm1 :: 'a
  st_t0 :: 'a
  st_t1 :: 'a
  st_t2 :: 'a

record 'a ellnet_pp =
  pp_x :: 'a
  pp_y :: 'a
  pp_seq :: "'a ellnet_pp_st list"

section \<open>The first block\<close>

text \<open>The block at \<open>k = 1\<close>; the second component is the temporary \<open>C\<close>.\<close>

definition ellnet_start :: "'a field_s \<Rightarrow> 'a \<Rightarrow> 'a \<Rightarrow> 'a ellnet_block \<times> 'a" where
  "ellnet_start B x y = (
     let c1 = element_double B (element_init B) y;
         c0 = element_set1 B (element_init B);
         cm3 = element_neg B (element_init B) c1;
         cm2 = element_neg B (element_init B) c0;
         cm1 = element_square B (element_init B) x;
         C = element_square B (element_init B) cm1;
         c2 = element_sub B (element_init B) C cm1;
         c3 = element_double B (element_init B) c2;
         c3 = element_double B c3 c3;
         c3 = element_add B c3 c3 c2;
         c2 = element_mul B c2 C cm1;
         c3 = element_add B c3 c3 c2;
         c3 = element_add B c3 c3 cm2;
         c3 = element_mul B c3 c3 c1;
         c3 = element_double B c3 c3;
         cm1 = element_double B cm1 cm1;
         cm1 = element_add B cm1 cm1 C;
         C = element_double B C cm1;
         C = element_add B C C cm1;
         c2 = element_add B c2 C cm2;
         C = element_square B C c1;
         c4 = element_mul B (element_init B) C c1;
         c4 = element_mul B c4 c4 c3;
         C = element_square B C c2;
         C = element_mul B C C c2;
         c4 = element_sub B c4 c4 C
     in (\<lparr> en_m3 = cm3, en_m2 = cm2, en_m1 = cm1, en_0 = c0, en_1 = c1, en_2 = c2, en_3 = c3, en_4 = c4 \<rparr>, C))"

text \<open>\<open>cm1 = 0\<close> and \<open>C = 1 / (2 y)\<close>.\<close>

definition ellnet_finish :: "'a field_s \<Rightarrow> 'a ellnet_block \<Rightarrow> 'a \<Rightarrow> 'a ellnet_block \<times> 'a" where
  "ellnet_finish B k C = (k\<lparr> en_m1 := element_set0 B (en_m1 k) \<rparr>, element_invert B C (en_1 k))"

text \<open>
  The factors \<open>A\<close> and \<open>B\<close> and the term \<open>d_2\<close>; \<open>C\<close> and \<open>e1\<close> are temporaries. The second point is
  moved by \<open>(x2, y2) \<mapsto> (- x2, i y2)\<close>.
\<close>

definition ellnet_factors ::
  "'a field_s \<Rightarrow> 'a fq_data field_s \<Rightarrow> 'a \<Rightarrow> 'a \<Rightarrow> 'a \<Rightarrow> 'a \<Rightarrow> 'a \<Rightarrow> 'a fq_data \<Rightarrow> 'a \<Rightarrow> 'a \<Rightarrow> 'a fq_data \<Rightarrow>
     'a \<times> 'a fq_data \<times> 'a \<times> 'a \<times> 'a fq_data" where
  "ellnet_factors B F2 x y x2 y2 A Bv C e1 d1 = (
     let A = element_add B A x x2;
         C = element_double B C x;
         C = element_sub B C C x2;
         e1 = element_square B e1 A;
         e1 = element_mul B e1 C e1;
         d1 = \<lparr> fq_x = element_set B (fi_re d1) y, fq_y = element_set B (fi_im d1) y2 \<rparr>;
         d1 = element_square F2 d1 d1;
         d1 = d1\<lparr> fq_x := element_sub B (fi_re d1) (fi_re d1) e1 \<rparr>;
         Bv = element_neg F2 Bv d1;
         Bv = element_invert F2 Bv Bv;
         A = element_invert B A A;
         re = element_mul B (fi_re d1) y A;
         re = element_neg B re re;
         im = element_mul B (fi_im d1) y2 A;
         d1 = \<lparr> fq_x = re, fq_y = im \<rparr>;
         d1 = element_square F2 d1 d1;
         d1 = d1\<lparr> fq_x := element_sub B (fi_re d1) C (fi_re d1) \<rparr>;
         d1 = d1\<lparr> fq_y := element_neg B (fi_im d1) (fi_im d1) \<rparr>
     in (A, Bv, C, e1, d1))"

section \<open>One bit\<close>

type_synonym 'a ellnet_tmp = "'a \<times> 'a \<times> 'a \<times> 'a"

text \<open>Squares and products of neighbours; the temporaries are \<open>sm2\<close>, \<open>s3\<close>, \<open>tm2\<close> and \<open>t3\<close>.\<close>

definition ellnet_products ::
  "'a field_s \<Rightarrow> 'a ellnet_block \<Rightarrow> 'a ellnet_pp_st \<Rightarrow> 'a ellnet_tmp \<Rightarrow> 'a ellnet_pp_st \<times> 'a ellnet_tmp" where
  "ellnet_products B k st = (\<lambda>(sm2, s3, tm2, t3).
     let sm2 = element_square B sm2 (en_m2 k);
         sm1 = element_square B (st_sm1 st) (en_m1 k);
         s0 = element_square B (st_s0 st) (en_0 k);
         s1 = element_square B (st_s1 st) (en_1 k);
         s2 = element_square B (st_s2 st) (en_2 k);
         s3 = element_square B s3 (en_3 k);
         tm2 = element_mul B tm2 (en_m3 k) (en_m1 k);
         tm1 = element_mul B (st_tm1 st) (en_m2 k) (en_0 k);
         t0 = element_mul B (st_t0 st) (en_m1 k) (en_1 k);
         t1 = element_mul B (st_t1 st) (en_0 k) (en_2 k);
         t2 = element_mul B (st_t2 st) (en_1 k) (en_3 k);
         t3 = element_mul B t3 (en_2 k) (en_4 k)
     in (\<lparr> st_sm1 = sm1, st_s0 = s0, st_s1 = s1, st_s2 = s2, st_tm1 = tm1, st_t0 = t0, st_t1 = t1, st_t2 = t2 \<rparr>,
         (sm2, s3, tm2, t3)))"

text \<open>The block at \<open>2 k + 1\<close>.\<close>

definition ellnet_double_add ::
  "'a field_s \<Rightarrow> 'a \<Rightarrow> 'a ellnet_pp_st \<Rightarrow> 'a ellnet_tmp \<Rightarrow> 'a ellnet_block \<Rightarrow> 'a \<Rightarrow> 'a \<Rightarrow> 'a ellnet_block \<times> 'a \<times> 'a" where
  "ellnet_double_add B C st = (\<lambda>(sm2, s3, tm2, t3) k e0 e1.
     let sm1 = st_sm1 st; s0 = st_s0 st; s1 = st_s1 st; s2 = st_s2 st;
         tm1 = st_tm1 st; t0 = st_t0 st; t1 = st_t1 st; t2 = st_t2 st;
         e0 = element_mul B e0 t0 sm2;
         e1 = element_mul B e1 tm2 s0;
         cm3 = element_sub B (en_m3 k) e0 e1;
         cm3 = element_mul B cm3 cm3 C;
         e0 = element_mul B e0 t0 sm1;
         e1 = element_mul B e1 tm1 s0;
         cm2 = element_sub B (en_m2 k) e0 e1;
         e0 = element_mul B e0 t1 sm1;
         e1 = element_mul B e1 tm1 s1;
         cm1 = element_sub B (en_m1 k) e0 e1;
         cm1 = element_mul B cm1 cm1 C;
         e0 = element_mul B e0 t1 s0;
         e1 = element_mul B e1 t0 s1;
         c0 = element_sub B (en_0 k) e0 e1;
         e0 = element_mul B e0 t2 s0;
         e1 = element_mul B e1 t0 s2;
         c1 = element_sub B (en_1 k) e0 e1;
         c1 = element_mul B c1 c1 C;
         e0 = element_mul B e0 t2 s1;
         e1 = element_mul B e1 t1 s2;
         c2 = element_sub B (en_2 k) e0 e1;
         e0 = element_mul B e0 t3 s1;
         e1 = element_mul B e1 t1 s3;
         c3 = element_sub B (en_3 k) e0 e1;
         c3 = element_mul B c3 c3 C;
         e0 = element_mul B e0 t3 s2;
         e1 = element_mul B e1 t2 s3;
         c4 = element_sub B (en_4 k) e0 e1
     in (\<lparr> en_m3 = cm3, en_m2 = cm2, en_m1 = cm1, en_0 = c0, en_1 = c1, en_2 = c2, en_3 = c3, en_4 = c4 \<rparr>, e0, e1))"

text \<open>The block at \<open>2 k\<close>.\<close>

definition ellnet_double ::
  "'a field_s \<Rightarrow> 'a \<Rightarrow> 'a ellnet_pp_st \<Rightarrow> 'a ellnet_tmp \<Rightarrow> 'a ellnet_block \<Rightarrow> 'a \<Rightarrow> 'a \<Rightarrow> 'a ellnet_block \<times> 'a \<times> 'a" where
  "ellnet_double B C st = (\<lambda>(sm2, s3, tm2, t3) k e0 e1.
     let sm1 = st_sm1 st; s0 = st_s0 st; s1 = st_s1 st; s2 = st_s2 st;
         tm1 = st_tm1 st; t0 = st_t0 st; t1 = st_t1 st; t2 = st_t2 st;
         e0 = element_mul B e0 tm1 sm2;
         e1 = element_mul B e1 tm2 sm1;
         cm3 = element_sub B (en_m3 k) e0 e1;
         e0 = element_mul B e0 t0 sm2;
         e1 = element_mul B e1 tm2 s0;
         cm2 = element_sub B (en_m2 k) e0 e1;
         cm2 = element_mul B cm2 cm2 C;
         e0 = element_mul B e0 t0 sm1;
         e1 = element_mul B e1 tm1 s0;
         cm1 = element_sub B (en_m1 k) e0 e1;
         e0 = element_mul B e0 t1 sm1;
         e1 = element_mul B e1 tm1 s1;
         c0 = element_sub B (en_0 k) e0 e1;
         c0 = element_mul B c0 c0 C;
         e0 = element_mul B e0 t1 s0;
         e1 = element_mul B e1 t0 s1;
         c1 = element_sub B (en_1 k) e0 e1;
         e0 = element_mul B e0 t2 s0;
         e1 = element_mul B e1 t0 s2;
         c2 = element_sub B (en_2 k) e0 e1;
         c2 = element_mul B c2 c2 C;
         e0 = element_mul B e0 t2 s1;
         e1 = element_mul B e1 t1 s2;
         c3 = element_sub B (en_3 k) e0 e1;
         e0 = element_mul B e0 t3 s1;
         e1 = element_mul B e1 t1 s3;
         c4 = element_sub B (en_4 k) e0 e1;
         c4 = element_mul B c4 c4 C
     in (\<lparr> en_m3 = cm3, en_m2 = cm2, en_m1 = cm1, en_0 = c0, en_1 = c1, en_2 = c2, en_3 = c3, en_4 = c4 \<rparr>, e0, e1))"

text \<open>Both parts of a pair times an element of the base field.\<close>

definition scale_fi :: "'a field_s \<Rightarrow> 'a fq_data \<Rightarrow> 'a fq_data \<Rightarrow> 'a \<Rightarrow> 'a fq_data" where
  "scale_fi B out u t = (
     let re = element_mul B (fi_re out) (fi_re u) t;
         im = element_mul B (fi_im out) (fi_im u) t
     in \<lparr> fq_x = re, fq_y = im \<rparr>)"

text \<open>The variables \<open>out\<close>, \<open>dm1\<close>, \<open>d0\<close>, \<open>d1\<close>, \<open>u\<close> and \<open>v\<close>.\<close>

type_synonym 'a ellnet_net = "'a fq_data \<times> 'a fq_data \<times> 'a fq_data \<times> 'a fq_data \<times> 'a fq_data \<times> 'a fq_data"

definition ellnet_net_step ::
  "'a field_s \<Rightarrow> 'a fq_data field_s \<Rightarrow> bool \<Rightarrow> 'a \<Rightarrow> 'a fq_data \<Rightarrow> 'a ellnet_pp_st \<Rightarrow> 'a ellnet_net \<Rightarrow> 'a ellnet_net" where
  "ellnet_net_step B F2 add A Bv st = (\<lambda>(out, dm1, d0, d1, u, v).
     let sm1 = st_sm1 st; s0 = st_s0 st; s1 = st_s1 st; s2 = st_s2 st;
         tm1 = st_tm1 st; t0 = st_t0 st; t1 = st_t1 st; t2 = st_t2 st;
         u = element_square F2 u d0;
         v = element_mul F2 v dm1 d1
     in if add then
       let out = scale_fi B out u t0;
           dm1 = scale_fi B dm1 v s0;
           dm1 = element_sub F2 dm1 dm1 out;
           out = scale_fi B out u t1;
           d0 = scale_fi B d0 v s1;
           d0 = element_sub F2 d0 d0 out;
           d0 = scale_fi B d0 d0 A;
           out = scale_fi B out u t2;
           d1 = scale_fi B d1 v s2;
           d1 = element_sub F2 d1 d1 out;
           d1 = element_mul F2 d1 d1 Bv
       in (out, dm1, d0, d1, u, v)
     else
       let out = scale_fi B out u tm1;
           dm1 = scale_fi B dm1 v sm1;
           dm1 = element_sub F2 dm1 dm1 out;
           out = scale_fi B out u t0;
           d0 = scale_fi B d0 v s0;
           d0 = element_sub F2 d0 d0 out;
           out = scale_fi B out u t1;
           d1 = scale_fi B d1 v s1;
           d1 = element_sub F2 d1 d1 out;
           d1 = scale_fi B d1 d1 A
       in (out, dm1, d0, d1, u, v))"

section \<open>The pairing\<close>

text \<open>The bits \<open>m, ..., 0\<close> of the order.\<close>

fun ellnet_loop ::
  "gmp \<Rightarrow> 'a field_s \<Rightarrow> 'a fq_data field_s \<Rightarrow> int \<Rightarrow> 'a \<Rightarrow> 'a \<Rightarrow> 'a fq_data \<Rightarrow> nat \<Rightarrow> 'a ellnet_block \<Rightarrow>
     'a ellnet_pp_st \<Rightarrow> 'a ellnet_tmp \<Rightarrow> 'a \<Rightarrow> 'a \<Rightarrow> 'a ellnet_net \<Rightarrow> 'a ellnet_net" where
  "ellnet_loop G B F2 r C A Bv m k st tmp e0 e1 net = (
     let (st, tmp) = ellnet_products B k st tmp;
         bit = (mpz_tstbit G r m \<noteq> 0);
         (k, e0, e1) = (if bit then ellnet_double_add B C st tmp k e0 e1 else ellnet_double B C st tmp k e0 e1);
         net = ellnet_net_step B F2 bit A Bv st net
     in case m of 0 \<Rightarrow> net | Suc m \<Rightarrow> ellnet_loop G B F2 r C A Bv m k st tmp e0 e1 net)"

declare ellnet_loop.simps [simp del]

definition ellnet_st_init :: "'a field_s \<Rightarrow> 'a ellnet_pp_st" where
  "ellnet_st_init B = (let z = element_init B in
     \<lparr> st_sm1 = z, st_s0 = z, st_s1 = z, st_s2 = z, st_tm1 = z, st_t0 = z, st_t1 = z, st_t2 = z \<rparr>)"

text \<open>\<open>order\<close> and \<open>phikonr\<close> are the fields \<open>r\<close> and \<open>phikonr\<close> of the pairing.\<close>

definition a_pairing_ellnet ::
  "gmp \<Rightarrow> 'a a_pairing_data \<Rightarrow> int \<Rightarrow> int \<Rightarrow> 'a fq_data \<Rightarrow> 'a point \<Rightarrow> 'a point \<Rightarrow> 'a fq_data" where
  "a_pairing_ellnet G ad order phikonr out in1 in2 = (
     let B = ad_Fq ad; F2 = ad_Fq2 ad;
         x = pt_x in1; y = pt_y in1;
         x2 = pt_x in2; y2 = pt_y in2;
         (k, C) = ellnet_start B x y;
         (A, Bv, C, cm1, d1) = ellnet_factors B F2 x y x2 y2 (element_init B) (element_init F2) C (en_m1 k) (element_init F2);
         k = k\<lparr> en_m1 := cm1 \<rparr>;
         (k, C) = ellnet_finish B k C;
         dm1 = element_set1 F2 (element_init F2);
         d0 = element_set1 F2 (element_init F2);
         tmp = (element_init B, element_init B, element_init B, element_init B);
         m = mpz_sizeinbase G order 2 - 2;
         (out, dm1, d0, d1, u, v) = ellnet_loop G B F2 order C A Bv m k (ellnet_st_init B) tmp (element_init B) (element_init B)
           (out, dm1, d0, d1, element_init F2, element_init F2)
     in a_tateexp G B F2 out d1 d0 phikonr)"

section \<open>Preprocessing the first argument\<close>

text \<open>The entries of \<open>seq\<close> that are written, in order; the last bit needs the products only.\<close>

fun ellnet_pp_loop ::
  "gmp \<Rightarrow> 'a field_s \<Rightarrow> int \<Rightarrow> 'a \<Rightarrow> nat \<Rightarrow> 'a ellnet_block \<Rightarrow> 'a ellnet_tmp \<Rightarrow> 'a \<Rightarrow> 'a \<Rightarrow> 'a ellnet_pp_st list" where
  "ellnet_pp_loop G B r C m k tmp e0 e1 = (
     let (st, tmp) = ellnet_products B k (ellnet_st_init B) tmp
     in case m of 0 \<Rightarrow> [st]
     | Suc m' \<Rightarrow>
         let bit = (mpz_tstbit G r m \<noteq> 0);
             (k, e0, e1) = (if bit then ellnet_double_add B C st tmp k e0 e1 else ellnet_double B C st tmp k e0 e1)
         in st # ellnet_pp_loop G B r C m' k tmp e0 e1)"

declare ellnet_pp_loop.simps [simp del]

definition a_pairing_ellnet_pp_init :: "gmp \<Rightarrow> 'a a_pairing_data \<Rightarrow> int \<Rightarrow> 'a point \<Rightarrow> 'a ellnet_pp" where
  "a_pairing_ellnet_pp_init G ad order in1 = (
     let B = ad_Fq ad;
         x = pt_x in1; y = pt_y in1;
         (k, C) = ellnet_start B x y;
         (k, C) = ellnet_finish B k C;
         tmp = (element_init B, element_init B, element_init B, element_init B)
     in \<lparr> pp_x = element_set B (element_init B) x, pp_y = element_set B (element_init B) y,
          pp_seq = ellnet_pp_loop G B order C (mpz_sizeinbase G order 2 - 2) k tmp (element_init B) (element_init B) \<rparr>)"

fun ellnet_apply_loop ::
  "gmp \<Rightarrow> 'a field_s \<Rightarrow> 'a fq_data field_s \<Rightarrow> int \<Rightarrow> 'a \<Rightarrow> 'a fq_data \<Rightarrow> 'a ellnet_pp_st list \<Rightarrow> nat \<Rightarrow> nat \<Rightarrow>
     'a ellnet_net \<Rightarrow> 'a ellnet_net" where
  "ellnet_apply_loop G B F2 r A Bv sq k m net = (
     let net = ellnet_net_step B F2 (mpz_tstbit G r m \<noteq> 0) A Bv (sq ! k) net
     in case m of 0 \<Rightarrow> net | Suc m \<Rightarrow> ellnet_apply_loop G B F2 r A Bv sq (k + 1) m net)"

declare ellnet_apply_loop.simps [simp del]

definition a_pairing_ellnet_pp_apply ::
  "gmp \<Rightarrow> 'a a_pairing_data \<Rightarrow> int \<Rightarrow> int \<Rightarrow> 'a fq_data \<Rightarrow> 'a point \<Rightarrow> 'a ellnet_pp \<Rightarrow> 'a fq_data" where
  "a_pairing_ellnet_pp_apply G ad order phikonr out in2 pp = (
     let B = ad_Fq ad; F2 = ad_Fq2 ad;
         x2 = pt_x in2; y2 = pt_y in2;
         (A, Bv, e0, e1, d1) = ellnet_factors B F2 (pp_x pp) (pp_y pp) x2 y2 (element_init B) (element_init F2)
           (element_init B) (element_init B) (element_init F2);
         dm1 = element_set1 F2 (element_init F2);
         d0 = element_set1 F2 (element_init F2);
         m = mpz_sizeinbase G order 2 - 2;
         (out, dm1, d0, d1, u, v) = ellnet_apply_loop G B F2 order A Bv (pp_seq pp) 0 m
           (out, dm1, d0, d1, element_init F2, element_init F2)
     in a_tateexp G B F2 out d1 d0 phikonr)"

end
