(* ===== verification/Pairing.thy ===== *)
theory Pairing
  imports AParam AEllnet NaiveFp "HOL-Library.Signed_Division"
begin

text \<open>
  The table of a pairing, \<^verbatim>\<open>include/pbc_pairing.h\<close> and \<^verbatim>\<open>ecc/pairing.c\<close>, its initialisation for
  the parameters of type A, \<^verbatim>\<open>ecc/a_param.c\<close>, and the choice of a prime field, \<^verbatim>\<open>arith/fp.c\<close>. A
  function pointer is the name of the function it points to, \<open>G1\<close>, \<open>G2\<close> and \<open>GT\<close> are the names
  of the fields they point to. A call through a pointer that is not set, and one that finds data
  of another layout behind its \<open>void\<close> pointer, is \<open>None\<close>. The objects that a preprocessed point
  refers to are in a store of points.
\<close>

section \<open>The choice of a prime field\<close>

datatype fp_impl = fp_naive | fp_fast | fp_faster | fp_mont

definition option_fpinit :: fp_impl where
  "option_fpinit = fp_naive"

text \<open>The function that is called.\<close>

definition field_init_fp :: "gmp \<Rightarrow> fp_impl \<Rightarrow> int \<Rightarrow> fp_impl" where
  "field_init_fp G opt modulus = (
     if mpz_fits_ulong_p G modulus then fp_naive
     else if mpz_odd_p G modulus then opt else fp_faster)"

definition pbc_tweak_use_fp :: "fp_impl \<Rightarrow> string \<Rightarrow> fp_impl" where
  "pbc_tweak_use_fp opt s = (
     if s = ''naive'' then fp_naive
     else if s = ''fast'' then fp_fast
     else if s = ''faster'' then fp_faster
     else if s = ''mont'' then fp_mont
     else opt)"

section \<open>The table\<close>

datatype map_fn = map_unset | map_proj | map_affine | map_ellnet
datatype pp_fn = pp_unset | pp_default | pp_miller | pp_ellnet
datatype phi_fn = phi_unset | phi_warn | phi_id
datatype coddh_fn = coddh_unset | coddh_generic
datatype option_fn = option_unset | option_default | option_a
datatype group = group_unset | group_Eq | group_Fq2

record ('z, 'a) pairing_s =
  pg_r :: int
  pg_Zr :: "'z field_s"
  pg_G1 :: group
  pg_G2 :: group
  pg_GT :: group
  pg_phikonr :: int
  pg_phi :: phi_fn
  pg_map :: map_fn
  pg_is_almost_coddh :: coddh_fn
  pg_pp_init :: pp_fn
  pg_pp_clear :: pp_fn
  pg_pp_apply :: pp_fn
  pg_option_set :: option_fn
  pg_data :: "'a a_pairing_data"

text \<open>What \<open>data\<close> of a \<open>pairing_pp_s\<close> points to.\<close>

datatype 'a pp_data = pp_address nat | pp_coeffs "('a \<times> 'a \<times> 'a) list" | pp_net "'a ellnet_pp" | pp_freed

type_synonym 'a point_store = "nat \<Rightarrow> 'a point"

section \<open>Calls through the table\<close>

definition bilinear_map ::
  "gmp \<Rightarrow> ('z, 'a) pairing_s \<Rightarrow> 'a fq_data \<Rightarrow> 'a point \<Rightarrow> 'a point \<Rightarrow> 'a fq_data option" where
  "bilinear_map G p out in1 in2 = (
     case pg_map p of
       map_unset \<Rightarrow> None
     | map_proj \<Rightarrow> Some (a_pairing_proj G (pg_data p) (pg_phikonr p) out in1 in2)
     | map_affine \<Rightarrow> Some (a_pairing_affine G (pg_data p) (pg_phikonr p) out in1 in2)
     | map_ellnet \<Rightarrow> Some (a_pairing_ellnet G (pg_data p) (pg_r p) (pg_phikonr p) out in1 in2))"

definition pairing_apply ::
  "gmp \<Rightarrow> ('z, 'a) pairing_s \<Rightarrow> 'a fq_data \<Rightarrow> 'a point \<Rightarrow> 'a point \<Rightarrow> 'a fq_data option" where
  "pairing_apply G p out in1 in2 = bilinear_map G p out in1 in2"

definition default_pp_init :: "nat \<Rightarrow> 'a pp_data" where
  "default_pp_init in1 = pp_address in1"

definition default_pp_apply ::
  "gmp \<Rightarrow> ('z, 'a) pairing_s \<Rightarrow> 'a point_store \<Rightarrow> 'a fq_data \<Rightarrow> 'a point \<Rightarrow> 'a pp_data \<Rightarrow> 'a fq_data option" where
  "default_pp_apply G p mem out in2 dat = (
     case dat of pp_address l \<Rightarrow> pairing_apply G p out (mem l) in2 | _ \<Rightarrow> None)"

definition default_pp_clear :: "'a pp_data \<Rightarrow> 'a pp_data" where
  "default_pp_clear dat = dat"

definition pairing_pp_init ::
  "gmp \<Rightarrow> ('z, 'a) pairing_s \<Rightarrow> 'a point_store \<Rightarrow> nat \<Rightarrow> 'a pp_data option" where
  "pairing_pp_init G p mem in1 = (
     case pg_pp_init p of
       pp_unset \<Rightarrow> None
     | pp_default \<Rightarrow> Some (default_pp_init in1)
     | pp_miller \<Rightarrow> Some (pp_coeffs (a_pairing_pp_init (pg_data p) (mem in1)))
     | pp_ellnet \<Rightarrow> Some (pp_net (a_pairing_ellnet_pp_init G (pg_data p) (pg_r p) (mem in1))))"

definition pairing_pp_apply ::
  "gmp \<Rightarrow> ('z, 'a) pairing_s \<Rightarrow> 'a point_store \<Rightarrow> 'a fq_data \<Rightarrow> 'a point \<Rightarrow> 'a pp_data \<Rightarrow> 'a fq_data option" where
  "pairing_pp_apply G p mem out in2 dat = (
     case pg_pp_apply p of
       pp_unset \<Rightarrow> None
     | pp_default \<Rightarrow> default_pp_apply G p mem out in2 dat
     | pp_miller \<Rightarrow> (case dat of
         pp_coeffs cs \<Rightarrow> Some (a_pairing_pp_apply G (pg_data p) (pg_phikonr p) out in2 cs) | _ \<Rightarrow> None)
     | pp_ellnet \<Rightarrow> (case dat of
         pp_net n \<Rightarrow> Some (a_pairing_ellnet_pp_apply G (pg_data p) (pg_r p) (pg_phikonr p) out in2 n) | _ \<Rightarrow> None))"

definition a_pairing_pp_clear :: "'a pp_data \<Rightarrow> 'a pp_data option" where
  "a_pairing_pp_clear dat = (case dat of pp_coeffs cs \<Rightarrow> Some pp_freed | _ \<Rightarrow> None)"

definition a_pairing_ellnet_pp_clear :: "'a pp_data \<Rightarrow> 'a pp_data option" where
  "a_pairing_ellnet_pp_clear dat = (case dat of pp_net n \<Rightarrow> Some pp_freed | _ \<Rightarrow> None)"

definition pairing_pp_clear :: "('z, 'a) pairing_s \<Rightarrow> 'a pp_data \<Rightarrow> 'a pp_data option" where
  "pairing_pp_clear p dat = (
     case pg_pp_clear p of
       pp_unset \<Rightarrow> None
     | pp_default \<Rightarrow> Some (default_pp_clear dat)
     | pp_miller \<Rightarrow> a_pairing_pp_clear dat
     | pp_ellnet \<Rightarrow> a_pairing_ellnet_pp_clear dat)"

definition default_option_set :: "('z, 'a) pairing_s \<Rightarrow> string \<Rightarrow> string \<Rightarrow> ('z, 'a) pairing_s" where
  "default_option_set p k v = p"

definition a_pairing_option_set :: "('z, 'a) pairing_s \<Rightarrow> string \<Rightarrow> string \<Rightarrow> ('z, 'a) pairing_s" where
  "a_pairing_option_set p k v = (
     if k = ''method'' then
       if v = ''miller'' then
         p\<lparr> pg_map := map_proj, pg_pp_init := pp_miller, pg_pp_clear := pp_miller, pg_pp_apply := pp_miller \<rparr>
       else if v = ''miller-affine'' then
         p\<lparr> pg_map := map_affine, pg_pp_init := pp_miller, pg_pp_clear := pp_miller, pg_pp_apply := pp_miller \<rparr>
       else if v = ''shipsey-stange'' then
         p\<lparr> pg_map := map_ellnet, pg_pp_init := pp_ellnet, pg_pp_clear := pp_ellnet, pg_pp_apply := pp_ellnet \<rparr>
       else p
     else p)"

definition pairing_option_set :: "('z, 'a) pairing_s \<Rightarrow> string \<Rightarrow> string \<Rightarrow> ('z, 'a) pairing_s option" where
  "pairing_option_set p k v = (
     case pg_option_set p of
       option_unset \<Rightarrow> None
     | option_default \<Rightarrow> Some (default_option_set p k v)
     | option_a \<Rightarrow> Some (a_pairing_option_set p k v))"

definition phi_identity :: "'a point field_s \<Rightarrow> 'a point \<Rightarrow> 'a point \<Rightarrow> 'a point" where
  "phi_identity F out inn = element_set F out inn"

definition phi_warning :: "'a point \<Rightarrow> 'a point \<Rightarrow> 'a point" where
  "phi_warning out inn = out"

text \<open>1 for \<open>(g, g^x, h, h^x)\<close> and \<open>(g, g^x, h, h^-x)\<close>.\<close>

definition generic_is_almost_coddh ::
  "gmp \<Rightarrow> ('z, 'a) pairing_s \<Rightarrow> 'a point \<Rightarrow> 'a point \<Rightarrow> 'a point \<Rightarrow> 'a point \<Rightarrow> int option" where
  "generic_is_almost_coddh G p a b c d = (
     let F = ad_Fq2 (pg_data p) in
     case bilinear_map G p (element_init F) a d of
       None \<Rightarrow> None
     | Some t0 \<Rightarrow>
         (case bilinear_map G p (element_init F) b c of
            None \<Rightarrow> None
          | Some t1 \<Rightarrow>
              if element_cmp F t0 t1 = 0 then Some 1
              else
                let t0 = element_mul F t0 t0 t1
                in if element_is1 F t0 \<noteq> 0 then Some 1 else Some 0))"

definition is_almost_coddh ::
  "gmp \<Rightarrow> ('z, 'a) pairing_s \<Rightarrow> 'a point \<Rightarrow> 'a point \<Rightarrow> 'a point \<Rightarrow> 'a point \<Rightarrow> int option" where
  "is_almost_coddh G p a b c d = (
     case pg_is_almost_coddh p of coddh_unset \<Rightarrow> None | coddh_generic \<Rightarrow> generic_is_almost_coddh G p a b c d)"

definition pairing_is_symmetric :: "('z, 'a) pairing_s \<Rightarrow> bool" where
  "pairing_is_symmetric p \<longleftrightarrow> pg_G1 p = pg_G2 p"

text \<open>The field \<open>fixed_length_in_bytes\<close> of the group that a pointer leads to.\<close>

definition group_length :: "'a a_pairing_data \<Rightarrow> group \<Rightarrow> int option" where
  "group_length ad g = (
     case g of
       group_unset \<Rightarrow> None
     | group_Eq \<Rightarrow> Some (f_fixed_length (ad_Eq ad))
     | group_Fq2 \<Rightarrow> Some (f_fixed_length (ad_Fq2 ad)))"

definition pairing_length_in_bytes_G1 :: "('z, 'a) pairing_s \<Rightarrow> int option" where
  "pairing_length_in_bytes_G1 p = group_length (pg_data p) (pg_G1 p)"

definition pairing_length_in_bytes_x_only_G1 :: "('z, 'a) pairing_s \<Rightarrow> int option" where
  "pairing_length_in_bytes_x_only_G1 p = map_option (\<lambda>n. n sdiv 2) (group_length (pg_data p) (pg_G1 p))"

definition pairing_length_in_bytes_compressed_G1 :: "('z, 'a) pairing_s \<Rightarrow> int option" where
  "pairing_length_in_bytes_compressed_G1 p = map_option (\<lambda>n. n sdiv 2 + 1) (group_length (pg_data p) (pg_G1 p))"

definition pairing_length_in_bytes_G2 :: "('z, 'a) pairing_s \<Rightarrow> int option" where
  "pairing_length_in_bytes_G2 p = group_length (pg_data p) (pg_G2 p)"

definition pairing_length_in_bytes_compressed_G2 :: "('z, 'a) pairing_s \<Rightarrow> int option" where
  "pairing_length_in_bytes_compressed_G2 p = map_option (\<lambda>n. n sdiv 2 + 1) (group_length (pg_data p) (pg_G2 p))"

definition pairing_length_in_bytes_x_only_G2 :: "('z, 'a) pairing_s \<Rightarrow> int option" where
  "pairing_length_in_bytes_x_only_G2 p = map_option (\<lambda>n. n sdiv 2) (group_length (pg_data p) (pg_G2 p))"

definition pairing_length_in_bytes_GT :: "('z, 'a) pairing_s \<Rightarrow> int option" where
  "pairing_length_in_bytes_GT p = group_length (pg_data p) (pg_GT p)"

definition pairing_length_in_bytes_Zr :: "('z, 'a) pairing_s \<Rightarrow> int" where
  "pairing_length_in_bytes_Zr p = f_fixed_length (pg_Zr p)"

section \<open>Initialisation\<close>

text \<open>
  The functions \<open>fpz\<close> and \<open>fpq\<close> make the tables that \<open>field_init_fp\<close> chooses for \<open>r\<close> and \<open>q\<close>.
  \<open>None\<close> is a search for a generator of the curve that does not end.
\<close>

definition pairing_init_a_param ::
  "gmp \<Rightarrow> (int \<Rightarrow> 'z field_s) \<Rightarrow> (int \<Rightarrow> 'a field_s) \<Rightarrow> entropy \<Rightarrow> nat \<Rightarrow> ('z, 'a) pairing_s \<Rightarrow> a_param \<Rightarrow>
     (('z, 'a) pairing_s \<times> nat) option" where
  "pairing_init_a_param G fpz fpq R n p param = (
     let r = par_r param;
         Zr = fpz r;
         Fq = fpq (par_q param);
         a = element_set1 Fq (element_init Fq);
         b = element_set0 Fq (element_init Fq)
     in case field_init_curve_ab G R n Fq a b r (Some (par_h param)) of
          None \<Rightarrow> None
        | Some (Eq, cdp, n) \<Rightarrow>
            Some (p\<lparr> pg_data := \<lparr> ad_Fq = Fq, ad_Fq2 = field_init_fi G Fq, ad_Eq = Eq, ad_exp2 = exp2 param,
                                   ad_exp1 = exp1 param, ad_sign1 = sign1 param \<rparr>,
                     pg_r := r, pg_Zr := Zr, pg_map := map_proj, pg_phikonr := par_h param,
                     pg_G1 := group_Eq, pg_G2 := group_Eq, pg_phi := phi_id, pg_GT := group_Fq2,
                     pg_option_set := option_a, pg_pp_init := pp_miller, pg_pp_clear := pp_miller,
                     pg_pp_apply := pp_miller \<rparr>, n))"

definition pairing_set_defaults :: "('z, 'a) pairing_s \<Rightarrow> ('z, 'a) pairing_s" where
  "pairing_set_defaults p = p\<lparr> pg_option_set := option_default, pg_pp_init := pp_default,
     pg_pp_clear := pp_default, pg_pp_apply := pp_default \<rparr>"

definition a_param_input ::
  "gmp \<Rightarrow> (int \<Rightarrow> 'z field_s) \<Rightarrow> (int \<Rightarrow> 'a field_s) \<Rightarrow> entropy \<Rightarrow> nat \<Rightarrow> ('z, 'a) pairing_s \<Rightarrow>
     (('z, 'a) pairing_s \<times> nat) option" where
  "a_param_input G fpz fpq R n p = (
     let p = (pairing_set_defaults p)\<lparr> pg_is_almost_coddh := coddh_generic, pg_phi := phi_warn \<rparr>
     in pairing_init_a_param G fpz fpq R n p a_param_builtin)"

text \<open>
  How reading parameters ends: \<open>init_done\<close> with the table, \<open>init_exit\<close> for an unknown type, which
  ends the process, \<open>init_other\<close> for the types \<open>d\<close> and \<open>f\<close>, \<open>init_memory\<close> for an error in
  memory, \<open>init_loop\<close> for a run without end.
\<close>

datatype 'p init_result = init_done 'p nat | init_exit | init_other string | init_memory | init_loop

definition pairing_init_inp_generic ::
  "gmp \<Rightarrow> gmp_io \<Rightarrow> (int \<Rightarrow> 'z field_s) \<Rightarrow> (int \<Rightarrow> 'a field_s) \<Rightarrow> entropy \<Rightarrow> nat \<Rightarrow> ('z, 'a) pairing_s \<Rightarrow>
     'c fetch_ops \<Rightarrow> 'c \<Rightarrow> ('z, 'a) pairing_s init_result" where
  "pairing_init_inp_generic G IO fpz fpq R n p fops ctx = (
     let p = pairing_set_defaults p in
     case token_get_generic fops token_init ctx of
       None \<Rightarrow> init_loop
     | Some None \<Rightarrow> init_memory
     | Some (Some (tok, ctx)) \<Rightarrow>
         if tok_type tok \<noteq> token_word then init_done p n
         else case token_get_generic fops tok ctx of
           None \<Rightarrow> init_loop
         | Some None \<Rightarrow> init_memory
         | Some (Some (tok, ctx)) \<Rightarrow>
             if tok_type tok \<noteq> token_word then init_done p n
             else case tok_s tok of
               None \<Rightarrow> init_memory
             | Some s \<Rightarrow>
                 let p = p\<lparr> pg_is_almost_coddh := coddh_generic, pg_phi := phi_warn \<rparr> in
                 if s = ''a'' then
                   (case a_param_inp_generic IO a_param_init fops ctx of
                      None \<Rightarrow> init_loop
                    | Some None \<Rightarrow> init_memory
                    | Some (Some (ap, ctx)) \<Rightarrow>
                        (case pairing_init_a_param G fpz fpq R n p ap of
                           None \<Rightarrow> init_loop
                         | Some (p, n) \<Rightarrow> init_done p n))
                 else if s = ''d'' \<or> s = ''f'' then init_other s
                 else init_exit)"

definition pairing_init_inp_buf ::
  "gmp \<Rightarrow> gmp_io \<Rightarrow> (int \<Rightarrow> 'z field_s) \<Rightarrow> (int \<Rightarrow> 'a field_s) \<Rightarrow> entropy \<Rightarrow> nat \<Rightarrow> ('z, 'a) pairing_s \<Rightarrow>
     string \<Rightarrow> nat \<Rightarrow> ('z, 'a) pairing_s init_result" where
  "pairing_init_inp_buf G IO fpz fpq R n p buf len =
     pairing_init_inp_generic G IO fpz fpq R n p fops_buf (tracker_init buf len)"

end
