(* ===== verification/PairingCalls.thy ===== *)
theory PairingCalls
  imports Pairing
begin

text \<open>
  Sequences of calls on a pairing of type A: points are written to a store, preprocessed, applied
  and cleared, and the option \<open>method\<close> changes the routines in between. The routines find their
  data behind a \<open>void\<close> pointer; a discipline on the calls, checked without running them, keeps
  every routine on data of its own layout.
\<close>

section \<open>Calls\<close>

datatype 'a pairing_call =
    Call_set nat "'a point"
  | Call_option string string
  | Call_pp_init nat nat
  | Call_pp_apply nat "'a fq_data" "'a point"
  | Call_pp_clear nat
  | Call_apply "'a fq_data" "'a point" "'a point"

record ('z, 'a) pairing_state =
  ps_pairing :: "('z, 'a) pairing_s"
  ps_mem :: "'a point_store"
  ps_pp :: "nat \<rightharpoonup> 'a pp_data"

text \<open>A call and what it writes to the destination of a value.\<close>

inductive pairing_step ::
  "gmp \<Rightarrow> ('z, 'a) pairing_state \<Rightarrow> 'a pairing_call \<Rightarrow> 'a fq_data list \<Rightarrow> ('z, 'a) pairing_state \<Rightarrow> bool"
  for G where
  step_set: "pairing_step G s (Call_set l P) [] (s\<lparr> ps_mem := (ps_mem s)(l := P) \<rparr>)"
| step_option: "pairing_option_set (ps_pairing s) k v = Some p \<Longrightarrow>
    pairing_step G s (Call_option k v) [] (s\<lparr> ps_pairing := p \<rparr>)"
| step_pp_init: "pairing_pp_init G (ps_pairing s) (ps_mem s) l = Some d \<Longrightarrow>
    pairing_step G s (Call_pp_init i l) [] (s\<lparr> ps_pp := (ps_pp s)(i \<mapsto> d) \<rparr>)"
| step_pp_apply: "ps_pp s i = Some d \<Longrightarrow> pairing_pp_apply G (ps_pairing s) (ps_mem s) out Q d = Some x \<Longrightarrow>
    pairing_step G s (Call_pp_apply i out Q) [x] s"
| step_pp_clear: "ps_pp s i = Some d \<Longrightarrow> pairing_pp_clear (ps_pairing s) d = Some d' \<Longrightarrow>
    pairing_step G s (Call_pp_clear i) [] (s\<lparr> ps_pp := (ps_pp s)(i \<mapsto> d') \<rparr>)"
| step_apply: "pairing_apply G (ps_pairing s) out P Q = Some x \<Longrightarrow>
    pairing_step G s (Call_apply out P Q) [x] s"

inductive_cases step_setE [elim!]: "pairing_step G s (Call_set l P) xs s'"
inductive_cases step_optionE [elim!]: "pairing_step G s (Call_option k v) xs s'"
inductive_cases step_initE [elim!]: "pairing_step G s (Call_pp_init i l) xs s'"
inductive_cases step_applyE [elim!]: "pairing_step G s (Call_pp_apply i out Q) xs s'"
inductive_cases step_clearE [elim!]: "pairing_step G s (Call_pp_clear i) xs s'"
inductive_cases step_mapE [elim!]: "pairing_step G s (Call_apply out P Q) xs s'"

inductive_simps step_simps:
  "pairing_step G s (Call_set l P) xs s'" "pairing_step G s (Call_option k v) xs s'" "pairing_step G s (Call_pp_init i l) xs s'"
  "pairing_step G s (Call_pp_apply i out Q) xs s'" "pairing_step G s (Call_pp_clear i) xs s'"

inductive pairing_run ::
  "gmp \<Rightarrow> ('z, 'a) pairing_state \<Rightarrow> 'a pairing_call list \<Rightarrow> 'a fq_data list \<Rightarrow> ('z, 'a) pairing_state \<Rightarrow> bool"
  for G where
  run_done: "pairing_run G s [] [] s"
| run_more: "pairing_step G s c xs s1 \<Longrightarrow> pairing_run G s1 cs ys s' \<Longrightarrow> pairing_run G s (c # cs) (xs @ ys) s'"

inductive_simps run_Nil [simp]: "pairing_run G s [] ys s'"
inductive_simps run_Cons: "pairing_run G s (c # cs) ys s'"

lemma step_deterministic:
  "pairing_step G s c xs s1 \<Longrightarrow> pairing_step G s c ys s2 \<Longrightarrow> xs = ys \<and> s1 = s2"
  by (cases c) (auto simp del: fun_upd_apply)

lemma run_deterministic:
  "pairing_run G s cs xs s1 \<Longrightarrow> pairing_run G s cs ys s2 \<Longrightarrow> xs = ys \<and> s1 = s2"
proof (induction arbitrary: ys s2 rule: pairing_run.induct)
  case (run_more s c xs s1 cs zs s')
  then show ?case unfolding run_Cons by (metis step_deterministic)
qed simp

section \<open>The discipline\<close>

text \<open>The routines that an option selects.\<close>

definition option_mode :: "string \<Rightarrow> string \<Rightarrow> pp_fn \<Rightarrow> pp_fn" where
  "option_mode k v m = (
     if k = ''method'' then
       if v = ''miller'' \<or> v = ''miller-affine'' then pp_miller else if v = ''shipsey-stange'' then pp_ellnet else m
     else m)"

text \<open>The routines in force and the layout of the data behind each pointer, before and after a call.\<close>

fun call_type :: "'a pairing_call \<Rightarrow> pp_fn \<times> (nat \<rightharpoonup> pp_fn) \<Rightarrow> (pp_fn \<times> (nat \<rightharpoonup> pp_fn)) option" where
  "call_type (Call_set l P) (m, e) = Some (m, e)"
| "call_type (Call_option k v) (m, e) = Some (option_mode k v m, e)"
| "call_type (Call_pp_init i l) (m, e) = Some (m, e(i \<mapsto> m))"
| "call_type (Call_pp_apply i out Q) (m, e) = (if e i = Some m then Some (m, e) else None)"
| "call_type (Call_pp_clear i) (m, e) = (if e i = Some m then Some (m, e(i := None)) else None)"
| "call_type (Call_apply out P Q) (m, e) = Some (m, e)"

fun calls_type :: "'a pairing_call list \<Rightarrow> pp_fn \<times> (nat \<rightharpoonup> pp_fn) \<Rightarrow> (pp_fn \<times> (nat \<rightharpoonup> pp_fn)) option" where
  "calls_type [] t = Some t"
| "calls_type (c # cs) t = (case call_type c t of None \<Rightarrow> None | Some t \<Rightarrow> calls_type cs t)"

text \<open>The pairs of points whose pairing the calls ask for, with the old value of the destination.\<close>

fun paired ::
  "'a pairing_call list \<Rightarrow> 'a point_store \<Rightarrow> (nat \<rightharpoonup> 'a point) \<Rightarrow> ('a fq_data \<times> 'a point \<times> 'a point) list" where
  "paired [] mem pts = []"
| "paired (Call_set l P # cs) mem pts = paired cs (mem(l := P)) pts"
| "paired (Call_option k v # cs) mem pts = paired cs mem pts"
| "paired (Call_pp_init i l # cs) mem pts = paired cs mem (pts(i \<mapsto> mem l))"
| "paired (Call_pp_apply i out Q # cs) mem pts = (out, the (pts i), Q) # paired cs mem pts"
| "paired (Call_pp_clear i # cs) mem pts = paired cs mem pts"
| "paired (Call_apply out P Q # cs) mem pts = (out, P, Q) # paired cs mem pts"

text \<open>The routines of type A on two points.\<close>

definition a_values ::
  "gmp \<Rightarrow> 'a a_pairing_data \<Rightarrow> int \<Rightarrow> int \<Rightarrow> 'a fq_data \<times> 'a point \<times> 'a point \<Rightarrow> 'a fq_data set" where
  "a_values G ad r h = (\<lambda>(out, P, Q).
     {a_pairing_affine G ad h out P Q, a_pairing_proj G ad h out P Q,
      a_pairing_pp_apply G ad h out Q (a_pairing_pp_init ad P),
      a_pairing_ellnet G ad r h out P Q,
      a_pairing_ellnet_pp_apply G ad r h out Q (a_pairing_ellnet_pp_init G ad r P)})"

definition pp_for :: "gmp \<Rightarrow> 'a a_pairing_data \<Rightarrow> int \<Rightarrow> pp_fn \<Rightarrow> 'a point \<Rightarrow> 'a pp_data" where
  "pp_for G ad r m P = (if m = pp_miller then pp_coeffs (a_pairing_pp_init ad P) else pp_net (a_pairing_ellnet_pp_init G ad r P))"

text \<open>A table as \<open>pairing_init_a_param\<close> and \<open>a_pairing_option_set\<close> leave it.\<close>

definition a_table_ok :: "'a a_pairing_data \<Rightarrow> int \<Rightarrow> int \<Rightarrow> pp_fn \<Rightarrow> ('z, 'a) pairing_s \<Rightarrow> bool" where
  "a_table_ok ad r h m p \<longleftrightarrow>
     pg_data p = ad \<and> pg_r p = r \<and> pg_phikonr p = h \<and> pg_option_set p = option_a \<and>
     pg_pp_init p = m \<and> pg_pp_apply p = m \<and> pg_pp_clear p = m \<and>
     (m = pp_miller \<and> pg_map p \<in> {map_proj, map_affine} \<or> m = pp_ellnet \<and> pg_map p = map_ellnet)"

definition a_state_ok ::
  "gmp \<Rightarrow> 'a a_pairing_data \<Rightarrow> int \<Rightarrow> int \<Rightarrow> pp_fn \<times> (nat \<rightharpoonup> pp_fn) \<Rightarrow> (nat \<rightharpoonup> 'a point) \<Rightarrow>
     ('z, 'a) pairing_state \<Rightarrow> bool" where
  "a_state_ok G ad r h t pts s \<longleftrightarrow>
     a_table_ok ad r h (fst t) (ps_pairing s) \<and>
     (\<forall>i m. snd t i = Some m \<longrightarrow> (\<exists>P. pts i = Some P \<and> ps_pp s i = Some (pp_for G ad r m P)))"

section \<open>The discipline is sound\<close>

lemma a_table_option:
  "a_table_ok ad r h m p \<Longrightarrow> \<exists>p'. pairing_option_set p k v = Some p' \<and> a_table_ok ad r h (option_mode k v m) p'"
  by (auto simp: a_table_ok_def pairing_option_set_def a_pairing_option_set_def option_mode_def)

lemma a_table_init:
  "a_table_ok ad r h m p \<Longrightarrow> pairing_pp_init G p mem l = Some (pp_for G ad r m (mem l)) \<and> m \<in> {pp_miller, pp_ellnet}"
  by (auto simp: a_table_ok_def pairing_pp_init_def pp_for_def)

lemma a_table_apply:
  "a_table_ok ad r h m p \<Longrightarrow>
    \<exists>x\<in>a_values G ad r h (out, P, Q). pairing_pp_apply G p mem out Q (pp_for G ad r m P) = Some x"
  by (auto simp: a_table_ok_def pairing_pp_apply_def pp_for_def a_values_def)

lemma a_table_map:
  "a_table_ok ad r h m p \<Longrightarrow> \<exists>x\<in>a_values G ad r h (out, P, Q). pairing_apply G p out P Q = Some x"
  by (auto simp: a_table_ok_def pairing_apply_def bilinear_map_def a_values_def)

lemma a_table_clear: "a_table_ok ad r h m p \<Longrightarrow> pairing_pp_clear p (pp_for G ad r m P) = Some pp_freed"
  by (auto simp: a_table_ok_def pairing_pp_clear_def pp_for_def a_pairing_pp_clear_def a_pairing_ellnet_pp_clear_def)

lemma step_sound:
  assumes "call_type c t = Some t'" "a_state_ok G ad r h t pts s"
  shows "\<exists>xs s' pts'. pairing_step G s c xs s' \<and> a_state_ok G ad r h t' pts' s' \<and>
    (\<forall>cs. \<exists>qs. paired (c # cs) (ps_mem s) pts = qs @ paired cs (ps_mem s') pts' \<and>
       list_all2 (\<lambda>q x. x \<in> a_values G ad r h q) qs xs)"
proof -
  obtain m e where t: "t = (m, e)" by (cases t)
  have tab: "a_table_ok ad r h m (ps_pairing s)"
    and dat: "\<And>i m'. e i = Some m' \<Longrightarrow> (\<exists>P. pts i = Some P \<and> ps_pp s i = Some (pp_for G ad r m' P))"
    using assms(2) by (auto simp: a_state_ok_def t)
  show ?thesis
  proof (cases c)
    case (Call_set l P)
    then show ?thesis using assms tab
      by (intro exI [of _ "[]"] exI [of _ "s\<lparr> ps_mem := (ps_mem s)(l := P) \<rparr>"] exI [of _ pts])
        (auto simp: t a_state_ok_def intro: pairing_step.intros)
  next
    case (Call_option k v)
    obtain p where p: "pairing_option_set (ps_pairing s) k v = Some p" "a_table_ok ad r h (option_mode k v m) p"
      using a_table_option [OF tab] by blast
    show ?thesis using assms p Call_option
      by (intro exI [of _ "[]"] exI [of _ "s\<lparr> ps_pairing := p \<rparr>"] exI [of _ pts])
        (auto simp: t a_state_ok_def intro: pairing_step.intros)
  next
    case (Call_pp_init i l)
    note p = a_table_init [OF tab, of G "ps_mem s" l]
    show ?thesis using assms p tab Call_pp_init
      by (intro exI [of _ "[]"] exI [of _ "s\<lparr> ps_pp := (ps_pp s)(i \<mapsto> pp_for G ad r m (ps_mem s l)) \<rparr>"]
          exI [of _ "pts(i \<mapsto> ps_mem s l)"])
        (auto simp: t a_state_ok_def intro: pairing_step.intros)
  next
    case (Call_pp_apply i out Q)
    then have e: "e i = Some m" "t' = t" using assms(1) by (auto simp: t split: if_splits)
    obtain P where P: "pts i = Some P" "ps_pp s i = Some (pp_for G ad r m P)" using dat [OF e(1)] by blast
    obtain x where x: "x \<in> a_values G ad r h (out, P, Q)" "pairing_pp_apply G (ps_pairing s) (ps_mem s) out Q (pp_for G ad r m P) = Some x"
      using a_table_apply [OF tab] by blast
    show ?thesis using assms(2) e P x unfolding Call_pp_apply
      by (intro exI [of _ "[x]"] exI [of _ s] exI [of _ pts] conjI allI exI [of _ "[(out, P, Q)]"])
        (auto intro: pairing_step.intros)
  next
    case (Call_pp_clear i)
    then have e: "e i = Some m" "t' = (m, e(i := None))" using assms(1) by (auto simp: t split: if_splits)
    obtain P where P: "pts i = Some P" "ps_pp s i = Some (pp_for G ad r m P)" using dat [OF e(1)] by blast
    note cl = a_table_clear [OF tab, of G P]
    have st: "pairing_step G s (Call_pp_clear i) [] (s\<lparr> ps_pp := (ps_pp s)(i \<mapsto> pp_freed) \<rparr>)"
      by (rule pairing_step.intros(5) [OF P(2) cl])
    show ?thesis using assms(2) e unfolding Call_pp_clear
      by (intro exI [of _ "[]"] exI [of _ "s\<lparr> ps_pp := (ps_pp s)(i \<mapsto> pp_freed) \<rparr>"] exI [of _ pts] conjI st)
        (auto simp: t a_state_ok_def)
  next
    case (Call_apply out P Q)
    obtain x where x: "x \<in> a_values G ad r h (out, P, Q)" "pairing_apply G (ps_pairing s) out P Q = Some x"
      using a_table_map [OF tab] by blast
    show ?thesis using assms x unfolding Call_apply
      by (intro exI [of _ "[x]"] exI [of _ s] exI [of _ pts] conjI allI exI [of _ "[(out, P, Q)]"])
        (auto simp: t intro: pairing_step.intros)
  qed
qed

lemma run_sound:
  "calls_type cs t = Some t' \<Longrightarrow> a_state_ok G ad r h t pts s \<Longrightarrow>
    \<exists>xs s'. pairing_run G s cs xs s' \<and> list_all2 (\<lambda>q x. x \<in> a_values G ad r h q) (paired cs (ps_mem s) pts) xs \<and>
      (\<exists>pts'. a_state_ok G ad r h t' pts' s')"
proof (induction cs arbitrary: t pts s)
  case Nil
  then show ?case by auto
next
  case (Cons c cs)
  obtain t1 where t1: "call_type c t = Some t1" "calls_type cs t1 = Some t'"
    using Cons.prems(1) by (auto split: option.splits)
  obtain xs s1 pts1 where s1: "pairing_step G s c xs s1" "a_state_ok G ad r h t1 pts1 s1"
    "\<forall>cs. \<exists>qs. paired (c # cs) (ps_mem s) pts = qs @ paired cs (ps_mem s1) pts1 \<and> list_all2 (\<lambda>q x. x \<in> a_values G ad r h q) qs xs"
    using step_sound [OF t1(1) Cons.prems(2)] by blast
  obtain qs where qs: "paired (c # cs) (ps_mem s) pts = qs @ paired cs (ps_mem s1) pts1"
    "list_all2 (\<lambda>q x. x \<in> a_values G ad r h q) qs xs" using s1(3) by blast
  obtain ys s' pts' where ys: "pairing_run G s1 cs ys s'" "a_state_ok G ad r h t' pts' s'"
    "list_all2 (\<lambda>q x. x \<in> a_values G ad r h q) (paired cs (ps_mem s1) pts1) ys"
    using Cons.IH [OF t1(2) s1(2)] by blast
  have "pairing_run G s (c # cs) (xs @ ys) s'" by (rule pairing_run.run_more [OF s1(1) ys(1)])
  moreover have "list_all2 (\<lambda>q x. x \<in> a_values G ad r h q) (paired (c # cs) (ps_mem s) pts) (xs @ ys)"
    unfolding qs(1) using qs(2) ys(3) by (rule list_all2_appendI)
  ultimately show ?case using ys(2) by blast
qed

end
