(* ===== verification/AParamCorrect.thy ===== *)
theory AParamCorrect
  imports AParam MpzBytes
begin

text \<open>
  The generation of parameters of type A returns what the header \<^verbatim>\<open>pbc_a_param.h\<close> promises, as
  soon as a round succeeds; and the text form of parameters is read back.
\<close>

section \<open>Generation\<close>

definition a_param_cofactor :: "prime_test \<Rightarrow> a_param \<Rightarrow> bool" where
  "a_param_cofactor pr p \<longleftrightarrow> par_r p * par_h p = par_q p + 1 \<and> 12 dvd par_h p \<and> pr (par_q p)"

definition a_param_order :: "prime_test \<Rightarrow> int \<Rightarrow> a_param \<Rightarrow> bool" where
  "a_param_order pr rbits p \<longleftrightarrow> par_r p = 2 ^ nat (exp2 p) + sign1 p * 2 ^ nat (exp1 p) + sign0 p \<and> pr (par_r p) \<and>
     (sign1 p = 1 \<and> exp2 p = rbits - 1 \<or> sign1 p = - 1 \<and> exp2 p = rbits) \<and> sign0 p \<in> {1, - 1} \<and>
     1 \<le> exp1 p \<and> exp1 p < exp2 p"

context gmp_laws
begin

lemma setbit_0: "mpz_setbit G 0 n = 2 ^ n"
  by (simp add: setbit)

lemma find_cofactor_ok:
  "find_cofactor G pr R rbits qbits n sp c = (sp', c', b) \<Longrightarrow>
    exp2 sp' = exp2 sp \<and> exp1 sp' = exp1 sp \<and> sign1 sp' = sign1 sp \<and> sign0 sp' = sign0 sp \<and> par_r sp' = par_r sp \<and>
    (b \<longrightarrow> a_param_cofactor pr sp')"
proof (induction n arbitrary: sp c)
  case 0
  then show ?case by simp
next
  case (Suc n)
  define q where "q = mpz_setbit G 0 (nat (if qbits - rbits - 4 + 1 < 3 then 3 else qbits - rbits - 4 + 1))"
  define h where "h = R c q * 12"
  define p where "p = sp\<lparr> par_h := h, par_q := h * par_r sp - 1 \<rparr>"
  have eq: "find_cofactor G pr R rbits qbits (Suc n) sp c =
      (if pr (par_q p) then (p, c + 1, True) else find_cofactor G pr R rbits qbits n p (c + 1))"
    by (simp add: Let_def gmp_law p_def h_def q_def)
  show ?case
  proof (cases "pr (par_q p)")
    case True
    then have "sp' = p" "b" using Suc.prems unfolding eq by simp_all
    then show ?thesis using True by (simp add: a_param_cofactor_def p_def h_def mult.commute)
  next
    case False
    then have "find_cofactor G pr R rbits qbits n p (c + 1) = (sp', c', b)" using Suc.prems unfolding eq by simp
    from Suc.IH [OF this] show ?thesis by (simp add: p_def)
  qed
qed

lemma a_param_try_ok:
  assumes "a_param_try G pr rand R rbits qbits sp d c = Some (sp', d', c', True)" "2 \<le> rbits"
  shows "a_param_order pr rbits sp' \<and> a_param_cofactor pr sp'"
proof -
  define s1 where "s1 = (if rand d mod 2 \<noteq> 0 then sp\<lparr> exp2 := rbits - 1, sign1 := 1 \<rparr> else sp\<lparr> exp2 := rbits, sign1 := - 1 \<rparr>)"
  have s1: "sign1 s1 = 1 \<and> exp2 s1 = rbits - 1 \<or> sign1 s1 = - 1 \<and> exp2 s1 = rbits" by (simp add: s1_def)
  have "exp2 s1 - 1 = 0 \<Longrightarrow> a_param_try G pr rand R rbits qbits sp d c = None"
    by (cases "rand d mod 2 = 0") (simp_all add: a_param_try_def s1_def)
  then have nz: "exp2 s1 - 1 \<noteq> 0" using assms(1) by auto
  then have gt: "0 < exp2 s1 - 1" using s1 assms(2) by auto
  define e1 where "e1 = int (rand (d + 1) mod nat \<bar>exp2 s1 - 1\<bar>) + 1"
  have "int (rand (d + 1) mod nat \<bar>exp2 s1 - 1\<bar>) < exp2 s1 - 1"
    using gt mod_less_divisor [of "nat \<bar>exp2 s1 - 1\<bar>" "rand (d + 1)"] by linarith
  then have e1: "1 \<le> e1" "e1 < exp2 s1" unfolding e1_def by linarith+
  define s0 where "s0 = (if rand (d + 2) mod 2 \<noteq> 0 then 1 else (- 1 :: int))"
  define r where "r = 2 ^ nat (exp2 s1) + sign1 s1 * 2 ^ nat e1 + s0"
  define s2 where "s2 = s1\<lparr> exp1 := e1, sign0 := s0, par_r := r, par_q := 2 ^ nat e1 \<rparr>"
  have eq: "a_param_try G pr rand R rbits qbits sp d c = (
      if \<not> pr r then Some (s2, d + 3, c, False)
      else let (sp, c, found) = find_cofactor G pr R rbits qbits 10 s2 c in Some (sp, d + 3, c, found))"
    using nz
    by (cases "rand d mod 2 = 0"; cases "rand (d + 2) mod 2 = 0")
      (simp_all add: a_param_try_def Let_def s1_def e1_def gmp_law setbit_0 s2_def r_def s0_def del: find_cofactor.simps)
  obtain c2 where f: "pr r" "find_cofactor G pr R rbits qbits 10 s2 c = (sp', c2, True)"
    using assms(1) unfolding eq by (auto split: if_splits prod.splits simp del: find_cofactor.simps)
  note k = find_cofactor_ok [OF f(2)]
  then have "a_param_order pr rbits sp'"
    using f(1) s1 e1 by (auto simp: a_param_order_def s2_def r_def s0_def)
  then show ?thesis using k by simp
qed

text \<open>The rounds in order; the search returns the first one that finds a cofactor.\<close>

definition rounds ::
  "prime_test \<Rightarrow> (nat \<Rightarrow> nat) \<Rightarrow> entropy \<Rightarrow> int \<Rightarrow> int \<Rightarrow> a_param \<Rightarrow> nat \<Rightarrow> nat \<Rightarrow> nat \<Rightarrow> (a_param \<times> nat \<times> nat \<times> bool) option" where
  "rounds pr rand R rbits qbits sp d c n =
     ((\<lambda>s. case s of Some (sp, d, c, b) \<Rightarrow> a_param_try G pr rand R rbits qbits sp d c | None \<Rightarrow> None) ^^ n)
       (a_param_try G pr rand R rbits qbits sp d c)"

lemma a_param_gen_loop_ok:
  assumes "rounds pr rand R rbits qbits sp d c n = Some (sp', d', c', True)"
    and "\<forall>j<n. \<exists>t. rounds pr rand R rbits qbits sp d c j = Some t \<and> \<not> snd (snd (snd t))"
  shows "a_param_gen_loop G pr rand R rbits qbits sp d c = Some (Some (sp', d', c'))"
  using assms
proof (induction n arbitrary: sp d c)
  case 0
  then show ?case by (subst a_param_gen_loop.simps) (simp add: rounds_def)
next
  case (Suc n)
  obtain s1 d1 c1 where t: "a_param_try G pr rand R rbits qbits sp d c = Some (s1, d1, c1, False)"
    using Suc.prems(2) [rule_format, of 0] by (force simp: rounds_def)
  have shift: "rounds pr rand R rbits qbits sp d c (Suc j) = rounds pr rand R rbits qbits s1 d1 c1 j" for j
    unfolding rounds_def using t by (simp add: funpow_swap1)
  have "a_param_gen_loop G pr rand R rbits qbits s1 d1 c1 = Some (Some (sp', d', c'))"
    using Suc.IH [of s1 d1 c1] Suc.prems unfolding shift by (metis Suc_less_eq shift)
  then show ?case using t by (subst a_param_gen_loop.simps) simp
qed

end

lemma a_param_gen_returns:
  assumes "a_param_gen_loop G pr rand R rbits qbits sp d c = Some (Some (sp', d', c'))" "gmp_laws G" "2 \<le> rbits"
  shows "a_param_order pr rbits sp' \<and> a_param_cofactor pr sp'"
proof -
  define P where "P = (\<lambda>G pr (rand :: nat \<Rightarrow> nat) (R :: entropy) rbits (qbits :: int) (sp :: a_param) (d :: nat) (c :: nat) res.
    gmp_laws G \<longrightarrow> 2 \<le> rbits \<longrightarrow>
      (\<forall>sp' d' c'. res = Some (sp', d' :: nat, c' :: nat) \<longrightarrow> a_param_order pr rbits sp' \<and> a_param_cofactor pr sp'))"
  have "P G pr rand R rbits qbits sp d c (Some (sp', d', c'))"
  proof (rule a_param_gen_loop.raw_induct [OF _ assms(1)])
    fix loop G pr rand R rbits qbits sp d c res
    assume IH: "\<And>G pr rand R rbits qbits sp d c res. loop G pr rand R rbits qbits sp d c = Some res \<Longrightarrow>
        P G pr rand R rbits qbits sp d c res"
      and run: "(case a_param_try G pr rand R rbits qbits sp d c of None \<Rightarrow> Some None
        | Some (sp, d, c, found) \<Rightarrow> if found then Some (Some (sp, d, c)) else loop G pr rand R rbits qbits sp d c) = Some res"
    show "P G pr rand R rbits qbits sp d c res"
    proof (cases "a_param_try G pr rand R rbits qbits sp d c")
      case None
      then show ?thesis using run by (auto simp: P_def)
    next
      case (Some t)
      obtain s1 d1 c1 b where t: "t = (s1, d1, c1, b)" by (cases t) auto
      show ?thesis
      proof (cases b)
        case True
        then have "res = Some (s1, d1, c1)" using run Some t by simp
        then show ?thesis using gmp_laws.a_param_try_ok [of G pr rand R rbits qbits sp d c s1 d1 c1] Some t True
          by (simp add: P_def)
      next
        case False
        then have "P G pr rand R rbits qbits s1 d1 c1 res" using IH [of G pr rand R rbits qbits s1 d1 c1 res] run Some t by simp
        then show ?thesis by (simp add: P_def)
      qed
    qed
  qed
  then show ?thesis using assms(2,3) by (simp add: P_def)
qed

section \<open>Text\<close>

text \<open>What the code relies on of the conversions of GMP: a number is written as a word, and read back.\<close>

locale gmp_io_laws =
  fixes IO :: gmp_io
  assumes out_word: "good_word (Word (io_out_str IO z))" "ascii (io_out_str IO z)"
    and set_out: "io_set_str IO y (io_out_str IO z) = z"
    and get_si: "- (2 ^ 31) \<le> z \<Longrightarrow> z < 2 ^ 31 \<Longrightarrow> io_get_si IO z = z"

lemma lex_word:
  assumes "good_word (Word w)" "is_delim c"
  shows "lex (w @ c # s) = (Word w, c # s)"
proof (cases w)
  case (Cons x v)
  have "takeWhile (\<lambda>y. \<not> is_delim y) (v @ c # s) = v" "dropWhile (\<lambda>y. \<not> is_delim y) (v @ c # s) = c # s"
    using assms Cons by simp_all
  then show ?thesis using assms(1) Cons by (auto simp: lex_def)
qed (use assms(1) in simp)

lemma lex_white: "is_white c \<Longrightarrow> lex (c # s) = lex s"
  by (simp add: lex_def)

lemma separators:
  "is_white (CHR '' '')" "is_white (CHR 0x0A)" "is_delim (CHR '' '')" "is_delim (CHR 0x0A)"
  by (simp_all add: is_white_def is_delim_def white_def delims_def)

text \<open>A line of a parameter file.\<close>

definition line :: "string \<Rightarrow> string \<Rightarrow> string" where
  "line k v = k @ '' '' @ v @ newline"

lemma lex_pairs_white: "is_white c \<Longrightarrow> lex_pairs (c # s) = lex_pairs s"
  by (subst (1 2) lex_pairs.simps) (simp add: lex_white)

lemma lex_pairs_line:
  assumes "good_word (Word k)" "good_word (Word v)"
  shows "lex_pairs (line k v @ s) = (k, v) # lex_pairs s"
proof -
  have 1: "lex (line k v @ s) = (Word k, CHR '' '' # v @ CHR 0x0A # s)"
    using lex_word [OF assms(1) separators(3), of "v @ CHR 0x0A # s"] by (simp add: line_def newline_def)
  have 2: "lex (CHR '' '' # v @ CHR 0x0A # s) = (Word v, CHR 0x0A # s)"
    unfolding lex_white [OF separators(1)] by (rule lex_word [OF assms(2) separators(4)])
  show ?thesis
    by (subst lex_pairs.simps) (simp add: 1 2 lex_pairs_white [OF separators(2)])
qed

lemma lex_pairs_Nil: "lex_pairs [] = []"
  by (subst lex_pairs.simps) (simp add: lex_def)

definition keys_ok :: "string list \<Rightarrow> bool" where
  "keys_ok ks \<longleftrightarrow> (\<forall>k\<in>set ks. good_word (Word k) \<and> ascii k)"

lemma a_keys: "keys_ok [''type'', ''a'', ''q'', ''h'', ''r'', ''exp2'', ''exp1'', ''sign1'', ''sign0'']"
  by (simp add: keys_ok_def is_white_def is_delim_def white_def delims_def)

text \<open>What a lookup finds in a table.\<close>

lemma lookup_mpz_ok:
  "symtab_ok tab m \<Longrightarrow> m k = Some d \<Longrightarrow> lookup_mpz IO z tab k = Some (io_set_str IO z d)"
  "symtab_ok tab m \<Longrightarrow> m k = None \<Longrightarrow> lookup_mpz IO z tab k = Some z"
  by (simp_all add: lookup_mpz_def symtab_has_ok symtab_at_ok)

lemma lookup_int_ok:
  "symtab_ok tab m \<Longrightarrow> m k = Some d \<Longrightarrow> lookup_int IO tab k = Some (io_get_si IO (io_set_str IO 0 d))"
  "symtab_ok tab m \<Longrightarrow> m k = None \<Longrightarrow> lookup_int IO tab k = Some 0"
  by (simp_all add: lookup_int_def symtab_has_ok symtab_at_ok)

lemma symtab_init_ok: "symtab_ok symtab_init Map.empty"
  by (rule symtab.empty_ok)

definition small_int :: "int \<Rightarrow> bool" where
  "small_int z \<longleftrightarrow> - (2 ^ 31) \<le> z \<and> z < 2 ^ 31"

context gmp_io_laws
begin

lemma out_str_pairs:
  "lex_pairs (a_param_out_str IO p) =
    [(''type'', ''a''), (''q'', io_out_str IO (par_q p)), (''h'', io_out_str IO (par_h p)), (''r'', io_out_str IO (par_r p)),
     (''exp2'', io_out_str IO (exp2 p)), (''exp1'', io_out_str IO (exp1 p)), (''sign1'', io_out_str IO (sign1 p)),
     (''sign0'', io_out_str IO (sign0 p))]"
proof -
  have lines: "a_param_out_str IO p = line ''type'' ''a'' @ line ''q'' (io_out_str IO (par_q p)) @
      line ''h'' (io_out_str IO (par_h p)) @ line ''r'' (io_out_str IO (par_r p)) @ line ''exp2'' (io_out_str IO (exp2 p)) @
      line ''exp1'' (io_out_str IO (exp1 p)) @ line ''sign1'' (io_out_str IO (sign1 p)) @
      line ''sign0'' (io_out_str IO (sign0 p)) @ []"
    by (simp add: a_param_out_str_def param_out_type_def param_out_int_def param_out_mpz_def line_def)
  note k = a_keys [unfolded keys_ok_def]
  show ?thesis
    unfolding lines using k by (simp only: lex_pairs_line out_word(1) lex_pairs_Nil list.set insert_iff ball_simps simp_thms)
qed

lemma out_str_ascii: "ascii (a_param_out_str IO p)"
  using out_word(2)
  by (auto simp: a_param_out_str_def param_out_type_def param_out_int_def param_out_mpz_def newline_def ascii_def)

text \<open>Reading any text whose table has the entries of \<open>p\<close>.\<close>

lemma inp_generic_ok:
  assumes "fetch_source fops reads" "reads ctx s" "ascii s"
    and m: "map_of (rev (lex_pairs s)) ''q'' = Some (io_out_str IO (par_q p))"
      "map_of (rev (lex_pairs s)) ''h'' = Some (io_out_str IO (par_h p))"
      "map_of (rev (lex_pairs s)) ''r'' = Some (io_out_str IO (par_r p))"
      "map_of (rev (lex_pairs s)) ''exp2'' = Some (io_out_str IO (exp2 p))"
      "map_of (rev (lex_pairs s)) ''exp1'' = Some (io_out_str IO (exp1 p))"
      "map_of (rev (lex_pairs s)) ''sign1'' = Some (io_out_str IO (sign1 p))"
      "map_of (rev (lex_pairs s)) ''sign0'' = Some (io_out_str IO (sign0 p))"
    and small: "small_int (exp2 p)" "small_int (exp1 p)" "small_int (sign1 p)" "small_int (sign0 p)"
  shows "\<exists>ctx'. a_param_inp_generic IO p0 fops ctx = Some (Some (p, ctx'))"
proof -
  obtain tab ctx' where t: "param_read_generic symtab_init fops ctx = Some (Some (tab, ctx'))"
    "symtab_ok tab (map_of (rev (lex_pairs s)))"
    using fetch_source.param_read_loop_ok [OF assms(1-3) symtab_init_ok, of token_init]
    by (auto simp: param_read_generic_def)
  note l = lookup_mpz_ok(1) [OF t(2)] lookup_int_ok(1) [OF t(2)]
  show ?thesis
    using small by (simp add: a_param_inp_generic_def t(1) l m set_out small_int_def get_si)
qed

end

end
