(* ===== verification/ParamRef.thy ===== *)
theory ParamRef
  imports AParamCorrect
begin

text \<open>An instance of the conversions of GMP: decimal digits, behind a sign.\<close>

definition gmp_io_ref :: gmp_io where
  "gmp_io_ref = \<lparr> io_out_str = int_str 10,
     io_set_str = (\<lambda>z s. case s of [] \<Rightarrow> z
       | c # ds \<Rightarrow> if c = CHR ''-'' then - fst (set_str_loop gmp_ref 10 ds 0 0) else fst (set_str_loop gmp_ref 10 s 0 0)),
     io_get_si = (\<lambda>z. z) \<rparr>"

lemma digit_char_code: "d < 10 \<Longrightarrow> (of_char (digit_char d) :: nat) = 48 + d"
  by (simp add: digit_char_def of_char_of)

lemma digit_char_word:
  assumes "d < 10"
  shows "digit_char d \<notin> set ''<>#''" "\<not> is_white (digit_char d)" "\<not> is_delim (digit_char d)" "digit_char d \<noteq> CHR ''-''"
    "(of_char (digit_char d) :: int) < 128"
proof -
  have ne: "digit_char d \<noteq> c" if "(of_char c :: nat) < 48 \<or> 57 < (of_char c :: nat)" for c
    using that digit_char_code [OF assms] assms by auto
  show "digit_char d \<notin> set ''<>#''" "\<not> is_white (digit_char d)" "\<not> is_delim (digit_char d)" "digit_char d \<noteq> CHR ''-''"
    by (simp_all add: is_white_def is_delim_def white_def delims_def ne)
  have "(of_char (digit_char d) :: int) = int (48 + d)" by (simp only: digit_char_code [OF assms, symmetric] of_nat_of_char)
  then show "(of_char (digit_char d) :: int) < 128" using assms by simp
qed

lemma nat_str_10:
  obtains x w where "nat_str 10 n = x # w" "\<forall>c\<in>set (x # w). \<exists>d<10. c = digit_char d"
proof -
  have "nat_str 10 n \<noteq> []" by (simp add: nat_str_def digits_in.simps [of 10 n])
  then obtain x w where x: "nat_str 10 n = x # w" by (cases "nat_str 10 n") auto
  have "\<forall>c\<in>set (x # w). \<exists>d<10. c = digit_char d"
    unfolding x [symmetric] using digits_in_lt [of 10] by (auto simp: nat_str_def)
  with x that show ?thesis by blast
qed

interpretation io_ref: gmp_io_laws gmp_io_ref
proof unfold_locales
  fix z y
  obtain x w where n: "nat_str 10 (nat \<bar>z\<bar>) = x # w" "\<forall>c\<in>set (x # w). \<exists>d<10. c = digit_char d"
    by (rule nat_str_10)
  have v: "fst (set_str_loop gmp_ref 10 (x # w) 0 0) = \<bar>z\<bar>"
    using set_str_nat_str_10 [OF gmp_ref.gmp_laws_axioms, of "[]" "nat \<bar>z\<bar>" 0] unfolding n(1) append_Nil2
    by (simp add: ends_number_def)
  have word: "x \<notin> set ''<>#''" "\<not> is_white x" "x \<noteq> CHR ''-''" "\<forall>c\<in>set (x # w). \<not> is_delim c" "\<forall>c\<in>set (x # w). (of_char c :: int) < 128"
    using n(2) digit_char_word by auto
  have minus: "CHR ''-'' \<notin> set ''<>#''" "\<not> is_white (CHR ''-'')" by (simp_all add: is_white_def white_def)
  show "good_word (Word (io_out_str gmp_io_ref z))" "ascii (io_out_str gmp_io_ref z)"
    using word minus by (auto simp: gmp_io_ref_def int_str_def n(1) ascii_def)
  show "io_set_str gmp_io_ref y (io_out_str gmp_io_ref z) = z"
    using word(3) v by (simp add: gmp_io_ref_def int_str_def n(1) del: set_str_loop.simps)
qed (simp add: gmp_io_ref_def)

end
