(* ===== verification/PairingInit.thy ===== *)
theory PairingInit
  imports Pairing ParamRef
begin

text \<open>What the initialisation of a pairing reads from a text, as a function of its tokens.\<close>

text \<open>The parameters of a table of entries; a missing entry counts as 0.\<close>

definition mpz_entry :: "gmp_io \<Rightarrow> (string \<rightharpoonup> string) \<Rightarrow> string \<Rightarrow> int" where
  "mpz_entry IO m k = (case m k of None \<Rightarrow> 0 | Some d \<Rightarrow> io_set_str IO 0 d)"

definition int_entry :: "gmp_io \<Rightarrow> (string \<rightharpoonup> string) \<Rightarrow> string \<Rightarrow> int" where
  "int_entry IO m k = (case m k of None \<Rightarrow> 0 | Some d \<Rightarrow> io_get_si IO (io_set_str IO 0 d))"

definition a_param_of :: "gmp_io \<Rightarrow> (string \<rightharpoonup> string) \<Rightarrow> a_param" where
  "a_param_of IO m = \<lparr> exp2 = int_entry IO m ''exp2'', exp1 = int_entry IO m ''exp1'', sign1 = int_entry IO m ''sign1'',
     sign0 = int_entry IO m ''sign0'', par_r = mpz_entry IO m ''r'', par_q = mpz_entry IO m ''q'', par_h = mpz_entry IO m ''h'' \<rparr>"

datatype param_text = text_short | text_a a_param | text_other string | text_unknown

definition param_text :: "gmp_io \<Rightarrow> string \<Rightarrow> param_text" where
  "param_text IO s = (
     case lex s of
       (Word k, s1) \<Rightarrow>
         (case lex s1 of
            (Word t, s2) \<Rightarrow>
              if t = ''a'' then text_a (a_param_of IO (map_of (rev (lex_pairs s2))))
              else if t = ''d'' \<or> t = ''f'' then text_other t
              else text_unknown
          | _ \<Rightarrow> text_short)
     | _ \<Rightarrow> text_short)"

text \<open>How the initialisation ends for such a text.\<close>

definition init_spec ::
  "gmp \<Rightarrow> (int \<Rightarrow> 'z field_s) \<Rightarrow> (int \<Rightarrow> 'a field_s) \<Rightarrow> entropy \<Rightarrow> nat \<Rightarrow> ('z, 'a) pairing_s \<Rightarrow> param_text \<Rightarrow>
     ('z, 'a) pairing_s init_result" where
  "init_spec G fpz fpq R n p t = (
     case t of
       text_short \<Rightarrow> init_done (pairing_set_defaults p) n
     | text_a par \<Rightarrow>
         (case pairing_init_a_param G fpz fpq R n
            ((pairing_set_defaults p)\<lparr> pg_is_almost_coddh := coddh_generic, pg_phi := phi_warn \<rparr>) par of
            None \<Rightarrow> init_loop
          | Some (p, n) \<Rightarrow> init_done p n)
     | text_other s \<Rightarrow> init_other s
     | text_unknown \<Rightarrow> init_exit)"

lemma lookup_mpz_entry: "symtab_ok tab m \<Longrightarrow> lookup_mpz IO 0 tab k = Some (mpz_entry IO m k)"
  by (cases "m k") (simp_all add: lookup_mpz_ok mpz_entry_def)

lemma lookup_int_entry: "symtab_ok tab m \<Longrightarrow> lookup_int IO tab k = Some (int_entry IO m k)"
  by (cases "m k") (simp_all add: lookup_int_ok int_entry_def)

context fetch_source
begin

lemma a_param_inp_generic_entries:
  assumes "reads ctx s" "ascii s"
  shows "\<exists>ctx'. a_param_inp_generic IO a_param_init fops ctx = Some (Some (a_param_of IO (map_of (rev (lex_pairs s))), ctx'))"
proof -
  obtain tab ctx' where t: "param_read_generic symtab_init fops ctx = Some (Some (tab, ctx'))"
    "symtab_ok tab (map_of (rev (lex_pairs s)))"
    using param_read_loop_ok [OF assms symtab_init_ok, of token_init]
    by (auto simp: param_read_generic_def)
  show ?thesis
    by (simp add: a_param_inp_generic_def t(1) a_param_init_def lookup_mpz_entry [OF t(2)] lookup_int_entry [OF t(2)] a_param_of_def)
qed

lemma pairing_init_text:
  assumes "reads ctx s" "ascii s"
  shows "pairing_init_inp_generic G IO fpz fpq R n p fops ctx = init_spec G fpz fpq R n p (param_text IO s)"
proof -
  obtain ctx1 where g: "token_get_generic fops token_init ctx = Some (Some (store (fst (lex s)) token_init, ctx1))"
    "reads ctx1 (snd (lex s))"
    using token_get_ok [OF assms] by blast
  show ?thesis
  proof (cases "\<exists>k. fst (lex s) = Word k")
    case False
    then have "tok_type (store (fst (lex s)) token_init) \<noteq> token_word" "param_text IO s = text_short"
      by (cases "fst (lex s)"; force simp: store_def token_init_def param_text_def split: prod.splits)+
    then show ?thesis using g(1) by (simp add: pairing_init_inp_generic_def init_spec_def)
  next
    case True
    then obtain k s1 where k: "lex s = (Word k, s1)" by (metis prod.collapse)
    have a1: "ascii s1" using lex_ascii [OF assms(2)] k by simp
    let ?tok = "store (Word k) token_init"
    have t1: "tok_type ?tok = token_word" by (simp add: store_def)
    obtain ctx2 where g2: "token_get_generic fops ?tok ctx1 = Some (Some (store (fst (lex s1)) ?tok, ctx2))"
      "reads ctx2 (snd (lex s1))"
      using token_get_ok [OF _ a1] g(2) k by fastforce
    show ?thesis
    proof (cases "\<exists>v. fst (lex s1) = Word v")
      case False
      then have "tok_type (store (fst (lex s1)) ?tok) \<noteq> token_word" "param_text IO s = text_short"
        by (cases "fst (lex s1)"; force simp: k store_def token_init_def param_text_def split: prod.splits)+
      then show ?thesis using g g2 k t1 by (simp add: pairing_init_inp_generic_def init_spec_def)
    next
      case True
      then obtain v s2 where v: "lex s1 = (Word v, s2)" by (metis prod.collapse)
      have a2: "ascii s2" using lex_ascii [OF a1] v by simp
      have t2: "tok_type (store (Word v) ?tok) = token_word" "tok_s (store (Word v) ?tok) = Some v" by (simp_all add: store_def)
      have r2: "reads ctx2 s2" using g2(2) v by simp
      obtain ctx3 where g3: "a_param_inp_generic IO a_param_init fops ctx2 =
          Some (Some (a_param_of IO (map_of (rev (lex_pairs s2))), ctx3))"
        using a_param_inp_generic_entries [OF r2 a2] by blast
      show ?thesis using g g2 k v t1 t2 g3 
        by (cases "v = ''a''")
          (simp_all add: pairing_init_inp_generic_def init_spec_def param_text_def Let_def split: option.splits)
    qed
  qed
qed

end

section \<open>Reading back what was written\<close>

context gmp_io_laws
begin

lemma param_text_out_str:
  assumes "small_int (exp2 par)" "small_int (exp1 par)" "small_int (sign1 par)" "small_int (sign0 par)"
  shows "param_text IO (a_param_out_str IO par) = text_a par"
proof -
  define rest where "rest = line ''q'' (io_out_str IO (par_q par)) @
      line ''h'' (io_out_str IO (par_h par)) @ line ''r'' (io_out_str IO (par_r par)) @ line ''exp2'' (io_out_str IO (exp2 par)) @
      line ''exp1'' (io_out_str IO (exp1 par)) @ line ''sign1'' (io_out_str IO (sign1 par)) @
      line ''sign0'' (io_out_str IO (sign0 par))"
  have eq: "a_param_out_str IO par = ''type'' @ CHR '' '' # ''a'' @ CHR 0x0A # rest"
    by (simp add: rest_def a_param_out_str_def param_out_type_def param_out_int_def param_out_mpz_def line_def newline_def)
  note k = a_keys [unfolded keys_ok_def]
  have l1: "lex (a_param_out_str IO par) = (Word ''type'', CHR '' '' # ''a'' @ CHR 0x0A # rest)"
    unfolding eq by (rule lex_word [OF _ separators(3)]) (use k in simp)
  have l2: "lex (CHR '' '' # ''a'' @ CHR 0x0A # rest) = (Word ''a'', CHR 0x0A # rest)"
    unfolding lex_white [OF separators(1)] by (rule lex_word [OF _ separators(4)]) (use k in simp)
  have "lex_pairs (a_param_out_str IO par) = (''type'', ''a'') # lex_pairs (CHR 0x0A # rest)"
    by (subst lex_pairs.simps) (simp add: l1 l2 [simplified])
  then have p: "lex_pairs (CHR 0x0A # rest) = tl (lex_pairs (a_param_out_str IO par))" by simp
  show ?thesis
    using assms
    by (simp add: param_text_def l1 l2 [simplified] p [simplified] out_str_pairs a_param_of_def mpz_entry_def int_entry_def set_out get_si small_int_def)
qed

end

end
