(* ===== verification/ATate.thy ===== *)
theory ATate
  imports APairing Fi
begin

text \<open>
  The final exponentiation of \<^verbatim>\<open>ecc/a_param.c\<close>: the Lucas sequence computes a power of an
  element of norm 1, and dividing the conjugate by the element makes the norm 1.
\<close>

section \<open>Conjugates\<close>

definition gconj :: "'k::comm_ring_1 gauss \<Rightarrow> 'k gauss" where
  "gconj u = Gauss (re_part u) (- im_part u)"

definition gbase :: "'k::comm_ring_1 \<Rightarrow> 'k gauss" where
  "gbase c = Gauss c 0"

lemma gbase_parts [simp]: "re_part (gbase c) = c" "im_part (gbase c) = 0"
  by (simp_all add: gbase_def)

lemma gbase_mult: "gbase (c * d) = gbase c * gbase d"
  by (simp add: gauss_eq_iff)

lemma gbase_1 [simp]: "gbase 1 = 1"
  by (simp add: gauss_eq_iff)

lemma gconj_parts [simp]: "re_part (gconj u) = re_part u" "im_part (gconj u) = - im_part u"
  by (simp_all add: gconj_def)

lemma gconj_mult: "gconj (u * v) = gconj u * gconj v"
  by (simp add: gauss_eq_iff algebra_simps)

lemma gconj_1 [simp]: "gconj 1 = 1"
  by (simp add: gauss_eq_iff)

lemma gconj_gbase [simp]: "gconj (gbase c) = gbase c"
  by (simp add: gauss_eq_iff)

lemma gconj_gconj [simp]: "gconj (gconj u) = u"
  by (simp add: gauss_eq_iff)

lemma gconj_power: "gconj (u ^ n) = gconj u ^ n"
  by (induction n) (simp_all add: gconj_mult)

lemma norm_power:
  fixes u :: "'k::comm_ring_1 gauss"
  assumes "u * gconj u = 1"
  shows "u ^ n * gconj (u ^ n) = 1"
  using assms by (simp add: gconj_power power_mult_distrib [symmetric])

text \<open>The Lucas sequence \<open>V_m = u^m + u^-m\<close> of an element of norm 1 is twice a real part.\<close>

definition lucas_v :: "'k::comm_ring_1 gauss \<Rightarrow> nat \<Rightarrow> 'k" where
  "lucas_v u m = re_part (u ^ m) + re_part (u ^ m)"

lemma lucas_v_alt: "gbase (lucas_v u m) = u ^ m + gconj u ^ m"
  by (simp add: lucas_v_def gauss_eq_iff gconj_power [symmetric])

lemma lucas_v_mult:
  fixes u :: "'k::comm_ring_1 gauss"
  assumes "u * gconj u = 1" "n \<le> m"
  shows "lucas_v u m * lucas_v u n = lucas_v u (m + n) + lucas_v u (m - n)"
proof -
  have up: "u ^ m = u ^ (m - n) * u ^ n" "gconj u ^ m = gconj u ^ (m - n) * gconj u ^ n"
    using assms(2) by (simp_all add: power_add [symmetric])
  have one: "u ^ n * gconj u ^ n = 1" using assms(1) by (simp add: power_mult_distrib [symmetric])
  have "gbase (lucas_v u m * lucas_v u n) = (u ^ m + gconj u ^ m) * (u ^ n + gconj u ^ n)"
    by (simp add: gbase_mult lucas_v_alt)
  also have "\<dots> = u ^ (m + n) + gconj u ^ (m + n) + (u ^ (m - n) * (u ^ n * gconj u ^ n) + gconj u ^ (m - n) * (u ^ n * gconj u ^ n))"
    by (simp add: power_add up algebra_simps)
  also have "\<dots> = gbase (lucas_v u (m + n)) + gbase (lucas_v u (m - n))"
    by (simp add: one lucas_v_alt)
  also have "\<dots> = gbase (lucas_v u (m + n) + lucas_v u (m - n))"
    by (simp add: gauss_eq_iff)
  finally show ?thesis by (simp add: gauss_eq_iff)
qed

lemma lucas_v_0 [simp]: "lucas_v u 0 = 2"
  by (simp add: lucas_v_def)

lemma lucas_v_1: "lucas_v u 1 = re_part u + re_part u"
  by (simp add: lucas_v_def)

section \<open>The contract\<close>

text \<open>
  What the pairing needs of the base field: halves, quotients, and that a product with zero
  is zero even when the other factor is what a division by zero left behind.
\<close>

locale pairing_base = fi_field B V \<alpha> G
  for B :: "'a field_s" and V :: "'a set" and \<alpha> :: "'a \<Rightarrow> 'k::comm_ring_1" and G :: gmp +
  assumes two_nonzero: "(2::'k) \<noteq> 0"
    and halve_in: "n \<in> V \<Longrightarrow> a \<in> V \<Longrightarrow> element_halve B n a \<in> V"
    and halve: "n \<in> V \<Longrightarrow> a \<in> V \<Longrightarrow> \<alpha> (element_halve B n a) + \<alpha> (element_halve B n a) = \<alpha> a"
    and div_in: "n \<in> V \<Longrightarrow> a \<in> V \<Longrightarrow> b \<in> V \<Longrightarrow> \<alpha> b \<noteq> 0 \<Longrightarrow> element_div B n a b \<in> V"
    and div: "n \<in> V \<Longrightarrow> a \<in> V \<Longrightarrow> b \<in> V \<Longrightarrow> \<alpha> b \<noteq> 0 \<Longrightarrow> \<alpha> (element_div B n a b) * \<alpha> b = \<alpha> a"
    and mul_zero: "b \<in> V \<Longrightarrow> \<alpha> b = 0 \<Longrightarrow> element_mul B n a b \<in> V \<and> \<alpha> (element_mul B n a b) = 0"

context pairing_base
begin

lemma double_cancel:
  assumes "u + u = v + (v :: 'k)"
  shows "u = v"
proof -
  let ?two = "element_set_si B (element_init B) 2"
  have two: "?two \<in> V" "\<alpha> ?two = 2" using set_si_in [OF init_in] set_si [OF init_in] by simp_all
  have "\<alpha> ?two * u = \<alpha> ?two * v" unfolding two(2) mult_2 by (rule assms)
  from cancel_nonzero [OF two(1) _ this] show ?thesis using two(2) two_nonzero by simp
qed

lemma double_eq_0: "u + u = (0::'k) \<Longrightarrow> u = 0"
  by (rule double_cancel) simp

text \<open>The loop: with the bits above \<open>j\<close> read, \<open>v0\<close> and \<open>v1\<close> are two consecutive terms.\<close>

lemma lucas_loop_ok:
  assumes u: "u * gconj u = 1" and n: "0 \<le> n"
    and t0: "t0 \<in> V" "\<alpha> t0 = 2" and t1: "t1 \<in> V" "\<alpha> t1 = lucas_v u 1"
    and v0: "v0 \<in> V" "\<alpha> v0 = lucas_v u (nat n div 2 ^ Suc j)"
    and v1: "v1 \<in> V" "\<alpha> v1 = lucas_v u (Suc (nat n div 2 ^ Suc j))"
  shows "\<exists>w0 w1. lucas_loop G B n t0 t1 j v0 v1 = (w0, w1) \<and> w0 \<in> V \<and> w1 \<in> V \<and>
    \<alpha> w0 = lucas_v u (2 * (nat n div 2)) \<and> \<alpha> w1 = lucas_v u (Suc (2 * (nat n div 2)))"
proof -
  have mult: "lucas_v u m * lucas_v u (Suc m) - lucas_v u 1 = lucas_v u (2 * m + 1)" for m
    using lucas_v_mult [OF u, of m "Suc m"] by (simp add: mult.commute [of "lucas_v u m"] mult_2)
  have sq: "lucas_v u m * lucas_v u m - 2 = lucas_v u (2 * m)" for m
    using lucas_v_mult [OF u, of m m] by (simp add: mult_2)
  show ?thesis using v0 v1
  proof (induction j arbitrary: v0 v1)
    case 0
    define w1 where "w1 = element_sub B (element_mul B v1 v0 v1) (element_mul B v1 v0 v1) t1"
    define w0 where "w0 = element_sub B (element_square B v0 v0) (element_square B v0 v0) t0"
    have "lucas_loop G B n t0 t1 0 v0 v1 = (w0, w1)" by (simp add: w0_def w1_def Let_def)
    moreover have "w0 \<in> V" "w1 \<in> V" using 0 t0 t1 by (simp_all add: w0_def w1_def)
    moreover have "\<alpha> w0 = lucas_v u (2 * (nat n div 2))"
      using 0 t0 sq [of "nat n div 2"] by (simp add: w0_def impl_law)
    moreover have "\<alpha> w1 = lucas_v u (Suc (2 * (nat n div 2)))"
      using 0 t0 t1 mult [of "nat n div 2"] by (simp add: w1_def impl_law)
    ultimately show ?case by blast
  next
    case (Suc j)
    define m where "m = nat n div 2 ^ Suc (Suc j)"
    define k where "k = nat n div 2 ^ Suc j"
    have k: "k = 2 * m + mpz_tstbit G n (Suc j)" and bit: "mpz_tstbit G n (Suc j) \<le> 1"
    proof -
      have "mpz_tstbit G n (Suc j) = k mod 2" using n by (simp add: k_def gmp.tstbit_nat)
      moreover have "m = k div 2" unfolding m_def k_def div_mult2_eq [symmetric] by (simp add: mult.commute)
      ultimately show "k = 2 * m + mpz_tstbit G n (Suc j)" "mpz_tstbit G n (Suc j) \<le> 1" by simp_all
    qed
    note V = Suc.prems [folded m_def]
    show ?case
    proof (cases "mpz_tstbit G n (Suc j) = 0")
      case True
      define w1 where "w1 = element_sub B (element_mul B v1 v0 v1) (element_mul B v1 v0 v1) t1"
      define w0 where "w0 = element_sub B (element_square B v0 v0) (element_square B v0 v0) t0"
      have eq: "lucas_loop G B n t0 t1 (Suc j) v0 v1 = lucas_loop G B n t0 t1 j w0 w1"
        using True by (simp add: w0_def w1_def Let_def)
      have k': "k = 2 * m" using k True by simp
      have "w0 \<in> V" "w1 \<in> V" using V t0 t1 by (simp_all add: w0_def w1_def)
      moreover have "\<alpha> w0 = lucas_v u k" using V t0 sq [of m] by (simp add: w0_def impl_law k')
      moreover have "\<alpha> w1 = lucas_v u (Suc k)" using V t0 t1 mult [of m] by (simp add: w1_def impl_law k')
      ultimately show ?thesis unfolding eq using Suc.IH [of w0 w1] by (simp add: k_def)
    next
      case False
      define w0 where "w0 = element_sub B (element_mul B v0 v0 v1) (element_mul B v0 v0 v1) t1"
      define w1 where "w1 = element_sub B (element_square B v1 v1) (element_square B v1 v1) t0"
      have eq: "lucas_loop G B n t0 t1 (Suc j) v0 v1 = lucas_loop G B n t0 t1 j w0 w1"
        using False by (simp add: w0_def w1_def Let_def)
      have k': "k = Suc (2 * m)" using k False bit by simp
      have "w0 \<in> V" "w1 \<in> V" using V t0 t1 by (simp_all add: w0_def w1_def)
      moreover have "\<alpha> w0 = lucas_v u k" using V t0 t1 mult [of m] by (simp add: w0_def impl_law k')
      moreover have "\<alpha> w1 = lucas_v u (Suc k)" using V t0 sq [of "Suc m"] by (simp add: w1_def impl_law k')
      ultimately show ?thesis unfolding eq using Suc.IH [of w0 w1] by (simp add: k_def)
    qed
  qed
qed

text \<open>
  The result is the power with the exponent rounded down to an even number. For \<open>u = 1\<close> and
  \<open>u = - 1\<close> the denominator is zero, and the quotient is multiplied by zero.
\<close>

lemma lucas_odd_ok:
  assumes out: "out \<in> fq_pairs V" and inn: "inn \<in> fq_pairs V" and temp: "temp \<in> fq_pairs V"
    and u: "fi_val inn * gconj (fi_val inn) = 1" and n: "0 \<le> n"
  shows "lucas_odd G B out inn temp n \<in> fq_pairs V"
    and "fi_val (lucas_odd G B out inn temp n) = fi_val inn ^ (2 * (nat n div 2))"
proof -
  define t0 where "t0 = element_set_si B (fi_re temp) 2"
  define t1 where "t1 = element_double B (fi_im temp) (fi_re inn)"
  define v0 where "v0 = element_set B (fi_re out) t0"
  define v1 where "v1 = element_set B (fi_im out) t1"
  define m where "m = 2 * (nat n div 2)"
  let ?u = "fi_val inn"
  have V: "fi_re inn \<in> V" "fi_im inn \<in> V" "fi_re temp \<in> V" "fi_im temp \<in> V" "fi_re out \<in> V" "fi_im out \<in> V"
    using inn temp out by (simp_all add: fi_re_def fi_im_def)
  have re: "re_part ?u = \<alpha> (fi_re inn)" and im: "im_part ?u = \<alpha> (fi_im inn)"
    by (simp_all add: fi_re_def fi_im_def)
  have t0: "t0 \<in> V" "\<alpha> t0 = 2" unfolding t0_def using V by (simp_all add: impl_law)
  have t1: "t1 \<in> V" "\<alpha> t1 = lucas_v ?u 1" unfolding t1_def lucas_v_1 re using V by (simp_all add: impl_law)
  have v: "v0 \<in> V" "v1 \<in> V" "\<alpha> v0 = 2" "\<alpha> v1 = lucas_v ?u 1"
    unfolding v0_def v1_def using V t0 t1 by (simp_all add: set)
  define j where "j = mpz_sizeinbase G n 2 - 1"
  have "nat n < 2 ^ nbits (nat n)" by (rule nbits_upper)
  moreover have "Suc j = nbits (nat n)" using n by (simp add: j_def gmp.sizeinbase)
  ultimately have z: "nat n div 2 ^ Suc j = 0" by (metis div_less)
  have v0': "\<alpha> v0 = lucas_v ?u (nat n div 2 ^ Suc j)" and v1': "\<alpha> v1 = lucas_v ?u (Suc (nat n div 2 ^ Suc j))"
    unfolding z v(3,4) by (simp_all add: lucas_v_1)
  from lucas_loop_ok [OF u n t0 t1 v(1) v0' v(2) v1'] obtain w0 w1 where w: "lucas_loop G B n t0 t1 j v0 v1 = (w0, w1)" "w0 \<in> V" "w1 \<in> V"
    "\<alpha> w0 = lucas_v ?u m" "\<alpha> w1 = lucas_v ?u (Suc m)"
    unfolding m_def by blast
  define in0 where "in0 = element_mul B (fi_re inn) w0 t1"
  define w2 where "w2 = element_sub B (element_double B w1 w1) (element_double B w1 w1) in0"
  define sq where "sq = element_square B t1 t1"
  define d1 where "d1 = element_sub B sq sq t0"
  define d where "d = element_sub B d1 d1 t0"
  define x where "x = element_div B w2 w2 d"
  define r0 where "r0 = element_halve B w0 w0"
  define r1 where "r1 = element_mul B x x (fi_im inn)"
  have eq: "lucas_odd G B out inn temp n = \<lparr> fq_x = r0, fq_y = r1 \<rparr>"
    unfolding lucas_odd_def Let_def t0_def [symmetric] t1_def [symmetric] v0_def [symmetric] v1_def [symmetric]
      j_def [symmetric] w(1) prod.case in0_def [symmetric] w2_def [symmetric] sq_def [symmetric]
      d1_def [symmetric] d_def [symmetric] x_def [symmetric] r0_def [symmetric] r1_def [symmetric] ..
  let ?c = "re_part ?u" and ?s = "im_part ?u" and ?R = "re_part (?u ^ m)" and ?I = "im_part (?u ^ m)"
  have norm: "?c * ?c + ?s * ?s = 1"
    using arg_cong [OF u, of re_part] by simp
  have in0: "in0 \<in> V" "\<alpha> in0 = (?R + ?R) * (?c + ?c)"
    unfolding in0_def using V w(2) t1 by (simp_all add: impl_law w(4) lucas_v_1) (simp add: lucas_v_def)
  have w1: "\<alpha> w1 = (?R * ?c - ?I * ?s) + (?R * ?c - ?I * ?s)"
    unfolding w(5) lucas_v_def by (simp add: mult.commute)
  have w2: "w2 \<in> V" "\<alpha> w2 = - ((?I * ?s + ?I * ?s) + (?I * ?s + ?I * ?s))"
    unfolding w2_def using w(3) in0 by (simp_all add: impl_law w1 algebra_simps)
  have sq: "sq \<in> V" "\<alpha> sq = (?c + ?c) * (?c + ?c)"
    unfolding sq_def using square_in [OF t1(1,1)] square [OF t1(1,1)] unfolding t1(2) lucas_v_1 by blast+
  have d: "d \<in> V" "\<alpha> d = - ((?s * ?s + ?s * ?s) + (?s * ?s + ?s * ?s))"
  proof -
    have "d1 \<in> V" "\<alpha> d1 = \<alpha> sq - 2" unfolding d1_def using sq(1) t0 by (simp_all add: impl_law)
    then have d: "d \<in> V" "\<alpha> d = \<alpha> sq - 2 - 2" unfolding d_def using t0 by (simp_all add: impl_law)
    let ?N = "?c * ?c + ?s * ?s"
    have "\<alpha> sq = (?N + ?N) + (?N + ?N) - ((?s * ?s + ?s * ?s) + (?s * ?s + ?s * ?s))"
      unfolding sq(2) by (simp only: distrib_left distrib_right) simp
    then have "\<alpha> sq = (2 + 2) - ((?s * ?s + ?s * ?s) + (?s * ?s + ?s * ?s))" unfolding norm by simp
    then have "\<alpha> d = - ((?s * ?s + ?s * ?s) + (?s * ?s + ?s * ?s))" unfolding d(2) by (simp only: ) simp
    with d(1) show "d \<in> V" "\<alpha> d = - ((?s * ?s + ?s * ?s) + (?s * ?s + ?s * ?s))" by blast+
  qed
  have r0: "r0 \<in> V" "\<alpha> r0 = ?R"
  proof -
    show "r0 \<in> V" unfolding r0_def by (rule halve_in [OF w(2,2)])
    have "\<alpha> r0 + \<alpha> r0 = ?R + ?R" unfolding r0_def halve [OF w(2,2)] w(4) lucas_v_def ..
    then show "\<alpha> r0 = ?R" by (rule double_cancel)
  qed
  have r1: "r1 \<in> V \<and> \<alpha> r1 = ?I"
  proof (cases "?s = 0")
    case True
    then have z: "\<alpha> (fi_im inn) = 0" unfolding im .
    have cc: "?c * ?c = 1" using norm True by simp
    have "im_part (?u ^ k) = 0" for k using True by (induction k) simp_all
    then show ?thesis unfolding r1_def using mul_zero [OF V(2) z] by simp
  next
    case False
    have d0: "\<alpha> d \<noteq> 0"
    proof
      assume "\<alpha> d = 0"
      then have "(?s * ?s + ?s * ?s) + (?s * ?s + ?s * ?s) = 0" unfolding d(2) by (metis add.inverse_inverse minus_zero)
      from double_eq_0 [OF double_eq_0 [OF this]] have "?s * ?s = 0" .
      then have "\<alpha> (fi_im inn) * ?s = \<alpha> (fi_im inn) * 0" unfolding im by simp
      from cancel_nonzero [OF V(2) _ this] False show False unfolding im by simp
    qed
    have xV: "x \<in> V" unfolding x_def by (rule div_in [OF w2(1,1) d(1) d0])
    have "\<alpha> x * \<alpha> d = \<alpha> w2" unfolding x_def by (rule div [OF w2(1,1) d(1) d0])
    then have "- (\<alpha> x * \<alpha> d) = - \<alpha> w2" by simp
    then have "(\<alpha> x * ?s * ?s + \<alpha> x * ?s * ?s) + (\<alpha> x * ?s * ?s + \<alpha> x * ?s * ?s) =
        (?I * ?s + ?I * ?s) + (?I * ?s + ?I * ?s)"
      unfolding d(2) w2(2) by (simp only: mult_minus_right minus_minus distrib_left mult.assoc)
    from double_cancel [OF double_cancel [OF this]] have "?s * (\<alpha> x * ?s) = ?s * ?I" by (simp only: ac_simps)
    then have "\<alpha> (fi_im inn) * (\<alpha> x * ?s) = \<alpha> (fi_im inn) * ?I" unfolding im .
    from cancel_nonzero [OF V(2) _ this] False have "\<alpha> x * ?s = ?I" unfolding im by simp
    then show ?thesis unfolding r1_def using mul_in [OF xV xV V(2)] mul [OF xV xV V(2)] unfolding im by simp
  qed
  show "lucas_odd G B out inn temp n \<in> fq_pairs V" unfolding eq using r0 r1 by simp
  show "fi_val (lucas_odd G B out inn temp n) = ?u ^ (2 * (nat n div 2))"
    unfolding eq m_def [symmetric] using r0 r1 by (simp add: gauss_eq_iff)
qed

text \<open>Conjugate over element has norm 1; scaling the element by a factor of the base field changes nothing.\<close>

lemma a_tateexp_ok:
  assumes "out \<in> fq_pairs V" "inn \<in> fq_pairs V" "temp \<in> fq_pairs V" and "fi_val inn \<noteq> 0" and n: "0 \<le> n"
  shows "a_tateexp G B (field_init_fi G B) out inn temp n \<in> fq_pairs V"
    and "\<exists>w. w * fi_val inn = gconj (fi_val inn) \<and> w * gconj w = 1 \<and>
      fi_val (a_tateexp G B (field_init_fi G B) out inn temp n) = w ^ (2 * (nat n div 2))"
proof -
  define i where "i = fi_invert B temp inn"
  define c where "c = inn\<lparr> fq_y := element_neg B (fi_im inn) (fi_im inn) \<rparr>"
  define w where "w = fi_mul B c c i"
  have i: "i \<in> fq_pairs V" "fi_val inn * fi_val i = 1"
    unfolding i_def using fi_invert_ok [OF assms(3,2,4)] by blast+
  have c: "c \<in> fq_pairs V" "fi_val c = gconj (fi_val inn)"
    using assms(2) by (simp_all add: c_def fi_im_def gauss_eq_iff impl_law)
  have w: "w \<in> fq_pairs V" "fi_val w = fi_val c * fi_val i"
    unfolding w_def using fi_mul_ok [OF c(1) c(1) i(1)] by blast+
  have eq: "a_tateexp G B (field_init_fi G B) out inn temp n = lucas_odd G B out w i n"
    by (simp add: a_tateexp_def Let_def i_def c_def w_def)
  have wi: "fi_val w * fi_val inn = gconj (fi_val inn)"
    unfolding w(2) c(2) using i(2) by (metis mult.assoc mult.commute mult.right_neutral)
  have norm: "fi_val w * gconj (fi_val w) = 1"
  proof -
    have "gconj (fi_val inn) * gconj (fi_val i) = 1" using arg_cong [OF i(2), of gconj] by (simp add: gconj_mult)
    moreover have "fi_val w * gconj (fi_val w) =
        (gconj (fi_val inn) * gconj (fi_val i)) * (fi_val inn * fi_val i)"
      unfolding w(2) c(2) gconj_mult by (simp add: ac_simps)
    ultimately show ?thesis using i(2) by simp
  qed
  note l = lucas_odd_ok [OF assms(1) w(1) i(1) norm n]
  show "a_tateexp G B (field_init_fi G B) out inn temp n \<in> fq_pairs V" unfolding eq by (rule l(1))
  show "\<exists>w. w * fi_val inn = gconj (fi_val inn) \<and> w * gconj w = 1 \<and>
      fi_val (a_tateexp G B (field_init_fi G B) out inn temp n) = w ^ (2 * (nat n div 2))"
    unfolding eq l(2) using wi norm by blast
qed

lemma unit_quotient:
  assumes "e \<in> fq_pairs V" "fi_val e \<noteq> 0" "w * fi_val e = x" "w' * fi_val e = x"
  shows "w = w'"
proof -
  have "fi_val e * w = fi_val e * w'" using assms(3,4) by (simp add: mult.commute)
  then show ?thesis using fif.cancel_nonzero [OF assms(1,2)] by blast
qed

end

end
