(* ===== verification/AMiller.thy ===== *)
theory AMiller
  imports ATate CurveTable
begin

text \<open>
  What the Miller loops of \<^verbatim>\<open>ecc/a_param.c\<close> compute: the product of the lines at the moved
  second point, in terms of the doubles of the first one. The loop in affine coordinates and
  the one with preprocessing give the same value; the one in projective coordinates differs
  by a factor of the base field, which the final exponentiation removes.
\<close>

section \<open>The values of the lines\<close>

definition tangent_at :: "'k::comm_ring_1 \<Rightarrow> 'k \<Rightarrow> 'k \<Rightarrow> 'k \<Rightarrow> 'k gauss" where
  "tangent_at x y X Y = (let a = - (3 * (x * x) + 1) in Gauss (- (2 * (y * y) + a * x) - a * X) (2 * y * Y))"

definition chord_at :: "'k::comm_ring_1 \<Rightarrow> 'k \<Rightarrow> 'k \<Rightarrow> 'k \<Rightarrow> 'k \<Rightarrow> 'k \<Rightarrow> 'k gauss" where
  "chord_at x y x1 y1 X Y = Gauss ((x * y1 - y * x1) - (y - y1) * X) ((x1 - x) * Y)"

text \<open>The point that the loops start from, and its doubles.\<close>

definition a_doubles :: "'a curve_data \<Rightarrow> 'a point \<Rightarrow> nat \<Rightarrow> 'a point" where
  "a_doubles cdp P n = ((\<lambda>V. curve_double cdp V V) ^^ n) (curve_set cdp (curve_init cdp) P)"

lemma a_doubles_Suc: "a_doubles cdp P (Suc n) = curve_double cdp (a_doubles cdp P n) (a_doubles cdp P n)"
  by (simp add: a_doubles_def)

text \<open>The reference: \<open>f\<close> after \<open>n\<close> rounds.\<close>

primrec miller_value :: "('a \<Rightarrow> 'k::comm_ring_1) \<Rightarrow> 'a curve_data \<Rightarrow> 'a point \<Rightarrow> 'a point \<Rightarrow> nat \<Rightarrow> 'k gauss" where
  "miller_value \<alpha> cdp P Q 0 = 1"
| "miller_value \<alpha> cdp P Q (Suc n) = miller_value \<alpha> cdp P Q n * miller_value \<alpha> cdp P Q n *
     tangent_at (\<alpha> (pt_x (a_doubles cdp P n))) (\<alpha> (pt_y (a_doubles cdp P n))) (\<alpha> (pt_x Q)) (\<alpha> (pt_y Q))"

text \<open>The data that \<open>pairing_init_a_param\<close> sets up on a curve.\<close>

definition a_data :: "gmp \<Rightarrow> 'a curve_data \<Rightarrow> int \<Rightarrow> int \<Rightarrow> int \<Rightarrow> int \<Rightarrow> 'a a_pairing_data" where
  "a_data G cdp order e2 e1 s1 = \<lparr> ad_Fq = cv_field cdp, ad_Fq2 = field_init_fi G (cv_field cdp),
     ad_Eq = curve_table G cdp order, ad_exp2 = e2, ad_exp1 = e1, ad_sign1 = s1 \<rparr>"

lemma a_data_simps [simp]:
  "ad_Fq (a_data G cdp order e2 e1 s1) = cv_field cdp"
  "ad_Fq2 (a_data G cdp order e2 e1 s1) = field_init_fi G (cv_field cdp)"
  "ad_Eq (a_data G cdp order e2 e1 s1) = curve_table G cdp order"
  "ad_exp2 (a_data G cdp order e2 e1 s1) = e2" "ad_exp1 (a_data G cdp order e2 e1 s1) = e1"
  "ad_sign1 (a_data G cdp order e2 e1 s1) = s1"
  by (simp_all add: a_data_def)

text \<open>
  The inputs of general position: the doubles of \<open>P\<close> in the loops are affine and not of order 2,
  the last line is not vertical, and \<open>Q\<close> is not of order 2.
\<close>

definition a_generic :: "('a \<Rightarrow> 'k::comm_ring_1) \<Rightarrow> 'a curve_data \<Rightarrow> int \<Rightarrow> int \<Rightarrow> 'a point \<Rightarrow> 'a point \<Rightarrow> bool" where
  "a_generic \<alpha> cdp e2 e1 P Q \<longleftrightarrow>
     (let n = nat e1 + (nat e2 - nat e1)
      in (\<forall>j<n. inf_flag (a_doubles cdp P j) = 0 \<and> \<alpha> (pt_y (a_doubles cdp P j)) \<noteq> 0) \<and>
         \<alpha> (pt_y Q) \<noteq> 0 \<and> \<alpha> (pt_x (a_doubles cdp P n)) \<noteq> \<alpha> (pt_x (a_doubles cdp P (nat e1))))"

definition line_vars :: "'a set \<Rightarrow> 'a line_vars set" where
  "line_vars V = {(a, b, c, e0). a \<in> V \<and> b \<in> V \<and> c \<in> V \<and> e0 \<in> V}"

lemma line_vars_iff [simp]: "(a, b, c, e0) \<in> line_vars V \<longleftrightarrow> a \<in> V \<and> b \<in> V \<and> c \<in> V \<and> e0 \<in> V"
  by (simp add: line_vars_def)

section \<open>The routines\<close>

locale a_miller = pairing_base "cv_field cdp" V \<alpha> G
  for cdp :: "'a curve_data" and V :: "'a set" and \<alpha> :: "'a \<Rightarrow> 'k::comm_ring_1" and G :: gmp +
  fixes order e2 e1 s1 :: int
  assumes a_coeff: "cv_a cdp \<in> V" "\<alpha> (cv_a cdp) = 1" and b_coeff: "cv_b cdp \<in> V" "\<alpha> (cv_b cdp) = 0"

sublocale a_miller \<subseteq> curve_field cdp V \<alpha>
  by unfold_locales (rule a_coeff(1) b_coeff(1) two_nonzero)+

context a_miller
begin

abbreviation Fq :: "'a field_s" where "Fq \<equiv> cv_field cdp"
abbreviation Fq2 :: "'a fq_data field_s" where "Fq2 \<equiv> field_init_fi G Fq"
abbreviation ad :: "'a a_pairing_data" where "ad \<equiv> a_data G cdp order e2 e1 s1"
abbreviation W :: "'a fq_data set" where "W \<equiv> fq_pairs V"

lemma line_vars_init_in: "line_vars_init Fq \<in> line_vars V"
  by (simp add: line_vars_init_def)

lemma tangent_ok:
  assumes "l \<in> line_vars V" "x \<in> V" "y \<in> V"
  obtains a b c e0 where "compute_abc_tangent Fq l x y = (a, b, c, e0)" "a \<in> V" "b \<in> V" "c \<in> V" "e0 \<in> V"
    "\<alpha> a = - (3 * (\<alpha> x * \<alpha> x) + 1)" "\<alpha> b = 2 * \<alpha> y"
    "\<alpha> c = - (2 * (\<alpha> y * \<alpha> y) + - (3 * (\<alpha> x * \<alpha> x) + 1) * \<alpha> x)"
proof -
  obtain a0 b0 c0 e where l: "l = (a0, b0, c0, e)" "a0 \<in> V" "b0 \<in> V" "c0 \<in> V" "e \<in> V"
    using assms(1) by (cases l) auto
  obtain a b c e0 where eq: "compute_abc_tangent Fq l x y = (a, b, c, e0)"
    by (cases "compute_abc_tangent Fq l x y") auto
  have "a \<in> V \<and> b \<in> V \<and> c \<in> V \<and> e0 \<in> V \<and> \<alpha> a = - (3 * (\<alpha> x * \<alpha> x) + 1) \<and> \<alpha> b = 2 * \<alpha> y \<and>
      \<alpha> c = - (2 * (\<alpha> y * \<alpha> y) + - (3 * (\<alpha> x * \<alpha> x) + 1) * \<alpha> x)"
    using eq l assms(2,3) by (auto simp: compute_abc_tangent_def Let_def impl_law algebra_simps)
  then show ?thesis using that eq by blast
qed

lemma line_ok:
  assumes "l \<in> line_vars V" "x \<in> V" "y \<in> V" "x1 \<in> V" "y1 \<in> V"
  obtains a b c e0 where "compute_abc_line Fq l x y x1 y1 = (a, b, c, e0)" "a \<in> V" "b \<in> V" "c \<in> V" "e0 \<in> V"
    "\<alpha> a = \<alpha> y - \<alpha> y1" "\<alpha> b = \<alpha> x1 - \<alpha> x" "\<alpha> c = \<alpha> x * \<alpha> y1 - \<alpha> y * \<alpha> x1"
proof -
  obtain a0 b0 c0 e where l: "l = (a0, b0, c0, e)" "a0 \<in> V" "b0 \<in> V" "c0 \<in> V" "e \<in> V"
    using assms(1) by (cases l) auto
  obtain a b c e0 where eq: "compute_abc_line Fq l x y x1 y1 = (a, b, c, e0)"
    by (cases "compute_abc_line Fq l x y x1 y1") auto
  have "a \<in> V \<and> b \<in> V \<and> c \<in> V \<and> e0 \<in> V \<and> \<alpha> a = \<alpha> y - \<alpha> y1 \<and> \<alpha> b = \<alpha> x1 - \<alpha> x \<and>
      \<alpha> c = \<alpha> x * \<alpha> y1 - \<alpha> y * \<alpha> x1"
    using eq l assms(2-5) by (auto simp: compute_abc_line_def Let_def impl_law)
  then show ?thesis using that eq by blast
qed

lemma evalfn_ok:
  assumes "f0 \<in> W" "a \<in> V" "b \<in> V" "c \<in> V" "X \<in> V" "Y \<in> V"
  shows "a_miller_evalfn Fq f0 a b c X Y \<in> W"
    and "fi_val (a_miller_evalfn Fq f0 a b c X Y) = Gauss (\<alpha> c - \<alpha> a * \<alpha> X) (\<alpha> b * \<alpha> Y)"
  using assms by (simp_all add: a_miller_evalfn_def Let_def fi_re_def fi_im_def impl_law gauss_eq_iff)

lemma mul_line_ok:
  assumes "f \<in> W" "f0 \<in> W" "a \<in> V" "b \<in> V" "c \<in> V" "X \<in> V" "Y \<in> V"
  obtains g g0 where "miller_mul_line ad X Y (a, b, c, e0) f f0 = (g, g0)" "g \<in> W" "g0 \<in> W"
    "fi_val g = fi_val f * Gauss (\<alpha> c - \<alpha> a * \<alpha> X) (\<alpha> b * \<alpha> Y)"
proof -
  note e = evalfn_ok [OF assms(2-7)]
  show ?thesis
    using that [OF _ fi.mul_in [OF assms(1,1) e(1)] e(1)] fi.mul [OF assms(1,1) e(1)] e(2)
    by (simp add: miller_mul_line_def Let_def)
qed

lemma doubles_in: "P \<in> points \<Longrightarrow> a_doubles cdp P i \<in> points"
  by (induction i) (simp_all add: a_doubles_def curve_set_ok(1) curve_double_ok(1))

text \<open>Both loops in step: the points are the same, the values of \<open>f\<close> too.\<close>

lemma affine_loop_ok:
  assumes "f \<in> W" "f0 \<in> W" "l \<in> line_vars V" "pt_x Q \<in> V" "pt_y Q \<in> V" "P \<in> points"
    and "fi_val f = miller_value \<alpha> cdp P Q i"
  shows "\<exists>g g0 l'. affine_loop ad (pt_x Q) (pt_y Q) n f f0 (a_doubles cdp P i) l = (g, g0, a_doubles cdp P (i + n), l') \<and>
    g \<in> W \<and> g0 \<in> W \<and> l' \<in> line_vars V \<and> fi_val g = miller_value \<alpha> cdp P Q (i + n)"
  using assms
proof (induction n arbitrary: f f0 l i)
  case 0
  then show ?case by auto
next
  case (Suc n)
  let ?V = "a_doubles cdp P i"
  note V = points_coord [OF doubles_in [OF Suc.prems(6)], of i]
  obtain a b c e0 where t: "compute_abc_tangent Fq l (pt_x ?V) (pt_y ?V) = (a, b, c, e0)" "a \<in> V" "b \<in> V" "c \<in> V" "e0 \<in> V"
    "\<alpha> a = - (3 * (\<alpha> (pt_x ?V) * \<alpha> (pt_x ?V)) + 1)" "\<alpha> b = 2 * \<alpha> (pt_y ?V)"
    "\<alpha> c = - (2 * (\<alpha> (pt_y ?V) * \<alpha> (pt_y ?V)) + - (3 * (\<alpha> (pt_x ?V) * \<alpha> (pt_x ?V)) + 1) * \<alpha> (pt_x ?V))"
    by (rule tangent_ok [OF Suc.prems(3) V])
  have sq: "element_square Fq2 f f \<in> W" "fi_val (element_square Fq2 f f) = fi_val f * fi_val f"
    using fi.square_in [OF Suc.prems(1,1)] fi.square [OF Suc.prems(1,1)] by blast+
  obtain g g0 where g: "miller_mul_line ad (pt_x Q) (pt_y Q) (a, b, c, e0) (element_square Fq2 f f) f0 = (g, g0)"
    "g \<in> W" "g0 \<in> W" "fi_val g = fi_val (element_square Fq2 f f) * Gauss (\<alpha> c - \<alpha> a * \<alpha> (pt_x Q)) (\<alpha> b * \<alpha> (pt_y Q))"
    by (rule mul_line_ok [OF sq(1) Suc.prems(2) t(2-4) Suc.prems(4,5)])
  have val: "fi_val g = miller_value \<alpha> cdp P Q (Suc i)"
    unfolding g(4) sq(2) Suc.prems(7) miller_value.simps tangent_at_def t(6-8) Let_def by simp
  have "affine_loop ad (pt_x Q) (pt_y Q) (Suc n) f f0 ?V l =
      affine_loop ad (pt_x Q) (pt_y Q) n g g0 (a_doubles cdp P (Suc i)) (a, b, c, e0)"
    using t(1) g(1) by (simp add: a_doubles_Suc Let_def del: fi_table)
  with Suc.IH [OF g(2,3) _ Suc.prems(4-6) val, of "(a, b, c, e0)"] t(2-5) show ?case by simp
qed

text \<open>The last factors, with \<open>P1 = 2^e1 P\<close> or its negative, and \<open>F1\<close> for \<open>f1\<close>.\<close>

abbreviation n1 :: nat where "n1 \<equiv> nat e1"
abbreviation n2 :: nat where "n2 \<equiv> nat e2 - nat e1"

definition sign_y :: "'k \<Rightarrow> 'k" where
  "sign_y y = (if s1 < 0 then - y else y)"

definition saved :: "'a point \<Rightarrow> 'a point \<Rightarrow> 'k gauss \<Rightarrow> bool" where
  "saved P Q F1 \<longleftrightarrow> (if s1 < 0 then miller_value \<alpha> cdp P Q n1 * F1 = 1 else F1 = miller_value \<alpha> cdp P Q n1)"

definition miller_final :: "'a point \<Rightarrow> 'a point \<Rightarrow> 'k gauss \<Rightarrow> 'k gauss" where
  "miller_final P Q F1 = miller_value \<alpha> cdp P Q (n1 + n2) * F1 *
     chord_at (\<alpha> (pt_x (a_doubles cdp P (n1 + n2)))) (\<alpha> (pt_y (a_doubles cdp P (n1 + n2))))
       (\<alpha> (pt_x (a_doubles cdp P n1))) (sign_y (\<alpha> (pt_y (a_doubles cdp P n1)))) (\<alpha> (pt_x Q)) (\<alpha> (pt_y Q))"

lemma saved_unique: "saved P Q F1 \<Longrightarrow> saved P Q F2 \<Longrightarrow> F1 = F2"
  unfolding saved_def by (metis mult.assoc mult.commute mult.left_neutral)

text \<open>\<open>V1\<close> and \<open>f1\<close> after the first loop.\<close>

lemma save_point_ok:
  assumes "inf_flag Va = 0" "pt_x Va \<in> V" "pt_y Va \<in> V"
  shows "(if s1 < 0 then element_neg (curve_table G cdp order) (element_init (curve_table G cdp order)) Va
            else element_set (curve_table G cdp order) (element_init (curve_table G cdp order)) Va) =
      \<lparr> inf_flag = 0, pt_x = element_set Fq (element_init Fq) (pt_x Va),
        pt_y = (if s1 < 0 then element_neg Fq (element_init Fq) (pt_y Va) else element_set Fq (element_init Fq) (pt_y Va)) \<rparr>"
    and "(if s1 < 0 then element_neg Fq (element_init Fq) (pt_y Va) else element_set Fq (element_init Fq) (pt_y Va)) \<in> V"
    and "\<alpha> (if s1 < 0 then element_neg Fq (element_init Fq) (pt_y Va) else element_set Fq (element_init Fq) (pt_y Va)) =
      sign_y (\<alpha> (pt_y Va))"
  using assms by (simp_all add: curve_invert_def curve_set_def curve_init_def sign_y_def impl_law)

lemma save_value_ok:
  assumes "f \<in> W" "n \<in> W"
    and "fi_val f = miller_value \<alpha> cdp P Q n1" "s1 < 0 \<Longrightarrow> miller_value \<alpha> cdp P Q n1 \<noteq> 0"
  shows "(if s1 < 0 then element_invert Fq2 n f else element_set Fq2 n f) \<in> W"
    and "saved P Q (fi_val (if s1 < 0 then element_invert Fq2 n f else element_set Fq2 n f))"
proof -
  note inv = fif.invert_in [OF assms(2,1)] fif.invert [OF assms(2,1)] and cp = fi.set_in [OF assms(2,1)] fi.set [OF assms(2,1)]
  show "(if s1 < 0 then element_invert Fq2 n f else element_set Fq2 n f) \<in> W"
    using inv(1) cp(1) assms(3,4) by presburger
  show "saved P Q (fi_val (if s1 < 0 then element_invert Fq2 n f else element_set Fq2 n f))"
    unfolding saved_def using inv(2) cp(2) assms(3,4) by (cases "s1 < 0") simp_all
qed

lemma start_ok:
  "element_set1 Fq2 (element_init Fq2) \<in> W" "element_init Fq2 \<in> W"
  "fi_val (element_set1 Fq2 (element_init Fq2)) = miller_value \<alpha> cdp P Q 0"
  "element_set (curve_table G cdp order) (element_init (curve_table G cdp order)) P = a_doubles cdp P 0"
  using fi.set1_in [OF fi.init_in] fi.init_in fi.set1 [OF fi.init_in]
  by (simp_all add: a_doubles_def del: fi_table fq_pairs_iff)

text \<open>The line through the last point and \<open>V1\<close>.\<close>

lemma last_line_ok:
  assumes "f \<in> W" "f0 \<in> W" "l \<in> line_vars V" "pt_x Q \<in> V" "pt_y Q \<in> V"
    and "x \<in> V" "y \<in> V" "x1 \<in> V" "y1 \<in> V"
  obtains g g0 where "miller_mul_line ad (pt_x Q) (pt_y Q) (compute_abc_line Fq l x y x1 y1) f f0 = (g, g0)"
    "g \<in> W" "g0 \<in> W"
    "fi_val g = fi_val f * chord_at (\<alpha> x) (\<alpha> y) (\<alpha> x1) (\<alpha> y1) (\<alpha> (pt_x Q)) (\<alpha> (pt_y Q))"
proof -
  obtain a b c e0 where t: "compute_abc_line Fq l x y x1 y1 = (a, b, c, e0)" "a \<in> V" "b \<in> V" "c \<in> V" "e0 \<in> V"
    "\<alpha> a = \<alpha> y - \<alpha> y1" "\<alpha> b = \<alpha> x1 - \<alpha> x" "\<alpha> c = \<alpha> x * \<alpha> y1 - \<alpha> y * \<alpha> x1"
    by (rule line_ok [OF assms(3,6-9)])
  obtain g g0 where g: "miller_mul_line ad (pt_x Q) (pt_y Q) (a, b, c, e0) f f0 = (g, g0)"
    "g \<in> W" "g0 \<in> W" "fi_val g = fi_val f * Gauss (\<alpha> c - \<alpha> a * \<alpha> (pt_x Q)) (\<alpha> b * \<alpha> (pt_y Q))"
    by (rule mul_line_ok [OF assms(1,2) t(2-4) assms(4,5)])
  show ?thesis by (rule that [OF _ g(2,3)]) (simp_all add: t(1) g(1,4) t(6-8) chord_at_def)
qed

lemma a_pairing_affine_ok:
  assumes P: "P \<in> points" and Q: "pt_x Q \<in> V" "pt_y Q \<in> V"
    and aff: "inf_flag (a_doubles cdp P n1) = 0" and nz: "s1 < 0 \<Longrightarrow> miller_value \<alpha> cdp P Q n1 \<noteq> 0"
  shows "\<exists>f f0 F1. f \<in> W \<and> f0 \<in> W \<and> saved P Q F1 \<and> fi_val f = miller_final P Q F1 \<and>
    a_pairing_affine G ad h out P Q = a_tateexp G Fq Fq2 out f f0 h"
proof -
  note D = doubles_in [OF P]
  obtain g g0 l where g: "affine_loop ad (pt_x Q) (pt_y Q) n1 (element_set1 Fq2 (element_init Fq2)) (element_init Fq2)
      (a_doubles cdp P 0) (line_vars_init Fq) = (g, g0, a_doubles cdp P n1, l)"
    "g \<in> W" "g0 \<in> W" "l \<in> line_vars V" "fi_val g = miller_value \<alpha> cdp P Q n1"
    using affine_loop_ok [OF start_ok(1,2) line_vars_init_in Q P start_ok(3), of n1] by auto
  obtain k k0 l2 where k: "affine_loop ad (pt_x Q) (pt_y Q) n2 g g0 (a_doubles cdp P n1) l = (k, k0, a_doubles cdp P (n1 + n2), l2)"
    "k \<in> W" "k0 \<in> W" "l2 \<in> line_vars V" "fi_val k = miller_value \<alpha> cdp P Q (n1 + n2)"
    using affine_loop_ok [OF g(2-4) Q P g(5), of n2] by auto
  note V1 = points_coord [OF D, of n1]
  note s = save_point_ok [OF aff V1] save_value_ok [OF g(2) fi.init_in g(5) nz]
  define x1 where "x1 = element_set Fq (element_init Fq) (pt_x (a_doubles cdp P n1))"
  define y1 where "y1 = (if s1 < 0 then element_neg Fq (element_init Fq) (pt_y (a_doubles cdp P n1))
    else element_set Fq (element_init Fq) (pt_y (a_doubles cdp P n1)))"
  define f1 where "f1 = (if s1 < 0 then element_invert Fq2 (element_init Fq2) g else element_set Fq2 (element_init Fq2) g)"
  note s = s [folded x1_def y1_def f1_def]
  have x1: "x1 \<in> V" "\<alpha> x1 = \<alpha> (pt_x (a_doubles cdp P n1))" using V1 by (simp_all add: x1_def set)
  have m: "element_mul Fq2 k k f1 \<in> W" "fi_val (element_mul Fq2 k k f1) = fi_val k * fi_val f1"
    using fi.mul_in [OF k(2,2) s(4)] fi.mul [OF k(2,2) s(4)] by blast+
  note VN = points_coord [OF D, of "n1 + n2"]
  obtain r r0 where r: "miller_mul_line ad (pt_x Q) (pt_y Q)
      (compute_abc_line Fq l2 (pt_x (a_doubles cdp P (n1 + n2))) (pt_y (a_doubles cdp P (n1 + n2))) x1 y1)
      (element_mul Fq2 k k f1) k0 = (r, r0)" "r \<in> W" "r0 \<in> W"
    "fi_val r = fi_val (element_mul Fq2 k k f1) * chord_at (\<alpha> (pt_x (a_doubles cdp P (n1 + n2))))
       (\<alpha> (pt_y (a_doubles cdp P (n1 + n2)))) (\<alpha> x1) (\<alpha> y1) (\<alpha> (pt_x Q)) (\<alpha> (pt_y Q))"
    by (rule last_line_ok [OF m(1) k(3,4) Q VN x1(1) s(2)])
  have if_pair: "(if c then (a, b) else (a', b')) = (if c then a else a', if c then b else b')" for c and a a' :: "'a point" and b b' :: "'a fq_data"
    by simp
  have "a_pairing_affine G ad h out P Q = a_tateexp G Fq Fq2 out r r0 h"
    by (simp only: a_pairing_affine_def a_data_simps Let_def start_ok(4) [of P] g(1) prod.case if_pair
      s(1) k(1) point.simps f1_def [symmetric] r(1))
  moreover have "fi_val r = miller_final P Q (fi_val f1)"
    by (simp only: r(4) m(2) k(5) miller_final_def s(3) x1(2))
  ultimately show ?thesis using r(2,3) s(5) by blast
qed

section \<open>Preprocessing\<close>

definition applies :: "('a \<times> 'a \<times> 'a) list \<Rightarrow> 'a point \<Rightarrow> nat \<Rightarrow> nat \<Rightarrow> bool" where
  "applies cs P i n \<longleftrightarrow> (\<forall>Q f f0. pt_x Q \<in> V \<longrightarrow> pt_y Q \<in> V \<longrightarrow> f \<in> W \<longrightarrow> f0 \<in> W \<longrightarrow>
     fi_val f = miller_value \<alpha> cdp P Q i \<longrightarrow>
     (\<exists>g g0. pp_apply_loop ad (pt_x Q) (pt_y Q) cs f f0 = (g, g0) \<and> g \<in> W \<and> g0 \<in> W \<and>
       fi_val g = miller_value \<alpha> cdp P Q (i + n)))"

lemma pp_coeff_set_ok:
  assumes "a \<in> V" "b \<in> V" "c \<in> V"
  obtains a' b' c' where "pp_coeff_set Fq (a, b, c, e0) = (a', b', c')" "a' \<in> V" "b' \<in> V" "c' \<in> V"
    "\<alpha> a' = \<alpha> a" "\<alpha> b' = \<alpha> b" "\<alpha> c' = \<alpha> c"
  using that assms by (simp add: pp_coeff_set_def set)

lemma pp_init_loop_ok:
  assumes "l \<in> line_vars V" "P \<in> points"
  shows "\<exists>cs l'. pp_init_loop ad n (a_doubles cdp P i) l = (cs, a_doubles cdp P (i + n), l') \<and>
    length cs = n \<and> l' \<in> line_vars V \<and> applies cs P i n"
  using assms(1)
proof (induction n arbitrary: l i)
  case 0
  then show ?case by (auto simp: applies_def)
next
  case (Suc n)
  let ?V = "a_doubles cdp P i"
  note V = points_coord [OF doubles_in [OF assms(2)], of i]
  obtain a b c e0 where t: "compute_abc_tangent Fq l (pt_x ?V) (pt_y ?V) = (a, b, c, e0)" "a \<in> V" "b \<in> V" "c \<in> V" "e0 \<in> V"
    "\<alpha> a = - (3 * (\<alpha> (pt_x ?V) * \<alpha> (pt_x ?V)) + 1)" "\<alpha> b = 2 * \<alpha> (pt_y ?V)"
    "\<alpha> c = - (2 * (\<alpha> (pt_y ?V) * \<alpha> (pt_y ?V)) + - (3 * (\<alpha> (pt_x ?V) * \<alpha> (pt_x ?V)) + 1) * \<alpha> (pt_x ?V))"
    by (rule tangent_ok [OF Suc.prems V])
  obtain a' b' c' where c: "pp_coeff_set Fq (a, b, c, e0) = (a', b', c')" "a' \<in> V" "b' \<in> V" "c' \<in> V"
    "\<alpha> a' = \<alpha> a" "\<alpha> b' = \<alpha> b" "\<alpha> c' = \<alpha> c"
    by (rule pp_coeff_set_ok [OF t(2-4)])
  have "(a, b, c, e0) \<in> line_vars V" using t(2-5) by simp
  from Suc.IH [OF this, of "Suc i"] obtain cs l' where IH:
    "pp_init_loop ad n (a_doubles cdp P (Suc i)) (a, b, c, e0) = (cs, a_doubles cdp P (i + Suc n), l')"
    "length cs = n" "l' \<in> line_vars V" "applies cs P (Suc i) n" by auto
  have "applies ((a', b', c') # cs) P i (Suc n)"
    unfolding applies_def
  proof (intro allI impI)
    fix Q f f0
    assume Q: "pt_x Q \<in> V" "pt_y Q \<in> V" and f: "f \<in> W" "f0 \<in> W" "fi_val f = miller_value \<alpha> cdp P Q i"
    define s where "s = element_square Fq2 f f"
    define g0 where "g0 = a_miller_evalfn Fq f0 a' b' c' (pt_x Q) (pt_y Q)"
    define g where "g = element_mul Fq2 s s g0"
    have s: "s \<in> W" "fi_val s = fi_val f * fi_val f"
      unfolding s_def using fi.square_in [OF f(1,1)] fi.square [OF f(1,1)] by blast+
    note g0 = evalfn_ok [OF f(2) c(2-4) Q, folded g0_def]
    have g: "g \<in> W" "fi_val g = fi_val s * fi_val g0"
      unfolding g_def using fi.mul_in [OF s(1,1) g0(1)] fi.mul [OF s(1,1) g0(1)] by blast+
    have "fi_val g = miller_value \<alpha> cdp P Q (Suc i)"
      unfolding g(2) s(2) g0(2) f(3) miller_value.simps tangent_at_def c(5-7) t(6-8) Let_def by simp
    then obtain k k0 where "pp_apply_loop ad (pt_x Q) (pt_y Q) cs g g0 = (k, k0)" "k \<in> W" "k0 \<in> W"
      "fi_val k = miller_value \<alpha> cdp P Q (Suc i + n)"
      using IH(4) Q g(1) g0(1) unfolding applies_def by blast
    then show "\<exists>k k0. pp_apply_loop ad (pt_x Q) (pt_y Q) ((a', b', c') # cs) f f0 = (k, k0) \<and> k \<in> W \<and> k0 \<in> W \<and>
        fi_val k = miller_value \<alpha> cdp P Q (i + Suc n)"
      by (simp only: pp_apply_loop.simps a_data_simps Let_def s_def [symmetric] g0_def [symmetric] g_def [symmetric])
         simp
  qed
  moreover have "pp_init_loop ad (Suc n) ?V l = ((a', b', c') # cs, a_doubles cdp P (i + Suc n), l')"
    by (simp only: pp_init_loop.simps a_data_simps Let_def t(1) c(1) curve_table_simps a_doubles_Suc [symmetric] IH(1) prod.case)
  ultimately show ?case using IH(2,3) by auto
qed

lemma a_pairing_pp_ok:
  assumes P: "P \<in> points" and Q: "pt_x Q \<in> V" "pt_y Q \<in> V" and out: "out \<in> W"
    and aff: "inf_flag (a_doubles cdp P n1) = 0" and nz: "s1 < 0 \<Longrightarrow> miller_value \<alpha> cdp P Q n1 \<noteq> 0"
  shows "\<exists>f f0 F1 out'. f \<in> W \<and> f0 \<in> W \<and> out' \<in> W \<and> saved P Q F1 \<and> fi_val f = miller_final P Q F1 \<and>
    a_pairing_pp_apply G ad h out Q (a_pairing_pp_init ad P) = a_tateexp G Fq Fq2 out' f f0 h"
proof -
  note D = doubles_in [OF P]
  obtain cs l where cs: "pp_init_loop ad n1 (a_doubles cdp P 0) (line_vars_init Fq) = (cs, a_doubles cdp P n1, l)"
    "length cs = n1" "l \<in> line_vars V" "applies cs P 0 n1"
    using pp_init_loop_ok [OF line_vars_init_in P, of n1 0] by auto
  obtain ds l2 where ds: "pp_init_loop ad n2 (a_doubles cdp P n1) l = (ds, a_doubles cdp P (n1 + n2), l2)"
    "length ds = n2" "l2 \<in> line_vars V" "applies ds P n1 n2"
    using pp_init_loop_ok [OF cs(3) P, of n2 n1] by auto
  obtain g g0 where g: "pp_apply_loop ad (pt_x Q) (pt_y Q) cs (element_set1 Fq2 (element_init Fq2)) (element_init Fq2) = (g, g0)"
    "g \<in> W" "g0 \<in> W" "fi_val g = miller_value \<alpha> cdp P Q n1"
    using cs(4) Q start_ok(1,2) start_ok(3) [of P Q] unfolding applies_def by force
  obtain k k0 where k: "pp_apply_loop ad (pt_x Q) (pt_y Q) ds g g0 = (k, k0)"
    "k \<in> W" "k0 \<in> W" "fi_val k = miller_value \<alpha> cdp P Q (n1 + n2)"
    using ds(4) Q g(2-4) unfolding applies_def by blast
  note V1 = points_coord [OF D, of n1]
  note s = save_point_ok [OF aff V1] save_value_ok [OF g(2) out g(4) nz]
  define x1 where "x1 = element_set Fq (element_init Fq) (pt_x (a_doubles cdp P n1))"
  define y1 where "y1 = (if s1 < 0 then element_neg Fq (element_init Fq) (pt_y (a_doubles cdp P n1))
    else element_set Fq (element_init Fq) (pt_y (a_doubles cdp P n1)))"
  define out' where "out' = (if s1 < 0 then element_invert Fq2 out g else element_set Fq2 out g)"
  note s = s [folded x1_def y1_def out'_def]
  have x1: "x1 \<in> V" "\<alpha> x1 = \<alpha> (pt_x (a_doubles cdp P n1))" using V1 by (simp_all add: x1_def set)
  have m: "element_mul Fq2 k k out' \<in> W" "fi_val (element_mul Fq2 k k out') = fi_val k * fi_val out'"
    using fi.mul_in [OF k(2,2) s(4)] fi.mul [OF k(2,2) s(4)] by blast+
  note VN = points_coord [OF D, of "n1 + n2"]
  obtain a b c e0 where t: "compute_abc_line Fq l2 (pt_x (a_doubles cdp P (n1 + n2))) (pt_y (a_doubles cdp P (n1 + n2))) x1 y1 =
      (a, b, c, e0)" "a \<in> V" "b \<in> V" "c \<in> V" "e0 \<in> V"
    "\<alpha> a = \<alpha> (pt_y (a_doubles cdp P (n1 + n2))) - \<alpha> y1" "\<alpha> b = \<alpha> x1 - \<alpha> (pt_x (a_doubles cdp P (n1 + n2)))"
    "\<alpha> c = \<alpha> (pt_x (a_doubles cdp P (n1 + n2))) * \<alpha> y1 - \<alpha> (pt_y (a_doubles cdp P (n1 + n2))) * \<alpha> x1"
    by (rule line_ok [OF ds(3) VN x1(1) s(2)])
  obtain a' b' c' where co: "pp_coeff_set Fq (a, b, c, e0) = (a', b', c')" "a' \<in> V" "b' \<in> V" "c' \<in> V"
    "\<alpha> a' = \<alpha> a" "\<alpha> b' = \<alpha> b" "\<alpha> c' = \<alpha> c"
    by (rule pp_coeff_set_ok [OF t(2-4)])
  define r0 where "r0 = a_miller_evalfn Fq k0 a' b' c' (pt_x Q) (pt_y Q)"
  define r where "r = element_mul Fq2 (element_mul Fq2 k k out') (element_mul Fq2 k k out') r0"
  note r0 = evalfn_ok [OF k(3) co(2-4) Q, folded r0_def]
  have r: "r \<in> W" "fi_val r = fi_val (element_mul Fq2 k k out') * fi_val r0"
    unfolding r_def using fi.mul_in [OF m(1,1) r0(1)] fi.mul [OF m(1,1) r0(1)] by blast+
  have init: "a_pairing_pp_init ad P = cs @ ds @ [(a', b', c')]"
    by (simp only: a_pairing_pp_init_def a_data_simps Let_def start_ok(4) [of P] cs(1) prod.case s(1) ds(1) point.simps t(1) co(1))
  have parts: "take n1 (cs @ ds @ [(a', b', c')]) = cs" "take n2 (drop n1 (cs @ ds @ [(a', b', c')])) = ds"
    "(cs @ ds @ [(a', b', c')]) ! (n1 + n2) = (a', b', c')"
    using cs(2) ds(2) by (simp_all add: nth_append)
  have "a_pairing_pp_apply G ad h out Q (a_pairing_pp_init ad P) = a_tateexp G Fq Fq2 out' r r0 h"
    by (simp only: init a_pairing_pp_apply_def a_data_simps Let_def parts g(1) k(1) prod.case out'_def [symmetric]
        r0_def [symmetric] r_def [symmetric])
  moreover have "fi_val r = miller_final P Q (fi_val out')"
    by (simp only: r(2) m(2) k(4) r0(2) miller_final_def chord_at_def co(5-7) t(6-8) s(3) x1(2))
  ultimately show ?thesis using r(1) r0(1) s(4,5) nz by blast
qed

end

end
