(* ===== verification/AEllnetCorrect.thy ===== *)
theory AEllnetCorrect
  imports AEllnet AMiller
begin

text \<open>
  What the elliptic nets of \<^verbatim>\<open>ecc/a_param.c\<close> compute: the blocks are terms of the elliptic
  divisibility sequence of the point, in the sense of its doubling formulas, and the net is
  carried along the binary digits of the order. The form with preprocessing gives the same.
\<close>

section \<open>The elliptic divisibility sequence\<close>

text \<open>The first terms on \<open>y^2 = x^3 + x\<close>, and the doubling formulas, with \<open>c\<close> for \<open>1 / (2 y)\<close>.\<close>

function ell_seq :: "'k::comm_ring_1 \<Rightarrow> 'k \<Rightarrow> 'k \<Rightarrow> nat \<Rightarrow> 'k" where
  "ell_seq x y c n =
     (if n = 0 then 0 else if n = 1 then 1 else if n = 2 then 2 * y
      else if n = 3 then 3 * x ^ 4 + 6 * x ^ 2 - 1
      else if n = 4 then 4 * y * (x ^ 6 + 5 * x ^ 4 - 5 * x ^ 2 - 1)
      else let k = n div 2
        in if odd n then ell_seq x y c (k + 2) * ell_seq x y c k ^ 3 - ell_seq x y c (k - 1) * ell_seq x y c (k + 1) ^ 3
           else ell_seq x y c k *
             (ell_seq x y c (k + 2) * ell_seq x y c (k - 1) ^ 2 - ell_seq x y c (k - 2) * ell_seq x y c (k + 1) ^ 2) * c)"
  by pat_completeness auto
termination
  by (relation "measure (\<lambda>(x, y, c, n). n)") (auto simp: not_less)

declare ell_seq.simps [simp del]

lemma ell_seq_small:
  "ell_seq x y c 0 = 0" "ell_seq x y c (Suc 0) = 1" "ell_seq x y c 2 = 2 * y"
  "ell_seq x y c 3 = 3 * x ^ 4 + 6 * x ^ 2 - 1"
  "ell_seq x y c 4 = 4 * y * (x ^ 6 + 5 * x ^ 4 - 5 * x ^ 2 - 1)"
  by (simp_all add: ell_seq.simps [of x y c])

lemma ell_seq_odd:
  assumes "2 \<le> k"
  shows "ell_seq x y c (2 * k + 1) = ell_seq x y c (k + 2) * ell_seq x y c k ^ 3 -
    ell_seq x y c (k - 1) * ell_seq x y c (k + 1) ^ 3"
proof -
  have "(2 * k + 1) div 2 = k" by simp
  then show ?thesis using assms by (subst ell_seq.simps) (simp add: Let_def)
qed

lemma ell_seq_even:
  assumes "3 \<le> k"
  shows "ell_seq x y c (2 * k) = ell_seq x y c k * (ell_seq x y c (k + 2) * ell_seq x y c (k - 1) ^ 2 -
    ell_seq x y c (k - 2) * ell_seq x y c (k + 1) ^ 2) * c"
proof -
  have "2 * k \<noteq> 4" "2 * k \<noteq> 3" "2 * k \<noteq> 2" "2 * k \<noteq> 1" "k \<noteq> 0" using assms by presburger+
  then show ?thesis by (subst ell_seq.simps) (simp add: Let_def)
qed

text \<open>The sequence is odd.\<close>

definition ell_term :: "'k::comm_ring_1 \<Rightarrow> 'k \<Rightarrow> 'k \<Rightarrow> int \<Rightarrow> 'k" where
  "ell_term x y c i = (if i < 0 then - ell_seq x y c (nat (- i)) else ell_seq x y c (nat i))"

lemma ell_term_small:
  "ell_term x y c (- 2) = - (2 * y)" "ell_term x y c (- 1) = - 1" "ell_term x y c 0 = 0" "ell_term x y c 1 = 1"
  "ell_term x y c 2 = 2 * y" "ell_term x y c 3 = 3 * x ^ 4 + 6 * x ^ 2 - 1"
  "ell_term x y c 4 = 4 * y * (x ^ 6 + 5 * x ^ 4 - 5 * x ^ 2 - 1)"
  by (simp_all add: ell_term_def ell_seq_small)

lemma ell_term_odd:
  assumes "- 1 \<le> k"
  shows "ell_term x y c (2 * k + 1) = ell_term x y c (k + 2) * ell_term x y c k ^ 3 -
    ell_term x y c (k - 1) * ell_term x y c (k + 1) ^ 3"
proof -
  consider "k = - 1" | "k = 0" | "k = 1" | "2 \<le> k" using assms by linarith
  then show ?thesis
  proof cases
    case 4
    define n where "n = nat k"
    have k: "k = int n" "2 \<le> n" using 4 by (simp_all add: n_def)
    have e: "nat (2 * k + 1) = 2 * n + 1" "nat (k + 2) = n + 2" "nat (k - 1) = n - 1" "nat (k + 1) = n + 1" "nat k = n"
      unfolding k(1) by simp_all
    show ?thesis using ell_seq_odd [OF k(2), of x y c] 4 by (simp add: ell_term_def e)
  qed (simp_all add: ell_term_small)
qed

lemma ell_term_even:
  assumes "0 \<le> k" "c * (2 * y) = 1"
  shows "ell_term x y c (2 * k) = ell_term x y c k * (ell_term x y c (k + 2) * ell_term x y c (k - 1) ^ 2 -
    ell_term x y c (k - 2) * ell_term x y c (k + 1) ^ 2) * c"
proof -
  have cancel: "2 * y * z * c = z" for z
  proof -
    have "2 * y * z * c = z * (c * (2 * y))" by (simp only: ac_simps)
    then show ?thesis unfolding assms(2) by simp
  qed
  consider "k = 0" | "k = 1" | "k = 2" | "3 \<le> k" using assms(1) by linarith
  then show ?thesis
  proof cases
    case 2
    then show ?thesis using cancel [of "2 * y"] by (simp add: ell_term_small power2_eq_square)
  next
    case 3
    have "2 * y * (4 * y * z) * c = 4 * y * z" for z by (rule cancel)
    then show ?thesis using 3 by (simp add: ell_term_small)
  next
    case 4
    define n where "n = nat k"
    have k: "k = int n" "3 \<le> n" using 4 by (simp_all add: n_def)
    have e: "nat (2 * k) = 2 * n" "nat (k + 2) = n + 2" "nat (k - 1) = n - 1" "nat (k - 2) = n - 2" "nat (k + 1) = n + 1" "nat k = n"
      unfolding k(1) by simp_all
    show ?thesis using ell_seq_even [OF k(2), of x y c] 4 by (simp add: ell_term_def e)
  qed (simp add: ell_term_small)
qed

section \<open>Blocks\<close>

definition block_in :: "'a set \<Rightarrow> 'a ellnet_block \<Rightarrow> bool" where
  "block_in V k \<longleftrightarrow> en_m3 k \<in> V \<and> en_m2 k \<in> V \<and> en_m1 k \<in> V \<and> en_0 k \<in> V \<and>
     en_1 k \<in> V \<and> en_2 k \<in> V \<and> en_3 k \<in> V \<and> en_4 k \<in> V"

definition block_at :: "('a \<Rightarrow> 'k) \<Rightarrow> (int \<Rightarrow> 'k) \<Rightarrow> int \<Rightarrow> 'a ellnet_block \<Rightarrow> bool" where
  "block_at \<alpha> W i k \<longleftrightarrow> \<alpha> (en_m3 k) = W (i - 3) \<and> \<alpha> (en_m2 k) = W (i - 2) \<and> \<alpha> (en_m1 k) = W (i - 1) \<and>
     \<alpha> (en_0 k) = W i \<and> \<alpha> (en_1 k) = W (i + 1) \<and> \<alpha> (en_2 k) = W (i + 2) \<and> \<alpha> (en_3 k) = W (i + 3) \<and> \<alpha> (en_4 k) = W (i + 4)"

definition st_in :: "'a set \<Rightarrow> 'a ellnet_pp_st \<Rightarrow> bool" where
  "st_in V st \<longleftrightarrow> st_sm1 st \<in> V \<and> st_s0 st \<in> V \<and> st_s1 st \<in> V \<and> st_s2 st \<in> V \<and>
     st_tm1 st \<in> V \<and> st_t0 st \<in> V \<and> st_t1 st \<in> V \<and> st_t2 st \<in> V"

definition st_at :: "('a \<Rightarrow> 'k::comm_ring_1) \<Rightarrow> (int \<Rightarrow> 'k) \<Rightarrow> int \<Rightarrow> 'a ellnet_pp_st \<Rightarrow> bool" where
  "st_at \<alpha> W i st \<longleftrightarrow> \<alpha> (st_sm1 st) = W (i - 1) ^ 2 \<and> \<alpha> (st_s0 st) = W i ^ 2 \<and> \<alpha> (st_s1 st) = W (i + 1) ^ 2 \<and>
     \<alpha> (st_s2 st) = W (i + 2) ^ 2 \<and> \<alpha> (st_tm1 st) = W (i - 2) * W i \<and> \<alpha> (st_t0 st) = W (i - 1) * W (i + 1) \<and>
     \<alpha> (st_t1 st) = W i * W (i + 2) \<and> \<alpha> (st_t2 st) = W (i + 1) * W (i + 3)"

text \<open>The doubling formulas that the blocks need, from \<open>i\<close> to \<open>2 i\<close> and \<open>2 i + 1\<close>.\<close>

definition doubling :: "(int \<Rightarrow> 'k::comm_ring_1) \<Rightarrow> 'k \<Rightarrow> bool" where
  "doubling W c \<longleftrightarrow>
     (\<forall>k\<ge>- 1. W (2 * k + 1) = W (k + 2) * W k ^ 3 - W (k - 1) * W (k + 1) ^ 3) \<and>
     (\<forall>k\<ge>0. W (2 * k) = W k * (W (k + 2) * W (k - 1) ^ 2 - W (k - 2) * W (k + 1) ^ 2) * c)"

lemma doubling_ell_term: "c * (2 * y) = 1 \<Longrightarrow> doubling (ell_term x y c) c"
  unfolding doubling_def using ell_term_odd ell_term_even by blast

lemma doubling_cases:
  assumes "doubling W c" "1 \<le> i"
  shows "W (2 * i - 3) = W i * W (i - 2) ^ 3 - W (i - 3) * W (i - 1) ^ 3"
    "W (2 * i - 2) = W (i - 1) * (W (i + 1) * W (i - 2) ^ 2 - W (i - 3) * W i ^ 2) * c"
    "W (2 * i - 1) = W (i + 1) * W (i - 1) ^ 3 - W (i - 2) * W i ^ 3"
    "W (2 * i) = W i * (W (i + 2) * W (i - 1) ^ 2 - W (i - 2) * W (i + 1) ^ 2) * c"
    "W (2 * i + 1) = W (i + 2) * W i ^ 3 - W (i - 1) * W (i + 1) ^ 3"
    "W (2 * i + 2) = W (i + 1) * (W (i + 3) * W i ^ 2 - W (i - 1) * W (i + 2) ^ 2) * c"
    "W (2 * i + 3) = W (i + 3) * W (i + 1) ^ 3 - W i * W (i + 2) ^ 3"
    "W (2 * i + 4) = W (i + 2) * (W (i + 4) * W (i + 1) ^ 2 - W i * W (i + 3) ^ 2) * c"
    "W (2 * i + 5) = W (i + 4) * W (i + 2) ^ 3 - W (i + 1) * W (i + 3) ^ 3"
proof -
  have odd: "- 1 \<le> k \<Longrightarrow> W (2 * k + 1) = W (k + 2) * W k ^ 3 - W (k - 1) * W (k + 1) ^ 3"
    and even: "0 \<le> k \<Longrightarrow> W (2 * k) = W k * (W (k + 2) * W (k - 1) ^ 2 - W (k - 2) * W (k + 1) ^ 2) * c" for k
    using assms(1) unfolding doubling_def by blast+
  show "W (2 * i - 3) = W i * W (i - 2) ^ 3 - W (i - 3) * W (i - 1) ^ 3"
    using odd [of "i - 2"] assms(2) by simp
  show "W (2 * i - 2) = W (i - 1) * (W (i + 1) * W (i - 2) ^ 2 - W (i - 3) * W i ^ 2) * c"
    using even [of "i - 1"] assms(2) by (simp add: add.commute)
  show "W (2 * i - 1) = W (i + 1) * W (i - 1) ^ 3 - W (i - 2) * W i ^ 3"
    using odd [of "i - 1"] assms(2) by (simp add: add.commute)
  show "W (2 * i) = W i * (W (i + 2) * W (i - 1) ^ 2 - W (i - 2) * W (i + 1) ^ 2) * c"
    using even [of i] assms(2) by simp
  show "W (2 * i + 1) = W (i + 2) * W i ^ 3 - W (i - 1) * W (i + 1) ^ 3"
    using odd [of i] assms(2) by simp
  show "W (2 * i + 2) = W (i + 1) * (W (i + 3) * W i ^ 2 - W (i - 1) * W (i + 2) ^ 2) * c"
    using even [of "i + 1"] assms(2) by (simp add: add.commute)
  show "W (2 * i + 3) = W (i + 3) * W (i + 1) ^ 3 - W i * W (i + 2) ^ 3"
    using odd [of "i + 1"] assms(2) by (simp add: add.commute)
  show "W (2 * i + 4) = W (i + 2) * (W (i + 4) * W (i + 1) ^ 2 - W i * W (i + 3) ^ 2) * c"
    using even [of "i + 2"] assms(2) by (simp add: add.commute)
  show "W (2 * i + 5) = W (i + 4) * W (i + 2) ^ 3 - W (i + 1) * W (i + 3) ^ 3"
    using odd [of "i + 2"] assms(2) by (simp add: add.commute)
qed

lemma index_simps:
  "2 * i + 1 + 1 = 2 * i + (2::int)" "2 * i + 1 + 2 = 2 * i + (3::int)" "2 * i + 1 + 3 = 2 * i + (4::int)"
  "2 * i + 1 + 4 = 2 * i + (5::int)" "2 * i + 1 - 1 = (2::int) * i" "2 * i + 1 - 2 = 2 * i - (1::int)"
  "2 * i + 1 - 3 = 2 * i - (2::int)"
  by simp_all

section \<open>The net\<close>

text \<open>The terms \<open>d_{k-1}, d_k, d_{k+1}\<close> at \<open>2 k\<close> or \<open>2 k + 1\<close>, from those at \<open>k\<close>.\<close>

definition net_step :: "(int \<Rightarrow> 'k::comm_ring_1) \<Rightarrow> 'k gauss \<Rightarrow> 'k gauss \<Rightarrow> int \<Rightarrow> bool \<Rightarrow>
    'k gauss \<times> 'k gauss \<times> 'k gauss \<Rightarrow> 'k gauss \<times> 'k gauss \<times> 'k gauss" where
  "net_step W A Bv i add = (\<lambda>(m, z, p).
     let f = (\<lambda>j. m * p * gbase (W (i + j) ^ 2) - z * z * gbase (W (i + j - 1) * W (i + j + 1)))
     in if add then (f 0, f 1 * A, f 2 * Bv) else (f (- 1), f 0, f 1 * A))"

fun ell_net :: "(int \<Rightarrow> 'k::comm_ring_1) \<Rightarrow> 'k gauss \<Rightarrow> 'k gauss \<Rightarrow> 'k gauss \<Rightarrow> nat \<Rightarrow>
    'k gauss \<times> 'k gauss \<times> 'k gauss" where
  "ell_net W A Bv D n =
     (if n \<le> 1 then (1, 1, D) else net_step W A Bv (int (n div 2)) (odd n) (ell_net W A Bv D (n div 2)))"

declare ell_net.simps [simp del]

lemma ell_net_1: "ell_net W A Bv D 1 = (1, 1, D)"
  by (simp add: ell_net.simps)

lemma ell_net_step:
  assumes "1 \<le> n" "b \<le> 1"
  shows "ell_net W A Bv D (2 * n + b) = net_step W A Bv (int n) (b \<noteq> 0) (ell_net W A Bv D n)"
proof -
  have "(2 * n + b) div 2 = n" "odd (2 * n + b) \<longleftrightarrow> b \<noteq> 0" using assms(2) by (auto simp: le_Suc_eq)
  then show ?thesis using assms(1) by (subst ell_net.simps) simp
qed

text \<open>The factors: \<open>a\<close> is the inverse of \<open>x + x2\<close>, and \<open>d_2\<close> as in the code.\<close>

definition net_d2 :: "'k::comm_ring_1 \<Rightarrow> 'k \<Rightarrow> 'k \<Rightarrow> 'k \<Rightarrow> 'k \<Rightarrow> 'k gauss" where
  "net_d2 x y x2 y2 a = gbase (2 * x - x2) - Gauss (- (y * a)) (y2 * a) * Gauss (- (y * a)) (y2 * a)"

definition net_den :: "'k::comm_ring_1 \<Rightarrow> 'k \<Rightarrow> 'k \<Rightarrow> 'k \<Rightarrow> 'k gauss" where
  "net_den x y x2 y2 = gbase ((2 * x - x2) * (x + x2) ^ 2) - Gauss y y2 * Gauss y y2"

text \<open>The term \<open>d_{r+1}\<close> of the net of the points \<open>(x, y)\<close> and \<open>(- x2, i y2)\<close>.\<close>

definition ellnet_value :: "'k::comm_ring_1 \<Rightarrow> 'k \<Rightarrow> 'k \<Rightarrow> 'k \<Rightarrow> nat \<Rightarrow> 'k gauss \<Rightarrow> bool" where
  "ellnet_value x y x2 y2 r D \<longleftrightarrow>
     (\<exists>c a b. c * (2 * y) = 1 \<and> (x + x2) * a = 1 \<and> net_den x y x2 y2 * b = 1 \<and>
        D = snd (snd (ell_net (ell_term x y c) (gbase a) b (net_d2 x y x2 y2 a) r)))"

lemma inverse_eq: "(x :: 'k::comm_ring_1) * a = 1 \<Longrightarrow> x * b = 1 \<Longrightarrow> a = b"
  by (metis mult.assoc mult.commute mult.left_neutral)

lemma ellnet_value_unique: "ellnet_value x y x2 y2 r D \<Longrightarrow> ellnet_value x y x2 y2 r E \<Longrightarrow> D = E"
  unfolding ellnet_value_def by (metis inverse_eq mult.commute)

context pairing_base
begin

definition tmp_at :: "(int \<Rightarrow> 'k) \<Rightarrow> int \<Rightarrow> 'a ellnet_tmp \<Rightarrow> bool" where
  "tmp_at W i = (\<lambda>(sm2, s3, tm2, t3). \<alpha> sm2 = W (i - 2) ^ 2 \<and> \<alpha> s3 = W (i + 3) ^ 2 \<and>
     \<alpha> tm2 = W (i - 3) * W (i - 1) \<and> \<alpha> t3 = W (i + 2) * W (i + 4))"

lemma products_ok:
  assumes "block_in V k" "block_at \<alpha> W i k" "st_in V st" "tmp \<in> line_vars V"
  shows "\<exists>st' tmp'. ellnet_products B k st tmp = (st', tmp') \<and> st_in V st' \<and> st_at \<alpha> W i st' \<and>
    tmp' \<in> line_vars V \<and> tmp_at W i tmp'"
proof -
  obtain sm2 s3 tm2 t3 where "tmp = (sm2, s3, tm2, t3)" by (cases tmp) auto
  then show ?thesis
    using assms by (simp add: ellnet_products_def Let_def block_in_def block_at_def st_in_def st_at_def tmp_at_def
        impl_law power2_eq_square)
qed

lemma double_add_ok:
  assumes "doubling W (\<alpha> C)" "1 \<le> i" and V: "block_in V k" "st_in V st" "tmp \<in> line_vars V" "C \<in> V" "e0 \<in> V" "e1 \<in> V"
    and at: "st_at \<alpha> W i st" "tmp_at W i tmp"
  shows "\<exists>k' e0' e1'. ellnet_double_add B C st tmp k e0 e1 = (k', e0', e1') \<and> block_in V k' \<and>
    block_at \<alpha> W (2 * i + 1) k' \<and> e0' \<in> V \<and> e1' \<in> V"
proof -
  obtain sm2 s3 tm2 t3 where tmp: "tmp = (sm2, s3, tm2, t3)" by (cases tmp) auto
  note defs = block_in_def block_at_def st_in_def st_at_def tmp_at_def
  show ?thesis
    using V at unfolding tmp
    by (simp add: ellnet_double_add_def Let_def defs impl_law index_simps doubling_cases [OF assms(1,2)])
      (simp add: algebra_simps power2_eq_square power3_eq_cube)
qed

lemma double_ok:
  assumes "doubling W (\<alpha> C)" "1 \<le> i" and V: "block_in V k" "st_in V st" "tmp \<in> line_vars V" "C \<in> V" "e0 \<in> V" "e1 \<in> V"
    and at: "st_at \<alpha> W i st" "tmp_at W i tmp"
  shows "\<exists>k' e0' e1'. ellnet_double B C st tmp k e0 e1 = (k', e0', e1') \<and> block_in V k' \<and>
    block_at \<alpha> W (2 * i) k' \<and> e0' \<in> V \<and> e1' \<in> V"
proof -
  obtain sm2 s3 tm2 t3 where tmp: "tmp = (sm2, s3, tm2, t3)" by (cases tmp) auto
  note defs = block_in_def block_at_def st_in_def st_at_def tmp_at_def
  show ?thesis
    using V at unfolding tmp
    by (simp add: ellnet_double_def Let_def defs impl_law doubling_cases [OF assms(1,2)])
      (simp add: algebra_simps power2_eq_square power3_eq_cube)
qed

lemma start_ok:
  assumes "x \<in> V" "y \<in> V"
  shows "\<exists>k C. ellnet_start B x y = (k, C) \<and> block_in V k \<and> C \<in> V \<and>
    (\<forall>z c. \<alpha> z = 0 \<longrightarrow> block_at \<alpha> (ell_term (\<alpha> x) (\<alpha> y) c) 1 (k\<lparr> en_m1 := z \<rparr>))"
proof -
  have five: "ell_term X Y c 5 = (4 * Y * (X ^ 6 + 5 * X ^ 4 - 5 * X ^ 2 - 1)) * (2 * Y) ^ 3 -
      (3 * X ^ 4 + 6 * X ^ 2 - 1) ^ 3" for X Y c :: 'k
    using ell_term_odd [of 2 X Y c] by (simp add: ell_term_small)
  show ?thesis
    using assms by (simp add: ellnet_start_def Let_def block_in_def block_at_def impl_law ell_term_small five)
      (simp add: algebra_simps eval_nat_numeral)
qed

lemma finish_ok:
  assumes "block_in V k" "C \<in> V" "\<alpha> (en_1 k) \<noteq> 0"
  obtains z D where "ellnet_finish B k C = (k\<lparr> en_m1 := z \<rparr>, D)" "z \<in> V" "\<alpha> z = 0" "D \<in> V" "\<alpha> (en_1 k) * \<alpha> D = 1"
  using assms by (auto simp: ellnet_finish_def block_in_def impl_law)

lemma factors_ok:
  assumes V: "x \<in> V" "y \<in> V" "x2 \<in> V" "y2 \<in> V" "A0 \<in> V" "C0 \<in> V" "e0 \<in> V" "B0 \<in> fq_pairs V" "d0 \<in> fq_pairs V"
    and nz: "\<alpha> x + \<alpha> x2 \<noteq> 0" "net_den (\<alpha> x) (\<alpha> y) (\<alpha> x2) (\<alpha> y2) \<noteq> 0"
  shows "\<exists>A Bv C e d. ellnet_factors B (field_init_fi G B) x y x2 y2 A0 B0 C0 e0 d0 = (A, Bv, C, e, d) \<and>
    A \<in> V \<and> Bv \<in> fq_pairs V \<and> C \<in> V \<and> e \<in> V \<and> d \<in> fq_pairs V \<and>
    (\<alpha> x + \<alpha> x2) * \<alpha> A = 1 \<and> net_den (\<alpha> x) (\<alpha> y) (\<alpha> x2) (\<alpha> y2) * fi_val Bv = 1 \<and>
    fi_val d = net_d2 (\<alpha> x) (\<alpha> y) (\<alpha> x2) (\<alpha> y2) (\<alpha> A)"
proof -
  let ?F = "field_init_fi G B"
  define A1 where "A1 = element_add B A0 x x2"
  define C where "C = element_sub B (element_double B C0 x) (element_double B C0 x) x2"
  define e where "e = element_mul B (element_square B e0 A1) C (element_square B e0 A1)"
  define p where "p = \<lparr> fq_x = element_set B (fi_re d0) y, fq_y = element_set B (fi_im d0) y2 \<rparr>"
  define s where "s = element_square ?F p p"
  define d1 where "d1 = s\<lparr> fq_x := element_sub B (fi_re s) (fi_re s) e \<rparr>"
  define Bn where "Bn = element_neg ?F B0 d1"
  define Bv where "Bv = element_invert ?F Bn Bn"
  define A where "A = element_invert B A1 A1"
  define re where "re = element_mul B (fi_re d1) y A"
  define qt where "qt = \<lparr> fq_x = element_neg B re re, fq_y = element_mul B (fi_im d1) y2 A \<rparr>"
  define t where "t = element_square ?F qt qt"
  define d2 where "d2 = t\<lparr> fq_x := element_sub B (fi_re t) C (fi_re t) \<rparr>"
  define d where "d = d2\<lparr> fq_y := element_neg B (fi_im d2) (fi_im d2) \<rparr>"
  have eq: "ellnet_factors B ?F x y x2 y2 A0 B0 C0 e0 d0 = (A, Bv, C, e, d)"
    by (simp only: ellnet_factors_def Let_def A1_def [symmetric] C_def [symmetric] e_def [symmetric] p_def [symmetric]
        s_def [symmetric] d1_def [symmetric] Bn_def [symmetric] Bv_def [symmetric] A_def [symmetric] re_def [symmetric]
        qt_def [symmetric] t_def [symmetric] d2_def [symmetric] d_def [symmetric] cong: let_weak_cong)
  have A1: "A1 \<in> V" "\<alpha> A1 = \<alpha> x + \<alpha> x2" using V by (simp_all add: A1_def impl_law)
  have C: "C \<in> V" "\<alpha> C = 2 * \<alpha> x - \<alpha> x2" using V by (simp_all add: C_def impl_law flip: mult_2)
  have e: "e \<in> V" "\<alpha> e = (2 * \<alpha> x - \<alpha> x2) * (\<alpha> x + \<alpha> x2) ^ 2"
    using V A1 C by (simp_all add: e_def impl_law power2_eq_square)
  have p: "p \<in> fq_pairs V" "fi_val p = Gauss (\<alpha> y) (\<alpha> y2)"
    using V by (simp_all add: p_def fi_re_def fi_im_def impl_law gauss_eq_iff)
  have s: "s \<in> fq_pairs V" "fi_val s = Gauss (\<alpha> y) (\<alpha> y2) * Gauss (\<alpha> y) (\<alpha> y2)"
    unfolding s_def using fi.square_in [OF p(1,1)] fi.square [OF p(1,1)] p(2) by simp_all
  have d1: "d1 \<in> fq_pairs V" "- fi_val d1 = net_den (\<alpha> x) (\<alpha> y) (\<alpha> x2) (\<alpha> y2)"
  proof -
    show "d1 \<in> fq_pairs V" using s(1) e(1) by (simp add: d1_def fi_re_def)
    have "fi_val d1 = fi_val s - gbase (\<alpha> e)" using s(1) e(1) by (simp add: d1_def fi_re_def gauss_eq_iff impl_law)
    then show "- fi_val d1 = net_den (\<alpha> x) (\<alpha> y) (\<alpha> x2) (\<alpha> y2)" unfolding s(2) e(2) net_den_def by simp
  qed
  have Bn: "Bn \<in> fq_pairs V" "fi_val Bn = net_den (\<alpha> x) (\<alpha> y) (\<alpha> x2) (\<alpha> y2)"
    unfolding Bn_def using fi.neg_in [OF V(8) d1(1)] fi.neg [OF V(8) d1(1)] d1(2) by simp_all
  have Bv: "Bv \<in> fq_pairs V" "fi_val Bn * fi_val Bv = 1"
    unfolding Bv_def using fif.invert_in [OF Bn(1,1)] fif.invert [OF Bn(1,1)] Bn(2) nz(2) by simp_all
  have A: "A \<in> V" "\<alpha> A1 * \<alpha> A = 1"
    unfolding A_def using invert_in [OF A1(1,1)] invert [OF A1(1,1)] A1(2) nz(1) by simp_all
  have re: "re \<in> V" "\<alpha> re = \<alpha> y * \<alpha> A" using V A(1) d1(1) by (simp_all add: re_def fi_re_def impl_law)
  have qt: "qt \<in> fq_pairs V" "fi_val qt = Gauss (- (\<alpha> y * \<alpha> A)) (\<alpha> y2 * \<alpha> A)"
    using V A(1) d1(1) re by (simp_all add: qt_def fi_re_def fi_im_def impl_law gauss_eq_iff)
  have t: "t \<in> fq_pairs V" "fi_val t = fi_val qt * fi_val qt"
    unfolding t_def using fi.square_in [OF qt(1,1)] fi.square [OF qt(1,1)] by simp_all
  have d: "d \<in> fq_pairs V" "fi_val d = gbase (\<alpha> C) - fi_val t"
    using t(1) C(1) by (simp_all add: d_def d2_def fi_re_def fi_im_def gauss_eq_iff impl_law)
  show ?thesis
    unfolding eq using A Bv C(1) e(1) d t(2) unfolding A1(2) Bn(2) C(2) qt(2) net_d2_def by simp
qed

text \<open>One step of the net.\<close>

definition net_in :: "'a ellnet_net \<Rightarrow> bool" where
  "net_in = (\<lambda>(out, dm1, d0, d1, u, v). out \<in> fq_pairs V \<and> dm1 \<in> fq_pairs V \<and> d0 \<in> fq_pairs V \<and> d1 \<in> fq_pairs V \<and>
     u \<in> fq_pairs V \<and> v \<in> fq_pairs V)"

definition net_val :: "'a ellnet_net \<Rightarrow> 'k gauss \<times> 'k gauss \<times> 'k gauss" where
  "net_val = (\<lambda>(out, dm1, d0, d1, u, v). (fi_val dm1, fi_val d0, fi_val d1))"

lemma scale_fi_ok:
  assumes "n \<in> fq_pairs V" "u \<in> fq_pairs V" "t \<in> V"
  shows "scale_fi B n u t \<in> fq_pairs V" "fi_val (scale_fi B n u t) = fi_val u * gbase (\<alpha> t)"
  using assms by (simp_all add: scale_fi_def Let_def fi_re_def fi_im_def gauss_eq_iff impl_law)

text \<open>One of the three terms before it is scaled.\<close>

lemma net_term_ok:
  assumes "out \<in> fq_pairs V" "d \<in> fq_pairs V" "u \<in> fq_pairs V" "v \<in> fq_pairs V" "t \<in> V" "s \<in> V"
  shows "scale_fi B out u t \<in> fq_pairs V"
    and "element_sub (field_init_fi G B) (scale_fi B d v s) (scale_fi B d v s) (scale_fi B out u t) \<in> fq_pairs V"
    and "fi_val (element_sub (field_init_fi G B) (scale_fi B d v s) (scale_fi B d v s) (scale_fi B out u t)) =
      fi_val v * gbase (\<alpha> s) - fi_val u * gbase (\<alpha> t)"
proof -
  note a = scale_fi_ok [OF assms(1,3,5)] and b = scale_fi_ok [OF assms(2,4,6)]
  show "scale_fi B out u t \<in> fq_pairs V" by (rule a(1))
  show "element_sub (field_init_fi G B) (scale_fi B d v s) (scale_fi B d v s) (scale_fi B out u t) \<in> fq_pairs V"
    by (rule fi.sub_in [OF b(1,1) a(1)])
  show "fi_val (element_sub (field_init_fi G B) (scale_fi B d v s) (scale_fi B d v s) (scale_fi B out u t)) =
      fi_val v * gbase (\<alpha> s) - fi_val u * gbase (\<alpha> t)"
    unfolding fi.sub [OF b(1,1) a(1)] a(2) b(2) ..
qed

lemma net_step_ok:
  assumes st: "st_in V st" "st_at \<alpha> W i st" and V: "A \<in> V" "Bv \<in> fq_pairs V" and net: "net_in n"
  shows "net_in (ellnet_net_step B (field_init_fi G B) add A Bv st n) \<and>
    net_val (ellnet_net_step B (field_init_fi G B) add A Bv st n) =
      net_step W (gbase (\<alpha> A)) (fi_val Bv) i add (net_val n)"
proof -
  obtain out dm1 d0 d1 u0 v0 where n: "n = (out, dm1, d0, d1, u0, v0)" by (cases n) auto
  have N: "out \<in> fq_pairs V" "dm1 \<in> fq_pairs V" "d0 \<in> fq_pairs V" "d1 \<in> fq_pairs V" "u0 \<in> fq_pairs V" "v0 \<in> fq_pairs V"
    using net unfolding n net_in_def by simp_all
  let ?F = "field_init_fi G B"
  define u where "u = element_square ?F u0 d0"
  define v where "v = element_mul ?F v0 dm1 d1"
  have u: "u \<in> fq_pairs V" "fi_val u = fi_val d0 * fi_val d0"
    unfolding u_def using fi.square_in [OF N(5,3)] fi.square [OF N(5,3)] .
  have v: "v \<in> fq_pairs V" "fi_val v = fi_val dm1 * fi_val d1"
    unfolding v_def using fi.mul_in [OF N(6,2,4)] fi.mul [OF N(6,2,4)] .
  have S: "st_sm1 st \<in> V" "st_s0 st \<in> V" "st_s1 st \<in> V" "st_s2 st \<in> V"
    "st_tm1 st \<in> V" "st_t0 st \<in> V" "st_t1 st \<in> V" "st_t2 st \<in> V"
    using st(1) by (simp_all add: st_in_def)
  note at = st(2) [unfolded st_at_def]
  show ?thesis
  proof (cases add)
    case True
    define o1 where "o1 = scale_fi B out u (st_t0 st)"
    define m where "m = element_sub ?F (scale_fi B dm1 v (st_s0 st)) (scale_fi B dm1 v (st_s0 st)) o1"
    define o2 where "o2 = scale_fi B o1 u (st_t1 st)"
    define z where "z = element_sub ?F (scale_fi B d0 v (st_s1 st)) (scale_fi B d0 v (st_s1 st)) o2"
    define o3 where "o3 = scale_fi B o2 u (st_t2 st)"
    define p where "p = element_sub ?F (scale_fi B d1 v (st_s2 st)) (scale_fi B d1 v (st_s2 st)) o3"
    have eq: "ellnet_net_step B ?F add A Bv st n =
        (o3, m, scale_fi B z z A, element_mul ?F p p Bv, u, v)"
      using True unfolding n
      by (simp only: ellnet_net_step_def Let_def u_def [symmetric] v_def [symmetric] o1_def [symmetric] m_def [symmetric]
          o2_def [symmetric] z_def [symmetric] o3_def [symmetric] p_def [symmetric] prod.case if_True cong: let_weak_cong)
    note m = net_term_ok [OF N(1,2) u(1) v(1) S(6,2), folded o1_def, folded m_def]
    note z = net_term_ok [OF m(1) N(3) u(1) v(1) S(7,3), folded o2_def, folded z_def]
    note p = net_term_ok [OF z(1) N(4) u(1) v(1) S(8,4), folded o3_def, folded p_def]
    note zA = scale_fi_ok [OF z(2,2) V(1)] and pB = fi.mul_in [OF p(2,2) V(2)] fi.mul [OF p(2,2) V(2)]
    show ?thesis
      unfolding eq unfolding net_in_def net_val_def n prod.case net_step_def
      using p(1) m(2) zA(1) pB(1) u(1) v(1) True at
      by (simp add: m(3) zA(2) z(3) pB(2) p(3) u(2) v(2) algebra_simps del: fi_table fq_pairs_iff)
  next
    case False
    define o1 where "o1 = scale_fi B out u (st_tm1 st)"
    define m where "m = element_sub ?F (scale_fi B dm1 v (st_sm1 st)) (scale_fi B dm1 v (st_sm1 st)) o1"
    define o2 where "o2 = scale_fi B o1 u (st_t0 st)"
    define z where "z = element_sub ?F (scale_fi B d0 v (st_s0 st)) (scale_fi B d0 v (st_s0 st)) o2"
    define o3 where "o3 = scale_fi B o2 u (st_t1 st)"
    define p where "p = element_sub ?F (scale_fi B d1 v (st_s1 st)) (scale_fi B d1 v (st_s1 st)) o3"
    have eq: "ellnet_net_step B ?F add A Bv st n = (o3, m, z, scale_fi B p p A, u, v)"
      using False unfolding n
      by (simp only: ellnet_net_step_def Let_def u_def [symmetric] v_def [symmetric] o1_def [symmetric] m_def [symmetric]
          o2_def [symmetric] z_def [symmetric] o3_def [symmetric] p_def [symmetric] prod.case if_False cong: let_weak_cong)
    note m = net_term_ok [OF N(1,2) u(1) v(1) S(5,1), folded o1_def, folded m_def]
    note z = net_term_ok [OF m(1) N(3) u(1) v(1) S(6,2), folded o2_def, folded z_def]
    note p = net_term_ok [OF z(1) N(4) u(1) v(1) S(7,3), folded o3_def, folded p_def]
    note pA = scale_fi_ok [OF p(2,2) V(1)]
    show ?thesis
      unfolding eq unfolding net_in_def net_val_def n prod.case net_step_def
      using p(1) m(2) z(2) pA(1) u(1) v(1) False at
      by (simp add: m(3) z(3) pA(2) p(3) u(2) v(2) algebra_simps del: fi_table fq_pairs_iff)
  qed
qed

text \<open>One bit of the order: the block moves to the next prefix.\<close>

lemma block_step_ok:
  assumes "doubling W (\<alpha> C)" "1 \<le> i" "b \<le> 1"
    and "block_in V k" "st_in V st" "tmp \<in> line_vars V" "C \<in> V" "e0 \<in> V" "e1 \<in> V"
    and "st_at \<alpha> W (int i) st" "tmp_at W (int i) tmp"
  shows "\<exists>k' e0' e1'. (if b \<noteq> 0 then ellnet_double_add B C st tmp k e0 e1 else ellnet_double B C st tmp k e0 e1) = (k', e0', e1') \<and>
    block_in V k' \<and> block_at \<alpha> W (int (2 * i + b)) k' \<and> e0' \<in> V \<and> e1' \<in> V"
proof -
  have i: "1 \<le> int i" using assms(2) by simp
  show ?thesis
  proof (cases "b = 0")
    case True
    then show ?thesis using double_ok [OF assms(1) i assms(4-11)] by simp
  next
    case False
    then have "b = 1" using assms(3) by simp
    then show ?thesis using double_add_ok [OF assms(1) i assms(4-11)] by (simp add: add.commute)
  qed
qed

text \<open>The prefixes of the order: \<open>i\<close> is what is read before bit \<open>m\<close>.\<close>

lemma prefix_step:
  assumes "0 \<le> r"
  shows "nat r div 2 ^ m = 2 * (nat r div 2 ^ Suc m) + mpz_tstbit G r m" "mpz_tstbit G r m \<le> 1"
  using nat_div_step [OF gmp.gmp_laws_axioms assms] tst_le_1 [OF gmp.gmp_laws_axioms assms] by blast+

lemma ellnet_loop_ok:
  assumes d: "doubling W (\<alpha> C)" and r: "0 \<le> r" and V: "A \<in> V" "Bv \<in> fq_pairs V" "C \<in> V"
    and "1 \<le> nat r div 2 ^ Suc m" "block_in V k" "block_at \<alpha> W (int (nat r div 2 ^ Suc m)) k"
    and "st_in V st" "tmp \<in> line_vars V" "e0 \<in> V" "e1 \<in> V" "net_in n"
    and "net_val n = ell_net W (gbase (\<alpha> A)) (fi_val Bv) D (nat r div 2 ^ Suc m)"
  shows "net_in (ellnet_loop G B (field_init_fi G B) r C A Bv m k st tmp e0 e1 n) \<and>
    net_val (ellnet_loop G B (field_init_fi G B) r C A Bv m k st tmp e0 e1 n) =
      ell_net W (gbase (\<alpha> A)) (fi_val Bv) D (nat r)"
  using assms(6-)
proof (induction m arbitrary: k st tmp e0 e1 n)
  case (0 k st tmp e0 e1 n)
  define i where "i = nat r div 2 ^ Suc 0"
  note P = "0.prems" [folded i_def]
  note pre = prefix_step [OF r, of 0, folded i_def]
  obtain st' tmp' where p: "ellnet_products B k st tmp = (st', tmp')" "st_in V st'" "st_at \<alpha> W (int i) st'"
    "tmp' \<in> line_vars V" "tmp_at W (int i) tmp'"
    using products_ok [OF P(2,3,4,5)] by blast
  let ?b = "mpz_tstbit G r 0"
  obtain k' e0' e1' where s: "(if ?b \<noteq> 0 then ellnet_double_add B C st' tmp' k e0 e1 else ellnet_double B C st' tmp' k e0 e1) =
      (k', e0', e1')"
    using block_step_ok [OF d P(1) pre(2) P(2) p(2,4) V(3) P(6,7) p(3,5)] by blast
  note n = net_step_ok [OF p(2,3) V(1,2) P(8), of "?b \<noteq> 0"]
  have "ellnet_loop G B (field_init_fi G B) r C A Bv 0 k st tmp e0 e1 n =
      ellnet_net_step B (field_init_fi G B) (?b \<noteq> 0) A Bv st' n"
    by (subst ellnet_loop.simps) (simp only: p(1) s Let_def prod.case nat.case)
  moreover have r: "nat r = 2 * i + ?b" using pre(1) by simp
  ultimately show ?case
    using n unfolding r ell_net_step [OF P(1) pre(2)] P(9) [symmetric] by (simp only: simp_thms)
next
  case (Suc m k st tmp e0 e1 n)
  define i where "i = nat r div 2 ^ Suc (Suc m)"
  note P = Suc.prems [folded i_def]
  note pre = prefix_step [OF r, of "Suc m", folded i_def]
  obtain st' tmp' where p: "ellnet_products B k st tmp = (st', tmp')" "st_in V st'" "st_at \<alpha> W (int i) st'"
    "tmp' \<in> line_vars V" "tmp_at W (int i) tmp'"
    using products_ok [OF P(2,3,4,5)] by blast
  let ?b = "mpz_tstbit G r (Suc m)"
  obtain k' e0' e1' where s: "(if ?b \<noteq> 0 then ellnet_double_add B C st' tmp' k e0 e1 else ellnet_double B C st' tmp' k e0 e1) =
      (k', e0', e1')" "block_in V k'" "block_at \<alpha> W (int (2 * i + ?b)) k'" "e0' \<in> V" "e1' \<in> V"
    using block_step_ok [OF d P(1) pre(2) P(2) p(2,4) V(3) P(6,7) p(3,5)] by blast
  note n = net_step_ok [OF p(2,3) V(1,2) P(8), of "?b \<noteq> 0"]
  have eq: "ellnet_loop G B (field_init_fi G B) r C A Bv (Suc m) k st tmp e0 e1 n =
      ellnet_loop G B (field_init_fi G B) r C A Bv m k' st' tmp' e0' e1'
        (ellnet_net_step B (field_init_fi G B) (?b \<noteq> 0) A Bv st' n)"
    by (subst ellnet_loop.simps) (simp only: p(1) s(1) Let_def prod.case nat.case)
  have "1 \<le> nat r div 2 ^ Suc m" unfolding pre(1) using P(1) by simp
  then show ?case
    unfolding eq
  proof (rule Suc.IH)
    show "block_at \<alpha> W (int (nat r div 2 ^ Suc m)) k'" unfolding pre(1) by (rule s(3))
    show "net_val (ellnet_net_step B (field_init_fi G B) (?b \<noteq> 0) A Bv st' n) =
        ell_net W (gbase (\<alpha> A)) (fi_val Bv) D (nat r div 2 ^ Suc m)"
      unfolding pre(1) ell_net_step [OF P(1) pre(2)] P(9) [symmetric] using n by (rule conjunct2)
    show "net_in (ellnet_net_step B (field_init_fi G B) (?b \<noteq> 0) A Bv st' n)" using n by (rule conjunct1)
  qed (fact s p)+
qed

text \<open>The stored products, and the loop that reads them.\<close>

definition prods_at :: "(int \<Rightarrow> 'k) \<Rightarrow> int \<Rightarrow> nat \<Rightarrow> 'a ellnet_pp_st list \<Rightarrow> nat \<Rightarrow> bool" where
  "prods_at W r m sq k \<longleftrightarrow>
     (\<forall>j\<le>m. st_in V (sq ! (k + j)) \<and> st_at \<alpha> W (int (nat r div 2 ^ Suc (m - j))) (sq ! (k + j)))"

lemma st_init_in: "st_in V (ellnet_st_init B)"
  by (simp add: st_in_def ellnet_st_init_def Let_def)

lemma ellnet_pp_loop_ok:
  assumes d: "doubling W (\<alpha> C)" and r: "0 \<le> r" and V: "C \<in> V"
    and "1 \<le> nat r div 2 ^ Suc m" "block_in V k" "block_at \<alpha> W (int (nat r div 2 ^ Suc m)) k"
    and "tmp \<in> line_vars V" "e0 \<in> V" "e1 \<in> V"
  shows "prods_at W r m (ellnet_pp_loop G B r C m k tmp e0 e1) 0"
  using assms(4-)
proof (induction m arbitrary: k tmp e0 e1)
  case (0 k tmp e0 e1)
  obtain st' tmp' where "ellnet_products B k (ellnet_st_init B) tmp = (st', tmp')" "st_in V st'"
    "st_at \<alpha> W (int (nat r div 2 ^ Suc 0)) st'"
    using products_ok [OF "0.prems"(2,3) st_init_in "0.prems"(4)] by blast
  then show ?case by (subst ellnet_pp_loop.simps) (simp add: prods_at_def)
next
  case (Suc m k tmp e0 e1)
  define i where "i = nat r div 2 ^ Suc (Suc m)"
  note P = Suc.prems [folded i_def]
  note pre = prefix_step [OF r, of "Suc m", folded i_def]
  obtain st' tmp' where p: "ellnet_products B k (ellnet_st_init B) tmp = (st', tmp')" "st_in V st'" "st_at \<alpha> W (int i) st'"
    "tmp' \<in> line_vars V" "tmp_at W (int i) tmp'"
    using products_ok [OF P(2,3) st_init_in P(4)] by blast
  let ?b = "mpz_tstbit G r (Suc m)"
  obtain k' e0' e1' where s: "(if ?b \<noteq> 0 then ellnet_double_add B C st' tmp' k e0 e1 else ellnet_double B C st' tmp' k e0 e1) =
      (k', e0', e1')" "block_in V k'" "block_at \<alpha> W (int (2 * i + ?b)) k'" "e0' \<in> V" "e1' \<in> V"
    using block_step_ok [OF d P(1) pre(2) P(2) p(2,4) V P(5,6) p(3,5)] by blast
  have eq: "ellnet_pp_loop G B r C (Suc m) k tmp e0 e1 = st' # ellnet_pp_loop G B r C m k' tmp' e0' e1'"
    by (subst ellnet_pp_loop.simps) (simp only: p(1) s(1) Let_def prod.case nat.case)
  have "1 \<le> nat r div 2 ^ Suc m" unfolding pre(1) using P(1) by simp
  then have rest: "prods_at W r m (ellnet_pp_loop G B r C m k' tmp' e0' e1') 0"
  proof (rule Suc.IH)
    show "block_at \<alpha> W (int (nat r div 2 ^ Suc m)) k'" unfolding pre(1) by (rule s(3))
  qed (fact s p)+
  show ?case
    unfolding prods_at_def eq
  proof (intro allI impI)
    fix j assume "j \<le> Suc m"
    show "st_in V ((st' # ellnet_pp_loop G B r C m k' tmp' e0' e1') ! (0 + j)) \<and>
        st_at \<alpha> W (int (nat r div 2 ^ Suc (Suc m - j))) ((st' # ellnet_pp_loop G B r C m k' tmp' e0' e1') ! (0 + j))"
    proof (cases j)
      case 0
      then show ?thesis using p(2,3) unfolding i_def by simp
    next
      case (Suc l)
      then show ?thesis using rest \<open>j \<le> Suc m\<close> unfolding prods_at_def by simp
    qed
  qed
qed

lemma ellnet_apply_loop_ok:
  assumes r: "0 \<le> r" and V: "A \<in> V" "Bv \<in> fq_pairs V"
    and "1 \<le> nat r div 2 ^ Suc m" "prods_at W r m sq k" "net_in n"
    and "net_val n = ell_net W (gbase (\<alpha> A)) (fi_val Bv) D (nat r div 2 ^ Suc m)"
  shows "net_in (ellnet_apply_loop G B (field_init_fi G B) r A Bv sq k m n) \<and>
    net_val (ellnet_apply_loop G B (field_init_fi G B) r A Bv sq k m n) =
      ell_net W (gbase (\<alpha> A)) (fi_val Bv) D (nat r)"
  using assms(4-)
proof (induction m arbitrary: k n)
  case (0 k n)
  define i where "i = nat r div 2 ^ Suc 0"
  note P = "0.prems" [folded i_def]
  note pre = prefix_step [OF r, of 0, folded i_def]
  have st: "st_in V (sq ! k)" "st_at \<alpha> W (int i) (sq ! k)" using P(2) by (simp_all add: prods_at_def i_def)
  note n = net_step_ok [OF st V P(3), of "mpz_tstbit G r 0 \<noteq> 0"]
  have "ellnet_apply_loop G B (field_init_fi G B) r A Bv sq k 0 n =
      ellnet_net_step B (field_init_fi G B) (mpz_tstbit G r 0 \<noteq> 0) A Bv (sq ! k) n"
    by (subst ellnet_apply_loop.simps) (simp only: Let_def nat.case)
  moreover have r: "nat r = 2 * i + mpz_tstbit G r 0" using pre(1) by simp
  ultimately show ?case
    using n unfolding r ell_net_step [OF P(1) pre(2)] P(4) [symmetric] by (simp only: simp_thms)
next
  case (Suc m k n)
  define i where "i = nat r div 2 ^ Suc (Suc m)"
  note P = Suc.prems [folded i_def]
  note pre = prefix_step [OF r, of "Suc m", folded i_def]
  have all: "\<forall>j\<le>Suc m. st_in V (sq ! (k + j)) \<and> st_at \<alpha> W (int (nat r div 2 ^ Suc (Suc m - j))) (sq ! (k + j))"
    using P(2) unfolding prods_at_def .
  have st: "st_in V (sq ! k)" "st_at \<alpha> W (int i) (sq ! k)" using all [rule_format, of 0] unfolding i_def by simp_all
  have rest: "prods_at W r m sq (k + 1)"
    unfolding prods_at_def
  proof (intro allI impI)
    fix j assume "j \<le> m"
    then show "st_in V (sq ! (k + 1 + j)) \<and> st_at \<alpha> W (int (nat r div 2 ^ Suc (m - j))) (sq ! (k + 1 + j))"
      using all [rule_format, of "Suc j"] by simp
  qed
  note n = net_step_ok [OF st V P(3), of "mpz_tstbit G r (Suc m) \<noteq> 0"]
  have eq: "ellnet_apply_loop G B (field_init_fi G B) r A Bv sq k (Suc m) n =
      ellnet_apply_loop G B (field_init_fi G B) r A Bv sq (k + 1) m
        (ellnet_net_step B (field_init_fi G B) (mpz_tstbit G r (Suc m) \<noteq> 0) A Bv (sq ! k) n)"
    by (subst ellnet_apply_loop.simps) (simp only: Let_def nat.case)
  have "1 \<le> nat r div 2 ^ Suc m" unfolding pre(1) using P(1) by simp
  then show ?case
    unfolding eq
  proof (rule Suc.IH [OF _ rest])
    show "net_in (ellnet_net_step B (field_init_fi G B) (mpz_tstbit G r (Suc m) \<noteq> 0) A Bv (sq ! k) n)"
      using n by (rule conjunct1)
    show "net_val (ellnet_net_step B (field_init_fi G B) (mpz_tstbit G r (Suc m) \<noteq> 0) A Bv (sq ! k) n) =
        ell_net W (gbase (\<alpha> A)) (fi_val Bv) D (nat r div 2 ^ Suc m)"
      unfolding pre(1) ell_net_step [OF P(1) pre(2)] P(4) [symmetric] using n by (rule conjunct2)
  qed
qed

end

end
