(* ===== verification/AProj.thy ===== *)
theory AProj
  imports AMiller
begin

text \<open>
  The Miller loop of \<^verbatim>\<open>ecc/a_param.c\<close> in projective coordinates: \<open>(X, Y, z)\<close> stands for
  \<open>(X / z^2, Y / z^3)\<close>. Its lines are those of the affine loop times a power of \<open>z\<close>.
\<close>

context a_miller
begin

text \<open>\<open>proj_rep R z z2 x y\<close>: the projective point \<open>R\<close> with \<open>z\<close> and \<open>z2 = z^2\<close> stands for \<open>(x, y)\<close>.\<close>

definition proj_rep :: "'a point \<Rightarrow> 'a \<Rightarrow> 'a \<Rightarrow> 'a point \<Rightarrow> bool" where
  "proj_rep R z z2 T \<longleftrightarrow> inf_flag R = 0 \<and> pt_x R \<in> V \<and> pt_y R \<in> V \<and> z \<in> V \<and> z2 \<in> V \<and>
     \<alpha> z \<noteq> 0 \<and> \<alpha> z2 = \<alpha> z * \<alpha> z \<and> \<alpha> (pt_x R) = \<alpha> (pt_x T) * (\<alpha> z * \<alpha> z) \<and>
     \<alpha> (pt_y R) = \<alpha> (pt_y T) * (\<alpha> z * \<alpha> z * \<alpha> z)"

lemma proj_repD:
  assumes "proj_rep R z z2 T"
  shows "inf_flag R = 0" "pt_x R \<in> V" "pt_y R \<in> V" "z \<in> V" "z2 \<in> V" "\<alpha> z \<noteq> 0" "\<alpha> z2 = \<alpha> z * \<alpha> z"
    "\<alpha> (pt_x R) = \<alpha> (pt_x T) * (\<alpha> z * \<alpha> z)" "\<alpha> (pt_y R) = \<alpha> (pt_y T) * (\<alpha> z * \<alpha> z * \<alpha> z)"
  using assms by (simp_all add: proj_rep_def)

lemma nonzero_mult: "a \<in> V \<Longrightarrow> b \<in> V \<Longrightarrow> \<alpha> a \<noteq> 0 \<Longrightarrow> \<alpha> b \<noteq> 0 \<Longrightarrow> \<alpha> a * \<alpha> b \<noteq> 0"
  using no_zero_divisors [of a b] by blast

text \<open>A factor of the base field that is not zero.\<close>

definition scalar :: "'k \<Rightarrow> bool" where
  "scalar c \<longleftrightarrow> (\<exists>a\<in>V. \<alpha> a = c \<and> c \<noteq> 0)"

lemma scalar_mult: "scalar c \<Longrightarrow> scalar d \<Longrightarrow> scalar (c * d)"
  unfolding scalar_def using nonzero_mult mul mul_in init_in by metis

lemma scalar_1 [simp]: "scalar 1"
proof -
  let ?o = "element_set1 Fq (element_init Fq)"
  have "?o \<in> V" "\<alpha> ?o = 1" by (simp_all add: impl_law)
  moreover have "(1::'k) \<noteq> 0" using two_nonzero by (metis mult_zero_right mult.right_neutral)
  ultimately show ?thesis unfolding scalar_def by metis
qed

lemma scalar_V: "a \<in> V \<Longrightarrow> \<alpha> a \<noteq> 0 \<Longrightarrow> scalar (\<alpha> a)"
  unfolding scalar_def by blast

lemma tangent_proj_ok:
  assumes "l \<in> line_vars V" and rep: "proj_rep R z z2 T"
  defines "k \<equiv> \<alpha> z * \<alpha> z * (\<alpha> z * \<alpha> z) * (\<alpha> z * \<alpha> z)" and "x \<equiv> \<alpha> (pt_x T)" and "y \<equiv> \<alpha> (pt_y T)"
  obtains a b c e0 where "compute_abc_tangent_proj Fq l (pt_x R) (pt_y R) z z2 = (a, b, c, e0)"
    "a \<in> V" "b \<in> V" "c \<in> V" "e0 \<in> V"
    "\<alpha> a = k * - (3 * (x * x) + 1)" "\<alpha> b = k * (2 * y)" "\<alpha> c = k * - (2 * (y * y) + - (3 * (x * x) + 1) * x)"
proof -
  note R = proj_repD [OF rep]
  obtain a0 b0 c0 e where l: "l = (a0, b0, c0, e)" "a0 \<in> V" "b0 \<in> V" "c0 \<in> V" "e \<in> V"
    using assms(1) by (cases l) auto
  obtain a b c e0 where eq: "compute_abc_tangent_proj Fq l (pt_x R) (pt_y R) z z2 = (a, b, c, e0)"
    by (cases "compute_abc_tangent_proj Fq l (pt_x R) (pt_y R) z z2") auto
  have V: "a \<in> V \<and> b \<in> V \<and> c \<in> V \<and> e0 \<in> V"
    using eq l R(1-5) by (auto simp: compute_abc_tangent_proj_def Let_def)
  have "\<alpha> a = k * - (3 * (x * x) + 1)"
    using eq l R(1-5) by (auto simp: compute_abc_tangent_proj_def Let_def impl_law R(7-9) k_def x_def algebra_simps)
  moreover have "\<alpha> b = k * (2 * y)"
    using eq l R(1-5) by (auto simp: compute_abc_tangent_proj_def Let_def impl_law R(7-9) k_def y_def algebra_simps)
  moreover have "\<alpha> c = k * - (2 * (y * y) + - (3 * (x * x) + 1) * x)"
    using eq l R(1-5) by (auto simp: compute_abc_tangent_proj_def Let_def impl_law R(7-9) k_def x_def y_def algebra_simps)
  ultimately show ?thesis using that eq V by blast
qed

text \<open>Doubling an affine point whose ordinate is not zero.\<close>

lemma double_affine:
  assumes "T \<in> points" "inf_flag T = 0" "\<alpha> (pt_y T) \<noteq> 0"
  obtains l where "inf_flag (curve_double cdp T T) = 0"
    "l * (2 * \<alpha> (pt_y T)) = 3 * (\<alpha> (pt_x T) * \<alpha> (pt_x T)) + 1"
    "\<alpha> (pt_x (curve_double cdp T T)) = l * l - 2 * \<alpha> (pt_x T)"
    "\<alpha> (pt_y (curve_double cdp T T)) = (\<alpha> (pt_x T) - \<alpha> (pt_x (curve_double cdp T T))) * l - \<alpha> (pt_y T)"
proof -
  have eq: "curve_double cdp T T = double_no_check Fq T T (cv_a cdp)"
    using assms(2,3) is0 [OF points_coord(2) [OF assms(1)]] by (simp add: curve_double_def)
  have fl: "inf_flag (double_no_check Fq T T (cv_a cdp)) = 0" by (simp add: double_no_check_def Let_def)
  have "ec_sum 1 (Aff (\<alpha> (pt_x T)) (\<alpha> (pt_y T))) (Aff (\<alpha> (pt_x T)) (\<alpha> (pt_y T)))
      (Aff (\<alpha> (pt_x (curve_double cdp T T))) (\<alpha> (pt_y (curve_double cdp T T))))"
    using double_no_check_ok(2) [OF assms(1) assms] assms(2) fl unfolding eq a_coeff(2) ec_val_def by simp
  then obtain l where l: "l * (\<alpha> (pt_y T) + \<alpha> (pt_y T)) = 3 * (\<alpha> (pt_x T) * \<alpha> (pt_x T)) + 1"
    "Aff (\<alpha> (pt_x (curve_double cdp T T))) (\<alpha> (pt_y (curve_double cdp T T))) =
      third_point l (\<alpha> (pt_x T)) (\<alpha> (pt_y T)) (\<alpha> (pt_x T))" using assms(3) by auto
  show ?thesis
  proof (rule that [of l])
    note co = l(2) [unfolded third_point_def Let_def ec.inject]
    show x: "\<alpha> (pt_x (curve_double cdp T T)) = l * l - 2 * \<alpha> (pt_x T)" using co by (simp only: mult_2 diff_diff_add)
    show "\<alpha> (pt_y (curve_double cdp T T)) = (\<alpha> (pt_x T) - \<alpha> (pt_x (curve_double cdp T T))) * l - \<alpha> (pt_y T)"
      using co by (simp only: )
    show "inf_flag (curve_double cdp T T) = 0" unfolding eq by (rule fl)
    show "l * (2 * \<alpha> (pt_y T)) = 3 * (\<alpha> (pt_x T) * \<alpha> (pt_x T)) + 1" unfolding mult_2 by (rule l(1))
  qed
qed

lemma proj_double_x:
  fixes l x y z m :: 'k
  assumes "m = l * (2 * y)"
  shows "(z * z * (z * z) * m) * (z * z * (z * z) * m) - 8 * (x * (z * z)) * ((y * (z * z * z)) * (y * (z * z * z))) =
    (l * l - 2 * x) * ((2 * (y * (z * z * z)) * z) * (2 * (y * (z * z * z)) * z))"
  unfolding assms by (simp add: algebra_simps)

lemma proj_double_y:
  fixes l x y z x3 :: 'k
  assumes "m = l * (2 * y)"
  shows "(z * z * (z * z) * m) * (4 * ((x * (z * z)) * ((y * (z * z * z)) * (y * (z * z * z)))) -
      x3 * ((2 * (y * (z * z * z)) * z) * (2 * (y * (z * z * z)) * z))) -
      8 * (((y * (z * z * z)) * (y * (z * z * z))) * ((y * (z * z * z)) * (y * (z * z * z)))) =
    ((x - x3) * l - y) * ((2 * (y * (z * z * z)) * z) * (2 * (y * (z * z * z)) * z) * (2 * (y * (z * z * z)) * z))"
  unfolding assms by (simp add: algebra_simps)

lemma proj_double_values:
  assumes "pt_x R \<in> V" "pt_y R \<in> V" "z \<in> V" "z2 \<in> V" "l \<in> line_vars V"
  defines "X \<equiv> \<alpha> (pt_x R)" and "Y \<equiv> \<alpha> (pt_y R)"
  defines "M \<equiv> 3 * (X * X) + \<alpha> z2 * \<alpha> z2"
  obtains R' z' z2' l' where "proj_double Fq R z z2 l = (R', z', z2', l')" "inf_flag R' = inf_flag R"
    "pt_x R' \<in> V" "pt_y R' \<in> V" "z' \<in> V" "z2' \<in> V" "l' \<in> line_vars V"
    "\<alpha> z' = 2 * Y * \<alpha> z" "\<alpha> z2' = \<alpha> z' * \<alpha> z'"
    "\<alpha> (pt_x R') = M * M - 8 * X * (Y * Y)"
    "\<alpha> (pt_y R') = M * (4 * (X * (Y * Y)) - \<alpha> (pt_x R')) - 8 * ((Y * Y) * (Y * Y))"
proof -
  obtain a0 b0 c0 e where l: "l = (a0, b0, c0, e)" "a0 \<in> V" "b0 \<in> V" "c0 \<in> V" "e \<in> V"
    using assms(5) by (cases l) auto
  obtain R' z' z2' l' where eq: "proj_double Fq R z z2 l = (R', z', z2', l')"
    by (cases "proj_double Fq R z z2 l") auto
  have V: "inf_flag R' = inf_flag R \<and> pt_x R' \<in> V \<and> pt_y R' \<in> V \<and> z' \<in> V \<and> z2' \<in> V \<and> l' \<in> line_vars V"
    using eq l assms(1-4) by (auto simp: proj_double_def Let_def)
  have z: "\<alpha> z' = 2 * Y * \<alpha> z" "\<alpha> z2' = \<alpha> z' * \<alpha> z'"
    using eq l assms(1-4) by (auto simp: proj_double_def Let_def impl_law Y_def algebra_simps)
  have x: "\<alpha> (pt_x R') = M * M - 8 * X * (Y * Y)"
    using eq l assms(1-4) by (auto simp: proj_double_def Let_def impl_law X_def Y_def M_def algebra_simps)
  have y: "\<alpha> (pt_y R') = M * (4 * (X * (Y * Y)) - \<alpha> (pt_x R')) - 8 * ((Y * Y) * (Y * Y))"
    using eq l assms(1-4) by (auto simp: proj_double_def Let_def impl_law X_def Y_def M_def algebra_simps)
  show ?thesis using that eq V z x y by blast
qed

lemma proj_double_ok:
  assumes T: "T \<in> points" "inf_flag T = 0" "\<alpha> (pt_y T) \<noteq> 0" and rep: "proj_rep R z z2 T" and "l \<in> line_vars V"
  obtains R' z' z2' l' where "proj_double Fq R z z2 l = (R', z', z2', l')" "l' \<in> line_vars V"
    "proj_rep R' z' z2' (curve_double cdp T T)"
proof -
  note R = proj_repD [OF rep]
  obtain s where s: "s * (2 * \<alpha> (pt_y T)) = 3 * (\<alpha> (pt_x T) * \<alpha> (pt_x T)) + 1"
    "\<alpha> (pt_x (curve_double cdp T T)) = s * s - 2 * \<alpha> (pt_x T)"
    "\<alpha> (pt_y (curve_double cdp T T)) = (\<alpha> (pt_x T) - \<alpha> (pt_x (curve_double cdp T T))) * s - \<alpha> (pt_y T)"
    by (rule double_affine [OF T])
  obtain R' z' z2' l' where p: "proj_double Fq R z z2 l = (R', z', z2', l')" "inf_flag R' = inf_flag R"
    "pt_x R' \<in> V" "pt_y R' \<in> V" "z' \<in> V" "z2' \<in> V" "l' \<in> line_vars V"
    "\<alpha> z' = 2 * \<alpha> (pt_y R) * \<alpha> z" "\<alpha> z2' = \<alpha> z' * \<alpha> z'"
    "\<alpha> (pt_x R') = (3 * (\<alpha> (pt_x R) * \<alpha> (pt_x R)) + \<alpha> z2 * \<alpha> z2) * (3 * (\<alpha> (pt_x R) * \<alpha> (pt_x R)) + \<alpha> z2 * \<alpha> z2) -
       8 * \<alpha> (pt_x R) * (\<alpha> (pt_y R) * \<alpha> (pt_y R))"
    "\<alpha> (pt_y R') = (3 * (\<alpha> (pt_x R) * \<alpha> (pt_x R)) + \<alpha> z2 * \<alpha> z2) *
       (4 * (\<alpha> (pt_x R) * (\<alpha> (pt_y R) * \<alpha> (pt_y R))) - \<alpha> (pt_x R')) -
       8 * ((\<alpha> (pt_y R) * \<alpha> (pt_y R)) * (\<alpha> (pt_y R) * \<alpha> (pt_y R)))"
    by (rule proj_double_values [OF R(2-5) assms(5)])
  let ?z = "\<alpha> z" and ?x = "\<alpha> (pt_x T)" and ?y = "\<alpha> (pt_y T)"
  have M: "3 * (\<alpha> (pt_x R) * \<alpha> (pt_x R)) + \<alpha> z2 * \<alpha> z2 = ?z * ?z * (?z * ?z) * (3 * (?x * ?x) + 1)"
    unfolding R(7,8) by (simp add: algebra_simps)
  have z': "\<alpha> z' = 2 * (?y * (?z * ?z * ?z)) * ?z" unfolding p(8) R(9) ..
  have x': "\<alpha> (pt_x R') = \<alpha> (pt_x (curve_double cdp T T)) * (\<alpha> z' * \<alpha> z')"
    unfolding p(10) M s(2) z' unfolding R(8,9) by (rule proj_double_x [OF s(1) [symmetric]])
  have y': "\<alpha> (pt_y R') = \<alpha> (pt_y (curve_double cdp T T)) * (\<alpha> z' * \<alpha> z' * \<alpha> z')"
    unfolding p(11) M s(3) x' unfolding z' R(8,9) by (rule proj_double_y [OF s(1) [symmetric]])
  have "\<alpha> z' \<noteq> 0"
  proof -
    have yR: "\<alpha> (pt_y R) \<noteq> 0"
    proof
      assume "\<alpha> (pt_y R) = 0"
      then have "\<alpha> z * (\<alpha> z * (\<alpha> z * ?y)) = \<alpha> z * (\<alpha> z * (\<alpha> z * 0))" unfolding R(9) by (simp add: ac_simps)
      then show False using cancel_nonzero [OF R(4,6)] T(3) by metis
    qed
    have "\<alpha> (pt_y R) + \<alpha> (pt_y R) \<noteq> 0" using double_eq_0 yR by blast
    moreover have d: "element_double Fq z (pt_y R) \<in> V" "\<alpha> (element_double Fq z (pt_y R)) = \<alpha> (pt_y R) + \<alpha> (pt_y R)"
      using double_in [OF R(4,3)] double [OF R(4,3)] by blast+
    ultimately have "\<alpha> (element_double Fq z (pt_y R)) * \<alpha> z \<noteq> 0" using nonzero_mult [OF d(1) R(4)] R(6) by simp
    then show ?thesis unfolding p(8) d(2) by (simp only: mult_2 not_False_eq_True)
  qed
  then have "proj_rep R' z' z2' (curve_double cdp T T)"
    unfolding proj_rep_def using p(2-6,9) R(1) x' y' by simp
  then show ?thesis using that p(1,7) by blast
qed

text \<open>Back to affine coordinates.\<close>

lemma point_to_affine_ok:
  assumes rep: "proj_rep R z z2 T" and "e0 \<in> V"
  obtains R' z' z2' e' where "point_to_affine Fq R z z2 e0 = (R', z', z2', e')" "e' \<in> V" "proj_rep R' z' z2' T"
    "inf_flag R' = 0" "pt_x R' \<in> V" "pt_y R' \<in> V" "\<alpha> (pt_x R') = \<alpha> (pt_x T)" "\<alpha> (pt_y R') = \<alpha> (pt_y T)"
proof -
  note R = proj_repD [OF rep]
  define i where "i = element_invert Fq z z"
  have i: "i \<in> V" "\<alpha> z * \<alpha> i = 1" unfolding i_def using invert_in [OF R(4,4,6)] invert [OF R(4,4,6)] by blast+
  define e1 where "e1 = element_square Fq e0 i"
  define x where "x = element_mul Fq (pt_x R) (pt_x R) e1"
  define e2 where "e2 = element_mul Fq e1 e1 i"
  define y where "y = element_mul Fq (pt_y R) (pt_y R) e2"
  have e1: "e1 \<in> V" "\<alpha> e1 = \<alpha> i * \<alpha> i" unfolding e1_def using assms(2) i(1) by (simp_all add: impl_law)
  have e2: "e2 \<in> V" "\<alpha> e2 = \<alpha> i * \<alpha> i * \<alpha> i" unfolding e2_def using e1 i(1) by (simp_all add: impl_law)
  have "\<alpha> x = \<alpha> (pt_x T) * ((\<alpha> z * \<alpha> i) * (\<alpha> z * \<alpha> i))"
    unfolding x_def using R(2) e1 by (simp add: impl_law R(8) ac_simps)
  then have x: "x \<in> V" "\<alpha> x = \<alpha> (pt_x T)" unfolding i(2) using R(2) e1 by (simp_all add: x_def)
  have "\<alpha> y = \<alpha> (pt_y T) * ((\<alpha> z * \<alpha> i) * (\<alpha> z * \<alpha> i) * (\<alpha> z * \<alpha> i))"
    unfolding y_def using R(3) e2 by (simp add: impl_law R(9) ac_simps)
  then have y: "y \<in> V" "\<alpha> y = \<alpha> (pt_y T)" unfolding i(2) using R(3) e2 by (simp_all add: y_def)
  have eq: "point_to_affine Fq R z z2 e0 =
      (R\<lparr> pt_x := x, pt_y := y \<rparr>, element_set1 Fq i, element_set1 Fq z2, e2)"
    by (simp only: point_to_affine_def Let_def i_def [symmetric] e1_def [symmetric] x_def [symmetric] e2_def [symmetric] y_def [symmetric])
  have one: "\<alpha> (element_set1 Fq i) = 1" "\<alpha> (element_set1 Fq z2) = 1" using i(1) R(5) by (simp_all add: impl_law)
  have "(1::'k) \<noteq> 0" using scalar_1 scalar_def by blast
  then show ?thesis
    by (intro that [OF eq e2(1)]) (use R(1,5) i(1) x y one in \<open>simp_all add: proj_rep_def\<close>)
qed

section \<open>The loop\<close>

definition affine_doubles :: "'a point \<Rightarrow> nat \<Rightarrow> nat \<Rightarrow> bool" where
  "affine_doubles P i n \<longleftrightarrow> (\<forall>j. i \<le> j \<longrightarrow> j < n \<longrightarrow> inf_flag (a_doubles cdp P j) = 0 \<and> \<alpha> (pt_y (a_doubles cdp P j)) \<noteq> 0)"

lemma proj_loop_ok:
  assumes "f \<in> W" "f0 \<in> W" "l \<in> line_vars V" "pt_x Q \<in> V" "pt_y Q \<in> V" "P \<in> points"
    and "affine_doubles P i (i + n)" "proj_rep R z z2 (a_doubles cdp P i)"
    and "scalar c" "fi_val f = gbase c * miller_value \<alpha> cdp P Q i"
  shows "\<exists>g g0 R' z' z2' l' c'. proj_loop ad (pt_x Q) (pt_y Q) n f f0 R z z2 l = (g, g0, R', z', z2', l') \<and>
    g \<in> W \<and> g0 \<in> W \<and> l' \<in> line_vars V \<and> proj_rep R' z' z2' (a_doubles cdp P (i + n)) \<and>
    scalar c' \<and> fi_val g = gbase c' * miller_value \<alpha> cdp P Q (i + n)"
  using assms
proof (induction n arbitrary: f f0 l i R z z2 c)
  case 0
  then show ?case by auto
next
  case (Suc n)
  let ?T = "a_doubles cdp P i"
  define k where "k = \<alpha> z * \<alpha> z * (\<alpha> z * \<alpha> z) * (\<alpha> z * \<alpha> z)"
  note rep = Suc.prems(8)
  have T: "?T \<in> points" "inf_flag ?T = 0" "\<alpha> (pt_y ?T) \<noteq> 0"
    using doubles_in [OF Suc.prems(6)] Suc.prems(7) by (simp_all add: affine_doubles_def)
  obtain a b d e0 where t: "compute_abc_tangent_proj Fq l (pt_x R) (pt_y R) z z2 = (a, b, d, e0)" "a \<in> V" "b \<in> V" "d \<in> V" "e0 \<in> V"
    "\<alpha> a = k * - (3 * (\<alpha> (pt_x ?T) * \<alpha> (pt_x ?T)) + 1)" "\<alpha> b = k * (2 * \<alpha> (pt_y ?T))"
    "\<alpha> d = k * - (2 * (\<alpha> (pt_y ?T) * \<alpha> (pt_y ?T)) + - (3 * (\<alpha> (pt_x ?T) * \<alpha> (pt_x ?T)) + 1) * \<alpha> (pt_x ?T))"
    unfolding k_def by (rule tangent_proj_ok [OF Suc.prems(3) rep])
  define s where "s = element_square Fq2 f f"
  have s: "s \<in> W" "fi_val s = fi_val f * fi_val f"
    unfolding s_def using fi.square_in [OF Suc.prems(1,1)] fi.square [OF Suc.prems(1,1)] by blast+
  obtain g g0 where g: "miller_mul_line ad (pt_x Q) (pt_y Q) (a, b, d, e0) s f0 = (g, g0)"
    "g \<in> W" "g0 \<in> W" "fi_val g = fi_val s * Gauss (\<alpha> d - \<alpha> a * \<alpha> (pt_x Q)) (\<alpha> b * \<alpha> (pt_y Q))"
    by (rule mul_line_ok [OF s(1) Suc.prems(2) t(2-4) Suc.prems(4,5)])
  have line: "Gauss (\<alpha> d - \<alpha> a * \<alpha> (pt_x Q)) (\<alpha> b * \<alpha> (pt_y Q)) =
      gbase k * tangent_at (\<alpha> (pt_x ?T)) (\<alpha> (pt_y ?T)) (\<alpha> (pt_x Q)) (\<alpha> (pt_y Q))"
    unfolding t(6-8) tangent_at_def Let_def gauss_eq_iff
    by (simp only: gauss.sel gauss_parts gbase_parts mult_zero_left diff_zero add_0_right right_diff_distrib mult.assoc simp_thms)
  have val: "fi_val g = gbase (c * c * k) * miller_value \<alpha> cdp P Q (Suc i)"
    unfolding g(4) s(2) Suc.prems(10) line miller_value.simps gbase_mult by (simp only: ac_simps)
  have "scalar k" unfolding k_def using proj_repD(4,6) [OF rep] by (intro scalar_mult scalar_V)
  then have sc: "scalar (c * c * k)" using Suc.prems(9) by (intro scalar_mult)
  obtain R' z' z2' l' where d: "proj_double Fq R z z2 (a, b, d, e0) = (R', z', z2', l')" "l' \<in> line_vars V"
    "proj_rep R' z' z2' (curve_double cdp ?T ?T)"
    by (rule proj_double_ok [OF T rep, of "(a, b, d, e0)"]) (use t(2-5) in auto)
  have "affine_doubles P (Suc i) (Suc i + n)" using Suc.prems(7) by (simp add: affine_doubles_def)
  from Suc.IH [OF g(2,3) d(2) Suc.prems(4-6) this d(3) [folded a_doubles_Suc] sc val]
  show ?case by (simp only: proj_loop.simps a_data_simps Let_def s_def [symmetric] t(1) g(1) d(1) prod.case add_Suc_right add_Suc)
qed

lemma save_scaled:
  assumes "f \<in> W" "n \<in> W" "scalar c" "fi_val f = gbase c * miller_value \<alpha> cdp P Q n1"
    and "s1 < 0 \<Longrightarrow> fi_val f \<noteq> 0"
  defines "f1 \<equiv> (if s1 < 0 then element_invert Fq2 n f else element_set Fq2 n f)"
  shows "f1 \<in> W" and "\<exists>F1 d. saved P Q F1 \<and> scalar d \<and> fi_val f1 = gbase d * F1"
proof -
  note inv = fif.invert_in [OF assms(2,1)] fif.invert [OF assms(2,1)] and cp = fi.set_in [OF assms(2,1)] fi.set [OF assms(2,1)]
  show "f1 \<in> W" unfolding f1_def using inv(1) cp(1) assms(5) by presburger
  show "\<exists>F1 d. saved P Q F1 \<and> scalar d \<and> fi_val f1 = gbase d * F1"
  proof (cases "s1 < 0")
    case True
    then have f1: "fi_val f * fi_val f1 = 1" using inv(2) assms(5) by (simp add: f1_def del: fi_table)
    obtain a where a: "a \<in> V" "\<alpha> a = c" "c \<noteq> 0" using assms(3) by (auto simp: scalar_def)
    define d where "d = \<alpha> (element_invert Fq a a)"
    have d: "c * d = 1" unfolding d_def a(2) [symmetric] using invert [OF a(1,1)] a(2,3) by blast
    have "d \<noteq> 0" using d \<open>c \<noteq> 0\<close> scalar_1 scalar_def by (metis mult_zero_right)
    then have "scalar d" unfolding scalar_def d_def using invert_in [OF a(1,1)] a(2,3) by blast
    moreover have "saved P Q (gbase c * fi_val f1)"
      using True f1 unfolding saved_def assms(4) by (simp add: ac_simps)
    moreover have "fi_val f1 = gbase d * (gbase c * fi_val f1)"
      using d by (simp only: mult.assoc [symmetric] gbase_mult [symmetric] mult.commute [of d c]) simp
    ultimately show ?thesis by blast
  next
    case False
    then have "saved P Q (miller_value \<alpha> cdp P Q n1)" "fi_val f1 = gbase c * miller_value \<alpha> cdp P Q n1"
      using cp(2) assms(4) by (simp_all only: saved_def f1_def if_False)
    then show ?thesis using assms(3) by blast
  qed
qed

lemma a_pairing_proj_ok:
  assumes P: "P \<in> points" and Q: "pt_x Q \<in> V" "pt_y Q \<in> V"
    and aff: "affine_doubles P 0 (n1 + n2)" "inf_flag (a_doubles cdp P 0) = 0"
    and nz: "\<And>c. s1 < 0 \<Longrightarrow> scalar c \<Longrightarrow> gbase c * miller_value \<alpha> cdp P Q n1 \<noteq> 0"
  shows "\<exists>f f0 F1 c. f \<in> W \<and> f0 \<in> W \<and> saved P Q F1 \<and> scalar c \<and> fi_val f = gbase c * miller_final P Q F1 \<and>
    a_pairing_proj G ad h out P Q = a_tateexp G Fq Fq2 out f f0 h"
proof -
  define z0 where "z0 = element_set1 Fq (element_init Fq)"
  have z0: "z0 \<in> V" "\<alpha> z0 = 1" by (simp_all add: z0_def impl_law)
  have one: "(1::'k) \<noteq> 0" using scalar_1 scalar_def by blast
  have rep0: "proj_rep (a_doubles cdp P 0) z0 z0 (a_doubles cdp P 0)"
    using points_coord [OF doubles_in [OF P], of 0] z0 one aff(2) by (simp add: proj_rep_def)
  have l0: "line_vars_init Fq = (element_init Fq, element_init Fq, element_init Fq, element_init Fq)"
    by (simp add: line_vars_init_def)
  have f0: "fi_val (element_set1 Fq2 (element_init Fq2)) = gbase 1 * miller_value \<alpha> cdp P Q 0"
    unfolding start_ok(3) [of P Q] by simp
  have aff1: "affine_doubles P 0 (0 + n1)" "affine_doubles P n1 (n1 + n2)"
    using aff(1) by (simp_all add: affine_doubles_def)
  obtain g g0 R z z2 l c where g: "proj_loop ad (pt_x Q) (pt_y Q) n1 (element_set1 Fq2 (element_init Fq2)) (element_init Fq2)
      (a_doubles cdp P 0) z0 z0 (line_vars_init Fq) = (g, g0, R, z, z2, l)"
    "g \<in> W" "g0 \<in> W" "l \<in> line_vars V" "proj_rep R z z2 (a_doubles cdp P n1)" "scalar c"
    "fi_val g = gbase c * miller_value \<alpha> cdp P Q n1"
    using proj_loop_ok [OF start_ok(1,2) line_vars_init_in Q P aff1(1) rep0 scalar_1 f0] by auto
  obtain la lb lc le where l: "l = (la, lb, lc, le)" "la \<in> V" "lb \<in> V" "lc \<in> V" "le \<in> V"
    using g(4) by (cases l) auto
  obtain R1 z1 z21 e1 where R1: "point_to_affine Fq R z z2 le = (R1, z1, z21, e1)" "e1 \<in> V"
    "proj_rep R1 z1 z21 (a_doubles cdp P n1)" "inf_flag R1 = 0" "pt_x R1 \<in> V" "pt_y R1 \<in> V"
    "\<alpha> (pt_x R1) = \<alpha> (pt_x (a_doubles cdp P n1))" "\<alpha> (pt_y R1) = \<alpha> (pt_y (a_doubles cdp P n1))"
    by (rule point_to_affine_ok [OF g(5) l(5)])
  have l1: "(la, lb, lc, e1) \<in> line_vars V" using l R1(2) by simp
  obtain k k0 S z' z2' m d where k: "proj_loop ad (pt_x Q) (pt_y Q) n2 g g0 R1 z1 z21 (la, lb, lc, e1) =
      (k, k0, S, z', z2', m)"
    "k \<in> W" "k0 \<in> W" "m \<in> line_vars V" "proj_rep S z' z2' (a_doubles cdp P (n1 + n2))" "scalar d"
    "fi_val k = gbase d * miller_value \<alpha> cdp P Q (n1 + n2)"
    using proj_loop_ok [OF g(2,3) l1 Q P aff1(2) R1(3) g(6,7)] by auto
  obtain ma mb mc me where m: "m = (ma, mb, mc, me)" "ma \<in> V" "mb \<in> V" "mc \<in> V" "me \<in> V"
    using k(4) by (cases m) auto
  obtain S1 y1 y21 e2 where S1: "point_to_affine Fq S z' z2' me = (S1, y1, y21, e2)" "e2 \<in> V"
    "proj_rep S1 y1 y21 (a_doubles cdp P (n1 + n2))" "inf_flag S1 = 0" "pt_x S1 \<in> V" "pt_y S1 \<in> V"
    "\<alpha> (pt_x S1) = \<alpha> (pt_x (a_doubles cdp P (n1 + n2)))" "\<alpha> (pt_y S1) = \<alpha> (pt_y (a_doubles cdp P (n1 + n2)))"
    by (rule point_to_affine_ok [OF k(5) m(5)])
  have l2: "(ma, mb, mc, e2) \<in> line_vars V" using m S1(2) by simp
  note s = save_point_ok [OF R1(4-6)]
  define vx where "vx = element_set Fq (element_init Fq) (pt_x R1)"
  define vy where "vy = (if s1 < 0 then element_neg Fq (element_init Fq) (pt_y R1) else element_set Fq (element_init Fq) (pt_y R1))"
  define f1 where "f1 = (if s1 < 0 then element_invert Fq2 (element_init Fq2) g else element_set Fq2 (element_init Fq2) g)"
  note s = s [folded vx_def vy_def]
  have "s1 < 0 \<Longrightarrow> fi_val g \<noteq> 0" using nz g(6,7) by metis
  note f1 = save_scaled [OF g(2) fi.init_in g(6,7) this, folded f1_def]
  obtain F1 c1 where F1: "saved P Q F1" "scalar c1" "fi_val f1 = gbase c1 * F1" using f1(2) by auto
  have vx: "vx \<in> V" "\<alpha> vx = \<alpha> (pt_x (a_doubles cdp P n1))" using R1(5,7) by (simp_all add: vx_def set)
  have f1W: "f1 \<in> W" using f1(1) by simp
  define kf where "kf = element_mul Fq2 k k f1"
  have kf: "kf \<in> W" "fi_val kf = fi_val k * fi_val f1"
    unfolding kf_def using fi.mul_in [OF k(2,2) f1W] fi.mul [OF k(2,2) f1W] by blast+
  obtain r r0 where r: "miller_mul_line ad (pt_x Q) (pt_y Q)
      (compute_abc_line Fq (ma, mb, mc, e2) (pt_x S1) (pt_y S1) vx vy) kf k0 = (r, r0)" "r \<in> W" "r0 \<in> W"
    "fi_val r = fi_val kf * chord_at (\<alpha> (pt_x S1)) (\<alpha> (pt_y S1)) (\<alpha> vx) (\<alpha> vy) (\<alpha> (pt_x Q)) (\<alpha> (pt_y Q))"
    by (rule last_line_ok [OF kf(1) k(3) l2 Q S1(5,6) vx(1) s(2)])
  have if_pair: "(if c then (a, b) else (a', b')) = (if c then a else a', if c then b else b')" for c and a a' :: "'a point" and b b' :: "'a fq_data"
    by simp
  have "a_pairing_proj G ad h out P Q = a_tateexp G Fq Fq2 out r r0 h"
    by (simp only: a_pairing_proj_def a_data_simps Let_def start_ok(4) [of P] z0_def [symmetric] g(1) [unfolded l(1)] prod.case
        R1(1) if_pair s(1) k(1) [unfolded m(1)] point.simps f1_def [symmetric] kf_def [symmetric] S1(1) r(1))
  moreover have "fi_val r = gbase (d * c1) * miller_final P Q F1"
    unfolding r(4) kf(2) k(7) F1(3) S1(7,8) miller_final_def s(3) R1(8) vx(2) gbase_mult by (simp only: ac_simps)
  moreover have "scalar (d * c1)" using k(6) F1(2) by (rule scalar_mult)
  ultimately show ?thesis using r(2,3) F1(1) by blast
qed

section \<open>All three\<close>

lemma scalar_unit: "scalar c \<Longrightarrow> \<exists>d. c * d = 1"
  unfolding scalar_def using invert by metis

lemma tangent_in:
  assumes "T \<in> points" "pt_x Q \<in> V" "pt_y Q \<in> V"
  shows "\<exists>e\<in>W. fi_val e = tangent_at (\<alpha> (pt_x T)) (\<alpha> (pt_y T)) (\<alpha> (pt_x Q)) (\<alpha> (pt_y Q))"
proof -
  note V = points_coord [OF assms(1)]
  obtain a b c e0 where t: "compute_abc_tangent Fq (line_vars_init Fq) (pt_x T) (pt_y T) = (a, b, c, e0)" "a \<in> V" "b \<in> V" "c \<in> V" "e0 \<in> V"
    "\<alpha> a = - (3 * (\<alpha> (pt_x T) * \<alpha> (pt_x T)) + 1)" "\<alpha> b = 2 * \<alpha> (pt_y T)"
    "\<alpha> c = - (2 * (\<alpha> (pt_y T) * \<alpha> (pt_y T)) + - (3 * (\<alpha> (pt_x T) * \<alpha> (pt_x T)) + 1) * \<alpha> (pt_x T))"
    by (rule tangent_ok [OF line_vars_init_in V])
  from evalfn_ok [OF start_ok(2) t(2-4) assms(2,3)] show ?thesis
    by (intro bexI) (simp_all only: t(6-8) tangent_at_def Let_def)
qed

lemma im_nonzero: "im_part u \<noteq> 0 \<Longrightarrow> u \<noteq> 0"
  by auto

lemma miller_value_in:
  assumes P: "P \<in> points" and Q: "pt_x Q \<in> V" "pt_y Q \<in> V" "\<alpha> (pt_y Q) \<noteq> 0" and "affine_doubles P 0 n"
  shows "i \<le> n \<Longrightarrow> \<exists>e\<in>W. fi_val e = miller_value \<alpha> cdp P Q i \<and> fi_val e \<noteq> 0"
proof (induction i)
  case 0
  have "(1::'k) \<noteq> 0" using scalar_1 scalar_def by blast
  then have "(1::'k gauss) \<noteq> 0" by (simp add: gauss_eq_iff)
  with start_ok(1) start_ok(3) [of P Q] show ?case by (metis miller_value.simps(1))
next
  case (Suc i)
  then obtain e where e: "e \<in> W" "fi_val e = miller_value \<alpha> cdp P Q i" "fi_val e \<noteq> 0" by auto
  let ?T = "a_doubles cdp P i"
  obtain t where t: "t \<in> W" "fi_val t = tangent_at (\<alpha> (pt_x ?T)) (\<alpha> (pt_y ?T)) (\<alpha> (pt_x Q)) (\<alpha> (pt_y Q))"
    using tangent_in [OF doubles_in [OF P] Q(1,2)] by blast
  have y: "\<alpha> (pt_y ?T) \<noteq> 0" using assms(5) Suc.prems by (simp add: affine_doubles_def)
  have "\<alpha> (pt_y ?T) * \<alpha> (pt_y Q) \<noteq> 0" by (rule nonzero_mult [OF points_coord(2) [OF doubles_in [OF P]] Q(2) y Q(3)])
  then have "\<alpha> (pt_y ?T) * \<alpha> (pt_y Q) + \<alpha> (pt_y ?T) * \<alpha> (pt_y Q) \<noteq> 0" using double_eq_0 by blast
  then have "fi_val t \<noteq> 0" unfolding t(2) by (intro im_nonzero) (simp add: tangent_at_def Let_def mult_2 [symmetric] mult.assoc)
  define s where "s = element_square Fq2 e e"
  have s: "s \<in> W" "fi_val s = fi_val e * fi_val e"
    unfolding s_def using fi.square_in [OF e(1,1)] fi.square [OF e(1,1)] by blast+
  have "fi_val s \<noteq> 0" unfolding s(2) using fif.no_zero_divisors [OF e(1,1)] e(3) by blast
  with \<open>fi_val t \<noteq> 0\<close> have "fi_val s * fi_val t \<noteq> 0" using fif.no_zero_divisors [OF s(1) t(1)] by blast
  moreover have "element_mul Fq2 e s t \<in> W" "fi_val (element_mul Fq2 e s t) = fi_val s * fi_val t"
    using fi.mul_in [OF e(1) s(1) t(1)] fi.mul [OF e(1) s(1) t(1)] by blast+
  moreover have "fi_val s * fi_val t = miller_value \<alpha> cdp P Q (Suc i)" unfolding s(2) t(2) e(2) by simp
  ultimately show ?case by (intro bexI [of _ "element_mul Fq2 e s t"]) simp_all
qed

end

end
