(* ===== verification/APairingCorrect.thy ===== *)
theory APairingCorrect
  imports AProj
begin

text \<open>
  The value of the pairing of type A: for inputs in general position the three routines of
  \<^verbatim>\<open>ecc/a_param.c\<close> return the same power of the conjugate over the Miller value; over a prime
  field this is the power \<open>(q^2 - 1) / r\<close> of the Miller value, an element whose order divides \<open>r\<close>.
\<close>

context a_miller
begin

lemma unit_nonzero: "(u :: 'k gauss) dvd 1 \<Longrightarrow> u \<noteq> 0"
proof
  assume u: "u dvd 1" and z: "u = 0"
  from u obtain v where "1 = u * v" by (rule dvdE)
  then have "re_part (1 :: 'k gauss) = re_part (0 * v)" unfolding z by (rule arg_cong)
  then have "(1::'k) = 0" by simp
  then show False using scalar_1 scalar_def by blast
qed

lemma unit_prod: "(u :: 'k gauss) dvd 1 \<Longrightarrow> v dvd 1 \<Longrightarrow> u * v dvd 1"
  using mult_dvd_mono [of u 1 v 1] by simp

lemma unit_W: "e \<in> W \<Longrightarrow> fi_val e \<noteq> 0 \<Longrightarrow> fi_val e dvd 1"
  using fif.invert [of e e] by (metis dvd_triv_left)

lemma unit_scalar: "scalar c \<Longrightarrow> gbase c dvd 1"
  using scalar_unit gbase_mult gbase_1 by (metis dvd_triv_left)

lemma genericD:
  assumes "a_generic \<alpha> cdp e2 e1 P Q"
  shows "affine_doubles P 0 (n1 + n2)" "\<alpha> (pt_y Q) \<noteq> 0"
    "\<alpha> (pt_x (a_doubles cdp P (n1 + n2))) \<noteq> \<alpha> (pt_x (a_doubles cdp P n1))"
    "0 < n2" "inf_flag (a_doubles cdp P n1) = 0" "inf_flag (a_doubles cdp P 0) = 0"
proof -
  show g: "affine_doubles P 0 (n1 + n2)" "\<alpha> (pt_y Q) \<noteq> 0"
    "\<alpha> (pt_x (a_doubles cdp P (n1 + n2))) \<noteq> \<alpha> (pt_x (a_doubles cdp P n1))"
    using assms by (simp_all add: a_generic_def affine_doubles_def Let_def)
  show n2: "0 < n2"
  proof (rule gr0I)
    assume z: "n2 = 0"
    from g(3) show False unfolding z by simp
  qed
  from g(1) n2 show "inf_flag (a_doubles cdp P n1) = 0" "inf_flag (a_doubles cdp P 0) = 0"
    by (simp_all add: affine_doubles_def)
qed

lemma miller_unit:
  assumes P: "P \<in> points" and Q: "pt_x Q \<in> V" "pt_y Q \<in> V" and g: "a_generic \<alpha> cdp e2 e1 P Q" and "i \<le> n1 + n2"
  shows "miller_value \<alpha> cdp P Q i dvd 1"
  using miller_value_in [OF P Q genericD(2) [OF g] genericD(1) [OF g] assms(5)] unit_W by metis

lemma chord_unit:
  assumes P: "P \<in> points" and Q: "pt_x Q \<in> V" "pt_y Q \<in> V" and g: "a_generic \<alpha> cdp e2 e1 P Q"
  shows "chord_at (\<alpha> (pt_x (a_doubles cdp P (n1 + n2)))) (\<alpha> (pt_y (a_doubles cdp P (n1 + n2))))
       (\<alpha> (pt_x (a_doubles cdp P n1))) (sign_y (\<alpha> (pt_y (a_doubles cdp P n1)))) (\<alpha> (pt_x Q)) (\<alpha> (pt_y Q)) dvd 1"
proof -
  let ?T = "a_doubles cdp P (n1 + n2)" and ?U = "a_doubles cdp P n1"
  note D = doubles_in [OF P] and gD = genericD [OF g]
  note VT = points_coord [OF D, of "n1 + n2"] and VU = points_coord [OF D, of n1]
  define y1 where "y1 = (if s1 < 0 then element_neg Fq (element_init Fq) (pt_y ?U) else element_set Fq (element_init Fq) (pt_y ?U))"
  have y1: "y1 \<in> V" "\<alpha> y1 = sign_y (\<alpha> (pt_y ?U))" unfolding y1_def using save_point_ok(2,3) [OF gD(5) VU] by blast+
  obtain a b c e0 where t: "compute_abc_line Fq (line_vars_init Fq) (pt_x ?T) (pt_y ?T) (pt_x ?U) y1 = (a, b, c, e0)"
    "a \<in> V" "b \<in> V" "c \<in> V" "e0 \<in> V"
    "\<alpha> a = \<alpha> (pt_y ?T) - \<alpha> y1" "\<alpha> b = \<alpha> (pt_x ?U) - \<alpha> (pt_x ?T)" "\<alpha> c = \<alpha> (pt_x ?T) * \<alpha> y1 - \<alpha> (pt_y ?T) * \<alpha> (pt_x ?U)"
    by (rule line_ok [OF line_vars_init_in VT VU(1) y1(1)])
  note e = evalfn_ok [OF start_ok(2) t(2-4) Q]
  have "\<alpha> b \<noteq> 0" unfolding t(7) using gD(3) by simp
  with nonzero_mult [OF t(3) Q(2)] gD(2) have "\<alpha> b * \<alpha> (pt_y Q) \<noteq> 0" by blast
  then have "fi_val (a_miller_evalfn Fq (element_init Fq2) a b c (pt_x Q) (pt_y Q)) \<noteq> 0"
    unfolding e(2) by (intro im_nonzero) simp
  from unit_W [OF e(1) this] show ?thesis unfolding e(2) t(6-8) y1(2) chord_at_def .
qed

lemma saved_unit:
  assumes P: "P \<in> points" and Q: "pt_x Q \<in> V" "pt_y Q \<in> V" and g: "a_generic \<alpha> cdp e2 e1 P Q" and "saved P Q F1"
  shows "F1 dvd 1"
proof (cases "s1 < 0")
  case True
  then have "1 = F1 * miller_value \<alpha> cdp P Q n1" using assms(5) by (simp add: saved_def mult.commute)
  then show ?thesis by (rule dvdI)
next
  case False
  then show ?thesis using assms(5) miller_unit [OF P Q g, of n1] by (simp add: saved_def)
qed

text \<open>The quotient of the conjugate by a unit.\<close>

lemma conj_quotient_scale:
  assumes "scalar c" and w: "w * (gbase c * M) = gconj (gbase c * M)"
  shows "w * M = gconj (M :: 'k gauss)"
proof -
  obtain d where d: "c * d = 1" using scalar_unit [OF assms(1)] by blast
  have "w * (gbase c * M) * gbase d = gbase c * gconj M * gbase d" unfolding w gconj_mult gconj_gbase ..
  then have "gbase (c * d) * (w * M) = gbase (c * d) * gconj M" by (simp only: gbase_mult ac_simps)
  then show ?thesis unfolding d by simp
qed

lemma pairings_value:
  assumes P: "P \<in> points" and Q: "pt_x Q \<in> V" "pt_y Q \<in> V" and g: "a_generic \<alpha> cdp e2 e1 P Q"
    and out: "out \<in> W" and h: "0 \<le> h"
  obtains w e where "e \<in> W" "fi_val e \<noteq> 0" "w * fi_val e = gconj (fi_val e)" "w * gconj w = 1"
    "\<exists>F1. saved P Q F1 \<and> fi_val e = miller_final P Q F1"
    "\<forall>X\<in>{a_pairing_affine G ad h out P Q, a_pairing_proj G ad h out P Q,
        a_pairing_pp_apply G ad h out Q (a_pairing_pp_init ad P)}. X \<in> W \<and> fi_val X = w ^ (2 * (nat h div 2))"
proof -
  note gD = genericD [OF g]
  have mnz: "miller_value \<alpha> cdp P Q n1 \<noteq> 0" using unit_nonzero [OF miller_unit [OF P Q g, of n1]] by simp
  have final: "miller_final P Q F1 dvd 1" if "saved P Q F1" for F1
    unfolding miller_final_def using miller_unit [OF P Q g order_refl] saved_unit [OF P Q g that] chord_unit [OF P Q g]
    by (intro unit_prod)
  obtain f f0 F1 where a: "f \<in> W" "f0 \<in> W" "saved P Q F1" "fi_val f = miller_final P Q F1"
    "a_pairing_affine G ad h out P Q = a_tateexp G Fq Fq2 out f f0 h"
    using a_pairing_affine_ok [OF P Q gD(5) mnz] by blast
  have f: "fi_val f \<noteq> 0" unfolding a(4) by (rule unit_nonzero [OF final [OF a(3)]])
  note ta = a_tateexp_ok [OF out a(1,2) f h]
  obtain w where w: "w * fi_val f = gconj (fi_val f)" "w * gconj w = 1"
    "fi_val (a_tateexp G Fq Fq2 out f f0 h) = w ^ (2 * (nat h div 2))" using ta(2) by blast
  have uniq: "w' = w" if "w' * fi_val f = gconj (fi_val f)" for w'
    by (rule unit_quotient [OF a(1) f that w(1)])
  have A: "a_pairing_affine G ad h out P Q \<in> W \<and> fi_val (a_pairing_affine G ad h out P Q) = w ^ (2 * (nat h div 2))"
    unfolding a(5) using ta(1) w(3) by blast
  obtain k k0 F2 out' where p: "k \<in> W" "k0 \<in> W" "out' \<in> W" "saved P Q F2" "fi_val k = miller_final P Q F2"
    "a_pairing_pp_apply G ad h out Q (a_pairing_pp_init ad P) = a_tateexp G Fq Fq2 out' k k0 h"
    using a_pairing_pp_ok [OF P Q out gD(5) mnz] by blast
  have kf: "fi_val k = fi_val f" unfolding p(5) a(4) saved_unique [OF p(4) a(3)] ..
  have "fi_val k \<noteq> 0" unfolding kf by (rule f)
  note tp = a_tateexp_ok [OF p(3,1,2) this h]
  have B: "a_tateexp G Fq Fq2 out' k k0 h \<in> W \<and> fi_val (a_tateexp G Fq Fq2 out' k k0 h) = w ^ (2 * (nat h div 2))"
    using tp uniq unfolding kf by blast
  obtain r r0 F3 c where r: "r \<in> W" "r0 \<in> W" "saved P Q F3" "scalar c" "fi_val r = gbase c * miller_final P Q F3"
    "a_pairing_proj G ad h out P Q = a_tateexp G Fq Fq2 out r r0 h"
  proof -
    have "gbase c * miller_value \<alpha> cdp P Q n1 \<noteq> 0" if "scalar c" for c
      by (rule unit_nonzero, rule unit_prod [OF unit_scalar [OF that] miller_unit [OF P Q g]]) simp
    then show ?thesis using a_pairing_proj_ok [OF P Q gD(1,6)] that by blast
  qed
  have rf: "fi_val r = gbase c * fi_val f" unfolding r(5) a(4) saved_unique [OF r(3) a(3)] ..
  have "fi_val r \<noteq> 0" unfolding r(5) by (rule unit_nonzero [OF unit_prod [OF unit_scalar [OF r(4)] final [OF r(3)]]])
  note tr = a_tateexp_ok [OF out r(1,2) this h]
  have "w' = w" if "w' * fi_val r = gconj (fi_val r)" for w'
    using uniq [OF conj_quotient_scale [OF r(4)]] that unfolding rf by blast
  then have C: "a_tateexp G Fq Fq2 out r r0 h \<in> W \<and> fi_val (a_tateexp G Fq Fq2 out r r0 h) = w ^ (2 * (nat h div 2))"
    using tr by blast
  show ?thesis
  proof (rule that [OF a(1) f w(1,2)])
    show "\<exists>F1. saved P Q F1 \<and> fi_val f = miller_final P Q F1" using a(3,4) by blast
    show "\<forall>X\<in>{a_pairing_affine G ad h out P Q, a_pairing_proj G ad h out P Q,
        a_pairing_pp_apply G ad h out Q (a_pairing_pp_init ad P)}. X \<in> W \<and> fi_val X = w ^ (2 * (nat h div 2))"
      using A B C unfolding p(6) r(6) by blast
  qed
qed

end

section \<open>The Frobenius map\<close>

lemma prime_dvd_binomial:
  assumes "is_prime (int p)" "0 < k" "k < p"
  shows "p dvd (p choose k)"
proof -
  have "k * (p choose k) = p * ((p - 1) choose (k - 1))"
    using binomial_absorption [of "k - 1" p] assms(2) by simp
  then have "int p dvd int k * int (p choose k)" by (metis dvd_triv_left of_nat_dvd_iff of_nat_mult)
  moreover have "\<not> int p dvd int k" using assms(2,3) by (meson not_le of_nat_dvd_iff dvd_imp_le)
  then have "coprime (int p) (int k)" using is_prime_coprime [OF assms(1)] by (metis coprime_commute)
  ultimately have "int p dvd int (p choose k)" by (simp add: coprime_dvd_mult_right_iff)
  then show ?thesis by simp
qed

lemma frobenius_add:
  fixes x y :: "'r::comm_ring_1"
  assumes "is_prime (int p)" "of_nat p = (0::'r)"
  shows "(x + y) ^ p = x ^ p + y ^ p"
proof -
  have p: "1 < p" using assms(1) by (simp add: is_prime_def)
  let ?t = "\<lambda>k. of_nat (p choose k) * x ^ k * y ^ (p - k)"
  have zero: "?t k = 0" if "k \<in> {1..<p}" for k
  proof -
    obtain m where "p choose k = p * m" using prime_dvd_binomial [OF assms(1), of k] \<open>k \<in> {1..<p}\<close> by (auto elim: dvdE)
    then show ?thesis using assms(2) by simp
  qed
  have "(x + y) ^ p = (\<Sum>k\<le>p. ?t k)" by (rule binomial_ring)
  also have "{..p} = insert 0 (insert p {1..<p})" using p by auto
  also have "(\<Sum>k\<in>insert 0 (insert p {1..<p}). ?t k) = y ^ p + (x ^ p + (\<Sum>k\<in>{1..<p}. ?t k))"
    using p by (subst sum.insert; simp)+
  also have "(\<Sum>k\<in>{1..<p}. ?t k) = 0" using zero by (rule sum.neutral [rule_format])
  finally show ?thesis by simp
qed

lemma frobenius_of_nat:
  assumes "is_prime (int p)" "of_nat p = (0::'r::comm_ring_1)"
  shows "(of_nat n :: 'r) ^ p = of_nat n"
proof (induction n)
  case 0
  have "0 < p" using assms(1) by (auto simp: is_prime_def)
  then show ?case by (simp add: zero_power)
next
  case (Suc n)
  then show ?case using frobenius_add [OF assms, of 1 "of_nat n"] by simp
qed

lemma gauss_i_power:
  assumes "p mod 4 = (3::nat)"
  shows "(Gauss 0 1 :: 'k::comm_ring_1 gauss) ^ p = Gauss 0 (- 1)"
proof -
  have p: "p = 4 * (p div 4) + 3" using assms by presburger
  let ?i = "Gauss 0 1 :: 'k gauss"
  have "?i ^ 4 = 1" by (simp add: power4_eq_xxxx gauss_eq_iff)
  then have "?i ^ (4 * (p div 4)) = 1" by (simp add: power_mult)
  then have "?i ^ p = ?i ^ 3" by (subst p) (simp add: power_add)
  also have "\<dots> = Gauss 0 (- 1)" by (simp add: power3_eq_cube gauss_eq_iff)
  finally show ?thesis .
qed

text \<open>On pairs of residues the power \<open>p\<close> is the conjugate, for \<open>p = 3 mod 4\<close>.\<close>

lemma frobenius_conj:
  assumes "is_prime (int p)" "of_nat p = (0::'k::comm_ring_1)" "p mod 4 = 3"
  shows "Gauss (of_nat a) (of_nat b :: 'k) ^ p = gconj (Gauss (of_nat a) (of_nat b))"
proof -
  have char: "of_nat p = (0 :: 'k gauss)" using assms(2) by (simp add: gauss_eq_iff)
  have "Gauss (of_nat a) (of_nat b :: 'k) = of_nat a + of_nat b * Gauss 0 1" by (simp add: gauss_eq_iff)
  then have "Gauss (of_nat a) (of_nat b :: 'k) ^ p = of_nat a ^ p + (of_nat b * Gauss 0 1) ^ p"
    using frobenius_add [OF assms(1) char] by simp
  also have "\<dots> = of_nat a + of_nat b * Gauss 0 (- 1)"
    unfolding power_mult_distrib frobenius_of_nat [OF assms(1) char] gauss_i_power [OF assms(3)] ..
  finally show ?thesis by (simp add: gauss_eq_iff)
qed

end
