(* ===== verification/AEllnetPairing.thy ===== *)
theory AEllnetPairing
  imports AEllnetCorrect APairingCorrect
begin

text \<open>
  The pairing by elliptic nets as a whole: both forms return the same power of the conjugate
  over the term \<open>d_{r+1}\<close> of the net.
\<close>

context pairing_base
begin

lemma top_prefix:
  assumes "2 \<le> r"
  shows "nat r div 2 ^ Suc (mpz_sizeinbase G r 2 - 2) = 1"
proof -
  define n where "n = nat r"
  have n: "2 \<le> n" using assms by (simp add: n_def)
  define s where "s = nbits n"
  have s: "2 \<le> s" unfolding s_def using n nbits_step [of n] by (simp add: Suc_le_eq)
  then have "Suc (s - 2) = s - 1" by simp
  moreover have "2 ^ (s - 1) \<le> n" using nbits_lower [of n] n by (simp add: s_def)
  moreover have "n < 2 * 2 ^ (s - 1)" using nbits_upper [of n] s by (simp add: s_def flip: power_Suc)
  moreover have "mpz_sizeinbase G r 2 = s" using assms by (simp add: gmp.sizeinbase s_def n_def)
  ultimately show ?thesis unfolding n_def [symmetric] by (auto simp: div_nat_eqI)
qed

lemma setup_ok:
  assumes "x \<in> V" "y \<in> V" "2 * \<alpha> y \<noteq> 0"
  obtains k C where "ellnet_start B x y = (k, C)" "C \<in> V" "en_m1 k \<in> V"
    "\<And>v C1. v \<in> V \<Longrightarrow> C1 \<in> V \<Longrightarrow> \<exists>k' D. ellnet_finish B (k\<lparr> en_m1 := v \<rparr>) C1 = (k', D) \<and> block_in V k' \<and> D \<in> V \<and>
      \<alpha> D * (2 * \<alpha> y) = 1 \<and> block_at \<alpha> (ell_term (\<alpha> x) (\<alpha> y) (\<alpha> D)) 1 k'"
proof -
  obtain k C where s: "ellnet_start B x y = (k, C)" "block_in V k" "C \<in> V"
    and at: "\<And>z c. \<alpha> z = 0 \<Longrightarrow> block_at \<alpha> (ell_term (\<alpha> x) (\<alpha> y) c) 1 (k\<lparr> en_m1 := z \<rparr>)"
    using start_ok [OF assms(1,2)] by blast
  have y2: "\<alpha> (en_1 k) = 2 * \<alpha> y"
    using at [OF init, of 0] by (simp add: block_at_def ell_term_small)
  show ?thesis
  proof (rule that [OF s(1,3)])
    show "en_m1 k \<in> V" using s(2) by (simp add: block_in_def)
    fix v C1 assume v: "v \<in> V" "C1 \<in> V"
    have "block_in V (k\<lparr> en_m1 := v \<rparr>)" using s(2) v by (simp add: block_in_def)
    then obtain z D where f: "ellnet_finish B (k\<lparr> en_m1 := v \<rparr>) C1 = (k\<lparr> en_m1 := z \<rparr>, D)" "z \<in> V" "\<alpha> z = 0" "D \<in> V"
      "\<alpha> (en_1 k) * \<alpha> D = 1"
      by (rule finish_ok [OF _ v(2)]) (use assms(3) y2 in auto)
    then show "\<exists>k' D. ellnet_finish B (k\<lparr> en_m1 := v \<rparr>) C1 = (k', D) \<and> block_in V k' \<and> D \<in> V \<and>
      \<alpha> D * (2 * \<alpha> y) = 1 \<and> block_at \<alpha> (ell_term (\<alpha> x) (\<alpha> y) (\<alpha> D)) 1 k'"
      using at s(2) y2 by (auto simp: block_in_def mult.commute)
  qed
qed

lemma tmp_in: "(element_init B, element_init B, element_init B, element_init B) \<in> line_vars V"
  by simp

text \<open>The data of the pairing, over the base field of the contract.\<close>

definition data_ok :: "'a a_pairing_data \<Rightarrow> bool" where
  "data_ok ad \<longleftrightarrow> ad_Fq ad = B \<and> ad_Fq2 ad = field_init_fi G B"

lemma net_start_ok:
  assumes "out \<in> fq_pairs V" "d \<in> fq_pairs V"
  defines "F \<equiv> field_init_fi G B"
  shows "net_in (out, element_set1 F (element_init F), element_set1 F (element_init F), d, element_init F, element_init F)"
    and "net_val (out, element_set1 F (element_init F), element_set1 F (element_init F), d, element_init F, element_init F) =
      (1, 1, fi_val d)"
  using fi.init_in fi.set1_in [OF fi.init_in] fi.set1 [OF fi.init_in] assms(1,2) unfolding F_def net_in_def net_val_def
  by (simp_all del: fi_table fq_pairs_iff)

lemma a_pairing_ellnet_ok:
  assumes ad: "data_ok ad" and P: "pt_x P \<in> V" "pt_y P \<in> V" and Q: "pt_x Q \<in> V" "pt_y Q \<in> V"
    and out: "out \<in> fq_pairs V" and r: "2 \<le> r" and y: "2 * \<alpha> (pt_y P) \<noteq> 0" and x: "\<alpha> (pt_x P) + \<alpha> (pt_x Q) \<noteq> 0"
    and den: "net_den (\<alpha> (pt_x P)) (\<alpha> (pt_y P)) (\<alpha> (pt_x Q)) (\<alpha> (pt_y Q)) \<noteq> 0"
  shows "\<exists>out' d t. a_pairing_ellnet G ad r h out P Q = a_tateexp G B (field_init_fi G B) out' d t h \<and>
    out' \<in> fq_pairs V \<and> d \<in> fq_pairs V \<and> t \<in> fq_pairs V \<and>
    ellnet_value (\<alpha> (pt_x P)) (\<alpha> (pt_y P)) (\<alpha> (pt_x Q)) (\<alpha> (pt_y Q)) (nat r) (fi_val d)"
proof -
  let ?F = "field_init_fi G B" and ?m = "mpz_sizeinbase G r 2 - 2"
  obtain k C where s: "ellnet_start B (pt_x P) (pt_y P) = (k, C)" "C \<in> V" "en_m1 k \<in> V"
    and fin: "\<And>v C1. v \<in> V \<Longrightarrow> C1 \<in> V \<Longrightarrow> \<exists>k' D. ellnet_finish B (k\<lparr> en_m1 := v \<rparr>) C1 = (k', D) \<and> block_in V k' \<and> D \<in> V \<and>
      \<alpha> D * (2 * \<alpha> (pt_y P)) = 1 \<and> block_at \<alpha> (ell_term (\<alpha> (pt_x P)) (\<alpha> (pt_y P)) (\<alpha> D)) 1 k'"
    using setup_ok [OF P y] by blast
  obtain A Bv C1 e d where f: "ellnet_factors B ?F (pt_x P) (pt_y P) (pt_x Q) (pt_y Q) (element_init B) (element_init ?F) C
      (en_m1 k) (element_init ?F) = (A, Bv, C1, e, d)" "A \<in> V" "Bv \<in> fq_pairs V" "C1 \<in> V" "e \<in> V" "d \<in> fq_pairs V"
    "(\<alpha> (pt_x P) + \<alpha> (pt_x Q)) * \<alpha> A = 1"
    "net_den (\<alpha> (pt_x P)) (\<alpha> (pt_y P)) (\<alpha> (pt_x Q)) (\<alpha> (pt_y Q)) * fi_val Bv = 1"
    "fi_val d = net_d2 (\<alpha> (pt_x P)) (\<alpha> (pt_y P)) (\<alpha> (pt_x Q)) (\<alpha> (pt_y Q)) (\<alpha> A)"
    using factors_ok [OF P Q init_in s(2,3) fi.init_in fi.init_in x den] by blast
  obtain k' D where k': "ellnet_finish B (k\<lparr> en_m1 := e \<rparr>) C1 = (k', D)" "block_in V k'" "D \<in> V"
    "\<alpha> D * (2 * \<alpha> (pt_y P)) = 1" "block_at \<alpha> (ell_term (\<alpha> (pt_x P)) (\<alpha> (pt_y P)) (\<alpha> D)) 1 k'"
    using fin [OF f(5,4)] by blast
  let ?W = "ell_term (\<alpha> (pt_x P)) (\<alpha> (pt_y P)) (\<alpha> D)"
  let ?n = "(out, element_set1 ?F (element_init ?F), element_set1 ?F (element_init ?F), d, element_init ?F, element_init ?F)"
  let ?L = "ellnet_loop G B ?F r D A Bv ?m k' (ellnet_st_init B)
      (element_init B, element_init B, element_init B, element_init B) (element_init B) (element_init B) ?n"
  note top = top_prefix [OF r]
  have r0: "0 \<le> r" using r by simp
  have "net_in ?L \<and> net_val ?L = ell_net ?W (gbase (\<alpha> A)) (fi_val Bv) (fi_val d) (nat r)"
  proof (rule ellnet_loop_ok [OF doubling_ell_term [OF k'(4)] r0 f(2,3) k'(3) _ k'(2) _ st_init_in tmp_in init_in init_in])
    show "1 \<le> nat r div 2 ^ Suc ?m" "block_at \<alpha> ?W (int (nat r div 2 ^ Suc ?m)) k'" unfolding top using k'(5) by simp_all
    show "net_in ?n" "net_val ?n = ell_net ?W (gbase (\<alpha> A)) (fi_val Bv) (fi_val d) (nat r div 2 ^ Suc ?m)"
      unfolding top ell_net_1 by (rule net_start_ok [OF out f(6)])+
  qed
  moreover obtain out' m z p u v where L: "?L = (out', m, z, p, u, v)" by (cases ?L) auto
  ultimately have R: "out' \<in> fq_pairs V" "z \<in> fq_pairs V" "p \<in> fq_pairs V"
    "fi_val p = snd (snd (ell_net ?W (gbase (\<alpha> A)) (fi_val Bv) (fi_val d) (nat r)))"
    unfolding L net_in_def net_val_def by (simp_all del: fi_table fq_pairs_iff) (metis snd_conv)
  have "a_pairing_ellnet G ad r h out P Q = a_tateexp G B ?F out' p z h"
    using ad L by (simp only: a_pairing_ellnet_def data_ok_def Let_def s(1) f(1) k'(1) prod.case cong: let_weak_cong)
  moreover have "ellnet_value (\<alpha> (pt_x P)) (\<alpha> (pt_y P)) (\<alpha> (pt_x Q)) (\<alpha> (pt_y Q)) (nat r) (fi_val p)"
    unfolding ellnet_value_def R(4) f(9) using k'(4) f(7,8) by blast
  ultimately show ?thesis using R(1-3) by blast
qed

lemma a_pairing_ellnet_pp_ok:
  assumes ad: "data_ok ad" and P: "pt_x P \<in> V" "pt_y P \<in> V" and Q: "pt_x Q \<in> V" "pt_y Q \<in> V"
    and out: "out \<in> fq_pairs V" and r: "2 \<le> r" and y: "2 * \<alpha> (pt_y P) \<noteq> 0" and x: "\<alpha> (pt_x P) + \<alpha> (pt_x Q) \<noteq> 0"
    and den: "net_den (\<alpha> (pt_x P)) (\<alpha> (pt_y P)) (\<alpha> (pt_x Q)) (\<alpha> (pt_y Q)) \<noteq> 0"
  shows "\<exists>out' d t. a_pairing_ellnet_pp_apply G ad r h out Q (a_pairing_ellnet_pp_init G ad r P) =
      a_tateexp G B (field_init_fi G B) out' d t h \<and> out' \<in> fq_pairs V \<and> d \<in> fq_pairs V \<and> t \<in> fq_pairs V \<and>
    ellnet_value (\<alpha> (pt_x P)) (\<alpha> (pt_y P)) (\<alpha> (pt_x Q)) (\<alpha> (pt_y Q)) (nat r) (fi_val d)"
proof -
  let ?F = "field_init_fi G B" and ?m = "mpz_sizeinbase G r 2 - 2"
  obtain k C where s: "ellnet_start B (pt_x P) (pt_y P) = (k, C)" "C \<in> V" "en_m1 k \<in> V"
    and fin: "\<And>v C1. v \<in> V \<Longrightarrow> C1 \<in> V \<Longrightarrow> \<exists>k' D. ellnet_finish B (k\<lparr> en_m1 := v \<rparr>) C1 = (k', D) \<and> block_in V k' \<and> D \<in> V \<and>
      \<alpha> D * (2 * \<alpha> (pt_y P)) = 1 \<and> block_at \<alpha> (ell_term (\<alpha> (pt_x P)) (\<alpha> (pt_y P)) (\<alpha> D)) 1 k'"
    using setup_ok [OF P y] by blast
  obtain k' D where k': "ellnet_finish B k C = (k', D)" "block_in V k'" "D \<in> V"
    "\<alpha> D * (2 * \<alpha> (pt_y P)) = 1" "block_at \<alpha> (ell_term (\<alpha> (pt_x P)) (\<alpha> (pt_y P)) (\<alpha> D)) 1 k'"
    using fin [OF s(3,2)] by auto
  let ?W = "ell_term (\<alpha> (pt_x P)) (\<alpha> (pt_y P)) (\<alpha> D)"
  define sq where "sq = ellnet_pp_loop G B r D ?m k' (element_init B, element_init B, element_init B, element_init B)
      (element_init B) (element_init B)"
  define x' where "x' = element_set B (element_init B) (pt_x P)"
  define y' where "y' = element_set B (element_init B) (pt_y P)"
  have xy: "x' \<in> V" "y' \<in> V" "\<alpha> x' = \<alpha> (pt_x P)" "\<alpha> y' = \<alpha> (pt_y P)"
    unfolding x'_def y'_def using P by (simp_all add: impl_law)
  have pp: "a_pairing_ellnet_pp_init G ad r P = \<lparr> pp_x = x', pp_y = y', pp_seq = sq \<rparr>"
    using ad by (simp only: a_pairing_ellnet_pp_init_def data_ok_def Let_def s(1) k'(1) prod.case sq_def x'_def y'_def)
  note top = top_prefix [OF r]
  have r0: "0 \<le> r" using r by simp
  have sq: "prods_at ?W r ?m sq 0"
    unfolding sq_def
  proof (rule ellnet_pp_loop_ok [OF doubling_ell_term [OF k'(4)] r0 k'(3) _ k'(2) _ tmp_in init_in init_in])
    show "1 \<le> nat r div 2 ^ Suc ?m" "block_at \<alpha> ?W (int (nat r div 2 ^ Suc ?m)) k'" unfolding top using k'(5) by simp_all
  qed
  obtain A Bv C1 e d where f: "ellnet_factors B ?F x' y' (pt_x Q) (pt_y Q) (element_init B) (element_init ?F)
      (element_init B) (element_init B) (element_init ?F) = (A, Bv, C1, e, d)" "A \<in> V" "Bv \<in> fq_pairs V" "d \<in> fq_pairs V"
    "(\<alpha> (pt_x P) + \<alpha> (pt_x Q)) * \<alpha> A = 1"
    "net_den (\<alpha> (pt_x P)) (\<alpha> (pt_y P)) (\<alpha> (pt_x Q)) (\<alpha> (pt_y Q)) * fi_val Bv = 1"
    "fi_val d = net_d2 (\<alpha> (pt_x P)) (\<alpha> (pt_y P)) (\<alpha> (pt_x Q)) (\<alpha> (pt_y Q)) (\<alpha> A)"
    using factors_ok [OF xy(1,2) Q init_in init_in init_in fi.init_in fi.init_in] x den unfolding xy(3,4) by blast
  let ?n = "(out, element_set1 ?F (element_init ?F), element_set1 ?F (element_init ?F), d, element_init ?F, element_init ?F)"
  let ?L = "ellnet_apply_loop G B ?F r A Bv sq 0 ?m ?n"
  have "net_in ?L \<and> net_val ?L = ell_net ?W (gbase (\<alpha> A)) (fi_val Bv) (fi_val d) (nat r)"
  proof (rule ellnet_apply_loop_ok [OF r0 f(2,3) _ sq])
    show "1 \<le> nat r div 2 ^ Suc ?m" unfolding top by simp
    show "net_in ?n" "net_val ?n = ell_net ?W (gbase (\<alpha> A)) (fi_val Bv) (fi_val d) (nat r div 2 ^ Suc ?m)"
      unfolding top ell_net_1 by (rule net_start_ok [OF out f(4)])+
  qed
  moreover obtain out' m z p u v where L: "?L = (out', m, z, p, u, v)" by (cases ?L) auto
  ultimately have R: "out' \<in> fq_pairs V" "z \<in> fq_pairs V" "p \<in> fq_pairs V"
    "fi_val p = snd (snd (ell_net ?W (gbase (\<alpha> A)) (fi_val Bv) (fi_val d) (nat r)))"
    unfolding L net_in_def net_val_def by (simp_all del: fi_table fq_pairs_iff) (metis snd_conv)
  have "a_pairing_ellnet_pp_apply G ad r h out Q (a_pairing_ellnet_pp_init G ad r P) = a_tateexp G B ?F out' p z h"
    using ad L unfolding pp by (simp only: a_pairing_ellnet_pp_apply_def data_ok_def Let_def ellnet_pp.simps f(1) prod.case cong: let_weak_cong)
  moreover have "ellnet_value (\<alpha> (pt_x P)) (\<alpha> (pt_y P)) (\<alpha> (pt_x Q)) (\<alpha> (pt_y Q)) (nat r) (fi_val p)"
    unfolding ellnet_value_def R(4) f(7) using k'(4) f(5,6) by blast
  ultimately show ?thesis using R(1-3) by blast
qed

text \<open>Both forms return the same value.\<close>

lemma ellnets_value:
  assumes ad: "data_ok ad" and P: "pt_x P \<in> V" "pt_y P \<in> V" and Q: "pt_x Q \<in> V" "pt_y Q \<in> V"
    and out: "out \<in> fq_pairs V" and r: "2 \<le> r" and h: "0 \<le> h"
    and y: "2 * \<alpha> (pt_y P) \<noteq> 0" and x: "\<alpha> (pt_x P) + \<alpha> (pt_x Q) \<noteq> 0"
    and den: "net_den (\<alpha> (pt_x P)) (\<alpha> (pt_y P)) (\<alpha> (pt_x Q)) (\<alpha> (pt_y Q)) \<noteq> 0"
    and nz: "\<not> ellnet_value (\<alpha> (pt_x P)) (\<alpha> (pt_y P)) (\<alpha> (pt_x Q)) (\<alpha> (pt_y Q)) (nat r) 0"
  obtains e w where "e \<in> fq_pairs V" "fi_val e \<noteq> 0" "w * fi_val e = gconj (fi_val e)" "w * gconj w = 1"
    "ellnet_value (\<alpha> (pt_x P)) (\<alpha> (pt_y P)) (\<alpha> (pt_x Q)) (\<alpha> (pt_y Q)) (nat r) (fi_val e)"
    "\<forall>X\<in>{a_pairing_ellnet G ad r h out P Q, a_pairing_ellnet_pp_apply G ad r h out Q (a_pairing_ellnet_pp_init G ad r P)}.
      X \<in> fq_pairs V \<and> fi_val X = w ^ (2 * (nat h div 2))"
proof -
  obtain o1 d t where a: "a_pairing_ellnet G ad r h out P Q = a_tateexp G B (field_init_fi G B) o1 d t h"
    "o1 \<in> fq_pairs V" "d \<in> fq_pairs V" "t \<in> fq_pairs V"
    "ellnet_value (\<alpha> (pt_x P)) (\<alpha> (pt_y P)) (\<alpha> (pt_x Q)) (\<alpha> (pt_y Q)) (nat r) (fi_val d)"
    using a_pairing_ellnet_ok [OF ad P Q out r y x den] by blast
  obtain o2 e u where b: "a_pairing_ellnet_pp_apply G ad r h out Q (a_pairing_ellnet_pp_init G ad r P) =
      a_tateexp G B (field_init_fi G B) o2 e u h"
    "o2 \<in> fq_pairs V" "e \<in> fq_pairs V" "u \<in> fq_pairs V"
    "ellnet_value (\<alpha> (pt_x P)) (\<alpha> (pt_y P)) (\<alpha> (pt_x Q)) (\<alpha> (pt_y Q)) (nat r) (fi_val e)"
    using a_pairing_ellnet_pp_ok [OF ad P Q out r y x den] by blast
  have d0: "fi_val d \<noteq> 0" using a(5) nz by metis
  have e: "fi_val e = fi_val d" by (rule ellnet_value_unique [OF b(5) a(5)])
  note ta = a_tateexp_ok [OF a(2-4) d0 h]
  obtain w where w: "w * fi_val d = gconj (fi_val d)" "w * gconj w = 1"
    "fi_val (a_tateexp G B (field_init_fi G B) o1 d t h) = w ^ (2 * (nat h div 2))" using ta(2) by blast
  have "fi_val e \<noteq> 0" unfolding e by (rule d0)
  note tb = a_tateexp_ok [OF b(2-4) this h]
  obtain w' where w': "w' * fi_val d = gconj (fi_val d)"
    "fi_val (a_tateexp G B (field_init_fi G B) o2 e u h) = w' ^ (2 * (nat h div 2))" using tb(2) unfolding e by blast
  have "w' = w" by (rule unit_quotient [OF a(3) d0 w'(1) w(1)])
  with that [OF a(3) d0 w(1,2) a(5)] ta(1) tb(1) w(3) w'(2) show ?thesis unfolding a(1) b(1) by simp
qed

end

end
