(* ===== verification/APairingPrime.thy ===== *)
theory APairingPrime
  imports APairingCorrect
begin

text \<open>
  The contracts of the pairing of type A for the prime fields of \<^verbatim>\<open>arith/naivefp.c\<close> with
  \<open>q = 3 mod 4\<close>, and the order of its values.
\<close>

definition a_prime_curve :: "gmp \<Rightarrow> int \<Rightarrow> int option \<Rightarrow> int curve_data \<Rightarrow> bool" where
  "a_prime_curve G q nq cdp \<longleftrightarrow>
     cv_field cdp = (field_init_naive_fp G q)\<lparr>f_nqr := nq\<rparr> \<and> cv_a cdp = 1 \<and> cv_b cdp = 0"

context fp_prime_env
begin

lemma two_nonzero: "2 < p \<Longrightarrow> (2::'k) \<noteq> 0"
proof
  assume "2 < p" "(2::'k) = 0"
  then have "p dvd 2" using char_p [of 2] by simp
  then have "p \<le> 2" by (rule zdvd_imp_le) simp
  with \<open>2 < p\<close> show False by simp
qed

lemma of_nat_p: "of_nat (nat p) = (0::'k)"
  using char_p [of p] p1 by (simp add: of_nat_nat)

lemma prime_nat: "is_prime (int (nat p))"
  using prime p1 by simp

lemma no_sqrt_of_minus_one:
  assumes p: "p mod 4 = 3" and z: "z \<in> {0..<p}"
  shows "emb z * emb z \<noteq> - 1"
proof
  assume eq: "emb z * emb z = - 1"
  define n where "n = nat p div 4"
  have "nat p mod 4 = 3" using p p1 nat_mod_distrib [of p 4] by simp
  moreover have "m mod 4 = 3 \<Longrightarrow> m = Suc (2 * (2 * (m div 4) + 1))" for m :: nat by presburger
  ultimately have np: "nat p = Suc (2 * (2 * n + 1))" unfolding n_def by blast
  have fz: "emb z ^ nat p = emb z"
    using frobenius_of_nat [OF prime_nat of_nat_p, of "nat z"] z by (simp add: emb of_nat_nat)
  have "emb z ^ nat p = (emb z * emb z) ^ (2 * n + 1) * emb z"
    unfolding np power_Suc2 power_mult power2_eq_square ..
  also have "\<dots> = - emb z" unfolding eq by simp
  finally have "emb z = - emb z" unfolding fz .
  then have "emb z + emb z = 0" by (rule eq_neg_iff_add_eq_0 [THEN iffD1])
  then have "of_int (2 * z) = (0::'k)" by (simp add: emb)
  then have "p dvd 2 * z" by (simp only: char_p)
  moreover have "coprime p 2" using p by (simp add: coprime_right_2_iff_odd) presburger
  ultimately have "p dvd z" by (simp add: coprime_dvd_mult_right_iff)
  then have "emb z = 0" using char_p [of z] by (simp add: emb)
  then have "(1::'k) = 0" using eq by simp
  then show False using char_p [of 1] p1 by simp
qed

lemma a_miller_prime:
  assumes cdp: "a_prime_curve G p nq cdp" and p: "p mod 4 = 3"
  shows "a_miller cdp {0..<p} emb G"
proof -
  let ?F = "(field_init_naive_fp G p)\<lparr>f_nqr := nq\<rparr>"
  have p2: "2 < p" using p p1 by (cases "p = 2") auto
  have gmp: "field_gmp ?F {0..<p} emb G" by (rule field_gmp_nqr [OF fpx.field_gmp_axioms])
  then have impl: "field_impl ?F {0..<p} emb" by (simp add: field_gmp_def)
  have fi: "fi_field ?F {0..<p} emb G"
    by (rule fi_field.intro [OF gmp fi_field_axioms.intro]) (rule no_sqrt_of_minus_one [OF p])
  have halve: "element_halve ?F n a = zp_halve G p a" for n a
    by (simp add: fp_dispatch)
  have odd: "odd p" using p by presburger
  have half: "0 \<le> zp_halve G p a \<and> zp_halve G p a < p \<and> emb (zp_halve G p a) + emb (zp_halve G p a) = emb a"
    if "a \<in> {0..<p}" for a
  proof -
    from that have a: "0 \<le> a" "a < p" by auto
    note h = zp_halve_ok [OF gmp_laws_axioms a odd]
    have "emb ((zp_halve G p a + zp_halve G p a) mod p) = emb a" unfolding h(3) ..
    then show ?thesis using h(1,2) by (simp add: emb)
  qed
  have dv: "element_div ?F n a b = generic_div ?F False n a b" for n a b
    by (simp add: fp_dispatch)
  have "pairing_base ?F {0..<p} emb G"
  proof (intro pairing_base.intro [OF fi] pairing_base_axioms.intro)
    show "(2::'k) \<noteq> 0" by (rule two_nonzero [OF p2])
    show "element_halve ?F n a \<in> {0..<p}" "emb (element_halve ?F n a) + emb (element_halve ?F n a) = emb a"
      if "n \<in> {0..<p}" "a \<in> {0..<p}" for n a
      unfolding halve using half [OF that(2)] by simp_all
    show "element_div ?F n a b \<in> {0..<p}" "emb (element_div ?F n a b) * emb b = emb a"
      if "n \<in> {0..<p}" "a \<in> {0..<p}" "b \<in> {0..<p}" "emb b \<noteq> 0" for n a b
      unfolding dv by (rule field_impl.generic_div_ok [OF impl that])+
    show "element_mul ?F n a b \<in> {0..<p} \<and> emb (element_mul ?F n a b) = 0" if "b \<in> {0..<p}" "emb b = 0" for n a b
    proof -
      have "b = 0" using that emb_0 [of b] by simp
      then show ?thesis using p1 by (simp add: fp_dispatch zp_mul_def mul mod emb)
    qed
  qed
  then show ?thesis
    using cdp p1 unfolding a_prime_curve_def
    by (intro a_miller.intro a_miller_axioms.intro) (simp_all add: emb)
qed

end

lemma gauss_val_int: "e \<in> fq_pairs {0..<q} \<Longrightarrow> gauss_val of_int e = Gauss (of_nat (nat (fq_x e))) (of_nat (nat (fq_y e)))"
  by (simp add: gauss_val_def of_nat_nat)

text \<open>The exponent: \<open>w\<close> is the power \<open>q - 1\<close> of \<open>M\<close>, and has the order of the norm 1 elements.\<close>

lemma tate_power:
  assumes F: "fp_prime_env G q (of_int :: int \<Rightarrow> 'k::comm_ring_1)" and q: "q mod 4 = 3"
    and A: "pairing_base B {0..<q} (of_int :: int \<Rightarrow> 'k) G"
    and e: "e \<in> fq_pairs {0..<q}" "gauss_val (of_int :: int \<Rightarrow> 'k) e \<noteq> 0"
    and w: "(w :: 'k gauss) * gauss_val of_int e = gconj (gauss_val of_int e)" "w * gconj w = 1"
    and h: "0 \<le> h" "even h" and r: "r * h = q + 1"
  shows "w ^ (2 * (nat h div 2)) = gauss_val of_int e ^ (nat (q - 1) * nat h) \<and> (w ^ (2 * (nat h div 2))) ^ nat r = 1"
proof -
  define M where "M = gauss_val (of_int :: int \<Rightarrow> 'k) e"
  have q1: "1 < q" using F by (simp add: fp_prime_env_def fp_env_def fp_env_axioms_def)
  have conj: "M ^ nat q = gconj M"
    unfolding M_def gauss_val_int [OF e(1)]
  proof (rule frobenius_conj [OF fp_prime_env.prime_nat [OF F] fp_prime_env.of_nat_p [OF F]])
    show "nat q mod 4 = 3" using q q1 nat_mod_distrib [of q 4] by simp
  qed
  moreover have "nat q = Suc (nat (q - 1))" using q1 by simp
  ultimately have "M ^ nat (q - 1) * M = gconj M" by (simp add: mult.commute)
  then have wM: "w = M ^ nat (q - 1)"
    using pairing_base.unit_quotient [OF A e w(1)] unfolding M_def by blast
  have even: "2 * (nat h div 2) = nat h" using h by (simp add: even_nat_iff)
  have "nat h * nat r = nat q + 1" using r h(1) q1 by (simp add: mult.commute flip: nat_mult_distrib)
  then have "(w ^ nat h) ^ nat r = w ^ nat q * w" unfolding power_mult [symmetric] by simp
  also have "w ^ nat q = (M ^ nat q) ^ nat (q - 1)" unfolding wM by (simp only: power_mult [symmetric] mult.commute)
  also have "\<dots> = gconj w" unfolding conj wM gconj_power ..
  finally have "(w ^ nat h) ^ nat r = 1" using w(2) by (simp add: mult.commute)
  moreover have "w ^ nat h = M ^ (nat (q - 1) * nat h)" unfolding wM power_mult ..
  ultimately show ?thesis unfolding even M_def by blast
qed

text \<open>
  The product of the lines that the loops accumulate: \<open>F1\<close> is the value saved after the first
  loop, or its inverse for a negative sign.
\<close>

definition miller_product :: "('a \<Rightarrow> 'k::comm_ring_1) \<Rightarrow> 'a curve_data \<Rightarrow> int \<Rightarrow> int \<Rightarrow> int \<Rightarrow> 'a point \<Rightarrow> 'a point \<Rightarrow> 'k gauss \<Rightarrow> bool" where
  "miller_product \<alpha> cdp e2 e1 s1 P Q M \<longleftrightarrow>
     (let n1 = nat e1; n = n1 + (nat e2 - n1); y1 = \<alpha> (pt_y (a_doubles cdp P n1))
      in \<exists>F1. (if s1 < 0 then miller_value \<alpha> cdp P Q n1 * F1 = 1 else F1 = miller_value \<alpha> cdp P Q n1) \<and>
        M = miller_value \<alpha> cdp P Q n * F1 *
          chord_at (\<alpha> (pt_x (a_doubles cdp P n))) (\<alpha> (pt_y (a_doubles cdp P n))) (\<alpha> (pt_x (a_doubles cdp P n1)))
            (if s1 < 0 then - y1 else y1) (\<alpha> (pt_x Q)) (\<alpha> (pt_y Q)))"

lemma miller_productI:
  assumes "a_miller cdp V (\<alpha> :: 'a \<Rightarrow> 'k::comm_ring_1) G" "a_miller.saved cdp \<alpha> e1 s1 P Q F1"
    "M = a_miller.miller_final cdp \<alpha> e2 e1 s1 P Q F1"
  shows "miller_product \<alpha> cdp e2 e1 s1 P Q M"
  using assms(2,3) unfolding miller_product_def Let_def a_miller.saved_def [OF assms(1)] a_miller.miller_final_def [OF assms(1)]
    a_miller.sign_y_def [OF assms(1)] by blast

text \<open>The three methods over a prime field.\<close>

lemma pairing_power:
  assumes F: "fp_prime_env G q (of_int :: int \<Rightarrow> 'k::comm_ring_1)" and q: "q mod 4 = 3"
    and cdp: "a_prime_curve G q nq cdp" and P: "P \<in> curve_points cdp {0..<q} (of_int :: int \<Rightarrow> 'k)"
    and Q: "pt_x Q \<in> {0..<q}" "pt_y Q \<in> {0..<q}" and g: "a_generic (of_int :: int \<Rightarrow> 'k) cdp e2 e1 P Q"
    and out: "out \<in> fq_pairs {0..<q}" and h: "0 \<le> h" "even h" and r: "r * h = q + 1"
    and X_in: "X \<in> {a_pairing_affine G (a_data G cdp order e2 e1 s1) h out P Q,
      a_pairing_proj G (a_data G cdp order e2 e1 s1) h out P Q,
      a_pairing_pp_apply G (a_data G cdp order e2 e1 s1) h out Q (a_pairing_pp_init (a_data G cdp order e2 e1 s1) P)}"
  shows "\<exists>M :: 'k gauss. miller_product of_int cdp e2 e1 s1 P Q M \<and>
    gauss_val of_int X = M ^ (nat (q - 1) * nat h) \<and> gauss_val (of_int :: int \<Rightarrow> 'k) X ^ nat r = 1"
proof -
  note A = fp_prime_env.a_miller_prime [OF F cdp q]
  obtain e and w :: "'k gauss" where e: "e \<in> fq_pairs {0..<q}" "gauss_val (of_int :: int \<Rightarrow> 'k) e \<noteq> 0"
    "w * gauss_val of_int e = gconj (gauss_val of_int e)" "w * gconj w = 1"
    "\<exists>F1. a_miller.saved cdp (of_int :: int \<Rightarrow> 'k) e1 s1 P Q F1 \<and> gauss_val of_int e = a_miller.miller_final cdp of_int e2 e1 s1 P Q F1"
    and all: "\<forall>X\<in>{a_pairing_affine G (a_data G cdp order e2 e1 s1) h out P Q, a_pairing_proj G (a_data G cdp order e2 e1 s1) h out P Q,
        a_pairing_pp_apply G (a_data G cdp order e2 e1 s1) h out Q (a_pairing_pp_init (a_data G cdp order e2 e1 s1) P)}.
      X \<in> fq_pairs {0..<q} \<and> gauss_val of_int X = w ^ (2 * (nat h div 2))"
    by (rule a_miller.pairings_value [OF A P Q g out h(1), of s1 order])
  have prod: "miller_product of_int cdp e2 e1 s1 P Q (gauss_val (of_int :: int \<Rightarrow> 'k) e)"
    using e(5) miller_productI [OF A] by blast
  have X: "gauss_val (of_int :: int \<Rightarrow> 'k) X = w ^ (2 * (nat h div 2))" using bspec [OF all X_in] by (rule conjunct2)
  note power = tate_power [OF F q a_miller.axioms(1) [OF A] e(1-4) h r]
  show ?thesis
  proof (intro exI conjI)
    show "gauss_val (of_int :: int \<Rightarrow> 'k) X = gauss_val of_int e ^ (nat (q - 1) * nat h)" unfolding X by (rule conjunct1 [OF power])
    show "gauss_val (of_int :: int \<Rightarrow> 'k) X ^ nat r = 1" unfolding X by (rule conjunct2 [OF power])
  qed (rule prod)
qed

end
