(* ===== verification/AEllnetPrime.thy ===== *)
theory AEllnetPrime
  imports AEllnetPairing APairingPrime
begin

text \<open>The pairing of type A by elliptic nets over a prime field: its value as a power of a term of the net.\<close>

lemma ellnet_power:
  assumes F: "fp_prime_env G q (of_int :: int \<Rightarrow> 'k::comm_ring_1)" and q: "q mod 4 = 3"
    and cdp: "a_prime_curve G q nq cdp" and P: "pt_x P \<in> {0..<q}" "pt_y P \<in> {0..<q}"
    and Q: "pt_x Q \<in> {0..<q}" "pt_y Q \<in> {0..<q}" and out: "out \<in> fq_pairs {0..<q}"
    and h: "0 \<le> h" "even h" and r: "r * h = q + 1" "2 \<le> r"
    and y: "2 * of_int (pt_y P) \<noteq> (0::'k)" and x: "of_int (pt_x P) + of_int (pt_x Q) \<noteq> (0::'k)"
    and den: "net_den (of_int (pt_x P)) (of_int (pt_y P)) (of_int (pt_x Q)) (of_int (pt_y Q) :: 'k) \<noteq> 0"
    and nz: "\<not> ellnet_value (of_int (pt_x P)) (of_int (pt_y P)) (of_int (pt_x Q)) (of_int (pt_y Q) :: 'k) (nat r) 0"
    and X_in: "X \<in> {a_pairing_ellnet G (a_data G cdp order e2 e1 s1) r h out P Q,
      a_pairing_ellnet_pp_apply G (a_data G cdp order e2 e1 s1) r h out Q
        (a_pairing_ellnet_pp_init G (a_data G cdp order e2 e1 s1) r P)}"
  shows "\<exists>M :: 'k gauss. ellnet_value (of_int (pt_x P)) (of_int (pt_y P)) (of_int (pt_x Q)) (of_int (pt_y Q)) (nat r) M \<and>
    gauss_val of_int X = M ^ (nat (q - 1) * nat h) \<and> gauss_val (of_int :: int \<Rightarrow> 'k) X ^ nat r = 1"
proof -
  note A = a_miller.axioms(1) [OF fp_prime_env.a_miller_prime [OF F cdp q]]
  have ok: "pairing_base.data_ok (cv_field cdp) G (a_data G cdp order e2 e1 s1)"
    by (simp add: pairing_base.data_ok_def [OF A])
  obtain e and w :: "'k gauss" where e: "e \<in> fq_pairs {0..<q}" "gauss_val (of_int :: int \<Rightarrow> 'k) e \<noteq> 0"
    "w * gauss_val of_int e = gconj (gauss_val of_int e)" "w * gconj w = 1"
    "ellnet_value (of_int (pt_x P)) (of_int (pt_y P)) (of_int (pt_x Q)) (of_int (pt_y Q) :: 'k) (nat r) (gauss_val of_int e)"
    "\<forall>X\<in>{a_pairing_ellnet G (a_data G cdp order e2 e1 s1) r h out P Q,
      a_pairing_ellnet_pp_apply G (a_data G cdp order e2 e1 s1) r h out Q
        (a_pairing_ellnet_pp_init G (a_data G cdp order e2 e1 s1) r P)}.
      X \<in> fq_pairs {0..<q} \<and> gauss_val of_int X = w ^ (2 * (nat h div 2))"
    by (rule pairing_base.ellnets_value [OF A ok P Q out r(2) h(1) y x den nz])
  have X: "gauss_val (of_int :: int \<Rightarrow> 'k) X = w ^ (2 * (nat h div 2))" using bspec [OF e(6) X_in] by (rule conjunct2)
  note power = tate_power [OF F q A e(1-4) h r(1)]
  show ?thesis
  proof (intro exI conjI)
    show "gauss_val (of_int :: int \<Rightarrow> 'k) X = gauss_val of_int e ^ (nat (q - 1) * nat h)" unfolding X by (rule conjunct1 [OF power])
    show "gauss_val (of_int :: int \<Rightarrow> 'k) X ^ nat r = 1" unfolding X by (rule conjunct2 [OF power])
  qed (rule e(5))
qed

end
