(* ===== verification/PairingValue.thy ===== *)
theory PairingValue
  imports PairingCalls PairingInit AEllnetPrime
begin

text \<open>
  From the parameters to the values: the table that the initialisation makes for parameters of
  type A over a prime field, and what the calls on it return.
\<close>

section \<open>The table\<close>

lemma curve_make_gen_keeps:
  assumes "curve_make_gen G cdp order R n = Some (cdp', n')"
  shows "cv_field cdp' = cv_field cdp \<and> cv_a cdp' = cv_a cdp \<and> cv_b cdp' = cv_b cdp"
  using assms by (auto simp: curve_make_gen_def Let_def split: option.splits)

lemma naive_fp_constants:
  "element_set (field_init_naive_fp G q) e x = x" "element_set1 (field_init_naive_fp G q) e = 1"
  "element_set0 (field_init_naive_fp G q) e = 0"
  by (simp_all add: element_set_def element_set1_def element_set0_def field_init_naive_fp_def naive_fp_base_def
      zp_set_def zp_set1_def zp_set0_def)

lemma pairing_init_a_table:
  assumes "pairing_init_a_param G fpz (field_init_naive_fp G) R n p par = Some (p', n')"
  obtains cdp where "a_prime_curve G (par_q par) None cdp"
    "a_table_ok (a_data G cdp (par_r par) (exp2 par) (exp1 par) (sign1 par)) (par_r par) (par_h par) pp_miller p'"
    "pg_Zr p' = fpz (par_r par)" "pg_G1 p' = group_Eq" "pg_G2 p' = group_Eq" "pg_GT p' = group_Fq2" "pg_phi p' = phi_id"
    "pg_is_almost_coddh p' = pg_is_almost_coddh p"
proof -
  obtain cdp where
    f: "cv_field cdp = field_init_naive_fp G (par_q par)" "cv_a cdp = 1" "cv_b cdp = 0"
    and p': "p' = p\<lparr> pg_data := \<lparr> ad_Fq = field_init_naive_fp G (par_q par),
        ad_Fq2 = field_init_fi G (field_init_naive_fp G (par_q par)), ad_Eq = curve_table G cdp (par_r par),
        ad_exp2 = exp2 par, ad_exp1 = exp1 par, ad_sign1 = sign1 par \<rparr>,
      pg_r := par_r par, pg_Zr := fpz (par_r par), pg_map := map_proj, pg_phikonr := par_h par,
      pg_G1 := group_Eq, pg_G2 := group_Eq, pg_phi := phi_id, pg_GT := group_Fq2,
      pg_option_set := option_a, pg_pp_init := pp_miller, pg_pp_clear := pp_miller, pg_pp_apply := pp_miller \<rparr>"
    using assms
    by (fastforce simp: pairing_init_a_param_def field_init_curve_ab_def Let_def naive_fp_constants
        dest: curve_make_gen_keeps split: option.splits)
  have "field_init_naive_fp G (par_q par) = (field_init_naive_fp G (par_q par))\<lparr>f_nqr := None\<rparr>"
    by (simp add: field_init_naive_fp_def naive_fp_base_def field_init_def)
  then have "a_prime_curve G (par_q par) None cdp" using f by (simp add: a_prime_curve_def)
  moreover have "a_table_ok (a_data G cdp (par_r par) (exp2 par) (exp1 par) (sign1 par)) (par_r par) (par_h par) pp_miller p'"
    by (simp add: a_table_ok_def p' a_data_def f(1))
  ultimately show ?thesis by (rule that) (simp_all add: p')
qed

lemma pairing_init_table_ok:
  assumes "pairing_init_a_param G fpz fpq R n p par = Some (p', n')"
  shows "a_table_ok (pg_data p') (par_r par) (par_h par) pp_miller p'"
  using assms by (auto simp: pairing_init_a_param_def a_table_ok_def Let_def split: option.splits)

section \<open>The values\<close>

text \<open>
  Points in general position for all the routines: \<open>P\<close> on the curve, the lines and the first terms
  of the net not degenerate.
\<close>

definition pair_ok ::
  "int \<Rightarrow> int curve_data \<Rightarrow> a_param \<Rightarrow> (int \<Rightarrow> 'k::comm_ring_1) \<Rightarrow> int fq_data \<times> int point \<times> int point \<Rightarrow> bool" where
  "pair_ok q cdp par emb = (\<lambda>(out, P, Q).
     P \<in> curve_points cdp {0..<q} emb \<and> pt_x P \<in> {0..<q} \<and> pt_y P \<in> {0..<q} \<and>
     pt_x Q \<in> {0..<q} \<and> pt_y Q \<in> {0..<q} \<and> out \<in> fq_pairs {0..<q} \<and>
     a_generic emb cdp (exp2 par) (exp1 par) P Q \<and>
     2 * emb (pt_y P) \<noteq> 0 \<and> emb (pt_x P) + emb (pt_x Q) \<noteq> 0 \<and>
     net_den (emb (pt_x P)) (emb (pt_y P)) (emb (pt_x Q)) (emb (pt_y Q)) \<noteq> 0 \<and>
     \<not> ellnet_value (emb (pt_x P)) (emb (pt_y P)) (emb (pt_x Q)) (emb (pt_y Q)) (nat (par_r par)) 0)"

text \<open>The product of the lines, or the term of the net, to the power \<open>(q - 1) h\<close>.\<close>

definition pairing_value ::
  "int curve_data \<Rightarrow> a_param \<Rightarrow> (int \<Rightarrow> 'k::comm_ring_1) \<Rightarrow> int fq_data \<times> int point \<times> int point \<Rightarrow> 'k gauss \<Rightarrow> bool" where
  "pairing_value cdp par emb = (\<lambda>(out, P, Q) z.
     \<exists>M. (miller_product emb cdp (exp2 par) (exp1 par) (sign1 par) P Q M \<or>
          ellnet_value (emb (pt_x P)) (emb (pt_y P)) (emb (pt_x Q)) (emb (pt_y Q)) (nat (par_r par)) M) \<and>
       z = M ^ (nat (par_q par - 1) * nat (par_h par)) \<and> z ^ nat (par_r par) = 1)"

definition a_param_prime :: "gmp \<Rightarrow> (int \<Rightarrow> 'k::comm_ring_1) \<Rightarrow> a_param \<Rightarrow> bool" where
  "a_param_prime G emb par \<longleftrightarrow> fp_prime_env G (par_q par) emb \<and> par_q par mod 4 = 3 \<and>
     0 \<le> par_h par \<and> even (par_h par) \<and> par_r par * par_h par = par_q par + 1 \<and> 2 \<le> par_r par"

lemma a_values_value:
  assumes ok: "a_param_prime G (of_int :: int \<Rightarrow> 'k::comm_ring_1) par" and cdp: "a_prime_curve G (par_q par) nq cdp"
    and q: "pair_ok (par_q par) cdp par (of_int :: int \<Rightarrow> 'k) q"
    and x: "x \<in> a_values G (a_data G cdp (par_r par) (exp2 par) (exp1 par) (sign1 par)) (par_r par) (par_h par) q"
  shows "pairing_value cdp par (of_int :: int \<Rightarrow> 'k) q (gauss_val of_int x)"
proof -
  obtain out P Q where q3: "q = (out, P, Q)" by (cases q)
  let ?ad = "a_data G cdp (par_r par) (exp2 par) (exp1 par) (sign1 par)"
  let ?r = "par_r par" and ?h = "par_h par"
  have o: "fp_prime_env G (par_q par) (of_int :: int \<Rightarrow> 'k)" "par_q par mod 4 = 3" "0 \<le> ?h" "even ?h"
    "?r * ?h = par_q par + 1" "2 \<le> ?r"
    using ok by (simp_all add: a_param_prime_def)
  have p: "P \<in> curve_points cdp {0..<par_q par} (of_int :: int \<Rightarrow> 'k)" "pt_x P \<in> {0..<par_q par}" "pt_y P \<in> {0..<par_q par}"
    "pt_x Q \<in> {0..<par_q par}" "pt_y Q \<in> {0..<par_q par}" "out \<in> fq_pairs {0..<par_q par}"
    "a_generic (of_int :: int \<Rightarrow> 'k) cdp (exp2 par) (exp1 par) P Q"
    "2 * of_int (pt_y P) \<noteq> (0::'k)" "of_int (pt_x P) + of_int (pt_x Q) \<noteq> (0::'k)"
    "net_den (of_int (pt_x P)) (of_int (pt_y P)) (of_int (pt_x Q)) (of_int (pt_y Q) :: 'k) \<noteq> 0"
    "\<not> ellnet_value (of_int (pt_x P)) (of_int (pt_y P)) (of_int (pt_x Q)) (of_int (pt_y Q) :: 'k) (nat ?r) 0"
    using q unfolding q3 pair_ok_def prod.case by blast+
  consider "x \<in> {a_pairing_affine G ?ad ?h out P Q, a_pairing_proj G ?ad ?h out P Q,
      a_pairing_pp_apply G ?ad ?h out Q (a_pairing_pp_init ?ad P)}"
    | "x \<in> {a_pairing_ellnet G ?ad ?r ?h out P Q,
        a_pairing_ellnet_pp_apply G ?ad ?r ?h out Q (a_pairing_ellnet_pp_init G ?ad ?r P)}"
    using x unfolding q3 a_values_def prod.case by blast
  then show ?thesis
  proof cases
    case 1
    from pairing_power [OF o(1,2) cdp p(1,4,5,7,6) o(3-5) this]
    show ?thesis unfolding q3 pairing_value_def prod.case by blast
  next
    case 2
    from ellnet_power [OF o(1,2) cdp p(2,3,4,5,6) o(3-6) p(8-11) this]
    show ?thesis unfolding q3 pairing_value_def prod.case by blast
  qed
qed

lemma pairing_run_values:
  assumes init: "pairing_init_a_param G fpz (field_init_naive_fp G) R n p par = Some (p', n')"
    and ok: "a_param_prime G (of_int :: int \<Rightarrow> 'k::comm_ring_1) par"
  shows "\<exists>cdp. a_prime_curve G (par_q par) None cdp \<and>
    (\<forall>cs mem t. calls_type cs (pp_miller, Map.empty) = Some t \<longrightarrow>
       (\<forall>q\<in>set (paired cs mem Map.empty). pair_ok (par_q par) cdp par (of_int :: int \<Rightarrow> 'k) q) \<longrightarrow>
       (\<exists>xs s. pairing_run G \<lparr> ps_pairing = p', ps_mem = mem, ps_pp = Map.empty \<rparr> cs xs s \<and>
          list_all2 (\<lambda>q x. pairing_value cdp par (of_int :: int \<Rightarrow> 'k) q (gauss_val of_int x)) (paired cs mem Map.empty) xs))"
proof -
  obtain cdp where cdp: "a_prime_curve G (par_q par) None cdp"
    "a_table_ok (a_data G cdp (par_r par) (exp2 par) (exp1 par) (sign1 par)) (par_r par) (par_h par) pp_miller p'"
    using pairing_init_a_table [OF init] by blast
  show ?thesis
  proof (rule exI, rule conjI [OF cdp(1)], intro allI impI)
    fix cs mem t
    assume t: "calls_type cs (pp_miller, Map.empty) = Some t"
      and pairs: "\<forall>q\<in>set (paired cs mem Map.empty). pair_ok (par_q par) cdp par (of_int :: int \<Rightarrow> 'k) q"
    let ?ad = "a_data G cdp (par_r par) (exp2 par) (exp1 par) (sign1 par)"
    let ?s = "\<lparr> ps_pairing = p', ps_mem = mem, ps_pp = Map.empty \<rparr>"
    have "a_state_ok G ?ad (par_r par) (par_h par) (pp_miller, Map.empty) Map.empty ?s"
      using cdp(2) by (simp add: a_state_ok_def)
    from run_sound [OF t this] obtain xs s where run: "pairing_run G ?s cs xs s"
      "list_all2 (\<lambda>q x. x \<in> a_values G ?ad (par_r par) (par_h par) q) (paired cs mem Map.empty) xs"
      unfolding pairing_state.simps by blast
    have "list_all2 (\<lambda>q x. pairing_value cdp par (of_int :: int \<Rightarrow> 'k) q (gauss_val of_int x)) (paired cs mem Map.empty) xs"
      by (rule list.rel_mono_strong [OF run(2)]) (use a_values_value [OF ok cdp(1)] pairs in blast)
    with run(1) show "\<exists>xs s. pairing_run G ?s cs xs s \<and>
        list_all2 (\<lambda>q x. pairing_value cdp par (of_int :: int \<Rightarrow> 'k) q (gauss_val of_int x)) (paired cs mem Map.empty) xs"
      by blast
  qed
qed

section \<open>The test for Diffie-Hellman tuples\<close>

context fi_ring
begin

lemma fi_ring_impl: "ring_impl (field_init_fi G B) (fq_pairs V) (gauss_val \<alpha>)"
  by unfold_locales

end

lemma a_values_in:
  assumes ok: "a_param_prime G (of_int :: int \<Rightarrow> 'k::comm_ring_1) par" and cdp: "a_prime_curve G (par_q par) nq cdp"
    and q: "pair_ok (par_q par) cdp par (of_int :: int \<Rightarrow> 'k) (out, P, Q)"
    and x: "x \<in> {a_pairing_affine G (a_data G cdp (par_r par) (exp2 par) (exp1 par) (sign1 par)) (par_h par) out P Q,
      a_pairing_proj G (a_data G cdp (par_r par) (exp2 par) (exp1 par) (sign1 par)) (par_h par) out P Q}"
  shows "x \<in> fq_pairs {0..<par_q par}"
proof -
  have o: "fp_prime_env G (par_q par) (of_int :: int \<Rightarrow> 'k)" "par_q par mod 4 = 3" "0 \<le> par_h par"
    using ok by (simp_all add: a_param_prime_def)
  have p: "P \<in> curve_points cdp {0..<par_q par} (of_int :: int \<Rightarrow> 'k)"
    "pt_x Q \<in> {0..<par_q par}" "pt_y Q \<in> {0..<par_q par}"
    "a_generic (of_int :: int \<Rightarrow> 'k) cdp (exp2 par) (exp1 par) P Q" "out \<in> fq_pairs {0..<par_q par}"
    using q unfolding pair_ok_def prod.case by blast+
  show ?thesis
    by (rule a_miller.pairings_value [OF fp_prime_env.a_miller_prime [OF o(1) cdp o(2)] p(1,2,3,4,5) o(3), of "sign1 par" "par_r par"])
      (use x in blast)
qed

lemma coddh_value:
  assumes ok: "a_param_prime G (of_int :: int \<Rightarrow> 'k::comm_ring_1) par" and cdp: "a_prime_curve G (par_q par) None cdp"
    and tab: "a_table_ok (a_data G cdp (par_r par) (exp2 par) (exp1 par) (sign1 par)) (par_r par) (par_h par) pp_miller p"
    and q: "pair_ok (par_q par) cdp par (of_int :: int \<Rightarrow> 'k) (\<lparr> fq_x = 0, fq_y = 0 \<rparr>, a, d)"
      "pair_ok (par_q par) cdp par (of_int :: int \<Rightarrow> 'k) (\<lparr> fq_x = 0, fq_y = 0 \<rparr>, b, c)"
  shows "\<exists>z0 z1. pairing_value cdp par (of_int :: int \<Rightarrow> 'k) (\<lparr> fq_x = 0, fq_y = 0 \<rparr>, a, d) z0 \<and>
    pairing_value cdp par (of_int :: int \<Rightarrow> 'k) (\<lparr> fq_x = 0, fq_y = 0 \<rparr>, b, c) z1 \<and>
    generic_is_almost_coddh G p a b c d = Some (if z0 = z1 \<or> z0 * z1 = 1 then 1 else 0)"
proof -
  let ?ad = "a_data G cdp (par_r par) (exp2 par) (exp1 par) (sign1 par)"
  let ?F = "field_init_fi G (cv_field cdp)" and ?W = "fq_pairs {0..<par_q par}"
  have init: "element_init ?F = \<lparr> fq_x = 0, fq_y = 0 \<rparr>"
    using cdp by (simp add: a_prime_curve_def element_init_def field_init_fi_def fq_init_def field_init_naive_fp_def
        naive_fp_base_def zp_init_def)
  have F: "pg_data p = ?ad" using tab by (simp add: a_table_ok_def)
  define route where "route = (if pg_map p = map_proj then a_pairing_proj G ?ad (par_h par) else a_pairing_affine G ?ad (par_h par))"
  have map: "bilinear_map G p out P Q = Some (route out P Q)" for out P Q
    using tab by (auto simp: a_table_ok_def bilinear_map_def route_def)
  have route_in: "route out P Q \<in> {a_pairing_affine G ?ad (par_h par) out P Q, a_pairing_proj G ?ad (par_h par) out P Q}" for out P Q
    by (simp add: route_def)
  have among: "route out P Q \<in> a_values G ?ad (par_r par) (par_h par) (out, P, Q)" for out P Q
    unfolding a_values_def prod.case using route_in by blast
  have o: "fp_prime_env G (par_q par) (of_int :: int \<Rightarrow> 'k)" "par_q par mod 4 = 3"
    using ok by (simp_all add: a_param_prime_def)
  have "pairing_base (cv_field cdp) {0..<par_q par} (of_int :: int \<Rightarrow> 'k) G"
    by (rule a_miller.axioms(1) [OF fp_prime_env.a_miller_prime [OF o(1) cdp o(2)]])
  then have "ring_impl (cv_field cdp) {0..<par_q par} (of_int :: int \<Rightarrow> 'k)"
    by (simp add: pairing_base_def fi_field_def field_gmp_def field_impl_def)
  then have R: "ring_impl ?F ?W (gauss_val (of_int :: int \<Rightarrow> 'k))"
    by (intro fi_ring.fi_ring_impl fi_ring.intro)
  let ?x0 = "route \<lparr> fq_x = 0, fq_y = 0 \<rparr> a d" and ?x1 = "route \<lparr> fq_x = 0, fq_y = 0 \<rparr> b c"
  have in': "?x0 \<in> ?W" "?x1 \<in> ?W"
    using a_values_in [OF ok cdp q(1) route_in] a_values_in [OF ok cdp q(2) route_in] by blast+
  have val: "pairing_value cdp par (of_int :: int \<Rightarrow> 'k) (\<lparr> fq_x = 0, fq_y = 0 \<rparr>, a, d) (gauss_val of_int ?x0)"
    "pairing_value cdp par (of_int :: int \<Rightarrow> 'k) (\<lparr> fq_x = 0, fq_y = 0 \<rparr>, b, c) (gauss_val of_int ?x1)"
    by (rule a_values_value [OF ok cdp q(1) among], rule a_values_value [OF ok cdp q(2) among])
  have mul_in: "element_mul ?F ?x0 ?x0 ?x1 \<in> ?W"
    by (rule magma_impl.mul_in [OF monoid_impl.axioms(1) [OF ring_impl.axioms(1) [OF R]] in'(1) in'])
  have cmp: "element_cmp ?F ?x0 ?x1 = 0 \<longleftrightarrow> gauss_val (of_int :: int \<Rightarrow> 'k) ?x0 = gauss_val of_int ?x1"
    by (rule ring_impl.cmp [OF R in'])
  have "element_is1 ?F (element_mul ?F ?x0 ?x0 ?x1) = 0 \<longleftrightarrow> gauss_val (of_int :: int \<Rightarrow> 'k) (element_mul ?F ?x0 ?x0 ?x1) \<noteq> 1"
    by (rule ring_impl.is1 [OF R mul_in])
  then have is1: "element_is1 ?F (element_mul ?F ?x0 ?x0 ?x1) = 0 \<longleftrightarrow>
      gauss_val (of_int :: int \<Rightarrow> 'k) ?x0 * gauss_val of_int ?x1 \<noteq> 1"
    unfolding monoid_impl.mul [OF ring_impl.axioms(1) [OF R] in'(1) in'] .
  have "generic_is_almost_coddh G p a b c d =
      Some (if gauss_val (of_int :: int \<Rightarrow> 'k) ?x0 = gauss_val of_int ?x1 \<or> gauss_val (of_int :: int \<Rightarrow> 'k) ?x0 * gauss_val of_int ?x1 = 1 then 1 else 0)"
    unfolding generic_is_almost_coddh_def F a_data_simps init map Let_def option.case cmp is1 not_not by auto
  then show ?thesis using val by blast
qed

end
