(* ===== verification/APairing59.thy ===== *)
theory APairing59
  imports APairingPrime
begin

text \<open>
  A small instance of the pairing of type A: the curve \<open>y^2 = x^3 + x\<close> over the integers modulo
  59 has 60 points; the subgroup of order \<open>5 = 2^2 + 2^1 - 1\<close> has the cofactor 12.
\<close>

lemma of_int_59: "of_int i = (0::59) \<longleftrightarrow> 59 dvd i"
proof -
  have "of_int i = (0::59) \<longleftrightarrow> of_int i = (of_int 0 :: 59)" by simp
  also have "\<dots> \<longleftrightarrow> i mod 59 = 0 mod 59"
    unfolding bit1.of_int_eq
    by (simp only: bit1.Rep_inject_sym bit1.Rep_Abs_mod) simp
  finally show ?thesis by (simp add: dvd_eq_mod_eq_0)
qed

lemma is_prime_59: "is_prime 59"
  by (rule is_prime_code, simp) code_simp

interpretation fp59: fp_prime_env gmp_ref 59 "of_int :: int \<Rightarrow> 59"
  by unfold_locales (simp_all add: of_int_59 is_prime_59)

definition cdp59 :: "int curve_data" where
  "cdp59 = (let inf = \<lparr> inf_flag = 1, pt_x = 0, pt_y = 0 \<rparr>
     in \<lparr> cv_field = (field_init_naive_fp gmp_ref 59)\<lparr>f_nqr := None\<rparr>, cv_a = 1, cv_b = 0,
          cv_gen = inf, cv_gen_no_cofac = inf, cv_cofac = Some 12 \<rparr>)"

lemma cdp59_prime: "a_prime_curve gmp_ref 59 None cdp59"
  by (simp add: a_prime_curve_def cdp59_def Let_def)

interpretation a59: a_miller cdp59 "{0..<59}" "of_int :: int \<Rightarrow> 59" gmp_ref 5 2 1 1
  using fp59.a_miller_prime [OF cdp59_prime] by simp

definition pt59 :: "int \<Rightarrow> int \<Rightarrow> int point" where
  "pt59 x y = \<lparr> inf_flag = 0, pt_x = x, pt_y = y \<rparr>"

lemma pt59_simps [simp]: "inf_flag (pt59 x y) = 0" "pt_x (pt59 x y) = x" "pt_y (pt59 x y) = y"
  by (simp_all add: pt59_def)

lemma doubles59:
  "curve_set cdp59 (curve_init cdp59) (pt59 25 29) = pt59 25 29"
  "curve_double cdp59 (pt59 25 29) (pt59 25 29) = pt59 35 28"
  "curve_double cdp59 (pt59 35 28) (pt59 35 28) = pt59 25 30"
  by code_simp+

lemma a_doubles59:
  "a_doubles cdp59 (pt59 25 29) 0 = pt59 25 29" "a_doubles cdp59 (pt59 25 29) (Suc 0) = pt59 35 28"
  "a_doubles cdp59 (pt59 25 29) 2 = pt59 25 30"
  by (simp_all add: a_doubles_def doubles59 numeral_2_eq_2)

lemma point59: "pt59 25 29 \<in> curve_points cdp59 {0..<59} (of_int :: int \<Rightarrow> 59)"
proof -
  have "(of_int (29 * 29 - (25 * 25 + 1) * 25) :: 59) = 0" by (simp only: of_int_59) simp
  then show ?thesis
    by (simp add: curve_points_def cdp59_def pt_val_def Let_def algebra_simps)
qed

lemma all_less_two: "(\<forall>j<2. Q j) \<longleftrightarrow> Q 0 \<and> Q (Suc 0)"
  by (auto simp: less_2_cases_iff)

lemma generic59: "a_generic (of_int :: int \<Rightarrow> 59) cdp59 2 1 (pt59 25 29) (pt59 25 29)"
proof -
  have nz: "(of_int 29 :: 59) \<noteq> 0" "(of_int 28 :: 59) \<noteq> 0" "(of_int (25 - 35) :: 59) \<noteq> 0"
    by (simp_all only: of_int_59) simp_all
  have "(of_int 25 :: 59) \<noteq> of_int 35" using nz(3) by (simp only: of_int_diff) simp
  moreover have "nat 1 + (nat 2 - nat 1) = 2" "nat 1 = Suc 0" by simp_all
  ultimately show ?thesis
    using nz(1,2) unfolding a_generic_def Let_def
    by (simp only: all_less_two a_doubles59 pt59_simps) simp
qed

end
