(* ===== verification/AEllnet59.thy ===== *)
theory AEllnet59
  imports AEllnetPrime APairing59
begin

text \<open>
  The net on the curve of \<open>APairing59\<close>: the terms are computed over the integers and reduced.
\<close>

definition gint :: "int gauss \<Rightarrow> 'k::comm_ring_1 gauss" where
  "gint u = Gauss (of_int (re_part u)) (of_int (im_part u))"

lemma gint_simps: "gint (u + v) = gint u + gint v" "gint (u - v) = gint u - gint v" "gint (u * v) = gint u * gint v"
  "gint (gbase a) = gbase (of_int a)" "gint (Gauss a b) = Gauss (of_int a) (of_int b)" "gint 1 = 1"
  by (simp_all add: gint_def gauss_eq_iff)

lemma ell_seq_of_int: "ell_seq (of_int x) (of_int y) (of_int c) n = (of_int (ell_seq x y c n) :: 'k::comm_ring_1)"
proof (induction x y c n rule: ell_seq.induct)
  case (1 x y c n)
  then show ?case
    by (subst (1 2) ell_seq.simps) (simp add: Let_def)
qed

lemma ell_term_of_int: "ell_term (of_int x) (of_int y) (of_int c) i = (of_int (ell_term x y c i) :: 'k::comm_ring_1)"
  by (simp add: ell_term_def ell_seq_of_int)

lemma ell_net_of_int:
  "ell_net (\<lambda>i. of_int (W i)) (gint A) (gint Bv) (gint D) n =
    (case ell_net W A Bv D n of (m, z, p) \<Rightarrow> (gint m, gint z, (gint p :: 'k::comm_ring_1 gauss)))"
proof (induction n rule: less_induct)
  case (less n)
  show ?case
  proof (cases "n \<le> 1")
    case True
    then show ?thesis by (simp add: ell_net.simps [of _ _ _ _ n] gint_simps)
  next
    case False
    obtain m z p where "ell_net W A Bv D (n div 2) = (m, z, p)" by (cases "ell_net W A Bv D (n div 2)") auto
    then show ?thesis using False less.IH [of "n div 2"]
      by (subst (1 2) ell_net.simps) (simp add: net_step_def Let_def gint_simps)
  qed
qed

lemma net59: "re_part (snd (snd (ell_net (ell_term 25 29 (- 1)) (gbase 13) (Gauss 25 55) (net_d2 25 29 25 29 13) 5))) mod 59 = (26 :: int)"
  by code_simp

lemma one_59: "of_int i = (1::59)" if "i mod 59 = 1" for i
proof -
  have "59 dvd i - 1" using that by presburger
  then have "of_int (i - 1) = (0::59)" by (simp only: of_int_59)
  then show ?thesis by simp
qed

lemma den59: "net_den (of_int 25) (of_int 29) (of_int 25) (of_int 29 :: 59) * gint (Gauss 25 55) = 1"
proof -
  have net: "net_den (of_int 25) (of_int 29) (of_int 25) (of_int 29 :: 59) = gint (net_den 25 29 25 29)"
    by (simp add: net_den_def gint_simps)
  have "net_den 25 29 25 29 * Gauss 25 55 = Gauss (1655010::int) 3395450"
    by (simp add: net_den_def gauss_eq_iff)
  then have "gint (net_den 25 29 25 29 * Gauss 25 55) = Gauss (of_int 1655010) (of_int 3395450 :: 59)"
    by (simp only: gint_simps(5))
  moreover have "of_int 3395450 = (0::59)" by (simp only: of_int_59) simp
  ultimately show ?thesis unfolding net gint_simps(3) [symmetric] using one_59 [of 1655010] by (simp only: gauss_eq_iff) simp
qed

lemma general59:
  "2 * of_int 29 \<noteq> (0::59)" "of_int 25 + of_int 25 \<noteq> (0::59)"
  "net_den (of_int 25) (of_int 29) (of_int 25) (of_int 29 :: 59) \<noteq> 0"
proof -
  have "of_int 58 \<noteq> (0::59)" "of_int 50 \<noteq> (0::59)" by (simp_all only: of_int_59) simp_all
  then show "2 * of_int 29 \<noteq> (0::59)" "of_int 25 + of_int 25 \<noteq> (0::59)" by simp_all
  have "(0 :: 59 gauss) \<noteq> 1" by (simp add: gauss_eq_iff)
  then show "net_den (of_int 25) (of_int 29) (of_int 25) (of_int 29 :: 59) \<noteq> 0" using den59 by (metis mult_zero_left)
qed

lemma net59_nonzero: "\<not> ellnet_value (of_int 25) (of_int 29) (of_int 25) (of_int 29) 5 (0 :: 59 gauss)"
proof
  define D :: "int gauss" where "D = snd (snd (ell_net (ell_term 25 29 (- 1)) (gbase 13) (Gauss 25 55) (net_d2 25 29 25 29 13) 5)) "
  have cab: "of_int (- 1) * (2 * of_int 29) = (1::59)" "(of_int 25 + of_int 25) * of_int 13 = (1::59)"
    using one_59 [of "- 58"] one_59 [of 650] by simp_all
  have net: "net_d2 (of_int 25) (of_int 29) (of_int 25) (of_int 29) (of_int 13 :: 59) = gint (net_d2 25 29 25 29 13)"
    by (simp add: net_d2_def gint_simps)
  have "ellnet_value (of_int 25) (of_int 29) (of_int 25) (of_int 29 :: 59) 5 (gint D)"
    unfolding ellnet_value_def
  proof (intro exI conjI)
    show "gint D = snd (snd (ell_net (ell_term (of_int 25) (of_int 29) (of_int (- 1))) (gbase (of_int 13)) (gint (Gauss 25 55))
        (net_d2 (of_int 25) (of_int 29) (of_int 25) (of_int 29) (of_int 13 :: 59)) 5))"
      unfolding net gint_simps(4) [symmetric] ell_term_of_int ell_net_of_int D_def by (simp add: case_prod_unfold)
  qed (fact cab den59)+
  moreover assume "ellnet_value (of_int 25) (of_int 29) (of_int 25) (of_int 29) 5 (0 :: 59 gauss)"
  ultimately have "gint D = (0 :: 59 gauss)" by (rule ellnet_value_unique)
  then have "of_int (re_part D) = (0::59)" unfolding gint_def by (simp add: gauss_eq_iff)
  then have "59 dvd re_part D" by (simp only: of_int_59)
  then show False using net59 unfolding D_def by (simp add: dvd_eq_mod_eq_0)
qed

end
