(* ===== verification/AValue59.thy ===== *)
theory AValue59
  imports AEllnet59
begin

text \<open>
  The pairing of a point of \<open>APairing59\<close> with itself, evaluated: the product of the lines over the
  integers, reduced, and its power by repeated multiplication.
\<close>

definition red59 :: "int gauss \<Rightarrow> int gauss" where
  "red59 u = Gauss (re_part u mod 59) (im_part u mod 59)"

lemma mod_59: "of_int (i mod 59) = (of_int i :: 59)"
proof -
  have "59 dvd i mod 59 - i" by (simp add: mod_eq_dvd_iff [symmetric])
  then have "of_int (i mod 59 - i) = (0::59)" by (simp only: of_int_59)
  then show ?thesis by simp
qed

lemma gint_red59: "gint (red59 u) = (gint u :: 59 gauss)"
  by (simp add: gint_def red59_def mod_59)

primrec power59 :: "int gauss \<Rightarrow> nat \<Rightarrow> int gauss" where
  "power59 u 0 = 1"
| "power59 u (Suc n) = red59 (u * power59 u n)"

lemma gint_power59: "gint (power59 u n) = (gint u ^ n :: 59 gauss)"
  by (induction n) (simp_all add: gint_red59 gint_simps)

lemma power59_mult: "(gint u ^ (m * n) :: 59 gauss) = gint (power59 (power59 u m) n)"
  by (simp add: gint_power59 power_mult)

lemma gint_inj: "(gint u :: 59 gauss) = gint v \<longleftrightarrow> red59 u = red59 v"
proof -
  have eq: "(of_int i :: 59) = of_int j \<longleftrightarrow> i mod 59 = j mod 59" for i j
    using of_int_59 [of "i - j"] by (simp add: mod_eq_dvd_iff)
  show ?thesis by (simp add: gint_def red59_def gauss_eq_iff eq)
qed

text \<open>The lines at \<open>P\<close>, \<open>2 P\<close> and the last one, for \<open>P = (25, 29)\<close>.\<close>

definition lines59 :: "int gauss" where
  "lines59 = (let F1 = tangent_at 25 29 25 29; F2 = F1 * F1 * tangent_at 35 28 25 29
     in F2 * F1 * chord_at 25 30 35 28 25 29)"

lemma power_lines59: "power59 (power59 (power59 lines59 58) 4) 3 = Gauss 42 40"
  by code_simp

lemma line_of_int:
  "tangent_at (of_int x) (of_int y) (of_int X) (of_int Y) = (gint (tangent_at x y X Y) :: 'k::comm_ring_1 gauss)"
  "chord_at (of_int x) (of_int y) (of_int x1) (of_int y1) (of_int X) (of_int Y) =
    (gint (chord_at x y x1 y1 X Y) :: 'k::comm_ring_1 gauss)"
  by (simp_all add: tangent_at_def chord_at_def Let_def gint_simps)

lemma product59:
  assumes "miller_product (of_int :: int \<Rightarrow> 59) cdp59 2 1 1 (pt59 25 29) (pt59 25 29) M"
  shows "M = gint lines59"
proof -
  have n: "nat 1 = Suc 0" "Suc 0 + (nat 2 - Suc 0) = Suc (Suc 0)" by simp_all
  have two: "a_doubles cdp59 (pt59 25 29) (Suc (Suc 0)) = pt59 25 30"
    using a_doubles59(3) by (simp add: numeral_2_eq_2)
  have 1: "miller_value (of_int :: int \<Rightarrow> 59) cdp59 (pt59 25 29) (pt59 25 29) (Suc 0) = gint (tangent_at 25 29 25 29)"
    by (simp only: miller_value.simps a_doubles59 pt59_simps line_of_int) simp
  have "M = miller_value (of_int :: int \<Rightarrow> 59) cdp59 (pt59 25 29) (pt59 25 29) (Suc (Suc 0)) * gint (tangent_at 25 29 25 29) *
      gint (chord_at 25 30 35 28 25 29)"
    using assms unfolding miller_product_def Let_def
    by (simp only: n 1 two a_doubles59 pt59_simps line_of_int not_one_less_zero if_False simp_thms)
  then show ?thesis
    by (simp only: miller_value.simps(2) [of _ _ _ _ "Suc 0"] 1 a_doubles59 pt59_simps line_of_int lines59_def Let_def gint_simps)
qed

lemma gauss_power59:
  assumes "miller_product (of_int :: int \<Rightarrow> 59) cdp59 2 1 1 (pt59 25 29) (pt59 25 29) M"
  shows "M ^ (nat 58 * nat 12) = gint (Gauss 42 40)"
proof -
  have "nat 58 * nat 12 = 58 * 4 * 3" by simp
  then have "M ^ (nat 58 * nat 12) = ((M ^ 58) ^ 4) ^ 3" by (simp only: power_mult)
  also have "\<dots> = gint (power59 (power59 (power59 lines59 58) 4) 3)"
    unfolding product59 [OF assms] gint_power59 ..
  finally show ?thesis unfolding power_lines59 .
qed

end
