(* ===== verification/APairingProps.thy ===== *)
theory APairingProps
  imports AValue59
begin

text \<open>
  The properties of the pairing of type A: the Miller loops of \<^verbatim>\<open>ecc/a_param.c\<close> return the same
  value, the power \<open>(q - 1) h\<close> of the product of the lines, the nets such a power of one of their
  terms, and the order of both divides \<open>r\<close>.
\<close>

text \<open>C4: The three methods of the pairing of type A return the same value: the loop in projective
  coordinates, whose lines differ by factors of the base field, and the loop with preprocessing
  agree with the loop in affine coordinates, for inputs in general position.\<close>

theorem a_pairing_methods_agree:
  assumes M: "a_miller cdp V (\<alpha> :: 'a \<Rightarrow> 'k::comm_ring_1) G"
    and "P \<in> curve_points cdp V \<alpha>" "pt_x Q \<in> V" "pt_y Q \<in> V" "a_generic \<alpha> cdp e2 e1 P Q"
    and "out \<in> fq_pairs V" "0 \<le> h"
  shows "let ad = a_data G cdp order e2 e1 s1; X = a_pairing_affine G ad h out P Q in
    gauss_val \<alpha> (a_pairing_proj G ad h out P Q) = gauss_val \<alpha> X \<and>
    gauss_val \<alpha> (a_pairing_pp_apply G ad h out Q (a_pairing_pp_init ad P)) = gauss_val \<alpha> X"
  using a_miller.pairings_value [OF assms, of s1 order] unfolding Let_def by (metis insertCI)

lemma a_pairing_methods_agree_witness:
  "let ad = a_data gmp_ref cdp59 5 2 1 1; P = pt59 25 29; out = \<lparr> fq_x = 0, fq_y = 0 \<rparr>;
       X = a_pairing_affine gmp_ref ad 12 out P P in
    gauss_val (of_int :: int \<Rightarrow> 59) (a_pairing_proj gmp_ref ad 12 out P P) = gauss_val of_int X \<and>
    gauss_val (of_int :: int \<Rightarrow> 59) (a_pairing_pp_apply gmp_ref ad 12 out P (a_pairing_pp_init ad P)) = gauss_val of_int X"
  using a_pairing_methods_agree [OF a59.a_miller_axioms point59 _ _ generic59,
      of "\<lparr> fq_x = 0, fq_y = 0 \<rparr>" 12 5 1] by (simp add: Let_def)

text \<open>C3: For \<open>q = 3 mod 4\<close> the value of the pairing of type A is the power \<open>(q - 1) h\<close> of the
  product of the lines, and its \<open>r\<close>-th power is 1, where \<open>q + 1 = r h\<close> with an even cofactor
  \<open>h\<close>.\<close>

theorem a_pairing_order:
  assumes F: "fp_prime_env G q (of_int :: int \<Rightarrow> 'k::comm_ring_1)" and q: "q mod 4 = 3"
    and cdp: "a_prime_curve G q nq cdp" and P: "P \<in> curve_points cdp {0..<q} (of_int :: int \<Rightarrow> 'k)"
    and Q: "pt_x Q \<in> {0..<q}" "pt_y Q \<in> {0..<q}" and g: "a_generic (of_int :: int \<Rightarrow> 'k) cdp e2 e1 P Q"
    and out: "out \<in> fq_pairs {0..<q}" and h: "0 \<le> h" "even h" and r: "r * h = q + 1"
    and X_in: "X \<in> {a_pairing_affine G (a_data G cdp order e2 e1 s1) h out P Q,
      a_pairing_proj G (a_data G cdp order e2 e1 s1) h out P Q,
      a_pairing_pp_apply G (a_data G cdp order e2 e1 s1) h out Q (a_pairing_pp_init (a_data G cdp order e2 e1 s1) P)}"
  shows "\<exists>M :: 'k gauss. miller_product of_int cdp e2 e1 s1 P Q M \<and>
    gauss_val of_int X = M ^ (nat (q - 1) * nat h) \<and> gauss_val (of_int :: int \<Rightarrow> 'k) X ^ nat r = 1"
  by (rule pairing_power [OF assms])

lemma a_pairing_order_witness:
  "let ad = a_data gmp_ref cdp59 5 2 1 1; P = pt59 25 29; X = a_pairing_proj gmp_ref ad 12 \<lparr> fq_x = 0, fq_y = 0 \<rparr> P P in
    gauss_val (of_int :: int \<Rightarrow> 59) X = Gauss (of_int 42) (of_int 40) \<and> gauss_val (of_int :: int \<Rightarrow> 59) X ^ nat 5 = 1"
proof -
  let ?X = "a_pairing_proj gmp_ref (a_data gmp_ref cdp59 5 2 1 1) 12 \<lparr> fq_x = 0, fq_y = 0 \<rparr> (pt59 25 29) (pt59 25 29)"
  obtain M :: "59 gauss" where "miller_product of_int cdp59 2 1 1 (pt59 25 29) (pt59 25 29) M"
    "gauss_val of_int ?X = M ^ (nat 58 * nat 12)" "gauss_val (of_int :: int \<Rightarrow> 59) ?X ^ nat 5 = 1"
    using a_pairing_order [OF fp59.fp_prime_env_axioms _ cdp59_prime point59 _ _ generic59,
      of "\<lparr> fq_x = 0, fq_y = 0 \<rparr>" 12 5 ?X 5 1] by auto
  then show ?thesis using gauss_power59 by (simp only: gint_simps Let_def)
qed

text \<open>C5: The pairing by elliptic nets, with and without preprocessing, returns the power \<open>(q - 1) h\<close>
  of the term \<open>d_{r+1}\<close> of the net that the doubling formulas define, and its \<open>r\<close>-th power is 1.\<close>

theorem a_pairing_ellnet_correct:
  assumes F: "fp_prime_env G q (of_int :: int \<Rightarrow> 'k::comm_ring_1)" and q: "q mod 4 = 3"
    and cdp: "a_prime_curve G q nq cdp" and P: "pt_x P \<in> {0..<q}" "pt_y P \<in> {0..<q}"
    and Q: "pt_x Q \<in> {0..<q}" "pt_y Q \<in> {0..<q}" and out: "out \<in> fq_pairs {0..<q}"
    and h: "0 \<le> h" "even h" and r: "r * h = q + 1" "2 \<le> r"
    and y: "2 * of_int (pt_y P) \<noteq> (0::'k)" and x: "of_int (pt_x P) + of_int (pt_x Q) \<noteq> (0::'k)"
    and den: "net_den (of_int (pt_x P)) (of_int (pt_y P)) (of_int (pt_x Q)) (of_int (pt_y Q) :: 'k) \<noteq> 0"
    and nz: "\<not> ellnet_value (of_int (pt_x P)) (of_int (pt_y P)) (of_int (pt_x Q)) (of_int (pt_y Q) :: 'k) (nat r) 0"
    and X_in: "X \<in> {a_pairing_ellnet G (a_data G cdp order e2 e1 s1) r h out P Q,
      a_pairing_ellnet_pp_apply G (a_data G cdp order e2 e1 s1) r h out Q
        (a_pairing_ellnet_pp_init G (a_data G cdp order e2 e1 s1) r P)}"
  shows "\<exists>M :: 'k gauss. ellnet_value (of_int (pt_x P)) (of_int (pt_y P)) (of_int (pt_x Q)) (of_int (pt_y Q)) (nat r) M \<and>
    gauss_val of_int X = M ^ (nat (q - 1) * nat h) \<and> gauss_val (of_int :: int \<Rightarrow> 'k) X ^ nat r = 1"
  by (rule ellnet_power [OF assms])

lemma a_pairing_ellnet_correct_witness:
  "let ad = a_data gmp_ref cdp59 5 2 1 1; P = pt59 25 29; X = a_pairing_ellnet gmp_ref ad 5 12 \<lparr> fq_x = 0, fq_y = 0 \<rparr> P P in
    (\<exists>M :: 59 gauss. ellnet_value (of_int 25) (of_int 29) (of_int 25) (of_int 29) 5 M \<and>
       gauss_val of_int X = M ^ (nat 58 * nat 12)) \<and>
    gauss_val (of_int :: int \<Rightarrow> 59) X ^ nat 5 = 1"
  using a_pairing_ellnet_correct [OF fp59.fp_prime_env_axioms _ cdp59_prime, of "pt59 25 29" "pt59 25 29"
      "\<lparr> fq_x = 0, fq_y = 0 \<rparr>" 12 5
      "a_pairing_ellnet gmp_ref (a_data gmp_ref cdp59 5 2 1 1) 5 12 \<lparr> fq_x = 0, fq_y = 0 \<rparr> (pt59 25 29) (pt59 25 29)" 5 2 1 1]
    general59 net59_nonzero
  by (auto simp: Let_def simp del: of_int_numeral)

end
