(* ===== verification/PairingProps.thy ===== *)
theory PairingProps
  imports PairingValue APairingProps
begin

text \<open>
  The properties of the table of a pairing: its initialisation from text and from the built-in
  parameters, the calls through it, and the parameters of type A.
\<close>

section \<open>An instance\<close>

lemma zero_draw:
  assumes "1 < q" "cv_field cdp = field_init_naive_fp gmp_ref q" "cv_a cdp = 1" "cv_b cdp = 0"
  shows "curve_make_gen gmp_ref cdp order (\<lambda>i l. 0) n \<noteq> None"
proof -
  have r: "element_random (cv_field cdp) (\<lambda>i l. 0) n x = (0, n + 1)" for n x
    by (simp add: assms(2) element_random_def field_init_naive_fp_def naive_fp_base_def zp_random_def)
  have t: "curve_rhs (cv_field cdp) t 0 (cv_a cdp) (cv_b cdp) = 0" for t
    using assms(1)
    by (simp add: assms(2-4) curve_rhs_def Let_def element_square_def element_add_def element_mul_def field_init_naive_fp_def
        naive_fp_base_def zp_square_def zp_add_def zp_mul_def gmp_ref_def mod_pos_pos_trivial)
  have s: "element_is_sqr (cv_field cdp) 0 \<noteq> 0"
    by (simp add: assms(2) element_is_sqr_def field_init_naive_fp_def naive_fp_base_def zp_is_sqr_def mpz_is0_def gmp_ref_def)
  have "solvefory_loop cdp (\<lambda>i l. 0) n x t = Some (0, 0, n + 1)" for x t
    by (subst solvefory_loop.simps) (simp add: r t s)
  then show ?thesis
    by (simp add: curve_make_gen_def curve_random_no_cofac_solvefory_def Let_def split: option.splits)
qed

lemma zero_draw_init:
  assumes "1 < par_q par"
  shows "\<exists>p' n'. pairing_init_a_param gmp_ref fpz (field_init_naive_fp gmp_ref) (\<lambda>i l. 0) n p par = Some (p', n')"
proof -
  have "field_init_curve_ab gmp_ref (\<lambda>i l. 0) n (field_init_naive_fp gmp_ref (par_q par)) 1 0 (par_r par) (Some (par_h par)) \<noteq> None"
    unfolding field_init_curve_ab_def using zero_draw [OF assms] by (simp add: Let_def naive_fp_constants)
  then show ?thesis
    by (auto simp: pairing_init_a_param_def Let_def naive_fp_constants split: option.splits)
qed

text \<open>A pairing before it is initialised.\<close>

definition pairing0 :: "(int, int) pairing_s" where
  "pairing0 = (let F = field_init_naive_fp gmp_ref 5; E = curve_table gmp_ref \<lparr> cv_field = F, cv_a = 0, cv_b = 0,
       cv_gen = \<lparr> inf_flag = 1, pt_x = 0, pt_y = 0 \<rparr>, cv_gen_no_cofac = \<lparr> inf_flag = 1, pt_x = 0, pt_y = 0 \<rparr>, cv_cofac = None \<rparr> 1
     in \<lparr> pg_r = 0, pg_Zr = F, pg_G1 = group_unset, pg_G2 = group_unset, pg_GT = group_unset, pg_phikonr = 0,
          pg_phi = phi_unset, pg_map = map_unset, pg_is_almost_coddh = coddh_unset, pg_pp_init = pp_unset,
          pg_pp_clear = pp_unset, pg_pp_apply = pp_unset, pg_option_set = option_unset,
          pg_data = \<lparr> ad_Fq = F, ad_Fq2 = field_init_fi gmp_ref F, ad_Eq = E, ad_exp2 = 0, ad_exp1 = 0, ad_sign1 = 0 \<rparr> \<rparr>)"

definition par59 :: a_param where
  "par59 = \<lparr> exp2 = 2, exp1 = 1, sign1 = 1, sign0 = - 1, par_r = 5, par_q = 59, par_h = 12 \<rparr>"

lemma init59:
  obtains p' n' where "pairing_init_a_param gmp_ref (field_init_naive_fp gmp_ref) (field_init_naive_fp gmp_ref) (\<lambda>i l. 0) 0 p par59 = Some (p', n')"
proof -
  have "1 < par_q par59" by (simp add: par59_def)
  then show ?thesis using zero_draw_init that by blast
qed

lemma par59_prime: "a_param_prime gmp_ref (of_int :: int \<Rightarrow> 59) par59"
  using fp59.fp_prime_env_axioms by (simp add: a_param_prime_def par59_def)

lemma a_doubles_cong:
  assumes "cv_field c1 = cv_field c2" "cv_a c1 = cv_a c2"
  shows "a_doubles c1 P n = a_doubles c2 P n"
proof -
  have "curve_double c1 = curve_double c2" "curve_set c1 = curve_set c2" "curve_init c1 = curve_init c2"
    using assms by (simp_all add: fun_eq_iff curve_double_def curve_set_def curve_init_def)
  then show ?thesis by (simp add: a_doubles_def)
qed

lemma pair_ok59:
  assumes "a_prime_curve gmp_ref 59 None cdp"
  shows "pair_ok 59 cdp par59 (of_int :: int \<Rightarrow> 59) (\<lparr> fq_x = 0, fq_y = 0 \<rparr>, pt59 25 29, pt59 25 29)"
proof -
  have eq: "cv_field cdp = cv_field cdp59" "cv_a cdp = cv_a cdp59" "cv_b cdp = cv_b cdp59"
    using assms cdp59_prime by (simp_all add: a_prime_curve_def)
  have "a_generic (of_int :: int \<Rightarrow> 59) cdp 2 1 (pt59 25 29) (pt59 25 29)"
    using generic59 unfolding a_generic_def a_doubles_cong [OF eq(1,2)] .
  moreover have "pt59 25 29 \<in> curve_points cdp {0..<59} (of_int :: int \<Rightarrow> 59)"
    using point59 by (simp add: curve_points_def pt_val_def eq)
  ultimately show ?thesis
    using general59 net59_nonzero by (simp add: pair_ok_def par59_def del: of_int_numeral)
qed

section \<open>Reading parameters\<close>

text \<open>C6: Reading parameters for a pairing is a function of the tokens of the text: for every buffer
  of ASCII characters the reader ends, with the parameters in the table of entries when the type is
  \<open>a\<close>, where missing entries count as 0, and without any routine of a pairing when the text has
  no type.\<close>

theorem pairing_init_reads_text:
  assumes "len \<le> length buf" "ascii (take len buf)"
  shows "pairing_init_inp_buf G IO fpz fpq R n p buf len = init_spec G fpz fpq R n p (param_text IO (take len buf))"
  unfolding pairing_init_inp_buf_def
  by (rule buf.pairing_init_text [OF tracker_init_reads [OF assms(1)] assms(2)])

lemma pairing_init_reads_text_witness:
  "pairing_init_inp_buf gmp_ref gmp_io_ref (field_init_naive_fp gmp_ref) (field_init_naive_fp gmp_ref) (\<lambda>i l. 0) 0 pairing0 ''type #'' 6 = init_done (pairing_set_defaults pairing0) 0 \<and>
    pairing_init_inp_buf gmp_ref gmp_io_ref (field_init_naive_fp gmp_ref) (field_init_naive_fp gmp_ref) (\<lambda>i l. 0) 0 pairing0 ''type b '' 7 = init_exit"
proof -
  have "param_text gmp_io_ref (take 6 ''type #'') = text_short" "param_text gmp_io_ref (take 7 ''type b '') = text_unknown" by code_simp+
  then show ?thesis
    using pairing_init_reads_text [of 6 "''type #''" gmp_ref gmp_io_ref "field_init_naive_fp gmp_ref" "field_init_naive_fp gmp_ref" "\<lambda>i l. 0" 0 pairing0]
      pairing_init_reads_text [of 7 "''type b ''" gmp_ref gmp_io_ref "field_init_naive_fp gmp_ref" "field_init_naive_fp gmp_ref" "\<lambda>i l. 0" 0 pairing0]
    by (simp add: init_spec_def)
qed

text \<open>C7: The parameters of type A written by \<open>a_param_out_str\<close> are read back by
  \<open>a_param_inp_generic\<close>, whatever the structure held before, when the small numbers fit a long.\<close>

theorem a_param_text_roundtrip:
  assumes "gmp_io_laws IO" "small_int (exp2 par)" "small_int (exp1 par)" "small_int (sign1 par)" "small_int (sign0 par)"
  shows "\<exists>ctx. a_param_inp_generic IO p0 fops_buf (tracker_init (a_param_out_str IO par) (length (a_param_out_str IO par))) =
    Some (Some (par, ctx))"
proof -
  have "tracker_reads (tracker_init (a_param_out_str IO par) (length (a_param_out_str IO par))) (a_param_out_str IO par)"
    using tracker_init_reads [of "length (a_param_out_str IO par)" "a_param_out_str IO par"] by simp
  from gmp_io_laws.inp_generic_ok [OF assms(1) buf.fetch_source_axioms this gmp_io_laws.out_str_ascii [OF assms(1)]]
  show ?thesis
    using assms(2-5) by (simp add: gmp_io_laws.out_str_pairs [OF assms(1)])
qed

lemma a_param_text_roundtrip_witness:
  "\<exists>ctx. a_param_inp_generic gmp_io_ref a_param_init fops_buf
    (tracker_init (a_param_out_str gmp_io_ref par59) (length (a_param_out_str gmp_io_ref par59))) = Some (Some (par59, ctx))"
  by (rule a_param_text_roundtrip [OF io_ref.gmp_io_laws_axioms]) (simp_all add: par59_def small_int_def)

section \<open>Generating parameters\<close>

text \<open>C8: The search for parameters of type A returns the first round in which \<open>r\<close> is prime and a
  cofactor is found. What it returns is what the header promises: \<open>r = 2^exp2 \<plusminus> 2^exp1 \<plusminus> 1\<close> with
  \<open>1 \<le> exp1 < exp2\<close> passes the test, \<open>r h = q + 1\<close> with a cofactor divisible by 12, and \<open>q\<close>
  passes the test.\<close>

theorem a_param_gen_correct:
  assumes G: "gmp_laws G" "2 \<le> rbits"
    and "gmp_laws.rounds G pr rand R rbits qbits sp d c k = Some (sp', d', c', True)"
    and "\<forall>j<k. \<exists>t. gmp_laws.rounds G pr rand R rbits qbits sp d c j = Some t \<and> \<not> snd (snd (snd t))"
  shows "a_param_gen G pr rand R sp rbits qbits d c = Some (Some (sp', d', c')) \<and>
    a_param_order pr rbits sp' \<and> a_param_cofactor pr sp'"
proof -
  have run: "a_param_gen_loop G pr rand R rbits qbits sp d c = Some (Some (sp', d', c'))"
    by (rule gmp_laws.a_param_gen_loop_ok [OF G(1) assms(3,4)])
  then show ?thesis using a_param_gen_returns [OF run G] by (simp add: a_param_gen_def)
qed

lemma a_param_gen_correct_witness:
  "let sp' = \<lparr> exp2 = 3, exp1 = 1, sign1 = - 1, sign0 = - 1, par_r = 5, par_q = 59, par_h = 12 \<rparr> in
    a_param_gen gmp_ref is_prime (\<lambda>i. 0) (\<lambda>i l. 1) a_param_init 3 6 0 0 = Some (Some (sp', 3, 1)) \<and>
    a_param_order is_prime 3 sp' \<and> a_param_cofactor is_prime sp'"
proof -
  have 5: "is_prime 5" by (rule is_prime_code, simp) code_simp
  have ten: "find_cofactor G pr R rb qb 10 sp c = find_cofactor G pr R rb qb (Suc 9) sp c" for G pr R rb qb sp c
    by simp
  have "a_param_try gmp_ref is_prime (\<lambda>i. 0) (\<lambda>i l. 1) 3 6 a_param_init 0 0 =
      Some (\<lparr> exp2 = 3, exp1 = 1, sign1 = - 1, sign0 = - 1, par_r = 5, par_q = 59, par_h = 12 \<rparr>, 3, 1, True)"
    using 5 is_prime_59 unfolding a_param_try_def ten find_cofactor.simps(2)
    by (simp add: a_param_init_def gmp_ref_def Let_def)
  then show ?thesis
    using a_param_gen_correct [of gmp_ref 3 is_prime "\<lambda>i. 0" "\<lambda>i l. 1" 6 a_param_init 0 0 0] gmp_ref.gmp_laws_axioms
    by (simp add: gmp_ref.rounds_def)
qed

section \<open>Calls through the table\<close>

definition fresh_state :: "('z, 'a) pairing_s \<Rightarrow> 'a point_store \<Rightarrow> ('z, 'a) pairing_state" where
  "fresh_state p mem = \<lparr> ps_pairing = p, ps_mem = mem, ps_pp = Map.empty \<rparr>"

text \<open>C2: After the initialisation of a pairing of type A, every sequence of calls that applies and
  clears preprocessed data only while the method is in force that made it runs to its end, in
  one way: no routine finds data of another layout. Each value is that of a routine of type A at the
  points the call means, which for preprocessed data is the point as it was when it was
  preprocessed.\<close>

theorem pairing_calls_sound:
  assumes "pairing_init_a_param G fpz fpq R n p par = Some (p', n')"
    and "calls_type cs (pp_miller, Map.empty) = Some t"
  shows "\<exists>xs s. pairing_run G (fresh_state p' mem) cs xs s \<and>
    list_all2 (\<lambda>q x. x \<in> a_values G (pg_data p') (par_r par) (par_h par) q) (paired cs mem Map.empty) xs \<and>
    (\<forall>ys s'. pairing_run G (fresh_state p' mem) cs ys s' \<longrightarrow> ys = xs \<and> s' = s)"
proof -
  have "a_state_ok G (pg_data p') (par_r par) (par_h par) (pp_miller, Map.empty) Map.empty (fresh_state p' mem)"
    using pairing_init_table_ok [OF assms(1)] by (simp add: a_state_ok_def fresh_state_def)
  from run_sound [OF assms(2) this] show ?thesis
    using run_deterministic unfolding fresh_state_def pairing_state.simps by blast
qed

definition calls59 :: "int pairing_call list" where
  "calls59 = [Call_set 0 (pt59 25 29), Call_pp_init 0 0, Call_set 0 (pt59 25 30),
     Call_pp_apply 0 \<lparr> fq_x = 0, fq_y = 0 \<rparr> (pt59 25 29), Call_pp_clear 0,
     Call_option ''method'' ''shipsey-stange'', Call_set 0 (pt59 25 29), Call_pp_init 0 0,
     Call_pp_apply 0 \<lparr> fq_x = 0, fq_y = 0 \<rparr> (pt59 25 29)]"

lemma calls59_ok: "\<exists>t. calls_type calls59 (pp_miller, Map.empty) = Some t"
  by (simp add: calls59_def option_mode_def)

lemma paired_calls59:
  "paired calls59 mem Map.empty = [(\<lparr> fq_x = 0, fq_y = 0 \<rparr>, pt59 25 29, pt59 25 29), (\<lparr> fq_x = 0, fq_y = 0 \<rparr>, pt59 25 29, pt59 25 29)]"
  by (simp add: calls59_def)

lemma pairing_calls_sound_witness:
  "\<exists>p' n' xs s. pairing_init_a_param gmp_ref (field_init_naive_fp gmp_ref) (field_init_naive_fp gmp_ref) (\<lambda>i l. 0) 0 pairing0 par59 = Some (p', n') \<and>
    pairing_run gmp_ref (fresh_state p' (\<lambda>i. pt59 0 0)) calls59 xs s \<and> length xs = 2"
proof -
  obtain p' n' where i: "pairing_init_a_param gmp_ref (field_init_naive_fp gmp_ref) (field_init_naive_fp gmp_ref) (\<lambda>i l. 0) 0 pairing0 par59 = Some (p', n')"
    by (rule init59)
  obtain t where t: "calls_type calls59 (pp_miller, Map.empty) = Some t" using calls59_ok by blast
  obtain xs s where xs: "pairing_run gmp_ref (fresh_state p' (\<lambda>i. pt59 0 0)) calls59 xs s"
    "list_all2 (\<lambda>q x. x \<in> a_values gmp_ref (pg_data p') (par_r par59) (par_h par59) q) (paired calls59 (\<lambda>i. pt59 0 0) Map.empty) xs"
    using pairing_calls_sound [OF i t, of "\<lambda>i. pt59 0 0"] by blast
  have "length xs = 2" using list_all2_lengthD [OF xs(2)] unfolding paired_calls59 by simp
  with xs(1) i show ?thesis by blast
qed

section \<open>From text to values\<close>

lemma init_spec_done:
  assumes "pairing_init_inp_buf G IO fpz fpq R n p (a_param_out_str IO par) (length (a_param_out_str IO par)) = init_done p' n'"
    and IO: "gmp_io_laws IO" "small_int (exp2 par)" "small_int (exp1 par)" "small_int (sign1 par)" "small_int (sign0 par)"
  shows "\<exists>p. pairing_init_a_param G fpz fpq R n p par = Some (p', n')"
proof -
  have "tracker_reads (tracker_init (a_param_out_str IO par) (length (a_param_out_str IO par))) (a_param_out_str IO par)"
    using tracker_init_reads [of "length (a_param_out_str IO par)" "a_param_out_str IO par"] by simp
  from buf.pairing_init_text [OF this gmp_io_laws.out_str_ascii [OF IO(1)], of G IO fpz fpq R n p]
  have "init_spec G fpz fpq R n p (text_a par) = init_done p' n'"
    using assms(1) unfolding pairing_init_inp_buf_def gmp_io_laws.param_text_out_str [OF IO] by (rule trans [OF sym])
  then show ?thesis by (auto simp: init_spec_def split: option.splits)
qed

text \<open>C1: From the text to the values: a pairing that is initialised from the text of parameters of type A
  over a prime field answers every disciplined sequence of calls, whatever methods it selects, with
  powers \<open>(q - 1) h\<close> of the product of the lines or of the term of the net at the points the call
  means, and the \<open>r\<close>-th power of each answer is 1.\<close>

theorem pairing_text_to_values:
  assumes "pairing_init_inp_buf G IO fpz (field_init_naive_fp G) R n p (a_param_out_str IO par)
      (length (a_param_out_str IO par)) = init_done p' n'"
    and "gmp_io_laws IO" "small_int (exp2 par)" "small_int (exp1 par)" "small_int (sign1 par)" "small_int (sign0 par)"
    and "a_param_prime G (of_int :: int \<Rightarrow> 'k::comm_ring_1) par"
  shows "\<exists>cdp. a_prime_curve G (par_q par) None cdp \<and>
    (\<forall>cs mem t. calls_type cs (pp_miller, Map.empty) = Some t \<longrightarrow>
       (\<forall>q\<in>set (paired cs mem Map.empty). pair_ok (par_q par) cdp par (of_int :: int \<Rightarrow> 'k) q) \<longrightarrow>
       (\<exists>xs s. pairing_run G (fresh_state p' mem) cs xs s \<and>
          list_all2 (\<lambda>q x. pairing_value cdp par (of_int :: int \<Rightarrow> 'k) q (gauss_val of_int x)) (paired cs mem Map.empty) xs))"
proof -
  obtain p0 where "pairing_init_a_param G fpz (field_init_naive_fp G) R n p0 par = Some (p', n')"
    using init_spec_done [OF assms(1-6)] by blast
  from pairing_run_values [OF this assms(7)] show ?thesis unfolding fresh_state_def .
qed

lemma init_text59:
  obtains p' n' where "pairing_init_inp_buf gmp_ref gmp_io_ref (field_init_naive_fp gmp_ref) (field_init_naive_fp gmp_ref)
    (\<lambda>i l. 0) 0 pairing0 (a_param_out_str gmp_io_ref par59) (length (a_param_out_str gmp_io_ref par59)) = init_done p' n'"
proof -
  let ?t = "a_param_out_str gmp_io_ref par59"
  obtain p' n' where i: "pairing_init_a_param gmp_ref (field_init_naive_fp gmp_ref) (field_init_naive_fp gmp_ref) (\<lambda>i l. 0) 0
      ((pairing_set_defaults pairing0)\<lparr> pg_is_almost_coddh := coddh_generic, pg_phi := phi_warn \<rparr>) par59 = Some (p', n')"
    by (rule init59)
  have "tracker_reads (tracker_init ?t (length ?t)) ?t"
    using tracker_init_reads [of "length ?t" ?t] by simp
  moreover have "param_text gmp_io_ref ?t = text_a par59"
    by (rule io_ref.param_text_out_str) (simp_all add: par59_def small_int_def)
  ultimately have "pairing_init_inp_buf gmp_ref gmp_io_ref (field_init_naive_fp gmp_ref) (field_init_naive_fp gmp_ref)
      (\<lambda>i l. 0) 0 pairing0 ?t (length ?t) = init_done p' n'"
    unfolding pairing_init_inp_buf_def by (simp add: buf.pairing_init_text io_ref.out_str_ascii init_spec_def i)
  then show ?thesis by (rule that)
qed

lemma pairing_text_to_values_witness:
  "\<exists>p' n' xs s. pairing_init_inp_buf gmp_ref gmp_io_ref (field_init_naive_fp gmp_ref) (field_init_naive_fp gmp_ref)
      (\<lambda>i l. 0) 0 pairing0 (a_param_out_str gmp_io_ref par59) (length (a_param_out_str gmp_io_ref par59)) = init_done p' n' \<and>
    pairing_run gmp_ref (fresh_state p' (\<lambda>i. pt59 0 0)) calls59 xs s \<and> length xs = 2 \<and>
    (\<forall>x\<in>set xs. gauss_val (of_int :: int \<Rightarrow> 59) x ^ 5 = 1)"
proof -
  obtain p' n' where i: "pairing_init_inp_buf gmp_ref gmp_io_ref (field_init_naive_fp gmp_ref) (field_init_naive_fp gmp_ref)
      (\<lambda>i l. 0) 0 pairing0 (a_param_out_str gmp_io_ref par59) (length (a_param_out_str gmp_io_ref par59)) = init_done p' n'"
    by (rule init_text59)
  obtain t where t: "calls_type calls59 (pp_miller, Map.empty) = Some t" using calls59_ok by blast
  have small: "small_int (exp2 par59)" "small_int (exp1 par59)" "small_int (sign1 par59)" "small_int (sign0 par59)"
    by (simp_all add: par59_def small_int_def)
  have q59: "par_q par59 = 59" "nat (par_r par59) = 5" by (simp_all add: par59_def)
  obtain cdp where cdp: "a_prime_curve gmp_ref 59 None cdp"
    and run: "(\<forall>q\<in>set (paired calls59 (\<lambda>i. pt59 0 0) Map.empty). pair_ok 59 cdp par59 (of_int :: int \<Rightarrow> 59) q) \<longrightarrow>
      (\<exists>xs s. pairing_run gmp_ref (fresh_state p' (\<lambda>i. pt59 0 0)) calls59 xs s \<and>
        list_all2 (\<lambda>q x. pairing_value cdp par59 (of_int :: int \<Rightarrow> 59) q (gauss_val of_int x)) (paired calls59 (\<lambda>i. pt59 0 0) Map.empty) xs)"
    using pairing_text_to_values [OF i io_ref.gmp_io_laws_axioms small par59_prime] t unfolding q59 by blast
  obtain xs s where xs: "pairing_run gmp_ref (fresh_state p' (\<lambda>i. pt59 0 0)) calls59 xs s"
    "list_all2 (\<lambda>q x. pairing_value cdp par59 (of_int :: int \<Rightarrow> 59) q (gauss_val of_int x)) (paired calls59 (\<lambda>i. pt59 0 0) Map.empty) xs"
    using run pair_ok59 [OF cdp] unfolding paired_calls59 by auto
  have "length xs = 2" using list_all2_lengthD [OF xs(2)] unfolding paired_calls59 by simp
  moreover have "list_all2 (\<lambda>q x. gauss_val (of_int :: int \<Rightarrow> 59) x ^ 5 = 1) (paired calls59 (\<lambda>i. pt59 0 0) Map.empty) xs"
    by (rule list_all2_mono [OF xs(2)]) (auto simp: pairing_value_def q59)
  then have "\<forall>x\<in>set xs. gauss_val (of_int :: int \<Rightarrow> 59) x ^ 5 = 1"
    by (auto simp: list_all2_conv_all_nth in_set_conv_nth)
  ultimately show ?thesis using i xs(1) by blast
qed

section \<open>Diffie-Hellman tuples\<close>

text \<open>C9: The test for co-Diffie-Hellman tuples answers 1 exactly when the values \<open>e (a, d)\<close> and
  \<open>e (b, c)\<close> are equal or inverse to each other.\<close>

theorem almost_coddh_decides:
  assumes "pairing_init_a_param G fpz (field_init_naive_fp G) R n p par = Some (p', n')"
    and "a_param_prime G (of_int :: int \<Rightarrow> 'k::comm_ring_1) par"
  shows "\<exists>cdp. a_prime_curve G (par_q par) None cdp \<and>
    (\<forall>a b c d. pair_ok (par_q par) cdp par (of_int :: int \<Rightarrow> 'k) (\<lparr> fq_x = 0, fq_y = 0 \<rparr>, a, d) \<longrightarrow>
       pair_ok (par_q par) cdp par (of_int :: int \<Rightarrow> 'k) (\<lparr> fq_x = 0, fq_y = 0 \<rparr>, b, c) \<longrightarrow>
       (\<exists>z0 z1. pairing_value cdp par (of_int :: int \<Rightarrow> 'k) (\<lparr> fq_x = 0, fq_y = 0 \<rparr>, a, d) z0 \<and>
          pairing_value cdp par (of_int :: int \<Rightarrow> 'k) (\<lparr> fq_x = 0, fq_y = 0 \<rparr>, b, c) z1 \<and>
          generic_is_almost_coddh G p' a b c d = Some (if z0 = z1 \<or> z0 * z1 = 1 then 1 else 0)))"
  using pairing_init_a_table [OF assms(1)] coddh_value [OF assms(2)] by metis

lemma almost_coddh_decides_witness:
  "\<exists>p' n' z0 z1. pairing_init_a_param gmp_ref (field_init_naive_fp gmp_ref) (field_init_naive_fp gmp_ref) (\<lambda>i l. 0) 0 pairing0 par59 = Some (p', n') \<and>
    generic_is_almost_coddh gmp_ref p' (pt59 25 29) (pt59 25 29) (pt59 25 29) (pt59 25 29) =
      Some (if z0 = (z1 :: 59 gauss) \<or> z0 * z1 = 1 then 1 else 0)"
proof -
  obtain p' n' where i: "pairing_init_a_param gmp_ref (field_init_naive_fp gmp_ref) (field_init_naive_fp gmp_ref) (\<lambda>i l. 0) 0 pairing0 par59 = Some (p', n')"
    by (rule init59)
  have q59: "par_q par59 = 59" by (simp add: par59_def)
  from almost_coddh_decides [OF i par59_prime, unfolded q59] i pair_ok59 show ?thesis by metis
qed

section \<open>The built-in parameters\<close>

lemma nbits_between:
  assumes "2 ^ k \<le> n" "n < 2 ^ Suc k"
  shows "nbits n = Suc k"
proof -
  have "2 ^ k < (2::nat) ^ nbits n" using assms(1) nbits_upper [of n] by (rule le_less_trans)
  then have "k < nbits n" by simp
  moreover have "nbits n \<le> Suc k" using nbits_le [OF assms(2)] by simp
  ultimately show ?thesis by simp
qed

lemma builtin_lengths:
  assumes "gmp_laws G"
  shows "f_fixed_length (field_init_naive_fp G (par_q a_param_builtin)) = 64"
    and "f_fixed_length (field_init_naive_fp G (par_r a_param_builtin)) = 20"
proof -
  have "nbits (nat (par_q a_param_builtin)) = Suc 511" "nbits (nat (par_r a_param_builtin)) = Suc 159"
    by (rule nbits_between; simp add: a_param_builtin_def)+
  moreover have "0 < par_q a_param_builtin" "0 < par_r a_param_builtin" by (simp_all add: a_param_builtin_def)
  ultimately show "f_fixed_length (field_init_naive_fp G (par_q a_param_builtin)) = 64"
      "f_fixed_length (field_init_naive_fp G (par_r a_param_builtin)) = 20"
    by (simp_all add: field_init_naive_fp_def naive_fp_base_def zp_length_def gmp_laws.sizeinbase [OF assms])
qed

text \<open>C10: \<open>a_param_input\<close> sets up a symmetric pairing whose order is \<open>2^159 + 2^107 + 1\<close>, a divisor
  of \<open>q + 1\<close> with the stored cofactor, for a 512-bit \<open>q\<close> that is \<open>- 1\<close> modulo 12; points take 128
  bytes, compressed 65, values 128 and exponents 20.\<close>

theorem a_param_input_builtin:
  assumes "gmp_laws G"
    and "a_param_input G (field_init_naive_fp G) (field_init_naive_fp G) R n p = Some (p', n')"
  shows "pg_r p' = 2 ^ 159 + 2 ^ 107 + 1 \<and> pg_r p' * pg_phikonr p' = par_q a_param_builtin + 1 \<and>
    par_q a_param_builtin mod 12 = 11 \<and> pairing_is_symmetric p' \<and> pg_is_almost_coddh p' = coddh_generic \<and>
    pairing_length_in_bytes_G1 p' = Some 128 \<and> pairing_length_in_bytes_compressed_G1 p' = Some 65 \<and>
    pairing_length_in_bytes_x_only_G2 p' = Some 64 \<and> pairing_length_in_bytes_GT p' = Some 128 \<and>
    pairing_length_in_bytes_Zr p' = 20"
proof -
  let ?p = "(pairing_set_defaults p)\<lparr> pg_is_almost_coddh := coddh_generic, pg_phi := phi_warn \<rparr>"
  have i: "pairing_init_a_param G (field_init_naive_fp G) (field_init_naive_fp G) R n ?p a_param_builtin = Some (p', n')"
    using assms(2) by (simp add: a_param_input_def)
  note len = builtin_lengths [OF assms(1)]
  obtain cdp where cdp: "a_prime_curve G (par_q a_param_builtin) None cdp"
    "a_table_ok (a_data G cdp (par_r a_param_builtin) (exp2 a_param_builtin) (exp1 a_param_builtin) (sign1 a_param_builtin))
       (par_r a_param_builtin) (par_h a_param_builtin) pp_miller p'"
    "pg_Zr p' = field_init_naive_fp G (par_r a_param_builtin)" "pg_G1 p' = group_Eq" "pg_G2 p' = group_Eq" "pg_GT p' = group_Fq2"
    "pg_is_almost_coddh p' = pg_is_almost_coddh ?p"
    by (rule pairing_init_a_table [OF i])
  have p: "pg_r p' = par_r a_param_builtin" "pg_phikonr p' = par_h a_param_builtin"
    "pg_data p' = a_data G cdp (par_r a_param_builtin) (exp2 a_param_builtin) (exp1 a_param_builtin) (sign1 a_param_builtin)"
    using cdp(2) by (simp_all add: a_table_ok_def)
  have F: "f_fixed_length (cv_field cdp) = 64"
    using cdp(1) len(1) by (simp add: a_prime_curve_def)
  have G: "group_length (pg_data p') group_Eq = Some 128" "group_length (pg_data p') group_Fq2 = Some 128"
    by (simp_all add: group_length_def p(3) curve_table_def curve_base_def field_init_fi_def F Let_def)
  have "par_r a_param_builtin = 2 ^ 159 + 2 ^ 107 + 1" "par_r a_param_builtin * par_h a_param_builtin = par_q a_param_builtin + 1"
    "par_q a_param_builtin mod 12 = 11"
    using a_param_builtin_ok by (simp_all add: a_param_ok_def a_param_builtin_def)
  moreover have "pairing_length_in_bytes_Zr p' = 20" by (simp add: pairing_length_in_bytes_Zr_def cdp(3) len(2))
  ultimately show ?thesis
    by (simp add: p(1,2) cdp(4-7) pairing_is_symmetric_def pairing_length_in_bytes_G1_def pairing_length_in_bytes_compressed_G1_def
        pairing_length_in_bytes_x_only_G2_def pairing_length_in_bytes_GT_def G)
qed

lemma a_param_input_builtin_witness:
  "\<exists>p' n'. a_param_input gmp_ref (field_init_naive_fp gmp_ref) (field_init_naive_fp gmp_ref) (\<lambda>i l. 0) 0 pairing0 = Some (p', n') \<and>
    pairing_length_in_bytes_G1 p' = Some 128"
proof -
  have "1 < par_q a_param_builtin" by (simp add: a_param_builtin_def)
  then obtain p' n' where i: "a_param_input gmp_ref (field_init_naive_fp gmp_ref) (field_init_naive_fp gmp_ref) (\<lambda>i l. 0) 0 pairing0 = Some (p', n')"
    unfolding a_param_input_def Let_def using zero_draw_init by blast
  with a_param_input_builtin [OF gmp_ref.gmp_laws_axioms i] show ?thesis by blast
qed

end
