(* ===== verification/Spec2Isabelle.thy ===== *)
theory Spec2Isabelle
  imports FieldProps QuadraticProps PolyProps MiscProps PolymodProps CurveProps IntProps MontProps FastProps PbcRandom PairingProps
begin

text \<open>
  A verification development for PBC 0.4.7, a library for pairing-based cryptography in C.

  \<^bold>\<open>The program.\<close> PBC builds algebraic structures on top of each other. A structure is a table of
  function pointers, \<^verbatim>\<open>struct field_s\<close> of \<^verbatim>\<open>include/pbc_field.h\<close>; an element is untyped data and a
  pointer to its table. Rings and fields (\<^verbatim>\<open>arith\<close>) are the integers, integers modulo a prime in
  several representations, extensions of degree two, polynomials and their quotients; a curve
  (\<^verbatim>\<open>ecc/curve.c\<close>) is a table over the table of its base field, and generic routines of
  \<^verbatim>\<open>arith/field.c\<close> (exponentiation, comparison, fallbacks) work on every table. A pairing
  (\<^verbatim>\<open>ecc/pairing.c\<close>, \<^verbatim>\<open>ecc/a_param.c\<close>) is another table, over a curve and an extension; it is set up
  from parameters, which are read from text by a tokenizer into a symbol table (\<^verbatim>\<open>ecc/param.c\<close>,
  \<^verbatim>\<open>misc\<close>).

  \<^bold>\<open>How the code is represented.\<close> The table of functions is the record \<open>field_s\<close> of \<open>Field\<close> over the
  type of element data. A routine that writes its result through its first argument takes the
  old value of that destination and returns the new one, so that a write that leaves a part
  as it was is visible: a point set to infinity keeps its coordinates, a zero in Montgomery form its
  limbs. A pointer that \<^verbatim>\<open>field_init\<close> sets to a generic routine is an option. Local variables that a
  routine passes on, and temporaries that are written again, are components of tuples. Pointers are
  compared in a few routines only; there the answer is an argument \<open>same\<close>, and the dispatchers of
  the model call with distinct objects. Failing operations return an option; a loop that may not end
  is a \<open>partial_function\<close> whose result is then \<open>None\<close>; loops with a bound are structural recursion on
  a counter, so no fuel is used anywhere. Integers of GMP are \<open>int\<close>, machine words and limbs
  are words of 32 bits; the platform has 32-bit \<^verbatim>\<open>long\<close>s and limbs.

  \<^bold>\<open>Parameters.\<close> GMP is not part of the repository. Its integer functions are the record \<open>gmp\<close>, its
  functions on limbs the records \<open>mpn\<close> and \<open>mpn_div\<close>, its conversions to and from text the record
  \<open>gmp_io\<close>; what their manual documents is stated by the locales \<open>gmp_laws\<close>, \<open>mpn_laws\<close>,
  \<open>mpn_div_laws\<close> and \<open>gmp_io_laws\<close>, and \<open>gmp_ref\<close>, \<open>mpn_ref\<close>, \<open>mpn_div_ref\<close>, \<open>gmp_io_ref\<close> are executable instances on which witnesses evaluate. The
  numbers of OpenSSL are the record \<open>bn\<close>, with \<open>bn_laws\<close> and \<open>bn_ref\<close>. Outside \<open>PbcRandom\<close> random numbers are
  a stream \<open>R\<close> whose \<open>i\<close>-th draw below a limit is \<open>R i limit\<close>, with the count of draws passed on;
  \<^verbatim>\<open>rand ()\<close> is a second stream; the primality test is a predicate.

  \<^bold>\<open>Theories and what they show.\<close>
  \<^item> \<open>Prelude\<close>, \<open>Gmp\<close>, \<open>Mpn\<close>, \<open>Gauss\<close>, \<open>Series\<close>: shared collections and lemmas, the parameters, and
    two rings in which the code is described.
  \<^item> \<open>Field\<close>, \<open>Contracts\<close>, \<open>SqrtField\<close>: the table of functions and the generic routines of
    \<^verbatim>\<open>arith/field.c\<close>; the contracts \<open>magma_impl\<close>, \<open>monoid_impl\<close>, \<open>ring_impl\<close>, \<open>field_impl\<close>,
    \<open>sqrt_field\<close> between a table and its users.
  \<^item> \<open>Pow\<close>, \<open>PowCorrect\<close>: the exponentiations (sliding windows, two and three bases, tables for a fixed
    base) compute powers in every structure that keeps the contract of a monoid.
  \<^item> \<open>MpzBytes\<close>, \<open>Tonelli\<close>, \<open>NaiveFp\<close>, \<open>FieldProps\<close>: numbers as bytes, hashes and text, square roots of
    \<^verbatim>\<open>arith/fp.c\<close>, and the prime fields of \<^verbatim>\<open>arith/naivefp.c\<close>, which implement the integers modulo \<open>p\<close>.
  \<^item> \<open>MontFp\<close>, \<open>MontCorrect\<close>, \<open>MontRefine\<close>, \<open>MontProps\<close>: \<^verbatim>\<open>arith/montfp.c\<close> refines
    \<^verbatim>\<open>arith/naivefp.c\<close>, for odd moduli of more than one limb whose top limb is not all ones; for
    the others a carry is lost. \<open>FastFp\<close>, \<open>FastRefine\<close>, \<open>FasterFp\<close>, \<open>FasterRefine\<close>, \<open>FastProps\<close>:
    \<^verbatim>\<open>arith/fastfp.c\<close> and \<^verbatim>\<open>arith/fasterfp.c\<close> refine it too, for moduli of more than one limb.
    Where the flag for zero and the limbs of the first and the third of these files get out of step
    with each other (products that are zero, multiples of the modulus in setters, comparison with
    zero, halving), the refinement has an exception, which the properties name. \<open>TinyFp\<close>, \<open>FieldZ\<close>, \<open>IntProps\<close>: \<^verbatim>\<open>arith/tinyfp.c\<close> and
    \<^verbatim>\<open>arith/fieldmpz.c\<close>.
  \<^item> \<open>PbcRandom\<close>: \<^verbatim>\<open>arith/random.c\<close>. Numbers drawn by OpenSSL reach GMP unchanged and below the
    limit; numbers from a file are its first block below the limit.
  \<^item> \<open>Quadratic\<close>, \<open>QuadraticCorrect\<close>, \<open>Fi\<close>, \<open>QuadraticProps\<close>: the two tables of
    \<^verbatim>\<open>arith/fieldquadratic.c\<close> keep the contract they are built on, square roots included.
  \<^item> \<open>Poly\<close>, \<open>PolyCorrect\<close>, \<open>PolyDiv\<close>, \<open>PolyInvert\<close>, \<open>PolyProps\<close> and \<open>Polymod\<close>, \<open>PolymodCorrect\<close>,
    \<open>PolymodKaratsuba\<close>, \<open>PolymodField\<close>, \<open>PolymodTable\<close>, \<open>PolymodProps\<close>: polynomials with division and
    the Euclidean algorithms, which end, and quotients by a polynomial, \<^verbatim>\<open>arith/poly.c\<close>.
  \<^item> \<open>Curve\<close>, \<open>CurveCorrect\<close>, \<open>CurveTable\<close>, \<open>CurveSearch\<close>, \<open>CurveGroup\<close>, \<open>CurveProps\<close>, with the
    instances \<open>Curve7\<close> and \<open>Curve257\<close>: \<^verbatim>\<open>ecc/curve.c\<close> implements the chord and tangent law, what its
    operations and searches produce is on the curve (the reader of text, after an error, and the
    reader of compressed points do not promise that), and searches return exactly when there is
    something to find.
  \<^item> \<open>APairing\<close>, \<open>ATate\<close>, \<open>AMiller\<close>, \<open>AProj\<close>, \<open>APairingCorrect\<close>, \<open>APairingPrime\<close>: the Miller loops of
    \<^verbatim>\<open>ecc/a_param.c\<close> in three forms compute one product of lines, and the Lucas sequence its power
    \<open>(q - 1) h\<close>. \<open>AEllnet\<close>, \<open>AEllnetCorrect\<close>, \<open>AEllnetPairing\<close>, \<open>AEllnetPrime\<close>: the elliptic nets. The
    instances \<open>APairing59\<close>, \<open>AEllnet59\<close>, \<open>AValue59\<close>; the properties are in \<open>APairingProps\<close>.
  \<^item> \<open>Darray\<close>, \<open>Symtab\<close>, \<open>Parse\<close>, \<open>MiscProps\<close>: \<^verbatim>\<open>misc\<close>, with the interfaces \<open>dictionary\<close> and
    \<open>fetch_source\<close>, which the next layer uses.
  \<^item> \<open>Param\<close>, \<open>AParam\<close>, \<open>AParamCorrect\<close>, \<open>ParamRef\<close>: parameter files, \<^verbatim>\<open>ecc/param.c\<close>, and the parameters
    of type A: their generation ends with the first good round, their text is read back.
  \<^item> \<open>Pairing\<close>, \<open>PairingInit\<close>, \<open>PairingCalls\<close>, \<open>PairingValue\<close>, \<open>PairingProps\<close>: the table of a pairing.
    Its initialisation is a function of the tokens of the text. Calls are a step relation; a
    discipline on the calls, in the manner of a type system, keeps the routines from data
    of another layout, and composed with the theories above gives the values of every disciplined
    sequence of calls on a pairing that was read from text.

  \<^bold>\<open>Conditions.\<close> Statements about the pairing are for points in general position, the predicates \<open>a_generic\<close>
  and \<open>pair_ok\<close>: no doubling in the loop meets infinity or a point of order two, no line of the last
  step is vertical, no denominator of the net vanishes. The nets need \<open>2 \<le> r\<close>. That the value is
  bilinear and not degenerate is not shown, nor that the curve has \<open>q + 1\<close> points: the first needs the
  theory of divisors, the second a count of points. The moduli are primes where division or a root is
  concerned. The texts that are read are ASCII.

  \<^bold>\<open>Not modelled.\<close> Output to a \<^verbatim>\<open>FILE\<close>, the release of memory, and failures of the allocator, which end the
  process. The index calculus and \<^verbatim>\<open>pollard_rho\<close>;
  irreducibility and roots of polynomials; the pairings of types D, E, F and G, and A1, which is disabled in
  the source; class polynomials and the search for curves, which use the floating-point numbers of GMP;
  the calculator, examples, tests and benchmarks; OpenSSL and the headers of GMP, which are copies of
  other projects.
\<close>

end
